(* ===== verification/Troia_Prelude.thy ===== *)
theory Troia_Prelude
  imports Main "HOL-Library.AList" "HOL-Library.Word"
begin

text \<open>
  The vocabulary that every component of the development shares.

  \<^item> A JavaScript \<open>string\<close> is a \<open>ustring\<close>, a list of 16-bit code units; an ASCII literal of the
    source is \<open>lit ''abc''\<close>. Names that never meet run-time data (the tags of states, events and
    errors) are HOL strings or constructors.
  \<^item> A JavaScript \<open>Map\<close> is an association list in insertion order. \<open>AList.update\<close> overwrites
    an existing key in place and appends a new one, which is what \<open>Map.prototype.set\<close> does;
    \<open>AList.delete\<close> is \<open>Map.prototype.delete\<close> and \<open>map_of\<close> is \<open>Map.prototype.get\<close>.
  \<^item> A \<open>bigint\<close>, and a \<open>number\<close> that the code only uses as an integer, is an \<open>int\<close>.
    BigInt division truncates towards zero: \<open>bigdiv\<close>.
  \<^item> A function that may throw returns a sum, \<open>Inl\<close> for the error.
\<close>

section \<open>Shared types\<close>

type_synonym ustring = "16 word list"
type_synonym ('k, 'v) jsmap = "('k \<times> 'v) list"

named_theorems troia_simps \<open>unfolding rules the component proofs share\<close>
named_theorems frame_simps \<open>which parts of a state an operation leaves alone\<close>

text \<open>An ASCII literal of the source as code units.\<close>

definition lit :: "string \<Rightarrow> ustring" where
  "lit s = map (\<lambda>c. of_nat (of_char c)) s"

definition has_key :: "('k, 'v) jsmap \<Rightarrow> 'k \<Rightarrow> bool" where
  "has_key m k = (map_of m k \<noteq> None)"

text \<open>Sequencing of computations that may throw.\<close>

definition bindR :: "'e + 'a \<Rightarrow> ('a \<Rightarrow> 'e + 'b) \<Rightarrow> 'e + 'b" where
  "bindR m f = (case m of Inl e \<Rightarrow> Inl e | Inr x \<Rightarrow> f x)"

text \<open>BigInt division: rounds towards zero. The callers check for a zero divisor first.\<close>

definition bigdiv :: "int \<Rightarrow> int \<Rightarrow> int" where
  "bigdiv a b = sgn a * sgn b * (\<bar>a\<bar> div \<bar>b\<bar>)"

text \<open>Canonical base-10 text, as \<open>String(n)\<close> prints a non-negative BigInt, and its reader.\<close>

definition digit :: "nat \<Rightarrow> char" where
  "digit n = char_of (48 + n)"

definition digit_val :: "char \<Rightarrow> nat" where
  "digit_val c = of_char c - 48"

definition is_digit :: "char \<Rightarrow> bool" where
  "is_digit c = (48 \<le> (of_char c :: nat) \<and> (of_char c :: nat) \<le> 57)"

fun nat_dec :: "nat \<Rightarrow> string" where
  "nat_dec n = (if n < 10 then [digit n] else nat_dec (n div 10) @ [digit (n mod 10)])"

declare nat_dec.simps [simp del]

definition dec_nat :: "string \<Rightarrow> nat" where
  "dec_nat s = foldl (\<lambda>a c. a * 10 + digit_val c) 0 s"

text \<open>The grammar \<open>/^(0|[1-9][0-9]*)$/\<close> that the codecs pin amounts to.\<close>

definition is_canonical_decimal :: "string \<Rightarrow> bool" where
  "is_canonical_decimal s = (s = ''0'' \<or> (s \<noteq> [] \<and> hd s \<noteq> CHR ''0'' \<and> list_all is_digit s))"

text \<open>\<open>String(b)\<close> of a BigInt, and \<open>BigInt(s)\<close> on a string that passed the decimal grammar.\<close>

definition bigint_str :: "int \<Rightarrow> string" where
  "bigint_str i = (if i < 0 then CHR ''-'' # nat_dec (nat (- i)) else nat_dec (nat i))"

definition str_bigint :: "string \<Rightarrow> int" where
  "str_bigint s = int (dec_nat s)"

text \<open>Parsed JSON, the value \<open>JSON.parse\<close> returns and \<open>JSON.stringify\<close> prints. A number is kept
  when it is an integer (\<open>JInt\<close>); any other number is \<open>JFrac\<close>, which no codec accepts. Object keys
  are ASCII; string values are code units.\<close>

datatype json =
    JNull
  | JBool bool
  | JInt int
  | JFrac
  | JStr ustring
  | JArr "json list"
  | JObj "(string \<times> json) list"

text \<open>\<open>(raw as Record)[key]\<close>: \<open>None\<close> is \<open>undefined\<close>.\<close>

fun jprop :: "json \<Rightarrow> string \<Rightarrow> json option" where
  "jprop (JObj kvs) k = map_of kvs k"
| "jprop _ k = None"

fun is_jobject :: "json \<Rightarrow> bool" where
  "is_jobject (JObj _) = True"
| "is_jobject (JArr _) = True"
| "is_jobject _ = False"

text \<open>\<open>Number.isSafeInteger\<close> on a JSON value.\<close>

definition is_safe_int :: "int \<Rightarrow> bool" where
  "is_safe_int i = (- (2 ^ 53 - 1) \<le> i \<and> i \<le> 2 ^ 53 - 1)"

text \<open>ASCII text of a JSON string: \<open>None\<close> when a code unit is not ASCII.\<close>

definition ascii_of :: "ustring \<Rightarrow> string option" where
  "ascii_of u = (if list_all (\<lambda>w. unat w < 128) u then Some (map (\<lambda>w. char_of (unat w)) u) else None)"

text \<open>White space as \<open>String.prototype.trim\<close> and \<open>BigInt\<close> see it.\<close>

definition js_space :: "16 word \<Rightarrow> bool" where
  "js_space w = (let n = unat w in
     n \<in> {9, 10, 11, 12, 13, 32, 0xA0, 0x1680, 0x2028, 0x2029, 0x202F, 0x205F, 0x3000, 0xFEFF} \<or> 0x2000 \<le> n \<and> n \<le> 0x200A)"

definition js_trim :: "ustring \<Rightarrow> ustring" where
  "js_trim u = rev (dropWhile js_space (rev (dropWhile js_space u)))"

section \<open>Lemmas on maps in insertion order\<close>

lemma map_of_jsset [simp]:
  "map_of (AList.update k v m) k' = (if k = k' then Some v else map_of m k')"
  by (simp add: update_conv')

lemma map_of_jsdel [simp]:
  "map_of (AList.delete k m) k' = (if k = k' then None else map_of m k')"
  by (simp add: delete_conv')

lemma has_key_iff: "has_key m k \<longleftrightarrow> k \<in> fst ` set m"
  by (auto simp: has_key_def map_of_eq_None_iff)

lemma map_of_eq_SomeI: "distinct (map fst m) \<Longrightarrow> (k, v) \<in> set m \<Longrightarrow> map_of m k = Some v"
  by simp

lemma update_absent:
  "k \<notin> fst ` set m \<Longrightarrow> AList.update k v m = m @ [(k, v)]"
  by (induction m) auto

lemma update_same: "map_of m k = Some v \<Longrightarrow> AList.update k v m = m"
  by (induction m) (auto split: if_splits)

lemma sum_list_update_absent:
  fixes f :: "'k \<times> 'v \<Rightarrow> int"
  assumes "map_of m k = None"
  shows "sum_list (map f (AList.update k v m)) = sum_list (map f m) + f (k, v)"
proof -
  from assms have "k \<notin> fst ` set m" by (simp add: map_of_eq_None_iff)
  then show ?thesis by (simp add: update_absent)
qed

lemma delete_absent: "map_of m k = None \<Longrightarrow> AList.delete k m = m"
  by (metis delete_id map_of_eq_None_iff)

lemma sum_list_delete:
  fixes f :: "'k \<times> 'v \<Rightarrow> int"
  assumes "distinct (map fst m)" and "map_of m k = Some v"
  shows "sum_list (map f (AList.delete k m)) = sum_list (map f m) - f (k, v)"
  using assms
proof (induction m)
  case Nil
  then show ?case by simp
next
  case (Cons p m)
  show ?case
  proof (cases "fst p = k")
    case True
    with Cons.prems have "map_of m k = None" and "p = (k, v)"
      by (auto simp: map_of_eq_None_iff)
    with True show ?thesis by (simp add: delete_absent)
  next
    case False
    with Cons.prems have "map_of m k = Some v" by (auto split: if_splits)
    with Cons False show ?thesis by (cases p) (auto simp: AList.delete_eq)
  qed
qed

section \<open>Lemmas on results and integers\<close>

lemma bindR_simps [simp]:
  "bindR (Inl e) f = Inl e"
  "bindR (Inr x) f = f x"
  by (simp_all add: bindR_def)

lemma bindR_Inr_iff: "bindR m f = Inr y \<longleftrightarrow> (\<exists>x. m = Inr x \<and> f x = Inr y)"
  by (cases m) auto

lemma bigdiv_nonneg: "0 \<le> a \<Longrightarrow> 0 < b \<Longrightarrow> bigdiv a b = a div b"
  by (cases "a = 0") (auto simp: bigdiv_def)

section \<open>Decimal text\<close>

lemma digit_val_digit [simp]: "n < 10 \<Longrightarrow> digit_val (digit n) = n"
  by (simp add: digit_val_def digit_def take_bit_eq_mod)

lemma is_digit_digit [simp]: "n < 10 \<Longrightarrow> is_digit (digit n)"
  by (simp add: is_digit_def digit_def take_bit_eq_mod)

lemma digit_0: "digit 0 = CHR ''0''"
proof -
  have "of_char CHR ''0'' = (48 :: nat)" by simp
  then have "char_of (48 :: nat) = CHR ''0''" by (metis char_of_char)
  then show ?thesis by (simp add: digit_def)
qed

lemma digit_eq_0: "n < 10 \<Longrightarrow> digit n = CHR ''0'' \<longleftrightarrow> n = 0"
  by (metis digit_val_digit digit_0 zero_less_numeral)

lemma nat_dec_nonempty [simp]: "nat_dec n \<noteq> []"
  by (subst nat_dec.simps) simp

lemma dec_nat_snoc: "dec_nat (s @ [c]) = dec_nat s * 10 + digit_val c"
  by (simp add: dec_nat_def)

lemma dec_nat_nat_dec [simp]: "dec_nat (nat_dec n) = n"
proof (induction n rule: nat_dec.induct)
  case (1 n)
  show ?case
  proof (cases "n < 10")
    case True
    then show ?thesis by (subst nat_dec.simps) (simp add: dec_nat_def)
  next
    case False
    with 1 show ?thesis by (subst nat_dec.simps) (simp add: dec_nat_snoc)
  qed
qed

lemma nat_dec_digits: "list_all is_digit (nat_dec n)"
proof (induction n rule: nat_dec.induct)
  case (1 n)
  then show ?case by (subst nat_dec.simps) auto
qed

lemma nat_dec_hd: "0 < n \<Longrightarrow> hd (nat_dec n) \<noteq> CHR ''0''"
proof (induction n rule: nat_dec.induct)
  case (1 n)
  show ?case
  proof (cases "n < 10")
    case True
    with 1 show ?thesis by (subst nat_dec.simps) (simp add: digit_eq_0)
  next
    case False
    then have "0 < n div 10" by simp
    with 1 False have "hd (nat_dec (n div 10)) \<noteq> CHR ''0''" by simp
    with False show ?thesis by (subst nat_dec.simps) simp
  qed
qed

lemma nat_dec_0: "nat_dec 0 = ''0''"
  by (subst nat_dec.simps) (simp add: digit_0)

lemma nat_dec_canonical: "is_canonical_decimal (nat_dec n)"
  by (cases "n = 0") (auto simp: is_canonical_decimal_def nat_dec_0 nat_dec_hd nat_dec_digits)

lemma bigint_str_canonical: "0 \<le> i \<Longrightarrow> is_canonical_decimal (bigint_str i)"
  by (simp add: bigint_str_def nat_dec_canonical)

lemma str_bigint_bigint_str: "0 \<le> i \<Longrightarrow> str_bigint (bigint_str i) = i"
  by (simp add: bigint_str_def str_bigint_def)

lemma unat_code_unit: "unat (of_nat (of_char c) :: 16 word) = (of_char c :: nat)"
proof -
  have "(of_char c :: nat) < 65536" by (rule less_trans [OF nat_of_char_less_256]) simp
  then show ?thesis by (simp add: unat_of_nat)
qed

lemma code_unit_inj: "(of_nat (of_char c) :: 16 word) = of_nat (of_char d) \<longleftrightarrow> c = d"
  by (metis unat_code_unit of_char_eq_iff)

lemma lit_Nil [simp]: "lit [] = []"
  by (simp add: lit_def)

lemma lit_eq_Nil [simp]: "lit s = [] \<longleftrightarrow> s = []"
  by (simp add: lit_def)

lemma lit_inj [simp]: "lit s = lit t \<longleftrightarrow> s = t"
proof
  assume "lit s = lit t"
  then show "s = t"
  proof (induction s arbitrary: t)
    case Nil
    then show ?case by (simp add: lit_def)
  next
    case (Cons c s)
    then show ?case by (cases t) (auto simp: lit_def code_unit_inj)
  qed
qed simp

lemma lit_append: "lit (s @ t) = lit s @ lit t"
  by (simp add: lit_def)

lemma length_lit [simp]: "length (lit s) = length s"
  by (simp add: lit_def)

lemma ascii_of_lit:
  assumes "list_all (\<lambda>c. (of_char c :: nat) < 128) s"
  shows "ascii_of (lit s) = Some s"
proof -
  from assms have "list_all (\<lambda>w. unat w < 128) (lit s)"
    by (induction s) (auto simp: lit_def unat_code_unit)
  moreover have "map (\<lambda>w. char_of (unat w)) (lit s) = s"
    by (induction s) (auto simp: lit_def unat_code_unit)
  ultimately show ?thesis by (simp add: ascii_of_def)
qed

end
