(* ===== verification/Derive_Ids.thy ===== *)
theory Derive_Ids
  imports Troia_Prelude
begin

text \<open>
  Identity derivation, \<^verbatim>\<open>packages/core/src/derive-ids.ts\<close> and \<^verbatim>\<open>strkey.ts\<close>: the canonical form
  of an order id, the byte encodings (UTF-8, length prefix, big-endian i128) and the three derived
  identities. Two pieces of code are not in the repository and are arguments of the definitions:
  \<open>nfc\<close>, the Unicode normalisation \<open>String.prototype.normalize('NFC')\<close>, and \<open>sha256\<close> of
  \<^verbatim>\<open>node:crypto\<close>; the StrKey validators of \<^verbatim>\<open>@stellar/stellar-base\<close> are two predicates. The lemmas
  show that the hash preimages are collision-free: equal preimages come from equal inputs, and the
  three identities never share a preimage.
\<close>

section \<open>UTF-16 well-formedness\<close>

type_synonym byte = "8 word"

definition is_high :: "16 word \<Rightarrow> bool" where
  "is_high c = (0xD800 \<le> unat c \<and> unat c \<le> 0xDBFF)"

definition is_low :: "16 word \<Rightarrow> bool" where
  "is_low c = (0xDC00 \<le> unat c \<and> unat c \<le> 0xDFFF)"

text \<open>The scan of the regular expression \<open>LONE_SURROGATE\<close>: at each position the two alternatives, the
  first with its lookahead and the second with its lookbehind (\<open>prev\<close>).\<close>

fun lone_scan :: "16 word option \<Rightarrow> ustring \<Rightarrow> bool" where
  "lone_scan prev [] = False"
| "lone_scan prev (c # rest) =
     ((is_high c \<and> (case rest of [] \<Rightarrow> True | d # _ \<Rightarrow> \<not> is_low d))
      \<or> (is_low c \<and> (case prev of None \<Rightarrow> True | Some p \<Rightarrow> \<not> is_high p))
      \<or> lone_scan (Some c) rest)"

definition LONE_SURROGATE :: "ustring \<Rightarrow> bool" where
  "LONE_SURROGATE u = lone_scan None u"

definition NON_ASCII :: "ustring \<Rightarrow> bool" where
  "NON_ASCII u = list_ex (\<lambda>c. 0x7F < unat c) u"

section \<open>Canonical order ids\<close>

datatype derive_error = OrderIdNotWellFormed | DestinationNotAscii | AmountOutOfRange

text \<open>A value that arrives from JSON: of the declared type, or of some other type.\<close>

datatype 'a jsval = JsIs 'a | JsOther

definition canonicalizeOrderId :: "(ustring \<Rightarrow> ustring) \<Rightarrow> ustring jsval \<Rightarrow> derive_error + ustring" where
  "canonicalizeOrderId nfc raw =
     (case raw of
        JsOther \<Rightarrow> Inl OrderIdNotWellFormed
      | JsIs s \<Rightarrow> if LONE_SURROGATE s then Inl OrderIdNotWellFormed else Inr (nfc s))"

section \<open>Byte encodings\<close>

text \<open>UTF-8 of a code point, and of a code-unit list; a lone surrogate is encoded as U+FFFD, as
  \<open>Buffer.from(s, 'utf8')\<close> does.\<close>

definition utf8_cp :: "nat \<Rightarrow> nat list" where
  "utf8_cp c =
     (if c < 0x80 then [c]
      else if c < 0x800 then [0xC0 + c div 64, 0x80 + c mod 64]
      else if c < 0x10000 then [0xE0 + c div 4096, 0x80 + c div 64 mod 64, 0x80 + c mod 64]
      else [0xF0 + c div 262144, 0x80 + c div 4096 mod 64, 0x80 + c div 64 mod 64, 0x80 + c mod 64])"

definition surrogate_cp :: "16 word \<Rightarrow> 16 word \<Rightarrow> nat" where
  "surrogate_cp h l = 0x10000 + (unat h - 0xD800) * 0x400 + (unat l - 0xDC00)"

fun utf8_nats :: "ustring \<Rightarrow> nat list" where
  "utf8_nats [] = []"
| "utf8_nats [c] = utf8_cp (if is_high c \<or> is_low c then 0xFFFD else unat c)"
| "utf8_nats (c # d # rest) =
     (if is_high c \<and> is_low d then utf8_cp (surrogate_cp c d) @ utf8_nats rest
      else utf8_cp (if is_high c \<or> is_low c then 0xFFFD else unat c) @ utf8_nats (d # rest))"

definition utf8 :: "ustring \<Rightarrow> byte list" where
  "utf8 u = map of_nat (utf8_nats u)"

definition u32be :: "nat \<Rightarrow> byte list" where
  "u32be n = [of_nat (n div 16777216), of_nat (n div 65536), of_nat (n div 256), of_nat n]"

definition lengthPrefixed :: "byte list \<Rightarrow> byte list" where
  "lengthPrefixed bs = u32be (length bs) @ bs"

text \<open>The loop of \<open>amountBe16\<close>: from the last byte to the first, \<open>v & 0xff\<close> then \<open>v >>= 8\<close>.\<close>

fun amount_loop :: "nat \<Rightarrow> int \<Rightarrow> byte list \<Rightarrow> byte list" where
  "amount_loop 0 v acc = acc"
| "amount_loop (Suc n) v acc = amount_loop n (v div 256) (word_of_int (v mod 256) # acc)"

definition amountBe16 :: "int \<Rightarrow> byte list" where
  "amountBe16 amount = amount_loop 16 (amount mod 2 ^ 128) []"

definition ascii_bytes :: "ustring \<Rightarrow> byte list" where
  "ascii_bytes u = map (\<lambda>c. of_nat (unat c)) u"

text \<open>\<open>toString('hex')\<close>.\<close>

definition hex_digit :: "nat \<Rightarrow> 16 word" where
  "hex_digit n = of_nat (if n < 10 then 48 + n else 87 + n)"

definition to_hex :: "byte list \<Rightarrow> ustring" where
  "to_hex bs = concat (map (\<lambda>b. [hex_digit (unat b div 16), hex_digit (unat b mod 16)]) bs)"

section \<open>The derived identities\<close>

definition MEMO_TAG :: ustring where "MEMO_TAG = lit ''troia.memo.v1''"
definition TXID_TAG :: ustring where "TXID_TAG = lit ''troia.txid.v1''"
definition IDEM_TAG :: ustring where "IDEM_TAG = lit ''troia.idem.v1''"

definition tag :: "ustring \<Rightarrow> byte list" where
  "tag value = lengthPrefixed (utf8 value)"

definition memo_preimage :: "byte list \<Rightarrow> byte list" where
  "memo_preimage orderIdBytes = tag MEMO_TAG @ lengthPrefixed orderIdBytes"

definition txid_preimage :: "byte list \<Rightarrow> byte list" where
  "txid_preimage orderIdBytes = tag TXID_TAG @ lengthPrefixed orderIdBytes"

definition idem_preimage :: "byte list \<Rightarrow> byte list \<Rightarrow> int \<Rightarrow> byte list \<Rightarrow> byte list" where
  "idem_preimage orderIdBytes destinationBytes amount memo =
     tag IDEM_TAG @ lengthPrefixed orderIdBytes @ lengthPrefixed destinationBytes
       @ amountBe16 amount @ memo"

definition computeMemo :: "(byte list \<Rightarrow> byte list) \<Rightarrow> byte list \<Rightarrow> byte list" where
  "computeMemo sha256 orderIdBytes = sha256 (memo_preimage orderIdBytes)"

definition deriveMemo ::
    "(ustring \<Rightarrow> ustring) \<Rightarrow> (byte list \<Rightarrow> byte list) \<Rightarrow> ustring \<Rightarrow> derive_error + byte list" where
  "deriveMemo nfc sha256 orderId =
     bindR (canonicalizeOrderId nfc (JsIs orderId)) (\<lambda>c. Inr (computeMemo sha256 (utf8 c)))"

record derived_ids =
  di_memo :: "byte list"
  di_txId :: "byte list"
  di_idempotencyKey :: "byte list"
  di_memoHex :: ustring
  di_txIdHex :: ustring
  di_idempotencyKeyHex :: ustring

definition I128_MIN :: int where "I128_MIN = - (2 ^ 127)"
definition I128_MAX :: int where "I128_MAX = 2 ^ 127 - 1"

definition deriveIds ::
    "(ustring \<Rightarrow> ustring) \<Rightarrow> (byte list \<Rightarrow> byte list) \<Rightarrow> ustring \<Rightarrow> ustring \<Rightarrow> int
     \<Rightarrow> derive_error + derived_ids" where
  "deriveIds nfc sha256 orderId destination amount =
     (if amount < I128_MIN \<or> amount > I128_MAX then Inl AmountOutOfRange
      else if NON_ASCII destination then Inl DestinationNotAscii
      else bindR (canonicalizeOrderId nfc (JsIs orderId)) (\<lambda>c.
        let orderIdBytes = utf8 c;
            destinationBytes = ascii_bytes destination;
            memo = computeMemo sha256 orderIdBytes;
            txId = sha256 (txid_preimage orderIdBytes);
            idem = sha256 (idem_preimage orderIdBytes destinationBytes amount memo)
        in Inr \<lparr> di_memo = memo, di_txId = txId, di_idempotencyKey = idem,
             di_memoHex = to_hex memo, di_txIdHex = to_hex txId,
             di_idempotencyKeyHex = to_hex idem \<rparr>))"

datatype address_type = Ed25519 | Contract | InvalidAddress

definition classifyAddress :: "(ustring \<Rightarrow> bool) \<Rightarrow> (ustring \<Rightarrow> bool) \<Rightarrow> ustring \<Rightarrow> address_type" where
  "classifyAddress isEd25519 isContract address =
     (if isEd25519 address then Ed25519 else if isContract address then Contract else InvalidAddress)"

section \<open>UTF-8 is injective on well-formed text\<close>

text \<open>Reading the code units back; the specification of \<open>utf8_nats\<close> on well-formed text.\<close>

definition utf8_len :: "nat \<Rightarrow> nat" where
  "utf8_len b = (if b < 0x80 then 1 else if b < 0xE0 then 2 else if b < 0xF0 then 3 else 4)"

lemma utf8_cp_hd_len: "c < 0x110000 \<Longrightarrow> utf8_len (hd (utf8_cp c)) = length (utf8_cp c)"
  by (auto simp: utf8_cp_def utf8_len_def)

lemma utf8_cp_nonempty [simp]: "utf8_cp c \<noteq> []"
  by (simp add: utf8_cp_def)

fun utf8_val :: "nat list \<Rightarrow> nat" where
  "utf8_val [a] = a"
| "utf8_val [a, b] = (a - 0xC0) * 64 + (b - 0x80)"
| "utf8_val [a, b, c] = (a - 0xE0) * 4096 + (b - 0x80) * 64 + (c - 0x80)"
| "utf8_val [a, b, c, d] = (a - 0xF0) * 262144 + (b - 0x80) * 4096 + (c - 0x80) * 64 + (d - 0x80)"
| "utf8_val _ = 0"

lemma utf8_val_utf8_cp: "utf8_val (utf8_cp c) = c"
proof -
  have split64: "x div 64 * 64 + x mod 64 = x" for x :: nat by simp
  have up: "c div 4096 = c div 64 div 64" "c div 262144 = c div 4096 div 64"
    by (simp_all flip: div_mult2_eq)
  have split4096: "c div 4096 * 4096 + c div 64 mod 64 * 64 + c mod 64 = c"
    using split64 [of c] split64 [of "c div 64"] unfolding up(1) by linarith
  have split3: "c div 262144 * 262144 + c div 4096 mod 64 * 4096 + c div 64 mod 64 * 64 + c mod 64 = c"
    using split4096 split64 [of "c div 4096"] unfolding up(2) by linarith
  show ?thesis
    unfolding utf8_cp_def using split64 [of c] split4096 split3 by simp
qed

lemma utf8_cp_inj: "utf8_cp c = utf8_cp d \<Longrightarrow> c = d"
  by (metis utf8_val_utf8_cp)

lemma utf8_cp_prefix:
  assumes eq: "utf8_cp c @ xs = utf8_cp d @ ys" and c: "c < 0x110000" and d: "d < 0x110000"
  shows "c = d \<and> xs = ys"
proof -
  from eq have "hd (utf8_cp c) = hd (utf8_cp d)" by (metis hd_append2 utf8_cp_nonempty)
  with c d have "length (utf8_cp c) = length (utf8_cp d)" by (metis utf8_cp_hd_len)
  with eq have "utf8_cp c = utf8_cp d" "xs = ys" by auto
  with c d show ?thesis by (blast dest: utf8_cp_inj)
qed

lemma surrogate_cp_bounds:
  "is_high h \<Longrightarrow> is_low l \<Longrightarrow> 0x10000 \<le> surrogate_cp h l \<and> surrogate_cp h l < 0x110000"
  by (auto simp: is_high_def is_low_def surrogate_cp_def)

lemma surrogate_cp_inj:
  assumes "surrogate_cp h l = surrogate_cp h' l'" "is_high h" "is_low l" "is_high h'" "is_low l'"
  shows "h = h' \<and> l = l'"
proof -
  define a b a' b' where "a = unat h - 0xD800" and "b = unat l - 0xDC00"
    and "a' = unat h' - 0xD800" and "b' = unat l' - 0xDC00"
  note ab = this
  from assms have low: "b < 1024" "b' < 1024" and eq: "a * 1024 + b = a' * 1024 + b'"
    by (auto simp: ab surrogate_cp_def is_low_def)
  from eq have "(a * 1024 + b) div 1024 = (a' * 1024 + b') div 1024"
    and "(a * 1024 + b) mod 1024 = (a' * 1024 + b') mod 1024" by simp_all
  with low have "a = a' \<and> b = b'" by simp
  with assms(2-5) have "unat h = unat h' \<and> unat l = unat l'"
    by (auto simp: ab is_high_def is_low_def)
  then show ?thesis by (auto intro: unsigned_word_eqI)
qed

lemma unat16_bound: "unat (c :: 16 word) < 0x10000"
  using unsigned_less [of c] by simp

text \<open>Well-formed text: read one character at a time.\<close>

fun wf16 :: "ustring \<Rightarrow> bool" where
  "wf16 [] = True"
| "wf16 [c] = (\<not> is_high c \<and> \<not> is_low c)"
| "wf16 (c # d # rest) =
     (if is_high c then is_low d \<and> wf16 rest else \<not> is_low c \<and> wf16 (d # rest))"

lemma not_high_and_low: "\<not> (is_high c \<and> is_low c)"
  by (simp add: is_high_def is_low_def)

lemma lone_scan_wf16:
  "(case p of None \<Rightarrow> True | Some q \<Rightarrow> \<not> is_high q) \<Longrightarrow> lone_scan p u \<longleftrightarrow> \<not> wf16 u"
proof (induction u arbitrary: p rule: wf16.induct)
  case 1
  then show ?case by simp
next
  case (2 c)
  then show ?case by (auto split: option.splits)
next
  case (3 c d rest)
  show ?case
  proof (cases "is_high c")
    case True
    with 3 have "lone_scan (Some d) rest \<longleftrightarrow> \<not> wf16 rest" if "is_low d"
      using that not_high_and_low [of d] by simp
    with True not_high_and_low [of c] not_high_and_low [of d] show ?thesis
      by (auto split: list.splits)
  next
    case False
    with 3 show ?thesis by (auto split: option.splits)
  qed
qed

lemma LONE_SURROGATE_wf16: "LONE_SURROGATE u \<longleftrightarrow> \<not> wf16 u"
  by (simp add: LONE_SURROGATE_def lone_scan_wf16)

text \<open>The first character of a well-formed non-empty text, and the rest.\<close>

lemma wf16_Cons_cases:
  assumes "wf16 (c # u)"
  obtains (bmp) "\<not> is_high c" "\<not> is_low c" "wf16 u" "utf8_nats (c # u) = utf8_cp (unat c) @ utf8_nats u"
  | (pair) d v where "u = d # v" "is_high c" "is_low d" "wf16 v"
      "utf8_nats (c # u) = utf8_cp (surrogate_cp c d) @ utf8_nats v"
  using assms by (cases u) (auto split: if_splits)

lemma utf8_nats_inj: "wf16 u \<Longrightarrow> wf16 v \<Longrightarrow> utf8_nats u = utf8_nats v \<Longrightarrow> u = v"
proof (induction u arbitrary: v rule: length_induct)
  case (1 u)
  show ?case
  proof (cases u)
    case Nil
    with 1 show ?thesis
      by (cases v) (auto elim!: wf16_Cons_cases)
  next
    case (Cons c u')
    with 1 obtain d v' where v: "v = d # v'"
      by (cases v) (auto elim!: wf16_Cons_cases)
    have no_mix: "utf8_cp (unat x) @ xs = utf8_cp (surrogate_cp y z) @ ys \<Longrightarrow> is_high y \<Longrightarrow> is_low z \<Longrightarrow> False"
      for x y z :: "16 word" and xs ys
      using utf8_cp_prefix [of "unat x" xs "surrogate_cp y z" ys] surrogate_cp_bounds [of y z]
        unat16_bound [of x] by auto
    from "1.prems"(1) have wu: "wf16 (c # u')" by (simp add: Cons)
    from "1.prems"(2) have wv: "wf16 (d # v')" by (simp add: v)
    from wu show ?thesis
    proof (cases rule: wf16_Cons_cases)
      case cb: bmp
      from wv show ?thesis
      proof (cases rule: wf16_Cons_cases)
        case bmp
        with cb "1.prems"(3) have "unat c = unat d" "utf8_nats u' = utf8_nats v'"
          using utf8_cp_prefix [of "unat c" "utf8_nats u'" "unat d" "utf8_nats v'"]
            unat16_bound [of c] unat16_bound [of d] by (auto simp: Cons v)
        with cb bmp 1 show ?thesis by (auto simp: Cons v unsigned_word_eqI)
      next
        case (pair e w)
        with cb "1.prems"(3) no_mix [of c "utf8_nats u'" d e "utf8_nats w"] show ?thesis
          by (simp add: Cons v)
      qed
    next
      case (pair e w)
      note cp = this
      from wv show ?thesis
      proof (cases rule: wf16_Cons_cases)
        case bmp
        with cp "1.prems"(3) no_mix [of d "utf8_nats v'" c e "utf8_nats w"]
        show ?thesis by (simp add: Cons v)
      next
        case (pair e' w')
        with cp "1.prems"(3) have "surrogate_cp c e = surrogate_cp d e'" "utf8_nats w = utf8_nats w'"
          using utf8_cp_prefix [of "surrogate_cp c e" "utf8_nats w" "surrogate_cp d e'" "utf8_nats w'"]
            surrogate_cp_bounds [of c e] surrogate_cp_bounds [of d e'] by (auto simp: Cons v)
        with cp pair 1 surrogate_cp_inj [of c e d e'] show ?thesis by (auto simp: Cons v)
      qed
    qed
  qed
qed

lemma utf8_nats_byte: "b \<in> set (utf8_nats u) \<Longrightarrow> b < 256"
proof (induction u rule: utf8_nats.induct)
  case (3 c d rest)
  have "b < 256" if "b \<in> set (utf8_cp k)" "k < 0x110000" for k
    using that by (auto simp: utf8_cp_def split: if_splits)
  with 3 unat16_bound [of c] surrogate_cp_bounds [of c d] show ?case
    by (auto split: if_splits)
next
  case (2 c)
  with unat16_bound [of c] show ?case by (auto simp: utf8_cp_def split: if_splits)
qed simp

lemma of_nat_byte_inj:
  "\<lbrakk>\<And>b. b \<in> set xs \<union> set ys \<Longrightarrow> b < 256; map of_nat xs = (map of_nat ys :: byte list)\<rbrakk> \<Longrightarrow> xs = ys"
proof -
  assume b: "\<And>b. b \<in> set xs \<union> set ys \<Longrightarrow> b < 256"
    and eq: "map of_nat xs = (map of_nat ys :: byte list)"
  have u: "unat (of_nat n :: byte) = n" if "n < 256" for n
    using that by (simp add: unat_of_nat)
  from eq have "map unat (map of_nat xs :: byte list) = map unat (map of_nat ys :: byte list)" by simp
  moreover have "map unat (map of_nat zs :: byte list) = zs" if "\<forall>b \<in> set zs. b < 256" for zs :: "nat list"
    using that by (induction zs) (auto simp: u)
  then have "map unat (map of_nat xs :: byte list) = xs" "map unat (map of_nat ys :: byte list) = ys"
    using b by auto
  ultimately show "xs = ys" by simp
qed

lemma utf8_inj:
  assumes "\<not> LONE_SURROGATE u" "\<not> LONE_SURROGATE v" "utf8 u = utf8 v"
  shows "u = v"
proof -
  from assms(3) have "utf8_nats u = utf8_nats v"
    unfolding utf8_def by (intro of_nat_byte_inj) (auto dest: utf8_nats_byte)
  with assms(1,2) show ?thesis by (auto simp: LONE_SURROGATE_wf16 intro: utf8_nats_inj)
qed

section \<open>The length prefix and the fixed-width amount\<close>

lemma u32be_inj:
  assumes "u32be m = u32be n" "m < 2 ^ 32" "n < 2 ^ 32"
  shows "m = n"
proof -
  have b: "unat (of_nat k :: byte) = k mod 256" for k by (simp add: unat_of_nat)
  have rec: "k = k div 256 div 256 div 256 * 16777216 + k div 256 div 256 mod 256 * 65536
      + k div 256 mod 256 * 256 + k mod 256" for k :: nat
    using div_mult_mod_eq [of k 256] div_mult_mod_eq [of "k div 256" 256]
      div_mult_mod_eq [of "k div 256 div 256" 256] by linarith
  have up: "k div 65536 = k div 256 div 256" "k div 16777216 = k div 256 div 256 div 256" for k :: nat
    by (simp_all flip: div_mult2_eq)
  have top: "k div 256 div 256 div 256 mod 256 = k div 256 div 256 div 256" if "k < 2 ^ 32" for k :: nat
  proof -
    from that have "k div 16777216 < 256" by simp
    then show ?thesis unfolding up(2) by simp
  qed
  from assms(1) have "map unat (u32be m) = map unat (u32be n)" by simp
  then have "m div 256 div 256 div 256 mod 256 = n div 256 div 256 div 256 mod 256"
    "m div 256 div 256 mod 256 = n div 256 div 256 mod 256" "m div 256 mod 256 = n div 256 mod 256"
    "m mod 256 = n mod 256"
    unfolding u32be_def list.map b up by simp_all
  with rec [of m] rec [of n] top [OF assms(2)] top [OF assms(3)] show ?thesis by argo
qed

lemma lengthPrefixed_prefix:
  assumes "lengthPrefixed a @ xs = lengthPrefixed b @ ys" "length a < 2 ^ 32" "length b < 2 ^ 32"
  shows "a = b \<and> xs = ys"
proof -
  from assms(1) have eq: "u32be (length a) @ (a @ xs) = u32be (length b) @ (b @ ys)"
    by (simp add: lengthPrefixed_def)
  moreover have "length (u32be (length a)) = length (u32be (length b))" by (simp add: u32be_def)
  ultimately have "u32be (length a) = u32be (length b)" and rest: "a @ xs = b @ ys"
    by (simp_all add: append_eq_append_conv)
  with assms(2,3) have "length a = length b" by (blast dest: u32be_inj)
  with rest show ?thesis by simp
qed

lemma amount_loop_length [simp]: "length (amount_loop n v acc) = n + length acc"
  by (induction n arbitrary: v acc) simp_all

text \<open>The loop writes the base-256 digits: reading them back gives the value modulo \<open>256 ^ n\<close>.\<close>

definition be_val :: "byte list \<Rightarrow> int" where
  "be_val bs = foldl (\<lambda>a b. a * 256 + uint b) 0 bs"

lemma be_val_Cons: "be_val (b # bs) = uint b * 256 ^ length bs + be_val bs"
proof -
  have "foldl (\<lambda>a b. a * 256 + uint b) x ys = x * 256 ^ length ys + foldl (\<lambda>a b. a * 256 + uint b) 0 ys"
    for x and ys :: "byte list"
  proof (induction ys arbitrary: x)
    case (Cons y ys)
    show ?case
      using Cons [of "x * 256 + uint y"] Cons [of "uint y"] by (simp add: algebra_simps)
  qed simp
  from this [of "uint b" bs] show ?thesis by (simp add: be_val_def)
qed

lemma be_val_amount_loop:
  "be_val (amount_loop n v acc) = (v mod 256 ^ n) * 256 ^ length acc + be_val acc"
proof (induction n arbitrary: v acc)
  case 0
  then show ?case by simp
next
  case (Suc n)
  have "v mod 256 ^ Suc n = 256 * (v div 256 mod 256 ^ n) + v mod 256"
    by (simp add: zmod_zmult2_eq)
  moreover have "uint (word_of_int (v mod 256) :: byte) = v mod 256"
    by (simp add: uint_word_of_int)
  ultimately show ?case using Suc
    by (simp add: be_val_Cons algebra_simps)
qed

lemma be_val_amountBe16: "be_val (amountBe16 a) = a mod 2 ^ 128"
proof -
  have "be_val (amountBe16 a) = a mod 2 ^ 128 mod 256 ^ 16 * 256 ^ length ([] :: byte list) + be_val []"
    unfolding amountBe16_def by (rule be_val_amount_loop)
  then show ?thesis by (simp add: be_val_def)
qed

lemma length_amountBe16 [simp]: "length (amountBe16 a) = 16"
  by (simp add: amountBe16_def)

lemma amountBe16_inj:
  assumes "amountBe16 a = amountBe16 b" "I128_MIN \<le> a" "a \<le> I128_MAX" "I128_MIN \<le> b" "b \<le> I128_MAX"
  shows "a = b"
proof -
  from assms(1) have "(a + 2 ^ 127) mod 2 ^ 128 = (b + 2 ^ 127) mod 2 ^ 128"
    by (metis be_val_amountBe16 mod_add_left_eq)
  with assms(2-5) show ?thesis by (simp add: I128_MIN_def I128_MAX_def)
qed

section \<open>The hash preimages are collision-free\<close>

text \<open>The three tags have the same length and differ, so no two kinds of preimage coincide.\<close>

lemma utf8_nats_lit:
  "list_all (\<lambda>c. (of_char c :: nat) < 128) s \<Longrightarrow> utf8_nats (lit s) = map of_char s"
proof (induction s rule: induct_list012)
  case (3 c d s)
  then show ?case by (simp add: lit_def unat_code_unit is_high_def utf8_cp_def is_low_def)
qed (auto simp: lit_def unat_code_unit is_high_def is_low_def utf8_cp_def)

lemma tag_lit:
  "list_all (\<lambda>c. (of_char c :: nat) < 128) s
   \<Longrightarrow> tag (lit s) = u32be (length s) @ map (\<lambda>c. of_nat (of_char c)) s"
  by (simp add: tag_def lengthPrefixed_def utf8_def utf8_nats_lit)

lemma utf8_lit_tags:
  "length (tag MEMO_TAG) = 17" "length (tag TXID_TAG) = 17" "length (tag IDEM_TAG) = 17"
  "tag MEMO_TAG \<noteq> tag TXID_TAG" "tag MEMO_TAG \<noteq> tag IDEM_TAG" "tag TXID_TAG \<noteq> tag IDEM_TAG"
  by (simp_all add: MEMO_TAG_def TXID_TAG_def IDEM_TAG_def tag_lit u32be_def)

lemma tags_disjoint:
  "tag MEMO_TAG @ xs \<noteq> tag TXID_TAG @ ys"
  "tag MEMO_TAG @ xs \<noteq> tag IDEM_TAG @ ys"
  "tag TXID_TAG @ xs \<noteq> tag IDEM_TAG @ ys"
  by (auto simp: utf8_lit_tags append_eq_append_conv)

text \<open>The byte strings that \<open>deriveIds\<close> hashes for one order.\<close>

definition hashed :: "(ustring \<Rightarrow> ustring) \<Rightarrow> (byte list \<Rightarrow> byte list) \<Rightarrow> ustring \<Rightarrow> ustring \<Rightarrow> int \<Rightarrow> byte list set" where
  "hashed nfc sha256 orderId destination amount =
     (let b = utf8 (nfc orderId) in
      {memo_preimage b, txid_preimage b,
       idem_preimage b (ascii_bytes destination) amount (computeMemo sha256 b)})"

lemma ascii_bytes_inj:
  assumes "ascii_bytes a = ascii_bytes b" "\<not> NON_ASCII a" "\<not> NON_ASCII b"
  shows "a = b"
proof -
  have one: "unat (of_nat (unat w) :: byte) = unat w" if "\<not> 0x7F < unat w" for w :: "16 word"
    by (subst unat_of_nat) (use that in simp)
  have undo: "map unat (ascii_bytes u) = map unat u" if "\<not> NON_ASCII u" for u
    unfolding ascii_bytes_def map_map comp_def
    by (rule map_cong [OF refl], rule one) (use that in \<open>auto simp: NON_ASCII_def list_ex_iff\<close>)
  have "inj (unat :: 16 word \<Rightarrow> nat)" by (auto intro: injI unsigned_word_eqI)
  moreover from assms(1) undo [OF assms(2)] undo [OF assms(3)] have "map unat a = map unat b" by metis
  ultimately show ?thesis by (simp add: inj_map_eq_map)
qed

lemma preimage_eqs:
  assumes "length b1 < 2 ^ 32" "length b2 < 2 ^ 32"
  shows "memo_preimage b1 = memo_preimage b2 \<longleftrightarrow> b1 = b2"
    and "txid_preimage b1 = txid_preimage b2 \<longleftrightarrow> b1 = b2"
  using assms lengthPrefixed_prefix [of b1 "[]" b2 "[]"]
  by (auto simp: memo_preimage_def txid_preimage_def)

lemma preimage_disjoint:
  "memo_preimage b1 \<noteq> txid_preimage b2" "memo_preimage b1 \<noteq> idem_preimage b2 d a m"
  "txid_preimage b1 \<noteq> idem_preimage b2 d a m"
  by (simp_all add: memo_preimage_def txid_preimage_def idem_preimage_def tags_disjoint)

lemma idem_preimage_inj:
  assumes eq: "idem_preimage b1 d1 a1 m1 = idem_preimage b2 d2 a2 m2"
    and len: "length b1 < 2 ^ 32" "length b2 < 2 ^ 32" "length d1 < 2 ^ 32" "length d2 < 2 ^ 32"
  shows "b1 = b2 \<and> d1 = d2 \<and> amountBe16 a1 = amountBe16 a2"
proof -
  from eq have *: "lengthPrefixed b1 @ (lengthPrefixed d1 @ (amountBe16 a1 @ m1))
      = lengthPrefixed b2 @ (lengthPrefixed d2 @ (amountBe16 a2 @ m2))"
    by (simp add: idem_preimage_def)
  note b = lengthPrefixed_prefix [OF this len(1,2)]
  then have "lengthPrefixed d1 @ (amountBe16 a1 @ m1) = lengthPrefixed d2 @ (amountBe16 a2 @ m2)" by simp
  note d = lengthPrefixed_prefix [OF this len(3,4)]
  then have "amountBe16 a1 @ m1 = amountBe16 a2 @ m2" by simp
  then have "amountBe16 a1 = amountBe16 a2" by (simp add: append_eq_append_conv)
  with b d show ?thesis by simp
qed

lemma deriveIds_Inr:
  assumes "deriveIds nfc sha256 orderId d a = Inr x"
  shows "I128_MIN \<le> a" "a \<le> I128_MAX" "\<not> NON_ASCII d" "\<not> LONE_SURROGATE orderId"
    and "di_memo x = sha256 (memo_preimage (utf8 (nfc orderId)))"
    and "di_txId x = sha256 (txid_preimage (utf8 (nfc orderId)))"
    and "di_idempotencyKey x = sha256 (idem_preimage (utf8 (nfc orderId)) (ascii_bytes d) a
          (computeMemo sha256 (utf8 (nfc orderId))))"
  using assms by (auto simp: deriveIds_def canonicalizeOrderId_def computeMemo_def Let_def split: if_splits)

text \<open>C21. The identities are derived without collisions before hashing. For two orders whose ids and
  destinations are shorter than 2^32 bytes, with \<open>nfc\<close> returning well-formed text for well-formed
  text, and provided SHA-256 does not collide on the byte strings hashed for these two orders: the
  memos, and the replay-guard ids, are equal exactly when the canonical order ids are; the
  idempotency keys exactly when also destination and amount are; and no identity of one kind equals
  an identity of another kind.\<close>

theorem derived_identities_collide_only_in_sha256:
  assumes ids: "deriveIds nfc sha256 o1 d1 a1 = Inr x1" "deriveIds nfc sha256 o2 d2 a2 = Inr x2"
    and nfc_wf: "\<And>u. \<not> LONE_SURROGATE u \<Longrightarrow> \<not> LONE_SURROGATE (nfc u)"
    and len: "length (utf8 (nfc o1)) < 2 ^ 32" "length (utf8 (nfc o2)) < 2 ^ 32"
      "length d1 < 2 ^ 32" "length d2 < 2 ^ 32"
    and sha: "inj_on sha256 (hashed nfc sha256 o1 d1 a1 \<union> hashed nfc sha256 o2 d2 a2)"
  shows "(di_memo x1 = di_memo x2 \<longleftrightarrow> nfc o1 = nfc o2)
       \<and> (di_txId x1 = di_txId x2 \<longleftrightarrow> nfc o1 = nfc o2)
       \<and> (di_idempotencyKey x1 = di_idempotencyKey x2 \<longleftrightarrow> nfc o1 = nfc o2 \<and> d1 = d2 \<and> a1 = a2)
       \<and> di_memo x1 \<noteq> di_txId x2 \<and> di_memo x1 \<noteq> di_idempotencyKey x2
       \<and> di_txId x1 \<noteq> di_idempotencyKey x2"
proof -
  note x1 = deriveIds_Inr [OF ids(1)] and x2 = deriveIds_Inr [OF ids(2)]
  have sha_eq: "sha256 p = sha256 q \<longleftrightarrow> p = q"
    if "p \<in> hashed nfc sha256 o1 d1 a1" "q \<in> hashed nfc sha256 o2 d2 a2" for p q
    using sha that by (auto simp: inj_on_eq_iff)
  have utf8_eq: "utf8 (nfc o1) = utf8 (nfc o2) \<longleftrightarrow> nfc o1 = nfc o2"
    using utf8_inj [OF nfc_wf [OF x1(4)] nfc_wf [OF x2(4)]] by auto
  have asc: "length (ascii_bytes d1) < 2 ^ 32" "length (ascii_bytes d2) < 2 ^ 32"
    using len(3,4) by (simp_all add: ascii_bytes_def)
  have idem: "idem_preimage (utf8 (nfc o1)) (ascii_bytes d1) a1 (computeMemo sha256 (utf8 (nfc o1)))
        = idem_preimage (utf8 (nfc o2)) (ascii_bytes d2) a2 (computeMemo sha256 (utf8 (nfc o2)))
      \<longleftrightarrow> nfc o1 = nfc o2 \<and> d1 = d2 \<and> a1 = a2"
    using idem_preimage_inj [OF _ len(1,2) asc] utf8_eq ascii_bytes_inj x1(3) x2(3)
      amountBe16_inj [OF _ x1(1,2) x2(1,2)] by metis
  show ?thesis
    using preimage_eqs [OF len(1,2)] preimage_disjoint idem utf8_eq
    by (simp add: x1(5-7) x2(5-7) sha_eq hashed_def Let_def)
qed

text \<open>The hypotheses hold at a concrete pair of orders: ASCII ids that NFC leaves alone, with an
  injective stand-in for the digest.\<close>

theorem derived_identities_collide_only_in_sha256_witness:
  "\<exists>x1 x2. deriveIds id id (lit ''a'') (lit ''G'') 5 = Inr x1 \<and> deriveIds id id (lit ''b'') (lit ''G'') 5 = Inr x2
     \<and> di_memo x1 \<noteq> di_memo x2 \<and> di_txId x1 \<noteq> di_txId x2 \<and> di_idempotencyKey x1 \<noteq> di_idempotencyKey x2
     \<and> di_memo x1 \<noteq> di_txId x2"
proof -
  have ok: "\<exists>x. deriveIds id id (lit [c]) (lit ''G'') 5 = Inr x" if "(of_char c :: nat) < 128" for c
    using that by (simp add: deriveIds_def canonicalizeOrderId_def LONE_SURROGATE_def lit_def is_high_def
        is_low_def unat_code_unit NON_ASCII_def I128_MIN_def I128_MAX_def Let_def)
  have asc: "of_char CHR ''a'' < (128 :: nat)" "of_char CHR ''b'' < (128 :: nat)" by simp_all
  from ok [OF asc(1)] ok [OF asc(2)] obtain x1 x2 where
    x: "deriveIds id id (lit ''a'') (lit ''G'') 5 = Inr x1" "deriveIds id id (lit ''b'') (lit ''G'') 5 = Inr x2"
    by blast
  have len: "length (utf8 (lit [c])) < 2 ^ 32" if "(of_char c :: nat) < 128" for c
    using that by (simp add: utf8_def utf8_nats_lit)
  have "(di_memo x1 = di_memo x2 \<longleftrightarrow> id (lit ''a'') = id (lit ''b''))
       \<and> (di_txId x1 = di_txId x2 \<longleftrightarrow> id (lit ''a'') = id (lit ''b''))
       \<and> (di_idempotencyKey x1 = di_idempotencyKey x2
            \<longleftrightarrow> id (lit ''a'') = id (lit ''b'') \<and> lit ''G'' = lit ''G'' \<and> (5 :: int) = 5)
       \<and> di_memo x1 \<noteq> di_txId x2 \<and> di_memo x1 \<noteq> di_idempotencyKey x2
       \<and> di_txId x1 \<noteq> di_idempotencyKey x2"
    by (rule derived_identities_collide_only_in_sha256 [OF x]) (use len asc in simp_all)
  with x show ?thesis by (intro exI [of _ x1] exI [of _ x2]) simp
qed

end
