(* ===== verification/Payout_Intent.thy ===== *)
theory Payout_Intent
  imports Derive_Ids
begin

text \<open>
  The fail-closed constructor of a payout, \<^verbatim>\<open>packages/core/src/payout-intent.ts\<close>. \<open>build\<close> returns
  \<open>Inl\<close> for an exception that leaves the function, \<open>Inr (Inl e)\<close> for a \<open>BuildError\<close> and
  \<open>Inr (Inr p)\<close> for the validated payout. The lemmas show that it never throws, that it reports the
  first violated rule of a declarative list, and that what it builds carries the derived memo.
\<close>

section \<open>Data\<close>

datatype build_error =
    OrderIdMalformed | OrderIdEmpty | AddressInvalidChecksum | MemoMissing | MemoWrongLength
  | MemoZero | MemoMismatch | AmountNonPositive | IssuerNotAllowlisted | TrustlineMissing
  | DestinationMemoRequired

definition BUILD_ERROR_ORDER :: "build_error list" where
  "BUILD_ERROR_ORDER =
     [OrderIdMalformed, OrderIdEmpty, AddressInvalidChecksum, MemoMissing, MemoWrongLength,
      MemoZero, MemoMismatch, AmountNonPositive, IssuerNotAllowlisted, TrustlineMissing,
      DestinationMemoRequired]"

text \<open>\<open>indexOf\<close>; every error is in the list, so the result \<open>-1\<close> does not arise.\<close>

fun index_of :: "'a \<Rightarrow> 'a list \<Rightarrow> nat" where
  "index_of x [] = 0"
| "index_of x (y # ys) = (if x = y then 0 else Suc (index_of x ys))"

definition buildErrorRank :: "build_error \<Rightarrow> nat" where
  "buildErrorRank e = index_of e BUILD_ERROR_ORDER"

text \<open>The memo as it arrives: absent, text, bytes, or some other object.\<close>

datatype raw_memo = MemoAbsent | MemoText ustring | MemoBytes "byte list" | MemoObject

record raw_payout =
  rp_orderId :: "ustring jsval"
  rp_destination :: "ustring jsval"
  rp_amount :: "int jsval"
  rp_assetIssuer :: ustring
  rp_memo :: raw_memo

record trustline =
  tl_assetCode :: ustring
  tl_assetIssuer :: ustring

record account_snapshot =
  as_exists :: bool
  as_trustlines :: "trustline list"
  as_memoRequired :: "bool option"

record build_context =
  bc_snapshot :: account_snapshot
  bc_allowedIssuers :: "ustring list"
  bc_assetCode :: "ustring option"

record validated_payout =
  vp_orderId :: ustring
  vp_destination :: ustring
  vp_destinationType :: address_type
  vp_amount :: int
  vp_assetIssuer :: ustring
  vp_memo :: "byte list"
  vp_ids :: derived_ids

section \<open>Memo decoding\<close>

datatype memo_decode = MdBytes "byte list" | MdMissing | MdWrongLength

definition hex_val :: "16 word \<Rightarrow> nat option" where
  "hex_val c = (let n = unat c in
     if 48 \<le> n \<and> n \<le> 57 then Some (n - 48)
     else if 97 \<le> n \<and> n \<le> 102 then Some (n - 87)
     else if 65 \<le> n \<and> n \<le> 70 then Some (n - 55) else None)"

text \<open>\<open>Buffer.from(s, 'hex')\<close>: stops at the first pair that is not hexadecimal.\<close>

fun from_hex :: "ustring \<Rightarrow> byte list" where
  "from_hex (a # b # rest) =
     (case (hex_val a, hex_val b) of
        (Some x, Some y) \<Rightarrow> of_nat (16 * x + y) # from_hex rest
      | _ \<Rightarrow> [])"
| "from_hex _ = []"

definition is_hex64 :: "ustring \<Rightarrow> bool" where
  "is_hex64 u = (length u = 64 \<and> list_all (\<lambda>c. hex_val c \<noteq> None) u)"

definition decodeMemo :: "raw_memo \<Rightarrow> memo_decode" where
  "decodeMemo memo =
     (case memo of
        MemoAbsent \<Rightarrow> MdMissing
      | MemoText s \<Rightarrow>
          if length s = 0 then MdMissing
          else if length s \<noteq> 64 \<or> \<not> is_hex64 s then MdWrongLength
          else MdBytes (from_hex s)
      | MemoObject \<Rightarrow> MdWrongLength
      | MemoBytes b \<Rightarrow> if length b \<noteq> 32 then MdWrongLength else MdBytes b)"

definition isAllZero :: "byte list \<Rightarrow> bool" where
  "isAllZero bytes = list_all (\<lambda>b. b = 0) bytes"

unbundle bit_operations_syntax

definition bytesEqual :: "byte list \<Rightarrow> byte list \<Rightarrow> bool" where
  "bytesEqual a b =
     (if length a \<noteq> length b then False
      else foldl (\<lambda>diff (x, y). diff OR (x XOR y)) 0 (zip a b) = 0)"

section \<open>PayoutIntent.build\<close>

definition has_trustline :: "build_context \<Rightarrow> ustring \<Rightarrow> bool" where
  "has_trustline ctx issuer =
     (let assetCode = (case bc_assetCode ctx of None \<Rightarrow> lit ''USDC'' | Some c \<Rightarrow> c) in
      as_exists (bc_snapshot ctx) \<and>
      list_ex (\<lambda>t. tl_assetCode t = assetCode \<and> tl_assetIssuer t = issuer)
        (as_trustlines (bc_snapshot ctx)))"

text \<open>Steps 8 to 11 and the construction, after the memo has been accepted.\<close>

definition build_payable ::
    "(ustring \<Rightarrow> ustring) \<Rightarrow> (byte list \<Rightarrow> byte list) \<Rightarrow> ustring \<Rightarrow> ustring \<Rightarrow> address_type \<Rightarrow> byte list
     \<Rightarrow> raw_payout \<Rightarrow> build_context \<Rightarrow> derive_error + (build_error + validated_payout)" where
  "build_payable nfc sha256 canonicalOrderId destination destinationType decoded raw ctx =
     (case rp_amount raw of
        JsOther \<Rightarrow> Inr (Inl AmountNonPositive)
      | JsIs amount \<Rightarrow>
          if amount \<le> 0 \<or> amount > I128_MAX then Inr (Inl AmountNonPositive)
          else if rp_assetIssuer raw \<notin> set (bc_allowedIssuers ctx) then Inr (Inl IssuerNotAllowlisted)
          else if destinationType = Ed25519 \<and> \<not> has_trustline ctx (rp_assetIssuer raw)
            then Inr (Inl TrustlineMissing)
          else if destinationType = Ed25519 \<and> as_memoRequired (bc_snapshot ctx) = Some True
            then Inr (Inl DestinationMemoRequired)
          else bindR (deriveIds nfc sha256 canonicalOrderId destination amount) (\<lambda>ids.
            Inr (Inr \<lparr> vp_orderId = canonicalOrderId, vp_destination = destination,
              vp_destinationType = destinationType, vp_amount = amount,
              vp_assetIssuer = rp_assetIssuer raw, vp_memo = decoded, vp_ids = ids \<rparr>)))"

definition build ::
    "(ustring \<Rightarrow> ustring) \<Rightarrow> (byte list \<Rightarrow> byte list) \<Rightarrow> (ustring \<Rightarrow> bool) \<Rightarrow> (ustring \<Rightarrow> bool)
     \<Rightarrow> raw_payout \<Rightarrow> build_context \<Rightarrow> derive_error + (build_error + validated_payout)" where
  "build nfc sha256 isEd25519 isContract raw ctx =
     (case canonicalizeOrderId nfc (rp_orderId raw) of
        Inl OrderIdNotWellFormed \<Rightarrow> Inr (Inl OrderIdMalformed)
      | Inl e \<Rightarrow> Inl e
      | Inr canonicalOrderId \<Rightarrow>
          if length canonicalOrderId = 0 then Inr (Inl OrderIdEmpty)
          else (case rp_destination raw of
            JsOther \<Rightarrow> Inr (Inl AddressInvalidChecksum)
          | JsIs destination \<Rightarrow>
              let destinationType = classifyAddress isEd25519 isContract destination in
              if destinationType = InvalidAddress then Inr (Inl AddressInvalidChecksum)
              else (case decodeMemo (rp_memo raw) of
                MdMissing \<Rightarrow> Inr (Inl MemoMissing)
              | MdWrongLength \<Rightarrow> Inr (Inl MemoWrongLength)
              | MdBytes decoded \<Rightarrow>
                  if isAllZero decoded then Inr (Inl MemoZero)
                  else bindR (deriveMemo nfc sha256 canonicalOrderId) (\<lambda>derived.
                    if \<not> bytesEqual decoded derived then Inr (Inl MemoMismatch)
                    else build_payable nfc sha256 canonicalOrderId destination destinationType
                           decoded raw ctx))))"

section \<open>The rules, declaratively\<close>

text \<open>What the code relies on: normalisation keeps text well-formed and is idempotent, and a valid
  StrKey is ASCII (it is base32 text).\<close>

definition nfc_ok :: "(ustring \<Rightarrow> ustring) \<Rightarrow> bool" where
  "nfc_ok nfc = (\<forall>u. \<not> LONE_SURROGATE u \<longrightarrow> \<not> LONE_SURROGATE (nfc u) \<and> nfc (nfc u) = nfc u)"

definition strkey_ok :: "(ustring \<Rightarrow> bool) \<Rightarrow> (ustring \<Rightarrow> bool) \<Rightarrow> bool" where
  "strkey_ok isEd25519 isContract =
     (\<forall>u. isEd25519 u \<or> isContract u \<longrightarrow> \<not> NON_ASCII u)"

text \<open>Which rule a payout violates, each rule on its own.\<close>

definition raw_bytes :: "raw_payout \<Rightarrow> byte list" where
  "raw_bytes raw = (case decodeMemo (rp_memo raw) of MdBytes b \<Rightarrow> b | _ \<Rightarrow> [])"

definition str_or_empty :: "ustring jsval \<Rightarrow> ustring" where
  "str_or_empty v = (case v of JsIs s \<Rightarrow> s | JsOther \<Rightarrow> [])"

fun violates ::
    "(ustring \<Rightarrow> ustring) \<Rightarrow> (byte list \<Rightarrow> byte list) \<Rightarrow> (ustring \<Rightarrow> bool) \<Rightarrow> (ustring \<Rightarrow> bool)
     \<Rightarrow> raw_payout \<Rightarrow> build_context \<Rightarrow> build_error \<Rightarrow> bool" where
  "violates nfc sha ed con raw ctx OrderIdMalformed =
     (rp_orderId raw = JsOther \<or> LONE_SURROGATE (str_or_empty (rp_orderId raw)))"
| "violates nfc sha ed con raw ctx OrderIdEmpty = (nfc (str_or_empty (rp_orderId raw)) = [])"
| "violates nfc sha ed con raw ctx AddressInvalidChecksum =
     (rp_destination raw = JsOther
      \<or> \<not> ed (str_or_empty (rp_destination raw)) \<and> \<not> con (str_or_empty (rp_destination raw)))"
| "violates nfc sha ed con raw ctx MemoMissing = (rp_memo raw = MemoAbsent \<or> rp_memo raw = MemoText [])"
| "violates nfc sha ed con raw ctx MemoWrongLength = (length (raw_bytes raw) \<noteq> 32)"
| "violates nfc sha ed con raw ctx MemoZero = (raw_bytes raw = replicate 32 0)"
| "violates nfc sha ed con raw ctx MemoMismatch =
     (raw_bytes raw \<noteq> sha (memo_preimage (utf8 (nfc (str_or_empty (rp_orderId raw))))))"
| "violates nfc sha ed con raw ctx AmountNonPositive =
     (\<not> (\<exists>a. rp_amount raw = JsIs a \<and> 0 < a \<and> a \<le> I128_MAX))"
| "violates nfc sha ed con raw ctx IssuerNotAllowlisted =
     (rp_assetIssuer raw \<notin> set (bc_allowedIssuers ctx))"
| "violates nfc sha ed con raw ctx TrustlineMissing =
     (ed (str_or_empty (rp_destination raw)) \<and> \<not> has_trustline ctx (rp_assetIssuer raw))"
| "violates nfc sha ed con raw ctx DestinationMemoRequired =
     (ed (str_or_empty (rp_destination raw)) \<and> as_memoRequired (bc_snapshot ctx) = Some True)"

section \<open>Lemmas\<close>

lemma word_or_zero_iff: "(x :: byte) OR y = 0 \<longleftrightarrow> x = 0 \<and> y = 0"
  by (rule or_eq_0_iff)

lemma word_xor_zero_iff: "(x :: byte) XOR y = 0 \<longleftrightarrow> x = y"
proof
  assume "x XOR y = 0"
  then have "(x XOR y) XOR y = 0 XOR y" by simp
  then show "x = y" by (simp add: xor.assoc)
qed simp

lemma bytesEqual_iff [simp]: "bytesEqual a b \<longleftrightarrow> a = b"
proof -
  have fold0: "foldl (\<lambda>d (x, y). d OR (x XOR y)) d (zip a b) = 0
      \<longleftrightarrow> d = 0 \<and> list_all2 (=) a b" if "length a = length b" for d :: byte
    using that
    by (induction a b arbitrary: d rule: list_induct2) (auto simp: word_or_zero_iff word_xor_zero_iff)
  show ?thesis
  proof (cases "length a = length b")
    case True
    with fold0 [OF True, of 0] show ?thesis by (simp add: bytesEqual_def list.rel_eq)
  qed (auto simp: bytesEqual_def)
qed

lemma from_hex_length: "list_all (\<lambda>c. hex_val c \<noteq> None) u \<Longrightarrow> length (from_hex u) = length u div 2"
  by (induction u rule: from_hex.induct) auto

lemma decodeMemo_cases:
  "decodeMemo m = MdMissing \<longleftrightarrow> m = MemoAbsent \<or> m = MemoText []"
  "decodeMemo m = MdBytes b \<Longrightarrow> length b = 32"
  by (auto simp: decodeMemo_def is_hex64_def from_hex_length split: raw_memo.splits if_splits)

lemma isAllZero_iff: "length b = 32 \<Longrightarrow> isAllZero b \<longleftrightarrow> b = replicate 32 0"
  using replicate_eqI [of b 32 0] by (auto simp: isAllZero_def list_all_iff)

lemma deriveMemo_canonical:
  assumes "nfc_ok nfc" "\<not> LONE_SURROGATE u"
  shows "deriveMemo nfc sha (nfc u) = Inr (sha (memo_preimage (utf8 (nfc u))))"
  using assms by (auto simp: deriveMemo_def canonicalizeOrderId_def nfc_ok_def computeMemo_def)

lemma deriveIds_canonical:
  assumes "nfc_ok nfc" "\<not> LONE_SURROGATE u" "\<not> NON_ASCII d" "0 < a" "a \<le> I128_MAX"
  shows "\<exists>x. deriveIds nfc sha (nfc u) d a = Inr x \<and> di_memo x = sha (memo_preimage (utf8 (nfc u)))"
  using assms
  by (auto simp: deriveIds_def canonicalizeOrderId_def nfc_ok_def computeMemo_def I128_MIN_def Let_def)

text \<open>The rules after the memo.\<close>

lemma build_payable_spec:
  assumes "nfc_ok nfc" "\<not> LONE_SURROGATE u" "\<not> NON_ASCII d"
    and ed: "dt = Ed25519 \<longleftrightarrow> ed d" and d: "rp_destination raw = JsIs d"
  shows "case find (violates nfc sha ed con raw ctx)
            [AmountNonPositive, IssuerNotAllowlisted, TrustlineMissing, DestinationMemoRequired] of
       Some e \<Rightarrow> build_payable nfc sha (nfc u) d dt b raw ctx = Inr (Inl e)
     | None \<Rightarrow> \<exists>a ids. rp_amount raw = JsIs a \<and> deriveIds nfc sha (nfc u) d a = Inr ids
         \<and> di_memo ids = sha (memo_preimage (utf8 (nfc u)))
         \<and> build_payable nfc sha (nfc u) d dt b raw ctx
            = Inr (Inr \<lparr> vp_orderId = nfc u, vp_destination = d, vp_destinationType = dt, vp_amount = a,
                vp_assetIssuer = rp_assetIssuer raw, vp_memo = b, vp_ids = ids \<rparr>)"
proof (cases "rp_amount raw")
  case JsOther
  then show ?thesis by (simp add: build_payable_def)
next
  case (JsIs a)
  show ?thesis
  proof (cases "0 < a \<and> a \<le> I128_MAX")
    case False
    with JsIs show ?thesis by (auto simp: build_payable_def)
  next
    case True
    with deriveIds_canonical [OF assms(1-3)] obtain ids where
      "deriveIds nfc sha (nfc u) d a = Inr ids" "di_memo ids = sha (memo_preimage (utf8 (nfc u)))"
      by blast
    with JsIs True ed d show ?thesis by (simp add: build_payable_def str_or_empty_def)
  qed
qed

text \<open>The memo rules, after the order id and the address have been accepted.\<close>

lemma build_memo_spec:
  assumes ok: "nfc_ok nfc" and u: "rp_orderId raw = JsIs u" "\<not> LONE_SURROGATE u" "nfc u \<noteq> []"
    and d: "rp_destination raw = JsIs d" "classifyAddress ed con d \<noteq> InvalidAddress"
  shows "case find (violates nfc sha ed con raw ctx) [MemoMissing, MemoWrongLength, MemoZero, MemoMismatch] of
       Some e \<Rightarrow> build nfc sha ed con raw ctx = Inr (Inl e)
     | None \<Rightarrow> build nfc sha ed con raw ctx
         = build_payable nfc sha (nfc u) d (classifyAddress ed con d)
             (sha (memo_preimage (utf8 (nfc u)))) raw ctx"
proof -
  note memo = deriveMemo_canonical [OF ok u(2)]
  have canon: "canonicalizeOrderId nfc (JsIs u) = Inr (nfc u)"
    using u(2) by (simp add: canonicalizeOrderId_def)
  show ?thesis
  proof (cases "decodeMemo (rp_memo raw)")
    case MdMissing
    with canon u d show ?thesis
      using decodeMemo_cases(1) [of "rp_memo raw"] by (simp add: build_def Let_def)
  next
    case MdWrongLength
    with canon u d show ?thesis
      using decodeMemo_cases(1) [of "rp_memo raw"]
      by (auto simp: build_def Let_def raw_bytes_def)
  next
    case (MdBytes b)
    then have "\<not> (rp_memo raw = MemoAbsent \<or> rp_memo raw = MemoText [])"
      using decodeMemo_cases(1) [of "rp_memo raw"] by simp
    moreover have "isAllZero b \<longleftrightarrow> b = replicate 32 0"
      using decodeMemo_cases(2) [OF MdBytes] by (rule isAllZero_iff)
    ultimately show ?thesis
      using MdBytes canon u d memo decodeMemo_cases(2) [OF MdBytes]
      by (cases "b = replicate 32 0"; cases "b = sha (memo_preimage (utf8 (nfc u)))")
        (simp_all add: build_def Let_def raw_bytes_def str_or_empty_def)
  qed
qed

section \<open>Properties\<close>

text \<open>C19. \<open>PayoutIntent.build\<close> is total and fail-closed. With a normalisation that is idempotent and keeps
  text well-formed, and StrKeys that are ASCII, it never throws: it returns the first violated rule
  of the declared control order, and when no rule is violated it returns a payout for the canonical
  order id, whose memo is the one derived from that id and whose identities are the derived ones.\<close>

theorem build_reports_first_violation:
  assumes "nfc_ok nfc" and "strkey_ok ed con"
  shows "case find (violates nfc sha ed con raw ctx) BUILD_ERROR_ORDER of
      Some e \<Rightarrow> build nfc sha ed con raw ctx = Inr (Inl e)
    | None \<Rightarrow> \<exists>p. build nfc sha ed con raw ctx = Inr (Inr p)
        \<and> vp_orderId p = nfc (str_or_empty (rp_orderId raw))
        \<and> JsIs (vp_destination p) = rp_destination raw
        \<and> JsIs (vp_amount p) = rp_amount raw \<and> 0 < vp_amount p
        \<and> deriveIds nfc sha (vp_orderId p) (vp_destination p) (vp_amount p) = Inr (vp_ids p)
        \<and> vp_memo p = di_memo (vp_ids p)"
proof -
  have order: "BUILD_ERROR_ORDER = [OrderIdMalformed, OrderIdEmpty, AddressInvalidChecksum]
      @ [MemoMissing, MemoWrongLength, MemoZero, MemoMismatch]
      @ [AmountNonPositive, IssuerNotAllowlisted, TrustlineMissing, DestinationMemoRequired]"
    by (simp add: BUILD_ERROR_ORDER_def)
  have find_append: "find P (xs @ ys) = (case find P xs of None \<Rightarrow> find P ys | Some x \<Rightarrow> Some x)"
    for P :: "build_error \<Rightarrow> bool" and xs ys by (induction xs) auto
  let ?v = "violates nfc sha ed con raw ctx"
  show ?thesis
  proof (cases "\<exists>u d. rp_orderId raw = JsIs u \<and> \<not> LONE_SURROGATE u \<and> nfc u \<noteq> []
      \<and> rp_destination raw = JsIs d \<and> classifyAddress ed con d \<noteq> InvalidAddress")
    case False
    then show ?thesis
      by (cases "rp_orderId raw"; cases "rp_destination raw")
        (auto simp: order build_def canonicalizeOrderId_def str_or_empty_def Let_def classifyAddress_def
           split: if_splits)
  next
    case True
    then obtain u d where u: "rp_orderId raw = JsIs u" "\<not> LONE_SURROGATE u" "nfc u \<noteq> []"
      and d: "rp_destination raw = JsIs d" "classifyAddress ed con d \<noteq> InvalidAddress" by blast
    from d(2) have da: "ed d \<or> con d" by (auto simp: classifyAddress_def split: if_splits)
    with assms(2) have asc: "\<not> NON_ASCII d" by (auto simp: strkey_ok_def)
    have dt: "classifyAddress ed con d = Ed25519 \<longleftrightarrow> ed d" by (simp add: classifyAddress_def)
    from u d da have first: "find ?v [OrderIdMalformed, OrderIdEmpty, AddressInvalidChecksum] = None"
      by (simp add: str_or_empty_def)
    note memo = build_memo_spec [OF assms(1) u d, of sha ctx]
    note payable = build_payable_spec [where sha = sha and con = con and ctx = ctx and ed = ed
        and b = "sha (memo_preimage (utf8 (nfc u)))", OF assms(1) u(2) asc dt d(1)]
    show ?thesis
    proof (cases "find ?v [MemoMissing, MemoWrongLength, MemoZero, MemoMismatch]")
      case (Some e)
      with memo have "build nfc sha ed con raw ctx = Inr (Inl e)" by (simp del: find.simps)
      with Some first show ?thesis unfolding order find_append by (simp del: find.simps)
    next
      case None
      with memo have b: "build nfc sha ed con raw ctx = build_payable nfc sha (nfc u) d
          (classifyAddress ed con d) (sha (memo_preimage (utf8 (nfc u)))) raw ctx"
        by (simp del: find.simps)
      show ?thesis
      proof (cases "find ?v [AmountNonPositive, IssuerNotAllowlisted, TrustlineMissing, DestinationMemoRequired]")
        case (Some e)
        with payable b first None show ?thesis unfolding order find_append by (simp del: find.simps)
      next
        case none: None
        then have "\<not> ?v AmountNonPositive" by (simp split: if_splits)
        with payable b first None none u d show ?thesis
          unfolding order find_append by (auto simp: str_or_empty_def simp del: find.simps)
      qed
    qed
  qed
qed

text \<open>The hypotheses hold for text that is already in normal form and a format predicate that accepts
  one ASCII address; a payout without a memo is refused as such.\<close>

theorem build_reports_first_violation_witness:
  "case find (violates id (\<lambda>_. replicate 32 1) (\<lambda>u. u = lit ''G'') (\<lambda>_. False)
          \<lparr> rp_orderId = JsIs (lit ''o''), rp_destination = JsIs (lit ''G''), rp_amount = JsIs 7,
            rp_assetIssuer = lit ''I'', rp_memo = MemoAbsent \<rparr>
          \<lparr> bc_snapshot = \<lparr> as_exists = True, as_trustlines = [], as_memoRequired = None \<rparr>,
            bc_allowedIssuers = [lit ''I''], bc_assetCode = None \<rparr>) BUILD_ERROR_ORDER of
      Some e \<Rightarrow> build id (\<lambda>_. replicate 32 1) (\<lambda>u. u = lit ''G'') (\<lambda>_. False)
          \<lparr> rp_orderId = JsIs (lit ''o''), rp_destination = JsIs (lit ''G''), rp_amount = JsIs 7,
            rp_assetIssuer = lit ''I'', rp_memo = MemoAbsent \<rparr>
          \<lparr> bc_snapshot = \<lparr> as_exists = True, as_trustlines = [], as_memoRequired = None \<rparr>,
            bc_allowedIssuers = [lit ''I''], bc_assetCode = None \<rparr> = Inr (Inl e)
    | None \<Rightarrow> False"
proof -
  let ?raw = "\<lparr> rp_orderId = JsIs (lit ''o''), rp_destination = JsIs (lit ''G''), rp_amount = JsIs 7,
            rp_assetIssuer = lit ''I'', rp_memo = MemoAbsent \<rparr>"
  let ?ctx = "\<lparr> bc_snapshot = \<lparr> as_exists = True, as_trustlines = [], as_memoRequired = None \<rparr>,
            bc_allowedIssuers = [lit ''I''], bc_assetCode = None \<rparr>"
  let ?sha = "\<lambda>_ :: byte list. replicate 32 1 :: byte list"
  let ?ed = "\<lambda>u. u = lit ''G''" and ?con = "\<lambda>_ :: ustring. False"
  have nfc: "nfc_ok id" by (simp add: nfc_ok_def)
  have asc: "\<not> NON_ASCII (lit ''G'')" by (simp add: NON_ASCII_def lit_def)
  have key: "strkey_ok ?ed ?con" using asc by (simp add: strkey_ok_def)
  have wf: "\<not> LONE_SURROGATE (lit ''o'')"
    by (simp add: LONE_SURROGATE_def lit_def is_high_def is_low_def)
  have "find (violates id ?sha ?ed ?con ?raw ?ctx) BUILD_ERROR_ORDER = Some MemoMissing"
    using wf by (simp add: BUILD_ERROR_ORDER_def str_or_empty_def)
  with build_reports_first_violation [OF nfc key, of ?sha ?raw ?ctx] show ?thesis by simp
qed

end
