(* ===== verification/Sequence_Allocator.thy ===== *)
theory Sequence_Allocator
  imports Payout_Intent
begin

text \<open>
  The operator's sequence space, \<^verbatim>\<open>packages/core/src/sequence-allocator.ts\<close>. The interface
  \<open>SequenceProvider\<close> is the locale \<open>seq_provider\<close>: what the double-pay shield needs of any provider,
  and the run-level facts that follow. \<open>SequenceAllocator\<close> is the record \<open>seq_alloc\<close> with its persisted
  snapshot; an operation returns the result and the new state, since a throw leaves the state as it is
  at that point. The locale is interpreted on the allocator here and on the channel pool in
  \<open>Channel_Pool\<close>.
\<close>

section \<open>The provider interface\<close>

text \<open>The calls of the interface, with raw order ids.\<close>

datatype seq_op =
    OpAllocate ustring
  | OpConfirmBurned int "ustring option"
  | OpReuseOnDead int ustring
  | OpRelease int ustring
  | OpReallocate ustring

text \<open>A provider keeps, for every canonical order id, the slot its next payment must use (\<open>slot\<close>; a
  slot is a sequence number of one account), and the slots spent on chain (\<open>burned\<close>). The laws: the
  invariant is kept; two orders never hold one slot; a held slot is unspent; spent slots stay spent;
  an order loses its slot only by \<open>release\<close> of that very slot or because it was spent.\<close>

locale seq_provider =
  fixes inv :: "'s \<Rightarrow> bool"
    and slot :: "'s \<Rightarrow> ustring \<Rightarrow> 'slot option"
    and burned :: "'s \<Rightarrow> 'slot set"
    and step :: "seq_op \<Rightarrow> 's \<Rightarrow> 's"
    and releases :: "seq_op \<Rightarrow> ustring \<Rightarrow> bool"
  assumes inv_step: "inv s \<Longrightarrow> inv (step op s)"
    and slot_owner: "inv s \<Longrightarrow> slot s a = Some x \<Longrightarrow> slot s b = Some x \<Longrightarrow> a = b"
    and slot_unspent: "inv s \<Longrightarrow> slot s a = Some x \<Longrightarrow> x \<notin> burned s"
    and burned_step: "inv s \<Longrightarrow> burned s \<subseteq> burned (step op s)"
    and slot_kept: "inv s \<Longrightarrow> slot s a = Some x \<Longrightarrow> \<not> releases op a
          \<Longrightarrow> slot (step op s) a = Some x \<or> x \<in> burned (step op s)"
begin

lemma inv_run: "inv s \<Longrightarrow> inv (fold step ops s)"
  by (induction ops arbitrary: s) (simp_all add: inv_step)

lemma burned_run: "inv s \<Longrightarrow> burned s \<subseteq> burned (fold step ops s)"
proof (induction ops arbitrary: s)
  case (Cons op ops)
  then show ?case using burned_step [of s op] inv_step [of s op] Cons.IH [of "step op s"] by auto
qed simp

text \<open>A slot that was spent is never handed out again, to any order.\<close>

lemma spent_never_reissued:
  "inv s \<Longrightarrow> x \<in> burned s \<Longrightarrow> slot (fold step ops s) a \<noteq> Some x"
  using burned_run slot_unspent inv_run by blast

text \<open>An order keeps its slot until the slot is spent, as long as it is not released: a retry cannot
  become a second, independent payment.\<close>

lemma slot_sticks:
  "inv s \<Longrightarrow> slot s a = Some x \<Longrightarrow> \<forall>op \<in> set ops. \<not> releases op a
   \<Longrightarrow> slot (fold step ops s) a = Some x \<or> x \<in> burned (fold step ops s)"
proof (induction ops arbitrary: s)
  case (Cons op ops)
  from Cons.prems slot_kept [of s a x op]
  consider "slot (step op s) a = Some x" | "x \<in> burned (step op s)" by auto
  then show ?case
  proof cases
    case 1
    with Cons inv_step [of s op] show ?thesis by simp
  next
    case 2
    with Cons.prems inv_step [of s op] burned_run [of "step op s" ops] show ?thesis by auto
  qed
qed simp

lemma owner_run:
  "inv s \<Longrightarrow> slot (fold step ops s) a = Some x \<Longrightarrow> slot (fold step ops s) b = Some x \<Longrightarrow> a = b"
  using slot_owner inv_run by blast

end

section \<open>State\<close>

datatype seq_status = SeqActive | SeqBurned

record seq_record =
  sr_seq :: int
  sr_orderId :: ustring
  sr_status :: seq_status

record seq_snapshot =
  ss_baseSeq :: int
  ss_nextSeq :: int
  ss_freeList :: "int list"
  ss_records :: "seq_record list"
  ss_byOrder :: "(ustring \<times> int) list"

datatype seq_error =
    UnknownSeq | SeqOrderMismatch | SeqNotActive | SeqNotBurned | NoActiveAllocation
  | SeqBadOrderId derive_error

text \<open>The fields of a \<open>SequenceAllocator\<close>; \<open>sa_store\<close> is the content of its \<open>SequenceStore\<close>.\<close>

record seq_alloc =
  sa_baseSeq :: int
  sa_nextSeq :: int
  sa_freeList :: "int list"
  sa_bySeq :: "(int, seq_record) jsmap"
  sa_byOrder :: "(ustring, int) jsmap"
  sa_store :: "seq_snapshot option"

section \<open>Operations\<close>

fun insertSorted :: "int list \<Rightarrow> int \<Rightarrow> int list" where
  "insertSorted [] v = [v]"
| "insertSorted (a # as) v = (if a < v then a # insertSorted as v else v # a # as)"

definition snapshot :: "seq_alloc \<Rightarrow> seq_snapshot" where
  "snapshot s = \<lparr> ss_baseSeq = sa_baseSeq s, ss_nextSeq = sa_nextSeq s, ss_freeList = sa_freeList s,
     ss_records = map snd (sa_bySeq s), ss_byOrder = sa_byOrder s \<rparr>"

definition persist :: "seq_alloc \<Rightarrow> seq_alloc" where
  "persist s = s\<lparr> sa_store := Some (snapshot s) \<rparr>"

definition newAllocator :: "seq_snapshot option \<Rightarrow> int \<Rightarrow> seq_alloc" where
  "newAllocator store baseSeq =
     (case store of
        Some p \<Rightarrow>
          \<lparr> sa_baseSeq = ss_baseSeq p, sa_nextSeq = ss_nextSeq p, sa_freeList = ss_freeList p,
            sa_bySeq = fold (\<lambda>rec m. AList.update (sr_seq rec) rec m) (ss_records p) [],
            sa_byOrder = fold (\<lambda>(orderId, seq) m. AList.update orderId seq m) (ss_byOrder p) [],
            sa_store = store \<rparr>
      | None \<Rightarrow>
          persist \<lparr> sa_baseSeq = baseSeq, sa_nextSeq = baseSeq + 1, sa_freeList = [],
            sa_bySeq = [], sa_byOrder = [], sa_store = None \<rparr>)"

definition takeSeq :: "seq_alloc \<Rightarrow> int \<times> seq_alloc" where
  "takeSeq s =
     (case sa_freeList s of
        reused # rest \<Rightarrow> (reused, s\<lparr> sa_freeList := rest \<rparr>)
      | [] \<Rightarrow> (sa_nextSeq s, s\<lparr> sa_nextSeq := sa_nextSeq s + 1 \<rparr>))"

text \<open>The canonical id, or the exception of \<open>canonicalizeOrderId\<close>, before the body runs.\<close>

definition with_id ::
    "(ustring \<Rightarrow> ustring) \<Rightarrow> ustring \<Rightarrow> 's \<Rightarrow> (ustring \<Rightarrow> (seq_error + 'r) \<times> 's) \<Rightarrow> (seq_error + 'r) \<times> 's" where
  "with_id nfc raw s f =
     (case canonicalizeOrderId nfc (JsIs raw) of Inl e \<Rightarrow> (Inl (SeqBadOrderId e), s) | Inr c \<Rightarrow> f c)"

text \<open>The common tail of \<open>allocate\<close> and \<open>reallocate\<close>.\<close>

definition grant :: "ustring \<Rightarrow> seq_alloc \<Rightarrow> (seq_error + int) \<times> seq_alloc" where
  "grant orderId s =
     (let (seq, s) = takeSeq s;
          s = s\<lparr> sa_bySeq := AList.update seq \<lparr> sr_seq = seq, sr_orderId = orderId, sr_status = SeqActive \<rparr>
                   (sa_bySeq s) \<rparr>;
          s = s\<lparr> sa_byOrder := AList.update orderId seq (sa_byOrder s) \<rparr>
      in (Inr seq, persist s))"

definition allocate :: "(ustring \<Rightarrow> ustring) \<Rightarrow> ustring \<Rightarrow> seq_alloc \<Rightarrow> (seq_error + int) \<times> seq_alloc" where
  "allocate nfc orderIdRaw s =
     with_id nfc orderIdRaw s (\<lambda>orderId.
       case map_of (sa_byOrder s) orderId of
         Some existing \<Rightarrow> (Inr existing, s)
       | None \<Rightarrow> grant orderId s)"

definition confirmBurned :: "int \<Rightarrow> seq_alloc \<Rightarrow> (seq_error + unit) \<times> seq_alloc" where
  "confirmBurned seq s =
     (case map_of (sa_bySeq s) seq of
        None \<Rightarrow> (Inl UnknownSeq, s)
      | Some rec \<Rightarrow>
          if sr_status rec = SeqBurned then (Inr (), s)
          else (Inr (), persist (s\<lparr> sa_bySeq := AList.update seq (rec\<lparr> sr_status := SeqBurned \<rparr>) (sa_bySeq s) \<rparr>)))"

definition requireOwned :: "int \<Rightarrow> ustring \<Rightarrow> seq_alloc \<Rightarrow> seq_error + seq_record" where
  "requireOwned seq orderId s =
     (case map_of (sa_bySeq s) seq of
        None \<Rightarrow> Inl UnknownSeq
      | Some rec \<Rightarrow> if sr_orderId rec \<noteq> orderId then Inl SeqOrderMismatch else Inr rec)"

definition reuseOnDead ::
    "(ustring \<Rightarrow> ustring) \<Rightarrow> int \<Rightarrow> ustring \<Rightarrow> seq_alloc \<Rightarrow> (seq_error + int) \<times> seq_alloc" where
  "reuseOnDead nfc seq orderIdRaw s =
     with_id nfc orderIdRaw s (\<lambda>orderId.
       case requireOwned seq orderId s of
         Inl e \<Rightarrow> (Inl e, s)
       | Inr rec \<Rightarrow> if sr_status rec \<noteq> SeqActive then (Inl SeqNotActive, s) else (Inr seq, s))"

definition release ::
    "(ustring \<Rightarrow> ustring) \<Rightarrow> int \<Rightarrow> ustring \<Rightarrow> seq_alloc \<Rightarrow> (seq_error + unit) \<times> seq_alloc" where
  "release nfc seq orderIdRaw s =
     with_id nfc orderIdRaw s (\<lambda>orderId.
       case requireOwned seq orderId s of
         Inl e \<Rightarrow> (Inl e, s)
       | Inr rec \<Rightarrow>
           if sr_status rec \<noteq> SeqActive then (Inl SeqNotActive, s)
           else (Inr (), persist (s\<lparr> sa_bySeq := AList.delete seq (sa_bySeq s),
                    sa_byOrder := AList.delete orderId (sa_byOrder s),
                    sa_freeList := insertSorted (sa_freeList s) seq \<rparr>)))"

definition reallocate :: "(ustring \<Rightarrow> ustring) \<Rightarrow> ustring \<Rightarrow> seq_alloc \<Rightarrow> (seq_error + int) \<times> seq_alloc" where
  "reallocate nfc orderIdRaw s =
     with_id nfc orderIdRaw s (\<lambda>orderId.
       case map_of (sa_byOrder s) orderId of
         None \<Rightarrow> (Inl NoActiveAllocation, s)
       | Some currentSeq \<Rightarrow>
           (case map_of (sa_bySeq s) currentSeq of
              None \<Rightarrow> (Inl SeqNotBurned, s)
            | Some current \<Rightarrow>
                if sr_status current \<noteq> SeqBurned then (Inl SeqNotBurned, s) else grant orderId s))"

text \<open>\<open>undefined\<close> is \<open>None\<close>; the argument is a canonical id.\<close>

definition active_seq :: "seq_alloc \<Rightarrow> ustring \<Rightarrow> int option" where
  "active_seq s orderId =
     (case map_of (sa_byOrder s) orderId of
        None \<Rightarrow> None
      | Some seq \<Rightarrow>
          (case map_of (sa_bySeq s) seq of
             None \<Rightarrow> None
           | Some rec \<Rightarrow> if sr_status rec = SeqActive then Some seq else None))"

definition activeSeqFor :: "(ustring \<Rightarrow> ustring) \<Rightarrow> ustring \<Rightarrow> seq_alloc \<Rightarrow> (seq_error + int option) \<times> seq_alloc" where
  "activeSeqFor nfc orderIdRaw s = with_id nfc orderIdRaw s (\<lambda>orderId. (Inr (active_seq s orderId), s))"

definition statusOf :: "seq_alloc \<Rightarrow> int \<Rightarrow> seq_status option" where
  "statusOf s seq = map_option sr_status (map_of (sa_bySeq s) seq)"

text \<open>One call of the interface, as a state transformer.\<close>

fun alloc_step :: "(ustring \<Rightarrow> ustring) \<Rightarrow> seq_op \<Rightarrow> seq_alloc \<Rightarrow> seq_alloc" where
  "alloc_step nfc (OpAllocate ord) s = snd (allocate nfc ord s)"
| "alloc_step nfc (OpConfirmBurned seq ord) s = snd (confirmBurned seq s)"
| "alloc_step nfc (OpReuseOnDead seq ord) s = snd (reuseOnDead nfc seq ord s)"
| "alloc_step nfc (OpRelease seq ord) s = snd (release nfc seq ord s)"
| "alloc_step nfc (OpReallocate ord) s = snd (reallocate nfc ord s)"

text \<open>Which order a call releases.\<close>

fun releases :: "(ustring \<Rightarrow> ustring) \<Rightarrow> seq_op \<Rightarrow> ustring \<Rightarrow> bool" where
  "releases nfc (OpRelease seq ord) a = (nfc ord = a)"
| "releases nfc _ a = False"

section \<open>Invariant\<close>

text \<open>Every sequence number handed out so far is either tracked or in the sorted free list, never
  both, with no gap; the pointer of an order names a record of that order; an active record is the
  current one of its order; the store holds the present state.\<close>

definition core_inv :: "seq_alloc \<Rightarrow> bool" where
  "core_inv s \<longleftrightarrow>
     sorted (sa_freeList s) \<and> distinct (sa_freeList s)
     \<and> distinct (map fst (sa_bySeq s)) \<and> distinct (map fst (sa_byOrder s))
     \<and> sa_baseSeq s < sa_nextSeq s
     \<and> set (sa_freeList s) \<union> dom (map_of (sa_bySeq s)) = {sa_baseSeq s <..< sa_nextSeq s}
     \<and> set (sa_freeList s) \<inter> dom (map_of (sa_bySeq s)) = {}
     \<and> (\<forall>q r. map_of (sa_bySeq s) q = Some r \<longrightarrow> sr_seq r = q)
     \<and> (\<forall>ord q. map_of (sa_byOrder s) ord = Some q \<longrightarrow>
            (\<exists>r. map_of (sa_bySeq s) q = Some r \<and> sr_orderId r = ord))
     \<and> (\<forall>q r. map_of (sa_bySeq s) q = Some r \<longrightarrow> sr_status r = SeqActive \<longrightarrow>
            map_of (sa_byOrder s) (sr_orderId r) = Some q)"

definition alloc_inv :: "seq_alloc \<Rightarrow> bool" where
  "alloc_inv s \<longleftrightarrow> core_inv s \<and> sa_store s = Some (snapshot s)"

definition burned_seqs :: "seq_alloc \<Rightarrow> int set" where
  "burned_seqs s = {q. statusOf s q = Some SeqBurned}"

section \<open>The invariant is kept\<close>

lemma set_insertSorted [simp]: "set (insertSorted xs v) = insert v (set xs)"
  by (induction xs) auto

lemma sorted_insertSorted: "sorted xs \<Longrightarrow> sorted (insertSorted xs v)"
  by (induction xs) auto

lemma distinct_insertSorted: "distinct xs \<Longrightarrow> v \<notin> set xs \<Longrightarrow> distinct (insertSorted xs v)"
  by (induction xs) auto

lemma persist_sel [simp]:
  "sa_baseSeq (persist s) = sa_baseSeq s" "sa_nextSeq (persist s) = sa_nextSeq s"
  "sa_freeList (persist s) = sa_freeList s" "sa_bySeq (persist s) = sa_bySeq s"
  "sa_byOrder (persist s) = sa_byOrder s" "sa_store (persist s) = Some (snapshot s)"
  by (simp_all add: persist_def)

lemma snapshot_persist [simp]: "snapshot (persist s) = snapshot s"
  by (simp add: snapshot_def)

lemma alloc_inv_persist [simp]: "alloc_inv (persist s) \<longleftrightarrow> core_inv s"
  by (simp add: alloc_inv_def core_inv_def)

lemma takeSeq_facts:
  assumes "core_inv s" "takeSeq s = (q, s')"
  shows "map_of (sa_bySeq s) q = None" "sa_bySeq s' = sa_bySeq s" "sa_byOrder s' = sa_byOrder s"
    "sa_baseSeq s' = sa_baseSeq s" "sorted (sa_freeList s')" "distinct (sa_freeList s')"
    "sa_baseSeq s < sa_nextSeq s'"
    "set (sa_freeList s') \<union> insert q (dom (map_of (sa_bySeq s))) = {sa_baseSeq s <..< sa_nextSeq s'}"
    "set (sa_freeList s') \<inter> insert q (dom (map_of (sa_bySeq s))) = {}"
proof -
  from assms(1) have cover: "set (sa_freeList s) \<union> dom (map_of (sa_bySeq s)) = {sa_baseSeq s <..< sa_nextSeq s}"
    and disj: "set (sa_freeList s) \<inter> dom (map_of (sa_bySeq s)) = {}"
    and srt: "sorted (sa_freeList s)" "distinct (sa_freeList s)" "sa_baseSeq s < sa_nextSeq s"
    by (simp_all add: core_inv_def)
  have next_notin: "sa_nextSeq s \<notin> dom (map_of (sa_bySeq s))" "sa_nextSeq s \<notin> set (sa_freeList s)"
    using cover by auto
  have grow: "{sa_baseSeq s <..< sa_nextSeq s + 1} = insert (sa_nextSeq s) {sa_baseSeq s <..< sa_nextSeq s}"
    using srt(3) by auto
  show "sa_bySeq s' = sa_bySeq s" "sa_byOrder s' = sa_byOrder s" "sa_baseSeq s' = sa_baseSeq s"
    using assms(2) by (auto simp: takeSeq_def split: list.splits)
  show "map_of (sa_bySeq s) q = None"
    using assms(2) disj next_notin by (auto simp: takeSeq_def split: list.splits)
  show "sorted (sa_freeList s')" "distinct (sa_freeList s')" "sa_baseSeq s < sa_nextSeq s'"
    using assms(2) srt by (auto simp: takeSeq_def split: list.splits)
  show "set (sa_freeList s') \<union> insert q (dom (map_of (sa_bySeq s))) = {sa_baseSeq s <..< sa_nextSeq s'}"
  proof (cases "sa_freeList s")
    case Nil
    with assms(2) cover grow show ?thesis by (auto simp: takeSeq_def)
  next
    case (Cons f fs)
    with assms(2) cover show ?thesis by (auto simp: takeSeq_def)
  qed
  show "set (sa_freeList s') \<inter> insert q (dom (map_of (sa_bySeq s))) = {}"
    using assms(2) disj srt(2) next_notin by (auto simp: takeSeq_def split: list.splits)
qed

text \<open>The state after \<open>grant\<close>, field by field.\<close>

lemma grant_facts:
  assumes "core_inv s" "grant orderId s = (r, s')"
  obtains q where "r = Inr q" "map_of (sa_bySeq s) q = None"
    "map_of (sa_bySeq s') = (map_of (sa_bySeq s))(q \<mapsto> \<lparr> sr_seq = q, sr_orderId = orderId, sr_status = SeqActive \<rparr>)"
    "map_of (sa_byOrder s') = (map_of (sa_byOrder s))(orderId \<mapsto> q)"
    "sa_store s' = Some (snapshot s')"
proof -
  obtain q s1 where t: "takeSeq s = (q, s1)" by fastforce
  note tf = takeSeq_facts [OF assms(1) t]
  show ?thesis
  proof (rule that [of q])
    show "sa_store s' = Some (snapshot s')"
      using assms(2) t by (auto simp: grant_def Let_def)
  qed (use assms(2) t tf in \<open>auto simp: grant_def Let_def update_conv' fun_eq_iff\<close>)
qed

lemma grant_inv:
  assumes inv: "core_inv s"
    and free: "\<And>q r. map_of (sa_byOrder s) orderId = Some q \<Longrightarrow> map_of (sa_bySeq s) q = Some r \<Longrightarrow> sr_status r = SeqBurned"
  shows "core_inv (snd (grant orderId s))"
proof -
  obtain q s1 where t: "takeSeq s = (q, s1)" by fastforce
  note tf = takeSeq_facts [OF inv t]
  have noact: "sr_status r \<noteq> SeqActive" if "map_of (sa_bySeq s) p = Some r" "sr_orderId r = orderId" for p r
  proof
    assume "sr_status r = SeqActive"
    with inv that have "map_of (sa_byOrder s) orderId = Some p" unfolding core_inv_def by blast
    with free that \<open>sr_status r = SeqActive\<close> show False by fastforce
  qed
  have i: "distinct (map fst (sa_bySeq s))" "distinct (map fst (sa_byOrder s))"
    "\<forall>q r. map_of (sa_bySeq s) q = Some r \<longrightarrow> sr_seq r = q"
    "\<forall>ord q. map_of (sa_byOrder s) ord = Some q \<longrightarrow> (\<exists>r. map_of (sa_bySeq s) q = Some r \<and> sr_orderId r = ord)"
    "\<forall>q r. map_of (sa_bySeq s) q = Some r \<longrightarrow> sr_status r = SeqActive \<longrightarrow>
            map_of (sa_byOrder s) (sr_orderId r) = Some q"
    using inv unfolding core_inv_def by blast+
  let ?s = "snd (grant orderId s)"
  have f: "sa_baseSeq ?s = sa_baseSeq s" "sa_nextSeq ?s = sa_nextSeq s1" "sa_freeList ?s = sa_freeList s1"
    "sa_bySeq ?s = AList.update q \<lparr> sr_seq = q, sr_orderId = orderId, sr_status = SeqActive \<rparr> (sa_bySeq s)"
    "sa_byOrder ?s = AList.update orderId q (sa_byOrder s)"
    using t tf by (simp_all add: grant_def Let_def)
  have dom: "dom (map_of (sa_bySeq ?s)) = insert q (dom (map_of (sa_bySeq s)))"
    by (auto simp: f update_conv')
  have d: "distinct (map fst (sa_bySeq ?s))" "distinct (map fst (sa_byOrder ?s))"
    using i(1,2) by (simp_all add: f distinct_update)
  have m: "\<forall>p r. map_of (sa_bySeq ?s) p = Some r \<longrightarrow> sr_seq r = p"
    "\<forall>ord p. map_of (sa_byOrder ?s) ord = Some p \<longrightarrow> (\<exists>r. map_of (sa_bySeq ?s) p = Some r \<and> sr_orderId r = ord)"
    "\<forall>p r. map_of (sa_bySeq ?s) p = Some r \<longrightarrow> sr_status r = SeqActive \<longrightarrow>
            map_of (sa_byOrder ?s) (sr_orderId r) = Some p"
    using i tf(1) noact unfolding f by (auto split: if_splits; fastforce)+
  show ?thesis
    unfolding core_inv_def dom using d m tf(5-9) by (simp add: f)
qed

lemma core_invD:
  assumes "core_inv s"
  shows "map_of (sa_bySeq s) q = Some r \<Longrightarrow> sr_seq r = q"
    and "map_of (sa_byOrder s) ord = Some q \<Longrightarrow> \<exists>r. map_of (sa_bySeq s) q = Some r \<and> sr_orderId r = ord"
    and "map_of (sa_bySeq s) q = Some r \<Longrightarrow> sr_status r = SeqActive \<Longrightarrow> map_of (sa_byOrder s) (sr_orderId r) = Some q"
    and "set (sa_freeList s) \<inter> dom (map_of (sa_bySeq s)) = {}"
  using assms unfolding core_inv_def by blast+

lemma core_invI:
  assumes "sorted (sa_freeList s)" "distinct (sa_freeList s)" "distinct (map fst (sa_bySeq s))"
    "distinct (map fst (sa_byOrder s))" "sa_baseSeq s < sa_nextSeq s"
    "set (sa_freeList s) \<union> dom (map_of (sa_bySeq s)) = {sa_baseSeq s <..< sa_nextSeq s}"
    "set (sa_freeList s) \<inter> dom (map_of (sa_bySeq s)) = {}"
    "\<And>q r. map_of (sa_bySeq s) q = Some r \<Longrightarrow> sr_seq r = q"
    "\<And>ord q. map_of (sa_byOrder s) ord = Some q \<Longrightarrow> \<exists>r. map_of (sa_bySeq s) q = Some r \<and> sr_orderId r = ord"
    "\<And>q r. map_of (sa_bySeq s) q = Some r \<Longrightarrow> sr_status r = SeqActive \<Longrightarrow> map_of (sa_byOrder s) (sr_orderId r) = Some q"
  shows "core_inv s"
  using assms unfolding core_inv_def by blast

lemma confirmBurned_inv: "alloc_inv s \<Longrightarrow> alloc_inv (snd (confirmBurned seq s))"
proof -
  assume inv: "alloc_inv s"
  then have core: "core_inv s" by (simp add: alloc_inv_def)
  show ?thesis
  proof (cases "\<exists>rec. map_of (sa_bySeq s) seq = Some rec \<and> sr_status rec \<noteq> SeqBurned")
    case False
    with inv show ?thesis by (auto simp: confirmBurned_def split: option.splits)
  next
    case True
    then obtain rec where r: "map_of (sa_bySeq s) seq = Some rec" "sr_status rec \<noteq> SeqBurned" by blast
    let ?s = "s\<lparr> sa_bySeq := AList.update seq (rec\<lparr> sr_status := SeqBurned \<rparr>) (sa_bySeq s) \<rparr>"
    have dom: "dom (map_of (sa_bySeq ?s)) = dom (map_of (sa_bySeq s))"
      using r by (auto simp: update_conv')
    have m1: "sr_seq x = p" if "map_of (sa_bySeq ?s) p = Some x" for p x
      using that core_invD(1) [OF core, of p] r by (auto split: if_splits)
    have m2: "\<exists>x. map_of (sa_bySeq ?s) p = Some x \<and> sr_orderId x = ord"
      if "map_of (sa_byOrder ?s) ord = Some p" for ord p
      using that core_invD(2) [OF core, of ord p] r by auto
    have m3: "map_of (sa_byOrder ?s) (sr_orderId x) = Some p"
      if "map_of (sa_bySeq ?s) p = Some x" "sr_status x = SeqActive" for p x
      using that core_invD(3) [OF core, of p x] by (auto split: if_splits)
    have "core_inv ?s"
    proof (rule core_invI)
      show "sorted (sa_freeList ?s)" "distinct (sa_freeList ?s)" "distinct (map fst (sa_bySeq ?s))"
        "distinct (map fst (sa_byOrder ?s))" "sa_baseSeq ?s < sa_nextSeq ?s"
        using core by (simp_all add: core_inv_def distinct_update)
      show "set (sa_freeList ?s) \<union> dom (map_of (sa_bySeq ?s)) = {sa_baseSeq ?s <..< sa_nextSeq ?s}"
        "set (sa_freeList ?s) \<inter> dom (map_of (sa_bySeq ?s)) = {}"
        unfolding dom using core by (simp_all add: core_inv_def)
    qed (fact m1 m2 m3)+
    with r show ?thesis by (simp add: confirmBurned_def)
  qed
qed

lemma release_core_inv:
  assumes core: "core_inv s" and r: "map_of (sa_bySeq s) seq = Some rec" "sr_status rec = SeqActive"
  shows "core_inv (s\<lparr> sa_bySeq := AList.delete seq (sa_bySeq s),
     sa_byOrder := AList.delete (sr_orderId rec) (sa_byOrder s), sa_freeList := insertSorted (sa_freeList s) seq \<rparr>)"
    (is "core_inv ?s")
proof -
  have cur: "map_of (sa_byOrder s) (sr_orderId rec) = Some seq" using core_invD(3) [OF core r] .
  have notfree: "seq \<notin> set (sa_freeList s)" using core_invD(4) [OF core] r by auto
  have dom: "dom (map_of (sa_bySeq ?s)) = dom (map_of (sa_bySeq s)) - {seq}"
    by (auto simp: delete_conv')
  have m: "\<forall>p x. map_of (sa_bySeq ?s) p = Some x \<longrightarrow> sr_seq x = p"
    using core_invD(1) [OF core] by auto
  have p: "\<exists>x. map_of (sa_bySeq ?s) p = Some x \<and> sr_orderId x = ord"
    if "map_of (sa_byOrder ?s) ord = Some p" for ord p
  proof -
    from that have "ord \<noteq> sr_orderId rec" "map_of (sa_byOrder s) ord = Some p" by (auto split: if_splits)
    with core_invD(2) [OF core, of ord p] r show ?thesis by auto
  qed
  have a: "map_of (sa_byOrder ?s) (sr_orderId x) = Some p"
    if "map_of (sa_bySeq ?s) p = Some x" "sr_status x = SeqActive" for p x
    using that core_invD(3) [OF core, of p x] cur by (auto split: if_splits)
  have "set (sa_freeList ?s) \<union> dom (map_of (sa_bySeq ?s)) = set (sa_freeList s) \<union> dom (map_of (sa_bySeq s))"
    using r unfolding dom by auto
  moreover have "set (sa_freeList ?s) \<inter> dom (map_of (sa_bySeq ?s)) = {}"
    using core_invD(4) [OF core] unfolding dom by auto
  moreover have "sorted (sa_freeList ?s)" "distinct (sa_freeList ?s)" "distinct (map fst (sa_bySeq ?s))"
    "distinct (map fst (sa_byOrder ?s))"
    using core notfree by (simp_all add: core_inv_def sorted_insertSorted distinct_insertSorted distinct_delete)
  ultimately show ?thesis
    using core m p a unfolding core_inv_def by simp
qed

lemma release_cases:
  obtains (refused) e where "release nfc seq raw s = (Inl e, s)"
  | (released) rec where "map_of (sa_bySeq s) seq = Some rec" "sr_status rec = SeqActive"
      "canonicalizeOrderId nfc (JsIs raw) = Inr (sr_orderId rec)"
      "release nfc seq raw s = (Inr (), persist (s\<lparr> sa_bySeq := AList.delete seq (sa_bySeq s),
         sa_byOrder := AList.delete (sr_orderId rec) (sa_byOrder s),
         sa_freeList := insertSorted (sa_freeList s) seq \<rparr>))"
proof (cases "canonicalizeOrderId nfc (JsIs raw)")
  case (Inl e)
  then show thesis by (intro refused) (simp add: release_def with_id_def)
next
  case (Inr c)
  show thesis
  proof (cases "requireOwned seq c s")
    case (Inl e)
    with Inr show thesis by (intro refused) (simp add: release_def with_id_def)
  next
    case rec: (Inr rec)
    then have "map_of (sa_bySeq s) seq = Some rec" "sr_orderId rec = c"
      by (auto simp: requireOwned_def split: option.splits if_splits)
    with Inr rec show thesis
      by (cases "sr_status rec = SeqActive")
        (auto simp: release_def with_id_def intro: refused released)
  qed
qed

lemma release_inv: "alloc_inv s \<Longrightarrow> alloc_inv (snd (release nfc seq raw s))"
  by (rule release_cases [of nfc seq raw s])
    (simp_all add: release_core_inv, simp add: alloc_inv_def release_core_inv)

lemma grant_alloc_inv:
  assumes "core_inv s"
    and "\<And>q r. map_of (sa_byOrder s) orderId = Some q \<Longrightarrow> map_of (sa_bySeq s) q = Some r \<Longrightarrow> sr_status r = SeqBurned"
  shows "alloc_inv (snd (grant orderId s))"
proof -
  obtain r s' where g: "grant orderId s = (r, s')" by fastforce
  then have "sa_store s' = Some (snapshot s')" by (rule grant_facts [OF assms(1)])
  moreover have "core_inv (snd (grant orderId s))" using assms by (rule grant_inv)
  ultimately show ?thesis using g by (simp add: alloc_inv_def)
qed

lemma allocate_inv: "alloc_inv s \<Longrightarrow> alloc_inv (snd (allocate nfc raw s))"
  by (auto simp: allocate_def with_id_def alloc_inv_def intro!: grant_alloc_inv [unfolded alloc_inv_def]
      split: sum.splits option.splits)

lemma reallocate_inv: "alloc_inv s \<Longrightarrow> alloc_inv (snd (reallocate nfc raw s))"
  by (auto simp: reallocate_def with_id_def alloc_inv_def intro!: grant_alloc_inv [unfolded alloc_inv_def]
      split: sum.splits option.splits if_splits)

lemma reuseOnDead_frame [simp, frame_simps]: "snd (reuseOnDead nfc seq raw s) = s"
  by (simp add: reuseOnDead_def with_id_def split: sum.splits)

lemma alloc_step_inv: "alloc_inv s \<Longrightarrow> alloc_inv (alloc_step nfc op s)"
  by (cases op) (simp_all add: allocate_inv confirmBurned_inv release_inv reallocate_inv)

lemma newAllocator_inv: "alloc_inv (newAllocator None base)"
  by (auto simp: newAllocator_def core_inv_def)

section \<open>The provider laws\<close>

lemma active_seq_iff:
  "active_seq s ord = Some q \<longleftrightarrow> map_of (sa_byOrder s) ord = Some q
     \<and> (\<exists>r. map_of (sa_bySeq s) q = Some r \<and> sr_status r = SeqActive)"
  by (auto simp: active_seq_def split: option.splits if_splits)

lemma burned_seqs_iff:
  "q \<in> burned_seqs s \<longleftrightarrow> (\<exists>r. map_of (sa_bySeq s) q = Some r \<and> sr_status r = SeqBurned)"
  by (auto simp: burned_seqs_def statusOf_def)

lemma active_seq_owner:
  "alloc_inv s \<Longrightarrow> active_seq s a = Some q \<Longrightarrow> active_seq s b = Some q \<Longrightarrow> a = b"
  unfolding alloc_inv_def active_seq_iff by (metis core_invD(2) option.inject)

text \<open>What each state-changing operation does to the records and pointers: nothing, or a grant to
  one order, or burning, or releasing.\<close>

lemma alloc_step_effect:
  assumes "alloc_inv s"
  obtains (same) "alloc_step nfc op s = s"
  | (granted) ord q where "map_of (sa_bySeq s) q = None"
      "\<not> (\<exists>p. active_seq s ord = Some p)"
      "map_of (sa_bySeq (alloc_step nfc op s))
         = (map_of (sa_bySeq s))(q \<mapsto> \<lparr> sr_seq = q, sr_orderId = ord, sr_status = SeqActive \<rparr>)"
      "map_of (sa_byOrder (alloc_step nfc op s)) = (map_of (sa_byOrder s))(ord \<mapsto> q)"
  | (burnt) q r where "map_of (sa_bySeq s) q = Some r"
      "map_of (sa_bySeq (alloc_step nfc op s)) = (map_of (sa_bySeq s))(q \<mapsto> r\<lparr> sr_status := SeqBurned \<rparr>)"
      "sa_byOrder (alloc_step nfc op s) = sa_byOrder s"
  | (freed) q ord r where "map_of (sa_bySeq s) q = Some r" "sr_orderId r = ord" "sr_status r = SeqActive"
      "releases nfc op ord"
      "map_of (sa_bySeq (alloc_step nfc op s)) = (map_of (sa_bySeq s))(q := None)"
      "map_of (sa_byOrder (alloc_step nfc op s)) = (map_of (sa_byOrder s))(ord := None)"
proof -
  from assms have core: "core_inv s" by (simp add: alloc_inv_def)
  have g: thesis if na: "\<not> (\<exists>p. active_seq s ord = Some p)" and st: "alloc_step nfc op s = snd (grant ord s)" for ord
  proof -
    obtain r s' where "grant ord s = (r, s')" by fastforce
    with grant_facts [OF core this] na st show thesis by (metis granted snd_conv)
  qed
  show thesis
  proof (cases op)
    case (OpAllocate raw)
    then have "alloc_step nfc op s = s \<or> (\<exists>ord. map_of (sa_byOrder s) ord = None \<and> alloc_step nfc op s = snd (grant ord s))"
      by (auto simp: allocate_def with_id_def split: sum.splits option.splits)
    with same g show thesis by (metis active_seq_iff option.distinct(1))
  next
    case (OpConfirmBurned q raw)
    show thesis
    proof (cases "\<exists>r. map_of (sa_bySeq s) q = Some r \<and> sr_status r \<noteq> SeqBurned")
      case True
      then obtain r where "map_of (sa_bySeq s) q = Some r" "sr_status r \<noteq> SeqBurned" by blast
      with OpConfirmBurned show thesis
        by (intro burnt [of q r]) (simp_all add: confirmBurned_def update_conv')
    next
      case False
      with OpConfirmBurned show thesis
        by (intro same) (auto simp: confirmBurned_def split: option.splits)
    qed
  next
    case (OpReuseOnDead q raw)
    with same show thesis by simp
  next
    case (OpRelease q raw)
    show thesis
    proof (cases rule: release_cases [of nfc q raw s])
      case (refused e)
      with OpRelease same show thesis by simp
    next
      case (released rec)
      then have "nfc raw = sr_orderId rec"
        by (auto simp: canonicalizeOrderId_def split: if_splits)
      with released OpRelease show thesis
        by (intro freed [of q rec "sr_orderId rec"]) (simp_all add: delete_conv')
    qed
  next
    case (OpReallocate raw)
    then have "alloc_step nfc op s = s \<or> (\<exists>ord q r. map_of (sa_byOrder s) ord = Some q
        \<and> map_of (sa_bySeq s) q = Some r \<and> sr_status r = SeqBurned \<and> alloc_step nfc op s = snd (grant ord s))"
      by (auto simp: reallocate_def with_id_def split: sum.splits option.splits if_splits)
    with same g show thesis by (metis active_seq_iff option.inject seq_status.distinct(1))
  qed
qed

interpretation alloc: seq_provider alloc_inv active_seq burned_seqs "alloc_step nfc" "releases nfc" for nfc
proof unfold_locales
  fix s op
  assume inv: "alloc_inv s"
  then show "alloc_inv (alloc_step nfc op s)" by (rule alloc_step_inv)
  show "burned_seqs s \<subseteq> burned_seqs (alloc_step nfc op s)"
    by (rule alloc_step_effect [OF inv, of nfc op]) (auto simp: burned_seqs_iff)
next
  fix s a x b
  assume "alloc_inv s" "active_seq s a = Some x" "active_seq s b = Some x"
  then show "a = b" by (rule active_seq_owner)
next
  fix s a x
  assume "alloc_inv s" "active_seq s a = Some x"
  then show "x \<notin> burned_seqs s" by (auto simp: active_seq_iff burned_seqs_iff)
next
  fix s a x op
  assume inv: "alloc_inv s" and act: "active_seq s a = Some x" and nr: "\<not> releases nfc op a"
  from inv have core: "core_inv s" by (simp add: alloc_inv_def)
  show "active_seq (alloc_step nfc op s) a = Some x \<or> x \<in> burned_seqs (alloc_step nfc op s)"
  proof (rule alloc_step_effect [OF inv, of nfc op])
    fix q ord r
    assume *: "map_of (sa_bySeq s) q = Some r" "sr_orderId r = ord" "releases nfc op ord"
      "map_of (sa_bySeq (alloc_step nfc op s)) = (map_of (sa_bySeq s))(q := None)"
      "map_of (sa_byOrder (alloc_step nfc op s)) = (map_of (sa_byOrder s))(ord := None)"
    from act have "map_of (sa_byOrder s) a = Some x" by (simp add: active_seq_iff)
    with core_invD(2) [OF core this] * nr have "x \<noteq> q" "a \<noteq> ord" by auto
    with * act show ?thesis by (simp add: active_seq_iff)
  qed (use act in \<open>auto simp: active_seq_iff burned_seqs_iff\<close>)
qed

section \<open>Restart\<close>

lemma fold_update_distinct:
  "distinct (map f xs) \<Longrightarrow> (\<And>x. x \<in> set xs \<Longrightarrow> f x \<notin> fst ` set m)
   \<Longrightarrow> fold (\<lambda>x m. AList.update (f x) (g x) m) xs m = m @ map (\<lambda>x. (f x, g x)) xs"
proof (induction xs arbitrary: m)
  case (Cons x xs)
  have "fold (\<lambda>x m. AList.update (f x) (g x) m) xs (AList.update (f x) (g x) m)
      = AList.update (f x) (g x) m @ map (\<lambda>x. (f x, g x)) xs"
    using Cons.prems by (intro Cons.IH) (auto simp: dom_update image_iff)
  with Cons.prems(2) [of x] show ?case by (simp add: update_absent)
qed simp

lemma restart_state:
  assumes "alloc_inv s"
  shows "newAllocator (sa_store s) base = s"
proof -
  from assms have core: "core_inv s" and st: "sa_store s = Some (snapshot s)"
    by (simp_all add: alloc_inv_def)
  have keys: "sr_seq r = q" if "(q, r) \<in> set (sa_bySeq s)" for q r
    using that core core_invD(1) [OF core, of q r] by (simp add: core_inv_def)
  then have k: "map (\<lambda>r. (sr_seq r, r)) (map snd (sa_bySeq s)) = sa_bySeq s"
    unfolding map_map comp_def by (intro map_idI) auto
  have "map sr_seq (map snd (sa_bySeq s)) = map fst (sa_bySeq s)" using keys by auto
  then have d: "distinct (map sr_seq (map snd (sa_bySeq s)))"
    using core by (simp only: core_inv_def)
  have "fold (\<lambda>rec m. AList.update (sr_seq rec) rec m) (map snd (sa_bySeq s)) [] = sa_bySeq s"
    using fold_update_distinct [OF d, of "[]" "\<lambda>r. r"] k by simp
  moreover have "fold (\<lambda>(orderId, seq) m. AList.update orderId seq m) (sa_byOrder s) [] = sa_byOrder s"
    using fold_update_distinct [of fst "sa_byOrder s" "[]" snd] core
    by (simp add: core_inv_def case_prod_unfold)
  ultimately show ?thesis by (simp add: newAllocator_def st snapshot_def)
qed

section \<open>Properties\<close>

text \<open>C7. The double-pay shield of the single-account allocator, over every sequence of calls from a
  fresh store. At any moment no two orders hold the same unspent sequence number; a number that was
  marked as burned is never handed to any order again, whatever calls follow; and an order that is
  not released keeps its number until that number is burned, so a retry of an order cannot become a
  second payment.\<close>

theorem allocator_double_pay_shield:
  fixes nfc :: "ustring \<Rightarrow> ustring" and base :: int and calls later :: "seq_op list"
  defines "s \<equiv> fold (alloc_step nfc) calls (newAllocator None base)"
  shows "(active_seq s a = Some q \<longrightarrow> active_seq s b = Some q \<longrightarrow> a = b)
    \<and> (q \<in> burned_seqs s \<longrightarrow> active_seq (fold (alloc_step nfc) later s) a \<noteq> Some q)
    \<and> (active_seq s a = Some q \<longrightarrow> (\<forall>op \<in> set later. \<not> releases nfc op a) \<longrightarrow>
         active_seq (fold (alloc_step nfc) later s) a = Some q
         \<or> q \<in> burned_seqs (fold (alloc_step nfc) later s))"
proof -
  have "alloc_inv s" unfolding s_def by (rule alloc.inv_run [OF newAllocator_inv])
  then show ?thesis
    using alloc.slot_owner alloc.spent_never_reissued alloc.slot_sticks by blast
qed

theorem allocator_double_pay_shield_witness:
  "active_seq (fold (alloc_step id) [OpAllocate (lit ''b'')]
      (fold (alloc_step id) [OpAllocate (lit ''a''), OpConfirmBurned 8 None] (newAllocator None 7))) (lit ''b'') \<noteq> Some 8"
proof -
  have "8 \<in> burned_seqs (fold (alloc_step id) [OpAllocate (lit ''a''), OpConfirmBurned 8 None] (newAllocator None 7))"
    by (simp add: allocate_def with_id_def canonicalizeOrderId_def LONE_SURROGATE_def lit_def is_high_def is_low_def
        newAllocator_def grant_def takeSeq_def confirmBurned_def burned_seqs_def statusOf_def Let_def)
  with allocator_double_pay_shield [of id "[OpAllocate (lit ''a''), OpConfirmBurned 8 None]" 7 _ 8] show ?thesis
    by blast
qed

text \<open>The sequence space has no gap and no overlap. In every state reached from a fresh store, the
  numbers above the bootstrap sequence and below the next fresh one are exactly the tracked ones
  together with the free ones, no number is both, and the free list is sorted, so the lowest free
  number is reused first.\<close>

lemma allocator_gap_free:
  fixes nfc :: "ustring \<Rightarrow> ustring" and base :: int and calls :: "seq_op list"
  defines "s \<equiv> fold (alloc_step nfc) calls (newAllocator None base)"
  shows "sa_baseSeq s = base \<and> {q. statusOf s q \<noteq> None} \<union> set (sa_freeList s) = {base <..< sa_nextSeq s}
    \<and> {q. statusOf s q \<noteq> None} \<inter> set (sa_freeList s) = {}
    \<and> sorted (sa_freeList s) \<and> distinct (sa_freeList s)"
proof -
  have base: "sa_baseSeq (alloc_step nfc op t) = sa_baseSeq t" for op t
    by (cases op) (auto simp: allocate_def with_id_def grant_def takeSeq_def confirmBurned_def release_def
        reallocate_def Let_def split: sum.splits option.splits list.splits)
  have "sa_baseSeq (fold (alloc_step nfc) ops t) = sa_baseSeq t" for ops t
    by (induction ops arbitrary: t) (simp_all add: base)
  then have "sa_baseSeq s = base" by (simp add: s_def newAllocator_def)
  moreover have "alloc_inv s" unfolding s_def by (rule alloc.inv_run [OF newAllocator_inv])
  moreover have "{q. statusOf s q \<noteq> None} = dom (map_of (sa_bySeq s))"
    by (auto simp: statusOf_def)
  ultimately show ?thesis by (auto simp: alloc_inv_def core_inv_def)
qed

text \<open>A restart loses nothing: constructing the allocator from the persisted snapshot of any
  reachable state gives back exactly that state, the current-sequence pointers included.\<close>

lemma allocator_restart_roundtrip:
  fixes nfc :: "ustring \<Rightarrow> ustring" and base base' :: int and calls :: "seq_op list"
  defines "s \<equiv> fold (alloc_step nfc) calls (newAllocator None base)"
  shows "newAllocator (sa_store s) base' = s"
  unfolding s_def by (rule restart_state [OF alloc.inv_run [OF newAllocator_inv]])

text \<open>The two recovery paths are exclusive. In a reachable state, for a well-formed order id:
  \<open>reuseOnDead\<close> hands back the order's number exactly when it is unspent, \<open>reallocate\<close> succeeds exactly
  when it is spent, and then it hands out a number that was tracked for nobody; calling \<open>allocate\<close>
  again for an order that has a number returns that number and changes nothing.\<close>

theorem dead_and_reverted_paths_exclusive:
  assumes inv: "alloc_inv s" and wf: "\<not> LONE_SURROGATE raw"
    and cur: "map_of (sa_byOrder s) (nfc raw) = Some q"
  shows "(fst (reuseOnDead nfc q raw s) = Inr q \<longleftrightarrow> statusOf s q = Some SeqActive)
    \<and> ((\<exists>p. fst (reallocate nfc raw s) = Inr p) \<longleftrightarrow> statusOf s q = Some SeqBurned)
    \<and> (\<forall>p. fst (reallocate nfc raw s) = Inr p \<longrightarrow> statusOf s p = None)
    \<and> allocate nfc raw s = (Inr q, s)"
proof -
  from inv have core: "core_inv s" by (simp add: alloc_inv_def)
  from core_invD(2) [OF core cur] obtain r where r: "map_of (sa_bySeq s) q = Some r" "sr_orderId r = nfc raw" by blast
  obtain x s' where g: "grant (nfc raw) s = (x, s')" by fastforce
  obtain p where p: "x = Inr p" "map_of (sa_bySeq s) p = None" by (rule grant_facts [OF core g]) blast
  have status: "sr_status r = SeqActive \<longleftrightarrow> sr_status r \<noteq> SeqBurned" by (cases "sr_status r") auto
  show ?thesis
    using wf cur r g p status
    by (auto simp: reuseOnDead_def reallocate_def allocate_def with_id_def canonicalizeOrderId_def requireOwned_def
        statusOf_def)
qed

theorem dead_and_reverted_paths_exclusive_witness:
  "fst (reuseOnDead id 8 (lit ''a'') (fold (alloc_step id) [OpAllocate (lit ''a'')] (newAllocator None 7))) = Inr 8"
proof -
  let ?s = "fold (alloc_step id) [OpAllocate (lit ''a'')] (newAllocator None 7)"
  have wf: "\<not> LONE_SURROGATE (lit ''a'')"
    by (simp add: LONE_SURROGATE_def lit_def is_high_def is_low_def)
  have inv: "alloc_inv ?s" by (rule alloc.inv_run [OF newAllocator_inv])
  have s: "map_of (sa_byOrder ?s) (id (lit ''a'')) = Some 8" "statusOf ?s 8 = Some SeqActive"
    using wf by (simp_all add: allocate_def with_id_def canonicalizeOrderId_def newAllocator_def grant_def takeSeq_def
        statusOf_def Let_def)
  from dead_and_reverted_paths_exclusive [where nfc = id, OF inv wf s(1)] s(2) show ?thesis by blast
qed

end
