(* ===== verification/Channel_Pool.thy ===== *)
theory Channel_Pool
  imports Sequence_Allocator
begin

text \<open>
  The channel-account pool, \<^verbatim>\<open>packages/core/src/channel-pool.ts\<close>: one \<open>SequenceAllocator\<close> per channel
  account and a sticky assignment of orders to channels. A slot of the pool is a pair of channel and
  sequence number. The locale \<open>seq_provider\<close> is interpreted on the pool, so the shield proved for the
  single account holds for the pool too.
\<close>

section \<open>State and constructor\<close>

record channel_config =
  cc_publicKey :: ustring
  cc_baseSeq :: int
  cc_store :: "seq_snapshot option"

text \<open>\<open>channels\<close> and \<open>byPublicKey\<close> hold the same objects under distinct keys, so one map in channel order
  stands for both; \<open>pl_mapStore\<close> is the content of the \<open>ChannelMapStore\<close>.\<close>

record pool =
  pl_channels :: "(ustring, seq_alloc) jsmap"
  pl_orderChannel :: "(ustring, ustring) jsmap"
  pl_mapStore :: "(ustring \<times> ustring) list option"

datatype pool_error = PoolEmpty | PoolDuplicate ustring | PoolUnknownChannel ustring ustring

fun first_duplicate :: "ustring list \<Rightarrow> channel_config list \<Rightarrow> ustring option" where
  "first_duplicate seen [] = None"
| "first_duplicate seen (c # cs) =
     (if cc_publicKey c \<in> set seen then Some (cc_publicKey c)
      else first_duplicate (seen @ [cc_publicKey c]) cs)"

fun restore_map :: "(ustring, seq_alloc) jsmap \<Rightarrow> (ustring, ustring) jsmap \<Rightarrow> (ustring \<times> ustring) list
    \<Rightarrow> pool_error + (ustring, ustring) jsmap" where
  "restore_map channels m [] = Inr m"
| "restore_map channels m ((orderId, publicKey) # rest) =
     (if \<not> has_key channels publicKey then Inl (PoolUnknownChannel orderId publicKey)
      else restore_map channels (AList.update orderId publicKey m) rest)"

definition newPool :: "channel_config list \<Rightarrow> (ustring \<times> ustring) list option \<Rightarrow> pool_error + pool" where
  "newPool configs mapStore =
     (if configs = [] then Inl PoolEmpty
      else case first_duplicate [] configs of
        Some pk \<Rightarrow> Inl (PoolDuplicate pk)
      | None \<Rightarrow>
          let channels = map (\<lambda>c. (cc_publicKey c, newAllocator (cc_store c) (cc_baseSeq c))) configs in
          bindR (restore_map channels [] (case mapStore of None \<Rightarrow> [] | Some es \<Rightarrow> es)) (\<lambda>m.
            Inr \<lparr> pl_channels = channels, pl_orderChannel = m, pl_mapStore = mapStore \<rparr>))"

section \<open>Operations\<close>

definition persistMap :: "pool \<Rightarrow> pool" where
  "persistMap s = s\<lparr> pl_mapStore := Some (pl_orderChannel s) \<rparr>"

text \<open>A channel is named by its key; the call runs on its allocator in place.\<close>

definition channelOf :: "pool \<Rightarrow> ustring \<Rightarrow> ustring option" where
  "channelOf s orderId =
     (case map_of (pl_orderChannel s) orderId of
        None \<Rightarrow> None
      | Some pk \<Rightarrow> if has_key (pl_channels s) pk then Some pk else None)"

definition on_channel ::
    "ustring \<Rightarrow> (seq_alloc \<Rightarrow> (seq_error + 'r) \<times> seq_alloc) \<Rightarrow> pool \<Rightarrow> (seq_error + 'r) \<times> pool" where
  "on_channel pk f s =
     (case map_of (pl_channels s) pk of
        None \<Rightarrow> (Inl NoActiveAllocation, s)
      | Some a \<Rightarrow> let (r, a') = f a in (r, s\<lparr> pl_channels := AList.update pk a' (pl_channels s) \<rparr>))"

definition load :: "seq_alloc \<Rightarrow> nat" where
  "load a = length (ss_byOrder (snapshot a))"

definition loads :: "pool \<Rightarrow> (ustring \<times> nat) list" where
  "loads s = map (\<lambda>(pk, a). (pk, load a)) (pl_channels s)"

text \<open>The scan of \<open>assign\<close>: the first channel with the strictly smallest load.\<close>

fun least_loaded :: "ustring \<Rightarrow> nat option \<Rightarrow> (ustring \<times> seq_alloc) list \<Rightarrow> ustring" where
  "least_loaded best bestLoad [] = best"
| "least_loaded best bestLoad ((pk, a) # cs) =
     (if (case bestLoad of None \<Rightarrow> True | Some b \<Rightarrow> load a < b)
      then least_loaded pk (Some (load a)) cs
      else least_loaded best bestLoad cs)"

definition assign :: "ustring \<Rightarrow> pool \<Rightarrow> ustring \<times> pool" where
  "assign orderId s =
     (let best = least_loaded (fst (hd (pl_channels s))) None (pl_channels s) in
      (best, persistMap (s\<lparr> pl_orderChannel := AList.update orderId best (pl_orderChannel s) \<rparr>)))"

definition requireChannel ::
    "(ustring \<Rightarrow> ustring) \<Rightarrow> ustring \<Rightarrow> pool \<Rightarrow> (ustring \<Rightarrow> (seq_error + 'r) \<times> pool) \<Rightarrow> (seq_error + 'r) \<times> pool" where
  "requireChannel nfc orderIdRaw s f =
     with_id nfc orderIdRaw s (\<lambda>orderId.
       case channelOf s orderId of None \<Rightarrow> (Inl NoActiveAllocation, s) | Some pk \<Rightarrow> f pk)"

definition channelFor :: "(ustring \<Rightarrow> ustring) \<Rightarrow> ustring \<Rightarrow> pool \<Rightarrow> (seq_error + ustring option) \<times> pool" where
  "channelFor nfc orderIdRaw s =
     with_id nfc orderIdRaw s (\<lambda>orderId. (Inr (map_of (pl_orderChannel s) orderId), s))"

definition pool_allocate :: "(ustring \<Rightarrow> ustring) \<Rightarrow> ustring \<Rightarrow> pool \<Rightarrow> (seq_error + int) \<times> pool" where
  "pool_allocate nfc orderIdRaw s =
     with_id nfc orderIdRaw s (\<lambda>orderId.
       let (pk, s) = (case channelOf s orderId of Some pk \<Rightarrow> (pk, s) | None \<Rightarrow> assign orderId s)
       in on_channel pk (allocate nfc orderId) s)"

definition active_on :: "pool \<Rightarrow> int \<Rightarrow> seq_status \<Rightarrow> ustring list" where
  "active_on s seq st = map fst (filter (\<lambda>(pk, a). statusOf a seq = Some st) (pl_channels s))"

definition pool_confirmBurned ::
    "(ustring \<Rightarrow> ustring) \<Rightarrow> int \<Rightarrow> ustring option \<Rightarrow> pool \<Rightarrow> (seq_error + unit) \<times> pool" where
  "pool_confirmBurned nfc seq orderIdRaw s =
     (case orderIdRaw of
        Some raw \<Rightarrow> requireChannel nfc raw s (\<lambda>pk. on_channel pk (confirmBurned seq) s)
      | None \<Rightarrow>
          (case active_on s seq SeqActive of
             [pk] \<Rightarrow> on_channel pk (confirmBurned seq) s
           | [] \<Rightarrow> if active_on s seq SeqBurned \<noteq> [] then (Inr (), s) else (Inl UnknownSeq, s)
           | _ \<Rightarrow> (Inl SeqOrderMismatch, s)))"

definition pool_reuseOnDead ::
    "(ustring \<Rightarrow> ustring) \<Rightarrow> int \<Rightarrow> ustring \<Rightarrow> pool \<Rightarrow> (seq_error + int) \<times> pool" where
  "pool_reuseOnDead nfc seq orderIdRaw s =
     requireChannel nfc orderIdRaw s (\<lambda>pk. on_channel pk (reuseOnDead nfc seq orderIdRaw) s)"

definition pool_release ::
    "(ustring \<Rightarrow> ustring) \<Rightarrow> int \<Rightarrow> ustring \<Rightarrow> pool \<Rightarrow> (seq_error + unit) \<times> pool" where
  "pool_release nfc seq orderIdRaw s =
     with_id nfc orderIdRaw s (\<lambda>orderId.
       case requireChannel nfc orderId s (\<lambda>pk. on_channel pk (release nfc seq orderId) s) of
         (Inl e, s) \<Rightarrow> (Inl e, s)
       | (Inr _, s) \<Rightarrow> (Inr (), persistMap (s\<lparr> pl_orderChannel := AList.delete orderId (pl_orderChannel s) \<rparr>)))"

definition pool_reallocate :: "(ustring \<Rightarrow> ustring) \<Rightarrow> ustring \<Rightarrow> pool \<Rightarrow> (seq_error + int) \<times> pool" where
  "pool_reallocate nfc orderIdRaw s =
     requireChannel nfc orderIdRaw s (\<lambda>pk. on_channel pk (reallocate nfc orderIdRaw) s)"

fun pool_step :: "(ustring \<Rightarrow> ustring) \<Rightarrow> seq_op \<Rightarrow> pool \<Rightarrow> pool" where
  "pool_step nfc (OpAllocate ord) s = snd (pool_allocate nfc ord s)"
| "pool_step nfc (OpConfirmBurned seq ord) s = snd (pool_confirmBurned nfc seq ord s)"
| "pool_step nfc (OpReuseOnDead seq ord) s = snd (pool_reuseOnDead nfc seq ord s)"
| "pool_step nfc (OpRelease seq ord) s = snd (pool_release nfc seq ord s)"
| "pool_step nfc (OpReallocate ord) s = snd (pool_reallocate nfc ord s)"

section \<open>Invariant\<close>

text \<open>Every channel's allocator satisfies its invariant, every assignment names a channel of the pool,
  and an order with a pointer in some channel is assigned to that channel: its sequence numbers live
  in one account.\<close>

definition pool_inv :: "pool \<Rightarrow> bool" where
  "pool_inv s \<longleftrightarrow>
     pl_channels s \<noteq> [] \<and> distinct (map fst (pl_channels s)) \<and> distinct (map fst (pl_orderChannel s))
     \<and> (\<forall>pk a. map_of (pl_channels s) pk = Some a \<longrightarrow> alloc_inv a)
     \<and> (\<forall>ord pk. map_of (pl_orderChannel s) ord = Some pk \<longrightarrow> has_key (pl_channels s) pk)
     \<and> (\<forall>pk a ord q. map_of (pl_channels s) pk = Some a \<longrightarrow> map_of (sa_byOrder a) ord = Some q \<longrightarrow>
          map_of (pl_orderChannel s) ord = Some pk)
     \<and> (case pl_mapStore s of None \<Rightarrow> pl_orderChannel s = [] | Some es \<Rightarrow> es = pl_orderChannel s)"

definition pool_slot :: "pool \<Rightarrow> ustring \<Rightarrow> (ustring \<times> int) option" where
  "pool_slot s ord =
     (case map_of (pl_orderChannel s) ord of
        None \<Rightarrow> None
      | Some pk \<Rightarrow> (case map_of (pl_channels s) pk of
          None \<Rightarrow> None
        | Some a \<Rightarrow> map_option (Pair pk) (active_seq a ord)))"

definition pool_burned :: "pool \<Rightarrow> (ustring \<times> int) set" where
  "pool_burned s = {(pk, q). \<exists>a. map_of (pl_channels s) pk = Some a \<and> q \<in> burned_seqs a}"

section \<open>What a call does to the pool\<close>

lemma on_channel_eq:
  "map_of (pl_channels s) pk = Some a \<Longrightarrow>
   on_channel pk f s = (fst (f a), s\<lparr> pl_channels := AList.update pk (snd (f a)) (pl_channels s) \<rparr>)"
  by (simp add: on_channel_def case_prod_unfold Let_def)

lemma least_loaded_mem:
  "least_loaded best b cs \<in> insert best (fst ` set cs)"
  by (induction best b cs rule: least_loaded.induct) (auto split: option.splits)

lemma assign_channel:
  assumes "pl_channels s \<noteq> []"
  shows "has_key (pl_channels s) (fst (assign ord s))"
  using least_loaded_mem [of "fst (hd (pl_channels s))" None "pl_channels s"] assms
  by (auto simp: assign_def has_key_iff Let_def)

lemma has_keyE: assumes "has_key m k" obtains v where "map_of m k = Some v"
  using assms by (auto simp: has_key_def)

lemma with_id_Inr: "\<not> LONE_SURROGATE raw \<Longrightarrow> with_id nfc raw s f = f (nfc raw)"
  by (simp add: with_id_def canonicalizeOrderId_def)

lemma with_id_bad: "LONE_SURROGATE raw \<Longrightarrow> with_id nfc raw s f = (Inl (SeqBadOrderId OrderIdNotWellFormed), s)"
  by (simp add: with_id_def canonicalizeOrderId_def)

lemma nfc_okD: "nfc_ok nfc \<Longrightarrow> \<not> LONE_SURROGATE u \<Longrightarrow> \<not> LONE_SURROGATE (nfc u)"
    "nfc_ok nfc \<Longrightarrow> \<not> LONE_SURROGATE u \<Longrightarrow> nfc (nfc u) = nfc u"
  by (auto simp: nfc_ok_def)

text \<open>A call either changes nothing, or runs one allocator call in one channel; only a first
  allocation adds an assignment and only a successful release removes one.\<close>

lemma pool_step_effect:
  assumes ok: "nfc_ok nfc" and inv: "pool_inv s"
  obtains (same) "pool_step nfc op s = s"
  | (assigned) ord pk a where "map_of (pl_orderChannel s) ord = None" "map_of (pl_channels s) pk = Some a"
      "nfc ord = ord"
      "pool_step nfc op s = \<lparr> pl_channels = AList.update pk (alloc_step nfc (OpAllocate ord) a) (pl_channels s),
         pl_orderChannel = AList.update ord pk (pl_orderChannel s),
         pl_mapStore = Some (AList.update ord pk (pl_orderChannel s)) \<rparr>"
  | (routed) pk a call where "map_of (pl_channels s) pk = Some a"
      "\<And>ord. \<not> releases nfc call ord"
      "\<And>raw. call = OpAllocate raw \<Longrightarrow> map_of (pl_orderChannel s) (nfc raw) = Some pk"
      "pool_step nfc op s = s\<lparr> pl_channels := AList.update pk (alloc_step nfc call a) (pl_channels s) \<rparr>"
  | (freed) ord pk a q where "map_of (pl_orderChannel s) ord = Some pk" "map_of (pl_channels s) pk = Some a"
      "nfc ord = ord" "releases nfc op ord" "fst (release nfc q ord a) = Inr ()"
      "pool_step nfc op s = \<lparr> pl_channels = AList.update pk (alloc_step nfc (OpRelease q ord) a) (pl_channels s),
         pl_orderChannel = AList.delete ord (pl_orderChannel s),
         pl_mapStore = Some (AList.delete ord (pl_orderChannel s)) \<rparr>"
proof -
  have known: "\<exists>a. map_of (pl_orderChannel s) ord = Some pk \<and> map_of (pl_channels s) pk = Some a"
    if "channelOf s ord = Some pk" for ord pk
    using that by (auto simp: channelOf_def has_key_def split: option.splits if_splits)
  have unknown: "map_of (pl_orderChannel s) ord = None" if "channelOf s ord = None" for ord
    using that inv by (auto simp: channelOf_def pool_inv_def split: option.splits if_splits)
  show thesis
  proof (cases op)
    case (OpAllocate raw)
    show thesis
    proof (cases "LONE_SURROGATE raw")
      case True
      with OpAllocate same show thesis by (simp add: pool_allocate_def with_id_bad)
    next
      case False
      show thesis
      proof (cases "channelOf s (nfc raw)")
        case (Some pk)
        with known obtain a where "map_of (pl_orderChannel s) (nfc raw) = Some pk" "map_of (pl_channels s) pk = Some a"
          by blast
        with OpAllocate False Some nfc_okD [OF ok False] show thesis
          by (intro routed [of pk a "OpAllocate (nfc raw)"]) (simp_all add: pool_allocate_def with_id_Inr on_channel_eq)
      next
        case None
        let ?pk = "fst (assign (nfc raw) s)"
        from inv have "has_key (pl_channels s) ?pk" by (intro assign_channel) (simp add: pool_inv_def)
        then obtain a where a: "map_of (pl_channels s) ?pk = Some a" by (rule has_keyE)
        have sel: "pl_channels (snd (assign (nfc raw) s)) = pl_channels s"
          by (simp add: assign_def persistMap_def Let_def)
        from OpAllocate False None a nfc_okD [OF ok False] unknown [OF None] show thesis
          by (intro assigned [of "nfc raw" ?pk a])
            (simp_all add: pool_allocate_def with_id_Inr case_prod_unfold on_channel_eq sel,
             simp add: assign_def persistMap_def Let_def)
      qed
    qed
  next
    case (OpConfirmBurned q raw)
    show thesis
    proof (cases "\<exists>pk a. map_of (pl_channels s) pk = Some a \<and> pool_step nfc op s
        = s\<lparr> pl_channels := AList.update pk (alloc_step nfc (OpConfirmBurned q None) a) (pl_channels s) \<rparr>")
      case True
      then show thesis using routed [of _ _ "OpConfirmBurned q None"] by auto
    next
      case False
      have chan: "\<exists>a. map_of (pl_channels s) pk = Some a" if "pk \<in> set (active_on s q st)" for pk st
        using that by (auto simp: active_on_def map_of_eq_None_iff image_iff
            intro: ccontr dest: weak_map_of_SomeI)
      have "pool_step nfc op s = s"
      proof (cases raw)
        case None
        with False OpConfirmBurned chan [of _ SeqActive] show ?thesis
          by (fastforce simp: pool_confirmBurned_def on_channel_eq split: list.splits if_splits)
      next
        case (Some r)
        with False OpConfirmBurned known [of "nfc r"] show ?thesis
          by (cases "LONE_SURROGATE r")
            (fastforce simp: pool_confirmBurned_def requireChannel_def with_id_bad with_id_Inr on_channel_eq
              split: option.splits)+
      qed
      then show thesis by (rule same)
    qed
  next
    case (OpReuseOnDead q raw)
    have "on_channel pk (reuseOnDead nfc q raw) s = (r, s') \<Longrightarrow> s' = s" for pk r s'
      by (auto simp: on_channel_def case_prod_unfold Let_def update_same split: option.splits)
    with OpReuseOnDead show thesis
      by (intro same) (auto simp: pool_reuseOnDead_def requireChannel_def with_id_def
          split: sum.splits option.splits, metis prod.collapse)
  next
    case (OpRelease q raw)
    show thesis
    proof (cases "\<not> LONE_SURROGATE raw \<and> (\<exists>pk. channelOf s (nfc raw) = Some pk)")
      case False
      with OpRelease nfc_okD [OF ok, of raw] show thesis
        by (intro same) (cases "LONE_SURROGATE raw";
            auto simp: pool_release_def requireChannel_def with_id_bad with_id_Inr)
    next
      case True
      then obtain pk where wf: "\<not> LONE_SURROGATE raw" and ch: "channelOf s (nfc raw) = Some pk" by blast
      from known [OF ch] obtain a where a: "map_of (pl_orderChannel s) (nfc raw) = Some pk"
        "map_of (pl_channels s) pk = Some a" by blast
      note nn = nfc_okD [OF ok wf]
      show thesis
      proof (cases rule: release_cases [of nfc q "nfc raw" a])
        case (refused e)
        with OpRelease wf ch a nn show thesis
          by (intro same) (simp add: pool_release_def requireChannel_def with_id_Inr on_channel_eq update_same)
      next
        case (released rec)
        then have "fst (release nfc q (nfc raw) a) = Inr ()" by simp
        with OpRelease wf ch a nn show thesis
          by (intro freed [of "nfc raw" pk a q])
            (simp_all add: pool_release_def requireChannel_def with_id_Inr on_channel_eq persistMap_def)
      qed
    qed
  next
    case (OpReallocate raw)
    show thesis
    proof (cases "\<not> LONE_SURROGATE raw \<and> (\<exists>pk. channelOf s (nfc raw) = Some pk)")
      case False
      with OpReallocate show thesis
        by (intro same) (cases "LONE_SURROGATE raw";
            auto simp: pool_reallocate_def requireChannel_def with_id_bad with_id_Inr)
    next
      case True
      then obtain pk where wf: "\<not> LONE_SURROGATE raw" and ch: "channelOf s (nfc raw) = Some pk" by blast
      from known [OF ch] obtain a where "map_of (pl_channels s) pk = Some a" by blast
      with OpReallocate wf ch show thesis
        by (intro routed [of pk a "OpReallocate raw"])
          (simp_all add: pool_reallocate_def requireChannel_def with_id_Inr on_channel_eq)
    qed
  qed
qed

section \<open>The provider laws for the pool\<close>

lemma alloc_step_pointer:
  assumes "map_of (sa_byOrder (alloc_step nfc op a)) ord = Some q"
  shows "map_of (sa_byOrder a) ord \<noteq> None \<or> (\<exists>raw. op = OpAllocate raw \<and> nfc raw = ord)"
  using assms
  by (cases op) (auto simp: allocate_def reallocate_def release_def confirmBurned_def with_id_def grant_def
      takeSeq_def canonicalizeOrderId_def Let_def split: sum.splits option.splits list.splits if_splits)

lemma release_pointer:
  "fst (release nfc q ord a) = Inr () \<Longrightarrow> nfc ord = ord
   \<Longrightarrow> map_of (sa_byOrder (alloc_step nfc (OpRelease q ord) a)) ord = None"
  by (rule release_cases [of nfc q ord a]) (auto simp: canonicalizeOrderId_def split: if_splits)

lemma pool_invD:
  assumes "pool_inv s"
  shows "map_of (pl_channels s) pk = Some a \<Longrightarrow> alloc_inv a"
    and "map_of (pl_orderChannel s) ord = Some pk \<Longrightarrow> has_key (pl_channels s) pk"
    and "map_of (pl_channels s) pk = Some a \<Longrightarrow> map_of (sa_byOrder a) ord = Some q
          \<Longrightarrow> map_of (pl_orderChannel s) ord = Some pk"
  using assms unfolding pool_inv_def by blast+

lemma pool_invI:
  assumes "pl_channels s \<noteq> []" "distinct (map fst (pl_channels s))" "distinct (map fst (pl_orderChannel s))"
    "\<And>pk a. map_of (pl_channels s) pk = Some a \<Longrightarrow> alloc_inv a"
    "\<And>ord pk. map_of (pl_orderChannel s) ord = Some pk \<Longrightarrow> has_key (pl_channels s) pk"
    "\<And>pk a ord q. map_of (pl_channels s) pk = Some a \<Longrightarrow> map_of (sa_byOrder a) ord = Some q
       \<Longrightarrow> map_of (pl_orderChannel s) ord = Some pk"
    "case pl_mapStore s of None \<Rightarrow> pl_orderChannel s = [] | Some es \<Rightarrow> es = pl_orderChannel s"
  shows "pool_inv s"
  using assms unfolding pool_inv_def by blast

text \<open>The common part of the three kinds of change: one channel is replaced, the assignment becomes
  \<open>m\<close>.\<close>

lemma pool_inv_update:
  assumes inv: "pool_inv s" and a: "map_of (pl_channels s) pk = Some a" and a': "alloc_inv a'"
    and m: "distinct (map fst m)"
    and keys: "\<And>ord pk. map_of m ord = Some pk \<Longrightarrow> has_key (pl_channels s) pk"
    and here: "\<And>ord q. map_of (sa_byOrder a') ord = Some q \<Longrightarrow> map_of m ord = Some pk"
    and there: "\<And>ord k b q. k \<noteq> pk \<Longrightarrow> map_of (pl_channels s) k = Some b \<Longrightarrow> map_of (sa_byOrder b) ord = Some q
        \<Longrightarrow> map_of m ord = Some k"
    and store: "case st of None \<Rightarrow> m = [] | Some es \<Rightarrow> es = m"
  shows "pool_inv \<lparr> pl_channels = AList.update pk a' (pl_channels s), pl_orderChannel = m, pl_mapStore = st \<rparr>"
    (is "pool_inv ?s")
proof -
  have hk: "has_key (AList.update pk a' (pl_channels s)) k \<longleftrightarrow> has_key (pl_channels s) k" for k
    using a by (auto simp: has_key_def)
  have "\<forall>k b. map_of (pl_channels ?s) k = Some b \<longrightarrow> alloc_inv b"
    using pool_invD(1) [OF inv] a' by (auto split: if_splits)
  moreover have "\<forall>k b ord q. map_of (pl_channels ?s) k = Some b \<longrightarrow> map_of (sa_byOrder b) ord = Some q \<longrightarrow>
      map_of (pl_orderChannel ?s) ord = Some k"
    using here there by (auto split: if_splits)
  moreover have "pl_channels ?s \<noteq> []" "distinct (map fst (pl_channels ?s))"
    using inv by (auto simp: pool_inv_def distinct_update dest: arg_cong [of _ _ "\<lambda>m. map_of m pk"])
  ultimately show ?thesis
    using keys m store by (auto simp: pool_inv_def hk split: option.splits)
qed

lemma pool_step_inv:
  assumes ok: "nfc_ok nfc" and inv: "pool_inv s"
  shows "pool_inv (pool_step nfc op s)"
  using ok inv
proof (cases rule: pool_step_effect [where op = op])
  case same
  with inv show ?thesis by simp
next
  case (assigned ord pk a)
  show ?thesis
    unfolding assigned(4)
  proof (rule pool_inv_update [OF inv assigned(2)])
    show "alloc_inv (alloc_step nfc (OpAllocate ord) a)"
      by (rule alloc_step_inv [OF pool_invD(1) [OF inv assigned(2)]])
    show "distinct (map fst (AList.update ord pk (pl_orderChannel s)))"
      using inv by (simp add: pool_inv_def distinct_update)
    show "has_key (pl_channels s) k" if "map_of (AList.update ord pk (pl_orderChannel s)) x = Some k" for x k
      using that assigned(2) pool_invD(2) [OF inv] by (auto simp: has_key_def split: if_splits)
    show "map_of (AList.update ord pk (pl_orderChannel s)) x = Some pk"
      if "map_of (sa_byOrder (alloc_step nfc (OpAllocate ord) a)) x = Some q" for x q
      using alloc_step_pointer [OF that] pool_invD(3) [OF inv assigned(2)] assigned(3) by auto
    show "map_of (AList.update ord pk (pl_orderChannel s)) x = Some k"
      if "k \<noteq> pk" "map_of (pl_channels s) k = Some b" "map_of (sa_byOrder b) x = Some q" for x k b q
      using pool_invD(3) [OF inv that(2,3)] assigned(1) by auto
  qed simp
next
  case (routed pk a call)
  have "pool_inv \<lparr> pl_channels = AList.update pk (alloc_step nfc call a) (pl_channels s),
      pl_orderChannel = pl_orderChannel s, pl_mapStore = pl_mapStore s \<rparr>"
  proof (rule pool_inv_update [OF inv routed(1)])
    show "alloc_inv (alloc_step nfc call a)" by (rule alloc_step_inv [OF pool_invD(1) [OF inv routed(1)]])
    show "map_of (pl_orderChannel s) x = Some pk" if "map_of (sa_byOrder (alloc_step nfc call a)) x = Some q" for x q
      using alloc_step_pointer [OF that] pool_invD(3) [OF inv routed(1)] routed(3) by auto
  qed (use inv in \<open>auto simp: pool_inv_def\<close>)
  with routed(4) show ?thesis by (cases s) simp
next
  case (freed ord pk a q)
  show ?thesis
    unfolding freed(6)
  proof (rule pool_inv_update [OF inv freed(2)])
    show "alloc_inv (alloc_step nfc (OpRelease q ord) a)"
      by (rule alloc_step_inv [OF pool_invD(1) [OF inv freed(2)]])
    show "distinct (map fst (AList.delete ord (pl_orderChannel s)))"
      using inv by (simp add: pool_inv_def distinct_delete)
    show "has_key (pl_channels s) k" if "map_of (AList.delete ord (pl_orderChannel s)) x = Some k" for x k
      using that pool_invD(2) [OF inv] by (auto split: if_splits)
    show "map_of (AList.delete ord (pl_orderChannel s)) x = Some pk"
      if *: "map_of (sa_byOrder (alloc_step nfc (OpRelease q ord) a)) x = Some p" for x p
      using alloc_step_pointer [OF *] pool_invD(3) [OF inv freed(2)] release_pointer [OF freed(5,3)] * by auto
    show "map_of (AList.delete ord (pl_orderChannel s)) x = Some k"
      if "k \<noteq> pk" "map_of (pl_channels s) k = Some b" "map_of (sa_byOrder b) x = Some p" for x k b p
      using pool_invD(3) [OF inv that(2,3)] freed(1) that(1) by auto
  qed simp
qed

lemma pool_slot_iff:
  "pool_slot s ord = Some x \<longleftrightarrow> (\<exists>pk q a. x = (pk, q) \<and> map_of (pl_orderChannel s) ord = Some pk
     \<and> map_of (pl_channels s) pk = Some a \<and> active_seq a ord = Some q)"
  by (auto simp: pool_slot_def split: option.splits)

text \<open>The effect of a call on one channel: unchanged, or one allocator call.\<close>

lemma pool_channel_step:
  assumes ok: "nfc_ok nfc" and inv: "pool_inv s" and a: "map_of (pl_channels s) pk = Some a"
  obtains (kept) "map_of (pl_channels (pool_step nfc op s)) pk = Some a"
  | (stepped) call where "map_of (pl_channels (pool_step nfc op s)) pk = Some (alloc_step nfc call a)"
      "\<And>ord. releases nfc call ord \<Longrightarrow> releases nfc op ord"
  using ok inv
proof (cases rule: pool_step_effect [where op = op])
  case same
  with a kept show thesis by simp
next
  case (assigned ord k b)
  with a show thesis by (cases "k = pk") (auto intro: kept stepped [of "OpAllocate ord"])
next
  case (routed k b call)
  with a show thesis by (cases "k = pk") (auto intro: kept stepped [of call])
next
  case (freed ord k b q)
  with a show thesis by (cases "k = pk") (auto intro: kept stepped [of "OpRelease q ord"])
qed

lemma pool_assignment_step:
  assumes "nfc_ok nfc" "pool_inv s" "map_of (pl_orderChannel s) ord = Some pk" "\<not> releases nfc op ord"
  shows "map_of (pl_orderChannel (pool_step nfc op s)) ord = Some pk"
  by (rule pool_step_effect [OF assms(1,2), of op]) (use assms in auto)

interpretation pool: seq_provider "\<lambda>s. nfc_ok nfc \<and> pool_inv s" pool_slot pool_burned "pool_step nfc" "releases nfc"
  for nfc
proof unfold_locales
  fix s op
  assume inv: "nfc_ok nfc \<and> pool_inv s"
  then show "nfc_ok nfc \<and> pool_inv (pool_step nfc op s)" by (blast intro: pool_step_inv)
  show "pool_burned s \<subseteq> pool_burned (pool_step nfc op s)"
  proof
    fix x assume "x \<in> pool_burned s"
    then obtain pk q a where x: "x = (pk, q)" "map_of (pl_channels s) pk = Some a" "q \<in> burned_seqs a"
      by (auto simp: pool_burned_def)
    from inv x(2) have "alloc_inv a" by (blast intro: pool_invD(1))
    then have mono: "burned_seqs a \<subseteq> burned_seqs (alloc_step nfc call a)" for call
      by (rule alloc.burned_step)
    from inv have "nfc_ok nfc" "pool_inv s" by simp_all
    then show "x \<in> pool_burned (pool_step nfc op s)"
      using x(2) by (cases rule: pool_channel_step [where op = op])
        (use x mono in \<open>auto simp: pool_burned_def\<close>)
  qed
next
  fix s a x b
  assume "nfc_ok nfc \<and> pool_inv s" "pool_slot s a = Some x" "pool_slot s b = Some x"
  then show "a = b" by (auto simp: pool_slot_iff dest: pool_invD(1) intro: active_seq_owner)
next
  fix s a x
  assume "nfc_ok nfc \<and> pool_inv s" "pool_slot s a = Some x"
  then show "x \<notin> pool_burned s"
    using pool_invD(1) alloc.slot_unspent by (fastforce simp: pool_slot_iff pool_burned_def)
next
  fix s a x op
  assume inv: "nfc_ok nfc \<and> pool_inv s" and act: "pool_slot s a = Some x" and nr: "\<not> releases nfc op a"
  from act obtain pk q b where x: "x = (pk, q)" "map_of (pl_orderChannel s) a = Some pk"
    "map_of (pl_channels s) pk = Some b" "active_seq b a = Some q" by (auto simp: pool_slot_iff)
  from inv x nr have oc: "map_of (pl_orderChannel (pool_step nfc op s)) a = Some pk"
    by (blast intro: pool_assignment_step)
  from inv x(3) have binv: "alloc_inv b" by (blast intro: pool_invD(1))
  from inv have "nfc_ok nfc" "pool_inv s" by simp_all
  then show "pool_slot (pool_step nfc op s) a = Some x \<or> x \<in> pool_burned (pool_step nfc op s)"
    using x(3)
  proof (cases rule: pool_channel_step [where op = op])
    case kept
    with oc x show ?thesis by (simp add: pool_slot_iff)
  next
    case (stepped call)
    with nr have "\<not> releases nfc call a" by blast
    with alloc.slot_kept [OF binv x(4) this] oc x stepped(1) show ?thesis
      by (auto simp: pool_slot_iff pool_burned_def)
  qed
qed

section \<open>Construction and restart\<close>

lemma first_duplicate_None:
  "first_duplicate seen cs = None \<Longrightarrow> distinct (map cc_publicKey cs) \<and> set (map cc_publicKey cs) \<inter> set seen = {}"
  by (induction seen cs rule: first_duplicate.induct) (auto split: if_splits)

lemma first_duplicate_distinct:
  "distinct (map cc_publicKey cs) \<Longrightarrow> set (map cc_publicKey cs) \<inter> set seen = {} \<Longrightarrow> first_duplicate seen cs = None"
  by (induction seen cs rule: first_duplicate.induct) auto

lemma restore_map_ok:
  "\<lbrakk>\<And>ord pk. (ord, pk) \<in> set es \<Longrightarrow> has_key chs pk; distinct (map fst (m @ es))\<rbrakk> \<Longrightarrow> restore_map chs m es = Inr (m @ es)"
proof (induction es arbitrary: m)
  case (Cons e es)
  obtain ord pk where e: "e = (ord, pk)" by fastforce
  with Cons.prems(2) have "ord \<notin> fst ` set m" by (auto simp: image_iff)
  then have "AList.update ord pk m = m @ [(ord, pk)]" by (rule update_absent)
  moreover have "restore_map chs (m @ [(ord, pk)]) es = Inr ((m @ [(ord, pk)]) @ es)"
    using Cons.prems e by (intro Cons.IH) auto
  ultimately show ?case using Cons.prems(1) [of ord pk] e by simp
qed simp

lemma newPool_inv:
  assumes "newPool configs None = Inr s" and fresh: "list_all (\<lambda>c. cc_store c = None) configs"
  shows "pool_inv s"
proof -
  let ?chs = "map (\<lambda>c. (cc_publicKey c, newAllocator (cc_store c) (cc_baseSeq c))) configs"
  from assms(1) have "configs \<noteq> []" "first_duplicate [] configs = None"
    and s: "s = \<lparr> pl_channels = ?chs, pl_orderChannel = [], pl_mapStore = None \<rparr>"
    by (auto simp: newPool_def Let_def split: if_splits option.splits)
  then have d: "distinct (map fst ?chs)" "?chs \<noteq> []" using first_duplicate_None [of "[]" configs]
    by (simp_all add: comp_def)
  have ch: "\<exists>b. a = newAllocator None b" if "map_of ?chs pk = Some a" for pk a
    using map_of_SomeD [OF that] fresh by (auto simp: list_all_iff)
  have fr: "alloc_inv a \<and> sa_byOrder a = []" if pa: "map_of ?chs pk = Some a" for pk a
  proof -
    from ch [OF pa] obtain b where "a = newAllocator None b" by blast
    then show ?thesis using newAllocator_inv [of b] by (simp add: newAllocator_def)
  qed
  show ?thesis unfolding s
  proof (rule pool_invI)
    fix pk a
    assume "map_of (pl_channels \<lparr> pl_channels = ?chs, pl_orderChannel = [], pl_mapStore = None \<rparr>) pk = Some a"
    then have "map_of ?chs pk = Some a" by (simp only: pool.select_convs)
    note a = fr [OF this]
    then show "alloc_inv a" by (rule conjunct1)
    fix ord q
    assume "map_of (sa_byOrder a) ord = Some q"
    with a show "map_of (pl_orderChannel \<lparr> pl_channels = ?chs, pl_orderChannel = [], pl_mapStore = None \<rparr>) ord = Some pk"
      by simp
  qed (simp_all only: pool.select_convs d option.case, simp_all)
qed

text \<open>What a restart reads: every channel's persisted snapshot and the persisted assignment.\<close>

definition reboot_configs :: "pool \<Rightarrow> channel_config list" where
  "reboot_configs s = map (\<lambda>(pk, a). \<lparr> cc_publicKey = pk, cc_baseSeq = sa_baseSeq a, cc_store = sa_store a \<rparr>) (pl_channels s)"

lemma pool_restart:
  assumes inv: "pool_inv s"
  shows "newPool (reboot_configs s) (pl_mapStore s) = Inr s"
proof -
  have chs: "map (\<lambda>c. (cc_publicKey c, newAllocator (cc_store c) (cc_baseSeq c))) (reboot_configs s) = pl_channels s"
  proof -
    have "newAllocator (sa_store a) b = a" if "(pk, a) \<in> set (pl_channels s)" for pk a b
      using that inv by (intro restart_state) (simp add: pool_inv_def)
    then show ?thesis unfolding reboot_configs_def map_map comp_def by (intro map_idI) auto
  qed
  have "map cc_publicKey (reboot_configs s) = map fst (pl_channels s)"
    by (simp add: reboot_configs_def case_prod_unfold)
  with inv have "first_duplicate [] (reboot_configs s) = None"
    by (intro first_duplicate_distinct) (simp_all add: pool_inv_def)
  moreover have "reboot_configs s \<noteq> []" using inv by (simp add: reboot_configs_def pool_inv_def)
  moreover have "restore_map (pl_channels s) [] (pl_orderChannel s) = Inr (pl_orderChannel s)"
  proof -
    have "has_key (pl_channels s) pk" if "(ord, pk) \<in> set (pl_orderChannel s)" for ord pk
      using that inv by (auto simp: pool_inv_def)
    then show ?thesis using restore_map_ok [of "pl_orderChannel s" "pl_channels s" "[]"] inv
      by (simp add: pool_inv_def)
  qed
  moreover have "(case pl_mapStore s of None \<Rightarrow> [] | Some es \<Rightarrow> es) = pl_orderChannel s"
    using inv by (auto simp: pool_inv_def split: option.splits)
  ultimately show ?thesis unfolding newPool_def Let_def chs by simp
qed

section \<open>Properties\<close>

text \<open>C8. The double-pay shield of the channel pool. From a pool built on fresh stores and for every
  sequence of calls: two orders never hold the same unspent slot (channel and sequence number); a
  spent slot is never handed out again; an order that is not released keeps both its channel and its
  slot until the slot is spent, so every retry of an order rides the sequence space of one account.\<close>

theorem pool_double_pay_shield:
  assumes ok: "nfc_ok nfc" and new: "newPool configs None = Inr s0" "list_all (\<lambda>c. cc_store c = None) configs"
    and s: "s = fold (pool_step nfc) calls s0"
  shows "(pool_slot s a = Some x \<longrightarrow> pool_slot s b = Some x \<longrightarrow> a = b)
    \<and> (x \<in> pool_burned s \<longrightarrow> pool_slot (fold (pool_step nfc) later s) a \<noteq> Some x)
    \<and> ((\<forall>op \<in> set later. \<not> releases nfc op a) \<longrightarrow>
         (pool_slot s a = Some x \<longrightarrow> pool_slot (fold (pool_step nfc) later s) a = Some x
            \<or> x \<in> pool_burned (fold (pool_step nfc) later s))
         \<and> (map_of (pl_orderChannel s) a = Some pk \<longrightarrow>
              map_of (pl_orderChannel (fold (pool_step nfc) later s)) a = Some pk))"
proof -
  from ok newPool_inv [OF new] have inv: "nfc_ok nfc \<and> pool_inv s"
    unfolding s by (intro pool.inv_run) simp
  have sticky: "map_of (pl_orderChannel (fold (pool_step nfc) ops t)) a = Some pk"
    if "nfc_ok nfc \<and> pool_inv t" "\<forall>op \<in> set ops. \<not> releases nfc op a" "map_of (pl_orderChannel t) a = Some pk" for ops t
    using that
  proof (induction ops arbitrary: t)
    case (Cons op ops)
    then show ?case by (simp add: pool_step_inv pool_assignment_step)
  qed simp
  show ?thesis
    using pool.slot_owner [OF inv] pool.spent_never_reissued [OF inv] pool.slot_sticks [OF inv] sticky [OF inv]
    by blast
qed

theorem pool_double_pay_shield_witness:
  "\<exists>s0. newPool [\<lparr> cc_publicKey = lit ''C'', cc_baseSeq = 4, cc_store = None \<rparr>] None = Inr s0
     \<and> map_of (pl_orderChannel (fold (pool_step id) [OpReallocate (lit ''a'')]
          (fold (pool_step id) [OpAllocate (lit ''a'')] s0))) (lit ''a'') = Some (lit ''C'')"
proof -
  let ?c = "[\<lparr> cc_publicKey = lit ''C'', cc_baseSeq = 4, cc_store = None \<rparr>]"
  have n: "newPool ?c None = Inr \<lparr> pl_channels = [(lit ''C'', newAllocator None 4)],
      pl_orderChannel = [], pl_mapStore = None \<rparr>" (is "_ = Inr ?s0")
    by (simp add: newPool_def)
  have wf: "\<not> LONE_SURROGATE (lit ''a'')"
    by (simp add: LONE_SURROGATE_def lit_def is_high_def is_low_def)
  have "map_of (pl_orderChannel (fold (pool_step id) [OpAllocate (lit ''a'')] ?s0)) (lit ''a'') = Some (lit ''C'')"
    using wf by (simp add: pool_allocate_def with_id_Inr channelOf_def assign_def on_channel_def persistMap_def
        case_prod_unfold Let_def)
  moreover have "nfc_ok id" by (simp add: nfc_ok_def)
  ultimately show ?thesis
    using pool_double_pay_shield [of id ?c ?s0 _ "[OpAllocate (lit ''a'')]" "lit ''a''"
        _ _ "[OpReallocate (lit ''a'')]" "lit ''C''"] n by auto
qed

text \<open>A restart of the pool loses nothing: building it from the snapshots its channels persisted and
  the assignment it persisted gives back the same state, so an order in flight is never dealt to
  another channel.\<close>

theorem pool_restart_roundtrip:
  assumes "nfc_ok nfc" "newPool configs None = Inr s0" "list_all (\<lambda>c. cc_store c = None) configs"
    and "s = fold (pool_step nfc) calls s0"
  shows "newPool (reboot_configs s) (pl_mapStore s) = Inr s"
  using pool.inv_run [of nfc s0 calls] newPool_inv [OF assms(2,3)] assms(1,4) by (intro pool_restart) simp

theorem pool_restart_roundtrip_witness:
  "\<exists>s0. newPool [\<lparr> cc_publicKey = lit ''C'', cc_baseSeq = 4, cc_store = None \<rparr>] None = Inr s0
     \<and> newPool (reboot_configs (fold (pool_step id) [OpAllocate (lit ''a'')] s0))
          (pl_mapStore (fold (pool_step id) [OpAllocate (lit ''a'')] s0))
        = Inr (fold (pool_step id) [OpAllocate (lit ''a'')] s0)"
proof -
  let ?c = "[\<lparr> cc_publicKey = lit ''C'', cc_baseSeq = 4, cc_store = None \<rparr>]"
  have "newPool ?c None = Inr \<lparr> pl_channels = [(lit ''C'', newAllocator None 4)],
      pl_orderChannel = [], pl_mapStore = None \<rparr>" (is "_ = Inr ?s0")
    by (simp add: newPool_def)
  moreover have "nfc_ok id" by (simp add: nfc_ok_def)
  ultimately show ?thesis
    using pool_restart_roundtrip [of id ?c ?s0 _ "[OpAllocate (lit ''a'')]"] by auto
qed

end
