(* ===== verification/Append_Log.thy ===== *)
theory Append_Log
  imports Derive_Ids "HOL-Library.Sublist"
begin

text \<open>
  The crash-safe file, \<^verbatim>\<open>packages/composition/src/file-append-log.ts\<close>, at the level of bytes: the frame
  \<open>L<len>,<crc>|<payload>\n\<close>, the append with its poisoning, and the replay that tells a torn tail from
  corruption. The file is the record \<open>append_log\<close>. What the operating system does to one append is an
  argument: all of it persisted and synced, or a failure after some number of bytes. A payload is
  written as its UTF-8 bytes (\<open>utf8\<close> of \<open>Derive_Ids\<close>), and \<open>replay\<close> returns those bytes.
\<close>

unbundle bit_operations_syntax

section \<open>Frames\<close>

definition LF :: byte where "LF = 0x0a"
definition HEADER_START :: byte where "HEADER_START = 0x4c"
definition COMMA :: byte where "COMMA = 0x2c"
definition BAR :: byte where "BAR = 0x7c"
definition CRC_HEX_LEN :: nat where "CRC_HEX_LEN = 8"
definition MAX_LOG_BYTES :: nat where "MAX_LOG_BYTES = 2 ^ 31"

text \<open>CRC-32 as \<open>zlib.crc32\<close> computes it (reflected, polynomial 0xEDB88320).\<close>

definition crc_bit :: "32 word \<Rightarrow> 32 word" where
  "crc_bit c = (if odd (unat c) then drop_bit 1 c XOR 0xEDB88320 else drop_bit 1 c)"

definition crc32 :: "byte list \<Rightarrow> 32 word" where
  "crc32 body = NOT (foldl (\<lambda>c b. (crc_bit ^^ 8) (c XOR ucast b)) (NOT 0) body)"

definition hex_byte :: "nat \<Rightarrow> byte" where
  "hex_byte n = of_nat (if n < 10 then 48 + n else 87 + n)"

text \<open>Eight lower-case hex digits, padded with zeros.\<close>

definition crcHex :: "byte list \<Rightarrow> byte list" where
  "crcHex body = map (\<lambda>i. hex_byte (unat (crc32 body) div 16 ^ i mod 16)) [7, 6, 5, 4, 3, 2, 1, 0]"

definition dec_bytes :: "nat \<Rightarrow> byte list" where
  "dec_bytes n = map (\<lambda>c. of_nat (of_char c)) (nat_dec n)"

definition frame_header :: "byte list \<Rightarrow> byte list" where
  "frame_header body = [HEADER_START] @ dec_bytes (length body) @ [COMMA] @ crcHex body @ [BAR]"

definition frame :: "byte list \<Rightarrow> byte list" where
  "frame body = frame_header body @ body @ [LF]"

section \<open>Reading\<close>

datatype log_error = LogPoisoned | LogClosed | LogNewline | LogIoFailed | LogTooLarge | LogCorruption nat

record log_header =
  lh_payloadStart :: nat
  lh_payloadEnd :: nat
  lh_crc :: "byte list"

record recovered =
  rc_droppedBytes :: nat
  rc_atOffset :: nat

text \<open>\<open>buf.indexOf(x)\<close>, \<open>None\<close> for \<open>-1\<close>.\<close>

fun indexOf :: "byte \<Rightarrow> byte list \<Rightarrow> nat option" where
  "indexOf x [] = None"
| "indexOf x (y # ys) = (if x = y then Some 0 else map_option Suc (indexOf x ys))"

definition is_dec_byte :: "byte \<Rightarrow> bool" where
  "is_dec_byte b = (48 \<le> unat b \<and> unat b \<le> 57)"

definition is_hex_byte :: "byte \<Rightarrow> bool" where
  "is_hex_byte b = (48 \<le> unat b \<and> unat b \<le> 57 \<or> 97 \<le> unat b \<and> unat b \<le> 102)"

definition bytes_dec :: "byte list \<Rightarrow> nat" where
  "bytes_dec bs = foldl (\<lambda>a b. a * 10 + (unat b - 48)) 0 bs"

text \<open>\<open>parseHeader\<close> at the start of the remaining bytes; positions are relative to it.\<close>

definition parseHeader :: "byte list \<Rightarrow> log_header option" where
  "parseHeader buf =
     (case buf of
        [] \<Rightarrow> None
      | c # rest \<Rightarrow>
          if c \<noteq> HEADER_START then None
          else case (indexOf COMMA rest, indexOf BAR rest) of
            (Some comma, Some bar) \<Rightarrow>
              if comma \<ge> bar then None
              else
                let lenText = take comma rest in
                if lenText = [] \<or> \<not> list_all is_dec_byte lenText then None
                else if bar - comma - 1 \<noteq> CRC_HEX_LEN then None
                else
                  let crc = take CRC_HEX_LEN (drop (comma + 1) rest) in
                  if \<not> list_all is_hex_byte crc then None
                  else Some \<lparr> lh_payloadStart = bar + 2, lh_payloadEnd = bar + 2 + bytes_dec lenText, lh_crc = crc \<rparr>
          | _ \<Rightarrow> None)"

definition readRecord :: "byte list \<Rightarrow> (byte list \<times> nat) option" where
  "readRecord buf =
     (case parseHeader buf of
        None \<Rightarrow> None
      | Some h \<Rightarrow>
          if lh_payloadEnd h \<ge> length buf then None
          else if buf ! lh_payloadEnd h \<noteq> LF then None
          else
            let body = take (lh_payloadEnd h - lh_payloadStart h) (drop (lh_payloadStart h) buf) in
            if crcHex body \<noteq> lh_crc h then None else Some (body, lh_payloadEnd h + 1))"

definition handleBadRecord :: "byte list \<Rightarrow> nat \<Rightarrow> byte list list \<Rightarrow> log_error + (byte list list \<times> recovered option)" where
  "handleBadRecord buf badStart payloads =
     (if LF \<in> set buf then Inl (LogCorruption badStart)
      else case parseHeader buf of
        Some h \<Rightarrow>
          if lh_payloadEnd h < length buf then Inl (LogCorruption badStart)
          else Inr (payloads, Some \<lparr> rc_droppedBytes = length buf, rc_atOffset = badStart \<rparr>)
      | None \<Rightarrow> Inr (payloads, Some \<lparr> rc_droppedBytes = length buf, rc_atOffset = badStart \<rparr>))"

lemma readRecord_progress: "readRecord buf = Some (body, n) \<Longrightarrow> 0 < n \<and> n \<le> length buf"
  by (auto simp: readRecord_def Let_def split: option.splits if_splits)

text \<open>The \<open>while\<close> loop of \<open>replay\<close>; \<open>buf\<close> is the part of the file from the cursor on.\<close>

function replay_loop :: "byte list \<Rightarrow> nat \<Rightarrow> byte list list \<Rightarrow> log_error + (byte list list \<times> recovered option)" where
  "replay_loop buf cursor payloads =
     (if buf = [] then Inr (payloads, None)
      else case readRecord buf of
        None \<Rightarrow> handleBadRecord buf cursor payloads
      | Some (body, n) \<Rightarrow> replay_loop (drop n buf) (cursor + n) (payloads @ [body]))"
  by pat_completeness auto

termination
  by (relation "measure (\<lambda>(buf, _, _). length buf)") (auto dest: readRecord_progress)

declare replay_loop.simps [simp del]

section \<open>The log\<close>

record append_log =
  al_bytes :: "byte list"
  al_poisoned :: bool
  al_closed :: bool

text \<open>What the system does to one append: everything persisted, or a failure with a prefix on disk.\<close>

datatype io_outcome = IoOk | IoFail nat

definition append :: "ustring \<Rightarrow> io_outcome \<Rightarrow> append_log \<Rightarrow> (log_error + unit) \<times> append_log" where
  "append payload io l =
     (if al_poisoned l then (Inl LogPoisoned, l)
      else if al_closed l then (Inl LogClosed, l)
      else if 10 \<in> set payload then (Inl LogNewline, l)
      else
        let line = frame (utf8 payload) in
        case io of
          IoOk \<Rightarrow> (Inr (), l\<lparr> al_bytes := al_bytes l @ line \<rparr>)
        | IoFail n \<Rightarrow> (Inl LogIoFailed, l\<lparr> al_bytes := al_bytes l @ take n line, al_poisoned := True \<rparr>))"

definition replay :: "append_log \<Rightarrow> (log_error + (byte list list \<times> recovered option)) \<times> append_log" where
  "replay l =
     (if length (al_bytes l) \<ge> MAX_LOG_BYTES then (Inl LogTooLarge, l)
      else case replay_loop (al_bytes l) 0 [] of
        Inl e \<Rightarrow> (Inl e, l)
      | Inr (payloads, None) \<Rightarrow> (Inr (payloads, None), l)
      | Inr (payloads, Some r) \<Rightarrow>
          (Inr (payloads, Some r), l\<lparr> al_bytes := take (rc_atOffset r) (al_bytes l) \<rparr>))"

definition close :: "append_log \<Rightarrow> append_log" where
  "close l = l\<lparr> al_closed := True \<rparr>"

text \<open>The constructor, on the bytes the file holds.\<close>

definition openLog :: "byte list \<Rightarrow> append_log" where
  "openLog bytes = \<lparr> al_bytes = bytes, al_poisoned = False, al_closed = False \<rparr>"

section \<open>Frames read back\<close>

lemma indexOf_append: "x \<notin> set xs \<Longrightarrow> indexOf x (xs @ x # ys) = Some (length xs)"
  by (induction xs) auto

lemma indexOf_absent: "x \<notin> set xs \<Longrightarrow> indexOf x xs = None"
  by (induction xs) auto

lemma unat_dec_byte: "unat (of_nat (of_char c) :: byte) = (of_char c :: nat)"
  using nat_of_char_less_256 [of c] by (simp add: unat_of_nat)

lemma dec_bytes_digits: "list_all is_dec_byte (dec_bytes n)"
  using nat_dec_digits [of n] by (auto simp: dec_bytes_def list_all_iff is_dec_byte_def is_digit_def unat_dec_byte)

lemma bytes_dec_dec_bytes: "bytes_dec (dec_bytes n) = n"
proof -
  have "foldl (\<lambda>a b. a * 10 + (unat b - 48)) k (map (\<lambda>c. of_nat (of_char c) :: byte) s)
      = foldl (\<lambda>a c. a * 10 + digit_val c) k s" for k s
    by (induction s arbitrary: k) (simp_all add: unat_dec_byte digit_val_def)
  then have "bytes_dec (dec_bytes n) = dec_nat (nat_dec n)" by (simp add: bytes_dec_def dec_bytes_def dec_nat_def)
  then show ?thesis by simp
qed

lemma dec_bytes_nonempty: "dec_bytes n \<noteq> []"
  by (simp add: dec_bytes_def)

lemma crcHex_length [simp]: "length (crcHex body) = CRC_HEX_LEN"
  by (simp add: crcHex_def CRC_HEX_LEN_def)

lemma hex_byte_is_hex: "n < 16 \<Longrightarrow> is_hex_byte (hex_byte n)"
  by (auto simp: hex_byte_def is_hex_byte_def unat_of_nat)

lemma crcHex_hex: "list_all is_hex_byte (crcHex body)"
  by (simp add: crcHex_def hex_byte_is_hex)

lemma dec_not_sep: "is_dec_byte b \<Longrightarrow> b \<noteq> COMMA \<and> b \<noteq> BAR \<and> b \<noteq> LF"
  by (auto simp: is_dec_byte_def COMMA_def BAR_def LF_def)

lemma hex_not_sep: "is_hex_byte b \<Longrightarrow> b \<noteq> COMMA \<and> b \<noteq> BAR \<and> b \<noteq> LF"
  by (auto simp: is_hex_byte_def COMMA_def BAR_def LF_def)

lemma seps_distinct: "COMMA \<noteq> BAR" "HEADER_START \<noteq> BAR" "HEADER_START \<noteq> LF" "COMMA \<noteq> LF" "BAR \<noteq> LF"
  by (simp_all add: COMMA_def BAR_def HEADER_START_def LF_def)

text \<open>The header of a frame parses, whatever follows it.\<close>

lemma parseHeader_frame:
  "parseHeader (frame_header body @ rest)
   = Some \<lparr> lh_payloadStart = length (frame_header body),
       lh_payloadEnd = length (frame_header body) + length body, lh_crc = crcHex body \<rparr>"
proof -
  let ?d = "dec_bytes (length body)" and ?c = "crcHex body"
  have nd: "COMMA \<notin> set ?d" "BAR \<notin> set ?d"
    using dec_bytes_digits [of "length body"] dec_not_sep by (auto simp: list_all_iff)
  have nc: "BAR \<notin> set ?c" using crcHex_hex [of body] hex_not_sep by (auto simp: list_all_iff)
  have comma: "indexOf COMMA (?d @ COMMA # ?c @ BAR # rest) = Some (length ?d)"
    by (rule indexOf_append [OF nd(1)])
  have "BAR \<notin> set (?d @ COMMA # ?c)" using nd nc seps_distinct by auto
  from indexOf_append [OF this, of rest]
  have bar: "indexOf BAR (?d @ COMMA # ?c @ BAR # rest) = Some (length ?d + 1 + CRC_HEX_LEN)" by simp
  show ?thesis
    using comma bar crcHex_hex [of body] dec_bytes_digits [of "length body"] dec_bytes_nonempty [of "length body"]
    by (simp add: parseHeader_def frame_header_def bytes_dec_dec_bytes Let_def)
qed

lemma readRecord_frame: "readRecord (frame body @ rest) = Some (body, length (frame body))"
  using parseHeader_frame [of body "body @ LF # rest"]
  by (simp add: readRecord_def frame_def nth_append Let_def)

lemma frame_nonempty [simp]: "frame body \<noteq> []"
  by (simp add: frame_def)

lemma replay_loop_frames:
  "replay_loop (concat (map frame bodies) @ rest) cursor payloads
   = replay_loop rest (cursor + length (concat (map frame bodies))) (payloads @ bodies)"
proof (induction bodies arbitrary: cursor payloads)
  case (Cons b bs)
  have "replay_loop (frame b @ concat (map frame bs) @ rest) cursor payloads
      = replay_loop (concat (map frame bs) @ rest) (cursor + length (frame b)) (payloads @ [b])"
    by (subst replay_loop.simps) (simp add: readRecord_frame)
  with Cons show ?case by (simp add: add.assoc)
qed simp

section \<open>Torn tails\<close>

text \<open>A strict prefix of a frame whose payload has no newline never holds a newline and never declares
  a frame that fits.\<close>

lemma LF_notin_header: "LF \<notin> set (frame_header body)"
  using dec_bytes_digits [of "length body"] crcHex_hex [of body] dec_not_sep hex_not_sep seps_distinct
  by (auto simp: frame_header_def list_all_iff)

lemma strict_prefix_frame_cases:
  assumes "strict_prefix t (frame body)"
  obtains (head) "strict_prefix t (frame_header body)"
  | (payload) k where "t = frame_header body @ take k body"
proof (cases "length t < length (frame_header body)")
  case True
  from assms obtain u where "frame body = t @ u" by (auto simp: strict_prefix_def prefix_def)
  then have "t = take (length t) (frame body)" by simp
  also have "\<dots> = take (length t) (frame_header body)" using True by (simp add: frame_def)
  finally have t: "t = take (length t) (frame_header body)" .
  then have "prefix t (frame_header body)" by (metis take_is_prefix)
  with True have "strict_prefix t (frame_header body)" by (auto simp: strict_prefix_def)
  then show thesis by (rule head)
next
  case False
  from assms obtain u where fu: "frame body = t @ u" and "u \<noteq> []" by (auto simp: strict_prefix_def prefix_def)
  then obtain u' where u: "u = u' @ [LF]" unfolding frame_def
    by (metis append_assoc append_butlast_last_id last_appendR last_snoc)
  with fu have "frame_header body @ body = t @ u'" by (simp add: frame_def)
  with False obtain v where "t = frame_header body @ v" "body = v @ u'"
    by (auto simp: append_eq_append_conv2)
  then show thesis by (intro payload [of "length v"]) simp
qed

lemma strict_prefix_header_unparsed:
  assumes "strict_prefix t (frame_header body)"
  shows "parseHeader t = None"
proof -
  from assms obtain u where "frame_header body = t @ u" "u \<noteq> []" by (auto simp: strict_prefix_def prefix_def)
  then obtain u' where "HEADER_START # dec_bytes (length body) @ COMMA # crcHex body = t @ u'"
    by (cases u rule: rev_cases) (auto simp: frame_header_def)
  moreover have "BAR \<notin> set (HEADER_START # dec_bytes (length body) @ COMMA # crcHex body)"
    using dec_bytes_digits [of "length body"] crcHex_hex [of body] dec_not_sep hex_not_sep seps_distinct
    by (auto simp: list_all_iff)
  ultimately have "BAR \<notin> set t" by (metis Un_iff set_append)
  then show ?thesis
    by (cases t) (auto simp: parseHeader_def indexOf_absent split: option.splits)
qed

lemma torn_tail_healed:
  assumes torn: "strict_prefix t (frame body)" and "LF \<notin> set body" and "t \<noteq> []"
  shows "replay_loop t cursor payloads
    = Inr (payloads, Some \<lparr> rc_droppedBytes = length t, rc_atOffset = cursor \<rparr>)"
proof -
  have "LF \<notin> set t \<and> readRecord t = None \<and> (\<forall>h. parseHeader t = Some h \<longrightarrow> length t \<le> lh_payloadEnd h)"
  proof (cases rule: strict_prefix_frame_cases [OF torn])
    case 1
    then have "LF \<notin> set t" using LF_notin_header [of body] by (metis set_mono_prefix strict_prefix_def subsetD)
    with 1 show ?thesis by (simp add: strict_prefix_header_unparsed readRecord_def)
  next
    case (2 k)
    then have "LF \<notin> set t" using LF_notin_header [of body] assms(2) by (auto dest: in_set_takeD)
    with 2 parseHeader_frame [of body "take k body"] show ?thesis by (simp add: readRecord_def)
  qed
  with assms(3) show ?thesis
    by (subst replay_loop.simps) (auto simp: handleBadRecord_def split: option.splits)
qed

lemma replay_committed: "replay_loop (concat (map frame bodies)) 0 [] = Inr (bodies, None)"
proof -
  have "replay_loop [] c ps = Inr (ps, None)" for c ps by (subst replay_loop.simps) simp
  with replay_loop_frames [of bodies "[]" 0 "[]"] show ?thesis by simp
qed

lemma replay_torn:
  assumes "strict_prefix t (frame body)" "LF \<notin> set body" "t \<noteq> []"
  shows "replay_loop (concat (map frame bodies) @ t) 0 []
    = Inr (bodies, Some \<lparr> rc_droppedBytes = length t, rc_atOffset = length (concat (map frame bodies)) \<rparr>)"
  using torn_tail_healed [OF assms] by (simp add: replay_loop_frames)

lemma utf8_newline_free:
  assumes "10 \<notin> set payload"
  shows "LF \<notin> set (utf8 payload)"
proof -
  have cp: "10 \<notin> set (utf8_cp c)" if "c \<noteq> 10" for c
    using that by (auto simp: utf8_cp_def)
  have unit: "unat c \<noteq> 10" if "c \<noteq> 10" for c :: "16 word"
  proof
    assume "unat c = 10"
    then have "unat c = unat (10 :: 16 word)" by simp
    then have "c = 10" by (rule unsigned_word_eqI)
    with that show False by simp
  qed
  have "10 \<notin> set (utf8_nats payload)"
    using assms
  proof (induction payload rule: utf8_nats.induct)
    case (3 c d rest)
    then show ?case by (auto simp: cp unit surrogate_cp_def split: if_splits)
  qed (auto simp: cp unit)
  moreover have "b = 10" if "of_nat b = LF" "b < 256" for b
  proof -
    have "unat (of_nat b :: byte) = b" using that(2) by (simp add: unat_of_nat)
    moreover have "unat (of_nat b :: byte) = unat LF" using that(1) by (rule arg_cong)
    moreover have "unat LF = 10" by (simp add: LF_def)
    ultimately show ?thesis by metis
  qed
  ultimately have "LF \<noteq> of_nat b" if "b \<in> set (utf8_nats payload)" for b
    using that utf8_nats_byte [OF that] by metis
  then show ?thesis by (auto simp: utf8_def)
qed

section \<open>Runs\<close>

text \<open>The life of a log file: appends, each with what the system does to it, and restarts, each of which
  opens the file again and replays it. \<open>acked\<close> are the payloads whose append returned, \<open>tried\<close> all
  payloads whose append reached the file.\<close>

datatype log_op = OpAppend ustring io_outcome | OpRestart

record log_run =
  lr_log :: append_log
  lr_acked :: "byte list list"
  lr_tried :: "byte list list"

definition log_step :: "log_op \<Rightarrow> log_run \<Rightarrow> log_run" where
  "log_step op r =
     (case op of
        OpAppend payload io \<Rightarrow>
          (case append payload io (lr_log r) of
             (Inr _, l) \<Rightarrow> r\<lparr> lr_log := l, lr_acked := lr_acked r @ [utf8 payload], lr_tried := lr_tried r @ [utf8 payload] \<rparr>
           | (Inl LogIoFailed, l) \<Rightarrow> r\<lparr> lr_log := l, lr_tried := lr_tried r @ [utf8 payload] \<rparr>
           | (Inl _, l) \<Rightarrow> r\<lparr> lr_log := l \<rparr>)
      | OpRestart \<Rightarrow> r\<lparr> lr_log := snd (replay (openLog (al_bytes (lr_log r)))) \<rparr>)"

definition emptyRun :: log_run where
  "emptyRun = \<lparr> lr_log = openLog [], lr_acked = [], lr_tried = [] \<rparr>"

text \<open>The file is whole frames of what was tried, containing what was acknowledged, followed by
  nothing or, in a poisoned log, by a strict prefix of one frame.\<close>

definition log_inv :: "log_run \<Rightarrow> bool" where
  "log_inv r \<longleftrightarrow> (\<exists>ps t. al_bytes (lr_log r) = concat (map frame ps) @ t
     \<and> subseq (lr_acked r) ps \<and> subseq ps (lr_tried r)
     \<and> (t = [] \<or> al_poisoned (lr_log r) \<and> (\<exists>b. strict_prefix t (frame b) \<and> LF \<notin> set b)))"

lemma replay_shape:
  assumes "al_bytes l = concat (map frame ps) @ t" "length (al_bytes l) < MAX_LOG_BYTES"
    and "t = [] \<or> (\<exists>b. strict_prefix t (frame b) \<and> LF \<notin> set b)"
  shows "\<exists>rc. replay l = (Inr (ps, rc), l\<lparr> al_bytes := concat (map frame ps) \<rparr>) \<and> (rc = None \<longleftrightarrow> t = [])"
proof (cases "t = []")
  case True
  with assms show ?thesis by (simp add: replay_def replay_committed)
next
  case False
  with assms(3) obtain b where "strict_prefix t (frame b)" "LF \<notin> set b" by blast
  with replay_torn [OF this False, of ps] assms(1,2) False show ?thesis by (simp add: replay_def)
qed

lemma log_step_inv:
  assumes inv: "log_inv r" and size: "length (al_bytes (lr_log r)) < MAX_LOG_BYTES"
  shows "log_inv (log_step op r)"
proof -
  from inv obtain ps t where f: "al_bytes (lr_log r) = concat (map frame ps) @ t"
    "subseq (lr_acked r) ps" "subseq ps (lr_tried r)"
    and tail: "t = [] \<or> al_poisoned (lr_log r) \<and> (\<exists>b. strict_prefix t (frame b) \<and> LF \<notin> set b)"
    unfolding log_inv_def by blast
  show ?thesis
  proof (cases op)
    case OpRestart
    from replay_shape [of "openLog (al_bytes (lr_log r))" ps t] f(1) size tail
    obtain rc where "replay (openLog (al_bytes (lr_log r)))
        = (Inr (ps, rc), (openLog (al_bytes (lr_log r)))\<lparr> al_bytes := concat (map frame ps) \<rparr>)"
      by (auto simp: openLog_def)
    with OpRestart f(2,3) show ?thesis
      unfolding log_inv_def by (intro exI [of _ ps] exI [of _ "[]"]) (simp add: log_step_def)
  next
    case (OpAppend payload io)
    let ?b = "utf8 payload"
    show ?thesis
    proof (cases "al_poisoned (lr_log r) \<or> al_closed (lr_log r) \<or> 10 \<in> set payload")
      case True
      then have "log_step op r = r" using OpAppend by (auto simp: log_step_def append_def)
      with inv show ?thesis by simp
    next
      case False
      with tail have t: "t = []" by simp
      have clean: "LF \<notin> set ?b" using False by (intro utf8_newline_free) simp
      show ?thesis
      proof (cases io)
        case IoOk
        with OpAppend False f t show ?thesis
          unfolding log_inv_def
          by (intro exI [of _ "ps @ [?b]"] exI [of _ "[]"]) (simp add: log_step_def append_def Let_def)
      next
        case (IoFail n)
        with OpAppend False have st: "log_step op r = r\<lparr> lr_log := (lr_log r)\<lparr> al_bytes := al_bytes (lr_log r) @ take n (frame ?b),
            al_poisoned := True \<rparr>, lr_tried := lr_tried r @ [?b] \<rparr>"
          by (simp add: log_step_def append_def Let_def)
        show ?thesis
        proof (cases "n < length (frame ?b)")
          case True
          then have "strict_prefix (take n (frame ?b)) (frame ?b)"
            by (metis strict_prefix_def take_is_prefix length_take min.absorb4 nat_less_le)
          with f t clean show ?thesis
            unfolding log_inv_def st
            by (intro exI [of _ ps] exI [of _ "take n (frame ?b)"]) (auto intro: subseq_rev_drop_many subseq_order.trans)
        next
          case full: False
          with f t show ?thesis
            unfolding log_inv_def st
            by (intro exI [of _ "ps @ [?b]"] exI [of _ "[]"]) (auto intro: subseq_order.trans)
        qed
      qed
    qed
  qed
qed

lemma log_run_inv:
  assumes "log_inv r" and "\<forall>k < length ops. length (al_bytes (lr_log (fold log_step (take k ops) r))) < MAX_LOG_BYTES"
  shows "log_inv (fold log_step ops r)"
  using assms
proof (induction ops arbitrary: r)
  case (Cons op ops)
  from Cons.prems(2) have "length (al_bytes (lr_log r)) < MAX_LOG_BYTES" by (elim allE [of _ 0]) simp
  with Cons.prems(1) have "log_inv (log_step op r)" by (rule log_step_inv)
  moreover have "\<forall>k < length ops. length (al_bytes (lr_log (fold log_step (take k ops) (log_step op r)))) < MAX_LOG_BYTES"
    using Cons.prems(2) by (auto dest: spec [of _ "Suc _"])
  ultimately show ?case using Cons.IH by simp
qed simp

lemma healed_tail:
  "replay_loop buf cursor ps0 = Inr (ps, Some rc)
   \<Longrightarrow> cursor \<le> rc_atOffset rc \<and> LF \<notin> set (drop (rc_atOffset rc - cursor) buf)"
proof (induction buf cursor ps0 rule: replay_loop.induct)
  case (1 buf cursor ps0)
  show ?case
  proof (cases "buf = [] \<or> readRecord buf = None")
    case True
    with "1.prems" show ?thesis
      by (subst (asm) replay_loop.simps) (auto simp: handleBadRecord_def split: if_splits option.splits)
  next
    case False
    then obtain body n where r: "buf \<noteq> []" "readRecord buf = Some (body, n)" by auto
    with "1.prems" have "replay_loop (drop n buf) (cursor + n) (ps0 @ [body]) = Inr (ps, Some rc)"
      by (subst (asm) replay_loop.simps) simp
    with "1.IH" [OF r(1,2) refl] show ?thesis by (auto simp: add.commute)
  qed
qed

lemma overwritten_terminator:
  assumes "x \<noteq> LF" "LF \<notin> set body"
  shows "replay_loop (frame_header body @ body @ [x]) cursor ps = Inl (LogCorruption cursor)"
proof -
  have "frame_header body @ body @ [x] \<noteq> []" by simp
  moreover have "LF \<notin> set (frame_header body @ body @ [x])" using assms LF_notin_header by auto
  ultimately show ?thesis using assms parseHeader_frame [of body "body @ [x]"]
    by (subst replay_loop.simps) (simp add: readRecord_def handleBadRecord_def nth_append)
qed

text \<open>An append whose bytes all reached the file but whose sync failed throws, and its record is still
  there on the next boot.\<close>

lemma sync_failure_leaves_record:
  assumes "10 \<notin> set p" "length (frame (utf8 p)) < MAX_LOG_BYTES"
  shows "\<exists>l. append p (IoFail (length (frame (utf8 p)))) (openLog []) = (Inl LogIoFailed, l)
    \<and> fst (replay (openLog (al_bytes l))) = Inr ([utf8 p], None)"
  using assms replay_committed [of "[utf8 p]"] by (simp add: append_def openLog_def replay_def Let_def)

section \<open>Properties\<close>

text \<open>C26. Nothing acknowledged is lost and nothing is invented. Take any life of a log file below the size
  limit: any sequence of appends, each of which the system completes or breaks off after any number of
  bytes, and any restarts. Opening the file afterwards, \<open>replay\<close> succeeds; it returns every payload whose
  append returned, in order, and otherwise only payloads whose append was attempted; and it leaves a
  file that is whole frames of exactly what it returned.\<close>

theorem replay_recovers_acknowledged:
  assumes small: "\<forall>k \<le> length ops. length (al_bytes (lr_log (fold log_step (take k ops) emptyRun))) < MAX_LOG_BYTES"
    and r: "r = fold log_step ops emptyRun"
  shows "\<exists>ps rc l. replay (openLog (al_bytes (lr_log r))) = (Inr (ps, rc), l)
    \<and> subseq (lr_acked r) ps \<and> subseq ps (lr_tried r) \<and> al_bytes l = concat (map frame ps)"
proof -
  have "log_inv emptyRun"
    unfolding log_inv_def by (intro exI [of _ "[]"]) (simp add: emptyRun_def openLog_def)
  with small r have "log_inv r" by (auto intro: log_run_inv)
  then obtain ps t where f: "al_bytes (lr_log r) = concat (map frame ps) @ t"
    "subseq (lr_acked r) ps" "subseq ps (lr_tried r)"
    and tail: "t = [] \<or> (\<exists>b. strict_prefix t (frame b) \<and> LF \<notin> set b)" unfolding log_inv_def by blast
  from small r have "length (al_bytes (lr_log r)) < MAX_LOG_BYTES" by (elim allE [of _ "length ops"]) simp
  with replay_shape [of "openLog (al_bytes (lr_log r))" ps t] f tail show ?thesis
    by (fastforce simp: openLog_def)
qed

theorem replay_recovers_acknowledged_witness:
  "\<exists>ps rc l. replay (openLog (al_bytes (lr_log (fold log_step [OpAppend (lit ''a'') (IoFail 3)] emptyRun)))) = (Inr (ps, rc), l)
    \<and> subseq ps [utf8 (lit ''a'')] \<and> al_bytes l = concat (map frame ps)"
proof -
  let ?ops = "[OpAppend (lit ''a'') (IoFail 3)]"
  have nl: "10 \<notin> set (lit ''a'')" by (simp add: lit_def)
  have run: "lr_tried (fold log_step ?ops emptyRun) = [utf8 (lit ''a'')]"
    "length (al_bytes (lr_log (fold log_step ?ops emptyRun))) \<le> 3"
    using nl by (simp_all add: log_step_def append_def emptyRun_def openLog_def Let_def)
  have "length (al_bytes (lr_log (fold log_step (take k ?ops) emptyRun))) < MAX_LOG_BYTES" if "k \<le> length ?ops" for k
    using that run(2) by (cases k) (auto simp: MAX_LOG_BYTES_def emptyRun_def openLog_def)
  with replay_recovers_acknowledged [of ?ops, OF _ refl] run(1) show ?thesis by fastforce
qed

text \<open>Corruption is never taken for a crash. When replay heals a file by dropping its tail, the
  dropped bytes contain no record terminator, so no completed record was dropped; and a completed
  final record whose terminator byte was overwritten is reported as corruption, not dropped.\<close>

lemma corruption_never_truncated:
  "(replay_loop buf 0 [] = Inr (ps, Some rc) \<longrightarrow> LF \<notin> set (drop (rc_atOffset rc) buf))
   \<and> (x \<noteq> LF \<longrightarrow> LF \<notin> set body \<longrightarrow>
        replay_loop (concat (map frame bodies) @ frame_header body @ body @ [x]) 0 []
          = Inl (LogCorruption (length (concat (map frame bodies)))))"
proof (intro conjI impI)
  assume "replay_loop buf 0 [] = Inr (ps, Some rc)"
  from healed_tail [OF this] show "LF \<notin> set (drop (rc_atOffset rc) buf)" by simp
next
  assume "x \<noteq> LF" "LF \<notin> set body"
  then show "replay_loop (concat (map frame bodies) @ frame_header body @ body @ [x]) 0 []
      = Inl (LogCorruption (length (concat (map frame bodies))))"
    using overwritten_terminator by (simp add: replay_loop_frames)
qed

lemma corruption_never_truncated_witness:
  "replay_loop (concat (map frame [[7]]) @ frame_header [9] @ [9] @ [0]) 0 []
     = Inl (LogCorruption (length (concat (map frame [[7]]))))"
  using corruption_never_truncated [of "[]" "[]" undefined 0 "[9]" "[[7]]"] by (simp add: LF_def)

end
