(* ===== verification/Pricing.thy ===== *)
theory Pricing
  imports Troia_Prelude
begin

text \<open>
  Pricing, \<^verbatim>\<open>packages/pricing/src\<close>: the spread, the provider gross-up, the price text, the FX-risk
  commission and the combined quotes. Money is exact integer arithmetic. The commission model computes
  with IEEE doubles; its arithmetic is the record \<open>float_ops\<close>, an argument of the definitions, so that
  what is proved holds whatever the rounding. \<open>Inl\<close> is a \<open>RangeError\<close>.
\<close>

section \<open>Spread pricing, index.ts\<close>

definition RATE_SCALE :: int where "RATE_SCALE = 10000000"
definition USDC_STROOP :: int where "USDC_STROOP = 10000000"
definition TRY_KURUS :: int where "TRY_KURUS = 100"
definition BPS_DENOM :: int where "BPS_DENOM = 10000"

definition KURUS_DIVISOR :: int where
  "KURUS_DIVISOR = bigdiv (USDC_STROOP * RATE_SCALE) TRY_KURUS"

datatype range_error = RangeError

record price_breakdown =
  pb_usdcStroops :: int
  pb_oracleMidTryPerUsdc :: int
  pb_appliedRateTryPerUsdc :: int
  pb_spreadBps :: int
  pb_userTryKurus :: int
  pb_spreadRevenueKurus :: int

text \<open>A \<open>number\<close> that should be an integer: \<open>None\<close> when \<open>Number.isInteger\<close> is false.\<close>

type_synonym jsint = "int option"

definition applySpread :: "int \<Rightarrow> jsint \<Rightarrow> range_error + int" where
  "applySpread midE7 spreadBps =
     (case spreadBps of
        None \<Rightarrow> Inl RangeError
      | Some bps \<Rightarrow> if bps < 0 then Inl RangeError else Inr (bigdiv (midE7 * (BPS_DENOM + bps)) BPS_DENOM))"

definition priceUsdc :: "int \<Rightarrow> int \<Rightarrow> jsint \<Rightarrow> range_error + price_breakdown" where
  "priceUsdc usdcStroops oracleMidE7 spreadBps =
     (if usdcStroops \<le> 0 then Inl RangeError
      else if oracleMidE7 \<le> 0 then Inl RangeError
      else bindR (applySpread oracleMidE7 spreadBps) (\<lambda>appliedRateE7.
        let userTryKurus = bigdiv (usdcStroops * appliedRateE7) KURUS_DIVISOR;
            baseTryKurus = bigdiv (usdcStroops * oracleMidE7) KURUS_DIVISOR
        in Inr \<lparr> pb_usdcStroops = usdcStroops, pb_oracleMidTryPerUsdc = oracleMidE7,
             pb_appliedRateTryPerUsdc = appliedRateE7, pb_spreadBps = the spreadBps,
             pb_userTryKurus = userTryKurus, pb_spreadRevenueKurus = userTryKurus - baseTryKurus \<rparr>))"

text \<open>\<open>padStart(2, '0')\<close>.\<close>

definition padStart2 :: "string \<Rightarrow> string" where
  "padStart2 s = replicate (2 - length s) CHR ''0'' @ s"

definition kurusToTryString :: "int \<Rightarrow> range_error + string" where
  "kurusToTryString kurus =
     (if kurus < 0 then Inl RangeError
      else Inr (bigint_str (bigdiv kurus 100) @ ''.'' @ padStart2 (bigint_str (kurus mod 100))))"

section \<open>Provider gross-up, psp-cost.ts\<close>

record psp_cost =
  pc_rateBps :: jsint
  pc_fixedKurus :: int

record psp_passthrough =
  pp_grossKurus :: int
  pp_pspCostKurus :: int

definition applyPspPassthrough :: "int \<Rightarrow> psp_cost \<Rightarrow> range_error + psp_passthrough" where
  "applyPspPassthrough netKurus psp =
     (if netKurus < 0 then Inl RangeError
      else case pc_rateBps psp of
        None \<Rightarrow> Inl RangeError
      | Some rate \<Rightarrow>
          if rate < 0 \<or> rate \<ge> 10000 then Inl RangeError
          else if pc_fixedKurus psp < 0 then Inl RangeError
          else
            let denom = BPS_DENOM - rate;
                numer = (netKurus + pc_fixedKurus psp) * BPS_DENOM;
                grossKurus = bigdiv (numer + denom - 1) denom
            in Inr \<lparr> pp_grossKurus = grossKurus, pp_pspCostKurus = grossKurus - netKurus \<rparr>)"

section \<open>Commission, commission.ts\<close>

text \<open>The double arithmetic the model uses; \<open>fo_round\<close> is \<open>Math.round\<close>, \<open>None\<close> when it is not an integer
  (NaN or an infinity).\<close>

record 'f float_ops =
  fo_of_int :: "int \<Rightarrow> 'f"
  fo_add :: "'f \<Rightarrow> 'f \<Rightarrow> 'f"
  fo_sub :: "'f \<Rightarrow> 'f \<Rightarrow> 'f"
  fo_mul :: "'f \<Rightarrow> 'f \<Rightarrow> 'f"
  fo_div :: "'f \<Rightarrow> 'f \<Rightarrow> 'f"
  fo_sqrt :: "'f \<Rightarrow> 'f"
  fo_log :: "'f \<Rightarrow> 'f"
  fo_lt :: "'f \<Rightarrow> 'f \<Rightarrow> bool"
  fo_finite :: "'f \<Rightarrow> bool"
  fo_round :: "'f \<Rightarrow> int option"

record 'f return_stats =
  rs_muDaily :: 'f
  rs_sigmaDaily :: 'f

record 'f commission_params =
  cp_valorDays :: jsint
  cp_z :: 'f
  cp_marginBps :: jsint

record 'f commission_breakdown =
  cb_driftPct :: 'f
  cb_volPct :: 'f
  cb_marginPct :: 'f
  cb_totalPct :: 'f
  cb_bps :: jsint

definition computeReturnStats :: "'f float_ops \<Rightarrow> 'f list \<Rightarrow> range_error + 'f return_stats" where
  "computeReturnStats F closes =
     (if length closes < 3 then Inl RangeError
      else if \<not> list_all (\<lambda>c. fo_finite F c \<and> fo_lt F (fo_of_int F 0) c) closes then Inl RangeError
      else
        let returns = map (\<lambda>(a, b). fo_log F (fo_div F b a)) (zip closes (tl closes));
            n = fo_of_int F (int (length returns));
            mu = fo_div F (foldl (fo_add F) (fo_of_int F 0) returns) n;
            sq = foldl (\<lambda>a b. fo_add F a (fo_mul F (fo_sub F b mu) (fo_sub F b mu))) (fo_of_int F 0) returns;
            variance = fo_div F sq (fo_of_int F (int (length returns) - 1))
        in Inr \<lparr> rs_muDaily = mu, rs_sigmaDaily = fo_sqrt F variance \<rparr>)"

definition commission ::
    "'f float_ops \<Rightarrow> 'f return_stats \<Rightarrow> 'f commission_params \<Rightarrow> range_error + 'f commission_breakdown" where
  "commission F stats params =
     (if \<not> fo_finite F (rs_muDaily stats) \<or> \<not> fo_finite F (rs_sigmaDaily stats) then Inl RangeError
      else if fo_lt F (rs_sigmaDaily stats) (fo_of_int F 0) then Inl RangeError
      else case (cp_valorDays params, cp_marginBps params) of
        (Some n, Some marginBps) \<Rightarrow>
          if n < 1 then Inl RangeError
          else if \<not> fo_finite F (cp_z params) then Inl RangeError
          else if fo_lt F (cp_z params) (fo_of_int F 0) then Inl RangeError
          else if marginBps < 0 then Inl RangeError
          else
            let driftFrac = fo_mul F (rs_muDaily stats) (fo_of_int F n);
                volFrac = fo_mul F (fo_mul F (cp_z params) (rs_sigmaDaily stats)) (fo_sqrt F (fo_of_int F n));
                marginFrac = fo_div F (fo_of_int F marginBps) (fo_of_int F 10000);
                totalFrac = fo_add F (fo_add F driftFrac volFrac) marginFrac;
                bps = map_option (max 0) (fo_round F (fo_mul F totalFrac (fo_of_int F 10000)));
                hundred = fo_of_int F 100
            in Inr \<lparr> cb_driftPct = fo_mul F driftFrac hundred, cb_volPct = fo_mul F volFrac hundred,
                 cb_marginPct = fo_mul F marginFrac hundred, cb_totalPct = fo_mul F totalFrac hundred, cb_bps = bps \<rparr>
      | _ \<Rightarrow> Inl RangeError)"

definition commissionBps :: "'f float_ops \<Rightarrow> 'f return_stats \<Rightarrow> 'f commission_params \<Rightarrow> range_error + jsint" where
  "commissionBps F stats params = bindR (commission F stats params) (\<lambda>b. Inr (cb_bps b))"

section \<open>Quotes\<close>

record price_quote =
  pq_usdcStroops :: int
  pq_oracleMidE7 :: int
  pq_spreadBps :: int
  pq_appliedRateStroops :: int
  pq_userTryKurus :: int
  pq_paidPriceTry :: string
  pq_spreadRevenueKurus :: int

definition quoteUsdc ::
    "'f float_ops \<Rightarrow> int \<Rightarrow> int \<Rightarrow> 'f return_stats \<Rightarrow> 'f commission_params \<Rightarrow> range_error + price_quote" where
  "quoteUsdc F usdcStroops oracleMidE7 stats params =
     bindR (commissionBps F stats params) (\<lambda>spreadBps.
     bindR (priceUsdc usdcStroops oracleMidE7 spreadBps) (\<lambda>pb.
     bindR (kurusToTryString (pb_userTryKurus pb)) (\<lambda>txt.
       Inr \<lparr> pq_usdcStroops = usdcStroops, pq_oracleMidE7 = oracleMidE7, pq_spreadBps = pb_spreadBps pb,
         pq_appliedRateStroops = pb_appliedRateTryPerUsdc pb, pq_userTryKurus = pb_userTryKurus pb,
         pq_paidPriceTry = txt, pq_spreadRevenueKurus = pb_spreadRevenueKurus pb \<rparr>)))"

record settlement_quote = price_quote +
  sq_netTryKurus :: int
  sq_pspCostKurus :: int

definition quoteUsdcWithPsp ::
    "'f float_ops \<Rightarrow> int \<Rightarrow> int \<Rightarrow> 'f return_stats \<Rightarrow> 'f commission_params \<Rightarrow> psp_cost \<Rightarrow> range_error + settlement_quote" where
  "quoteUsdcWithPsp F usdcStroops oracleMidE7 stats params psp =
     bindR (quoteUsdc F usdcStroops oracleMidE7 stats params) (\<lambda>base.
     bindR (applyPspPassthrough (pq_userTryKurus base) psp) (\<lambda>g.
     bindR (kurusToTryString (pp_grossKurus g)) (\<lambda>txt.
       Inr \<lparr> pq_usdcStroops = pq_usdcStroops base, pq_oracleMidE7 = pq_oracleMidE7 base,
         pq_spreadBps = pq_spreadBps base, pq_appliedRateStroops = pq_appliedRateStroops base,
         pq_userTryKurus = pp_grossKurus g, pq_paidPriceTry = txt,
         pq_spreadRevenueKurus = pq_spreadRevenueKurus base,
         sq_netTryKurus = pq_userTryKurus base, sq_pspCostKurus = pp_pspCostKurus g \<rparr>)))"

section \<open>Reading a price text back, settlement-worker.ts\<close>

text \<open>\<open>trim()\<close>: white space among the code units below 256.\<close>

definition is_space :: "char \<Rightarrow> bool" where
  "is_space c = (of_char c \<in> {9, 10, 11, 12, 13, 32, 160 :: nat})"

definition trim :: "string \<Rightarrow> string" where
  "trim s = rev (dropWhile is_space (rev (dropWhile is_space s)))"

definition padEnd2 :: "string \<Rightarrow> string" where
  "padEnd2 s = s @ replicate (2 - length s) CHR ''0''"

text \<open>The pattern: digits, then optionally a point and one or two digits.\<close>

definition tryToKurus :: "string \<Rightarrow> range_error + int" where
  "tryToKurus paidPriceTry =
     (let s = trim paidPriceTry; whole = takeWhile is_digit s in
      if whole = [] then Inl RangeError
      else case dropWhile is_digit s of
        [] \<Rightarrow> Inr (int (dec_nat whole) * 100 + int (dec_nat (padEnd2 [])))
      | c # frac \<Rightarrow>
          if c = CHR ''.'' \<and> length frac \<in> {1, 2} \<and> list_all is_digit frac
          then Inr (int (dec_nat whole) * 100 + int (dec_nat (padEnd2 frac)))
          else Inl RangeError)"

section \<open>Lemmas\<close>

lemma KURUS_DIVISOR_val: "KURUS_DIVISOR = 1000000000000"
  by (simp add: KURUS_DIVISOR_def bigdiv_def USDC_STROOP_def RATE_SCALE_def TRY_KURUS_def)

lemma applySpread_Inr:
  "applySpread mid bps = Inr r \<Longrightarrow> 0 \<le> mid \<Longrightarrow> \<exists>b. bps = Some b \<and> 0 \<le> b \<and> r = mid * (10000 + b) div 10000 \<and> mid \<le> r"
proof -
  assume "applySpread mid bps = Inr r" and mid: "0 \<le> mid"
  then obtain b where b: "bps = Some b" "0 \<le> b" "r = bigdiv (mid * (10000 + b)) 10000"
    by (auto simp: applySpread_def BPS_DENOM_def split: option.splits if_splits)
  then have r: "r = mid * (10000 + b) div 10000" using mid by (simp add: bigdiv_nonneg)
  have "mid * 10000 \<le> mid * (10000 + b)" using mid b(2) by (simp add: mult_left_mono)
  then have "mid * 10000 div 10000 \<le> r" unfolding r by (rule zdiv_mono1) simp
  with b r show ?thesis by simp
qed

lemma gross_up_bounds:
  assumes "applyPspPassthrough net psp = Inr g"
  obtains rate where "pc_rateBps psp = Some rate" "0 \<le> rate" "rate < 10000" "0 \<le> net" "0 \<le> pc_fixedKurus psp"
    "(net + pc_fixedKurus psp) * 10000 \<le> pp_grossKurus g * (10000 - rate)"
    "(pp_grossKurus g - 1) * (10000 - rate) < (net + pc_fixedKurus psp) * 10000"
    "pp_pspCostKurus g = pp_grossKurus g - net"
proof -
  from assms obtain rate where r: "pc_rateBps psp = Some rate" "0 \<le> rate" "rate < 10000" "0 \<le> net" "0 \<le> pc_fixedKurus psp"
    and g: "pp_grossKurus g = bigdiv ((net + pc_fixedKurus psp) * 10000 + (10000 - rate) - 1) (10000 - rate)"
    "pp_pspCostKurus g = pp_grossKurus g - net"
    by (auto simp: applyPspPassthrough_def BPS_DENOM_def Let_def split: if_splits option.splits)
  define d where "d = 10000 - rate"
  define n where "n = (net + pc_fixedKurus psp) * 10000"
  have d: "0 < d" using r by (simp add: d_def)
  have n: "0 \<le> n" using r by (simp add: n_def)
  have q: "pp_grossKurus g = (n + d - 1) div d" using g(1) bigdiv_nonneg [of "n + d - 1" d] d n unfolding d_def n_def by simp
  have "(n + d - 1) div d * d + (n + d - 1) mod d = n + d - 1" by simp
  moreover have "0 \<le> (n + d - 1) mod d" "(n + d - 1) mod d < d" using d by simp_all
  ultimately have "n \<le> pp_grossKurus g * d" "pp_grossKurus g * d < n + d" unfolding q by linarith+
  with r g show thesis by (intro that [of rate]) (simp_all add: d_def n_def algebra_simps)
qed

lemma priceUsdc_Inr:
  assumes "priceUsdc u mid bps = Inr pb"
  shows "0 < u" "0 < mid" "pb_usdcStroops pb = u" "pb_oracleMidTryPerUsdc pb = mid"
    "\<exists>b. bps = Some b \<and> 0 \<le> b \<and> pb_spreadBps pb = b \<and> pb_appliedRateTryPerUsdc pb = mid * (10000 + b) div 10000"
    "pb_userTryKurus pb = u * pb_appliedRateTryPerUsdc pb div 1000000000000"
    "pb_spreadRevenueKurus pb = pb_userTryKurus pb - u * mid div 1000000000000"
    "mid \<le> pb_appliedRateTryPerUsdc pb"
  using assms by (auto simp: priceUsdc_def bindR_Inr_iff Let_def KURUS_DIVISOR_val bigdiv_nonneg
      split: if_splits dest!: applySpread_Inr)

lemma mod100_digits:
  fixes k :: nat
  assumes "k < 100"
  shows "dec_nat (padStart2 (nat_dec k)) = k \<and> list_all is_digit (padStart2 (nat_dec k)) \<and> length (padStart2 (nat_dec k)) = 2"
proof (cases "k < 10")
  case True
  then have "nat_dec k = [digit k]" by (subst nat_dec.simps) simp
  with True show ?thesis by (simp add: padStart2_def dec_nat_def digit_val_def is_digit_def digit_def)
next
  case False
  then have "nat_dec k = [digit (k div 10), digit (k mod 10)]"
    using assms by (subst nat_dec.simps, subst nat_dec.simps) simp
  with False assms show ?thesis by (simp add: padStart2_def dec_nat_def)
qed

lemma digit_not_space: "is_digit c \<Longrightarrow> \<not> is_space c"
  by (auto simp: is_digit_def is_space_def)

lemma trim_id: "s \<noteq> [] \<Longrightarrow> \<not> is_space (hd s) \<Longrightarrow> \<not> is_space (last s) \<Longrightarrow> trim s = s"
proof -
  have keep: "dropWhile is_space t = t" if "t \<noteq> []" "\<not> is_space (hd t)" for t
    using that by (cases t) auto
  assume "s \<noteq> []" "\<not> is_space (hd s)" "\<not> is_space (last s)"
  then show ?thesis by (simp add: trim_def keep hd_rev)
qed

lemma price_text_roundtrip:
  assumes "kurusToTryString k = Inr s"
  shows "tryToKurus s = Inr k"
proof -
  from assms have k: "0 \<le> k" and s: "s = bigint_str (k div 100) @ ''.'' @ padStart2 (bigint_str (k mod 100))"
    by (auto simp: kurusToTryString_def bigdiv_nonneg split: if_splits)
  define f where "f = padStart2 (nat_dec (nat (k mod 100)))"
  define w where "w = nat_dec (nat (k div 100))"
  have "0 \<le> k div 100" "\<not> k mod 100 < 0" using k by (simp_all add: pos_imp_zdiv_nonneg_iff not_less)
  then have s': "s = w @ CHR ''.'' # f" using s by (simp add: bigint_str_def w_def f_def)
  have f: "dec_nat f = nat (k mod 100)" "list_all is_digit f" "length f = 2"
    using mod100_digits [of "nat (k mod 100)"] by (simp_all add: f_def)
  have w: "list_all is_digit w" "w \<noteq> []" "dec_nat w = nat (k div 100)" by (simp_all add: w_def nat_dec_digits)
  have nd: "\<not> is_digit CHR ''.''" by (simp add: is_digit_def)
  have tw: "takeWhile is_digit s = w" "dropWhile is_digit s = CHR ''.'' # f"
    using w(1) nd by (simp_all add: s' takeWhile_append2 dropWhile_append2 list_all_iff takeWhile_tail)
  have "is_digit (hd s)" using w s' by (cases w) auto
  moreover have "is_digit (last s)"
    using f s' by (cases f rule: rev_cases) auto
  ultimately have "trim s = s" using s' by (intro trim_id) (auto dest: digit_not_space)
  with tw f w k show ?thesis by (simp add: tryToKurus_def Let_def padEnd2_def pos_imp_zdiv_nonneg_iff)
qed

section \<open>Properties\<close>

text \<open>The provider gross-up recovers the cost exactly. When \<open>applyPspPassthrough\<close> returns, the price is
  the least whole number of kurus such that, after the provider takes its percentage of that price and
  its fixed fee, at least the net amount remains; and it returns exactly for non-negative amounts and an
  integer rate below 100 percent. A provider without cost leaves the price unchanged.\<close>

lemma gross_up_is_least_covering_price:
  assumes "pc_rateBps psp = Some rate"
  shows "((\<exists>g. applyPspPassthrough net psp = Inr g) \<longleftrightarrow> 0 \<le> net \<and> 0 \<le> rate \<and> rate < 10000 \<and> 0 \<le> pc_fixedKurus psp)
    \<and> (\<forall>g. applyPspPassthrough net psp = Inr g \<longrightarrow>
         (\<forall>p. p * 10000 - p * rate - pc_fixedKurus psp * 10000 \<ge> net * 10000 \<longleftrightarrow> pp_grossKurus g \<le> p)
         \<and> pp_pspCostKurus g = pp_grossKurus g - net \<and> 0 \<le> pp_pspCostKurus g
         \<and> (rate = 0 \<longrightarrow> pc_fixedKurus psp = 0 \<longrightarrow> pp_grossKurus g = net))"
proof (intro conjI allI impI)
  show "(\<exists>g. applyPspPassthrough net psp = Inr g) \<longleftrightarrow> 0 \<le> net \<and> 0 \<le> rate \<and> rate < 10000 \<and> 0 \<le> pc_fixedKurus psp"
    using assms by (auto simp: applyPspPassthrough_def Let_def)
next
  fix g assume "applyPspPassthrough net psp = Inr g"
  then obtain r where "pc_rateBps psp = Some r" "0 \<le> r" "r < 10000" "0 \<le> net" "0 \<le> pc_fixedKurus psp"
    and up: "(net + pc_fixedKurus psp) * 10000 \<le> pp_grossKurus g * (10000 - r)"
    and low: "(pp_grossKurus g - 1) * (10000 - r) < (net + pc_fixedKurus psp) * 10000"
    and cost: "pp_pspCostKurus g = pp_grossKurus g - net"
    by (rule gross_up_bounds)
  with assms have r: "r = rate" "0 \<le> rate" "rate < 10000" "0 \<le> net" "0 \<le> pc_fixedKurus psp" by simp_all
  show "pp_pspCostKurus g = pp_grossKurus g - net" by (rule cost)
  show least: "p * 10000 - p * rate - pc_fixedKurus psp * 10000 \<ge> net * 10000 \<longleftrightarrow> pp_grossKurus g \<le> p" for p
  proof
    assume "p * 10000 - p * rate - pc_fixedKurus psp * 10000 \<ge> net * 10000"
    then have "(net + pc_fixedKurus psp) * 10000 \<le> p * (10000 - rate)" by (simp add: algebra_simps)
    with low r(1) have "(pp_grossKurus g - 1) * (10000 - rate) < p * (10000 - rate)" by simp
    with r(3) have "pp_grossKurus g - 1 < p" by (simp add: mult_less_cancel_right)
    then show "pp_grossKurus g \<le> p" by simp
  next
    assume "pp_grossKurus g \<le> p"
    then have "pp_grossKurus g * (10000 - rate) \<le> p * (10000 - rate)" using r(3) by (simp add: mult_right_mono)
    with up r(1) show "p * 10000 - p * rate - pc_fixedKurus psp * 10000 \<ge> net * 10000" by (simp add: algebra_simps)
  qed
  have "pp_grossKurus g * rate + pc_fixedKurus psp * 10000 \<le> pp_grossKurus g * 10000 - net * 10000"
    using least [of "pp_grossKurus g"] by (simp add: algebra_simps)
  moreover have "0 \<le> pp_grossKurus g"
  proof (rule ccontr)
    assume "\<not> 0 \<le> pp_grossKurus g"
    then have "pp_grossKurus g * (10000 - rate) < 0" using r(3) by (simp add: mult_neg_pos)
    with up r show False by simp
  qed
  then have "0 \<le> pp_grossKurus g * rate" using r by simp
  ultimately have "0 \<le> pp_grossKurus g * 10000 - net * 10000" using r by linarith
  with cost show "0 \<le> pp_pspCostKurus g" by simp
  assume "rate = 0" "pc_fixedKurus psp = 0"
  with up low r show "pp_grossKurus g = net" by simp
qed

lemma gross_up_is_least_covering_price_witness:
  "\<exists>g. applyPspPassthrough 100 \<lparr> pc_rateBps = Some 300, pc_fixedKurus = 25 \<rparr> = Inr g"
  using gross_up_is_least_covering_price [of "\<lparr> pc_rateBps = Some 300, pc_fixedKurus = 25 \<rparr>" 300 100] by simp

text \<open>C28. A quote never loses money and never hides the margin. Whatever the double arithmetic of the
  commission model returns, a settlement quote charges a price that, after the provider's cut, covers the
  FX-priced net; the net is the applied rate rounded down to whole units; the margin line is not negative
  and is exactly the net less the value at the oracle mid; the applied rate is not below the mid; and the
  price text reads back as the charged amount.\<close>

theorem settlement_quote_covers_cost:
  assumes "quoteUsdcWithPsp F u mid stats params psp = Inr q"
  shows "0 < u \<and> 0 < mid \<and> mid \<le> pq_appliedRateStroops q \<and> 0 \<le> pq_spreadBps q
    \<and> sq_netTryKurus q = u * pq_appliedRateStroops q div 1000000000000
    \<and> pq_spreadRevenueKurus q = sq_netTryKurus q - u * mid div 1000000000000 \<and> 0 \<le> pq_spreadRevenueKurus q
    \<and> pq_userTryKurus q = sq_netTryKurus q + sq_pspCostKurus q
    \<and> (\<exists>rate. pc_rateBps psp = Some rate
         \<and> pq_userTryKurus q * rate + pc_fixedKurus psp * 10000 \<le> sq_pspCostKurus q * 10000)
    \<and> tryToKurus (pq_paidPriceTry q) = Inr (pq_userTryKurus q)"
proof -
  from assms obtain bps pb g where price: "priceUsdc u mid bps = Inr pb"
    and g: "applyPspPassthrough (pb_userTryKurus pb) psp = Inr g"
    and q: "pq_appliedRateStroops q = pb_appliedRateTryPerUsdc pb" "pq_spreadBps q = pb_spreadBps pb"
      "pq_userTryKurus q = pp_grossKurus g" "pq_spreadRevenueKurus q = pb_spreadRevenueKurus pb"
      "sq_netTryKurus q = pb_userTryKurus pb" "sq_pspCostKurus q = pp_pspCostKurus g"
    and shown: "kurusToTryString (pp_grossKurus g) = Inr (pq_paidPriceTry q)"
    by (auto simp: quoteUsdcWithPsp_def quoteUsdc_def bindR_Inr_iff)
  note p = priceUsdc_Inr [OF price]
  have "u * mid \<le> u * pb_appliedRateTryPerUsdc pb" using p by (simp add: mult_left_mono)
  then have "u * mid div 1000000000000 \<le> pb_userTryKurus pb" unfolding p(6) by (rule zdiv_mono1) simp
  then have "0 \<le> pb_spreadRevenueKurus pb" using p by simp
  moreover have "\<exists>rate. pc_rateBps psp = Some rate \<and> pp_grossKurus g * rate + pc_fixedKurus psp * 10000 \<le> pp_pspCostKurus g * 10000"
  proof -
    from g obtain rate where r: "pc_rateBps psp = Some rate"
      and up: "(pb_userTryKurus pb + pc_fixedKurus psp) * 10000 \<le> pp_grossKurus g * (10000 - rate)"
      and c: "pp_pspCostKurus g = pp_grossKurus g - pb_userTryKurus pb" by (rule gross_up_bounds)
    from up have "pp_grossKurus g * rate + pc_fixedKurus psp * 10000 \<le> pp_pspCostKurus g * 10000"
      unfolding c by (simp add: algebra_simps)
    with r show ?thesis by blast
  qed
  moreover have "pp_pspCostKurus g = pp_grossKurus g - pb_userTryKurus pb"
    using g by (rule gross_up_bounds)
  ultimately show ?thesis using p q price_text_roundtrip [OF shown] by auto
qed

text \<open>A concrete quote: one USDC at a mid of 40 lira, a provider taking 3 percent and 25 kurus, with an
  integer stand-in for the double arithmetic.\<close>

definition int_ops :: "int float_ops" where
  "int_ops = \<lparr> fo_of_int = id, fo_add = (+), fo_sub = (-), fo_mul = (*), fo_div = (div), fo_sqrt = id, fo_log = id,
     fo_lt = (<), fo_finite = (\<lambda>_. True), fo_round = Some \<rparr>"

theorem settlement_quote_covers_cost_witness:
  "\<exists>q. quoteUsdcWithPsp int_ops 10000000 400000000 \<lparr> rs_muDaily = 0, rs_sigmaDaily = 0 \<rparr>
       \<lparr> cp_valorDays = Some 1, cp_z = 0, cp_marginBps = Some 0 \<rparr> \<lparr> pc_rateBps = Some 300, pc_fixedKurus = 25 \<rparr> = Inr q
     \<and> tryToKurus (pq_paidPriceTry q) = Inr (pq_userTryKurus q)"
proof -
  have "\<exists>q. quoteUsdcWithPsp int_ops 10000000 400000000 \<lparr> rs_muDaily = 0, rs_sigmaDaily = 0 \<rparr>
       \<lparr> cp_valorDays = Some 1, cp_z = 0, cp_marginBps = Some 0 \<rparr> \<lparr> pc_rateBps = Some 300, pc_fixedKurus = 25 \<rparr> = Inr q"
    by (simp add: quoteUsdcWithPsp_def quoteUsdc_def commissionBps_def commission_def int_ops_def priceUsdc_def
        applySpread_def applyPspPassthrough_def kurusToTryString_def KURUS_DIVISOR_val BPS_DENOM_def bigdiv_nonneg Let_def)
  then obtain q where q: "quoteUsdcWithPsp int_ops 10000000 400000000 \<lparr> rs_muDaily = 0, rs_sigmaDaily = 0 \<rparr>
       \<lparr> cp_valorDays = Some 1, cp_z = 0, cp_marginBps = Some 0 \<rparr> \<lparr> pc_rateBps = Some 300, pc_fixedKurus = 25 \<rparr> = Inr q"
    by blast
  with settlement_quote_covers_cost [OF q] show ?thesis by blast
qed

end
