(* ===== verification/Oracle.thy ===== *)
theory Oracle
  imports Pricing "HOL-Library.Multiset"
begin

text \<open>
  The exchange-rate oracle, \<^verbatim>\<open>packages/oracle/src\<close>, and the server-side pricer that binds it,
  \<^verbatim>\<open>packages/composition/src/quote.ts\<close>. The network is an argument: \<open>fetch url attempt\<close> is the parsed
  body of that attempt, \<open>None\<close> when it throws or times out. An exchange is the record \<open>cex_source\<close> with
  its two parsing functions, so the results hold for every exchange format.
\<close>

section \<open>Aggregation, index.ts\<close>

record source_quote =
  sq_source :: string
  sq_tryPerUsdc :: int
  sq_asOfMs :: int

record oracle_policy =
  op_maxAgeMs :: int
  op_deviationThresholdBps :: int
  op_minQuorum :: nat

record rate_quote =
  rq_midTryPerUsdc :: int
  rq_sources :: "string list"
  rq_asOfMs :: int

datatype oracle_error = InsufficientSources | DeviationExceeded

text \<open>\<open>OracleThrows\<close>: the \<open>TypeError\<close> of reading the first element of an empty list, which only a quorum
  of zero reaches.\<close>

datatype oracle_result = OracleOk rate_quote | OracleErr oracle_error | OracleThrows

definition medianElement :: "int list \<Rightarrow> int" where
  "medianElement sortedAsc = sortedAsc ! ((length sortedAsc - 1) div 2)"

definition allWithin :: "int list \<Rightarrow> int \<Rightarrow> int \<Rightarrow> bool" where
  "allWithin pricesAsc center thresholdBps =
     list_all (\<lambda>p. \<bar>p - center\<bar> * 10000 \<le> thresholdBps * center) pricesAsc"

definition oracle_ok :: "int \<Rightarrow> source_quote list \<Rightarrow> oracle_result" where
  "oracle_ok mid used =
     (case used of
        [] \<Rightarrow> OracleThrows
      | q0 # _ \<Rightarrow>
          OracleOk \<lparr> rq_midTryPerUsdc = mid, rq_sources = map sq_source used,
            rq_asOfMs = foldl (\<lambda>m q. if sq_asOfMs q < m then sq_asOfMs q else m) (sq_asOfMs q0) used \<rparr>)"

definition deriveTryPerUsdc :: "int \<Rightarrow> int \<Rightarrow> range_error + int" where
  "deriveTryPerUsdc tryPerUsdt usdcPerUsdt =
     (if usdcPerUsdt \<le> 0 then Inl RangeError else Inr (bigdiv (tryPerUsdt * RATE_SCALE) usdcPerUsdt))"

definition healthy :: "oracle_policy \<Rightarrow> int \<Rightarrow> source_quote \<Rightarrow> bool" where
  "healthy policy nowMs q = (sq_tryPerUsdc q > 0 \<and> \<bar>nowMs - sq_asOfMs q\<bar> \<le> op_maxAgeMs policy)"

text \<open>The loop that keeps the first quote of each source, in a map by source name.\<close>

definition keep_first :: "source_quote \<Rightarrow> (string, source_quote) jsmap \<Rightarrow> (string, source_quote) jsmap" where
  "keep_first q m = (if has_key m (sq_source q) then m else AList.update (sq_source q) q m)"

definition by_source :: "source_quote list \<Rightarrow> source_quote list" where
  "by_source qs = map snd (fold keep_first qs [])"

definition aggregate :: "source_quote list \<Rightarrow> oracle_policy \<Rightarrow> int \<Rightarrow> oracle_result" where
  "aggregate quotes policy nowMs =
     (let healthyQs = filter (healthy policy nowMs) quotes;
          distinctQs = by_source healthyQs in
      if length distinctQs < op_minQuorum policy then OracleErr InsufficientSources
      else
        let sorted = sort_key sq_tryPerUsdc distinctQs;
            prices = map sq_tryPerUsdc sorted;
            mid = medianElement prices in
        if \<not> allWithin prices mid (op_deviationThresholdBps policy) then OracleErr DeviationExceeded
        else oracle_ok mid sorted)"

section \<open>Live quotes, cex-spot.ts and net.ts\<close>

text \<open>The bounded retry: the first attempt that resolves, up to \<open>retries\<close> more after the first.\<close>

fun fetch_attempts :: "(nat \<Rightarrow> json option) \<Rightarrow> nat \<Rightarrow> nat \<Rightarrow> json option" where
  "fetch_attempts f attempt 0 = f attempt"
| "fetch_attempts f attempt (Suc left) =
     (case f attempt of Some body \<Rightarrow> Some body | None \<Rightarrow> fetch_attempts f (Suc attempt) left)"

definition fetchJsonWithRetry :: "string \<Rightarrow> (string \<Rightarrow> nat \<Rightarrow> json option) \<Rightarrow> nat \<Rightarrow> json option" where
  "fetchJsonWithRetry url fetch retries = fetch_attempts (fetch url) 0 retries"

text \<open>\<open>/^\d+(\.\d+)?$/\<close>, padded or cut to seven decimals.\<close>

definition parseDecimalToE7 :: "ustring \<Rightarrow> range_error + int" where
  "parseDecimalToE7 u =
     (case ascii_of u of
        None \<Rightarrow> Inl RangeError
      | Some s \<Rightarrow>
          let intPart = takeWhile is_digit s in
          if intPart = [] then Inl RangeError
          else case dropWhile is_digit s of
            [] \<Rightarrow> Inr (int (dec_nat intPart) * RATE_SCALE + int (dec_nat (take 7 ''0000000'')))
          | c # frac \<Rightarrow>
              if c = CHR ''.'' \<and> frac \<noteq> [] \<and> list_all is_digit frac
              then Inr (int (dec_nat intPart) * RATE_SCALE + int (dec_nat (take 7 (frac @ ''0000000''))))
              else Inl RangeError)"

record cex_source =
  cx_name :: string
  cx_tryUsdtUrl :: string
  cx_usdcUsdtUrl :: string
  cx_parsePrice :: "json \<Rightarrow> ustring option"
  cx_parseAsOfMs :: "json \<Rightarrow> int option"

record cex_leg =
  cl_priceE7 :: int
  cl_asOfMs :: "int option"

definition fetchLeg :: "string \<Rightarrow> cex_source \<Rightarrow> (string \<Rightarrow> nat \<Rightarrow> json option) \<Rightarrow> nat \<Rightarrow> cex_leg option" where
  "fetchLeg url source fetch retries =
     (case fetchJsonWithRetry url fetch retries of
        None \<Rightarrow> None
      | Some payload \<Rightarrow>
          (case cx_parsePrice source payload of
             None \<Rightarrow> None
           | Some txt \<Rightarrow>
               (case parseDecimalToE7 txt of
                  Inl _ \<Rightarrow> None
                | Inr p \<Rightarrow> Some \<lparr> cl_priceE7 = p, cl_asOfMs = cx_parseAsOfMs source payload \<rparr>)))"

definition or_else :: "'a option \<Rightarrow> 'a \<Rightarrow> 'a" where
  "or_else m d = (case m of None \<Rightarrow> d | Some x \<Rightarrow> x)"

definition fetchCexQuote ::
    "cex_source \<Rightarrow> (string \<Rightarrow> nat \<Rightarrow> json option) \<Rightarrow> int \<Rightarrow> nat \<Rightarrow> source_quote option" where
  "fetchCexQuote source fetch nowMs retries =
     (case (fetchLeg (cx_tryUsdtUrl source) source fetch retries, fetchLeg (cx_usdcUsdtUrl source) source fetch retries) of
        (Some tryLeg, Some usdcLeg) \<Rightarrow>
          Some \<lparr> sq_source = cx_name source,
            sq_tryPerUsdc = bigdiv (cl_priceE7 tryLeg * cl_priceE7 usdcLeg) RATE_SCALE,
            sq_asOfMs = min (or_else (cl_asOfMs tryLeg) nowMs) (or_else (cl_asOfMs usdcLeg) nowMs) \<rparr>
      | _ \<Rightarrow> None)"

definition getRate ::
    "cex_source list \<Rightarrow> (string \<Rightarrow> nat \<Rightarrow> json option) \<Rightarrow> oracle_policy \<Rightarrow> int \<Rightarrow> nat \<Rightarrow> oracle_result" where
  "getRate sources fetch policy nowMs retries =
     aggregate (List.map_filter (\<lambda>s. fetchCexQuote s fetch nowMs retries) sources) policy nowMs"

section \<open>The pricer with cached statistics, quote.ts\<close>

record 'f stats_cache =
  sc_stats :: "'f return_stats"
  sc_atMs :: int

datatype quote_error = QuoteOracle oracle_result | QuoteRange range_error | QuoteHistory

text \<open>\<open>history\<close> is what \<open>dailyCloses()\<close> returns at this call, \<open>None\<close> when it throws.\<close>

definition refresh_stats ::
    "'f float_ops \<Rightarrow> int \<Rightarrow> int \<Rightarrow> 'f list option \<Rightarrow> 'f stats_cache option
     \<Rightarrow> (quote_error + 'f return_stats) \<times> 'f stats_cache option" where
  "refresh_stats F maxStaleMs t history cached =
     (let attempt = (case history of None \<Rightarrow> Inl QuoteHistory
          | Some closes \<Rightarrow> (case computeReturnStats F closes of Inl e \<Rightarrow> Inl (QuoteRange e) | Inr st \<Rightarrow> Inr st)) in
      case attempt of
        Inr stats \<Rightarrow> (Inr stats, Some \<lparr> sc_stats = stats, sc_atMs = t \<rparr>)
      | Inl err \<Rightarrow>
          (case cached of
             Some c \<Rightarrow> if t - sc_atMs c < maxStaleMs then (Inr (sc_stats c), cached) else (Inl err, cached)
           | None \<Rightarrow> (Inl err, cached)))"

definition returnStats ::
    "'f float_ops \<Rightarrow> int \<Rightarrow> int \<Rightarrow> int \<Rightarrow> 'f list option \<Rightarrow> 'f stats_cache option
     \<Rightarrow> (quote_error + 'f return_stats) \<times> 'f stats_cache option" where
  "returnStats F freshMs maxStaleMs t history cached =
     (case cached of
        Some c \<Rightarrow>
          if t - sc_atMs c < freshMs then (Inr (sc_stats c), cached)
          else refresh_stats F maxStaleMs t history cached
      | None \<Rightarrow> refresh_stats F maxStaleMs t history cached)"

record 'f pricing_policy =
  ppol_commission :: "'f commission_params"
  ppol_psp :: psp_cost

text \<open>One call of the quote function: the oracle's answer, the clock and the history are what this call
  sees; the cache is threaded. \<open>ttl\<close> and \<open>maxStaleMs\<close> are the two configured ages.\<close>

definition quote_fn ::
    "'f float_ops \<Rightarrow> 'f pricing_policy \<Rightarrow> int \<Rightarrow> int \<Rightarrow> oracle_result \<Rightarrow> int \<Rightarrow> 'f list option \<Rightarrow> int
     \<Rightarrow> 'f stats_cache option \<Rightarrow> (quote_error + settlement_quote) \<times> 'f stats_cache option" where
  "quote_fn F policy ttl maxStaleMs rate t history usdcStroops cached =
     (case rate of
        OracleOk rq \<Rightarrow>
          (case returnStats F (min ttl maxStaleMs) maxStaleMs t history cached of
             (Inl e, c) \<Rightarrow> (Inl e, c)
           | (Inr stats, c) \<Rightarrow>
               (case quoteUsdcWithPsp F usdcStroops (rq_midTryPerUsdc rq) stats (ppol_commission policy) (ppol_psp policy) of
                  Inl e \<Rightarrow> (Inl (QuoteRange e), c)
                | Inr q \<Rightarrow> (Inr q, c)))
      | other \<Rightarrow> (Inl (QuoteOracle other), cached))"

section \<open>Lemmas\<close>

lemma by_source_fold:
  assumes "distinct (map fst m)" "\<forall>(k, q) \<in> set m. sq_source q = k"
  shows "distinct (map fst (fold keep_first qs m)) \<and> (\<forall>(k, q) \<in> set (fold keep_first qs m). sq_source q = k)
    \<and> snd ` set (fold keep_first qs m) \<subseteq> snd ` set m \<union> set qs
    \<and> fst ` set (fold keep_first qs m) = fst ` set m \<union> sq_source ` set qs"
  using assms
proof (induction qs arbitrary: m)
  case (Cons q qs)
  have m: "distinct (map fst (keep_first q m))" "\<forall>(k, q) \<in> set (keep_first q m). sq_source q = k"
    using Cons.prems by (auto simp: keep_first_def has_key_iff update_absent)
  have sub: "snd ` set (keep_first q m) \<subseteq> insert q (snd ` set m)"
    "fst ` set (keep_first q m) = insert (sq_source q) (fst ` set m)"
    by (auto simp: keep_first_def has_key_iff update_absent)
  note IH = Cons.IH [OF m]
  then have "snd ` set (fold keep_first qs (keep_first q m)) \<subseteq> snd ` set (keep_first q m) \<union> set qs" by blast
  from order_trans [OF this Un_mono [OF sub(1) order_refl]]
  have "snd ` set (fold keep_first qs (keep_first q m)) \<subseteq> snd ` set m \<union> set (q # qs)" by simp
  moreover have "fst ` set (fold keep_first qs (keep_first q m)) = fst ` set m \<union> sq_source ` set (q # qs)"
    using IH sub(2) by simp
  ultimately show ?case using IH by simp
qed simp

lemma by_source_facts:
  "distinct (map sq_source (by_source qs))" "set (by_source qs) \<subseteq> set qs"
  "sq_source ` set (by_source qs) = sq_source ` set qs"
proof -
  let ?r = "fold keep_first qs []"
  have f: "distinct (map fst ?r)" "\<forall>(k, q) \<in> set ?r. sq_source q = k" "snd ` set ?r \<subseteq> set qs"
    "fst ` set ?r = sq_source ` set qs"
    using by_source_fold [of "[]" qs] by auto
  have names: "map sq_source (by_source qs) = map fst ?r" using f(2) by (auto simp: by_source_def)
  with f(1) show "distinct (map sq_source (by_source qs))" by simp
  show "set (by_source qs) \<subseteq> set qs" using f(3) by (simp add: by_source_def)
  have "sq_source ` set (by_source qs) = set (map sq_source (by_source qs))" by simp
  also have "\<dots> = sq_source ` set qs" using f(4) unfolding names by simp
  finally show "sq_source ` set (by_source qs) = sq_source ` set qs" .
qed

lemma medianElement_in: "xs \<noteq> [] \<Longrightarrow> medianElement xs \<in> set xs"
proof -
  assume "xs \<noteq> []"
  then have "(length xs - 1) div 2 < length xs" by (cases xs) auto
  then show ?thesis by (simp add: medianElement_def)
qed

lemma oldest_asOf:
  "foldl (\<lambda>m q. if sq_asOfMs q < m then sq_asOfMs q else m) a qs \<le> a
   \<and> (\<forall>q \<in> set qs. foldl (\<lambda>m q. if sq_asOfMs q < m then sq_asOfMs q else m) a qs \<le> sq_asOfMs q)"
proof (induction qs arbitrary: a)
  case (Cons q qs)
  let ?a = "if sq_asOfMs q < a then sq_asOfMs q else a"
  from Cons.IH [of ?a] show ?case by (auto split: if_splits intro: order_trans)
qed simp

text \<open>What an accepted rate says, as a decomposition of \<open>aggregate\<close>.\<close>

lemma aggregate_ok:
  assumes "aggregate quotes policy nowMs = OracleOk rq"
  defines "used \<equiv> sort_key sq_tryPerUsdc (by_source (filter (healthy policy nowMs) quotes))"
  shows "used \<noteq> []" "op_minQuorum policy \<le> length used" "rq_sources rq = map sq_source used"
    "rq_midTryPerUsdc rq = medianElement (map sq_tryPerUsdc used)"
    "allWithin (map sq_tryPerUsdc used) (rq_midTryPerUsdc rq) (op_deviationThresholdBps policy)"
    "\<forall>q \<in> set used. rq_asOfMs rq \<le> sq_asOfMs q"
proof -
  let ?d = "by_source (filter (healthy policy nowMs) quotes)"
  from assms(1) have q: "op_minQuorum policy \<le> length ?d"
    and w: "allWithin (map sq_tryPerUsdc used) (medianElement (map sq_tryPerUsdc used)) (op_deviationThresholdBps policy)"
    and ok: "oracle_ok (medianElement (map sq_tryPerUsdc used)) used = OracleOk rq"
    by (auto simp: aggregate_def used_def Let_def not_less split: if_splits)
  from q show "op_minQuorum policy \<le> length used" by (simp add: used_def)
  from ok obtain q0 rest where u: "used = q0 # rest" and r: "rq_midTryPerUsdc rq = medianElement (map sq_tryPerUsdc used)"
    "rq_sources rq = map sq_source used"
    "rq_asOfMs rq = foldl (\<lambda>m q. if sq_asOfMs q < m then sq_asOfMs q else m) (sq_asOfMs q0) used"
    by (auto simp: oracle_ok_def split: list.splits)
  from u show "used \<noteq> []" by simp
  from r w show "rq_sources rq = map sq_source used" "rq_midTryPerUsdc rq = medianElement (map sq_tryPerUsdc used)"
    "allWithin (map sq_tryPerUsdc used) (rq_midTryPerUsdc rq) (op_deviationThresholdBps policy)" by simp_all
  show "\<forall>q \<in> set used. rq_asOfMs rq \<le> sq_asOfMs q" unfolding r(3) using oldest_asOf by blast
qed

lemma dec_nat_append: "dec_nat (a @ b) = dec_nat a * 10 ^ length b + dec_nat b"
proof (induction b rule: rev_induct)
  case (snoc c b)
  have "dec_nat (a @ b @ [c]) = dec_nat (a @ b) * 10 + digit_val c"
    using dec_nat_snoc [of "a @ b" c] by simp
  with snoc show ?case by (simp add: dec_nat_snoc algebra_simps)
qed (simp add: dec_nat_def)

lemma dec_nat_bound: "list_all is_digit s \<Longrightarrow> dec_nat s < 10 ^ length s"
proof (induction s rule: rev_induct)
  case (snoc c s)
  then have "(of_char c :: nat) \<le> 57" by (simp add: is_digit_def)
  then have "digit_val c \<le> 9" unfolding digit_val_def by linarith
  with snoc show ?case by (simp add: dec_nat_snoc)
qed (simp add: dec_nat_def)

lemma dec_nat_zeros: "dec_nat (replicate n CHR ''0'') = 0"
proof -
  have "foldl (\<lambda>a c. a * 10 + digit_val c) 0 (replicate n CHR ''0'') = 0"
    by (induction n) (simp_all add: digit_val_def)
  then show ?thesis by (simp add: dec_nat_def)
qed

text \<open>Padding with zeros, or cutting, to seven decimals.\<close>

lemma dec_nat_pad7:
  assumes "list_all is_digit f"
  shows "dec_nat (take 7 (f @ ''0000000'')) = dec_nat f * 10 ^ 7 div 10 ^ length f"
proof (cases "length f \<le> 7")
  case True
  have "''0000000'' = replicate 7 CHR ''0''" by (simp add: numeral_eq_Suc)
  then have "take 7 (f @ ''0000000'') = f @ replicate (7 - length f) CHR ''0''" using True by simp
  then have "dec_nat (take 7 (f @ ''0000000'')) = dec_nat f * 10 ^ (7 - length f)"
    by (simp add: dec_nat_append dec_nat_zeros)
  moreover have "(10 :: nat) ^ 7 = 10 ^ (7 - length f) * 10 ^ length f"
    unfolding power_add [symmetric] using True by simp
  then have "dec_nat f * 10 ^ 7 div 10 ^ length f = dec_nat f * 10 ^ (7 - length f)"
    by (simp only: mult.assoc [symmetric]) simp
  ultimately show ?thesis by simp
next
  case False
  have "dec_nat f = dec_nat (take 7 f) * 10 ^ (length f - 7) + dec_nat (drop 7 f)"
    using dec_nat_append [of "take 7 f" "drop 7 f"] by simp
  moreover have "dec_nat (drop 7 f) < 10 ^ (length f - 7)"
    using dec_nat_bound [of "drop 7 f"] assms by (auto simp: list_all_iff dest: in_set_dropD)
  ultimately have "dec_nat f div 10 ^ (length f - 7) = dec_nat (take 7 f)" by simp
  moreover have "(10 :: nat) ^ length f = 10 ^ (length f - 7) * 10 ^ 7"
    unfolding power_add [symmetric] using False by simp
  then have "dec_nat f * 10 ^ 7 div 10 ^ length f = dec_nat f div 10 ^ (length f - 7)"
    by (simp only: div_mult_mult2) simp
  ultimately have "dec_nat f * 10 ^ 7 div 10 ^ length f = dec_nat (take 7 f)" by simp
  with False show ?thesis by simp
qed

section \<open>Properties\<close>

text \<open>C29. An accepted rate is a real, fresh, agreed price. When \<open>aggregate\<close> returns a rate, it used quotes of
  pairwise distinct sources, at least the quorum of them, all positive and within the age band, one for
  every source that has a healthy quote; the mid is one of their prices; every used price, also the highest
  and the lowest, is within the deviation threshold of the mid; and the reported time is not later than any
  of theirs.\<close>

theorem accepted_rate_is_agreed_price:
  assumes "aggregate quotes policy nowMs = OracleOk rq"
  shows "\<exists>used. set used \<subseteq> set quotes \<and> map sq_source used = rq_sources rq \<and> distinct (rq_sources rq)
    \<and> op_minQuorum policy \<le> length used
    \<and> (\<forall>q \<in> set quotes. healthy policy nowMs q \<longrightarrow> sq_source q \<in> set (rq_sources rq))
    \<and> (\<forall>q \<in> set used. healthy policy nowMs q \<and> rq_asOfMs rq \<le> sq_asOfMs q
         \<and> \<bar>sq_tryPerUsdc q - rq_midTryPerUsdc rq\<bar> * 10000 \<le> op_deviationThresholdBps policy * rq_midTryPerUsdc rq)
    \<and> rq_midTryPerUsdc rq \<in> sq_tryPerUsdc ` set used"
proof -
  define d where "d = by_source (filter (healthy policy nowMs) quotes)"
  define used where "used = sort_key sq_tryPerUsdc d"
  note ok = aggregate_ok [OF assms, folded d_def used_def]
  note src = by_source_facts [of "filter (healthy policy nowMs) quotes", folded d_def]
  have su: "set used = set d" by (simp add: used_def)
  have "distinct (map sq_source used)"
  proof -
    have "mset (map sq_source used) = mset (map sq_source d)" by (simp add: used_def)
    with src(1) show ?thesis by (metis mset_eq_imp_distinct_iff)
  qed
  moreover have "sq_source ` set used = sq_source ` set (filter (healthy policy nowMs) quotes)"
    using src(3) by (simp add: su)
  then have "\<forall>q \<in> set quotes. healthy policy nowMs q \<longrightarrow> sq_source q \<in> set (rq_sources rq)"
    unfolding ok(3) by auto
  moreover have "\<forall>q \<in> set used. healthy policy nowMs q" using src(2) by (auto simp: su)
  moreover have "rq_midTryPerUsdc rq \<in> sq_tryPerUsdc ` set used"
    using medianElement_in [of "map sq_tryPerUsdc used"] ok(1,4) by auto
  moreover have "\<forall>q \<in> set used. \<bar>sq_tryPerUsdc q - rq_midTryPerUsdc rq\<bar> * 10000
      \<le> op_deviationThresholdBps policy * rq_midTryPerUsdc rq"
    using ok(5) by (simp add: allWithin_def list_all_iff)
  ultimately show ?thesis using ok src(2) su by (intro exI [of _ used]) auto
qed

theorem accepted_rate_is_agreed_price_witness:
  "\<exists>rq. aggregate [\<lparr> sq_source = ''a'', sq_tryPerUsdc = 100, sq_asOfMs = 5 \<rparr>, \<lparr> sq_source = ''b'', sq_tryPerUsdc = 101, sq_asOfMs = 4 \<rparr>]
       \<lparr> op_maxAgeMs = 3, op_deviationThresholdBps = 200, op_minQuorum = 2 \<rparr> 6 = OracleOk rq
     \<and> distinct (rq_sources rq)"
proof -
  let ?qs = "[\<lparr> sq_source = ''a'', sq_tryPerUsdc = 100, sq_asOfMs = 5 \<rparr>, \<lparr> sq_source = ''b'', sq_tryPerUsdc = 101, sq_asOfMs = 4 \<rparr>]"
  let ?p = "\<lparr> op_maxAgeMs = 3, op_deviationThresholdBps = 200, op_minQuorum = 2 \<rparr>"
  have "\<exists>rq. aggregate ?qs ?p 6 = OracleOk rq"
    by (simp add: aggregate_def by_source_def keep_first_def healthy_def has_key_def allWithin_def medianElement_def
        oracle_ok_def Let_def)
  then obtain rq where rq: "aggregate ?qs ?p 6 = OracleOk rq" by blast
  with accepted_rate_is_agreed_price [OF rq] show ?thesis by blast
qed

text \<open>The pricer fails closed. A quote is returned only when the oracle agreed on a rate in this very
  call, it prices exactly that rate, and the risk statistics it uses were computed in this call or at a time
  less than the hard staleness limit ago; the cache only ever holds statistics with the time they were
  computed at.\<close>

lemma quote_needs_agreed_rate_and_recent_stats:
  assumes "quote_fn F policy ttl maxStale rate t history u cached = (Inr q, cached')"
    and "\<forall>c. cached = Some c \<longrightarrow> sc_atMs c \<le> t" and "0 < maxStale"
  shows "\<exists>rq stats at. rate = OracleOk rq \<and> pq_oracleMidE7 q = rq_midTryPerUsdc rq
    \<and> quoteUsdcWithPsp F u (rq_midTryPerUsdc rq) stats (ppol_commission policy) (ppol_psp policy) = Inr q
    \<and> cached' = Some \<lparr> sc_stats = stats, sc_atMs = at \<rparr> \<and> at \<le> t \<and> t - at < maxStale
    \<and> (at = t \<and> (\<exists>cs. history = Some cs \<and> computeReturnStats F cs = Inr stats)
       \<or> cached = Some \<lparr> sc_stats = stats, sc_atMs = at \<rparr>)"
proof -
  from assms(1) obtain rq stats where rate: "rate = OracleOk rq"
    and st: "returnStats F (min ttl maxStale) maxStale t history cached = (Inr stats, cached')"
    and q: "quoteUsdcWithPsp F u (rq_midTryPerUsdc rq) stats (ppol_commission policy) (ppol_psp policy) = Inr q"
    by (auto simp: quote_fn_def split: oracle_result.splits sum.splits prod.splits)
  from q have mid: "pq_oracleMidE7 q = rq_midTryPerUsdc rq"
    by (auto simp: quoteUsdcWithPsp_def quoteUsdc_def bindR_Inr_iff)
  have "\<exists>at. cached' = Some \<lparr> sc_stats = stats, sc_atMs = at \<rparr> \<and> at \<le> t \<and> t - at < maxStale
    \<and> (at = t \<and> (\<exists>cs. history = Some cs \<and> computeReturnStats F cs = Inr stats)
       \<or> cached = Some \<lparr> sc_stats = stats, sc_atMs = at \<rparr>)"
  proof (cases cached)
    case None
    with st assms(3) show ?thesis
      by (auto simp: returnStats_def refresh_stats_def Let_def split: option.splits sum.splits)
  next
    case (Some c)
    obtain s0 t0 where "c = \<lparr> sc_stats = s0, sc_atMs = t0 \<rparr>" by (cases c)
    with Some st assms(2,3) show ?thesis
      by (auto simp: returnStats_def refresh_stats_def Let_def split: if_splits option.splits sum.splits)
  qed
  with rate q mid show ?thesis by blast
qed

lemma quote_needs_agreed_rate_and_recent_stats_witness:
  "\<exists>q c'. quote_fn int_ops \<lparr> ppol_commission = \<lparr> cp_valorDays = Some 1, cp_z = 0, cp_marginBps = Some 0 \<rparr>,
        ppol_psp = \<lparr> pc_rateBps = Some 300, pc_fixedKurus = 25 \<rparr> \<rparr> 5 10
        (OracleOk \<lparr> rq_midTryPerUsdc = 400000000, rq_sources = [], rq_asOfMs = 0 \<rparr>) 3 None 10000000
        (Some \<lparr> sc_stats = \<lparr> rs_muDaily = 0, rs_sigmaDaily = 0 \<rparr>, sc_atMs = 1 \<rparr>) = (Inr q, c')
     \<and> pq_oracleMidE7 q = 400000000"
proof -
  let ?st = "\<lparr> rs_muDaily = 0 :: int, rs_sigmaDaily = 0 \<rparr>"
  let ?cached = "Some \<lparr> sc_stats = ?st, sc_atMs = 1 \<rparr>"
  let ?pol = "\<lparr> ppol_commission = \<lparr> cp_valorDays = Some 1, cp_z = 0 :: int, cp_marginBps = Some 0 \<rparr>,
        ppol_psp = \<lparr> pc_rateBps = Some 300, pc_fixedKurus = 25 \<rparr> \<rparr>"
  let ?rate = "OracleOk \<lparr> rq_midTryPerUsdc = 400000000, rq_sources = [], rq_asOfMs = 0 \<rparr>"
  have "\<exists>q. quoteUsdcWithPsp int_ops 10000000 400000000 ?st (ppol_commission ?pol) (ppol_psp ?pol) = Inr q"
    by (simp add: quoteUsdcWithPsp_def quoteUsdc_def commissionBps_def commission_def int_ops_def priceUsdc_def
        applySpread_def applyPspPassthrough_def kurusToTryString_def KURUS_DIVISOR_val BPS_DENOM_def bigdiv_nonneg Let_def)
  then obtain q where "quote_fn int_ops ?pol 5 10 ?rate 3 None 10000000 ?cached = (Inr q, ?cached)"
    by (auto simp: quote_fn_def returnStats_def)
  with quote_needs_agreed_rate_and_recent_stats [OF this] show ?thesis by auto
qed

text \<open>A price string is read exactly, cut to seven decimals. For digits before and after the point,
  \<open>parseDecimalToE7\<close> returns the decimal number times ten million, rounded down.\<close>

theorem parse_decimal_truncates:
  assumes "i \<noteq> []" "list_all is_digit i" "f \<noteq> []" "list_all is_digit f"
  shows "parseDecimalToE7 (lit (i @ ''.'' @ f)) = Inr (int (dec_nat (i @ f) * 10 ^ 7 div 10 ^ length f))"
proof -
  have asc: "ascii_of (lit (i @ ''.'' @ f)) = Some (i @ ''.'' @ f)"
    using assms by (intro ascii_of_lit) (auto simp: list_all_iff is_digit_def)
  have nd: "\<not> is_digit CHR ''.''" by (simp add: is_digit_def)
  have "takeWhile is_digit (i @ CHR ''.'' # f) = i" "dropWhile is_digit (i @ CHR ''.'' # f) = CHR ''.'' # f"
    using assms(2) nd by (simp_all add: takeWhile_append2 dropWhile_append2 list_all_iff)
  then have "parseDecimalToE7 (lit (i @ ''.'' @ f))
      = Inr (int (dec_nat i * 10 ^ 7 + dec_nat (take 7 (f @ ''0000000''))))"
    using assms asc by (simp add: parseDecimalToE7_def RATE_SCALE_def Let_def)
  moreover have "dec_nat (i @ f) * 10 ^ 7 div 10 ^ length f = dec_nat i * 10 ^ 7 + dec_nat f * 10 ^ 7 div 10 ^ length f"
  proof -
    have "dec_nat (i @ f) * 10 ^ 7 = dec_nat i * 10 ^ 7 * 10 ^ length f + dec_nat f * 10 ^ 7"
      by (simp add: dec_nat_append algebra_simps)
    then show ?thesis by simp
  qed
  ultimately show ?thesis using dec_nat_pad7 [OF assms(4)] by simp
qed

theorem parse_decimal_truncates_witness:
  "parseDecimalToE7 (lit (''40'' @ ''.'' @ ''5'')) = Inr (int (dec_nat (''40'' @ ''5'') * 10 ^ 7 div 10 ^ length ''5''))"
  by (rule parse_decimal_truncates) (simp_all add: is_digit_def)

end
