(* ===== verification/Reservation.thy ===== *)
theory Reservation
  imports Troia_Prelude
begin

text \<open>
  The solvency ledger of \<^verbatim>\<open>packages/backend/src/store/reservation-ledger.ts\<close> and the reservation path of
  \<^verbatim>\<open>in-memory-store.ts\<close> that runs on it under the pool mutex of \<^verbatim>\<open>mutex.ts\<close>.

  The three critical sections are first written as whole operations (\<open>reserve\<close>, \<open>releaseReservation\<close>,
  \<open>creditPool\<close>) and then as the small steps the event loop takes: a call queues up behind the mutex, a
  section begins, \<open>reserve\<close> awaits between its check and its commit, and other calls arrive meanwhile. The
  locale \<open>solvent\<close> states what a pool promises; the small-step system implements the whole operations.
\<close>

section \<open>The ledger, reservation-ledger.ts\<close>

record reservation =
  rv_reservationId :: ustring
  rv_amountStroops :: int
  rv_reservedAtMs :: int
  rv_expiresAtMs :: int

record reservation_ledger =
  rl_balanceStroops :: int
  rl_reservations :: "(ustring, reservation) jsmap"

datatype reserve_outcome = ReserveOk ustring | Insufficient int int | ReserveUnknown

datatype reservation_error = CreditNotPositive

definition newReservationLedger :: "int \<Rightarrow> reservation_ledger" where
  "newReservationLedger balance = \<lparr> rl_balanceStroops = balance, rl_reservations = [] \<rparr>"

definition credit :: "int \<Rightarrow> reservation_ledger \<Rightarrow> (reservation_error + unit) \<times> reservation_ledger" where
  "credit stroops l =
     (if stroops \<le> 0 then (Inl CreditNotPositive, l)
      else (Inr (), l\<lparr> rl_balanceStroops := rl_balanceStroops l + stroops \<rparr>))"

definition sumReserved :: "reservation_ledger \<Rightarrow> int" where
  "sumReserved l = fold (\<lambda>(_, r) sum. sum + rv_amountStroops r) (rl_reservations l) 0"

definition available :: "reservation_ledger \<Rightarrow> int" where
  "available l = rl_balanceStroops l - sumReserved l"

definition reservationFor :: "reservation_ledger \<Rightarrow> ustring \<Rightarrow> reservation option" where
  "reservationFor l orderId = map_of (rl_reservations l) orderId"

definition commit ::
    "ustring \<Rightarrow> int \<Rightarrow> int \<Rightarrow> int \<Rightarrow> reservation_ledger \<Rightarrow> reserve_outcome \<times> reservation_ledger" where
  "commit orderId amountStroops nowMs ttlMs l =
     (let reservationId = lit ''res-'' @ orderId in
      (ReserveOk reservationId,
       l\<lparr> rl_reservations := AList.update orderId
             \<lparr> rv_reservationId = reservationId, rv_amountStroops = amountStroops, rv_reservedAtMs = nowMs,
               rv_expiresAtMs = nowMs + ttlMs \<rparr> (rl_reservations l) \<rparr>))"

definition release_reservation :: "ustring \<Rightarrow> reservation_ledger \<Rightarrow> reservation_ledger" where
  "release_reservation orderId l = l\<lparr> rl_reservations := AList.delete orderId (rl_reservations l) \<rparr>"

section \<open>The critical sections, in-memory-store.ts\<close>

text \<open>What \<open>reserve\<close> does before it awaits: it returns at once when the order already holds a reservation, and
  otherwise carries the available amount it read over the await.\<close>

datatype reserve_check = CheckDone reserve_outcome | CheckPassed int

definition reserve_begin :: "ustring \<Rightarrow> int \<Rightarrow> reservation_ledger \<Rightarrow> reserve_check" where
  "reserve_begin orderId amountStroops l =
     (case reservationFor l orderId of
        Some existing \<Rightarrow>
          if rv_amountStroops existing \<noteq> amountStroops
          then CheckDone (Insufficient (available l) amountStroops)
          else CheckDone (ReserveOk (rv_reservationId existing))
      | None \<Rightarrow> CheckPassed (available l))"

text \<open>What it does after the await, with the amount it read before.\<close>

definition reserve_end ::
    "ustring \<Rightarrow> int \<Rightarrow> int \<Rightarrow> int \<Rightarrow> int \<Rightarrow> reservation_ledger \<Rightarrow> reserve_outcome \<times> reservation_ledger" where
  "reserve_end orderId amountStroops ttlMs nowMs avail l =
     (if avail < amountStroops then (Insufficient avail amountStroops, l)
      else commit orderId amountStroops nowMs ttlMs l)"

text \<open>The whole section, as a caller sees it when nothing runs in between.\<close>

definition reserve ::
    "ustring \<Rightarrow> int \<Rightarrow> int \<Rightarrow> int \<Rightarrow> reservation_ledger \<Rightarrow> reserve_outcome \<times> reservation_ledger" where
  "reserve orderId amountStroops ttlMs nowMs l =
     (case reserve_begin orderId amountStroops l of
        CheckDone r \<Rightarrow> (r, l)
      | CheckPassed avail \<Rightarrow> reserve_end orderId amountStroops ttlMs nowMs avail l)"

text \<open>The calls that queue at the pool mutex, and what each does when it runs alone.\<close>

datatype pool_call = CallReserve ustring int int int | CallRelease ustring | CallCredit int

datatype pool_reply = ReplyReserve reserve_outcome | ReplyRelease | ReplyCredit "reservation_error + unit"

fun run_call :: "pool_call \<Rightarrow> reservation_ledger \<Rightarrow> pool_reply \<times> reservation_ledger" where
  "run_call (CallReserve orderId amount ttl now) l = apfst ReplyReserve (reserve orderId amount ttl now l)"
| "run_call (CallRelease orderId) l = (ReplyRelease, release_reservation orderId l)"
| "run_call (CallCredit stroops) l = apfst ReplyCredit (credit stroops l)"

text \<open>A whole sequence of calls, oldest first.\<close>

fun run_calls :: "pool_call list \<Rightarrow> reservation_ledger \<Rightarrow> (pool_call \<times> pool_reply) list \<times> reservation_ledger" where
  "run_calls [] l = ([], l)"
| "run_calls (c # cs) l =
     (let (r, l) = run_call c l; (rs, l) = run_calls cs l in ((c, r) # rs, l))"

section \<open>The event loop around the mutex, mutex.ts\<close>

text \<open>\<open>tail\<close> is the queue of calls behind the running one; a call whose section awaits is running. A reply is
  delivered when its section ends, thrown errors included: the next call runs either way.\<close>

record pool_loop =
  lp_ledger :: reservation_ledger
  lp_running :: "(pool_call \<times> int) option"
  lp_tail :: "pool_call list"
  lp_replies :: "(pool_call \<times> pool_reply) list"

definition newLoop :: "int \<Rightarrow> pool_loop" where
  "newLoop balance = \<lparr> lp_ledger = newReservationLedger balance, lp_running = None, lp_tail = [], lp_replies = [] \<rparr>"

definition deliver :: "pool_call \<Rightarrow> pool_reply \<times> reservation_ledger \<Rightarrow> pool_loop \<Rightarrow> pool_loop" where
  "deliver c rl s = s\<lparr> lp_ledger := snd rl, lp_running := None, lp_replies := lp_replies s @ [(c, fst rl)] \<rparr>"

inductive loop_step :: "pool_loop \<Rightarrow> pool_loop \<Rightarrow> bool" where
  arrive: "loop_step s (s\<lparr> lp_tail := lp_tail s @ [c] \<rparr>)"
| begin_wait: "lp_running s = None \<Longrightarrow> lp_tail s = CallReserve orderId amount ttl now # q \<Longrightarrow>
     reserve_begin orderId amount (lp_ledger s) = CheckPassed avail \<Longrightarrow>
     loop_step s (s\<lparr> lp_running := Some (CallReserve orderId amount ttl now, avail), lp_tail := q \<rparr>)"
| begin_done: "lp_running s = None \<Longrightarrow> lp_tail s = CallReserve orderId amount ttl now # q \<Longrightarrow>
     reserve_begin orderId amount (lp_ledger s) = CheckDone r \<Longrightarrow>
     loop_step s (deliver (CallReserve orderId amount ttl now) (ReplyReserve r, lp_ledger s) (s\<lparr> lp_tail := q \<rparr>))"
| resume: "lp_running s = Some (CallReserve orderId amount ttl now, avail) \<Longrightarrow>
     loop_step s (deliver (CallReserve orderId amount ttl now)
        (apfst ReplyReserve (reserve_end orderId amount ttl now avail (lp_ledger s))) s)"
| run_release: "lp_running s = None \<Longrightarrow> lp_tail s = CallRelease orderId # q \<Longrightarrow>
     loop_step s (deliver (CallRelease orderId) (run_call (CallRelease orderId) (lp_ledger s)) (s\<lparr> lp_tail := q \<rparr>))"
| run_credit: "lp_running s = None \<Longrightarrow> lp_tail s = CallCredit stroops # q \<Longrightarrow>
     loop_step s (deliver (CallCredit stroops) (run_call (CallCredit stroops) (lp_ledger s)) (s\<lparr> lp_tail := q \<rparr>))"

inductive loop_run :: "int \<Rightarrow> pool_loop \<Rightarrow> bool" for balance where
  loop_start: "loop_run balance (newLoop balance)"
| loop_next: "loop_run balance s \<Longrightarrow> loop_step s s' \<Longrightarrow> loop_run balance s'"

inductive_cases loop_stepE: "loop_step s s'"

section \<open>The interface of a pool\<close>

text \<open>A pool serves calls one at a time. Its calls may carry a condition (amounts are not negative); it promises
  that under it nothing ever commits more than the base.\<close>

locale solvent =
  fixes serve :: "'c \<Rightarrow> 's \<Rightarrow> 'r \<times> 's" and headroom :: "'s \<Rightarrow> int" and good :: "'s \<Rightarrow> bool" and fair :: "'c \<Rightarrow> bool"
  assumes good_serve: "good s \<Longrightarrow> fair c \<Longrightarrow> good (snd (serve c s))"
    and good_headroom: "good s \<Longrightarrow> 0 \<le> headroom s"
begin

lemma solvent_fold: "good s \<Longrightarrow> list_all fair cs \<Longrightarrow> good (fold (\<lambda>c s. snd (serve c s)) cs s)"
  by (induction cs arbitrary: s) (simp_all add: good_serve)

lemma headroom_fold: "good s \<Longrightarrow> list_all fair cs \<Longrightarrow> 0 \<le> headroom (fold (\<lambda>c s. snd (serve c s)) cs s)"
  by (rule good_headroom) (rule solvent_fold)

end

definition fair_call :: "pool_call \<Rightarrow> bool" where
  "fair_call c = (case c of CallReserve orderId amount ttl now \<Rightarrow> 0 \<le> amount | _ \<Rightarrow> True)"

text \<open>Every order holds at most one reservation, none is negative, and their sum is covered by the base.\<close>

definition ledger_good :: "reservation_ledger \<Rightarrow> bool" where
  "ledger_good l \<longleftrightarrow>
     distinct (map fst (rl_reservations l)) \<and> list_all (\<lambda>p. 0 \<le> rv_amountStroops (snd p)) (rl_reservations l)
     \<and> 0 \<le> available l"

section \<open>The whole operations\<close>

lemma sumReserved_sum_list: "sumReserved l = sum_list (map (\<lambda>p. rv_amountStroops (snd p)) (rl_reservations l))"
proof -
  have "fold (\<lambda>(_, r) sum. sum + rv_amountStroops r) xs a = a + sum_list (map (\<lambda>p. rv_amountStroops (snd p)) xs)"
    for xs :: "(ustring, reservation) jsmap" and a
    by (induction xs arbitrary: a) auto
  then show ?thesis by (simp add: sumReserved_def)
qed

lemma available_commit:
  assumes "reservationFor l orderId = None"
  shows "available (snd (commit orderId amount now ttl l)) = available l - amount"
  using assms
  by (simp add: available_def sumReserved_sum_list commit_def Let_def reservationFor_def sum_list_update_absent)

lemma commit_good:
  assumes "ledger_good l" "reservationFor l orderId = None" "0 \<le> amount" "amount \<le> available l"
  shows "ledger_good (snd (commit orderId amount now ttl l))"
proof -
  have "orderId \<notin> fst ` set (rl_reservations l)"
    using assms(2) by (simp add: reservationFor_def map_of_eq_None_iff)
  with assms available_commit [OF assms(2), of amount now ttl] show ?thesis
    by (simp add: ledger_good_def commit_def Let_def update_absent)
qed

lemma reserve_good: "ledger_good l \<Longrightarrow> 0 \<le> amount \<Longrightarrow> ledger_good (snd (reserve orderId amount ttl now l))"
  by (auto simp: reserve_def reserve_begin_def reserve_end_def commit_good split: option.splits)

lemma release_good:
  assumes "ledger_good l"
  shows "ledger_good (release_reservation orderId l)"
proof (cases "map_of (rl_reservations l) orderId")
  case None
  with assms show ?thesis by (simp add: release_reservation_def delete_absent)
next
  case (Some r)
  from assms have d: "distinct (map fst (rl_reservations l))"
    and nn: "list_all (\<lambda>p. 0 \<le> rv_amountStroops (snd p)) (rl_reservations l)" and av: "0 \<le> available l"
    by (simp_all add: ledger_good_def)
  from Some nn have "0 \<le> rv_amountStroops r" by (auto dest!: map_of_SomeD simp: list_all_iff)
  moreover have "list_all (\<lambda>p. 0 \<le> rv_amountStroops (snd p)) (AList.delete orderId (rl_reservations l))"
    using nn by (auto simp: list_all_iff AList.delete_eq)
  moreover have "distinct (map fst (AList.delete orderId (rl_reservations l)))" using d by (rule distinct_delete)
  ultimately show ?thesis
    using av sum_list_delete [OF d Some, of "\<lambda>p. rv_amountStroops (snd p)"]
    by (simp add: ledger_good_def release_reservation_def available_def sumReserved_sum_list)
qed

lemma credit_good: "ledger_good l \<Longrightarrow> ledger_good (snd (credit stroops l))"
  by (auto simp: ledger_good_def credit_def available_def sumReserved_sum_list)

lemma run_call_good: "ledger_good l \<Longrightarrow> fair_call c \<Longrightarrow> ledger_good (snd (run_call c l))"
  by (cases c) (simp_all add: fair_call_def reserve_good release_good credit_good)

interpretation reservations: solvent run_call available ledger_good fair_call
  by unfold_locales (rule run_call_good, assumption+, simp add: ledger_good_def)

lemma newReservationLedger_good: "0 \<le> balance \<Longrightarrow> ledger_good (newReservationLedger balance)"
  by (simp add: ledger_good_def newReservationLedger_def available_def sumReserved_def)

section \<open>The event loop implements the whole operations\<close>

lemma run_calls_append:
  "run_calls (cs @ ds) l =
     (let (rs, l) = run_calls cs l; (rs', l) = run_calls ds l in (rs @ rs', l))"
  by (induction cs arbitrary: l) (simp_all add: Let_def split_beta)

lemma run_calls_ledger: "snd (run_calls cs l) = fold (\<lambda>c s. snd (run_call c s)) cs l"
  by (induction cs arbitrary: l) (simp_all add: Let_def split_beta)

text \<open>The replies so far are those of the served calls run one after the other, and a call that awaits has read
  the present headroom and still holds no reservation.\<close>

definition loop_inv :: "int \<Rightarrow> pool_loop \<Rightarrow> bool" where
  "loop_inv balance s \<longleftrightarrow>
     run_calls (map fst (lp_replies s)) (newReservationLedger balance) = (lp_replies s, lp_ledger s)
     \<and> (case lp_running s of
          None \<Rightarrow> True
        | Some (c, avail) \<Rightarrow>
            (case c of CallReserve orderId amount ttl now \<Rightarrow>
               reserve_begin orderId amount (lp_ledger s) = CheckPassed avail
             | _ \<Rightarrow> False))"

lemma loop_inv_deliver:
  assumes "run_calls (map fst (lp_replies s)) (newReservationLedger b) = (lp_replies s, lp_ledger s)"
    and "rl = run_call c (lp_ledger s)"
  shows "loop_inv b (deliver c rl s)"
  using assms by (simp add: loop_inv_def deliver_def run_calls_append Let_def split_beta)

lemma loop_inv_step:
  assumes "loop_inv b s" and "loop_step s s'"
  shows "loop_inv b s'"
proof -
  have runs: "run_calls (map fst (lp_replies s)) (newReservationLedger b) = (lp_replies s, lp_ledger s)"
    using assms(1) by (simp add: loop_inv_def)
  have deliv: "loop_inv b (deliver c (run_call c (lp_ledger s)) (s\<lparr> lp_tail := q \<rparr>))" for c q
    by (rule loop_inv_deliver) (simp_all add: runs)
  show ?thesis
    using assms(2)
  proof (cases rule: loop_step.cases)
    case (arrive c)
    with assms(1) show ?thesis
      by (cases "lp_running s") (auto simp: loop_inv_def split: pool_call.splits)
  next
    case (begin_wait orderId amount ttl now q avail)
    with runs show ?thesis by (simp add: loop_inv_def)
  next
    case (begin_done orderId amount ttl now q r)
    with deliv [of "CallReserve orderId amount ttl now" q] show ?thesis by (simp add: reserve_def)
  next
    case (resume orderId amount ttl now avail)
    then have "reserve_begin orderId amount (lp_ledger s) = CheckPassed avail"
      using assms(1) by (simp add: loop_inv_def)
    with resume runs show ?thesis by (simp add: reserve_def loop_inv_deliver)
  next
    case (run_release orderId q)
    with deliv [of "CallRelease orderId" q] show ?thesis by simp
  next
    case (run_credit stroops q)
    with deliv [of "CallCredit stroops" q] show ?thesis by simp
  qed
qed

lemma loop_run_inv: "loop_run b s \<Longrightarrow> loop_inv b s"
proof (induction rule: loop_run.induct)
  case loop_start
  then show ?case by (simp add: loop_inv_def newLoop_def)
next
  case (loop_next s s')
  then show ?case using loop_inv_step by blast
qed

text \<open>Calls that wait are served: without further arrivals the loop serves the running call and then the queue in
  order.\<close>

definition unserved :: "pool_loop \<Rightarrow> pool_call list" where
  "unserved s = (case lp_running s of None \<Rightarrow> [] | Some (c, _) \<Rightarrow> [c]) @ lp_tail s"

lemma unserved_Nil: "unserved s = [] \<longleftrightarrow> lp_running s = None \<and> lp_tail s = []"
  by (auto simp: unserved_def split: option.splits prod.splits)

lemma one_step:
  "loop_step s (deliver c rl t) \<Longrightarrow> lp_replies t = lp_replies s \<Longrightarrow> lp_tail t = cs \<Longrightarrow>
   \<exists>s'. loop_step\<^sup>*\<^sup>* s s' \<and> map fst (lp_replies s') = map fst (lp_replies s) @ [c] \<and> unserved s' = cs"
  by (rule exI [of _ "deliver c rl t"]) (auto simp: deliver_def unserved_def)

lemma loop_progress:
  assumes inv: "loop_inv b s" and c: "unserved s = c # cs"
  shows "\<exists>s'. loop_step\<^sup>*\<^sup>* s s' \<and> map fst (lp_replies s') = map fst (lp_replies s) @ [c] \<and> unserved s' = cs"
proof -
  have finish: "\<exists>s'. loop_step s s' \<and> map fst (lp_replies s') = map fst (lp_replies s) @ [c] \<and> unserved s' = lp_tail s"
    if r: "lp_running s = Some (c, avail)" and i: "loop_inv b s" for s avail
  proof -
    from i r obtain orderId amount ttl now where "c = CallReserve orderId amount ttl now"
      by (auto simp: loop_inv_def split: pool_call.splits)
    with r loop_step.resume [of s orderId amount ttl now avail] show ?thesis
      by (intro exI conjI) (auto simp: deliver_def unserved_def)
  qed
  show ?thesis
  proof (cases "lp_running s")
    case (Some r)
    with c obtain avail where "lp_running s = Some (c, avail)" "lp_tail s = cs"
      by (cases r) (auto simp: unserved_def)
    with finish [OF _ inv] show ?thesis by blast
  next
    case None
    with c have t: "lp_tail s = c # cs" by (simp add: unserved_def)
    show ?thesis
    proof (cases c)
      case (CallReserve orderId amount ttl now)
      show ?thesis
      proof (cases "reserve_begin orderId amount (lp_ledger s)")
        case (CheckDone r)
        from one_step [OF loop_step.begin_done [OF None t [unfolded CallReserve] CheckDone]] show ?thesis
          by (simp add: CallReserve)
      next
        case (CheckPassed avail)
        let ?s = "s\<lparr> lp_running := Some (c, avail), lp_tail := cs \<rparr>"
        have step: "loop_step s ?s"
          using loop_step.begin_wait [OF None t [unfolded CallReserve] CheckPassed] CallReserve by simp
        have "lp_running ?s = Some (c, avail)" by simp
        then obtain s' where "loop_step ?s s'" "map fst (lp_replies s') = map fst (lp_replies ?s) @ [c]"
          "unserved s' = lp_tail ?s" using finish loop_inv_step [OF inv step] by blast
        with step show ?thesis by (intro exI [of _ s']) auto
      qed
    next
      case (CallRelease orderId)
      from one_step [OF loop_step.run_release [OF None t [unfolded CallRelease]]] show ?thesis
        by (simp add: CallRelease)
    next
      case (CallCredit stroops)
      from one_step [OF loop_step.run_credit [OF None t [unfolded CallCredit]]] show ?thesis
        by (simp add: CallCredit)
    qed
  qed
qed

lemma loop_inv_steps: "loop_step\<^sup>*\<^sup>* s s' \<Longrightarrow> loop_inv b s \<Longrightarrow> loop_inv b s'"
  by (induction rule: rtranclp_induct) (auto intro: loop_inv_step)

lemma loop_drains:
  assumes "loop_inv b s"
  shows "\<exists>s'. loop_step\<^sup>*\<^sup>* s s' \<and> map fst (lp_replies s') = map fst (lp_replies s) @ unserved s \<and> unserved s' = []"
  using assms
proof (induction "unserved s" arbitrary: s)
  case Nil
  then show ?case by (metis append_Nil2 rtranclp.rtrancl_refl)
next
  case (Cons c cs)
  from loop_progress [OF Cons.prems Cons.hyps(2) [symmetric]]
  obtain s1 where s1: "loop_step\<^sup>*\<^sup>* s s1" "map fst (lp_replies s1) = map fst (lp_replies s) @ [c]" "unserved s1 = cs"
    by blast
  with Cons.hyps(1) [of s1] loop_inv_steps [OF s1(1) Cons.prems]
  obtain s' where "loop_step\<^sup>*\<^sup>* s1 s'" "map fst (lp_replies s') = map fst (lp_replies s1) @ unserved s1" "unserved s' = []"
    by blast
  with s1 Cons.hyps(2) [symmetric] show ?case by (intro exI [of _ s']) auto
qed

text \<open>The mutex is needed: two reservations that both check before either commits take the pool below zero.\<close>

lemma check_then_check_overcommits:
  defines "l \<equiv> newReservationLedger 10"
  shows "reserve_begin (lit ''a'') 6 l = CheckPassed 10 \<and> reserve_begin (lit ''b'') 6 l = CheckPassed 10
    \<and> available (snd (reserve_end (lit ''b'') 6 0 0 10 (snd (reserve_end (lit ''a'') 6 0 0 10 l)))) = - 2"
  by (simp add: l_def newReservationLedger_def reserve_begin_def reservationFor_def available_def sumReserved_def
      reserve_end_def commit_def Let_def)

section \<open>Properties\<close>

text \<open>C10. The pool is never over-committed, however calls interleave. In every state the event loop can reach from a
  non-negative base, if no served reservation asked for a negative amount, then the reservations are one per
  order and covered by the base; the replies given so far are exactly those of the served calls run one after the
  other in their order of arrival; and every call still waiting can be served, in order, without further arrivals.\<close>

theorem pool_never_overcommitted:
  assumes "loop_run balance s" and "0 \<le> balance" and "list_all fair_call (map fst (lp_replies s))"
  shows "ledger_good (lp_ledger s) \<and> 0 \<le> available (lp_ledger s)
    \<and> run_calls (map fst (lp_replies s)) (newReservationLedger balance) = (lp_replies s, lp_ledger s)
    \<and> (\<exists>s'. loop_step\<^sup>*\<^sup>* s s' \<and> unserved s' = [] \<and> map fst (lp_replies s') = map fst (lp_replies s) @ unserved s)"
proof -
  have inv: "loop_inv balance s" using assms(1) by (rule loop_run_inv)
  then have runs: "run_calls (map fst (lp_replies s)) (newReservationLedger balance) = (lp_replies s, lp_ledger s)"
    by (simp add: loop_inv_def)
  then have "lp_ledger s = fold (\<lambda>c s. snd (run_call c s)) (map fst (lp_replies s)) (newReservationLedger balance)"
    using run_calls_ledger [of "map fst (lp_replies s)" "newReservationLedger balance"] by simp
  then have "ledger_good (lp_ledger s)"
    using reservations.solvent_fold [OF newReservationLedger_good [OF assms(2)] assms(3)] by simp
  then show ?thesis using runs loop_drains [OF inv] reservations.good_headroom by blast
qed

definition two_calls :: pool_loop where
  "two_calls = (newLoop 10)\<lparr> lp_running := Some (CallReserve (lit ''a'') 6 0 0, 10),
     lp_tail := [CallReserve (lit ''b'') 6 0 0] \<rparr>"

lemma two_calls_run: "loop_run 10 two_calls"
proof -
  let ?a = "CallReserve (lit ''a'') 6 0 0" and ?b = "CallReserve (lit ''b'') 6 0 0"
  have 1: "loop_run 10 ((newLoop 10)\<lparr> lp_tail := [?a] \<rparr>)"
    using loop_next [OF loop_start loop_step.arrive [of "newLoop 10" ?a]] by (simp add: newLoop_def)
  have 2: "loop_run 10 ((newLoop 10)\<lparr> lp_running := Some (?a, 10), lp_tail := [] \<rparr>)"
    using loop_next [OF 1 loop_step.begin_wait [of _ "lit ''a''" 6 0 0 "[]" 10]]
    by (simp add: newLoop_def reserve_begin_def reservationFor_def newReservationLedger_def available_def sumReserved_def)
  show ?thesis
    using loop_next [OF 2 loop_step.arrive [of _ ?b]] by (simp add: two_calls_def newLoop_def)
qed

theorem pool_never_overcommitted_witness:
  "\<exists>s'. loop_step\<^sup>*\<^sup>* two_calls s' \<and> unserved s' = []
     \<and> map fst (lp_replies s') = [CallReserve (lit ''a'') 6 0 0, CallReserve (lit ''b'') 6 0 0]"
proof -
  have "list_all fair_call (map fst (lp_replies two_calls))" by (simp add: two_calls_def newLoop_def)
  moreover have "map fst (lp_replies two_calls) @ unserved two_calls = [CallReserve (lit ''a'') 6 0 0, CallReserve (lit ''b'') 6 0 0]"
    by (simp add: two_calls_def newLoop_def unserved_def)
  ultimately show ?thesis using pool_never_overcommitted [OF two_calls_run] by auto
qed

end
