(* ===== verification/Ledger.thy ===== *)
theory Ledger
  imports Troia_Prelude
begin

text \<open>
  The double-entry ledger, \<^verbatim>\<open>packages/ledger/src/index.ts\<close>. A \<open>Ledger\<close> is the record \<open>ledger\<close>: its
  entries, its set of refs, and \<open>lg_journal\<close>, the records its sink has accepted, oldest first. The sink
  is outside the package: each posting takes its outcome (accepted or thrown) as an argument. Records
  are JSON values; printing and parsing JSON text is in the language. The locale \<open>codec\<close> states the
  interface between a journal and its record format, and is interpreted on the journal codec here.
\<close>

section \<open>Record formats\<close>

locale codec =
  fixes encode :: "'a \<Rightarrow> 'r" and decode :: "'r \<Rightarrow> 'e + 'a" and storable :: "'a \<Rightarrow> bool"
  assumes decode_encode: "storable x \<Longrightarrow> decode (encode x) = Inr x"
begin

lemma encode_inj: "storable x \<Longrightarrow> storable y \<Longrightarrow> encode x = encode y \<Longrightarrow> x = y"
  by (metis decode_encode sum.inject(2))

text \<open>Reading a whole journal back.\<close>

lemma replay_all: "list_all storable xs \<Longrightarrow> map decode (map encode xs) = map Inr xs"
  by (induction xs) (auto simp: decode_encode)

end

text \<open>Decoding record by record, the first failure is fatal.\<close>

fun decode_all :: "('r \<Rightarrow> 'e + 'a) \<Rightarrow> 'r list \<Rightarrow> 'e + 'a list" where
  "decode_all dec [] = Inr []"
| "decode_all dec (r # rs) = bindR (dec r) (\<lambda>x. bindR (decode_all dec rs) (\<lambda>xs. Inr (x # xs)))"

lemma decode_all_map: "map dec rs = map Inr xs \<Longrightarrow> decode_all dec rs = Inr xs"
  by (induction rs arbitrary: xs) (auto simp: Cons_eq_map_conv)

section \<open>Data\<close>

definition STROOP :: int where "STROOP = 10000000"
definition KURUS_PER_TRY :: int where "KURUS_PER_TRY = 100"

text \<open>The five accounts. \<open>OtherName\<close> is a name that \<open>account in ACCOUNT_CURRENCY\<close> accepts because every
  object inherits it (\<open>toString\<close> and the like); only a decoded record can carry it.\<close>

datatype account = FIAT_CASH | USDC_POOL | SPREAD_REVENUE | PSP_FEE | EXTERNAL_FUNDING | OtherName string
datatype currency = TRY | USDC
datatype entry_kind = SETTLEMENT | TOPUP

fun ACCOUNT_CURRENCY :: "account \<Rightarrow> currency option" where
  "ACCOUNT_CURRENCY FIAT_CASH = Some TRY"
| "ACCOUNT_CURRENCY USDC_POOL = Some USDC"
| "ACCOUNT_CURRENCY SPREAD_REVENUE = Some TRY"
| "ACCOUNT_CURRENCY PSP_FEE = Some TRY"
| "ACCOUNT_CURRENCY EXTERNAL_FUNDING = Some TRY"
| "ACCOUNT_CURRENCY (OtherName _) = None"

record leg =
  leg_account :: account
  leg_native :: int
  leg_kurus :: int

record journal_entry =
  je_seq :: nat
  je_ref :: ustring
  je_kind :: entry_kind
  je_debits :: "leg list"
  je_credits :: "leg list"

record settlement_input =
  si_orderId :: ustring
  si_usdcStroops :: int
  si_userTryKurus :: int
  si_spreadKurus :: int
  si_feeKurus :: "int option"

record topup_input =
  ti_ref :: ustring
  ti_usdcStroops :: int
  ti_valueKurus :: int

record drift_report =
  dr_expectedPoolStroops :: int
  dr_observedPoolStroops :: int
  dr_driftStroops :: int
  dr_inSync :: bool

datatype ledger_error =
    EmptyEntry | NonPositiveAmount | ValuationMismatch | Unbalanced | DuplicateRef
  | InvalidSettlement | CorruptJournal | SinkFailed

definition sumKurus :: "leg list \<Rightarrow> int" where
  "sumKurus legs = foldl (\<lambda>s l. s + leg_kurus l) 0 legs"

definition sumNative :: "leg list \<Rightarrow> int" where
  "sumNative legs = foldl (\<lambda>s l. s + leg_native l) 0 legs"

record post_input =
  pi_ref :: ustring
  pi_kind :: entry_kind
  pi_debits :: "leg list"
  pi_credits :: "leg list"

section \<open>The journal codec\<close>

fun account_name :: "account \<Rightarrow> string" where
  "account_name FIAT_CASH = ''FIAT_CASH''"
| "account_name USDC_POOL = ''USDC_POOL''"
| "account_name SPREAD_REVENUE = ''SPREAD_REVENUE''"
| "account_name PSP_FEE = ''PSP_FEE''"
| "account_name EXTERNAL_FUNDING = ''EXTERNAL_FUNDING''"
| "account_name (OtherName s) = s"

fun kind_name :: "entry_kind \<Rightarrow> string" where
  "kind_name SETTLEMENT = ''SETTLEMENT''"
| "kind_name TOPUP = ''TOPUP''"

definition RECORD_VERSION :: int where "RECORD_VERSION = 1"

definition jtext :: "string \<Rightarrow> json" where "jtext s = JStr (lit s)"

definition encodeLeg :: "leg \<Rightarrow> json" where
  "encodeLeg l = JObj [(''account'', jtext (account_name (leg_account l))),
     (''native'', jtext (bigint_str (leg_native l))), (''kurus'', jtext (bigint_str (leg_kurus l)))]"

definition encodeJournalEntry :: "journal_entry \<Rightarrow> json" where
  "encodeJournalEntry e = JObj
     [(''v'', JInt RECORD_VERSION), (''seq'', JInt (int (je_seq e))), (''ref'', JStr (je_ref e)),
      (''kind'', jtext (kind_name (je_kind e))), (''debits'', JArr (map encodeLeg (je_debits e))),
      (''credits'', JArr (map encodeLeg (je_credits e)))]"

text \<open>The members every object inherits from \<open>Object.prototype\<close>.\<close>

definition OBJECT_PROTOTYPE :: "string list" where
  "OBJECT_PROTOTYPE = [''constructor'', ''__defineGetter__'', ''__defineSetter__'', ''hasOwnProperty'',
     ''__lookupGetter__'', ''__lookupSetter__'', ''isPrototypeOf'', ''propertyIsEnumerable'',
     ''toString'', ''valueOf'', ''__proto__'', ''toLocaleString'']"

text \<open>\<open>account in ACCOUNT_CURRENCY\<close>, with the account it then stands for.\<close>

definition account_in :: "ustring \<Rightarrow> account option" where
  "account_in u =
     (case find (\<lambda>a. lit (account_name a) = u)
          [FIAT_CASH, USDC_POOL, SPREAD_REVENUE, PSP_FEE, EXTERNAL_FUNDING] of
        Some a \<Rightarrow> Some a
      | None \<Rightarrow> map_option OtherName (find (\<lambda>s. lit s = u) OBJECT_PROTOTYPE))"

text \<open>\<open>typeof x === 'string' && DECIMAL.test(x)\<close>, then \<open>BigInt(x)\<close>.\<close>

definition decimal_prop :: "json \<Rightarrow> string \<Rightarrow> int option" where
  "decimal_prop obj key =
     (case jprop obj key of
        Some (JStr u) \<Rightarrow> (case ascii_of u of
            Some s \<Rightarrow> if is_canonical_decimal s then Some (str_bigint s) else None
          | None \<Rightarrow> None)
      | _ \<Rightarrow> None)"

definition decodeLeg :: "json \<Rightarrow> ledger_error + leg" where
  "decodeLeg l =
     (if \<not> is_jobject l then Inl CorruptJournal
      else case jprop l ''account'' of
        Some (JStr acc) \<Rightarrow>
          (case (account_in acc, decimal_prop l ''native'', decimal_prop l ''kurus'') of
             (Some a, Some n, Some k) \<Rightarrow> Inr \<lparr> leg_account = a, leg_native = n, leg_kurus = k \<rparr>
           | _ \<Rightarrow> Inl CorruptJournal)
      | _ \<Rightarrow> Inl CorruptJournal)"

definition decodeLegs :: "json option \<Rightarrow> ledger_error + leg list" where
  "decodeLegs raw =
     (case raw of
        Some (JArr ls) \<Rightarrow> if ls = [] then Inl CorruptJournal else decode_all decodeLeg ls
      | _ \<Rightarrow> Inl CorruptJournal)"

text \<open>The argument is what \<open>JSON.parse\<close> returned, \<open>None\<close> when it threw.\<close>

definition decodeJournalEntry :: "json option \<Rightarrow> ledger_error + journal_entry" where
  "decodeJournalEntry parsed =
     (case parsed of
        None \<Rightarrow> Inl CorruptJournal
      | Some raw \<Rightarrow>
          if \<not> is_jobject raw then Inl CorruptJournal
          else if jprop raw ''v'' \<noteq> Some (JInt RECORD_VERSION) then Inl CorruptJournal
          else case (jprop raw ''seq'', jprop raw ''ref'') of
            (Some (JInt seq), Some (JStr ref)) \<Rightarrow>
              if \<not> is_safe_int seq \<or> seq < 0 then Inl CorruptJournal
              else if ref = [] then Inl CorruptJournal
              else (case jprop raw ''kind'' of
                Some (JStr k) \<Rightarrow>
                  if k \<noteq> lit ''SETTLEMENT'' \<and> k \<noteq> lit ''TOPUP'' then Inl CorruptJournal
                  else bindR (decodeLegs (jprop raw ''debits'')) (\<lambda>debits.
                       bindR (decodeLegs (jprop raw ''credits'')) (\<lambda>credits.
                         Inr \<lparr> je_seq = nat seq, je_ref = ref,
                               je_kind = (if k = lit ''SETTLEMENT'' then SETTLEMENT else TOPUP),
                               je_debits = debits, je_credits = credits \<rparr>))
              | _ \<Rightarrow> Inl CorruptJournal)
          | _ \<Rightarrow> Inl CorruptJournal)"

section \<open>The ledger\<close>

record ledger =
  lg_entries :: "journal_entry list"
  lg_refs :: "ustring set"
  lg_journal :: "json list"

definition newLedger :: ledger where
  "newLedger = \<lparr> lg_entries = [], lg_refs = {}, lg_journal = [] \<rparr>"

fun check_legs :: "leg list \<Rightarrow> ledger_error option" where
  "check_legs [] = None"
| "check_legs (l # ls) =
     (if leg_native l \<le> 0 \<or> leg_kurus l \<le> 0 then Some NonPositiveAmount
      else if ACCOUNT_CURRENCY (leg_account l) = Some TRY \<and> leg_native l \<noteq> leg_kurus l
        then Some ValuationMismatch
      else check_legs ls)"

text \<open>\<open>None\<close> when it returns, the error it throws otherwise.\<close>

definition validateBalanced :: "leg list \<Rightarrow> leg list \<Rightarrow> ledger_error option" where
  "validateBalanced debits credits =
     (if length debits = 0 \<or> length credits = 0 then Some EmptyEntry
      else case check_legs (debits @ credits) of
        Some e \<Rightarrow> Some e
      | None \<Rightarrow> if sumKurus debits \<noteq> sumKurus credits then Some Unbalanced else None)"

text \<open>\<open>sinkOk\<close>: whether \<open>sink.append\<close> returns. The journal grows before the memory does.\<close>

definition post :: "bool \<Rightarrow> post_input \<Rightarrow> ledger \<Rightarrow> (ledger_error + journal_entry) \<times> ledger" where
  "post sinkOk input l =
     (case validateBalanced (pi_debits input) (pi_credits input) of
        Some e \<Rightarrow> (Inl e, l)
      | None \<Rightarrow>
          if pi_ref input \<in> lg_refs l then (Inl DuplicateRef, l)
          else
            let entry = \<lparr> je_seq = length (lg_entries l), je_ref = pi_ref input, je_kind = pi_kind input,
                  je_debits = pi_debits input, je_credits = pi_credits input \<rparr>
            in if \<not> sinkOk then (Inl SinkFailed, l)
               else (Inr entry, l\<lparr> lg_journal := lg_journal l @ [encodeJournalEntry entry],
                      lg_entries := lg_entries l @ [entry], lg_refs := insert (pi_ref input) (lg_refs l) \<rparr>))"

fun hydrate_loop :: "journal_entry list \<Rightarrow> ledger \<Rightarrow> (ledger_error + unit) \<times> ledger" where
  "hydrate_loop [] l = (Inr (), l)"
| "hydrate_loop (e # es) l =
     (case validateBalanced (je_debits e) (je_credits e) of
        Some err \<Rightarrow> (Inl err, l)
      | None \<Rightarrow>
          if je_seq e \<noteq> length (lg_entries l) then (Inl CorruptJournal, l)
          else if je_ref e \<in> lg_refs l then (Inl DuplicateRef, l)
          else hydrate_loop es (l\<lparr> lg_entries := lg_entries l @ [e], lg_refs := insert (je_ref e) (lg_refs l) \<rparr>))"

definition hydrate :: "journal_entry list \<Rightarrow> ledger \<Rightarrow> (ledger_error + unit) \<times> ledger" where
  "hydrate entries l =
     (if length (lg_entries l) > 0 then (Inl CorruptJournal, l) else hydrate_loop entries l)"

definition fee_of :: "settlement_input \<Rightarrow> int" where
  "fee_of input = (case si_feeKurus input of None \<Rightarrow> 0 | Some f \<Rightarrow> f)"

text \<open>The six guards of \<open>recordSettlement\<close>, which all throw \<open>InvalidSettlement\<close>.\<close>

definition settlement_refused :: "settlement_input \<Rightarrow> bool" where
  "settlement_refused input =
     (si_usdcStroops input \<le> 0 \<or> si_userTryKurus input \<le> 0 \<or> si_spreadKurus input < 0
      \<or> fee_of input < 0 \<or> si_spreadKurus input \<ge> si_userTryKurus input
      \<or> fee_of input > si_userTryKurus input)"

definition settlement_post :: "settlement_input \<Rightarrow> post_input" where
  "settlement_post input =
     (let spreadKurus = si_spreadKurus input; feeKurus = fee_of input;
          baseKurus = si_userTryKurus input - spreadKurus;
          netCashKurus = si_userTryKurus input - feeKurus;
          debits = \<lparr> leg_account = FIAT_CASH, leg_native = netCashKurus, leg_kurus = netCashKurus \<rparr> #
            (if feeKurus > 0 then [\<lparr> leg_account = PSP_FEE, leg_native = feeKurus, leg_kurus = feeKurus \<rparr>] else []);
          credits = \<lparr> leg_account = USDC_POOL, leg_native = si_usdcStroops input, leg_kurus = baseKurus \<rparr> #
            (if spreadKurus > 0 then [\<lparr> leg_account = SPREAD_REVENUE, leg_native = spreadKurus, leg_kurus = spreadKurus \<rparr>]
             else [])
      in \<lparr> pi_ref = si_orderId input, pi_kind = SETTLEMENT, pi_debits = debits, pi_credits = credits \<rparr>)"

definition recordSettlement ::
    "bool \<Rightarrow> settlement_input \<Rightarrow> ledger \<Rightarrow> (ledger_error + journal_entry) \<times> ledger" where
  "recordSettlement sinkOk input l =
     (if settlement_refused input then (Inl InvalidSettlement, l) else post sinkOk (settlement_post input) l)"

definition topup_post :: "topup_input \<Rightarrow> post_input" where
  "topup_post input =
     \<lparr> pi_ref = ti_ref input, pi_kind = TOPUP,
       pi_debits = [\<lparr> leg_account = USDC_POOL, leg_native = ti_usdcStroops input, leg_kurus = ti_valueKurus input \<rparr>],
       pi_credits = [\<lparr> leg_account = EXTERNAL_FUNDING, leg_native = ti_valueKurus input, leg_kurus = ti_valueKurus input \<rparr>] \<rparr>"

definition recordTopUp :: "bool \<Rightarrow> topup_input \<Rightarrow> ledger \<Rightarrow> (ledger_error + journal_entry) \<times> ledger" where
  "recordTopUp sinkOk input l =
     (if ti_usdcStroops input \<le> 0 then (Inl InvalidSettlement, l)
      else if ti_valueKurus input \<le> 0 then (Inl InvalidSettlement, l)
      else post sinkOk (topup_post input) l)"

definition all_entries :: "ledger \<Rightarrow> journal_entry list" where
  "all_entries l = lg_entries l"

definition hasRef :: "ledger \<Rightarrow> ustring \<Rightarrow> bool" where
  "hasRef l ref = (ref \<in> lg_refs l)"

text \<open>The two balance loops: debits add, credits subtract, for the legs of one account.\<close>

definition leg_sum :: "(leg \<Rightarrow> int) \<Rightarrow> account \<Rightarrow> leg list \<Rightarrow> int" where
  "leg_sum f a legs = sum_list (map f (filter (\<lambda>x. leg_account x = a) legs))"

definition balance_by :: "(leg \<Rightarrow> int) \<Rightarrow> account \<Rightarrow> ledger \<Rightarrow> int" where
  "balance_by f a l =
     foldl (\<lambda>bal e. bal + leg_sum f a (je_debits e) - leg_sum f a (je_credits e)) 0 (lg_entries l)"

definition balanceKurus :: "ledger \<Rightarrow> account \<Rightarrow> int" where
  "balanceKurus l a = balance_by leg_kurus a l"

definition nativeBalance :: "ledger \<Rightarrow> account \<Rightarrow> int" where
  "nativeBalance l a = balance_by leg_native a l"

definition totalSpreadRevenueKurus :: "ledger \<Rightarrow> int" where
  "totalSpreadRevenueKurus l = - balanceKurus l SPREAD_REVENUE"

definition trialBalanceKurus :: "ledger \<Rightarrow> int" where
  "trialBalanceKurus l = foldl (\<lambda>bal e. bal + (sumKurus (je_debits e) - sumKurus (je_credits e))) 0 (lg_entries l)"

definition detectDrift :: "ledger \<Rightarrow> int \<Rightarrow> drift_report" where
  "detectDrift l observed =
     (let expected = nativeBalance l USDC_POOL; drift = observed - expected in
      \<lparr> dr_expectedPoolStroops = expected, dr_observedPoolStroops = observed, dr_driftStroops = drift,
        dr_inSync = (drift = 0) \<rparr>)"

text \<open>One bookkeeping call of a caller, with the sink's outcome.\<close>

datatype ledger_op = OpPost bool post_input | OpSettlement bool settlement_input | OpTopUp bool topup_input

fun ledger_step :: "ledger_op \<Rightarrow> ledger \<Rightarrow> ledger" where
  "ledger_step (OpPost b i) l = snd (post b i l)"
| "ledger_step (OpSettlement b i) l = snd (recordSettlement b i l)"
| "ledger_step (OpTopUp b i) l = snd (recordTopUp b i l)"

section \<open>The codec laws\<close>

lemma nat_dec_ascii: "list_all (\<lambda>c. (of_char c :: nat) < 128) (nat_dec n)"
  using nat_dec_digits [of n] by (auto simp: list_all_iff is_digit_def)

lemma ascii_of_bigint_str: "0 \<le> i \<Longrightarrow> ascii_of (lit (bigint_str i)) = Some (bigint_str i)"
  by (rule ascii_of_lit) (simp add: bigint_str_def nat_dec_ascii)

lemma decimal_prop_bigint:
  assumes "0 \<le> i" "jprop obj key = Some (jtext (bigint_str i))"
  shows "decimal_prop obj key = Some i"
  using assms by (simp add: decimal_prop_def jtext_def ascii_of_bigint_str bigint_str_canonical str_bigint_bigint_str)

definition own_account :: "account \<Rightarrow> bool" where
  "own_account a = (a \<in> set [FIAT_CASH, USDC_POOL, SPREAD_REVENUE, PSP_FEE, EXTERNAL_FUNDING])"

lemma account_in_name: "own_account a \<Longrightarrow> account_in (lit (account_name a)) = Some a"
  by (cases a) (simp_all add: own_account_def account_in_def)

definition storable_leg :: "leg \<Rightarrow> bool" where
  "storable_leg l = (own_account (leg_account l) \<and> 0 \<le> leg_native l \<and> 0 \<le> leg_kurus l)"

lemma decodeLeg_encodeLeg: "storable_leg l \<Longrightarrow> decodeLeg (encodeLeg l) = Inr l"
proof -
  assume l: "storable_leg l"
  have "decimal_prop (encodeLeg l) ''native'' = Some (leg_native l)"
    "decimal_prop (encodeLeg l) ''kurus'' = Some (leg_kurus l)"
    using l by (intro decimal_prop_bigint; simp add: storable_leg_def encodeLeg_def)+
  moreover have "jprop (encodeLeg l) ''account'' = Some (JStr (lit (account_name (leg_account l))))"
    "is_jobject (encodeLeg l)"
    by (simp_all add: encodeLeg_def jtext_def)
  ultimately show ?thesis using l by (simp add: decodeLeg_def storable_leg_def account_in_name)
qed

definition storable_entry :: "journal_entry \<Rightarrow> bool" where
  "storable_entry e = (int (je_seq e) < 2 ^ 53 \<and> je_ref e \<noteq> [] \<and> je_debits e \<noteq> [] \<and> je_credits e \<noteq> []
     \<and> list_all storable_leg (je_debits e) \<and> list_all storable_leg (je_credits e))"

interpretation leg_codec: codec encodeLeg decodeLeg storable_leg
  by unfold_locales (rule decodeLeg_encodeLeg)

lemma decodeLegs_map:
  "list_all storable_leg ls \<Longrightarrow> ls \<noteq> [] \<Longrightarrow> decodeLegs (Some (JArr (map encodeLeg ls))) = Inr ls"
  using decode_all_map [OF leg_codec.replay_all] by (simp add: decodeLegs_def)

interpretation journal_codec: codec "\<lambda>e. Some (encodeJournalEntry e)" decodeJournalEntry storable_entry
proof unfold_locales
  fix e assume "storable_entry e"
  then show "decodeJournalEntry (Some (encodeJournalEntry e)) = Inr e"
    using decodeLegs_map [of "je_debits e"] decodeLegs_map [of "je_credits e"]
    by (cases "je_kind e") (simp_all add: decodeJournalEntry_def encodeJournalEntry_def storable_entry_def
        RECORD_VERSION_def is_safe_int_def jtext_def)
qed

section \<open>The ledger invariant\<close>

definition ledger_inv :: "ledger \<Rightarrow> bool" where
  "ledger_inv l \<longleftrightarrow>
     map je_seq (lg_entries l) = [0..<length (lg_entries l)]
     \<and> lg_refs l = je_ref ` set (lg_entries l) \<and> distinct (map je_ref (lg_entries l))
     \<and> list_all (\<lambda>e. validateBalanced (je_debits e) (je_credits e) = None) (lg_entries l)
     \<and> lg_journal l = map encodeJournalEntry (lg_entries l)"

lemma newLedger_inv: "ledger_inv newLedger"
  by (simp add: ledger_inv_def newLedger_def)

lemma post_cases:
  obtains (refused) e where "post b i l = (Inl e, l)"
  | (booked) e where "post b i l = (Inr e, l\<lparr> lg_journal := lg_journal l @ [encodeJournalEntry e],
        lg_entries := lg_entries l @ [e], lg_refs := insert (je_ref e) (lg_refs l) \<rparr>)"
      "je_seq e = length (lg_entries l)" "je_ref e \<notin> lg_refs l" "je_ref e = pi_ref i" "je_kind e = pi_kind i"
      "je_debits e = pi_debits i" "je_credits e = pi_credits i"
      "validateBalanced (je_debits e) (je_credits e) = None" "b"
proof (cases "validateBalanced (pi_debits i) (pi_credits i) = None \<and> pi_ref i \<notin> lg_refs l \<and> b")
  case True
  then show thesis
    by (intro booked [of "\<lparr> je_seq = length (lg_entries l), je_ref = pi_ref i, je_kind = pi_kind i,
          je_debits = pi_debits i, je_credits = pi_credits i \<rparr>"]) (simp_all add: post_def Let_def)
next
  case False
  then show thesis
    by (cases "validateBalanced (pi_debits i) (pi_credits i)"; cases "pi_ref i \<in> lg_refs l")
      (auto simp: post_def Let_def intro: refused)
qed

lemma post_inv: "ledger_inv l \<Longrightarrow> ledger_inv (snd (post b i l))"
  by (rule post_cases [of b i l]) (auto simp: ledger_inv_def)

lemma ledger_step_inv: "ledger_inv l \<Longrightarrow> ledger_inv (ledger_step op l)"
  by (cases op) (simp_all add: post_inv recordSettlement_def recordTopUp_def)

lemma ledger_run_inv: "ledger_inv l \<Longrightarrow> ledger_inv (fold ledger_step ops l)"
  by (induction ops arbitrary: l) (simp_all add: ledger_step_inv)

lemma foldl_plus: "foldl (\<lambda>s x. s + f x) (a :: int) xs = a + sum_list (map f xs)"
  by (induction xs arbitrary: a) simp_all

lemma sumKurus_sum: "sumKurus legs = sum_list (map leg_kurus legs)"
  by (simp add: sumKurus_def foldl_plus)

lemma trialBalance_sum:
  "trialBalanceKurus l = sum_list (map (\<lambda>e. sumKurus (je_debits e) - sumKurus (je_credits e)) (lg_entries l))"
  unfolding trialBalanceKurus_def by (simp only: foldl_plus add_0)

lemma validated_balances: "validateBalanced ds cs = None \<Longrightarrow> sumKurus ds = sumKurus cs"
  by (auto simp: validateBalanced_def split: if_splits option.splits)

lemma trialBalance_zero: "ledger_inv l \<Longrightarrow> trialBalanceKurus l = 0"
proof -
  assume "ledger_inv l"
  then have "sumKurus (je_debits e) - sumKurus (je_credits e) = 0" if "e \<in> set (lg_entries l)" for e
    using that validated_balances by (fastforce simp: ledger_inv_def list_all_iff)
  then have "map (\<lambda>e. sumKurus (je_debits e) - sumKurus (je_credits e)) (lg_entries l) = map (\<lambda>e. 0) (lg_entries l)"
    by (intro map_cong [OF refl])
  then show ?thesis unfolding trialBalance_sum by (simp only: sum_list_0)
qed

text \<open>How an appended entry changes a balance.\<close>

lemma foldl_diff:
  "foldl (\<lambda>s x. s + f x - g x) (a :: int) xs = a + sum_list (map (\<lambda>x. f x - g x) xs)"
  by (induction xs arbitrary: a) simp_all

lemma balance_by_sum:
  "balance_by f a l = sum_list (map (\<lambda>e. leg_sum f a (je_debits e) - leg_sum f a (je_credits e)) (lg_entries l))"
  unfolding balance_by_def by (simp only: foldl_diff add_0)

lemma balance_by_snoc:
  "lg_entries l' = lg_entries l @ [e]
   \<Longrightarrow> balance_by f a l' = balance_by f a l + (leg_sum f a (je_debits e) - leg_sum f a (je_credits e))"
  by (simp add: balance_by_sum)

lemma settlement_valid:
  assumes "\<not> settlement_refused i"
  shows "validateBalanced (pi_debits (settlement_post i)) (pi_credits (settlement_post i))
    = (if fee_of i = si_userTryKurus i then Some NonPositiveAmount else None)"
  using assms by (auto simp: settlement_refused_def settlement_post_def validateBalanced_def sumKurus_def Let_def)

lemma settlement_leg_sums:
  assumes "\<not> settlement_refused i"
  shows "leg_sum f USDC_POOL (pi_debits (settlement_post i)) = 0"
    "leg_sum leg_native USDC_POOL (pi_credits (settlement_post i)) = si_usdcStroops i"
    "leg_sum leg_kurus SPREAD_REVENUE (pi_debits (settlement_post i)) = 0"
    "leg_sum leg_kurus SPREAD_REVENUE (pi_credits (settlement_post i)) = si_spreadKurus i"
    "leg_sum leg_kurus FIAT_CASH (pi_debits (settlement_post i)) = si_userTryKurus i - fee_of i"
    "leg_sum leg_kurus FIAT_CASH (pi_credits (settlement_post i)) = 0"
    "leg_sum leg_kurus PSP_FEE (pi_debits (settlement_post i)) = fee_of i"
    "leg_sum leg_kurus PSP_FEE (pi_credits (settlement_post i)) = 0"
  using assms by (auto simp: settlement_refused_def settlement_post_def leg_sum_def Let_def)

section \<open>Properties\<close>


text \<open>What a settlement books. A settlement whose amounts pass the guards, whose fee is below the
  price, whose order is not booked and whose sink accepts is booked, and then the pool's USDC falls by
  exactly the amount paid, the cash rises by the price less the fee, the fee account by the fee, the
  margin by the spread. Otherwise nothing changes. A fee equal to the price passes the guards and is
  refused only by the posting rule.\<close>

lemma settlement_books_exact_amounts:
  assumes "recordSettlement b i l = (r, l')"
  shows "(case r of
      Inr e \<Rightarrow> b \<and> si_orderId i \<notin> lg_refs l \<and> fee_of i < si_userTryKurus i \<and> hasRef l' (si_orderId i)
        \<and> nativeBalance l' USDC_POOL = nativeBalance l USDC_POOL - si_usdcStroops i
        \<and> balanceKurus l' FIAT_CASH = balanceKurus l FIAT_CASH + si_userTryKurus i - fee_of i
        \<and> balanceKurus l' PSP_FEE = balanceKurus l PSP_FEE + fee_of i
        \<and> totalSpreadRevenueKurus l' = totalSpreadRevenueKurus l + si_spreadKurus i
    | Inl err \<Rightarrow> l' = l)
    \<and> ((\<exists>e. r = Inr e) \<longleftrightarrow> \<not> settlement_refused i \<and> fee_of i \<noteq> si_userTryKurus i \<and> si_orderId i \<notin> lg_refs l \<and> b)"
proof (cases "settlement_refused i")
  case True
  with assms show ?thesis by (auto simp: recordSettlement_def)
next
  case False
  note v = settlement_valid [OF False] and sums = settlement_leg_sums [OF False]
  have ref: "pi_ref (settlement_post i) = si_orderId i" by (simp add: settlement_post_def Let_def)
  from False assms have p: "post b (settlement_post i) l = (r, l')" by (simp add: recordSettlement_def)
  show ?thesis
  proof (cases rule: post_cases [of b "settlement_post i" l])
    case (refused e)
    with p v ref show ?thesis by (auto simp: post_def Let_def split: if_splits)
  next
    case (booked e)
    have l': "lg_entries l' = lg_entries l @ [e]" "r = Inr e" "lg_refs l' = insert (si_orderId i) (lg_refs l)"
      using booked(1,4) p ref by auto
    note bal = balance_by_snoc [OF l'(1), unfolded booked(6,7)]
    have "fee_of i < si_userTryKurus i" "b" "si_orderId i \<notin> lg_refs l"
      using False v booked ref by (auto simp: settlement_refused_def split: if_splits)
    with False l' show ?thesis
      by (simp add: nativeBalance_def balanceKurus_def totalSpreadRevenueKurus_def hasRef_def bal sums)
  qed
qed

lemma settlement_books_exact_amounts_witness:
  "(case fst (recordSettlement True \<lparr> si_orderId = lit ''o'', si_usdcStroops = 50, si_userTryKurus = 100,
        si_spreadKurus = 3, si_feeKurus = Some 2 \<rparr> newLedger) of Inr e \<Rightarrow> True | Inl _ \<Rightarrow> False)
   \<and> nativeBalance (snd (recordSettlement True \<lparr> si_orderId = lit ''o'', si_usdcStroops = 50, si_userTryKurus = 100,
        si_spreadKurus = 3, si_feeKurus = Some 2 \<rparr> newLedger)) USDC_POOL = - 50"
proof -
  let ?i = "\<lparr> si_orderId = lit ''o'', si_usdcStroops = 50, si_userTryKurus = 100,
        si_spreadKurus = 3, si_feeKurus = Some 2 \<rparr>"
  have ok: "\<not> settlement_refused ?i" "fee_of ?i \<noteq> si_userTryKurus ?i" "si_orderId ?i \<notin> lg_refs newLedger"
    by (simp_all add: settlement_refused_def fee_of_def newLedger_def)
  obtain r l' where rl: "recordSettlement True ?i newLedger = (r, l')" by fastforce
  from settlement_books_exact_amounts [OF rl] ok obtain e where "r = Inr e" by blast
  with settlement_books_exact_amounts [OF rl] rl show ?thesis
    by (simp add: nativeBalance_def balance_by_def newLedger_def)
qed

text \<open>Calls whose entries the codec can store: settlements and top-ups with a non-empty ref.\<close>

definition own_op :: "ledger_op \<Rightarrow> bool" where
  "own_op op = (case op of OpPost b i \<Rightarrow> False | OpSettlement b i \<Rightarrow> si_orderId i \<noteq> [] | OpTopUp b i \<Rightarrow> ti_ref i \<noteq> [])"

definition own_entry :: "journal_entry \<Rightarrow> bool" where
  "own_entry e = (je_ref e \<noteq> [] \<and> (\<forall>x \<in> set (je_debits e @ je_credits e). own_account (leg_account x)))"

lemma post_own:
  assumes "list_all own_entry (lg_entries l)" "pi_ref i \<noteq> []"
    "\<forall>x \<in> set (pi_debits i @ pi_credits i). own_account (leg_account x)"
  shows "list_all own_entry (lg_entries (snd (post b i l)))"
  by (cases rule: post_cases [of b i l]) (use assms in \<open>auto simp: own_entry_def\<close>)

lemma own_step:
  assumes "list_all own_entry (lg_entries l)" "own_op op"
  shows "list_all own_entry (lg_entries (ledger_step op l))"
proof (cases op)
  case (OpSettlement b i)
  have "list_all own_entry (lg_entries (snd (post b (settlement_post i) l)))"
    using assms OpSettlement by (intro post_own) (auto simp: own_op_def settlement_post_def own_account_def Let_def)
  with OpSettlement assms show ?thesis by (simp add: recordSettlement_def)
next
  case (OpTopUp b i)
  have "list_all own_entry (lg_entries (snd (post b (topup_post i) l)))"
    using assms OpTopUp by (intro post_own) (auto simp: own_op_def topup_post_def own_account_def)
  with OpTopUp assms show ?thesis by (simp add: recordTopUp_def)
qed (use assms in \<open>simp add: own_op_def\<close>)

lemma own_run:
  "list_all own_entry (lg_entries l) \<Longrightarrow> list_all own_op ops \<Longrightarrow> list_all own_entry (lg_entries (fold ledger_step ops l))"
  by (induction ops arbitrary: l) (simp_all add: own_step)

lemma check_legs_positive: "check_legs ls = None \<Longrightarrow> x \<in> set ls \<Longrightarrow> 0 < leg_native x \<and> 0 < leg_kurus x"
  by (induction ls) (auto split: if_splits)

lemma own_entry_storable:
  assumes "own_entry e" "validateBalanced (je_debits e) (je_credits e) = None" "int (je_seq e) < 2 ^ 53"
  shows "storable_entry e"
proof -
  from assms(2) have ne: "je_debits e \<noteq> []" "je_credits e \<noteq> []"
    and ck: "check_legs (je_debits e @ je_credits e) = None"
    by (auto simp: validateBalanced_def split: if_splits option.splits)
  have "storable_leg x" if "x \<in> set (je_debits e @ je_credits e)" for x
    using check_legs_positive [OF ck that] assms(1) that by (auto simp: storable_leg_def own_entry_def)
  with ne assms(1,3) show ?thesis by (auto simp: storable_entry_def own_entry_def list_all_iff)
qed

text \<open>Replaying entries that continue a ledger in order.\<close>

lemma hydrate_loop_ok:
  assumes "list_all (\<lambda>e. validateBalanced (je_debits e) (je_credits e) = None) es"
    and "map je_seq es = [length (lg_entries l)..<length (lg_entries l) + length es]"
    and "distinct (map je_ref es)" and "\<forall>e \<in> set es. je_ref e \<notin> lg_refs l"
  shows "hydrate_loop es l = (Inr (), l\<lparr> lg_entries := lg_entries l @ es, lg_refs := lg_refs l \<union> je_ref ` set es \<rparr>)"
  using assms
proof (induction es arbitrary: l)
  case (Cons e es)
  let ?l = "l\<lparr> lg_entries := lg_entries l @ [e], lg_refs := insert (je_ref e) (lg_refs l) \<rparr>"
  from Cons.prems(2) have sq: "je_seq e = length (lg_entries l)"
    "map je_seq es = [Suc (length (lg_entries l))..<Suc (length (lg_entries l) + length es)]"
    by (simp_all add: upt_conv_Cons del: upt_Suc)
  have "hydrate_loop es ?l = (Inr (), ?l\<lparr> lg_entries := lg_entries ?l @ es, lg_refs := lg_refs ?l \<union> je_ref ` set es \<rparr>)"
    using Cons.prems(1,3,4) sq(2) by (intro Cons.IH) (auto simp: image_iff simp del: upt_Suc)
  with Cons.prems(1,4) sq(1) show ?case by simp
qed simp

text \<open>Restart of the ledger. For a ledger reached by settlements and top-ups (with non-empty refs and
  fewer than 2^53 entries), decoding the durable journal record by record and replaying it into a fresh
  ledger succeeds and restores the same entries and the same refs, hence every balance.\<close>

lemma ledger_restart_roundtrip:
  assumes "list_all own_op ops" and l: "l = fold ledger_step ops newLedger"
    and few: "int (length (lg_entries l)) < 2 ^ 53"
  shows "decode_all decodeJournalEntry (map Some (lg_journal l)) = Inr (lg_entries l)
    \<and> (\<exists>fresh. hydrate (lg_entries l) newLedger = (Inr (), fresh)
        \<and> lg_entries fresh = lg_entries l \<and> lg_refs fresh = lg_refs l
        \<and> (\<forall>a. nativeBalance fresh a = nativeBalance l a))"
proof -
  have inv: "ledger_inv l" unfolding l by (rule ledger_run_inv [OF newLedger_inv])
  have own: "list_all own_entry (lg_entries l)"
    unfolding l by (rule own_run [OF _ assms(1)]) (simp add: newLedger_def)
  have "je_seq e < length (lg_entries l)" if "e \<in> set (lg_entries l)" for e
  proof -
    from that have "je_seq e \<in> set (map je_seq (lg_entries l))" by simp
    then show ?thesis using inv unfolding ledger_inv_def by simp
  qed
  with inv own few have "list_all storable_entry (lg_entries l)"
    by (fastforce simp: list_all_iff ledger_inv_def intro: own_entry_storable)
  then have "decode_all decodeJournalEntry (map (\<lambda>e. Some (encodeJournalEntry e)) (lg_entries l)) = Inr (lg_entries l)"
    by (intro decode_all_map journal_codec.replay_all)
  moreover have "map Some (lg_journal l) = map (\<lambda>e. Some (encodeJournalEntry e)) (lg_entries l)"
    using inv by (simp add: ledger_inv_def)
  moreover have "hydrate (lg_entries l) newLedger
      = (Inr (), newLedger\<lparr> lg_entries := lg_entries l, lg_refs := lg_refs l \<rparr>)"
    using inv hydrate_loop_ok [of "lg_entries l" newLedger] by (simp add: hydrate_def ledger_inv_def newLedger_def)
  ultimately show ?thesis by (simp add: nativeBalance_def balance_by_def)
qed

lemma ledger_restart_roundtrip_witness:
  "decode_all decodeJournalEntry (map Some (lg_journal (fold ledger_step
     [OpTopUp True \<lparr> ti_ref = lit ''t'', ti_usdcStroops = 9, ti_valueKurus = 4 \<rparr>] newLedger)))
   = Inr (lg_entries (fold ledger_step
     [OpTopUp True \<lparr> ti_ref = lit ''t'', ti_usdcStroops = 9, ti_valueKurus = 4 \<rparr>] newLedger))"
proof -
  let ?ops = "[OpTopUp True \<lparr> ti_ref = lit ''t'', ti_usdcStroops = 9, ti_valueKurus = 4 \<rparr>]"
  have "int (length (lg_entries (fold ledger_step ?ops newLedger))) < 2 ^ 53"
    by (simp add: recordTopUp_def topup_post_def post_def newLedger_def validateBalanced_def Let_def)
  with ledger_restart_roundtrip [OF _ refl, of ?ops] show ?thesis by (simp add: own_op_def)
qed

text \<open>A posting with an empty ref is booked, but its record does not decode; and the decoder takes the
  name of an inherited object member for an account.\<close>

lemma empty_ref_not_decodable:
  assumes "je_ref e = []"
  shows "decodeJournalEntry (Some (encodeJournalEntry e)) = Inl CorruptJournal"
  using assms by (simp add: decodeJournalEntry_def encodeJournalEntry_def RECORD_VERSION_def)

lemma inherited_name_decodes:
  "decodeLeg (JObj [(''account'', jtext ''toString''), (''native'', jtext ''5''), (''kurus'', jtext ''7'')])
   = Inr \<lparr> leg_account = OtherName ''toString'', leg_native = 5, leg_kurus = 7 \<rparr>"
proof -
  have "account_in (lit ''toString'') = Some (OtherName ''toString'')"
    by (simp add: account_in_def OBJECT_PROTOTYPE_def)
  moreover have "decimal_prop (JObj [(''account'', jtext ''toString''), (''native'', jtext ''5''), (''kurus'', jtext ''7'')]) ''native'' = Some 5"
    "decimal_prop (JObj [(''account'', jtext ''toString''), (''native'', jtext ''5''), (''kurus'', jtext ''7'')]) ''kurus'' = Some 7"
    by (simp_all add: decimal_prop_def jtext_def ascii_of_lit is_canonical_decimal_def is_digit_def str_bigint_def
        dec_nat_def digit_val_def)
  ultimately show ?thesis by (simp add: decodeLeg_def) (simp add: jtext_def)
qed

end
