(* ===== verification/Evidence.thy ===== *)
theory Evidence
  imports Ledger
begin

text \<open>
  The durable settlement evidence: the row types of \<^verbatim>\<open>packages/backend/src/ports.ts\<close> and the record format of
  \<^verbatim>\<open>packages/backend/src/store/evidence-codec.ts\<close>. A record is a JSON value; \<open>None\<close> stands for a payload that is
  not JSON. The lemmas interpret \<open>codec\<close> on the format and show what replay with its deduplication returns.
\<close>

section \<open>Rows, ports.ts\<close>

record evidence_record =
  er_txHash :: ustring
  er_signedXdr :: ustring
  er_seq :: ustring
  er_witnessedAtUnix :: int

record order_facts =
  of_destination :: ustring
  of_amountStroops :: int
  of_memoHex :: ustring
  of_appliedRateStroops :: int
  of_paidPriceTry :: ustring
  of_spreadKurus :: int
  of_feeKurus :: int

record evidence_row =
  ew_orderId :: ustring
  ew_record :: evidence_record
  ew_order :: order_facts

section \<open>The record format, evidence-codec.ts\<close>

definition EVIDENCE_VERSION :: int where "EVIDENCE_VERSION = 2"

datatype evidence_codec_error =
    NotJson | NotAnObject | UnsupportedVersion | BadRecord | BadWitnessedAt | BadOrderFacts
  | BadText string | NonCanonical string

definition encodeEvidenceRow :: "evidence_row \<Rightarrow> json" where
  "encodeEvidenceRow row =
     (let r = ew_record row; f = ew_order row in
      JObj [(''v'', JInt EVIDENCE_VERSION),
            (''orderId'', JStr (ew_orderId row)),
            (''record'', JObj [(''txHash'', JStr (er_txHash r)), (''signedXdr'', JStr (er_signedXdr r)),
               (''seq'', JStr (er_seq r)), (''witnessedAtUnix'', JInt (er_witnessedAtUnix r))]),
            (''order'', JObj [(''destination'', JStr (of_destination f)),
               (''amountStroops'', jtext (bigint_str (of_amountStroops f))), (''memoHex'', JStr (of_memoHex f)),
               (''appliedRateStroops'', jtext (bigint_str (of_appliedRateStroops f))),
               (''paidPriceTry'', JStr (of_paidPriceTry f)),
               (''spreadKurus'', jtext (bigint_str (of_spreadKurus f))),
               (''feeKurus'', jtext (bigint_str (of_feeKurus f)))])])"

text \<open>\<open>str\<close> and \<open>amount\<close>.\<close>

definition ev_str :: "json \<Rightarrow> string \<Rightarrow> evidence_codec_error + ustring" where
  "ev_str obj field =
     (case jprop obj field of Some (JStr s) \<Rightarrow> (if length s = 0 then Inl (BadText field) else Inr s)
      | _ \<Rightarrow> Inl (BadText field))"

definition ev_amount :: "json \<Rightarrow> string \<Rightarrow> evidence_codec_error + int" where
  "ev_amount obj field =
     (case decimal_prop obj field of None \<Rightarrow> Inl (NonCanonical field) | Some i \<Rightarrow> Inr i)"

definition decodeOrderFacts :: "json option \<Rightarrow> evidence_codec_error + order_facts" where
  "decodeOrderFacts raw =
     (case raw of
        None \<Rightarrow> Inl BadOrderFacts
      | Some obj \<Rightarrow>
          if \<not> is_jobject obj then Inl BadOrderFacts
          else bindR (ev_str obj ''destination'') (\<lambda>destination.
               bindR (ev_amount obj ''amountStroops'') (\<lambda>amountStroops.
               bindR (ev_str obj ''memoHex'') (\<lambda>memoHex.
               bindR (ev_amount obj ''appliedRateStroops'') (\<lambda>appliedRateStroops.
               bindR (ev_str obj ''paidPriceTry'') (\<lambda>paidPriceTry.
               bindR (ev_amount obj ''spreadKurus'') (\<lambda>spreadKurus.
               bindR (ev_amount obj ''feeKurus'') (\<lambda>feeKurus.
                 Inr \<lparr> of_destination = destination, of_amountStroops = amountStroops, of_memoHex = memoHex,
                       of_appliedRateStroops = appliedRateStroops, of_paidPriceTry = paidPriceTry,
                       of_spreadKurus = spreadKurus, of_feeKurus = feeKurus \<rparr>))))))))"

definition decodeEvidenceRow :: "json option \<Rightarrow> evidence_codec_error + evidence_row" where
  "decodeEvidenceRow payload =
     (case payload of
        None \<Rightarrow> Inl NotJson
      | Some raw \<Rightarrow>
          if \<not> is_jobject raw then Inl NotAnObject
          else if jprop raw ''v'' \<noteq> Some (JInt EVIDENCE_VERSION) then Inl UnsupportedVersion
          else (case jprop raw ''record'' of
                  None \<Rightarrow> Inl BadRecord
                | Some rec \<Rightarrow>
                    if \<not> is_jobject rec then Inl BadRecord
                    else (case jprop rec ''witnessedAtUnix'' of
                            Some (JInt at) \<Rightarrow>
                              if \<not> is_safe_int at then Inl BadWitnessedAt
                              else bindR (ev_str raw ''orderId'') (\<lambda>orderId.
                                   bindR (ev_str rec ''txHash'') (\<lambda>txHash.
                                   bindR (ev_str rec ''signedXdr'') (\<lambda>signedXdr.
                                   bindR (ev_str rec ''seq'') (\<lambda>seq.
                                   bindR (decodeOrderFacts (jprop raw ''order'')) (\<lambda>facts.
                                     Inr \<lparr> ew_orderId = orderId,
                                           ew_record = \<lparr> er_txHash = txHash, er_signedXdr = signedXdr, er_seq = seq,
                                                         er_witnessedAtUnix = at \<rparr>,
                                           ew_order = facts \<rparr>)))))
                          | _ \<Rightarrow> Inl BadWitnessedAt)))"

definition SPACE :: "16 word" where "SPACE = 0x20"

definition evidence_key :: "evidence_row \<Rightarrow> ustring" where
  "evidence_key r = ew_orderId r @ SPACE # er_txHash (ew_record r)"

fun dedupe_loop :: "ustring list \<Rightarrow> evidence_row list \<Rightarrow> evidence_row list" where
  "dedupe_loop seen [] = []"
| "dedupe_loop seen (r # rows) =
     (if evidence_key r \<in> set seen then dedupe_loop seen rows
      else r # dedupe_loop (evidence_key r # seen) rows)"

definition dedupeEvidence :: "evidence_row list \<Rightarrow> evidence_row list" where
  "dedupeEvidence rows = dedupe_loop [] rows"

section \<open>The codec laws\<close>

text \<open>The rows the store writes: every text is present, every amount is a non-negative BigInt.\<close>

definition storable_row :: "evidence_row \<Rightarrow> bool" where
  "storable_row row =
     (ew_orderId row \<noteq> [] \<and> er_txHash (ew_record row) \<noteq> [] \<and> er_signedXdr (ew_record row) \<noteq> []
      \<and> er_seq (ew_record row) \<noteq> [] \<and> is_safe_int (er_witnessedAtUnix (ew_record row))
      \<and> of_destination (ew_order row) \<noteq> [] \<and> of_memoHex (ew_order row) \<noteq> [] \<and> of_paidPriceTry (ew_order row) \<noteq> []
      \<and> 0 \<le> of_amountStroops (ew_order row) \<and> 0 \<le> of_appliedRateStroops (ew_order row)
      \<and> 0 \<le> of_spreadKurus (ew_order row) \<and> 0 \<le> of_feeKurus (ew_order row))"

lemma ev_str_JStr: "jprop obj field = Some (JStr s) \<Longrightarrow> s \<noteq> [] \<Longrightarrow> ev_str obj field = Inr s"
  by (simp add: ev_str_def)

lemma ev_amount_bigint: "jprop obj field = Some (jtext (bigint_str i)) \<Longrightarrow> 0 \<le> i \<Longrightarrow> ev_amount obj field = Inr i"
  using decimal_prop_bigint [of i obj field] by (simp add: ev_amount_def)

lemma decode_encode_row:
  assumes "storable_row row"
  shows "decodeEvidenceRow (Some (encodeEvidenceRow row)) = Inr row"
  using assms
  by (simp add: decodeEvidenceRow_def encodeEvidenceRow_def decodeOrderFacts_def storable_row_def Let_def
      ev_str_JStr ev_amount_bigint)

interpretation evidence_codec: codec "\<lambda>r. Some (encodeEvidenceRow r)" decodeEvidenceRow storable_row
  by unfold_locales (rule decode_encode_row)

section \<open>Deduplication\<close>

lemma dedupe_loop_set:
  "set (dedupe_loop seen rows) \<subseteq> set rows"
  by (induction rows arbitrary: seen) (auto split: if_splits)

lemma dedupe_loop_keys:
  "evidence_key ` set (dedupe_loop seen rows) = evidence_key ` set rows - set seen
   \<and> distinct (map evidence_key (dedupe_loop seen rows))"
proof (induction rows arbitrary: seen)
  case (Cons r rows)
  show ?case
  proof (cases "evidence_key r \<in> set seen")
    case True
    with Cons show ?thesis by auto
  next
    case False
    from Cons [of "evidence_key r # seen"]
    have keys: "evidence_key ` set (dedupe_loop (evidence_key r # seen) rows) = evidence_key ` set rows - set (evidence_key r # seen)"
      and d: "distinct (map evidence_key (dedupe_loop (evidence_key r # seen) rows))" by auto
    have "evidence_key r \<notin> evidence_key ` set (dedupe_loop (evidence_key r # seen) rows)" unfolding keys by simp
    with False keys d show ?thesis by auto
  qed
qed simp

text \<open>With a transaction hash that holds no space, the key determines the order and the hash.\<close>

lemma split_at_space:
  "a @ (w :: 'w) # x = b @ w # y \<Longrightarrow> w \<notin> set x \<Longrightarrow> w \<notin> set y \<Longrightarrow> a = b \<and> x = y"
proof (induction a arbitrary: b)
  case Nil
  then show ?case by (cases b) auto
next
  case (Cons c a)
  show ?case
  proof (cases b)
    case Nil
    with Cons.prems show ?thesis by auto
  next
    case (Cons d b')
    with Cons.prems Cons.IH [of b'] show ?thesis by auto
  qed
qed

lemma evidence_key_inj:
  assumes "SPACE \<notin> set (er_txHash (ew_record r))" "SPACE \<notin> set (er_txHash (ew_record r'))"
    "evidence_key r = evidence_key r'"
  shows "ew_orderId r = ew_orderId r' \<and> er_txHash (ew_record r) = er_txHash (ew_record r')"
  using assms(3) unfolding evidence_key_def by (rule split_at_space [OF _ assms(1,2)])

text \<open>Replay keeps, for every order, its first row.\<close>

lemma dedupe_loop_find:
  assumes "\<forall>r \<in> set rows. SPACE \<notin> set (er_txHash (ew_record r))"
    and "\<forall>r \<in> set rows. ew_orderId r = ord \<longrightarrow> evidence_key r \<notin> set seen"
  shows "find (\<lambda>r. ew_orderId r = ord) (dedupe_loop seen rows) = find (\<lambda>r. ew_orderId r = ord) rows"
  using assms
proof (induction rows arbitrary: seen)
  case (Cons r rows)
  have "evidence_key r' \<noteq> evidence_key r" if "r' \<in> set rows" "ew_orderId r' = ord" "ew_orderId r \<noteq> ord" for r'
    using that Cons.prems(1) evidence_key_inj [of r' r] by auto
  with Cons show ?case by auto
qed simp

lemma dedupe_find:
  assumes "\<forall>r \<in> set rows. SPACE \<notin> set (er_txHash (ew_record r))"
  shows "find (\<lambda>r. ew_orderId r = ord) (dedupeEvidence rows) = find (\<lambda>r. ew_orderId r = ord) rows"
  using dedupe_loop_find [OF assms, of ord "[]"] by (simp add: dedupeEvidence_def)

end
