(* ===== verification/State_Machine.thy ===== *)
theory State_Machine
  imports Troia_Prelude
begin

text \<open>
  The settlement state machine of \<^verbatim>\<open>packages/core/src/state-machine.ts\<close>: the states, the
  side-effect descriptors, the events and the pure reducer \<open>transition\<close>, branch by branch, and the
  runs of the reducer from \<open>initialState\<close>. The lemmas show what every edge of the table promises
  (which events may move money, which state an edge enters) and what every run promises (the
  irreversible USDC leg comes last, behind the reservation and the charge; a confirmed payout is never
  refunded).
\<close>

section \<open>States, effects, events\<close>

datatype state =
    Reserved
  | SolvencyReserved
  | UsdcSubmitted
  | UsdcConfirmed
  | UsdcPending
  | UsdcDead
  | UsdcReverted
  | ChargeReversing
  | ChargeReversed
  | Reconciled
  | LossReview
  | FailedClean

definition ALL_STATES :: "state list" where
  "ALL_STATES = [Reserved, SolvencyReserved, UsdcSubmitted, UsdcConfirmed, UsdcPending, UsdcDead,
     UsdcReverted, ChargeReversing, ChargeReversed, Reconciled, LossReview, FailedClean]"

text \<open>The string a state is in the source (used in the reason of a rejected event).\<close>

fun state_name :: "state \<Rightarrow> string" where
  "state_name Reserved = ''Reserved''"
| "state_name SolvencyReserved = ''SolvencyReserved''"
| "state_name UsdcSubmitted = ''UsdcSubmitted''"
| "state_name UsdcConfirmed = ''UsdcConfirmed''"
| "state_name UsdcPending = ''UsdcPending''"
| "state_name UsdcDead = ''UsdcDead''"
| "state_name UsdcReverted = ''UsdcReverted''"
| "state_name ChargeReversing = ''ChargeReversing''"
| "state_name ChargeReversed = ''ChargeReversed''"
| "state_name Reconciled = ''Reconciled''"
| "state_name LossReview = ''LossReview''"
| "state_name FailedClean = ''FailedClean''"

definition ABSOLUTE_TERMINAL_STATES :: "state list" where
  "ABSOLUTE_TERMINAL_STATES = [Reconciled, FailedClean, ChargeReversed]"

definition REVERSAL_PENDING_STATES :: "state list" where
  "REVERSAL_PENDING_STATES = [ChargeReversing]"

definition isAbsoluteTerminal :: "state \<Rightarrow> bool" where
  "isAbsoluteTerminal s = (s \<in> set ABSOLUTE_TERMINAL_STATES)"

definition isReversalPending :: "state \<Rightarrow> bool" where
  "isReversalPending s = (s \<in> set REVERSAL_PENDING_STATES)"

definition isManualReview :: "state \<Rightarrow> bool" where
  "isManualReview s = (s = LossReview)"

datatype effect =
    FireSolvencyCheck
  | FireCheckoutForm
  | AllocateSeq
  | PersistInFlight
  | SubmitPay
  | SubmitReplacementSameSeq
  | ReallocateSeq
  | ConfirmBurnedSeq
  | ReleaseSeq
  | ReleaseReservation
  | FireCancel
  | FlagLoss
  | HandToReconciler
  | RePollObserveOnly

definition MUTATION_EFFECTS :: "effect list" where
  "MUTATION_EFFECTS = [FireCheckoutForm, AllocateSeq, SubmitPay, SubmitReplacementSameSeq,
     ReallocateSeq, FireCancel]"

text \<open>The Boolean argument of an event is its field \<open>retriesRemaining\<close>.\<close>

datatype event =
    SolvencyOk
  | SolvencyFail
  | SolvencyUnknown
  | ChargeOk
  | ChargeRejected
  | ChargeUnknown
  | CheckoutInitFailed
  | Recover
  | RecoverResubmit
  | EvidenceSuccess
  | EvidenceReverted
  | EvidencePending
  | PollDead
  | PollStillPending
  | DeadRetry bool
  | RevertAlreadyProcessed
  | RevertBalanceGuard
  | RevertIndeterminate bool
  | ReconciledEv
  | ReversalConfirmed
  | ReversalUnknown
  | ReversalNotDone bool

text \<open>The field \<open>type\<close> of an event.\<close>

fun event_type :: "event \<Rightarrow> string" where
  "event_type SolvencyOk = ''solvencyOk''"
| "event_type SolvencyFail = ''solvencyFail''"
| "event_type SolvencyUnknown = ''solvencyUnknown''"
| "event_type ChargeOk = ''chargeOk''"
| "event_type ChargeRejected = ''chargeRejected''"
| "event_type ChargeUnknown = ''chargeUnknown''"
| "event_type CheckoutInitFailed = ''checkoutInitFailed''"
| "event_type Recover = ''recover''"
| "event_type RecoverResubmit = ''recoverResubmit''"
| "event_type EvidenceSuccess = ''evidenceSuccess''"
| "event_type EvidenceReverted = ''evidenceReverted''"
| "event_type EvidencePending = ''evidencePending''"
| "event_type PollDead = ''pollDead''"
| "event_type PollStillPending = ''pollStillPending''"
| "event_type (DeadRetry _) = ''deadRetry''"
| "event_type RevertAlreadyProcessed = ''revertAlreadyProcessed''"
| "event_type RevertBalanceGuard = ''revertBalanceGuard''"
| "event_type (RevertIndeterminate _) = ''revertIndeterminate''"
| "event_type ReconciledEv = ''reconciled''"
| "event_type ReversalConfirmed = ''reversalConfirmed''"
| "event_type ReversalUnknown = ''reversalUnknown''"
| "event_type (ReversalNotDone _) = ''reversalNotDone''"

datatype transition_result =
    Transition state "effect list"
  | Ignored
  | Rejected string

definition rejected :: "state \<Rightarrow> event \<Rightarrow> transition_result" where
  "rejected s e = Rejected (''no transition for event '' @ [CHR 0x27] @ event_type e @ [CHR 0x27]
     @ '' in state '' @ [CHR 0x27] @ state_name s @ [CHR 0x27])"

section \<open>The reducer\<close>

definition initialState :: "state \<times> effect list" where
  "initialState = (Reserved, [FireSolvencyCheck])"

text \<open>The reversal-pending sub-machine.\<close>

definition transition_reversing :: "state \<Rightarrow> event \<Rightarrow> transition_result" where
  "transition_reversing s e =
    (case e of
       ReversalConfirmed \<Rightarrow> Transition ChargeReversed []
     | ReversalUnknown \<Rightarrow> Transition s [RePollObserveOnly]
     | ReversalNotDone retriesRemaining \<Rightarrow>
         (if retriesRemaining then Transition s [FireCancel] else Transition LossReview [FlagLoss])
     | _ \<Rightarrow> rejected s e)"

text \<open>The \<open>switch (state)\<close> of \<open>transition\<close>, one \<open>switch (event.type)\<close> per state.\<close>

definition transition_table :: "state \<Rightarrow> event \<Rightarrow> transition_result" where
  "transition_table s e =
    (case s of
      Reserved \<Rightarrow>
        (case e of
           SolvencyOk \<Rightarrow> Transition SolvencyReserved [FireCheckoutForm]
         | SolvencyFail \<Rightarrow> Transition FailedClean []
         | SolvencyUnknown \<Rightarrow> Transition Reserved [RePollObserveOnly]
         | _ \<Rightarrow> rejected s e)
    | SolvencyReserved \<Rightarrow>
        (case e of
           ChargeOk \<Rightarrow> Transition UsdcSubmitted [AllocateSeq, PersistInFlight, SubmitPay]
         | ChargeRejected \<Rightarrow> Transition FailedClean [ReleaseReservation]
         | ChargeUnknown \<Rightarrow> Transition SolvencyReserved [RePollObserveOnly]
         | CheckoutInitFailed \<Rightarrow> Transition FailedClean [ReleaseReservation]
         | _ \<Rightarrow> rejected s e)
    | UsdcSubmitted \<Rightarrow>
        (case e of
           Recover \<Rightarrow> Transition UsdcSubmitted [RePollObserveOnly]
         | RecoverResubmit \<Rightarrow> Transition UsdcSubmitted [PersistInFlight, SubmitReplacementSameSeq]
         | EvidenceSuccess \<Rightarrow> Transition UsdcConfirmed [HandToReconciler]
         | EvidenceReverted \<Rightarrow> Transition UsdcReverted [ConfirmBurnedSeq]
         | EvidencePending \<Rightarrow> Transition UsdcPending [RePollObserveOnly]
         | _ \<Rightarrow> rejected s e)
    | UsdcPending \<Rightarrow>
        (case e of
           PollStillPending \<Rightarrow> Transition UsdcPending [RePollObserveOnly]
         | PollDead \<Rightarrow> Transition UsdcDead []
         | EvidenceSuccess \<Rightarrow> Transition UsdcConfirmed [HandToReconciler]
         | EvidenceReverted \<Rightarrow> Transition UsdcReverted [ConfirmBurnedSeq]
         | _ \<Rightarrow> rejected s e)
    | UsdcDead \<Rightarrow>
        (case e of
           DeadRetry retriesRemaining \<Rightarrow>
             (if retriesRemaining
              then Transition UsdcSubmitted [PersistInFlight, SubmitReplacementSameSeq]
              else Transition ChargeReversing [ReleaseSeq, ReleaseReservation, FireCancel])
         | _ \<Rightarrow> rejected s e)
    | UsdcReverted \<Rightarrow>
        (case e of
           RevertAlreadyProcessed \<Rightarrow> Transition UsdcConfirmed []
         | RevertBalanceGuard \<Rightarrow> Transition ChargeReversing [ReleaseReservation, FireCancel]
         | RevertIndeterminate retriesRemaining \<Rightarrow>
             (if retriesRemaining
              then Transition UsdcSubmitted [ReallocateSeq, PersistInFlight, SubmitPay]
              else Transition LossReview [FlagLoss])
         | _ \<Rightarrow> rejected s e)
    | UsdcConfirmed \<Rightarrow>
        (case e of
           ReconciledEv \<Rightarrow> Transition Reconciled []
         | _ \<Rightarrow> Ignored)
    | _ \<Rightarrow> rejected s e)"

definition transition :: "state \<Rightarrow> event \<Rightarrow> transition_result" where
  "transition s e =
     (if isAbsoluteTerminal s \<or> s = LossReview then Ignored
      else if isReversalPending s then transition_reversing s e
      else transition_table s e)"

section \<open>The mutation guard of the engine\<close>

text \<open>\<^verbatim>\<open>packages/backend/src/engine/mutation-guard.ts\<close>. \<open>endsWith\<close> on ASCII strings.\<close>

definition ends_with :: "string \<Rightarrow> string \<Rightarrow> bool" where
  "ends_with s suf = (length suf \<le> length s \<and> drop (length s - length suf) s = suf)"

definition isObserveOnlyEvent :: "event \<Rightarrow> bool" where
  "isObserveOnlyEvent e =
     (ends_with (event_type e) ''Unknown'' \<or> event_type e = ''recover''
      \<or> event_type e = ''pollStillPending'' \<or> event_type e = ''evidencePending'')"

definition containsMutation :: "effect list \<Rightarrow> bool" where
  "containsMutation effects = list_ex (\<lambda>e. e \<in> set MUTATION_EFFECTS) effects"

text \<open>\<open>assertNoMutationOnUnknown\<close> throws exactly when this is false.\<close>

definition assertNoMutationOnUnknown :: "event \<Rightarrow> effect list \<Rightarrow> bool" where
  "assertNoMutationOnUnknown e effects = (\<not> (isObserveOnlyEvent e \<and> containsMutation effects))"

section \<open>Runs of the reducer\<close>

text \<open>A run from \<open>initialState\<close>: the events fed so far, the state, and every effect emitted so far,
  oldest first. An ignored or rejected event changes nothing.\<close>

inductive sm_run :: "event list \<Rightarrow> state \<Rightarrow> effect list \<Rightarrow> bool" where
  sm_start: "sm_run [] (fst initialState) (snd initialState)"
| sm_step: "sm_run es s effs \<Longrightarrow> transition s e = Transition s' new \<Longrightarrow>
     sm_run (es @ [e]) s' (effs @ new)"
| sm_skip: "sm_run es s effs \<Longrightarrow> transition s e = Ignored \<or> (\<exists>r. transition s e = Rejected r) \<Longrightarrow>
     sm_run (es @ [e]) s effs"

inductive_cases sm_run_nilE: "sm_run [] s effs"

lemmas sm_defs [troia_simps] =
  transition_def isAbsoluteTerminal_def ABSOLUTE_TERMINAL_STATES_def isReversalPending_def
  REVERSAL_PENDING_STATES_def rejected_def transition_table_def transition_reversing_def

lemmas guard_defs [troia_simps] =
  isObserveOnlyEvent_def ends_with_def containsMutation_def MUTATION_EFFECTS_def
  assertNoMutationOnUnknown_def

section \<open>What an edge of the table promises\<close>

text \<open>Case analysis on a transition: every edge of the table.\<close>

lemma transition_cases:
  assumes "transition s e = Transition s' effs"
  obtains
    (reserve) "s = Reserved" "e \<in> {SolvencyOk, SolvencyFail, SolvencyUnknown}"
  | (charge) "s = SolvencyReserved" "e \<in> {ChargeOk, ChargeRejected, ChargeUnknown, CheckoutInitFailed}"
  | (submitted) "s = UsdcSubmitted"
      "e \<in> {Recover, RecoverResubmit, EvidenceSuccess, EvidenceReverted, EvidencePending}"
  | (pending) "s = UsdcPending" "e \<in> {PollStillPending, PollDead, EvidenceSuccess, EvidenceReverted}"
  | (dead) r where "s = UsdcDead" "e = DeadRetry r"
  | (reverted) "s = UsdcReverted" "e \<in> {RevertAlreadyProcessed, RevertBalanceGuard}"
  | (indeterminate) r where "s = UsdcReverted" "e = RevertIndeterminate r"
  | (confirmed) "s = UsdcConfirmed" "e = ReconciledEv"
  | (reversing) "s = ChargeReversing" "e \<in> {ReversalConfirmed, ReversalUnknown}"
  | (notdone) r where "s = ChargeReversing" "e = ReversalNotDone r"
  using assms by (cases s; cases e; simp add: sm_defs)

lemma observe_only_iff:
  "isObserveOnlyEvent e \<longleftrightarrow> e \<in> {SolvencyUnknown, ChargeUnknown, ReversalUnknown, Recover,
     PollStillPending, EvidencePending}"
  by (cases e) (simp_all add: guard_defs)

text \<open>An uncertain event only ever yields the observe-only effect.\<close>

lemma observe_only_effects:
  assumes "transition s e = Transition s' effs" and "isObserveOnlyEvent e"
  shows "effs = [RePollObserveOnly]"
  by (rule transition_cases [OF assms(1)]) (insert assms, auto simp: observe_only_iff sm_defs)

text \<open>Conversely, the observe-only effect is only ever emitted on an uncertain event.\<close>

lemma repoll_only_on_uncertainty:
  assumes "transition s e = Transition s' effs" and "RePollObserveOnly \<in> set effs"
  shows "isObserveOnlyEvent e"
  by (rule transition_cases [OF assms(1)]) (insert assms, auto simp: observe_only_iff sm_defs split: if_splits)

lemma submit_edge:
  assumes "transition s e = Transition s' effs"
    and "SubmitPay \<in> set effs \<or> SubmitReplacementSameSeq \<in> set effs"
  shows "s' = UsdcSubmitted \<and>
    (s = SolvencyReserved \<and> e = ChargeOk \<or> s \<in> {UsdcSubmitted, UsdcDead, UsdcReverted})"
  by (rule transition_cases [OF assms(1)]) (insert assms, auto simp: sm_defs split: if_splits)

lemma cancel_edge:
  assumes "transition s e = Transition s' effs" and "FireCancel \<in> set effs"
  shows "s' = ChargeReversing \<and>
    (s = UsdcDead \<and> e = DeadRetry False \<or> s = UsdcReverted \<and> e = RevertBalanceGuard
     \<or> s = ChargeReversing \<and> e = ReversalNotDone True)"
  by (rule transition_cases [OF assms(1)]) (insert assms, auto simp: sm_defs split: if_splits)

lemma evidence_edge:
  assumes "transition s e = Transition s' effs"
  shows "HandToReconciler \<in> set effs \<longleftrightarrow> s' = UsdcConfirmed \<and> e = EvidenceSuccess"
  by (rule transition_cases [OF assms(1)]) (insert assms, auto simp: sm_defs split: if_splits)

lemma confirmed_entry:
  assumes "transition s e = Transition UsdcConfirmed effs"
  shows "e = EvidenceSuccess \<and> effs = [HandToReconciler] \<and> s \<in> {UsdcSubmitted, UsdcPending}
    \<or> e = RevertAlreadyProcessed \<and> effs = [] \<and> s = UsdcReverted"
  by (rule transition_cases [OF assms(1)]) (insert assms, auto simp: sm_defs split: if_splits)

section \<open>What a run promises\<close>

text \<open>The states an order is in after its charge was confirmed.\<close>

definition charged_states :: "state list" where
  "charged_states = [UsdcSubmitted, UsdcConfirmed, UsdcPending, UsdcDead, UsdcReverted,
     ChargeReversing, ChargeReversed, Reconciled, LossReview]"

definition submits :: "effect list \<Rightarrow> bool" where
  "submits effs = (SubmitPay \<in> set effs \<or> SubmitReplacementSameSeq \<in> set effs)"

text \<open>The run invariant behind the money-first claims: a charged state has seen \<open>ChargeOk\<close> after
  \<open>SolvencyOk\<close>; any submit effect belongs to a run that has reached a charged state; and a run that
  emitted a submit never returns to a state before the charge.\<close>

definition money_first :: "event list \<Rightarrow> state \<Rightarrow> effect list \<Rightarrow> bool" where
  "money_first es s effs =
     ((s \<in> set charged_states \<longrightarrow> (\<exists>xs ys zs. es = xs @ [SolvencyOk] @ ys @ [ChargeOk] @ zs)) \<and>
      (s = SolvencyReserved \<longrightarrow> SolvencyOk \<in> set es) \<and>
      (submits effs \<longrightarrow> s \<in> set charged_states) \<and>
      (FireCancel \<in> set effs \<longrightarrow> s \<in> {ChargeReversing, ChargeReversed, LossReview}))"

lemma charged_history_mono:
  "\<exists>xs ys zs. es = xs @ [a] @ ys @ [b] @ zs \<Longrightarrow> \<exists>xs ys zs. es @ [e] = xs @ [a] @ ys @ [b] @ zs"
  by (metis append.assoc)

lemma charged_history_intro:
  assumes "a \<in> set es" shows "\<exists>xs ys zs. es @ [b] = xs @ [a] @ ys @ [b] @ zs"
proof -
  from assms obtain xs ys where "es = xs @ a # ys" by (meson split_list)
  then have "es @ [b] = xs @ [a] @ ys @ [b] @ []" by simp
  then show ?thesis by blast
qed

lemma money_first_step:
  assumes inv: "money_first es s effs" and tr: "transition s e = Transition s' new"
  shows "money_first (es @ [e]) s' (effs @ new)"
proof (cases rule: transition_cases [OF tr, case_names reserve charge submitted pending dead
      reverted indeterminate confirmed reversing notdone])
  case charge
  with inv have "SolvencyOk \<in> set es" by (simp add: money_first_def)
  then have "\<exists>xs ys zs. es @ [ChargeOk] = xs @ [SolvencyOk] @ ys @ [ChargeOk] @ zs"
    by (rule charged_history_intro)
  with charge inv tr show ?thesis
    by (auto simp: money_first_def submits_def charged_states_def sm_defs)
qed (insert inv tr, auto simp: money_first_def submits_def charged_states_def sm_defs
    split: if_splits intro: charged_history_mono [unfolded append.simps])

lemma sm_run_money_first: "sm_run es s effs \<Longrightarrow> money_first es s effs"
proof (induction rule: sm_run.induct)
  case sm_start
  show ?case by (simp add: money_first_def initialState_def charged_states_def submits_def)
next
  case (sm_step es s effs e s' new)
  then show ?case by (blast intro: money_first_step)
next
  case (sm_skip es s effs e)
  from sm_skip.IH show ?case
    unfolding money_first_def using charged_history_mono [of es SolvencyOk ChargeOk e] by auto
qed

text \<open>Once the payout is confirmed no run refunds it.\<close>

lemma confirmed_closed:
  assumes "transition s e = Transition s' effs" and "s \<in> {UsdcConfirmed, Reconciled}"
  shows "s' = Reconciled \<and> effs = []"
  by (rule transition_cases [OF assms(1)]) (insert assms, auto simp: sm_defs)

text \<open>The run of the reducer from a given state, as a function of the event list.\<close>

fun sm_feed :: "state \<Rightarrow> event list \<Rightarrow> state \<times> effect list" where
  "sm_feed s [] = (s, [])"
| "sm_feed s (e # es) =
     (case transition s e of
        Transition s' effs \<Rightarrow> (let (s'', rest) = sm_feed s' es in (s'', effs @ rest))
      | _ \<Rightarrow> sm_feed s es)"

lemma sm_feed_settled:
  "s \<in> {UsdcConfirmed, Reconciled} \<Longrightarrow>
   fst (sm_feed s es) \<in> {UsdcConfirmed, Reconciled} \<and> snd (sm_feed s es) = []"
proof (induction es arbitrary: s)
  case Nil
  then show ?case by simp
next
  case (Cons e es)
  show ?case
  proof (cases "transition s e")
    case (Transition s' effs)
    with Cons.prems have "s' = Reconciled" "effs = []" by (blast dest: confirmed_closed)+
    with Cons.IH [of s'] Transition show ?thesis by (auto split: prod.splits)
  next
    case Ignored
    with Cons show ?thesis by auto
  next
    case (Rejected r)
    with Cons show ?thesis by auto
  qed
qed

lemma sm_feed_terminal:
  "isAbsoluteTerminal s \<or> s = LossReview \<Longrightarrow> sm_feed s es = (s, [])"
  by (induction es) (auto simp: transition_def)

section \<open>Properties\<close>

text \<open>C2. Money-first ordering. In every run of the reducer from its initial state, an effect that
  submits a USDC payment (fresh or as a same-sequence replacement) is emitted only after the pool
  reservation succeeded and, after that, the charge was confirmed: the run's event history contains
  \<open>SolvencyOk\<close> and later \<open>ChargeOk\<close>.\<close>

theorem usdc_submitted_only_after_reserve_and_charge:
  assumes "sm_run es s effs" and "submits effs"
  shows "\<exists>xs ys zs. es = xs @ [SolvencyOk] @ ys @ [ChargeOk] @ zs"
  using sm_run_money_first [OF assms(1)] assms(2) by (simp add: money_first_def)

theorem usdc_submitted_only_after_reserve_and_charge_witness:
  "\<exists>xs ys zs. [SolvencyOk, ChargeOk] = xs @ [SolvencyOk] @ ys @ [ChargeOk] @ zs"
proof -
  have "sm_run ([] @ [SolvencyOk]) SolvencyReserved ([FireSolvencyCheck] @ [FireCheckoutForm])"
    by (rule sm_run.sm_step [OF sm_run.sm_start [unfolded initialState_def fst_conv snd_conv]])
      (simp add: sm_defs)
  then have "sm_run (([] @ [SolvencyOk]) @ [ChargeOk]) UsdcSubmitted
      (([FireSolvencyCheck] @ [FireCheckoutForm]) @ [AllocateSeq, PersistInFlight, SubmitPay])"
    by (rule sm_run.sm_step) (simp add: sm_defs)
  from usdc_submitted_only_after_reserve_and_charge [OF this] show ?thesis
    by (simp add: submits_def)
qed

text \<open>Unknown never advances towards an irreversible action. An event the engine classifies as
  observe-only (an \<open>Unknown\<close> outcome, \<open>recover\<close>, a still-pending poll) yields exactly the observe-only
  effect, so the engine's guard \<open>assertNoMutationOnUnknown\<close> never fires on the table; and an
  observe-only effect is emitted on no other event.\<close>

lemma uncertainty_never_mutates:
  assumes "transition s e = Transition s' effs"
  shows "(isObserveOnlyEvent e \<longleftrightarrow> effs = [RePollObserveOnly])
    \<and> assertNoMutationOnUnknown e effs"
proof -
  from assms have "isObserveOnlyEvent e \<longleftrightarrow> effs = [RePollObserveOnly]"
    by (metis observe_only_effects repoll_only_on_uncertainty list.set_intros(1))
  then show ?thesis by (auto simp: guard_defs)
qed

lemma uncertainty_never_mutates_witness:
  "(isObserveOnlyEvent ChargeUnknown \<longleftrightarrow> [RePollObserveOnly] = [RePollObserveOnly])
    \<and> assertNoMutationOnUnknown ChargeUnknown [RePollObserveOnly]"
  by (rule uncertainty_never_mutates [of SolvencyReserved ChargeUnknown SolvencyReserved])
    (simp add: sm_defs)

text \<open>A settled payout is final. From \<open>UsdcConfirmed\<close> or \<open>Reconciled\<close> no sequence of events,
  however long and however redelivered, emits any effect at all: no second payment, no void of the
  customer's charge, no loss flag. In particular no confirmed order is ever refunded.\<close>

lemma settled_order_emits_no_effect:
  assumes "s \<in> {UsdcConfirmed, Reconciled}"
  shows "fst (sm_feed s es) \<in> {UsdcConfirmed, Reconciled} \<and> snd (sm_feed s es) = []"
  using assms by (rule sm_feed_settled)

lemma settled_order_emits_no_effect_witness:
  "fst (sm_feed UsdcConfirmed [EvidenceReverted, ReconciledEv, DeadRetry False])
     \<in> {UsdcConfirmed, Reconciled}
   \<and> snd (sm_feed UsdcConfirmed [EvidenceReverted, ReconciledEv, DeadRetry False]) = []"
  by (rule settled_order_emits_no_effect) simp



text \<open>What the evidence row proves. A transition emits \<open>HandToReconciler\<close>, the only effect that
  writes an evidence row, exactly when it enters \<open>UsdcConfirmed\<close> by \<open>EvidenceSuccess\<close>. The third edge
  into \<open>UsdcConfirmed\<close>, \<open>RevertAlreadyProcessed\<close>, writes no row.\<close>

theorem evidence_row_iff_evidence_success:
  assumes "transition s e = Transition s' effs"
  shows "(HandToReconciler \<in> set effs \<longleftrightarrow> s' = UsdcConfirmed \<and> e = EvidenceSuccess)
    \<and> (s' = UsdcConfirmed \<longrightarrow> e = EvidenceSuccess \<or> e = RevertAlreadyProcessed \<and> effs = [])"
  using evidence_edge [OF assms] confirmed_entry assms by blast

theorem evidence_row_iff_evidence_success_witness:
  "transition UsdcReverted RevertAlreadyProcessed = Transition UsdcConfirmed []
   \<and> HandToReconciler \<notin> set []"
proof -
  have "transition UsdcReverted RevertAlreadyProcessed = Transition UsdcConfirmed []" by (simp add: sm_defs)
  with evidence_row_iff_evidence_success [OF this] show ?thesis by simp
qed

end
