(* ===== verification/Order_Store.thy ===== *)
theory Order_Store
  imports Reservation Evidence Sequence_Allocator State_Machine
begin

text \<open>
  The store of \<^verbatim>\<open>packages/backend/src/store/in-memory-store.ts\<close>: order rows, loss flags, webhook marks, evidence and
  retry counters, beside the reservation ledger and the sequence allocator it owns. The durable evidence log is the
  list of records it holds, and whether a write succeeds is an argument of \<open>appendEvidence\<close>.
\<close>

section \<open>State\<close>

datatype loss_bucket = IndeterminateLoss | ReversalExhausted

record in_flight_patch =
  ip_seq :: "int option"
  ip_paymentId :: "ustring option"
  ip_hashHex :: "ustring option"
  ip_signedXdr :: "ustring option"
  ip_channelPublic :: "ustring option"

record order_row =
  or_state :: state
  or_seq :: "int option"
  or_paymentId :: "ustring option"
  or_hashHex :: "ustring option"
  or_signedXdr :: "ustring option"
  or_channelPublic :: "ustring option"

record loss_row =
  lr_orderId :: ustring
  lr_bucket :: loss_bucket
  lr_usdcTxHash :: "ustring option"
  lr_atMs :: int

record store =
  so_sequences :: seq_alloc
  so_ledger :: reservation_ledger
  so_orders :: "(ustring, order_row) jsmap"
  so_webhooks :: "(ustring, ustring \<times> int) jsmap"
  so_evidence :: "evidence_row list"
  so_losses :: "loss_row list"
  so_lossBuckets :: "(ustring, loss_bucket list) jsmap"
  so_deadRetries :: "(ustring, nat) jsmap"
  so_reversalRetries :: "(ustring, nat) jsmap"
  so_revertOtherRetries :: "(ustring, nat) jsmap"
  so_evidenceLog :: "json list option"

definition newStore :: "int \<Rightarrow> int \<Rightarrow> json list option \<Rightarrow> evidence_row list \<Rightarrow> store" where
  "newStore balanceStroops baseSeq evidenceLog seedEvidence =
     \<lparr> so_sequences = newAllocator None baseSeq, so_ledger = newReservationLedger balanceStroops, so_orders = [],
       so_webhooks = [], so_evidence = seedEvidence, so_losses = [], so_lossBuckets = [], so_deadRetries = [],
       so_reversalRetries = [], so_revertOtherRetries = [], so_evidenceLog = evidenceLog \<rparr>"

section \<open>Operations\<close>

definition store_reserve :: "ustring \<Rightarrow> int \<Rightarrow> int \<Rightarrow> int \<Rightarrow> store \<Rightarrow> reserve_outcome \<times> store" where
  "store_reserve orderId amount ttlMs nowMs s =
     (let (r, l) = reserve orderId amount ttlMs nowMs (so_ledger s) in (r, s\<lparr> so_ledger := l \<rparr>))"

definition releaseReservation :: "ustring \<Rightarrow> store \<Rightarrow> store" where
  "releaseReservation orderId s = s\<lparr> so_ledger := release_reservation orderId (so_ledger s) \<rparr>"

definition creditPool :: "int \<Rightarrow> store \<Rightarrow> (reservation_error + unit) \<times> store" where
  "creditPool stroops s = (let (r, l) = credit stroops (so_ledger s) in (r, s\<lparr> so_ledger := l \<rparr>))"

text \<open>\<open>True\<close> is \<open>'created'\<close>, \<open>False\<close> is \<open>'exists'\<close>.\<close>

definition createIfAbsent :: "ustring \<Rightarrow> store \<Rightarrow> bool \<times> store" where
  "createIfAbsent orderId s =
     (if has_key (so_orders s) orderId then (False, s)
      else (True, s\<lparr> so_orders := AList.update orderId
              \<lparr> or_state = Reserved, or_seq = None, or_paymentId = None, or_hashHex = None, or_signedXdr = None,
                or_channelPublic = None \<rparr> (so_orders s) \<rparr>))"

definition patched :: "'a option \<Rightarrow> 'a option \<Rightarrow> 'a option" where
  "patched new old = (case new of None \<Rightarrow> old | Some v \<Rightarrow> Some v)"

definition persistState :: "ustring \<Rightarrow> state \<Rightarrow> in_flight_patch \<Rightarrow> store \<Rightarrow> store" where
  "persistState orderId next patch s =
     (let row = (case map_of (so_orders s) orderId of
             Some prev \<Rightarrow> prev\<lparr> or_state := next \<rparr>
           | None \<Rightarrow> \<lparr> or_state = next, or_seq = None, or_paymentId = None, or_hashHex = None, or_signedXdr = None,
                        or_channelPublic = None \<rparr>);
          row = row\<lparr> or_seq := patched (ip_seq patch) (or_seq row), or_paymentId := patched (ip_paymentId patch) (or_paymentId row),
             or_hashHex := patched (ip_hashHex patch) (or_hashHex row), or_signedXdr := patched (ip_signedXdr patch) (or_signedXdr row),
             or_channelPublic := patched (ip_channelPublic patch) (or_channelPublic row) \<rparr>
      in s\<lparr> so_orders := AList.update orderId row (so_orders s) \<rparr>)"

definition flagLoss :: "ustring \<Rightarrow> loss_bucket \<Rightarrow> ustring option \<Rightarrow> store \<Rightarrow> store" where
  "flagLoss orderId bucket usdcTxHash s =
     (let buckets = (case map_of (so_lossBuckets s) orderId of None \<Rightarrow> [] | Some bs \<Rightarrow> bs) in
      if bucket \<in> set buckets then s
      else s\<lparr> so_lossBuckets := AList.update orderId (buckets @ [bucket]) (so_lossBuckets s),
              so_losses := so_losses s @ [\<lparr> lr_orderId = orderId, lr_bucket = bucket, lr_usdcTxHash = usdcTxHash, lr_atMs = 0 \<rparr>] \<rparr>)"

definition isLossFlagged :: "store \<Rightarrow> ustring \<Rightarrow> bool" where
  "isLossFlagged s orderId = has_key (so_lossBuckets s) orderId"

text \<open>\<open>True\<close> is \<open>'first'\<close>, \<open>False\<close> is \<open>'duplicate'\<close>.\<close>

definition markWebhookSeen :: "ustring \<Rightarrow> ustring \<Rightarrow> int \<Rightarrow> store \<Rightarrow> bool \<times> store" where
  "markWebhookSeen eventId orderId nowMs s =
     (if has_key (so_webhooks s) eventId then (False, s)
      else (True, s\<lparr> so_webhooks := AList.update eventId (orderId, nowMs) (so_webhooks s) \<rparr>))"

text \<open>Durable first: when the log throws (\<open>Inl ()\<close>) nothing is recorded in memory.\<close>

definition appendEvidence ::
    "bool \<Rightarrow> ustring \<Rightarrow> evidence_record \<Rightarrow> order_facts \<Rightarrow> store \<Rightarrow> (unit + unit) \<times> store" where
  "appendEvidence disk_ok orderId record order s =
     (let row = \<lparr> ew_orderId = orderId, ew_record = record, ew_order = order \<rparr> in
      case so_evidenceLog s of
        Some log \<Rightarrow>
          if disk_ok then (Inr (), s\<lparr> so_evidenceLog := Some (log @ [encodeEvidenceRow row]), so_evidence := so_evidence s @ [row] \<rparr>)
          else (Inl (), s)
      | None \<Rightarrow> (Inr (), s\<lparr> so_evidence := so_evidence s @ [row] \<rparr>))"

definition retry_count :: "(ustring, nat) jsmap \<Rightarrow> ustring \<Rightarrow> nat" where
  "retry_count m orderId = (case map_of m orderId of None \<Rightarrow> 0 | Some n \<Rightarrow> n)"

definition bumpDeadRetries :: "ustring \<Rightarrow> store \<Rightarrow> nat \<times> store" where
  "bumpDeadRetries orderId s =
     (let n = retry_count (so_deadRetries s) orderId + 1 in
      (n, s\<lparr> so_deadRetries := AList.update orderId n (so_deadRetries s) \<rparr>))"

definition bumpReversalRetries :: "ustring \<Rightarrow> store \<Rightarrow> nat \<times> store" where
  "bumpReversalRetries orderId s =
     (let n = retry_count (so_reversalRetries s) orderId + 1 in
      (n, s\<lparr> so_reversalRetries := AList.update orderId n (so_reversalRetries s) \<rparr>))"

definition bumpRevertOtherRetries :: "ustring \<Rightarrow> store \<Rightarrow> nat \<times> store" where
  "bumpRevertOtherRetries orderId s =
     (let n = retry_count (so_revertOtherRetries s) orderId + 1 in
      (n, s\<lparr> so_revertOtherRetries := AList.update orderId n (so_revertOtherRetries s) \<rparr>))"

definition availableStroops :: "store \<Rightarrow> int" where
  "availableStroops s = available (so_ledger s)"

fun confirmed_loop :: "(ustring, order_facts) jsmap \<Rightarrow> evidence_row list \<Rightarrow> (ustring, order_facts) jsmap" where
  "confirmed_loop byOrder [] = byOrder"
| "confirmed_loop byOrder (row # rows) =
     confirmed_loop (if has_key byOrder (ew_orderId row) then byOrder
                     else AList.update (ew_orderId row) (ew_order row) byOrder) rows"

definition confirmedOrders :: "store \<Rightarrow> (ustring \<times> order_facts) list" where
  "confirmedOrders s = confirmed_loop [] (so_evidence s)"

definition settledEvidence :: "store \<Rightarrow> ustring \<Rightarrow> evidence_row option" where
  "settledEvidence s orderId = find (\<lambda>r. ew_orderId r = orderId) (so_evidence s)"

section \<open>Invariant\<close>

text \<open>The loss rows are one per order and bucket and agree with the latch; every evidence row in memory is a record
  of the durable log, in order; the pool is covered and the sequences are consistent.\<close>

definition loss_keys :: "store \<Rightarrow> (ustring \<times> loss_bucket) list" where
  "loss_keys s = map (\<lambda>r. (lr_orderId r, lr_bucket r)) (so_losses s)"

definition flagged :: "store \<Rightarrow> (ustring \<times> loss_bucket) set" where
  "flagged s = {(ord, b). \<exists>bs. map_of (so_lossBuckets s) ord = Some bs \<and> b \<in> set bs}"

definition loss_inv :: "store \<Rightarrow> bool" where
  "loss_inv s \<longleftrightarrow> distinct (loss_keys s) \<and> set (loss_keys s) = flagged s
     \<and> (\<forall>ord bs. map_of (so_lossBuckets s) ord = Some bs \<longrightarrow> bs \<noteq> [])"

definition log_inv :: "store \<Rightarrow> bool" where
  "log_inv s \<longleftrightarrow> (case so_evidenceLog s of None \<Rightarrow> True | Some log \<Rightarrow> log = map encodeEvidenceRow (so_evidence s))"

definition store_inv :: "store \<Rightarrow> bool" where
  "store_inv s \<longleftrightarrow> alloc_inv (so_sequences s) \<and> ledger_good (so_ledger s) \<and> loss_inv s \<and> log_inv s"

text \<open>The mutating calls, for statements about histories.\<close>

datatype store_op =
    SoReserve ustring int int int
  | SoRelease ustring
  | SoCredit int
  | SoCreate ustring
  | SoPersist ustring state in_flight_patch
  | SoFlag ustring loss_bucket "ustring option"
  | SoWebhook ustring ustring int
  | SoEvidence bool ustring evidence_record order_facts
  | SoBumpDead ustring
  | SoBumpReversal ustring
  | SoBumpRevert ustring
  | SoSequence seq_op

fun store_step :: "(ustring \<Rightarrow> ustring) \<Rightarrow> store_op \<Rightarrow> store \<Rightarrow> store" where
  "store_step nfc (SoReserve ord a t n) s = snd (store_reserve ord a t n s)"
| "store_step nfc (SoRelease ord) s = releaseReservation ord s"
| "store_step nfc (SoCredit a) s = snd (creditPool a s)"
| "store_step nfc (SoCreate ord) s = snd (createIfAbsent ord s)"
| "store_step nfc (SoPersist ord st p) s = persistState ord st p s"
| "store_step nfc (SoFlag ord b h) s = flagLoss ord b h s"
| "store_step nfc (SoWebhook e ord n) s = snd (markWebhookSeen e ord n s)"
| "store_step nfc (SoEvidence ok ord r f) s = snd (appendEvidence ok ord r f s)"
| "store_step nfc (SoBumpDead ord) s = snd (bumpDeadRetries ord s)"
| "store_step nfc (SoBumpReversal ord) s = snd (bumpReversalRetries ord s)"
| "store_step nfc (SoBumpRevert ord) s = snd (bumpRevertOtherRetries ord s)"
| "store_step nfc (SoSequence op) s = s\<lparr> so_sequences := alloc_step nfc op (so_sequences s) \<rparr>"

definition fair_op :: "store_op \<Rightarrow> bool" where
  "fair_op op = (case op of SoReserve ord a t n \<Rightarrow> 0 \<le> a | _ \<Rightarrow> True)"

lemmas store_defs = store_reserve_def releaseReservation_def creditPool_def createIfAbsent_def persistState_def
  markWebhookSeen_def appendEvidence_def bumpDeadRetries_def bumpReversalRetries_def bumpRevertOtherRetries_def Let_def

section \<open>Lemmas\<close>

lemma flagLoss_inv:
  assumes "loss_inv s"
  shows "loss_inv (flagLoss ord b h s)"
proof (cases "b \<in> set (case map_of (so_lossBuckets s) ord of None \<Rightarrow> [] | Some bs \<Rightarrow> bs)")
  case True
  with assms show ?thesis by (simp add: flagLoss_def)
next
  case False
  let ?s = "flagLoss ord b h s"
  from False have keys: "loss_keys ?s = loss_keys s @ [(ord, b)]"
    by (simp add: flagLoss_def loss_keys_def)
  have fl: "flagged ?s = insert (ord, b) (flagged s)"
    using False by (auto simp: flagLoss_def flagged_def split: option.splits if_splits)
  have "(ord, b) \<notin> flagged s" using False by (auto simp: flagged_def split: option.splits)
  moreover have "\<forall>o' bs. map_of (so_lossBuckets ?s) o' = Some bs \<longrightarrow> bs \<noteq> []"
    using assms False by (auto simp: flagLoss_def loss_inv_def)
  ultimately show ?thesis using assms keys fl by (auto simp: loss_inv_def)
qed

lemma flagLoss_flags [simp]: "isLossFlagged (flagLoss ord b h s) ord"
  by (cases "map_of (so_lossBuckets s) ord") (simp_all add: flagLoss_def isLossFlagged_def has_key_def)

lemma flagLoss_frame [simp]:
  "so_sequences (flagLoss ord b h s) = so_sequences s" "so_ledger (flagLoss ord b h s) = so_ledger s"
  "so_evidence (flagLoss ord b h s) = so_evidence s" "so_evidenceLog (flagLoss ord b h s) = so_evidenceLog s"
  "so_orders (flagLoss ord b h s) = so_orders s" "so_reversalRetries (flagLoss ord b h s) = so_reversalRetries s"
  "so_revertOtherRetries (flagLoss ord b h s) = so_revertOtherRetries s"
  "so_deadRetries (flagLoss ord b h s) = so_deadRetries s"
  by (simp_all add: flagLoss_def Let_def)

lemma loss_inv_cong:
  "so_losses s' = so_losses s \<Longrightarrow> so_lossBuckets s' = so_lossBuckets s \<Longrightarrow> loss_inv s' = loss_inv s"
  by (simp add: loss_inv_def loss_keys_def flagged_def)

lemma log_inv_cong:
  "so_evidence s' = so_evidence s \<Longrightarrow> so_evidenceLog s' = so_evidenceLog s \<Longrightarrow> log_inv s' = log_inv s"
  unfolding log_inv_def by (cases "so_evidenceLog s") simp_all

lemma appendEvidence_inv: "log_inv s \<Longrightarrow> log_inv (snd (appendEvidence ok ord r f s))"
  by (auto simp: log_inv_def appendEvidence_def Let_def split: option.splits)

lemma store_inv_cong:
  assumes "so_losses s' = so_losses s" "so_lossBuckets s' = so_lossBuckets s" "so_evidence s' = so_evidence s"
    "so_evidenceLog s' = so_evidenceLog s" "alloc_inv (so_sequences s')" "ledger_good (so_ledger s')" "store_inv s"
  shows "store_inv s'"
  using assms loss_inv_cong [of s' s] log_inv_cong [of s' s] by (simp add: store_inv_def)

lemma store_step_inv:
  assumes inv: "store_inv s" and fair: "fair_op op"
  shows "store_inv (store_step nfc op s)"
proof -
  have seq: "alloc_inv (so_sequences s)" and led: "ledger_good (so_ledger s)" and loss: "loss_inv s" and log: "log_inv s"
    using inv by (simp_all add: store_inv_def)
  show ?thesis
  proof (cases op)
    case (SoFlag ord b h)
    with seq led flagLoss_inv [OF loss] log log_inv_cong [of "flagLoss ord b h s" s] show ?thesis
      by (simp add: store_inv_def)
  next
    case (SoEvidence ok ord r f)
    have "so_losses (snd (appendEvidence ok ord r f s)) = so_losses s"
      "so_lossBuckets (snd (appendEvidence ok ord r f s)) = so_lossBuckets s"
      "so_sequences (snd (appendEvidence ok ord r f s)) = so_sequences s"
      "so_ledger (snd (appendEvidence ok ord r f s)) = so_ledger s"
      by (simp_all add: appendEvidence_def Let_def split: option.splits)
    with SoEvidence seq led loss appendEvidence_inv [OF log] loss_inv_cong [of "snd (appendEvidence ok ord r f s)" s]
    show ?thesis by (simp add: store_inv_def)
  next
    case (SoReserve ord a t n)
    with reserve_good [OF led, of a ord t n] fair seq inv show ?thesis
      by (auto simp: store_defs fair_op_def split_beta intro: store_inv_cong)
  next
    case (SoRelease ord)
    with release_good [OF led] seq inv show ?thesis by (auto simp: store_defs intro: store_inv_cong)
  next
    case (SoCredit a)
    with credit_good [OF led] seq inv show ?thesis by (auto simp: store_defs split_beta intro: store_inv_cong)
  next
    case (SoSequence sop)
    with alloc_step_inv [OF seq] led inv show ?thesis by (auto intro: store_inv_cong)
  qed (use seq led inv in \<open>auto simp: store_defs intro: store_inv_cong\<close>)
qed

lemma newStore_inv: "0 \<le> balance \<Longrightarrow> store_inv (newStore balance base (Some (map encodeEvidenceRow seed)) seed)"
  by (simp add: store_inv_def newStore_def newAllocator_inv newReservationLedger_good loss_inv_def loss_keys_def
      flagged_def log_inv_def)

lemma store_run_inv: "store_inv s \<Longrightarrow> list_all fair_op ops \<Longrightarrow> store_inv (fold (store_step nfc) ops s)"
  by (induction ops arbitrary: s) (simp_all add: store_step_inv)

lemma confirmed_loop_keys:
  "distinct (map fst byOrder) \<Longrightarrow> distinct (map fst (confirmed_loop byOrder rows))
     \<and> fst ` set (confirmed_loop byOrder rows) = fst ` set byOrder \<union> ew_orderId ` set rows"
proof (induction rows arbitrary: byOrder)
  case (Cons row rows)
  show ?case
  proof (cases "has_key byOrder (ew_orderId row)")
    case True
    with Cons show ?thesis by (auto simp: has_key_iff)
  next
    case False
    then have "AList.update (ew_orderId row) (ew_order row) byOrder = byOrder @ [(ew_orderId row, ew_order row)]"
      by (simp add: has_key_iff update_absent)
    with Cons False show ?thesis by (auto simp: has_key_iff)
  qed
qed simp

lemma confirmed_loop_value:
  "map_of (confirmed_loop byOrder rows) ord =
     (case map_of byOrder ord of Some f \<Rightarrow> Some f
      | None \<Rightarrow> map_option ew_order (find (\<lambda>r. ew_orderId r = ord) rows))"
  by (induction rows arbitrary: byOrder) (auto simp: has_key_def split: option.splits)

lemma confirmedOrders_keys:
  "distinct (map fst (confirmedOrders s)) \<and> set (map fst (confirmedOrders s)) = ew_orderId ` set (so_evidence s)"
  using confirmed_loop_keys [of "[]" "so_evidence s"] by (simp add: confirmedOrders_def)

lemma confirmedOrders_value: "map_of (confirmedOrders s) ord = map_option ew_order (settledEvidence s ord)"
  by (simp add: confirmedOrders_def settledEvidence_def confirmed_loop_value)

section \<open>Properties\<close>



text \<open>A restart forgets no settled order. After any history from a fresh store, the durable log decodes to exactly
  the rows the store holds, and a store seeded from the deduplicated rows answers for every order with the same
  evidence row and the same entry of the work-list, for rows the engine writes (no text is empty, no amount is negative, no hash holds a space).\<close>

lemma evidence_survives_restart:
  fixes nfc :: "ustring \<Rightarrow> ustring" and base :: int
  assumes "0 \<le> balance" and "list_all fair_op ops"
  defines "s \<equiv> fold (store_step nfc) ops (newStore balance base (Some []) [])"
  assumes rows: "list_all storable_row (so_evidence s)"
    and hashes: "\<forall>r \<in> set (so_evidence s). SPACE \<notin> set (er_txHash (ew_record r))"
  shows "\<exists>log. so_evidenceLog s = Some log \<and> decode_all decodeEvidenceRow (map Some log) = Inr (so_evidence s)
    \<and> settledEvidence (newStore balance' base' (Some log) (dedupeEvidence (so_evidence s))) = settledEvidence s
    \<and> map_of (confirmedOrders (newStore balance' base' (Some log) (dedupeEvidence (so_evidence s))))
      = map_of (confirmedOrders s)"
proof -
  have "store_inv s"
    unfolding s_def by (rule store_run_inv) (use newStore_inv [OF assms(1), of base "[]"] assms(2) in simp_all)
  moreover have "so_evidenceLog s \<noteq> None"
  proof -
    have "so_evidenceLog (store_step nfc op t) \<noteq> None" if "so_evidenceLog t \<noteq> None" for op t
      using that by (cases op) (auto simp: store_defs split: option.splits prod.splits)
    then have "so_evidenceLog t \<noteq> None \<Longrightarrow> so_evidenceLog (fold (store_step nfc) ops t) \<noteq> None" for t
      by (induction ops arbitrary: t) simp_all
    then show ?thesis by (simp add: s_def newStore_def)
  qed
  ultimately have log: "so_evidenceLog s = Some (map encodeEvidenceRow (so_evidence s))"
    by (auto simp: store_inv_def log_inv_def)
  have "decode_all decodeEvidenceRow (map Some (map encodeEvidenceRow (so_evidence s))) = Inr (so_evidence s)"
    using decode_all_map [OF evidence_codec.replay_all [OF rows]] by (simp add: comp_def)
  moreover have settled: "settledEvidence (newStore balance' base' l (dedupeEvidence (so_evidence s))) = settledEvidence s" for l
    using dedupe_find [OF hashes] by (simp add: settledEvidence_def newStore_def fun_eq_iff)
  moreover have "map_of (confirmedOrders (newStore balance' base' l (dedupeEvidence (so_evidence s)))) = map_of (confirmedOrders s)" for l
    by (rule ext) (simp add: confirmedOrders_value settled)
  ultimately show ?thesis using log by blast
qed

definition demo_row_ops :: "store_op list" where
  "demo_row_ops = (let rec = \<lparr> er_txHash = lit ''f0'', er_signedXdr = lit ''AA'', er_seq = lit ''7'', er_witnessedAtUnix = 5 \<rparr>;
        facts = \<lparr> of_destination = lit ''G'', of_amountStroops = 3, of_memoHex = lit ''0a'', of_appliedRateStroops = 2,
                  of_paidPriceTry = lit ''1.00'', of_spreadKurus = 1, of_feeKurus = 0 \<rparr>
      in [SoEvidence True (lit ''a'') rec facts, SoEvidence True (lit ''a'') rec facts])"

lemma demo_row_evidence:
  "\<exists>r. so_evidence (fold (store_step (\<lambda>u. u)) demo_row_ops (newStore 9 0 (Some []) [])) = [r, r]
     \<and> storable_row r \<and> SPACE \<notin> set (er_txHash (ew_record r)) \<and> ew_orderId r = lit ''a''"
  by (simp add: demo_row_ops_def Let_def newStore_def appendEvidence_def storable_row_def is_safe_int_def SPACE_def lit_def)

lemma evidence_survives_restart_witness:
  "\<exists>log row. so_evidenceLog (fold (store_step (\<lambda>u. u)) demo_row_ops (newStore 9 0 (Some []) [])) = Some log
     \<and> settledEvidence (newStore 1 1 (Some log)
          (dedupeEvidence (so_evidence (fold (store_step (\<lambda>u. u)) demo_row_ops (newStore 9 0 (Some []) []))))) (lit ''a'') = Some row"
proof -
  let ?s = "fold (store_step (\<lambda>u. u)) demo_row_ops (newStore 9 0 (Some []) [])"
  obtain r where r: "so_evidence ?s = [r, r]" "storable_row r" "SPACE \<notin> set (er_txHash (ew_record r))" "ew_orderId r = lit ''a''"
    using demo_row_evidence by blast
  have fair: "list_all fair_op demo_row_ops" by (simp add: demo_row_ops_def Let_def fair_op_def)
  have "settledEvidence ?s (lit ''a'') = Some r" using r by (simp add: settledEvidence_def)
  then show ?thesis
    using evidence_survives_restart [OF _ fair, of 9 "\<lambda>u. u" 0 1 1] r by auto
qed

end
