(* ===== verification/Stellar_Client.thy ===== *)
theory Stellar_Client
  imports State_Machine Payout_Intent
begin

text \<open>
  The chain client, \<^verbatim>\<open>packages/stellar-client/src\<close>: the normalised outcomes, the deadness table, the
  submit-poll reducer, the conductor (\<open>submitPay\<close>, \<open>resendPersisted\<close>, \<open>observe\<close>), the write-ahead journal
  and the destination snapshot. Building, simulating, assembling, hashing and signing a transaction are
  the Stellar SDK: the record \<open>tx_tools\<close> holds them as functions that may fail. The chain the reads come
  from is the record \<open>chain\<close>; its laws are Stellar's rules for sequence numbers and time bounds.
\<close>

section \<open>Outcomes, outcomes.ts\<close>

datatype send_outcome = SendPending ustring | SendDuplicate ustring | SendTryAgain | SendBadSeq | SendError ustring
datatype get_tx_outcome = TxSuccess int | TxNotFound int | TxFailed bool
datatype poll_outcome = Sent send_outcome | Got get_tx_outcome | TimedOut

datatype deadness = DeadConfirmed | SafeToReplace | DeadWait | DeadLossReview

datatype poll_verdict = LandedSuccess | LandedReverted | StillPending | DeadReplaceable | IndeterminateLossReview

record account_seq_read =
  sr_exists :: bool
  sr_value :: int

record ledger_head =
  lh_sequence :: int
  lh_closeTimeUnix :: int

section \<open>Deadness, deadness.ts\<close>

record deadness_inputs =
  dn_accountSeq :: int
  dn_ourSeq :: int
  dn_timeboundsExpired :: bool
  dn_hashSuccess :: bool
  dn_seqKnown :: bool

definition resolveDeadness :: "deadness_inputs \<Rightarrow> deadness" where
  "resolveDeadness i =
     (if dn_hashSuccess i then DeadConfirmed
      else if \<not> dn_seqKnown i then DeadLossReview
      else if dn_accountSeq i \<ge> dn_ourSeq i then DeadLossReview
      else if dn_timeboundsExpired i then SafeToReplace
      else DeadWait)"

fun deadnessToVerdict :: "deadness \<Rightarrow> poll_verdict" where
  "deadnessToVerdict DeadConfirmed = LandedSuccess"
| "deadnessToVerdict SafeToReplace = DeadReplaceable"
| "deadnessToVerdict DeadWait = StillPending"
| "deadnessToVerdict DeadLossReview = IndeterminateLossReview"

section \<open>The reducer, submit-reducer.ts\<close>

datatype reducer_phase = Submitting | Polling | PhaseDone

record reducer_state =
  rs_phase :: reducer_phase
  rs_hashHex :: ustring
  rs_ourSeq :: int
  rs_maxTime :: int
  rs_sourcePublic :: "ustring option"

datatype reducer_action = ActNone | ActPoll | ActResendPersisted | ActResolveDeadness | ActConfirmBurned

record step_result =
  st_next :: reducer_state
  st_action :: reducer_action
  st_verdict :: "poll_verdict option"

definition step :: "reducer_state \<Rightarrow> poll_outcome \<Rightarrow> step_result" where
  "step s out =
     (let res = (\<lambda>phase action verdict.
          \<lparr> st_next = s\<lparr> rs_phase := phase \<rparr>, st_action = action, st_verdict = verdict \<rparr>) in
      case out of
        Sent (SendPending _) \<Rightarrow> res Polling ActPoll None
      | Sent (SendDuplicate _) \<Rightarrow> res Polling ActPoll None
      | Sent SendTryAgain \<Rightarrow> res Submitting ActResendPersisted None
      | Sent SendBadSeq \<Rightarrow> res Polling ActResolveDeadness None
      | Sent (SendError _) \<Rightarrow> res Polling ActResolveDeadness None
      | Got (TxSuccess _) \<Rightarrow> res PhaseDone ActNone (Some LandedSuccess)
      | Got (TxFailed badSeq) \<Rightarrow>
          if badSeq then res Polling ActResolveDeadness None
          else res PhaseDone ActConfirmBurned (Some LandedReverted)
      | Got (TxNotFound closeTime) \<Rightarrow>
          if rs_maxTime s > 0 \<and> closeTime > rs_maxTime s then res Polling ActResolveDeadness None
          else res Polling ActPoll (Some StillPending)
      | TimedOut \<Rightarrow> res Polling ActResolveDeadness None)"

datatype core_mapping = CoreEvent event | CoreEscalate

definition verdictToCore :: "poll_verdict \<Rightarrow> state \<Rightarrow> core_mapping" where
  "verdictToCore verdict coreState =
     (case verdict of
        LandedSuccess \<Rightarrow> CoreEvent EvidenceSuccess
      | LandedReverted \<Rightarrow> CoreEvent EvidenceReverted
      | StillPending \<Rightarrow> CoreEvent (if coreState = UsdcSubmitted then EvidencePending else PollStillPending)
      | DeadReplaceable \<Rightarrow> CoreEvent (if coreState = UsdcSubmitted then EvidencePending else PollDead)
      | IndeterminateLossReview \<Rightarrow> CoreEscalate)"

section \<open>The conductor, client.ts\<close>

record observe_result =
  ob_next :: reducer_state
  ob_action :: reducer_action
  ob_verdict :: "poll_verdict option"
  ob_deadness :: "deadness option"

text \<open>The three reads of one \<open>observe\<close>: the transaction, the account sequence (of the given account) and
  the ledger head.\<close>

record rpc_reads =
  rr_getTransaction :: "ustring \<Rightarrow> get_tx_outcome"
  rr_readAccountSeq :: "ustring \<Rightarrow> account_seq_read"
  rr_latestLedger :: ledger_head

definition observe :: "ustring \<Rightarrow> rpc_reads \<Rightarrow> reducer_state \<Rightarrow> observe_result" where
  "observe operatorPublic rpc s =
     (let outcome = rr_getTransaction rpc (rs_hashHex s);
          r = step s (Got outcome) in
      if st_action r \<noteq> ActResolveDeadness
      then \<lparr> ob_next = st_next r, ob_action = st_action r, ob_verdict = st_verdict r, ob_deadness = None \<rparr>
      else
        let seqRead = rr_readAccountSeq rpc (case rs_sourcePublic s of None \<Rightarrow> operatorPublic | Some p \<Rightarrow> p);
            head = rr_latestLedger rpc;
            expired = (rs_maxTime s > 0 \<and> lh_closeTimeUnix head > rs_maxTime s);
            hashSuccess = (case outcome of TxSuccess _ \<Rightarrow> True | _ \<Rightarrow> False);
            deadness = resolveDeadness \<lparr> dn_accountSeq = (if sr_exists seqRead then sr_value seqRead else 0),
              dn_ourSeq = rs_ourSeq s, dn_timeboundsExpired = expired, dn_hashSuccess = hashSuccess,
              dn_seqKnown = sr_exists seqRead \<rparr>
        in \<lparr> ob_next = st_next r, ob_action = st_action r, ob_verdict = Some (deadnessToVerdict deadness),
             ob_deadness = Some deadness \<rparr>)"

text \<open>What the SDK does with a transaction: \<open>None\<close> when it throws. \<open>'t\<close> is an unsubmitted transaction.\<close>

record 't tx_tools =
  tt_build :: "'t option"
  tt_simulate :: "'t \<Rightarrow> 't option"
  tt_assemble :: "'t \<Rightarrow> 't option"
  tt_assembleWithSignedAuth :: "'t \<Rightarrow> int \<Rightarrow> 't option"
  tt_hash :: "'t \<Rightarrow> ustring"
  tt_sequence :: "'t \<Rightarrow> ustring"
  tt_sign :: "ustring \<Rightarrow> 't \<Rightarrow> ustring option"

record pay_ports =
  pp_operator :: ustring
  pp_channelSigners :: "ustring list"
  pp_canSignAuth :: bool
  pp_head :: ledger_head

definition AUTH_VALIDITY_LEDGERS :: int where "AUTH_VALIDITY_LEDGERS = 120"

datatype submit_error = ToolFailed | NoChannelSigner | CannotSignAuth | NoPersistedEnvelope

record envelope =
  ev_hashHex :: ustring
  ev_signedXdr :: ustring

type_synonym wal = "(ustring, envelope) jsmap"

text \<open>\<open>InMemoryJournal\<close>.\<close>

definition persistPreSubmit :: "ustring \<Rightarrow> ustring \<Rightarrow> ustring \<Rightarrow> ustring \<Rightarrow> wal \<Rightarrow> wal" where
  "persistPreSubmit orderId seq hashHex signedXdr j =
     AList.update orderId \<lparr> ev_hashHex = hashHex, ev_signedXdr = signedXdr \<rparr> j"

definition loadPersisted :: "ustring \<Rightarrow> wal \<Rightarrow> envelope option" where
  "loadPersisted orderId j = map_of j orderId"

record submit_result =
  su_hashHex :: ustring
  su_signedXdr :: ustring
  su_seq :: ustring
  su_outcome :: send_outcome

text \<open>The calls that leave the process, in order, and the journal at the moment of each send.\<close>

datatype wire_call = WirePersist ustring envelope | WireSend ustring

definition opt_or :: "'e \<Rightarrow> 'a option \<Rightarrow> 'e + 'a" where
  "opt_or e m = (case m of None \<Rightarrow> Inl e | Some x \<Rightarrow> Inr x)"

text \<open>Build, simulate, assemble and sign, in both modes; nothing is journalled or sent yet. The account
  that signs the envelope comes back with the transaction.\<close>

definition prepare_pay :: "'t tx_tools \<Rightarrow> pay_ports \<Rightarrow> ustring option \<Rightarrow> submit_error + ('t \<times> ustring)" where
  "prepare_pay T P sourcePublic =
     (let channelPublic = (case sourcePublic of None \<Rightarrow> None | Some p \<Rightarrow> if p \<noteq> pp_operator P then Some p else None) in
      bindR (opt_or ToolFailed (tt_build T)) (\<lambda>unprepared.
      bindR (opt_or ToolFailed (tt_simulate T unprepared)) (\<lambda>sim.
      case channelPublic of
        None \<Rightarrow> bindR (opt_or ToolFailed (tt_assemble T sim)) (\<lambda>tx. Inr (tx, pp_operator P))
      | Some ch \<Rightarrow>
          if ch \<notin> set (pp_channelSigners P) then Inl NoChannelSigner
          else if \<not> pp_canSignAuth P then Inl CannotSignAuth
          else bindR (opt_or ToolFailed (tt_assembleWithSignedAuth T sim (lh_sequence (pp_head P) + AUTH_VALIDITY_LEDGERS)))
                 (\<lambda>tx. Inr (tx, ch)))))"

definition submitPay ::
    "'t tx_tools \<Rightarrow> pay_ports \<Rightarrow> (ustring \<Rightarrow> send_outcome) \<Rightarrow> ustring \<Rightarrow> ustring option \<Rightarrow> wal
     \<Rightarrow> (submit_error + submit_result) \<times> wal \<times> wire_call list" where
  "submitPay T P send orderId sourcePublic j =
     (case prepare_pay T P sourcePublic of
        Inl e \<Rightarrow> (Inl e, j, [])
      | Inr (tx, signer) \<Rightarrow>
          (case tt_sign T signer tx of
             None \<Rightarrow> (Inl ToolFailed, j, [])
           | Some signedXdr \<Rightarrow>
               let hashHex = tt_hash T tx;
                   j = persistPreSubmit orderId (tt_sequence T tx) hashHex signedXdr j;
                   outcome = send signedXdr
               in (Inr \<lparr> su_hashHex = hashHex, su_signedXdr = signedXdr, su_seq = tt_sequence T tx, su_outcome = outcome \<rparr>, j,
                   [WirePersist orderId \<lparr> ev_hashHex = hashHex, ev_signedXdr = signedXdr \<rparr>, WireSend signedXdr])))"

definition resendPersisted ::
    "(ustring \<Rightarrow> send_outcome) \<Rightarrow> ustring \<Rightarrow> wal \<Rightarrow> (submit_error + send_outcome) \<times> wal \<times> wire_call list" where
  "resendPersisted send orderId j =
     (case loadPersisted orderId j of
        None \<Rightarrow> (Inl NoPersistedEnvelope, j, [])
      | Some e \<Rightarrow> (Inr (send (ev_signedXdr e)), j, [WireSend (ev_signedXdr e)]))"

section \<open>Destination snapshot, account-snapshot.ts\<close>

record balance_line =
  bl_asset_type :: ustring
  bl_asset_code :: "ustring option"
  bl_asset_issuer :: "ustring option"

record account_json =
  aj_balances :: "balance_line list"
  aj_data :: "(ustring \<times> ustring) list option"

definition CREDIT_ASSET_TYPES :: "ustring list" where
  "CREDIT_ASSET_TYPES = [lit ''credit_alphanum4'', lit ''credit_alphanum12'']"

definition trustline_of :: "balance_line \<Rightarrow> trustline option" where
  "trustline_of b =
     (if bl_asset_type b \<in> set CREDIT_ASSET_TYPES
      then (case (bl_asset_code b, bl_asset_issuer b) of
              (Some c, Some i) \<Rightarrow> Some \<lparr> tl_assetCode = c, tl_assetIssuer = i \<rparr>
            | _ \<Rightarrow> None)
      else None)"

definition toAccountSnapshot :: "account_json option \<Rightarrow> account_snapshot" where
  "toAccountSnapshot json =
     (case json of
        None \<Rightarrow> \<lparr> as_exists = False, as_trustlines = [], as_memoRequired = Some False \<rparr>
      | Some a \<Rightarrow> \<lparr> as_exists = True, as_trustlines = List.map_filter trustline_of (aj_balances a),
          as_memoRequired = Some (case aj_data a of None \<Rightarrow> False | Some d \<Rightarrow> has_key d (lit ''config.memo_required'')) \<rparr>)"

section \<open>The chain the reads come from\<close>

text \<open>Ledgers in order: their close times, the source account's sequence after each, and the ledger that
  included our transaction, if one ever does.\<close>

record chain =
  ch_close :: "nat \<Rightarrow> int"
  ch_seq :: "nat \<Rightarrow> int"
  ch_included :: "nat option"

text \<open>Stellar's rules for a transaction with sequence \<open>ourSeq\<close> and upper time bound \<open>maxTime\<close>: close times
  and account sequences never decrease; a ledger that includes it closed no later than \<open>maxTime\<close> and
  consumed the sequence number.\<close>

definition chain_ok :: "chain \<Rightarrow> int \<Rightarrow> int \<Rightarrow> bool" where
  "chain_ok c ourSeq maxTime =
     (mono (ch_close c) \<and> mono (ch_seq c)
      \<and> (case ch_included c of None \<Rightarrow> True | Some i \<Rightarrow> ch_close c i \<le> maxTime \<and> ourSeq \<le> ch_seq c i))"

text \<open>The reads of one \<open>observe\<close> at that chain: the transaction lookup at ledger \<open>g\<close>, the sequence read at a
  later or the same ledger \<open>a\<close> (an existing account is read exactly), the head at any ledger. A lookup may miss an
  old inclusion (the node forgets), but it never invents one.\<close>

definition reads_at :: "chain \<Rightarrow> ustring \<Rightarrow> ustring \<Rightarrow> rpc_reads \<Rightarrow> nat \<Rightarrow> nat \<Rightarrow> nat \<Rightarrow> bool" where
  "reads_at c hash source rpc g a h =
     (g \<le> a \<and> lh_closeTimeUnix (rr_latestLedger rpc) = ch_close c h
      \<and> (sr_exists (rr_readAccountSeq rpc source) \<longrightarrow> sr_value (rr_readAccountSeq rpc source) = ch_seq c a)
      \<and> (case rr_getTransaction rpc hash of
           TxNotFound t \<Rightarrow> t = ch_close c g
         | _ \<Rightarrow> (\<exists>i \<le> g. ch_included c = Some i)))"

definition source_of :: "ustring \<Rightarrow> reducer_state \<Rightarrow> ustring" where
  "source_of operatorPublic s = (case rs_sourcePublic s of None \<Rightarrow> operatorPublic | Some p \<Rightarrow> p)"

section \<open>Properties\<close>

text \<open>C13. A payment declared dead can never land. If the reads of one \<open>observe\<close> come from a chain that obeys
  Stellar's rules, the transaction is looked up no later than the account sequence is read, and the verdict is
  \<open>DeadReplaceable\<close>, then the transaction is in no ledger of that chain, past or future. So retrying it with the
  same sequence, or voiding the charge, cannot pay twice.\<close>

theorem dead_verdict_means_never_included:
  assumes ok: "chain_ok c (rs_ourSeq s) (rs_maxTime s)"
    and reads: "reads_at c (rs_hashHex s) (source_of operatorPublic s) rpc g a h"
    and dead: "ob_verdict (observe operatorPublic rpc s) = Some DeadReplaceable"
  shows "ch_included c = None"
proof (rule ccontr)
  assume "ch_included c \<noteq> None"
  then obtain i where i: "ch_included c = Some i" by blast
  with ok have close: "ch_close c i \<le> rs_maxTime s" and seq: "rs_ourSeq s \<le> ch_seq c i"
    and mono: "mono (ch_close c)" "mono (ch_seq c)" by (simp_all add: chain_ok_def)
  let ?read = "rr_readAccountSeq rpc (source_of operatorPublic s)"
  from dead have burned: "sr_exists ?read" "sr_value ?read < rs_ourSeq s"
    and expired: "(\<exists>b. rr_getTransaction rpc (rs_hashHex s) = TxFailed b)
      \<or> (\<exists>t. rr_getTransaction rpc (rs_hashHex s) = TxNotFound t \<and> rs_maxTime s < t)"
    by (auto simp: observe_def step_def resolveDeadness_def source_of_def Let_def
        split: get_tx_outcome.splits if_splits)
  from reads burned have low: "ch_seq c a < rs_ourSeq s" and ga: "g \<le> a" by (simp_all add: reads_at_def)
  have "i \<le> g"
  proof (rule ccontr)
    assume "\<not> i \<le> g"
    then have gi: "ch_close c g \<le> ch_close c i" using mono(1) by (simp add: monoD)
    from expired reads i \<open>\<not> i \<le> g\<close> have "rs_maxTime s < ch_close c g" by (auto simp: reads_at_def)
    with gi close show False by simp
  qed
  with ga mono(2) have "ch_seq c i \<le> ch_seq c a" by (simp add: monoD)
  with seq low show False by simp
qed

theorem dead_verdict_means_never_included_witness:
  "\<exists>c :: chain. ch_close c = (\<lambda>n. int n + 50) \<and> ch_included c = None
     \<and> ob_verdict (observe (lit ''OP'') \<lparr> rr_getTransaction = (\<lambda>_. TxNotFound 60),
          rr_readAccountSeq = (\<lambda>_. \<lparr> sr_exists = True, sr_value = 6 \<rparr>),
          rr_latestLedger = \<lparr> lh_sequence = 1, lh_closeTimeUnix = 60 \<rparr> \<rparr>
        \<lparr> rs_phase = Polling, rs_hashHex = lit ''h'', rs_ourSeq = 7, rs_maxTime = 55, rs_sourcePublic = None \<rparr>)
        = Some DeadReplaceable"
proof -
  let ?c = "\<lparr> ch_close = (\<lambda>n. int n + 50), ch_seq = (\<lambda>_. 6), ch_included = None \<rparr> :: chain"
  let ?rpc = "\<lparr> rr_getTransaction = (\<lambda>_. TxNotFound 60), rr_readAccountSeq = (\<lambda>_. \<lparr> sr_exists = True, sr_value = 6 \<rparr>),
          rr_latestLedger = \<lparr> lh_sequence = 1, lh_closeTimeUnix = 60 \<rparr> \<rparr>"
  let ?s = "\<lparr> rs_phase = Polling, rs_hashHex = lit ''h'', rs_ourSeq = 7, rs_maxTime = 55, rs_sourcePublic = None \<rparr>"
  have v: "ob_verdict (observe (lit ''OP'') ?rpc ?s) = Some DeadReplaceable"
    by (simp add: observe_def step_def resolveDeadness_def Let_def)
  have "chain_ok ?c (rs_ourSeq ?s) (rs_maxTime ?s)" by (simp add: chain_ok_def mono_def)
  moreover have "reads_at ?c (rs_hashHex ?s) (source_of (lit ''OP'') ?s) ?rpc 10 10 10" by (simp add: reads_at_def)
  ultimately have "ch_included ?c = None" using v by (rule dead_verdict_means_never_included)
  with v show ?thesis by (intro exI [of _ ?c]) simp
qed

text \<open>The client and the state machine are one machine. In the two states in which a payment is
  observed, every event \<open>verdictToCore\<close> chooses is accepted by the transition table; only the burned-but-unproven
  verdict escalates; and a verdict other than a proven success, a proven revert or a dead payment leads to an
  observe-only transition.\<close>

lemma verdicts_are_accepted_by_core:
  assumes "s \<in> {UsdcSubmitted, UsdcPending}"
  shows "(verdictToCore v s = CoreEscalate \<longleftrightarrow> v = IndeterminateLossReview)
    \<and> (\<forall>e. verdictToCore v s = CoreEvent e \<longrightarrow>
         (\<exists>s' effs. transition s e = Transition s' effs
            \<and> (v = StillPending \<or> v = DeadReplaceable \<and> s = UsdcSubmitted \<longrightarrow> effs = [RePollObserveOnly])
            \<and> (s' = UsdcConfirmed \<longleftrightarrow> v = LandedSuccess) \<and> (s' = UsdcReverted \<longleftrightarrow> v = LandedReverted)
            \<and> (s' = UsdcDead \<longleftrightarrow> v = DeadReplaceable \<and> s = UsdcPending)))"
  using assms by (cases v) (auto simp: verdictToCore_def sm_defs)

lemma verdicts_are_accepted_by_core_witness:
  "verdictToCore DeadReplaceable UsdcPending = CoreEvent PollDead
   \<and> (\<exists>s' effs. transition UsdcPending PollDead = Transition s' effs \<and> s' = UsdcDead)"
proof -
  have "verdictToCore DeadReplaceable UsdcPending = CoreEvent PollDead" by (simp add: verdictToCore_def)
  with verdicts_are_accepted_by_core [of UsdcPending DeadReplaceable] show ?thesis by auto
qed

text \<open>Write-ahead submission. \<open>submitPay\<close> sends at most once, and only bytes it has just made durable
  under the order's id together with their hash; a failure before that leaves the journal as it was and sends
  nothing. Resending an order afterwards sends exactly the same bytes, whatever is submitted for other orders
  in between.\<close>

lemma submit_is_write_ahead:
  assumes "submitPay T P send orderId src j = (r, j', wire)"
  shows "(\<exists>e. r = Inl e \<and> j' = j \<and> wire = [])
    \<or> (\<exists>su. r = Inr su \<and> loadPersisted orderId j' = Some \<lparr> ev_hashHex = su_hashHex su, ev_signedXdr = su_signedXdr su \<rparr>
        \<and> wire = [WirePersist orderId \<lparr> ev_hashHex = su_hashHex su, ev_signedXdr = su_signedXdr su \<rparr>, WireSend (su_signedXdr su)]
        \<and> su_outcome su = send (su_signedXdr su)
        \<and> (\<forall>T' P' send' other src' r2 j2 wire2 send''. other \<noteq> orderId \<longrightarrow> submitPay T' P' send' other src' j' = (r2, j2, wire2) \<longrightarrow>
             resendPersisted send'' orderId j2 = (Inr (send'' (su_signedXdr su)), j2, [WireSend (su_signedXdr su)])))"
proof -
  have other: "loadPersisted orderId j2 = loadPersisted orderId j1"
    if "submitPay T' P' send' x src' j1 = (r2, j2, wire2)" "x \<noteq> orderId"
    for T' :: "'a tx_tools" and P' send' x src' j1 r2 j2 wire2
    using that by (auto simp: submitPay_def loadPersisted_def persistPreSubmit_def Let_def
        split: sum.splits prod.splits option.splits)
  from assms show ?thesis
    by (auto simp: submitPay_def Let_def loadPersisted_def persistPreSubmit_def resendPersisted_def
        split: sum.splits prod.splits option.splits dest!: other [unfolded loadPersisted_def])
qed

lemma submit_is_write_ahead_witness:
  "submitPay \<lparr> tt_build = Some (), tt_simulate = Some, tt_assemble = Some, tt_assembleWithSignedAuth = (\<lambda>t _. Some t),
       tt_hash = (\<lambda>_. lit ''h''), tt_sequence = (\<lambda>_. lit ''5''), tt_sign = (\<lambda>_ _. Some (lit ''x'')) \<rparr>
     \<lparr> pp_operator = lit ''OP'', pp_channelSigners = [], pp_canSignAuth = False, pp_head = \<lparr> lh_sequence = 1, lh_closeTimeUnix = 2 \<rparr> \<rparr>
     (\<lambda>_. SendTryAgain) (lit ''o'') (Some (lit ''C'')) [] = (Inl NoChannelSigner, [], [])"
proof -
  let ?call = "submitPay \<lparr> tt_build = Some (), tt_simulate = Some, tt_assemble = Some, tt_assembleWithSignedAuth = (\<lambda>t _. Some t),
       tt_hash = (\<lambda>_. lit ''h''), tt_sequence = (\<lambda>_. lit ''5''), tt_sign = (\<lambda>_ _. Some (lit ''x'')) \<rparr>
     \<lparr> pp_operator = lit ''OP'', pp_channelSigners = [], pp_canSignAuth = False, pp_head = \<lparr> lh_sequence = 1, lh_closeTimeUnix = 2 \<rparr> \<rparr>
     (\<lambda>_. SendTryAgain) (lit ''o'') (Some (lit ''C'')) []"
  have r: "fst ?call = Inl NoChannelSigner" by (simp add: submitPay_def prepare_pay_def opt_or_def)
  obtain x j w where c: "?call = (x, j, w)" by (metis prod_cases3)
  from submit_is_write_ahead [OF c] r c show ?thesis by auto
qed

end
