(* ===== verification/Psp.thy ===== *)
theory Psp
  imports State_Machine Payout_Intent
begin

text \<open>
  The payment-service-provider client, \<^verbatim>\<open>packages/psp/src\<close>: what the HTTP adapter makes of a response
  (\<^verbatim>\<open>iyzico-adapter.ts\<close>), the three-valued classifier and the mapping onto core events (\<^verbatim>\<open>classify.ts\<close>),
  the projectors (\<^verbatim>\<open>response-projectors.ts\<close>) and the webhook signature check (\<^verbatim>\<open>verify-webhook.ts\<close>).

  A response body is the JSON value of the parsed text. The HMAC is a parameter that returns the digest
  bytes. The lemmas show which responses can start the USDC leg, close an order or confirm a reversal, and
  exactly which signatures the webhook accepts.
\<close>

section \<open>The result vocabulary, outcomes.ts\<close>

datatype iyzico_class = ClassSuccess | ClassFailure | ClassUnknown

datatype psp_op = OpPreauth | OpCapture | OpVoid | OpRefund | OpCheckout | OpSale

datatype raw_result = RawBody json | RawTimeout | RawMalformed ustring

section \<open>The HTTP adapter, iyzico-adapter.ts\<close>

text \<open>What the network does with one POST: \<open>fetch\<close> throws, or a response arrives with its \<open>ok\<close> flag and its
  status, whose text cannot be read, is not JSON, or is a JSON value.\<close>

datatype text_outcome = TextFails | TextNotJson | TextJson json
datatype fetch_outcome = FetchFails | FetchResponse bool nat text_outcome

definition psp_post :: "fetch_outcome \<Rightarrow> raw_result" where
  "psp_post f =
     (case f of
        FetchFails \<Rightarrow> RawTimeout
      | FetchResponse ok status text \<Rightarrow>
          if \<not> ok then RawMalformed (lit ''http '' @ lit (nat_dec status))
          else (case text of
                  TextFails \<Rightarrow> RawTimeout
                | TextNotJson \<Rightarrow> RawMalformed (lit ''unparseable JSON body'')
                | TextJson parsed \<Rightarrow>
                    if \<not> is_jobject parsed then RawMalformed (lit ''response body is not a JSON object'')
                    else RawBody parsed))"

section \<open>The classifier, classify.ts\<close>

definition TERMINAL_DECLINE_WHITELIST :: "ustring list" where
  "TERMINAL_DECLINE_WHITELIST =
     [lit ''10051'', lit ''10005'', lit ''10054'', lit ''10041'', lit ''10043'', lit ''10012'', lit ''10057'',
      lit ''10225'', lit ''10093'', lit ''10209'', lit ''10034'', lit ''10201'', lit ''6001'']"

definition TERMINAL_SUCCESS_PAYMENT_STATUS :: ustring where
  "TERMINAL_SUCCESS_PAYMENT_STATUS = lit ''SUCCESS''"

definition FRAUD_STATUS_OK :: json where "FRAUD_STATUS_OK = JInt 1"

fun bodyOf :: "raw_result \<Rightarrow> json option" where
  "bodyOf (RawBody b) = Some b"
| "bodyOf _ = None"

definition readString :: "json \<Rightarrow> string \<Rightarrow> ustring option" where
  "readString body key = (case jprop body key of Some (JStr v) \<Rightarrow> Some v | _ \<Rightarrow> None)"

text \<open>A number is kept as its JSON value, since the code only compares it with \<open>1\<close>.\<close>

definition readNumber :: "json \<Rightarrow> string \<Rightarrow> json option" where
  "readNumber body key =
     (case jprop body key of Some (JInt v) \<Rightarrow> Some (JInt v) | Some JFrac \<Rightarrow> Some JFrac | _ \<Rightarrow> None)"

text \<open>The shape of a success envelope that counts as terminal success, per operation.\<close>

definition success_shape :: "json \<Rightarrow> psp_op \<Rightarrow> bool" where
  "success_shape body op =
     (let paymentId = readString body ''paymentId'';
          paymentStatus = readString body ''paymentStatus'';
          fraudStatus = readNumber body ''fraudStatus'';
          phase = readString body ''phase'' in
      case op of
        OpPreauth \<Rightarrow> paymentStatus = Some TERMINAL_SUCCESS_PAYMENT_STATUS \<and> fraudStatus = Some FRAUD_STATUS_OK
      | OpCheckout \<Rightarrow> paymentStatus = Some TERMINAL_SUCCESS_PAYMENT_STATUS \<and> fraudStatus = Some FRAUD_STATUS_OK
      | OpCapture \<Rightarrow>
          (let hasError = jprop body ''errorCode'' \<noteq> None \<and> jprop body ''errorCode'' \<noteq> Some JNull in
           paymentId \<noteq> None \<and> \<not> hasError \<and> phase \<noteq> Some (lit ''PRE_AUTH''))
      | OpSale \<Rightarrow>
          paymentId \<noteq> None \<and> paymentStatus = Some TERMINAL_SUCCESS_PAYMENT_STATUS
          \<and> fraudStatus = Some FRAUD_STATUS_OK \<and> phase \<noteq> Some (lit ''PRE_AUTH'')
      | OpVoid \<Rightarrow> True
      | OpRefund \<Rightarrow> True)"

definition classifyIyzicoResult :: "raw_result \<Rightarrow> psp_op \<Rightarrow> iyzico_class" where
  "classifyIyzicoResult raw op =
     (case bodyOf raw of
        None \<Rightarrow> ClassUnknown
      | Some body \<Rightarrow>
          (case readString body ''status'' of
             None \<Rightarrow> ClassUnknown
           | Some status \<Rightarrow>
               if status = lit ''failure'' then
                 if op = OpVoid \<or> op = OpRefund then ClassFailure
                 else (case readString body ''errorCode'' of
                         Some code \<Rightarrow> if code \<in> set TERMINAL_DECLINE_WHITELIST then ClassFailure else ClassUnknown
                       | None \<Rightarrow> ClassUnknown)
               else if status \<noteq> lit ''success'' then ClassUnknown
               else if success_shape body op then ClassSuccess
               else ClassUnknown))"

definition chargeEvent :: "raw_result \<Rightarrow> event" where
  "chargeEvent raw =
     (case classifyIyzicoResult raw OpSale of
        ClassSuccess \<Rightarrow> ChargeOk
      | ClassFailure \<Rightarrow> ChargeRejected
      | ClassUnknown \<Rightarrow> ChargeUnknown)"

definition reversalEvent :: "raw_result \<Rightarrow> bool \<Rightarrow> event" where
  "reversalEvent raw retriesRemaining =
     (case classifyIyzicoResult raw OpVoid of
        ClassSuccess \<Rightarrow> ReversalConfirmed
      | _ \<Rightarrow> ReversalNotDone retriesRemaining)"

section \<open>The projectors, response-projectors.ts\<close>

text \<open>\<open>Inl\<close> is the projection \<open>malformed\<close> with its reason.\<close>

record init_fields =
  if_token :: ustring
  if_checkoutFormContent :: ustring
  if_conversationId :: ustring
  if_paymentPageUrl :: "ustring option"

record form_result_fields =
  fr_token :: ustring
  fr_paymentId :: ustring
  fr_paymentStatus :: ustring
  fr_conversationId :: ustring

record payment_fields =
  pf_paymentId :: ustring
  pf_conversationId :: ustring

fun reasonOf :: "raw_result \<Rightarrow> ustring" where
  "reasonOf RawTimeout = lit ''transport timeout''"
| "reasonOf (RawMalformed reason) = reason"
| "reasonOf (RawBody _) = lit ''unknown''"

definition projectCheckoutFormInit :: "raw_result \<Rightarrow> ustring + init_fields" where
  "projectCheckoutFormInit raw =
     (case bodyOf raw of
        None \<Rightarrow> Inl (reasonOf raw)
      | Some body \<Rightarrow>
          (case (readString body ''token'', readString body ''checkoutFormContent'', readString body ''conversationId'') of
             (Some token, Some content, Some conv) \<Rightarrow>
               Inr \<lparr> if_token = token, if_checkoutFormContent = content, if_conversationId = conv,
                     if_paymentPageUrl = readString body ''paymentPageUrl'' \<rparr>
           | _ \<Rightarrow> Inl (lit ''missing token/checkoutFormContent/conversationId'')))"

definition projectCheckoutFormResult :: "raw_result \<Rightarrow> ustring + form_result_fields" where
  "projectCheckoutFormResult raw =
     (case bodyOf raw of
        None \<Rightarrow> Inl (reasonOf raw)
      | Some body \<Rightarrow>
          (case (readString body ''token'', readString body ''paymentId'', readString body ''paymentStatus'',
                 readString body ''conversationId'') of
             (Some token, Some paymentId, Some paymentStatus, Some conv) \<Rightarrow>
               Inr \<lparr> fr_token = token, fr_paymentId = paymentId, fr_paymentStatus = paymentStatus,
                     fr_conversationId = conv \<rparr>
           | _ \<Rightarrow> Inl (lit ''missing token/paymentId/paymentStatus/conversationId'')))"

definition projectPayment :: "raw_result \<Rightarrow> ustring + payment_fields" where
  "projectPayment raw =
     (case bodyOf raw of
        None \<Rightarrow> Inl (reasonOf raw)
      | Some body \<Rightarrow>
          (case (readString body ''paymentId'', readString body ''conversationId'') of
             (Some paymentId, Some conv) \<Rightarrow> Inr \<lparr> pf_paymentId = paymentId, pf_conversationId = conv \<rparr>
           | _ \<Rightarrow> Inl (lit ''missing paymentId/conversationId'')))"

section \<open>The webhook signature, verify-webhook.ts\<close>

record webhook_event =
  we_iyziEventType :: "ustring option"
  we_iyziPaymentId :: "ustring option"
  we_paymentId :: "ustring option"
  we_token :: "ustring option"
  we_paymentConversationId :: "ustring option"
  we_status :: "ustring option"

record verify_input =
  vi_signingSecret :: "ustring option"
  vi_event :: webhook_event
  vi_providedSignature :: "ustring option"

definition HPP_EVENTS :: "ustring list" where
  "HPP_EVENTS =
     [lit ''CHECKOUT_FORM_AUTH'', lit ''BANK_TRANSFER_AUTH'', lit ''CREDIT_PAYMENT_AUTH'',
      lit ''CREDIT_PAYMENT_PENDING'', lit ''CREDIT_PAYMENT_INIT'', lit ''PWI_TKN_FUND'', lit ''PWI_TKN_AUTH'',
      lit ''PWI_TKN_THREEDS_AUTH'', lit ''CONTACTLESS_AUTH'', lit ''CONTACTLESS_REFUND'']"

definition preimage :: "ustring \<Rightarrow> webhook_event \<Rightarrow> ustring option" where
  "preimage secretKey e =
     (case we_iyziEventType e of
        None \<Rightarrow> None
      | Some et \<Rightarrow>
          if et = [] then None
          else (case (we_status e, we_paymentConversationId e) of
                  (Some status, Some conv) \<Rightarrow>
                    if et \<in> set HPP_EVENTS then
                      (case (we_iyziPaymentId e, we_token e) of
                         (Some pid, Some token) \<Rightarrow> Some (secretKey @ et @ pid @ token @ conv @ status)
                       | _ \<Rightarrow> None)
                    else
                      (case we_paymentId e of
                         Some pid \<Rightarrow> Some (secretKey @ et @ pid @ conv @ status)
                       | None \<Rightarrow> None)
                | _ \<Rightarrow> None))"

text \<open>\<open>digest('hex')\<close> is \<open>to_hex\<close> and \<open>Buffer.from(s, 'hex')\<close> is \<open>from_hex\<close>. \<open>toLowerCase\<close> is written out for
  the ASCII letters; no other code unit becomes a hexadecimal digit under it.\<close>

definition lower_unit :: "16 word \<Rightarrow> 16 word" where
  "lower_unit w = (if 65 \<le> unat w \<and> unat w \<le> 90 then w + 32 else w)"

definition toLowerCase :: "ustring \<Rightarrow> ustring" where
  "toLowerCase s = map lower_unit s"

definition verifyWebhookSignature :: "(ustring \<Rightarrow> ustring \<Rightarrow> 8 word list) \<Rightarrow> verify_input \<Rightarrow> bool" where
  "verifyWebhookSignature hmac input =
     (case (vi_signingSecret input, vi_providedSignature input) of
        (Some secret, Some provided) \<Rightarrow>
          if secret = [] then False
          else if provided = [] then False
          else (case preimage secret (vi_event input) of
                  None \<Rightarrow> False
                | Some pre \<Rightarrow>
                    let expected = from_hex (to_hex (hmac secret pre));
                        got = from_hex (toLowerCase provided) in
                    if length expected = 0 \<or> length expected \<noteq> length got then False
                    else expected = got)
      | _ \<Rightarrow> False)"

section \<open>Lemmas\<close>

lemma readString_iff: "readString b k = Some v \<longleftrightarrow> jprop b k = Some (JStr v)"
  by (auto simp: readString_def split: option.splits json.splits)

lemma readNumber_iff: "readNumber b k = Some (JInt i) \<longleftrightarrow> jprop b k = Some (JInt i)"
  by (auto simp: readNumber_def split: option.splits json.splits)

lemma classify_success_iff:
  "classifyIyzicoResult raw op = ClassSuccess \<longleftrightarrow>
     (\<exists>b. raw = RawBody b \<and> jprop b ''status'' = Some (JStr (lit ''success'')) \<and> success_shape b op)"
proof (cases raw)
  case (RawBody b)
  then show ?thesis
    by (cases "readString b ''status''")
      (simp_all add: readString_iff [symmetric] classifyIyzicoResult_def split: option.split)
qed (simp_all add: classifyIyzicoResult_def)

lemma decline_iff:
  "(case c of Some code \<Rightarrow> if code \<in> set L then ClassFailure else ClassUnknown | None \<Rightarrow> ClassUnknown) = ClassFailure
     \<longleftrightarrow> (\<exists>code. c = Some code \<and> code \<in> set L)"
  by (cases c) simp_all

lemma classify_failure_iff:
  "classifyIyzicoResult raw op = ClassFailure \<longleftrightarrow>
     (\<exists>b. raw = RawBody b \<and> jprop b ''status'' = Some (JStr (lit ''failure''))
        \<and> (op \<in> {OpVoid, OpRefund}
            \<or> (\<exists>code. jprop b ''errorCode'' = Some (JStr code) \<and> code \<in> set TERMINAL_DECLINE_WHITELIST)))"
proof (cases raw)
  case (RawBody b)
  then show ?thesis
    by (cases "readString b ''status''")
      (simp_all add: readString_iff [symmetric] classifyIyzicoResult_def decline_iff)
qed (simp_all add: classifyIyzicoResult_def)

lemma psp_post_body_iff:
  "psp_post f = RawBody b \<longleftrightarrow> (\<exists>st. f = FetchResponse True st (TextJson b)) \<and> is_jobject b"
  by (auto simp: psp_post_def split: fetch_outcome.splits text_outcome.splits)

lemma chargeEvent_cases: "chargeEvent raw \<in> {ChargeOk, ChargeRejected, ChargeUnknown}"
  by (simp add: chargeEvent_def split: iyzico_class.splits)

lemma chargeEvent_ok_iff: "chargeEvent raw = ChargeOk \<longleftrightarrow> classifyIyzicoResult raw OpSale = ClassSuccess"
  by (simp add: chargeEvent_def split: iyzico_class.splits)

lemma chargeEvent_rejected_iff:
  "chargeEvent raw = ChargeRejected \<longleftrightarrow> classifyIyzicoResult raw OpSale = ClassFailure"
  by (simp add: chargeEvent_def split: iyzico_class.splits)

lemma reversalEvent_confirmed_iff:
  "reversalEvent raw r = ReversalConfirmed \<longleftrightarrow> classifyIyzicoResult raw OpVoid = ClassSuccess"
  by (simp add: reversalEvent_def split: iyzico_class.splits)

lemma hex_val_digit: "n < 16 \<Longrightarrow> hex_val (hex_digit n) = Some n"
  by (auto simp: hex_val_def hex_digit_def unat_of_nat Let_def)

lemma hex_val_less: "hex_val w = Some n \<Longrightarrow> n < 16"
  by (auto simp: hex_val_def Let_def split: if_splits)

lemma from_hex_to_hex_append: "from_hex (to_hex bs @ rest) = bs @ from_hex rest"
proof (induction bs)
  case (Cons b bs)
  have "unat b < 256" using unsigned_less [of b] by simp
  then have "unat b div 16 < 16" "unat b mod 16 < 16" by simp_all
  moreover have "of_nat (16 * (unat b div 16) + unat b mod 16) = b" by (simp only: mult_div_mod_eq) simp
  ultimately show ?case using Cons by (simp add: to_hex_def hex_val_digit)
qed (simp add: to_hex_def)

lemma from_hex_to_hex [simp]: "from_hex (to_hex bs) = bs"
  using from_hex_to_hex_append [of bs "[]"] by simp

lemma hex_val_lower: "hex_val (lower_unit w) = Some n \<Longrightarrow> lower_unit w = hex_digit n"
proof -
  assume a: "hex_val (lower_unit w) = Some n"
  have "unat (w + 32) = unat w + 32" if "unat w \<le> 90"
    using that by (simp add: unat_word_ariths)
  then have "\<not> (65 \<le> unat (lower_unit w) \<and> unat (lower_unit w) \<le> 90)"
    by (auto simp: lower_unit_def)
  with a have "unat (lower_unit w) = (if n < 10 then 48 + n else 87 + n)"
    by (auto simp: hex_val_def Let_def split: if_splits)
  then show ?thesis unfolding hex_digit_def by (metis of_nat_unat ucast_id)
qed

lemma from_hex_split:
  assumes "list_all (\<lambda>w. \<forall>n. hex_val w = Some n \<longrightarrow> w = hex_digit n) t"
  shows "\<exists>rest. t = to_hex (from_hex t) @ rest \<and> from_hex rest = []"
  using assms
proof (induction t rule: from_hex.induct)
  case (1 a b r)
  show ?case
  proof (cases "\<exists>x y. hex_val a = Some x \<and> hex_val b = Some y")
    case True
    then obtain x y where xy: "hex_val a = Some x" "hex_val b = Some y" by blast
    with "1.prems" have dig: "a = hex_digit x" "b = hex_digit y" by simp_all
    note lt = xy [THEN hex_val_less]
    have "(16 * x + y) mod 256 = 16 * x + y" using lt by simp
    then have u: "unat (of_nat (16 * x + y) :: 8 word) = 16 * x + y"
      by (simp only: unat_of_nat take_bit_eq_mod) simp
    from 1 xy obtain rest where r: "r = to_hex (from_hex r) @ rest" "from_hex rest = []" by auto
    define v :: "8 word" where "v = of_nat (16 * x + y)"
    have "from_hex (a # b # r) = v # from_hex r" using xy by (simp add: v_def)
    moreover have "to_hex (v # bs) = a # b # to_hex bs" for bs
      using u [folded v_def] lt dig by (simp add: to_hex_def)
    ultimately have "a # b # r = to_hex (from_hex (a # b # r)) @ rest" using r(1) by simp
    with r(2) show ?thesis by blast
  next
    case False
    then have "from_hex (a # b # r) = []" by (auto split: option.splits)
    then show ?thesis by (simp add: to_hex_def)
  qed
qed (simp_all add: to_hex_def)

lemma from_hex_toLowerCase:
  "\<exists>rest. toLowerCase s = to_hex (from_hex (toLowerCase s)) @ rest \<and> from_hex rest = []"
  by (rule from_hex_split) (simp add: toLowerCase_def list_all_iff hex_val_lower)

lemma from_hex_eq_iff:
  "from_hex (toLowerCase s) = bs \<longleftrightarrow> (\<exists>rest. toLowerCase s = to_hex bs @ rest \<and> from_hex rest = [])"
  using from_hex_toLowerCase [of s] by (auto simp: from_hex_to_hex_append)

lemma jprop_object: "jprop b k = Some v \<Longrightarrow> is_jobject b"
  by (cases b) simp_all

lemma charge_ok_response_iff:
  "chargeEvent (psp_post f) = ChargeOk
      \<longleftrightarrow> (\<exists>st b pid. f = FetchResponse True st (TextJson b)
           \<and> jprop b ''status'' = Some (JStr (lit ''success'')) \<and> jprop b ''paymentId'' = Some (JStr pid)
           \<and> jprop b ''paymentStatus'' = Some (JStr (lit ''SUCCESS'')) \<and> jprop b ''fraudStatus'' = Some (JInt 1)
           \<and> jprop b ''phase'' \<noteq> Some (JStr (lit ''PRE_AUTH'')))"
  using jprop_object
  by (fastforce simp: chargeEvent_ok_iff classify_success_iff psp_post_body_iff success_shape_def Let_def
        TERMINAL_SUCCESS_PAYMENT_STATUS_def FRAUD_STATUS_OK_def readString_iff readNumber_iff not_None_eq)

lemma charge_rejected_response_iff:
  "chargeEvent (psp_post f) = ChargeRejected
      \<longleftrightarrow> (\<exists>st b code. f = FetchResponse True st (TextJson b)
           \<and> jprop b ''status'' = Some (JStr (lit ''failure''))
           \<and> jprop b ''errorCode'' = Some (JStr code) \<and> code \<in> set TERMINAL_DECLINE_WHITELIST)"
  using jprop_object by (fastforce simp: chargeEvent_rejected_iff classify_failure_iff psp_post_body_iff)

lemma charge_transition:
  "(transition SolvencyReserved (chargeEvent raw) = Transition UsdcSubmitted [AllocateSeq, PersistInFlight, SubmitPay]
      \<longleftrightarrow> chargeEvent raw = ChargeOk)
   \<and> (transition SolvencyReserved (chargeEvent raw) = Transition FailedClean [ReleaseReservation]
      \<longleftrightarrow> chargeEvent raw = ChargeRejected)
   \<and> transition SolvencyReserved (chargeEvent raw) \<in>
      {Transition UsdcSubmitted [AllocateSeq, PersistInFlight, SubmitPay], Transition FailedClean [ReleaseReservation],
       Transition SolvencyReserved [RePollObserveOnly]}"
  using chargeEvent_cases [of raw] by (auto simp: sm_defs)

section \<open>Properties\<close>

text \<open>C16. What the provider's answer to a retrieved sale may do to an order that waits for its charge. It starts the
  USDC leg exactly when a 2xx response carries a success envelope with a payment id, the terminal payment
  status, fraud status 1 and a phase other than the pre-authorisation; it closes the order exactly on a failure
  envelope whose error code is on the closed decline list; in every other case, transport failures included,
  the order stays where it is and nothing is mutated.\<close>

theorem only_captured_sale_starts_payout:
  "(transition SolvencyReserved (chargeEvent (psp_post f)) = Transition UsdcSubmitted [AllocateSeq, PersistInFlight, SubmitPay]
      \<longleftrightarrow> (\<exists>st b pid. f = FetchResponse True st (TextJson b)
           \<and> jprop b ''status'' = Some (JStr (lit ''success'')) \<and> jprop b ''paymentId'' = Some (JStr pid)
           \<and> jprop b ''paymentStatus'' = Some (JStr (lit ''SUCCESS'')) \<and> jprop b ''fraudStatus'' = Some (JInt 1)
           \<and> jprop b ''phase'' \<noteq> Some (JStr (lit ''PRE_AUTH''))))
   \<and> (transition SolvencyReserved (chargeEvent (psp_post f)) = Transition FailedClean [ReleaseReservation]
      \<longleftrightarrow> (\<exists>st b code. f = FetchResponse True st (TextJson b)
           \<and> jprop b ''status'' = Some (JStr (lit ''failure''))
           \<and> jprop b ''errorCode'' = Some (JStr code) \<and> code \<in> set TERMINAL_DECLINE_WHITELIST))
   \<and> transition SolvencyReserved (chargeEvent (psp_post f)) \<in>
      {Transition UsdcSubmitted [AllocateSeq, PersistInFlight, SubmitPay], Transition FailedClean [ReleaseReservation],
       Transition SolvencyReserved [RePollObserveOnly]}"
  using charge_transition [of "psp_post f"] by (simp only: charge_ok_response_iff charge_rejected_response_iff)

text \<open>A reversal is confirmed exactly by a success envelope, and is never left waiting: any other answer voids again
  while the budget lasts and flags a loss afterwards.\<close>

lemma reversal_never_strands:
  "transition ChargeReversing (reversalEvent raw r) =
     (if (\<exists>b. raw = RawBody b \<and> jprop b ''status'' = Some (JStr (lit ''success''))) then Transition ChargeReversed []
      else if r then Transition ChargeReversing [FireCancel] else Transition LossReview [FlagLoss])"
proof -
  have "reversalEvent raw r = ReversalConfirmed \<or> reversalEvent raw r = ReversalNotDone r"
    by (simp add: reversalEvent_def split: iyzico_class.splits)
  moreover have "reversalEvent raw r = ReversalConfirmed
      \<longleftrightarrow> (\<exists>b. raw = RawBody b \<and> jprop b ''status'' = Some (JStr (lit ''success'')))"
    by (simp add: reversalEvent_confirmed_iff classify_success_iff success_shape_def)
  ultimately show ?thesis by (auto simp: sm_defs)
qed


text \<open>A verified signature stays verified when a character that is not a hexadecimal digit, and anything after it, is
  appended to the header.\<close>

lemma webhook_accepts_trailing_text:
  assumes "verifyWebhookSignature hmac input" and "vi_providedSignature input = Some (to_hex bs)"
    and "hex_val (lower_unit w) = None"
  shows "verifyWebhookSignature hmac (input\<lparr>vi_providedSignature := Some (to_hex bs @ w # junk)\<rparr>)"
proof -
  have stop: "from_hex (toLowerCase (w # junk)) = []"
    using assms(3) by (cases junk) (simp_all add: toLowerCase_def)
  have "from_hex (toLowerCase (to_hex bs @ w # junk)) = from_hex (toLowerCase (to_hex bs))"
  proof (induction bs)
    case Nil
    then show ?case using stop by (simp add: to_hex_def toLowerCase_def)
  next
    case (Cons b bs)
    then show ?case by (simp add: to_hex_def toLowerCase_def split: option.splits)
  qed
  with assms(1,2) show ?thesis
    by (auto simp: verifyWebhookSignature_def Let_def split: option.splits if_splits)
qed

end
