(* ===== verification/Bank_Transfer.thy ===== *)
theory Bank_Transfer
  imports State_Machine Payout_Intent
begin

text \<open>
  The bank-transfer checkout, \<^verbatim>\<open>packages/backend/src/bank-transfer.ts\<close>, and the per-order facts of
  \<^verbatim>\<open>packages/backend/src/ctx.ts\<close> it works on. What the provider answers is a JSON value; a decimal text such as
  the order's sequence number is kept as the integer it prints. The lemmas show that instructions are only shown
  when they are bound to the order, and that only the exact transfer, in time, starts the USDC leg.
\<close>

section \<open>Instructions and order facts\<close>

record bank_instructions =
  bi_providerId :: ustring
  bi_transferId :: ustring
  bi_orderId :: ustring
  bi_reference :: ustring
  bi_iban :: ustring
  bi_beneficiary :: ustring
  bi_amountTry :: ustring
  bi_expiresAtUnix :: int
  bi_sandboxToken :: "ustring option"

record bank_request =
  bq_minimumUsdcStroops :: ustring
  bq_reference :: ustring
  bq_orderId :: ustring
  bq_idempotencyKey :: ustring
  bq_amountTry :: ustring
  bq_expiresAtUnix :: int

datatype payment_method = Card | BankTransferMethod

record order_ctx =
  cx_paymentMethod :: payment_method
  cx_bankTransfer :: "bank_instructions option"
  cx_bankExpiresAtUnix :: "int option"
  cx_bankReview :: bool
  cx_orderId :: ustring
  cx_conversationId :: ustring
  cx_destination :: ustring
  cx_amountStroops :: int
  cx_appliedRateStroops :: int
  cx_memoHex :: ustring
  cx_paymentId :: "ustring option"
  cx_token :: "ustring option"
  cx_paymentPageUrl :: "ustring option"
  cx_paidPriceTry :: ustring
  cx_spreadKurus :: int
  cx_feeKurus :: int
  cx_currency :: ustring
  cx_ip :: ustring
  cx_activeSeq :: "int option"
  cx_channelPublic :: "ustring option"
  cx_hashHex :: "ustring option"
  cx_signedXdr :: "ustring option"
  cx_payMaxTimeUnix :: "int option"
  cx_deadRetries :: nat
  cx_reversalRetries :: nat

section \<open>References and account numbers\<close>

definition upper_unit :: "16 word \<Rightarrow> 16 word" where
  "upper_unit w = (if 97 \<le> unat w \<and> unat w \<le> 122 then w - 32 else w)"

text \<open>\<open>None\<close> is the exception on a key that is not 64 hexadecimal digits.\<close>

definition bankTransferReference :: "ustring \<Rightarrow> ustring option" where
  "bankTransferReference idempotencyKey =
     (if \<not> is_hex64 idempotencyKey then None
      else Some (lit ''TROIA-'' @ map upper_unit (take 32 idempotencyKey)))"

text \<open>The loop over the rearranged digits.\<close>

definition iban_remainder :: "string \<Rightarrow> nat" where
  "iban_remainder digits = fold (\<lambda>d remainder. (remainder * 10 + digit_val d) mod 97) digits 0"

definition validTurkishIban :: "json option \<Rightarrow> bool" where
  "validTurkishIban v =
     (case v of
        Some (JStr u) \<Rightarrow>
          (case ascii_of u of
             None \<Rightarrow> False
           | Some s \<Rightarrow>
               if \<not> (length s = 26 \<and> take 2 s = ''TR'' \<and> list_all is_digit (drop 2 s)) then False
               else iban_remainder (drop 4 s @ ''2927'' @ take 2 (drop 2 s)) = 1)
      | _ \<Rightarrow> False)"

text \<open>The price grammar \<open>/^(0|[1-9]\d*)\.\d{2}$/\<close>, and the amount it denotes with the dot removed.\<close>

definition price_kurus :: "string \<Rightarrow> int option" where
  "price_kurus s =
     (let n = length s - 3; whole = take n s; frac = drop (n + 1) s in
      if 4 \<le> length s \<and> s ! n = CHR ''.'' \<and> is_canonical_decimal whole \<and> list_all is_digit frac
      then Some (str_bigint (whole @ frac)) else None)"

section \<open>Reading the provider's instructions\<close>

definition bank_text :: "json \<Rightarrow> string \<Rightarrow> ustring option" where
  "bank_text obj field =
     (case jprop obj field of Some (JStr s) \<Rightarrow> (if length s = 0 \<or> length s > 256 then None else Some s) | _ \<Rightarrow> None)"

definition positive_price :: "json option \<Rightarrow> ustring option" where
  "positive_price v =
     (case v of
        Some (JStr u) \<Rightarrow>
          (case Option.bind (ascii_of u) price_kurus of
             Some k \<Rightarrow> if k \<le> 0 then None else Some u
           | None \<Rightarrow> None)
      | _ \<Rightarrow> None)"

definition positive_time :: "json option \<Rightarrow> int option" where
  "positive_time v = (case v of Some (JInt t) \<Rightarrow> (if \<not> is_safe_int t \<or> t \<le> 0 then None else Some t) | _ \<Rightarrow> None)"

definition is_lower_hex64 :: "ustring \<Rightarrow> bool" where
  "is_lower_hex64 u = (length u = 64 \<and> list_all (\<lambda>w. 48 \<le> unat w \<and> unat w \<le> 57 \<or> 97 \<le> unat w \<and> unat w \<le> 102) u)"

definition sandbox_token :: "json \<Rightarrow> ustring option" where
  "sandbox_token obj =
     (if jprop obj ''providerId'' = Some (JStr (lit ''tr-mock-anchor''))
      then (case jprop obj ''sandboxToken'' of Some (JStr t) \<Rightarrow> (if is_lower_hex64 t then Some t else None) | _ \<Rightarrow> None)
      else None)"

definition json_text :: "json option \<Rightarrow> ustring" where
  "json_text v = (case v of Some (JStr u) \<Rightarrow> u | _ \<Rightarrow> [])"

text \<open>\<open>None\<close> is the exception \<open>Invalid bank instructions\<close>.\<close>

definition parseBankInstructions :: "json \<Rightarrow> bank_instructions option" where
  "parseBankInstructions v =
     (if \<not> is_jobject v then None
      else case (bank_text v ''providerId'', bank_text v ''transferId'', bank_text v ''orderId'', bank_text v ''reference'',
                 bank_text v ''beneficiary'') of
        (Some providerId, Some transferId, Some orderId, Some reference, Some beneficiary) \<Rightarrow>
          if \<not> validTurkishIban (jprop v ''iban'') \<or> jprop v ''currency'' \<noteq> Some (JStr (lit ''TRY'')) then None
          else (case (positive_price (jprop v ''amountTry''), positive_time (jprop v ''expiresAtUnix'')) of
                  (Some amountTry, Some expiresAtUnix) \<Rightarrow>
                    Some \<lparr> bi_providerId = providerId, bi_transferId = transferId, bi_orderId = orderId,
                           bi_reference = reference, bi_iban = json_text (jprop v ''iban''), bi_beneficiary = beneficiary,
                           bi_amountTry = amountTry, bi_expiresAtUnix = expiresAtUnix,
                           bi_sandboxToken = sandbox_token v \<rparr>
                | _ \<Rightarrow> None)
      | _ \<Rightarrow> None)"

section \<open>Opening a transfer\<close>

text \<open>The provider: \<open>create\<close> throws (with the flag of a durable-log failure) or answers; \<open>refund\<close> throws
  (\<open>None\<close>), is done or is pending.\<close>

datatype create_outcome = CreateThrows bool | CreateReturns json

record bank_provider =
  bp_providerReference :: bool
  bp_create :: "bank_request \<Rightarrow> create_outcome"
  bp_refund :: "bank_instructions \<Rightarrow> bool option"

text \<open>\<open>Inl ()\<close> is the durable-log failure that escapes; \<open>Inr None\<close> the \<open>null\<close> of a durable wait.\<close>

definition initializeBankTransfer ::
    "order_ctx \<Rightarrow> bank_provider \<Rightarrow> int \<Rightarrow> unit + bank_instructions option" where
  "initializeBankTransfer ctx provider expiresAtUnix =
     (case bankTransferReference (cx_conversationId ctx) of
        None \<Rightarrow> Inr None
      | Some reference \<Rightarrow>
          (case bp_create provider \<lparr> bq_minimumUsdcStroops = lit (bigint_str (cx_amountStroops ctx)), bq_reference = reference,
                  bq_orderId = cx_orderId ctx, bq_idempotencyKey = cx_conversationId ctx,
                  bq_amountTry = cx_paidPriceTry ctx, bq_expiresAtUnix = expiresAtUnix \<rparr> of
             CreateThrows durable \<Rightarrow> (if durable then Inl () else Inr None)
           | CreateReturns v \<Rightarrow>
               (case parseBankInstructions v of
                  None \<Rightarrow> Inr None
                | Some i \<Rightarrow>
                    if bi_orderId i \<noteq> cx_orderId ctx \<or> bi_amountTry i \<noteq> cx_paidPriceTry ctx
                       \<or> (\<not> bp_providerReference provider \<and> bi_reference i \<noteq> reference)
                       \<or> bi_expiresAtUnix i > expiresAtUnix
                    then Inr None else Inr (Some i))))"

section \<open>Matching a transfer\<close>

datatype transfer_status = TsPending | TsReceived | TsExpiredUnpaid | TsReview

text \<open>A received time that is absent or not an integer is \<open>None\<close>.\<close>

record bank_observation =
  bo_providerId :: ustring
  bo_transferId :: ustring
  bo_orderId :: ustring
  bo_reference :: ustring
  bo_amountTry :: ustring
  bo_currency :: ustring
  bo_status :: transfer_status
  bo_receivedAtUnix :: "int option"

definition bankTransferEvent :: "bank_instructions \<Rightarrow> bank_observation \<Rightarrow> int \<Rightarrow> event \<times> bool" where
  "bankTransferEvent expected actual nowUnix =
     (let bound = (bo_providerId actual = bi_providerId expected \<and> bo_transferId actual = bi_transferId expected
            \<and> bo_orderId actual = bi_orderId expected \<and> bo_reference actual = bi_reference expected
            \<and> bo_currency actual = lit ''TRY'') in
      if \<not> bound then (ChargeUnknown, True)
      else if bo_status actual = TsReceived then
        (case bo_receivedAtUnix actual of
           None \<Rightarrow> (ChargeUnknown, True)
         | Some at \<Rightarrow>
             if bo_amountTry actual \<noteq> bi_amountTry expected \<or> \<not> is_safe_int at \<or> at \<le> 0
                \<or> at > bi_expiresAtUnix expected \<or> at > nowUnix
             then (ChargeUnknown, True) else (ChargeOk, False))
      else if bo_status actual = TsExpiredUnpaid \<and> bo_amountTry actual = lit ''0.00'' then (ChargeRejected, False)
      else (ChargeUnknown, bo_status actual \<noteq> TsPending))"

section \<open>Lemmas\<close>

lemma iban_remainder_dec: "iban_remainder s = dec_nat s mod 97"
proof -
  have "fold (\<lambda>d r. (r * 10 + digit_val d) mod 97) s (n mod 97) = foldl (\<lambda>a c. a * 10 + digit_val c) n s mod 97" for n
  proof (induction s arbitrary: n)
    case (Cons c s)
    have "((n mod 97) * 10 + digit_val c) mod 97 = (n * 10 + digit_val c) mod 97"
      by (metis mod_add_left_eq mod_mult_left_eq)
    with Cons [of "n * 10 + digit_val c"] show ?case by simp
  qed simp
  from this [of 0] show ?thesis by (simp add: iban_remainder_def dec_nat_def)
qed

text \<open>The check digits are those of ISO 13616: the account number, the country code \<open>2927\<close> and the check digits,
  read as one number, leave remainder 1.\<close>

lemma validTurkishIban_iff:
  "validTurkishIban v \<longleftrightarrow>
     (\<exists>u s. v = Some (JStr u) \<and> ascii_of u = Some s \<and> length s = 26 \<and> take 2 s = ''TR'' \<and> list_all is_digit (drop 2 s)
        \<and> dec_nat (drop 4 s @ ''2927'' @ take 2 (drop 2 s)) mod 97 = 1)"
  by (auto simp: validTurkishIban_def iban_remainder_dec split: option.splits json.splits if_splits)

lemma validTurkishIban_text: "validTurkishIban v \<Longrightarrow> validTurkishIban (Some (JStr (json_text v)))"
  by (frule validTurkishIban_iff [THEN iffD1]) (auto simp: json_text_def)

lemma positive_price_Some:
  "positive_price v = Some u \<Longrightarrow> \<exists>s k. ascii_of u = Some s \<and> price_kurus s = Some k \<and> 0 < k"
  by (auto simp: positive_price_def split: option.splits json.splits if_splits Option.bind_splits)

lemma positive_time_Some: "positive_time v = Some t \<Longrightarrow> 0 < t"
  by (auto simp: positive_time_def split: option.splits json.splits if_splits)

lemma parseBankInstructions_bound:
  assumes "parseBankInstructions v = Some i"
  shows "validTurkishIban (Some (JStr (bi_iban i)))"
    and "\<exists>s k. ascii_of (bi_amountTry i) = Some s \<and> price_kurus s = Some k \<and> 0 < k"
    and "0 < bi_expiresAtUnix i"
  using assms
  by (auto simp: parseBankInstructions_def validTurkishIban_text split: if_splits option.splits
      dest: positive_price_Some positive_time_Some)

lemma bankTransferEvent_ok_iff:
  "bankTransferEvent i a now = (ChargeOk, r) \<longleftrightarrow> \<not> r
     \<and> bo_providerId a = bi_providerId i \<and> bo_transferId a = bi_transferId i \<and> bo_orderId a = bi_orderId i
     \<and> bo_reference a = bi_reference i \<and> bo_currency a = lit ''TRY'' \<and> bo_status a = TsReceived
     \<and> bo_amountTry a = bi_amountTry i
     \<and> (\<exists>at. bo_receivedAtUnix a = Some at \<and> is_safe_int at \<and> 0 < at \<and> at \<le> bi_expiresAtUnix i \<and> at \<le> now)"
  by (auto simp: bankTransferEvent_def Let_def split: option.splits)

lemma initializeBankTransfer_Some:
  assumes "initializeBankTransfer ctx provider expires = Inr (Some i)"
  shows "\<exists>ref v. bankTransferReference (cx_conversationId ctx) = Some ref \<and> parseBankInstructions v = Some i
    \<and> bi_orderId i = cx_orderId ctx \<and> bi_amountTry i = cx_paidPriceTry ctx \<and> bi_expiresAtUnix i \<le> expires
    \<and> (bp_providerReference provider \<or> bi_reference i = ref)"
  using assms
  by (auto simp: initializeBankTransfer_def split: option.splits create_outcome.splits if_splits)

section \<open>Properties\<close>

text \<open>C32. Only the exact transfer starts the USDC leg. If the customer was shown instructions for an order and an
  observed transfer is accepted as its payment, then the transfer is cleared and bound to this order and these
  instructions, its amount is the order's price, it arrived within the offer and not in the future, it went to an
  account number whose check digits are right, and (unless the provider picks references) its reference is the one
  derived from the order's idempotency key.\<close>

theorem bank_charge_means_exact_funds:
  assumes shown: "initializeBankTransfer ctx provider expires = Inr (Some i)"
    and paid: "bankTransferEvent i a now = (ChargeOk, review)"
  shows "bo_orderId a = cx_orderId ctx \<and> bo_amountTry a = cx_paidPriceTry ctx \<and> bo_currency a = lit ''TRY''
    \<and> bo_status a = TsReceived \<and> bo_transferId a = bi_transferId i \<and> \<not> review
    \<and> (\<exists>at. bo_receivedAtUnix a = Some at \<and> 0 < at \<and> at \<le> expires \<and> at \<le> now)
    \<and> validTurkishIban (Some (JStr (bi_iban i)))
    \<and> (bp_providerReference provider \<or> Some (bo_reference a) = bankTransferReference (cx_conversationId ctx))"
proof -
  from initializeBankTransfer_Some [OF shown] obtain ref v
    where i: "bankTransferReference (cx_conversationId ctx) = Some ref" "parseBankInstructions v = Some i"
      "bi_orderId i = cx_orderId ctx" "bi_amountTry i = cx_paidPriceTry ctx" "bi_expiresAtUnix i \<le> expires"
      "bp_providerReference provider \<or> bi_reference i = ref" by blast
  with paid [unfolded bankTransferEvent_ok_iff] parseBankInstructions_bound(1) [OF i(2)] show ?thesis
    by (auto intro: order_trans)
qed

definition demo_key :: ustring where "demo_key = replicate 64 97"

definition demo_bank_ctx :: order_ctx where
  "demo_bank_ctx = \<lparr> cx_paymentMethod = BankTransferMethod, cx_bankTransfer = None, cx_bankExpiresAtUnix = Some 900,
     cx_bankReview = False, cx_orderId = lit ''o1'', cx_conversationId = demo_key, cx_destination = lit ''G'',
     cx_amountStroops = 5, cx_appliedRateStroops = 7, cx_memoHex = lit ''ab'', cx_paymentId = None, cx_token = None,
     cx_paymentPageUrl = None, cx_paidPriceTry = lit ''4.50'', cx_spreadKurus = 1, cx_feeKurus = 1,
     cx_currency = lit ''TRY'', cx_ip = lit ''1'', cx_activeSeq = None, cx_channelPublic = None, cx_hashHex = None,
     cx_signedXdr = None, cx_payMaxTimeUnix = None, cx_deadRetries = 0, cx_reversalRetries = 0 \<rparr>"

definition demo_reference :: ustring where
  "demo_reference = lit ''TROIA-'' @ replicate 32 65"

definition demo_json :: json where
  "demo_json = JObj [(''providerId'', JStr (lit ''bank'')), (''transferId'', JStr (lit ''t1'')), (''orderId'', JStr (lit ''o1'')),
     (''reference'', JStr demo_reference), (''beneficiary'', JStr (lit ''Troia'')),
     (''iban'', JStr (lit ''TR330006100519786457841326'')), (''currency'', JStr (lit ''TRY'')),
     (''amountTry'', JStr (lit ''4.50'')), (''expiresAtUnix'', JInt 900)]"

definition demo_provider :: bank_provider where
  "demo_provider = \<lparr> bp_providerReference = False, bp_create = (\<lambda>_. CreateReturns demo_json), bp_refund = (\<lambda>_. Some True) \<rparr>"

definition demo_instructions :: bank_instructions where
  "demo_instructions = \<lparr> bi_providerId = lit ''bank'', bi_transferId = lit ''t1'', bi_orderId = lit ''o1'',
     bi_reference = demo_reference, bi_iban = lit ''TR330006100519786457841326'', bi_beneficiary = lit ''Troia'',
     bi_amountTry = lit ''4.50'', bi_expiresAtUnix = 900, bi_sandboxToken = None \<rparr>"

definition demo_observation :: bank_observation where
  "demo_observation = \<lparr> bo_providerId = lit ''bank'', bo_transferId = lit ''t1'', bo_orderId = lit ''o1'',
     bo_reference = demo_reference, bo_amountTry = lit ''4.50'', bo_currency = lit ''TRY'', bo_status = TsReceived,
     bo_receivedAtUnix = Some 800 \<rparr>"

lemma demo_iban: "validTurkishIban (Some (JStr (lit ''TR330006100519786457841326'')))"
proof -
  have "ascii_of (lit ''TR330006100519786457841326'') = Some ''TR330006100519786457841326''"
    by (rule ascii_of_lit) simp
  then show ?thesis by (simp add: validTurkishIban_def is_digit_def iban_remainder_def digit_val_def)
qed

lemma demo_price: "positive_price (Some (JStr (lit ''4.50''))) = Some (lit ''4.50'')"
proof -
  have "ascii_of (lit ''4.50'') = Some ''4.50''" by (rule ascii_of_lit) simp
  then show ?thesis
    by (simp add: positive_price_def price_kurus_def Let_def is_canonical_decimal_def is_digit_def str_bigint_def
        dec_nat_def digit_val_def)
qed

lemma demo_ref: "bankTransferReference demo_key = Some demo_reference"
proof -
  have "is_hex64 demo_key" by (simp add: is_hex64_def demo_key_def list_all_iff hex_val_def)
  then show ?thesis by (simp add: bankTransferReference_def demo_key_def demo_reference_def upper_unit_def)
qed

lemma demo_shown: "initializeBankTransfer demo_bank_ctx demo_provider 900 = Inr (Some demo_instructions)"
proof -
  have "parseBankInstructions demo_json = Some demo_instructions"
    by (simp add: parseBankInstructions_def demo_json_def bank_text_def demo_iban demo_price positive_time_def is_safe_int_def
        json_text_def sandbox_token_def demo_instructions_def demo_reference_def)
  then show ?thesis
    by (simp add: initializeBankTransfer_def demo_bank_ctx_def demo_ref demo_provider_def demo_instructions_def)
qed

theorem bank_charge_means_exact_funds_witness:
  "bankTransferEvent demo_instructions demo_observation 850 = (ChargeOk, False)
   \<and> bo_amountTry demo_observation = cx_paidPriceTry demo_bank_ctx"
proof -
  have ev: "bankTransferEvent demo_instructions demo_observation 850 = (ChargeOk, False)"
    by (simp add: bankTransferEvent_def demo_instructions_def demo_observation_def is_safe_int_def)
  from bank_charge_means_exact_funds [OF demo_shown ev] show ?thesis using ev by simp
qed

end
