(* ===== verification/Engine.thy ===== *)
theory Engine
  imports Order_Store Stellar_Client Psp Bank_Transfer
begin

text \<open>
  The settlement engine, \<^verbatim>\<open>packages/backend/src/engine\<close>: the effect plan (\<^verbatim>\<open>plan.ts\<close>), the vocabulary and the
  decision helpers (\<^verbatim>\<open>events.ts\<close>, \<^verbatim>\<open>classify-revert.ts\<close>), the effect executor (\<^verbatim>\<open>perform.ts\<close>) and the driver
  that runs the core to quiescence (\<^verbatim>\<open>driver.ts\<close>).

  An engine computation passes a \<open>world\<close> along: the store, a counter of the calls made so far and the list of
  the calls that left the process. What a port answers is a function of the counter, so that the same call may
  be answered differently each time; \<open>None\<close> is a port that throws. A throw is \<open>Inl\<close> and keeps the effects done
  before it. The loop of \<open>run\<close> has fuel; the fuel \<open>run\<close> gives it is proved to be enough.
\<close>

section \<open>The plan, plan.ts\<close>

datatype port = PortPsp | PortStellar | PortStore | PortSequences | PortNone
datatype feeds_event_via =
  FeedsNone | FeedsReserveOutcome | FeedsVerdictToCore | FeedsClassifyRevertCause | FeedsReversalEvent | FeedsReconcile

record effect_plan =
  ep_port :: port
  ep_call :: string
  ep_mutates :: bool
  ep_feedsEventVia :: feeds_event_via

fun planEffect :: "effect \<Rightarrow> effect_plan" where
  "planEffect FireSolvencyCheck = \<lparr> ep_port = PortStore, ep_call = ''reserve'', ep_mutates = False, ep_feedsEventVia = FeedsReserveOutcome \<rparr>"
| "planEffect FireCheckoutForm = \<lparr> ep_port = PortPsp, ep_call = ''initializeCheckoutForm'', ep_mutates = True, ep_feedsEventVia = FeedsNone \<rparr>"
| "planEffect AllocateSeq = \<lparr> ep_port = PortSequences, ep_call = ''allocate'', ep_mutates = True, ep_feedsEventVia = FeedsNone \<rparr>"
| "planEffect PersistInFlight = \<lparr> ep_port = PortStore, ep_call = ''persistState'', ep_mutates = False, ep_feedsEventVia = FeedsNone \<rparr>"
| "planEffect SubmitPay = \<lparr> ep_port = PortStellar, ep_call = ''submitPay'', ep_mutates = True, ep_feedsEventVia = FeedsVerdictToCore \<rparr>"
| "planEffect SubmitReplacementSameSeq = \<lparr> ep_port = PortStellar, ep_call = ''submitPay'', ep_mutates = True, ep_feedsEventVia = FeedsVerdictToCore \<rparr>"
| "planEffect ReallocateSeq = \<lparr> ep_port = PortSequences, ep_call = ''reallocate'', ep_mutates = True, ep_feedsEventVia = FeedsNone \<rparr>"
| "planEffect ConfirmBurnedSeq = \<lparr> ep_port = PortSequences, ep_call = ''confirmBurned'', ep_mutates = False, ep_feedsEventVia = FeedsClassifyRevertCause \<rparr>"
| "planEffect ReleaseSeq = \<lparr> ep_port = PortSequences, ep_call = ''release'', ep_mutates = False, ep_feedsEventVia = FeedsNone \<rparr>"
| "planEffect ReleaseReservation = \<lparr> ep_port = PortStore, ep_call = ''releaseReservation'', ep_mutates = False, ep_feedsEventVia = FeedsNone \<rparr>"
| "planEffect FireCancel = \<lparr> ep_port = PortPsp, ep_call = ''cancel'', ep_mutates = True, ep_feedsEventVia = FeedsReversalEvent \<rparr>"
| "planEffect FlagLoss = \<lparr> ep_port = PortStore, ep_call = ''flagLoss'', ep_mutates = False, ep_feedsEventVia = FeedsNone \<rparr>"
| "planEffect HandToReconciler = \<lparr> ep_port = PortStore, ep_call = ''appendEvidence'', ep_mutates = False, ep_feedsEventVia = FeedsReconcile \<rparr>"
| "planEffect RePollObserveOnly = \<lparr> ep_port = PortNone, ep_call = ''none'', ep_mutates = False, ep_feedsEventVia = FeedsNone \<rparr>"

section \<open>Revert causes, classify-revert.ts\<close>

datatype revert_cause = AlreadyProcessed | BalanceGuard | Indeterminate

definition classifyRevertCause :: "int option \<Rightarrow> revert_cause" where
  "classifyRevertCause code =
     (if code = Some 1 then AlreadyProcessed else if code = Some 2 then BalanceGuard else Indeterminate)"

text \<open>\<open>None\<close> is the exception on the budgeted cause.\<close>

fun revertEvent :: "revert_cause \<Rightarrow> event option" where
  "revertEvent AlreadyProcessed = Some RevertAlreadyProcessed"
| "revertEvent BalanceGuard = Some RevertBalanceGuard"
| "revertEvent Indeterminate = None"

section \<open>Configuration and ports, policy.ts, config.ts, ports.ts\<close>

record policy_config =
  po_maxDeadRetries :: nat
  po_maxReversalRetries :: nat
  po_maxRevertOtherRetries :: nat
  po_reservationTtlMs :: int
  po_poolLowWatermarkStroops :: int

record stellar_config =
  sc_operatorPublic :: ustring
  sc_troyPool :: ustring
  sc_passphrase :: ustring
  sc_usdcIssuer :: ustring
  sc_feeStroops :: ustring
  sc_timeboundsSecs :: int

text \<open>The buyer, the addresses and the basket item of the template are the JSON objects they are sent as.\<close>

record psp_config =
  pc_callbackUrl :: ustring
  pc_currency :: ustring
  pc_paymentGroup :: ustring
  pc_locale :: ustring
  pc_buyer :: "(string \<times> json) list"
  pc_shippingAddress :: json
  pc_billingAddress :: json
  pc_basketItemTemplate :: "(string \<times> json) list"

record engine_config =
  ec_stellar :: stellar_config
  ec_psp :: psp_config
  ec_policy :: policy_config

record checkout_params =
  cp_locale :: ustring
  cp_conversationId :: ustring
  cp_price :: ustring
  cp_paidPrice :: ustring
  cp_currency :: ustring
  cp_basketId :: ustring
  cp_paymentGroup :: ustring
  cp_callbackUrl :: ustring
  cp_buyer :: "(string \<times> json) list"
  cp_shippingAddress :: json
  cp_billingAddress :: json
  cp_basketItems :: "(string \<times> json) list list"

record cancel_params =
  ca_locale :: ustring
  ca_conversationId :: ustring
  ca_paymentId :: ustring
  ca_ip :: ustring

record pay_request =
  py_orderId :: ustring
  py_operatorPublic :: ustring
  py_sourcePublic :: "ustring option"
  py_seq :: int
  py_minTime :: int
  py_maxTime :: int
  py_fee :: ustring
  py_passphrase :: ustring
  py_troyPool :: ustring
  py_txId32 :: "byte list"
  py_amount :: int
  py_appliedRate :: int
  py_merchant :: ustring
  py_memo32 :: "byte list"

record deps =
  de_nfc :: "ustring \<Rightarrow> ustring"
  de_sha256 :: "byte list \<Rightarrow> byte list"
  de_now :: "nat \<Rightarrow> int"
  de_initForm :: "nat \<Rightarrow> checkout_params \<Rightarrow> raw_result option"
  de_cancel :: "nat \<Rightarrow> cancel_params \<Rightarrow> raw_result option"
  de_submitPay :: "nat \<Rightarrow> pay_request \<Rightarrow> (ustring \<times> ustring) option"
  de_observe :: "nat \<Rightarrow> reducer_state \<Rightarrow> poll_verdict option option"
  de_revertCode :: "nat \<Rightarrow> ustring \<Rightarrow> int option option"
  de_bankTransfer :: "(nat \<Rightarrow> bank_provider) option"
  de_diskOk :: "nat \<Rightarrow> bool"
  de_config :: engine_config

section \<open>Engine computations\<close>

datatype engine_error =
    EeRejected string
  | EeMutationGuard
  | EeNoSeq
  | EeNoPaymentId
  | EeNoEnteringEvent
  | EeWitnessMissing
  | EeReleaseReason
  | EeRevertEvent
  | EeSeq seq_error
  | EeDerive derive_error
  | EePort
  | EeDurableLog
  | EeFuel

datatype ext_call =
    ExtInitForm checkout_params
  | ExtOpenTransfer ustring
  | ExtSubmit pay_request
  | ExtCancel cancel_params
  | ExtRefund bank_instructions

record world =
  wo_store :: store
  wo_tick :: nat
  wo_calls :: "ext_call list"

type_synonym 'a eng = "world \<Rightarrow> (engine_error + 'a) \<times> world"

definition retE :: "'a \<Rightarrow> 'a eng" where "retE x w = (Inr x, w)"
definition failE :: "engine_error \<Rightarrow> 'a eng" where "failE e w = (Inl e, w)"

definition bindE :: "'a eng \<Rightarrow> ('a \<Rightarrow> 'b eng) \<Rightarrow> 'b eng" where
  "bindE m f w = (case m w of (Inl e, w') \<Rightarrow> (Inl e, w') | (Inr x, w') \<Rightarrow> f x w')"

definition need :: "engine_error \<Rightarrow> 'a option \<Rightarrow> 'a eng" where
  "need e m = (case m of None \<Rightarrow> failE e | Some x \<Rightarrow> retE x)"

text \<open>One answer of the environment, and the record of a call that leaves the process.\<close>

definition ask :: "(nat \<Rightarrow> 'a) \<Rightarrow> 'a eng" where
  "ask f w = (Inr (f (wo_tick w)), w\<lparr> wo_tick := wo_tick w + 1 \<rparr>)"

definition tell :: "ext_call \<Rightarrow> unit eng" where
  "tell c w = (Inr (), w\<lparr> wo_calls := wo_calls w @ [c] \<rparr>)"

definition on_store :: "(store \<Rightarrow> 'a \<times> store) \<Rightarrow> 'a eng" where
  "on_store f w = (let (x, s) = f (wo_store w) in (Inr x, w\<lparr> wo_store := s \<rparr>))"

text \<open>A call of the sequence allocator; its exception is the engine's.\<close>

definition on_seq :: "(seq_alloc \<Rightarrow> (seq_error + 'a) \<times> seq_alloc) \<Rightarrow> 'a eng" where
  "on_seq f w =
     (case f (so_sequences (wo_store w)) of
        (Inl e, a) \<Rightarrow> (Inl (EeSeq e), w\<lparr> wo_store := (wo_store w)\<lparr> so_sequences := a \<rparr> \<rparr>)
      | (Inr x, a) \<Rightarrow> (Inr x, w\<lparr> wo_store := (wo_store w)\<lparr> so_sequences := a \<rparr> \<rparr>))"

section \<open>Results and decisions, events.ts\<close>

datatype side_output = CheckoutForm ustring ustring "ustring option" "bank_instructions option"

text \<open>\<open>Partial<OrderCtx>\<close>, by the effects that return one.\<close>

datatype ctx_patch =
    PatchNone
  | PatchBank bank_instructions
  | PatchSeq int "ustring option"
  | PatchWitness ustring ustring int

fun apply_patch :: "ctx_patch \<Rightarrow> order_ctx \<Rightarrow> order_ctx" where
  "apply_patch PatchNone c = c"
| "apply_patch (PatchBank i) c = c\<lparr> cx_bankTransfer := Some i, cx_token := Some (bi_transferId i) \<rparr>"
| "apply_patch (PatchSeq seq channel) c = c\<lparr> cx_activeSeq := Some seq, cx_channelPublic := channel \<rparr>"
| "apply_patch (PatchWitness hashHex signedXdr maxTime) c =
     c\<lparr> cx_hashHex := Some hashHex, cx_signedXdr := Some signedXdr, cx_payMaxTimeUnix := Some maxTime \<rparr>"

record perform_result =
  pr_event :: "event option"
  pr_ctxPatch :: ctx_patch
  pr_sideOutput :: "side_output option"
  pr_escalate :: bool

definition NO_EVENT :: perform_result where
  "NO_EVENT = \<lparr> pr_event = None, pr_ctxPatch = PatchNone, pr_sideOutput = None, pr_escalate = False \<rparr>"

definition event_result :: "event \<Rightarrow> perform_result" where
  "event_result e = NO_EVENT\<lparr> pr_event := Some e \<rparr>"

definition decisionEvent :: "deps \<Rightarrow> state \<Rightarrow> order_ctx \<Rightarrow> event option eng" where
  "decisionEvent D coreState ctx =
     (case coreState of
        UsdcDead \<Rightarrow> bindE (on_store (bumpDeadRetries (cx_orderId ctx))) (\<lambda>n.
          retE (Some (DeadRetry (n \<le> po_maxDeadRetries (ec_policy (de_config D))))))
      | _ \<Rightarrow> retE None)"

definition flagLossBucket :: "event \<Rightarrow> loss_bucket" where
  "flagLossBucket e = (case e of RevertIndeterminate _ \<Rightarrow> IndeterminateLoss | _ \<Rightarrow> ReversalExhausted)"

text \<open>The only reason the function returns is \<open>'abandoned'\<close>; \<open>None\<close> is its exception.\<close>

definition releaseReason :: "state \<Rightarrow> unit option" where
  "releaseReason s = (if s = FailedClean \<or> s = ChargeReversing then Some () else None)"

section \<open>The executor, perform.ts\<close>

definition requireSeq :: "order_ctx \<Rightarrow> int eng" where
  "requireSeq ctx = need EeNoSeq (cx_activeSeq ctx)"

definition requirePaymentId :: "order_ctx \<Rightarrow> ustring eng" where
  "requirePaymentId ctx = need EeNoPaymentId (cx_paymentId ctx)"

definition inFlightPatch :: "order_ctx \<Rightarrow> in_flight_patch" where
  "inFlightPatch ctx = \<lparr> ip_seq = cx_activeSeq ctx, ip_paymentId = cx_paymentId ctx, ip_hashHex = cx_hashHex ctx,
     ip_signedXdr = cx_signedXdr ctx, ip_channelPublic = cx_channelPublic ctx \<rparr>"

definition checkoutFormParams :: "order_ctx \<Rightarrow> deps \<Rightarrow> checkout_params" where
  "checkoutFormParams ctx D =
     (let psp = ec_psp (de_config D) in
      \<lparr> cp_locale = pc_locale psp, cp_conversationId = cx_conversationId ctx, cp_price = cx_paidPriceTry ctx,
        cp_paidPrice = cx_paidPriceTry ctx, cp_currency = cx_currency ctx, cp_basketId = cx_orderId ctx,
        cp_paymentGroup = pc_paymentGroup psp, cp_callbackUrl = pc_callbackUrl psp,
        cp_buyer = AList.update ''ip'' (JStr (cx_ip ctx)) (pc_buyer psp),
        cp_shippingAddress = pc_shippingAddress psp, cp_billingAddress = pc_billingAddress psp,
        cp_basketItems = [AList.update ''price'' (JStr (cx_paidPriceTry ctx)) (pc_basketItemTemplate psp)] \<rparr>)"

definition cancelParams :: "order_ctx \<Rightarrow> deps \<Rightarrow> cancel_params eng" where
  "cancelParams ctx D = bindE (requirePaymentId ctx) (\<lambda>paymentId.
     retE \<lparr> ca_locale = pc_locale (ec_psp (de_config D)), ca_conversationId = cx_conversationId ctx,
            ca_paymentId = paymentId, ca_ip = cx_ip ctx \<rparr>)"

definition payRequest :: "order_ctx \<Rightarrow> deps \<Rightarrow> (pay_request \<times> int \<times> int) eng" where
  "payRequest ctx D =
     bindE (requireSeq ctx) (\<lambda>ourSeq.
     case deriveIds (de_nfc D) (de_sha256 D) (cx_orderId ctx) (cx_destination ctx) (cx_amountStroops ctx) of
       Inl e \<Rightarrow> failE (EeDerive e)
     | Inr ids \<Rightarrow>
         bindE (ask (de_now D)) (\<lambda>now.
         let st = ec_stellar (de_config D); maxTime = now + sc_timeboundsSecs st in
         retE (\<lparr> py_orderId = cx_orderId ctx, py_operatorPublic = sc_operatorPublic st, py_sourcePublic = cx_channelPublic ctx,
                 py_seq = ourSeq - 1, py_minTime = 0, py_maxTime = maxTime, py_fee = sc_feeStroops st,
                 py_passphrase = sc_passphrase st, py_troyPool = sc_troyPool st, py_txId32 = di_txId ids,
                 py_amount = cx_amountStroops ctx, py_appliedRate = cx_appliedRateStroops ctx,
                 py_merchant = cx_destination ctx, py_memo32 = di_memo ids \<rparr>, ourSeq, maxTime)))"

definition doSubmitAndObserve :: "order_ctx \<Rightarrow> state \<Rightarrow> deps \<Rightarrow> perform_result eng" where
  "doSubmitAndObserve ctx coreState D =
     bindE (payRequest ctx D) (\<lambda>(req, ourSeq, maxTime).
     bindE (tell (ExtSubmit req)) (\<lambda>_.
     bindE (ask (\<lambda>t. de_submitPay D t req)) (\<lambda>answer.
     bindE (need EePort answer) (\<lambda>(hashHex, signedXdr).
     bindE (on_store (\<lambda>s. ((), persistState (cx_orderId ctx) coreState
              ((inFlightPatch ctx)\<lparr> ip_hashHex := Some hashHex, ip_signedXdr := Some signedXdr \<rparr>) s))) (\<lambda>_.
     let rs = \<lparr> rs_phase = Polling, rs_hashHex = hashHex, rs_ourSeq = ourSeq, rs_maxTime = maxTime,
                rs_sourcePublic = cx_channelPublic ctx \<rparr> in
     bindE (ask (\<lambda>t. de_observe D t rs)) (\<lambda>obs.
     bindE (need EePort obs) (\<lambda>verdict.
     let patch = PatchWitness hashHex signedXdr maxTime in
     case verdictToCore (case verdict of None \<Rightarrow> StillPending | Some v \<Rightarrow> v) coreState of
       CoreEscalate \<Rightarrow> retE \<lparr> pr_event = None, pr_ctxPatch = patch, pr_sideOutput = None, pr_escalate = True \<rparr>
     | CoreEvent e \<Rightarrow> retE \<lparr> pr_event = Some e, pr_ctxPatch = patch, pr_sideOutput = None, pr_escalate = False \<rparr>)))))))"

definition perform_fireCheckoutForm :: "order_ctx \<Rightarrow> deps \<Rightarrow> perform_result eng" where
  "perform_fireCheckoutForm ctx D =
     (if cx_paymentMethod ctx = BankTransferMethod then
        (case (de_bankTransfer D, cx_bankExpiresAtUnix ctx) of
           (Some bank, Some expires) \<Rightarrow>
             bindE (if bankTransferReference (cx_conversationId ctx) = None then retE ()
                    else tell (ExtOpenTransfer (cx_orderId ctx))) (\<lambda>_.
             bindE (ask (\<lambda>t. initializeBankTransfer ctx (bank t) expires)) (\<lambda>r.
             case r of
               Inl _ \<Rightarrow> failE EeDurableLog
             | Inr None \<Rightarrow> retE NO_EVENT
             | Inr (Some i) \<Rightarrow> retE (NO_EVENT\<lparr> pr_ctxPatch := PatchBank i,
                 pr_sideOutput := Some (CheckoutForm (bi_transferId i) [] None (Some i)) \<rparr>)))
         | _ \<Rightarrow> retE NO_EVENT)
      else
        bindE (tell (ExtInitForm (checkoutFormParams ctx D))) (\<lambda>_.
        bindE (ask (\<lambda>t. de_initForm D t (checkoutFormParams ctx D))) (\<lambda>answer.
        bindE (need EePort answer) (\<lambda>raw.
        case projectCheckoutFormInit raw of
          Inl _ \<Rightarrow> retE (event_result CheckoutInitFailed)
        | Inr proj \<Rightarrow> retE (NO_EVENT\<lparr> pr_sideOutput :=
            Some (CheckoutForm (if_token proj) (if_checkoutFormContent proj) (if_paymentPageUrl proj) None) \<rparr>)))))"

definition perform_fireSolvencyCheck :: "order_ctx \<Rightarrow> deps \<Rightarrow> perform_result eng" where
  "perform_fireSolvencyCheck ctx D =
     bindE (ask (de_now D)) (\<lambda>now.
     bindE (on_store (store_reserve (cx_orderId ctx) (cx_amountStroops ctx)
              (po_reservationTtlMs (ec_policy (de_config D))) (now * 1000))) (\<lambda>outcome.
     retE (event_result (case outcome of ReserveOk _ \<Rightarrow> SolvencyOk | Insufficient _ _ \<Rightarrow> SolvencyFail | ReserveUnknown \<Rightarrow> SolvencyUnknown))))"

definition perform_confirmBurnedSeq :: "order_ctx \<Rightarrow> deps \<Rightarrow> perform_result eng" where
  "perform_confirmBurnedSeq ctx D =
     bindE (requireSeq ctx) (\<lambda>seq.
     bindE (on_seq (confirmBurned seq)) (\<lambda>_.
     bindE (ask (\<lambda>t. de_revertCode D t (cx_orderId ctx))) (\<lambda>answer.
     bindE (need EePort answer) (\<lambda>code.
     let cause = classifyRevertCause code in
     if cause = Indeterminate then
       bindE (on_store (bumpRevertOtherRetries (cx_orderId ctx))) (\<lambda>n.
       retE (event_result (RevertIndeterminate (n \<le> po_maxRevertOtherRetries (ec_policy (de_config D))))))
     else bindE (need EeRevertEvent (revertEvent cause)) (\<lambda>e. retE (event_result e))))))"

text \<open>\<open>True\<close> is the class \<open>'SUCCESS'\<close>. The refund of a bank transfer swallows its exception.\<close>

definition void_charge :: "order_ctx \<Rightarrow> deps \<Rightarrow> bool eng" where
  "void_charge ctx D =
     (if cx_paymentMethod ctx = BankTransferMethod then
        (case (de_bankTransfer D, cx_bankTransfer ctx) of
           (Some bank, Some i) \<Rightarrow>
             bindE (tell (ExtRefund i)) (\<lambda>_. ask (\<lambda>t. bp_refund (bank t) i = Some True))
         | _ \<Rightarrow> retE False)
      else
        bindE (cancelParams ctx D) (\<lambda>p.
        bindE (tell (ExtCancel p)) (\<lambda>_.
        bindE (ask (\<lambda>t. de_cancel D t p)) (\<lambda>answer.
        bindE (need EePort answer) (\<lambda>raw. retE (classifyIyzicoResult raw OpVoid = ClassSuccess))))))"

definition perform_fireCancel :: "order_ctx \<Rightarrow> deps \<Rightarrow> perform_result eng" where
  "perform_fireCancel ctx D =
     bindE (void_charge ctx D) (\<lambda>ok.
     if ok then retE (event_result ReversalConfirmed)
     else bindE (on_store (bumpReversalRetries (cx_orderId ctx))) (\<lambda>n.
       retE (event_result (ReversalNotDone (n \<le> po_maxReversalRetries (ec_policy (de_config D)))))))"

definition perform_handToReconciler :: "order_ctx \<Rightarrow> deps \<Rightarrow> perform_result eng" where
  "perform_handToReconciler ctx D =
     (case (cx_hashHex ctx, cx_signedXdr ctx, cx_activeSeq ctx) of
        (Some hashHex, Some signedXdr, Some activeSeq) \<Rightarrow>
          bindE (ask (de_now D)) (\<lambda>now.
          bindE (ask (de_diskOk D)) (\<lambda>disk_ok.
          bindE (on_store (appendEvidence disk_ok (cx_orderId ctx)
              \<lparr> er_txHash = hashHex, er_signedXdr = signedXdr, er_seq = lit (bigint_str activeSeq), er_witnessedAtUnix = now \<rparr>
              \<lparr> of_destination = cx_destination ctx, of_amountStroops = cx_amountStroops ctx, of_memoHex = cx_memoHex ctx,
                of_appliedRateStroops = cx_appliedRateStroops ctx, of_paidPriceTry = cx_paidPriceTry ctx,
                of_spreadKurus = cx_spreadKurus ctx, of_feeKurus = cx_feeKurus ctx \<rparr>)) (\<lambda>r.
          case r of Inl _ \<Rightarrow> failE EeDurableLog | Inr _ \<Rightarrow> retE NO_EVENT)))
      | _ \<Rightarrow> failE EeWitnessMissing)"

text \<open>The allocator of this store has no \<open>channelFor\<close>: an allocation clears the channel, a reallocation keeps it.\<close>

definition perform :: "effect \<Rightarrow> order_ctx \<Rightarrow> state \<Rightarrow> event option \<Rightarrow> deps \<Rightarrow> perform_result eng" where
  "perform eff ctx coreState enteringEvent D =
     (case eff of
        FireCheckoutForm \<Rightarrow> perform_fireCheckoutForm ctx D
      | FireSolvencyCheck \<Rightarrow> perform_fireSolvencyCheck ctx D
      | PersistInFlight \<Rightarrow>
          bindE (on_store (\<lambda>s. ((), persistState (cx_orderId ctx) coreState (inFlightPatch ctx) s))) (\<lambda>_. retE NO_EVENT)
      | SubmitPay \<Rightarrow> doSubmitAndObserve ctx coreState D
      | SubmitReplacementSameSeq \<Rightarrow>
          bindE (requireSeq ctx) (\<lambda>seq.
          bindE (on_seq (reuseOnDead (de_nfc D) seq (cx_orderId ctx))) (\<lambda>_.
          doSubmitAndObserve ctx coreState D))
      | AllocateSeq \<Rightarrow>
          bindE (on_seq (allocate (de_nfc D) (cx_orderId ctx))) (\<lambda>seq.
          retE (NO_EVENT\<lparr> pr_ctxPatch := PatchSeq seq None \<rparr>))
      | ReallocateSeq \<Rightarrow>
          bindE (on_seq (reallocate (de_nfc D) (cx_orderId ctx))) (\<lambda>seq.
          retE (NO_EVENT\<lparr> pr_ctxPatch := PatchSeq seq (cx_channelPublic ctx) \<rparr>))
      | ConfirmBurnedSeq \<Rightarrow> perform_confirmBurnedSeq ctx D
      | ReleaseSeq \<Rightarrow>
          bindE (requireSeq ctx) (\<lambda>seq.
          bindE (on_seq (release (de_nfc D) seq (cx_orderId ctx))) (\<lambda>_. retE NO_EVENT))
      | ReleaseReservation \<Rightarrow>
          bindE (need EeReleaseReason (releaseReason coreState)) (\<lambda>_.
          bindE (on_store (\<lambda>s. ((), releaseReservation (cx_orderId ctx) s))) (\<lambda>_. retE NO_EVENT))
      | FireCancel \<Rightarrow> perform_fireCancel ctx D
      | FlagLoss \<Rightarrow>
          bindE (need EeNoEnteringEvent enteringEvent) (\<lambda>e.
          bindE (on_store (\<lambda>s. ((), flagLoss (cx_orderId ctx) (flagLossBucket e) (cx_hashHex ctx) s))) (\<lambda>_. retE NO_EVENT))
      | HandToReconciler \<Rightarrow> perform_handToReconciler ctx D
      | RePollObserveOnly \<Rightarrow> retE NO_EVENT)"

section \<open>The driver, driver.ts\<close>

datatype quiescence = Terminal | Waiting | Escalated | IgnoredEvent | AlreadyStarted

record run_result =
  rr_ctx :: order_ctx
  rr_state :: state
  rr_sideOutputs :: "side_output list"
  rr_escalate :: bool
  rr_quiescence :: quiescence

definition finish :: "order_ctx \<Rightarrow> state \<Rightarrow> side_output list \<Rightarrow> bool \<Rightarrow> quiescence \<Rightarrow> run_result" where
  "finish ctx s sides escalate q =
     \<lparr> rr_ctx = ctx, rr_state = s, rr_sideOutputs = sides, rr_escalate = escalate, rr_quiescence = q \<rparr>"

definition applyEscalate :: "order_ctx \<Rightarrow> unit eng" where
  "applyEscalate ctx = on_store (\<lambda>s. ((), flagLoss (cx_orderId ctx) IndeterminateLoss (cx_hashHex ctx) s))"

text \<open>The effects of one transition, in order, with the variables of the loop body: the context, the side outputs,
  whether an effect escalated, and the event fed last.\<close>

record batch =
  ba_ctx :: order_ctx
  ba_sides :: "side_output list"
  ba_escalated :: bool
  ba_fed :: "event option"

definition absorb :: "perform_result \<Rightarrow> batch \<Rightarrow> batch" where
  "absorb p b = \<lparr> ba_ctx = apply_patch (pr_ctxPatch p) (ba_ctx b),
     ba_sides = ba_sides b @ (case pr_sideOutput p of None \<Rightarrow> [] | Some x \<Rightarrow> [x]),
     ba_escalated = (ba_escalated b \<or> pr_escalate p),
     ba_fed = (case pr_event p of None \<Rightarrow> ba_fed b | Some e \<Rightarrow> Some e) \<rparr>"

fun perform_all :: "effect list \<Rightarrow> state \<Rightarrow> event option \<Rightarrow> deps \<Rightarrow> batch \<Rightarrow> batch eng" where
  "perform_all [] s e D b = retE b"
| "perform_all (eff # effs) s e D b =
     bindE (perform eff (ba_ctx b) s e D) (\<lambda>p. perform_all effs s e D (absorb p b))"

fun run_loop :: "nat \<Rightarrow> order_ctx \<Rightarrow> state \<Rightarrow> event \<Rightarrow> side_output list \<Rightarrow> deps \<Rightarrow> run_result eng" where
  "run_loop 0 ctx s event sides D = failE EeFuel"
| "run_loop (Suc fuel) ctx s event sides D =
     (case transition s event of
        Ignored \<Rightarrow> retE (finish ctx s sides False IgnoredEvent)
      | Rejected reason \<Rightarrow> failE (EeRejected reason)
      | Transition next effects \<Rightarrow>
          if \<not> assertNoMutationOnUnknown event effects then failE EeMutationGuard
          else
            bindE (perform_all effects next (Some event) D
                     \<lparr> ba_ctx = ctx, ba_sides = sides, ba_escalated = False, ba_fed = None \<rparr>) (\<lambda>b.
            if ba_escalated b then
              bindE (applyEscalate (ba_ctx b)) (\<lambda>_. retE (finish (ba_ctx b) next (ba_sides b) True Escalated))
            else (case ba_fed b of
                Some e \<Rightarrow> run_loop fuel (ba_ctx b) next e (ba_sides b) D
              | None \<Rightarrow>
                  bindE (decisionEvent D next (ba_ctx b)) (\<lambda>decision.
                  case decision of
                    Some e \<Rightarrow> run_loop fuel (ba_ctx b) next e (ba_sides b) D
                  | None \<Rightarrow> retE (finish (ba_ctx b) next (ba_sides b) False
                      (if isAbsoluteTerminal next then Terminal else Waiting))))))"

definition run_fuel :: "deps \<Rightarrow> nat" where
  "run_fuel D = (let p = ec_policy (de_config D) in
     2 * (po_maxRevertOtherRetries p + 1) + (po_maxReversalRetries p + 1) + 7)"

definition run :: "order_ctx \<Rightarrow> state \<Rightarrow> event \<Rightarrow> deps \<Rightarrow> run_result eng" where
  "run ctx s event D = run_loop (run_fuel D) ctx s event [] D"

definition start :: "order_ctx \<Rightarrow> deps \<Rightarrow> run_result eng" where
  "start ctx D =
     (let (boot_state, boot_effects) = initialState in
      bindE (on_store (createIfAbsent (cx_orderId ctx))) (\<lambda>created.
      if \<not> created then retE (finish ctx boot_state [] False AlreadyStarted)
      else
        bindE (perform_all boot_effects boot_state None D
                 \<lparr> ba_ctx = ctx, ba_sides = [], ba_escalated = False, ba_fed = None \<rparr>) (\<lambda>b.
        if ba_escalated b then
          bindE (applyEscalate (ba_ctx b)) (\<lambda>_. retE (finish (ba_ctx b) boot_state (ba_sides b) True Escalated))
        else (case ba_fed b of
            Some e \<Rightarrow>
              bindE (run (ba_ctx b) boot_state e D) (\<lambda>rest.
              retE (finish (rr_ctx rest) (rr_state rest) (ba_sides b @ rr_sideOutputs rest) (rr_escalate rest) (rr_quiescence rest)))
          | None \<Rightarrow> retE (finish (ba_ctx b) boot_state (ba_sides b) False Waiting)))))"

definition advance :: "order_ctx \<Rightarrow> state \<Rightarrow> event \<Rightarrow> deps \<Rightarrow> run_result eng" where
  "advance ctx s event D = run ctx s event D"

section \<open>Weakest preconditions\<close>

definition wp :: "'a eng \<Rightarrow> ('a \<Rightarrow> world \<Rightarrow> bool) \<Rightarrow> (engine_error \<Rightarrow> world \<Rightarrow> bool) \<Rightarrow> world \<Rightarrow> bool" where
  "wp m Q E w = (case m w of (Inl e, w') \<Rightarrow> E e w' | (Inr x, w') \<Rightarrow> Q x w')"

lemma wp_retE [simp]: "wp (retE x) Q E w = Q x w"
  by (simp add: wp_def retE_def)

lemma wp_failE [simp]: "wp (failE e) Q E w = E e w"
  by (simp add: wp_def failE_def)

lemma wp_bindE [simp]: "wp (bindE m f) Q E w = wp m (\<lambda>x. wp (f x) Q E) E w"
  by (simp add: wp_def bindE_def split: sum.splits prod.splits)

lemma wp_need [simp]: "wp (need e m) Q E w = (case m of None \<Rightarrow> E e w | Some x \<Rightarrow> Q x w)"
  by (simp add: need_def split: option.splits)

lemma wp_ask [simp]: "wp (ask f) Q E w = Q (f (wo_tick w)) (w\<lparr> wo_tick := wo_tick w + 1 \<rparr>)"
  by (simp add: wp_def ask_def)

lemma wp_tell [simp]: "wp (tell c) Q E w = Q () (w\<lparr> wo_calls := wo_calls w @ [c] \<rparr>)"
  by (simp add: wp_def tell_def)

lemma wp_on_store [simp]:
  "wp (on_store f) Q E w = Q (fst (f (wo_store w))) (w\<lparr> wo_store := snd (f (wo_store w)) \<rparr>)"
  by (simp add: wp_def on_store_def split: prod.splits)

lemma wp_on_seq [simp]:
  "wp (on_seq f) Q E w =
     (case f (so_sequences (wo_store w)) of
        (Inl e, a) \<Rightarrow> E (EeSeq e) (w\<lparr> wo_store := (wo_store w)\<lparr> so_sequences := a \<rparr> \<rparr>)
      | (Inr x, a) \<Rightarrow> Q x (w\<lparr> wo_store := (wo_store w)\<lparr> so_sequences := a \<rparr> \<rparr>))"
  by (simp add: wp_def on_seq_def split: sum.splits prod.splits)

lemma wp_mono:
  assumes "wp m Q E w" "\<And>x w'. Q x w' \<Longrightarrow> Q' x w'" "\<And>e w'. E e w' \<Longrightarrow> E' e w'"
  shows "wp m Q' E' w"
  using assms by (auto simp: wp_def split: sum.splits prod.splits)

lemma wp_conj: "wp m Q E w \<Longrightarrow> wp m Q' E' w \<Longrightarrow> wp m (\<lambda>x w. Q x w \<and> Q' x w) (\<lambda>e w. E e w \<and> E' e w) w"
  by (auto simp: wp_def split: sum.splits prod.splits)

lemma wp_result: "wp m Q E w \<Longrightarrow> m w = (Inr x, w') \<Longrightarrow> Q x w'"
  by (simp add: wp_def)

lemma wp_error: "wp m Q E w \<Longrightarrow> m w = (Inl e, w') \<Longrightarrow> E e w'"
  by (simp add: wp_def)

section \<open>What an effect may feed\<close>

fun outcomes :: "effect \<Rightarrow> event set" where
  "outcomes FireSolvencyCheck = {SolvencyOk, SolvencyFail, SolvencyUnknown}"
| "outcomes FireCheckoutForm = {CheckoutInitFailed}"
| "outcomes SubmitPay = {EvidenceSuccess, EvidenceReverted, EvidencePending}"
| "outcomes SubmitReplacementSameSeq = {EvidenceSuccess, EvidenceReverted, EvidencePending}"
| "outcomes ConfirmBurnedSeq = {RevertAlreadyProcessed, RevertBalanceGuard, RevertIndeterminate True, RevertIndeterminate False}"
| "outcomes FireCancel = {ReversalConfirmed, ReversalNotDone True, ReversalNotDone False}"
| "outcomes _ = {}"

text \<open>The budgets left to an order.\<close>

definition revert_budget :: "deps \<Rightarrow> ustring \<Rightarrow> world \<Rightarrow> nat" where
  "revert_budget D ord w = po_maxRevertOtherRetries (ec_policy (de_config D)) + 1 - retry_count (so_revertOtherRetries (wo_store w)) ord"

definition reversal_budget :: "deps \<Rightarrow> ustring \<Rightarrow> world \<Rightarrow> nat" where
  "reversal_budget D ord w = po_maxReversalRetries (ec_policy (de_config D)) + 1 - retry_count (so_reversalRetries (wo_store w)) ord"

text \<open>Errors that a port, the sequence allocator or the data of the order cause; the others are structural.\<close>

definition soft_error :: "engine_error \<Rightarrow> bool" where
  "soft_error e = (case e of EeNoSeq \<Rightarrow> True | EeNoPaymentId \<Rightarrow> True | EeWitnessMissing \<Rightarrow> True | EeSeq _ \<Rightarrow> True
     | EeDerive _ \<Rightarrow> True | EePort \<Rightarrow> True | EeDurableLog \<Rightarrow> True | _ \<Rightarrow> False)"

text \<open>When an effect may run: its state and its entering event, as the table emits it.\<close>

definition effect_ready :: "effect \<Rightarrow> state \<Rightarrow> event option \<Rightarrow> bool" where
  "effect_ready eff s e =
     (case eff of SubmitPay \<Rightarrow> s = UsdcSubmitted | SubmitReplacementSameSeq \<Rightarrow> s = UsdcSubmitted
      | ReleaseReservation \<Rightarrow> s = FailedClean \<or> s = ChargeReversing | FlagLoss \<Rightarrow> e \<noteq> None | _ \<Rightarrow> True)"

definition progress :: "deps \<Rightarrow> ustring \<Rightarrow> event option \<Rightarrow> world \<Rightarrow> world \<Rightarrow> bool" where
  "progress D ord e w w' \<longleftrightarrow>
     revert_budget D ord w' \<le> revert_budget D ord w \<and> reversal_budget D ord w' \<le> reversal_budget D ord w
     \<and> (e = Some (RevertIndeterminate True) \<longrightarrow> revert_budget D ord w' < revert_budget D ord w)
     \<and> (e = Some (ReversalNotDone True) \<longrightarrow> reversal_budget D ord w' < reversal_budget D ord w)"

lemmas budget_defs = revert_budget_def reversal_budget_def progress_def

lemmas perform_defs = perform_def doSubmitAndObserve_def payRequest_def requireSeq_def requirePaymentId_def cancelParams_def
  perform_fireCheckoutForm_def perform_fireSolvencyCheck_def perform_confirmBurnedSeq_def void_charge_def
  perform_fireCancel_def perform_handToReconciler_def NO_EVENT_def event_result_def

lemma retry_count_update [simp]:
  "retry_count (AList.update k n m) k' = (if k = k' then n else retry_count m k')"
  by (simp add: retry_count_def)

lemma store_frames [simp]:
  "so_revertOtherRetries (persistState ord st p s) = so_revertOtherRetries s"
  "so_reversalRetries (persistState ord st p s) = so_reversalRetries s"
  "so_revertOtherRetries (releaseReservation ord s) = so_revertOtherRetries s"
  "so_reversalRetries (releaseReservation ord s) = so_reversalRetries s"
  "so_revertOtherRetries (snd (store_reserve ord a t n s)) = so_revertOtherRetries s"
  "so_reversalRetries (snd (store_reserve ord a t n s)) = so_reversalRetries s"
  "so_revertOtherRetries (snd (appendEvidence ok ord r f s)) = so_revertOtherRetries s"
  "so_reversalRetries (snd (appendEvidence ok ord r f s)) = so_reversalRetries s"
  by (simp_all add: store_defs split_beta split: option.splits)

definition step_good :: "deps \<Rightarrow> effect \<Rightarrow> order_ctx \<Rightarrow> world \<Rightarrow> perform_result \<Rightarrow> world \<Rightarrow> bool" where
  "step_good D eff ctx w p w' \<longleftrightarrow>
     cx_orderId (apply_patch (pr_ctxPatch p) ctx) = cx_orderId ctx
     \<and> (\<forall>e. pr_event p = Some e \<longrightarrow> e \<in> outcomes eff) \<and> progress D (cx_orderId ctx) (pr_event p) w w'"

lemma submit_progress: "wp (doSubmitAndObserve ctx UsdcSubmitted D) (step_good D SubmitPay ctx w) (\<lambda>e w'. soft_error e) w"
  by (auto simp: step_good_def doSubmitAndObserve_def payRequest_def requireSeq_def verdictToCore_def budget_defs
      soft_error_def Let_def split: option.splits sum.splits poll_verdict.splits)

lemma step_good_replacement:
  "step_good D SubmitPay ctx (w\<lparr> wo_store := (wo_store w)\<lparr> so_sequences := a \<rparr> \<rparr>) = step_good D SubmitReplacementSameSeq ctx w"
  by (intro ext) (simp add: step_good_def budget_defs)

lemma perform_progress:
  assumes "effect_ready eff s ev"
  shows "wp (perform eff ctx s ev D) (step_good D eff ctx w) (\<lambda>e w'. soft_error e) w"
proof (cases eff)
  case SubmitPay
  with assms submit_progress show ?thesis by (simp add: perform_def effect_ready_def)
next
  case SubmitReplacementSameSeq
  have "wp (doSubmitAndObserve ctx UsdcSubmitted D) (step_good D SubmitReplacementSameSeq ctx w) (\<lambda>e w'. soft_error e)
      (w\<lparr> wo_store := (wo_store w)\<lparr> so_sequences := a \<rparr> \<rparr>)" for a
    using submit_progress unfolding step_good_replacement [symmetric, of D ctx w a] .
  with SubmitReplacementSameSeq assms show ?thesis
    by (simp add: perform_def effect_ready_def requireSeq_def soft_error_def split: option.splits sum.splits prod.splits)
next
  case ConfirmBurnedSeq
  then show ?thesis
    by (auto simp: perform_defs step_good_def soft_error_def budget_defs bumpRevertOtherRetries_def Let_def
        classifyRevertCause_def split: option.splits sum.splits prod.splits if_splits)
next
  case FireCancel
  then show ?thesis
    by (auto simp: perform_defs step_good_def soft_error_def budget_defs bumpReversalRetries_def Let_def
        split: option.splits)
next
  case FireCheckoutForm
  then show ?thesis
    by (auto simp: perform_defs step_good_def soft_error_def budget_defs split: option.splits sum.splits)
next
  case HandToReconciler
  then show ?thesis
    by (auto simp: perform_defs step_good_def soft_error_def budget_defs split: option.splits sum.splits)
next
  case FireSolvencyCheck
  then show ?thesis
    by (auto simp: perform_defs step_good_def soft_error_def budget_defs split: reserve_outcome.splits)
qed (use assms in \<open>auto simp: perform_defs step_good_def soft_error_def budget_defs effect_ready_def releaseReason_def
      split: option.splits sum.splits prod.splits\<close>)

section \<open>A batch of effects\<close>

text \<open>Only the last effect of a batch may feed an event.\<close>

definition feeds_last :: "effect list \<Rightarrow> bool" where
  "feeds_last effs = (\<forall>eff \<in> set (butlast effs). outcomes eff = {})"

definition batch_outcomes :: "effect list \<Rightarrow> event set" where
  "batch_outcomes effs = (if effs = [] then {} else outcomes (last effs))"

definition batch_good :: "deps \<Rightarrow> effect list \<Rightarrow> batch \<Rightarrow> world \<Rightarrow> batch \<Rightarrow> world \<Rightarrow> bool" where
  "batch_good D effs b0 w b w' \<longleftrightarrow>
     cx_orderId (ba_ctx b) = cx_orderId (ba_ctx b0)
     \<and> (\<forall>e. ba_fed b = Some e \<longrightarrow> e \<in> batch_outcomes effs) \<and> progress D (cx_orderId (ba_ctx b0)) (ba_fed b) w w'"

lemma progress_trans:
  "progress D ord None w w1 \<Longrightarrow> progress D ord e w1 w2 \<Longrightarrow> progress D ord e w w2"
  by (auto simp: progress_def)

lemma perform_all_progress:
  assumes "list_all (\<lambda>eff. effect_ready eff s ev) effs" "feeds_last effs" "ba_fed b = None"
  shows "wp (perform_all effs s ev D b) (batch_good D effs b w) (\<lambda>e w'. soft_error e) w"
  using assms
proof (induction effs arbitrary: b w)
  case Nil
  then show ?case by (simp add: batch_good_def progress_def)
next
  case (Cons eff effs)
  have ready: "effect_ready eff s ev" using Cons.prems(1) by simp
  show ?case
    unfolding perform_all.simps wp_bindE
  proof (rule wp_mono [OF perform_progress [OF ready]])
    fix p w1
    assume p: "step_good D eff (ba_ctx b) w p w1"
    show "wp (perform_all effs s ev D (absorb p b)) (batch_good D (eff # effs) b w) (\<lambda>e w'. soft_error e) w1"
    proof (cases effs)
      case Nil
      with p Cons.prems(3) show ?thesis
        by (auto simp: batch_good_def step_good_def absorb_def batch_outcomes_def split: option.splits)
    next
      case (Cons eff2 effs2)
      with Cons.prems(2) have none: "outcomes eff = {}" by (simp add: feeds_last_def)
      with p have ev: "pr_event p = None" by (auto simp: step_good_def)
      have fl: "feeds_last effs" using Cons.prems(2) Cons by (simp add: feeds_last_def)
      have "wp (perform_all effs s ev D (absorb p b)) (batch_good D effs (absorb p b) w1) (\<lambda>e w'. soft_error e) w1"
        using Cons.IH [of "absorb p b" w1] Cons.prems fl ev by (simp add: absorb_def)
      then show ?thesis
      proof (rule wp_mono)
        fix b' w2
        assume "batch_good D effs (absorb p b) w1 b' w2"
        with p ev Cons show "batch_good D (eff # effs) b w b' w2"
          by (auto simp: batch_good_def step_good_def absorb_def batch_outcomes_def intro: progress_trans)
      qed
    qed
  qed
qed

text \<open>Every batch of the table meets these conditions.\<close>

lemma transition_effects_ready:
  assumes "transition s e = Transition s' effs"
  shows "list_all (\<lambda>eff. effect_ready eff s' (Some e)) effs \<and> feeds_last effs"
  by (rule transition_cases [OF assms])
    (insert assms, auto simp: sm_defs effect_ready_def feeds_last_def split: if_splits)

text \<open>Every event a batch feeds is accepted by the core in the state entered.\<close>

definition accepted :: "state \<Rightarrow> event \<Rightarrow> bool" where
  "accepted s e = (\<forall>r. transition s e \<noteq> Rejected r)"

lemma fed_accepted:
  assumes "transition s e = Transition s' effs" "e' \<in> batch_outcomes effs"
  shows "accepted s' e'"
  by (rule transition_cases [OF assms(1)])
    (insert assms, auto simp: sm_defs accepted_def batch_outcomes_def split: if_splits)

lemma transition_guarded: "transition s e = Transition s' effs \<Longrightarrow> assertNoMutationOnUnknown e effs"
  using observe_only_effects [of s e s' effs]
  by (auto simp: assertNoMutationOnUnknown_def containsMutation_def MUTATION_EFFECTS_def)

section \<open>The loop ends\<close>

text \<open>How many more iterations an event can cost, given the budgets left.\<close>

definition rank :: "event \<Rightarrow> nat \<Rightarrow> nat \<Rightarrow> nat" where
  "rank e reverts reversals =
     (case e of
        PollDead \<Rightarrow> 2 * reverts + reversals + 7
      | ChargeOk \<Rightarrow> 2 * reverts + reversals + 6
      | RecoverResubmit \<Rightarrow> 2 * reverts + reversals + 6
      | DeadRetry _ \<Rightarrow> 2 * reverts + reversals + 6
      | RevertIndeterminate True \<Rightarrow> 2 * reverts + reversals + 6
      | EvidenceReverted \<Rightarrow> 2 * reverts + reversals + 5
      | RevertBalanceGuard \<Rightarrow> reversals + 3
      | ReversalNotDone True \<Rightarrow> reversals + 2
      | SolvencyOk \<Rightarrow> 2
      | _ \<Rightarrow> 1)"

lemma rank_pos: "0 < rank e n v"
  by (simp add: rank_def split: event.splits bool.splits)

lemma fed_after:
  assumes "transition s e = Transition s' effs" "e' \<in> batch_outcomes effs"
  obtains (form) "e = SolvencyOk" "e' = CheckoutInitFailed"
  | (submit) "e \<in> {ChargeOk, RecoverResubmit, DeadRetry True, RevertIndeterminate True}"
      "e' \<in> {EvidenceSuccess, EvidencePending, EvidenceReverted}"
  | (burned) "e = EvidenceReverted"
      "e' \<in> {RevertAlreadyProcessed, RevertBalanceGuard, RevertIndeterminate True, RevertIndeterminate False}"
  | (reversal) "e \<in> {DeadRetry False, RevertBalanceGuard, ReversalNotDone True}"
      "e' \<in> {ReversalConfirmed, ReversalNotDone True, ReversalNotDone False}"
  by (rule transition_cases [OF assms(1)])
    (insert assms, auto simp: sm_defs batch_outcomes_def split: if_splits)

lemma rank_decreases:
  assumes "transition s e = Transition s' effs" "e' \<in> batch_outcomes effs"
    and "n' \<le> n" "v' \<le> v"
    and "e' = RevertIndeterminate True \<longrightarrow> n' < n" "e' = ReversalNotDone True \<longrightarrow> v' < v"
  shows "rank e' n' v' < rank e n v"
  using assms(1,2)
proof (cases rule: fed_after)
  case submit
  then have "rank e n v = 2 * n + v + 6" by (auto simp: rank_def)
  moreover have "rank e' n' v' \<le> 2 * n' + v' + 5" using submit(2) by (auto simp: rank_def)
  ultimately show ?thesis using assms(3,4) by simp
next
  case burned
  then show ?thesis using assms(3-6) by (auto simp: rank_def)
next
  case reversal
  then have "rank e n v \<ge> v + 2" by (auto simp: rank_def)
  moreover have "rank e' n' v' \<le> 1 \<or> rank e' n' v' = v' + 2 \<and> v' < v" using reversal(2) assms(6) by (auto simp: rank_def)
  ultimately show ?thesis by linarith
qed (simp add: rank_def)

lemma rank_decision:
  assumes "transition s e = Transition UsdcDead effs" "n' \<le> n" "v' \<le> v"
  shows "rank (DeadRetry r) n' v' < rank e n v"
  by (rule transition_cases [OF assms(1)])
    (insert assms, auto simp: sm_defs rank_def split: if_splits)

lemma rank_bound: "n \<le> n' \<Longrightarrow> v \<le> v' \<Longrightarrow> rank e n v \<le> 2 * n' + v' + 7"
  by (simp add: rank_def split: event.splits bool.splits)

end
