(* ===== verification/Engine_Runs.thy ===== *)
theory Engine_Runs
  imports Engine
begin

text \<open>
  What a run of the engine promises: it returns within its fuel and feeds only events the core accepts; an order
  that ends in review is flagged; the payments one run submits carry the order's own identity and pairwise different
  sequence numbers; a start reserves before anything leaves the process, and only once.
\<close>

section \<open>A run returns\<close>

definition order_rank :: "deps \<Rightarrow> ustring \<Rightarrow> event \<Rightarrow> world \<Rightarrow> nat" where
  "order_rank D ord e w = rank e (revert_budget D ord w) (reversal_budget D ord w)"

lemma order_rank_bound: "order_rank D ord e w \<le> run_fuel D"
  unfolding order_rank_def run_fuel_def Let_def
  by (rule rank_bound) (simp_all add: revert_budget_def reversal_budget_def)

text \<open>Where a run may stop: with an ignored event, in a state that waits, in a terminal state, or escalated.\<close>

definition quiet_result :: "ustring \<Rightarrow> run_result \<Rightarrow> world \<Rightarrow> bool" where
  "quiet_result ord r w \<longleftrightarrow>
     cx_orderId (rr_ctx r) = ord
     \<and> rr_quiescence r \<noteq> AlreadyStarted \<and> rr_escalate r = (rr_quiescence r = Escalated)
     \<and> (rr_quiescence r = Terminal \<longrightarrow> isAbsoluteTerminal (rr_state r))
     \<and> (rr_quiescence r = Waiting \<longrightarrow> \<not> isAbsoluteTerminal (rr_state r) \<and> rr_state r \<noteq> UsdcDead)
     \<and> (rr_quiescence r = Escalated \<or> rr_quiescence r = Waiting \<and> rr_state r = LossReview \<longrightarrow> isLossFlagged (wo_store w) ord)"

lemma decision_wp:
  "wp (decisionEvent D s ctx)
     (\<lambda>d w'. if s = UsdcDead then (\<exists>r. d = Some (DeadRetry r)) \<and> progress D (cx_orderId ctx) None w w' else d = None \<and> w' = w)
     (\<lambda>e w'. False) w"
  by (cases s) (auto simp: decisionEvent_def bumpDeadRetries_def budget_defs Let_def)

lemma review_entry:
  assumes "transition s e = Transition LossReview effs"
  shows "effs = [FlagLoss]"
  by (rule transition_cases [OF assms]) (insert assms, auto simp: sm_defs split: if_splits)

lemma flag_batch:
  "wp (perform_all [FlagLoss] s (Some e) D b) (\<lambda>b' w'. isLossFlagged (wo_store w') (cx_orderId (ba_ctx b))) (\<lambda>e w'. True) w"
  by (simp add: perform_def)

lemma dead_accepts: "accepted UsdcDead (DeadRetry r)"
  by (simp add: accepted_def sm_defs)

lemma batch_flags:
  assumes "transition s e = Transition s' effs"
  shows "wp (perform_all effs s' (Some e) D b)
    (\<lambda>b' w'. s' = LossReview \<longrightarrow> isLossFlagged (wo_store w') (cx_orderId (ba_ctx b))) (\<lambda>err w'. True) w"
proof (cases "s' = LossReview")
  case True
  with review_entry assms have "effs = [FlagLoss]" by blast
  with True flag_batch [of s' e D b w] show ?thesis by simp
qed (simp add: wp_def split: sum.splits prod.splits)

lemma batch_quiet:
  assumes "transition s e = Transition s' effs" and "ba_fed b = None"
  shows "wp (perform_all effs s' (Some e) D b)
     (\<lambda>b' w'. batch_good D effs b w b' w' \<and> (s' = LossReview \<longrightarrow> isLossFlagged (wo_store w') (cx_orderId (ba_ctx b))))
     (\<lambda>err w'. soft_error err) w"
  using transition_effects_ready [OF assms(1)]
  by (intro wp_mono [OF wp_conj [OF perform_all_progress batch_flags [OF assms(1)]]]) (use assms(2) in auto)

lemma next_rank:
  assumes "transition s e = Transition s' effs" "e' \<in> batch_outcomes effs" "progress D ord (Some e') w w'"
  shows "order_rank D ord e' w' < order_rank D ord e w"
  unfolding order_rank_def
  by (rule rank_decreases [OF assms(1,2)]) (use assms(3) in \<open>auto simp: progress_def\<close>)

lemma decision_rank:
  assumes "transition s e = Transition UsdcDead effs" "progress D ord None w w'"
  shows "order_rank D ord (DeadRetry r) w' < order_rank D ord e w"
  unfolding order_rank_def
  by (rule rank_decision [OF assms(1)]) (use assms(2) in \<open>auto simp: progress_def\<close>)

text \<open>What the loop body does after its batch.\<close>

definition after_batch :: "nat \<Rightarrow> state \<Rightarrow> deps \<Rightarrow> batch \<Rightarrow> run_result eng" where
  "after_batch fuel s D b =
     (if ba_escalated b then bindE (applyEscalate (ba_ctx b)) (\<lambda>_. retE (finish (ba_ctx b) s (ba_sides b) True Escalated))
      else (case ba_fed b of
          Some e \<Rightarrow> run_loop fuel (ba_ctx b) s e (ba_sides b) D
        | None \<Rightarrow>
            bindE (decisionEvent D s (ba_ctx b)) (\<lambda>decision.
            case decision of
              Some e \<Rightarrow> run_loop fuel (ba_ctx b) s e (ba_sides b) D
            | None \<Rightarrow> retE (finish (ba_ctx b) s (ba_sides b) False (if isAbsoluteTerminal s then Terminal else Waiting)))))"

lemma run_loop_step:
  assumes "transition s e = Transition s' effs"
  shows "run_loop (Suc fuel) ctx s e sides D =
     bindE (perform_all effs s' (Some e) D \<lparr> ba_ctx = ctx, ba_sides = sides, ba_escalated = False, ba_fed = None \<rparr>)
       (after_batch fuel s' D)"
  using assms transition_guarded [OF assms] by (simp add: after_batch_def [abs_def])

lemma after_batch_quiet:
  assumes tr: "transition s e = Transition s' effs" and fuel: "order_rank D ord e w \<le> Suc fuel"
    and good: "batch_good D effs b0 w b w1" "cx_orderId (ba_ctx b0) = ord"
    and flagged: "s' = LossReview \<longrightarrow> isLossFlagged (wo_store w1) ord"
    and IH: "\<And>ctx s e sides w. accepted s e \<Longrightarrow> order_rank D (cx_orderId ctx) e w \<le> fuel \<Longrightarrow>
      wp (run_loop fuel ctx s e sides D) (quiet_result (cx_orderId ctx)) (\<lambda>err w'. soft_error err) w"
  shows "wp (after_batch fuel s' D b) (quiet_result ord) (\<lambda>err w'. soft_error err) w1"
proof -
  have ord: "cx_orderId (ba_ctx b) = ord" and pr: "progress D ord (ba_fed b) w w1"
    and fed: "\<And>e'. ba_fed b = Some e' \<Longrightarrow> e' \<in> batch_outcomes effs"
    using good by (simp_all add: batch_good_def)
  consider (esc) "ba_escalated b" | (fed) e' where "\<not> ba_escalated b" "ba_fed b = Some e'"
    | (dead) "\<not> ba_escalated b" "ba_fed b = None" "s' = UsdcDead"
    | (stop) "\<not> ba_escalated b" "ba_fed b = None" "s' \<noteq> UsdcDead" by (cases "ba_fed b") auto
  then show ?thesis
  proof cases
    case esc
    then show ?thesis by (simp add: after_batch_def applyEscalate_def quiet_result_def finish_def ord)
  next
    case fed
    with fed_accepted [OF tr] next_rank [OF tr, of e' D ord w w1] pr fuel \<open>\<And>e'. ba_fed b = Some e' \<Longrightarrow> e' \<in> batch_outcomes effs\<close>
    show ?thesis using IH [of s' e' "ba_ctx b" w1] by (simp add: after_batch_def ord)
  next
    case dead
    have "wp (run_loop fuel (ba_ctx b) UsdcDead (DeadRetry r) (ba_sides b) D) (quiet_result ord) (\<lambda>err w'. soft_error err) w2"
      if "progress D ord None w1 w2" for r w2
    proof -
      have "progress D ord None w w2" using pr dead(2) that by (auto intro: progress_trans)
      then have "order_rank D ord (DeadRetry r) w2 \<le> fuel"
        using decision_rank [of s e effs D ord w w2 r] tr dead(3) fuel by simp
      then show ?thesis using IH [OF dead_accepts, of "ba_ctx b" r w2 "ba_sides b"] ord by simp
    qed
    with dead ord show ?thesis
      by (auto simp: after_batch_def intro!: wp_mono [OF decision_wp])
  next
    case stop
    with flagged ord show ?thesis
      by (auto simp: after_batch_def quiet_result_def finish_def intro!: wp_mono [OF decision_wp])
  qed
qed

lemma run_loop_quiet:
  assumes "accepted s e" and "order_rank D (cx_orderId ctx) e w \<le> fuel"
  shows "wp (run_loop fuel ctx s e sides D) (quiet_result (cx_orderId ctx)) (\<lambda>err w'. soft_error err) w"
  using assms
proof (induction fuel arbitrary: ctx s e sides w)
  case 0
  then show ?case using rank_pos [of e "revert_budget D (cx_orderId ctx) w" "reversal_budget D (cx_orderId ctx) w"]
    by (simp add: order_rank_def)
next
  case (Suc fuel)
  show ?case
  proof (cases "transition s e")
    case Ignored
    then show ?thesis by (simp add: quiet_result_def finish_def)
  next
    case (Rejected r)
    with Suc.prems show ?thesis by (simp add: accepted_def)
  next
    case (Transition s' effs)
    show ?thesis
      unfolding run_loop_step [OF Transition] wp_bindE
      by (rule wp_mono [OF batch_quiet [OF Transition]])
        (use after_batch_quiet [OF Transition Suc.prems(2) _ _ _ Suc.IH] in auto)
  qed
qed

lemma after_batch_more:
  assumes "fst (after_batch n s D b w) \<noteq> Inl EeFuel"
    and IH: "\<And>ctx s e sides w. fst (run_loop n ctx s e sides D w) \<noteq> Inl EeFuel \<Longrightarrow>
      run_loop m ctx s e sides D w = run_loop n ctx s e sides D w"
  shows "after_batch m s D b w = after_batch n s D b w"
proof (cases "ba_escalated b \<or> ba_fed b \<noteq> None")
  case True
  with assms show ?thesis by (auto simp: after_batch_def)
next
  case False
  obtain d w1 where d: "decisionEvent D s (ba_ctx b) w = (d, w1)" by fastforce
  show ?thesis
  proof (cases d)
    case (Inl err)
    with False d show ?thesis by (simp add: after_batch_def bindE_def)
  next
    case (Inr opt)
    with assms(1) False d have "fst ((case opt of Some e \<Rightarrow> run_loop n (ba_ctx b) s e (ba_sides b) D
        | None \<Rightarrow> retE (finish (ba_ctx b) s (ba_sides b) False (if isAbsoluteTerminal s then Terminal else Waiting))) w1) \<noteq> Inl EeFuel"
      by (simp add: after_batch_def bindE_def)
    with False d Inr IH show ?thesis by (cases opt) (simp_all add: after_batch_def bindE_def)
  qed
qed

lemma run_loop_more:
  assumes "fst (run_loop n ctx s e sides D w) \<noteq> Inl EeFuel" and "n \<le> m"
  shows "run_loop m ctx s e sides D w = run_loop n ctx s e sides D w"
  using assms
proof (induction n arbitrary: m ctx s e sides w)
  case 0
  then show ?case by (simp add: failE_def)
next
  case (Suc n)
  from Suc.prems(2) obtain k where m: "m = Suc k" "n \<le> k" by (cases m) auto
  show ?case
  proof (cases "transition s e")
    case (Transition s' effs)
    obtain r w1 where r: "perform_all effs s' (Some e) D \<lparr> ba_ctx = ctx, ba_sides = sides, ba_escalated = False, ba_fed = None \<rparr> w = (r, w1)"
      by fastforce
    show ?thesis
    proof (cases r)
      case (Inr b)
      with Suc.prems(1) r have "fst (after_batch n s' D b w1) \<noteq> Inl EeFuel"
        by (simp add: run_loop_step [OF Transition] bindE_def del: run_loop.simps)
      from after_batch_more [OF this Suc.IH [OF _ m(2)]] r Inr show ?thesis
        by (simp add: m(1) run_loop_step [OF Transition] bindE_def del: run_loop.simps)
    qed (use r in \<open>simp add: m(1) run_loop_step [OF Transition] bindE_def del: run_loop.simps\<close>)
  qed (simp_all add: m(1))
qed

text \<open>C5. A run always comes back, for every order, every world and every way the ports may answer. Fed an event the core
  accepts, the loop ends within the fuel \<open>run\<close> gives it, and so with the same result under any larger fuel; it never
  feeds the core an event the core rejects, never trips the mutation guard and never hits a structural error. It stops
  in a state that waits or is terminal, and an order that stops escalated or in loss review carries a durable loss
  flag.\<close>

theorem run_reaches_quiescence:
  assumes "accepted s e"
  shows "(case run ctx s e D w of
      (Inr r, w') \<Rightarrow> quiet_result (cx_orderId ctx) r w'
    | (Inl err, w') \<Rightarrow> soft_error err)
    \<and> run_loop (run_fuel D + more_fuel) ctx s e [] D w = run ctx s e D w"
proof -
  have q: "wp (run ctx s e D) (quiet_result (cx_orderId ctx)) (\<lambda>err w'. soft_error err) w"
    unfolding run_def by (rule run_loop_quiet [OF assms order_rank_bound])
  then have "fst (run ctx s e D w) \<noteq> Inl EeFuel"
    by (auto simp: wp_def soft_error_def split: prod.splits sum.splits)
  then have "run_loop (run_fuel D + more_fuel) ctx s e [] D w = run ctx s e D w"
    unfolding run_def by (rule run_loop_more) simp
  with q show ?thesis by (simp add: wp_def split: sum.splits prod.splits)
qed

section \<open>The payments of a run\<close>

definition payments :: "ext_call list \<Rightarrow> pay_request list" where
  "payments cs = List.map_filter (\<lambda>c. case c of ExtSubmit r \<Rightarrow> Some r | _ \<Rightarrow> None) cs"

lemma payments_simps [simp]:
  "payments [] = []" "payments (xs @ ys) = payments xs @ payments ys"
  "payments [ExtSubmit r] = [r]" "payments [ExtInitForm p] = []" "payments [ExtOpenTransfer u] = []"
  "payments [ExtCancel k] = []" "payments [ExtRefund i] = []"
  by (simp_all add: payments_def List.map_filter_def)

text \<open>The sequence number a request uses is one above the account sequence it names.\<close>

definition pay_seq :: "pay_request \<Rightarrow> int" where
  "pay_seq r = py_seq r + 1"

definition own_request :: "deps \<Rightarrow> order_ctx \<Rightarrow> pay_request \<Rightarrow> bool" where
  "own_request D ctx req \<longleftrightarrow>
     py_orderId req = cx_orderId ctx \<and> py_merchant req = cx_destination ctx \<and> py_amount req = cx_amountStroops ctx
     \<and> py_appliedRate req = cx_appliedRateStroops ctx
     \<and> (\<exists>ids. deriveIds (de_nfc D) (de_sha256 D) (cx_orderId ctx) (cx_destination ctx) (cx_amountStroops ctx) = Inr ids
          \<and> py_txId32 req = di_txId ids \<and> py_memo32 req = di_memo ids)"

definition same_facts :: "order_ctx \<Rightarrow> order_ctx \<Rightarrow> bool" where
  "same_facts c c' \<longleftrightarrow> cx_orderId c' = cx_orderId c \<and> cx_destination c' = cx_destination c
     \<and> cx_amountStroops c' = cx_amountStroops c \<and> cx_appliedRateStroops c' = cx_appliedRateStroops c"

lemma own_request_cong: "same_facts c c' \<Longrightarrow> own_request D c' req = own_request D c req"
  by (simp add: own_request_def same_facts_def)

lemma apply_patch_facts: "same_facts c (apply_patch p c)"
  by (cases p) (simp_all add: same_facts_def)

abbreviation seqs :: "world \<Rightarrow> seq_alloc" where "seqs w \<equiv> so_sequences (wo_store w)"

text \<open>What one effect does to the calls and to the sequence numbers, whether it throws or not: at most one payment,
  only by the submitting effects, at the order's present sequence number; burned numbers stay burned.\<close>

definition trace_step :: "deps \<Rightarrow> effect \<Rightarrow> order_ctx \<Rightarrow> world \<Rightarrow> world \<Rightarrow> bool" where
  "trace_step D eff ctx w w' \<longleftrightarrow>
     alloc_inv (seqs w') \<and> burned_seqs (seqs w) \<subseteq> burned_seqs (seqs w')
     \<and> (payments (wo_calls w') = payments (wo_calls w)
        \<or> eff \<in> {SubmitPay, SubmitReplacementSameSeq}
          \<and> (\<exists>req. payments (wo_calls w') = payments (wo_calls w) @ [req] \<and> cx_activeSeq ctx = Some (pay_seq req) \<and> own_request D ctx req))"

definition seq_effect :: "effect \<Rightarrow> order_ctx \<Rightarrow> perform_result \<Rightarrow> world \<Rightarrow> bool" where
  "seq_effect eff ctx p w' \<longleftrightarrow>
     (eff = ReallocateSeq \<longrightarrow> (\<exists>q ch. pr_ctxPatch p = PatchSeq q ch \<and> q \<notin> burned_seqs (seqs w')))
     \<and> (eff = ConfirmBurnedSeq \<longrightarrow> (\<exists>q. cx_activeSeq ctx = Some q \<and> q \<in> burned_seqs (seqs w')))
     \<and> (eff \<notin> {AllocateSeq, ReallocateSeq} \<longrightarrow> cx_activeSeq (apply_patch (pr_ctxPatch p) ctx) = cx_activeSeq ctx)"

lemma store_seq_frames [simp]:
  "so_sequences (persistState ord st p s) = so_sequences s" "so_sequences (releaseReservation ord s) = so_sequences s"
  "so_sequences (snd (store_reserve ord a t n s)) = so_sequences s"
  "so_sequences (snd (appendEvidence ok ord r f s)) = so_sequences s"
  "so_sequences (snd (bumpReversalRetries ord s)) = so_sequences s"
  "so_sequences (snd (bumpRevertOtherRetries ord s)) = so_sequences s"
  "so_sequences (snd (bumpDeadRetries ord s)) = so_sequences s"
  by (simp_all add: store_defs split_beta split: option.splits)

lemma alloc_step_trace:
  assumes "alloc_inv a"
  shows "alloc_inv (alloc_step nfc op a) \<and> burned_seqs a \<subseteq> burned_seqs (alloc_step nfc op a)"
  using alloc.inv_step [OF assms] alloc.burned_step [OF assms] by blast

lemma confirmBurned_trace:
  assumes "alloc_inv a" "confirmBurned q a = (r, a')"
  shows "alloc_inv a' \<and> burned_seqs a \<subseteq> burned_seqs a' \<and> (\<forall>x. r = Inr x \<longrightarrow> q \<in> burned_seqs a')"
proof -
  have "q \<in> burned_seqs a'" if "r = Inr x" for x
    using assms(2) that by (auto simp: confirmBurned_def burned_seqs_iff split: option.splits if_splits)
  then show ?thesis using alloc_step_trace [OF assms(1), of id "OpConfirmBurned q None"] assms(2) by simp
qed

lemma reallocate_trace:
  assumes inv: "alloc_inv a" and r: "reallocate nfc ord a = (r, a')"
  shows "alloc_inv a' \<and> burned_seqs a \<subseteq> burned_seqs a' \<and> (\<forall>q. r = Inr q \<longrightarrow> q \<notin> burned_seqs a')"
proof -
  have "q \<notin> burned_seqs a'" if q: "r = Inr q" for q
  proof -
    from r q obtain c where g: "grant c a = (Inr q, a')"
      by (auto simp: reallocate_def with_id_def split: sum.splits option.splits if_splits)
    then have "map_of (sa_bySeq a') q = Some \<lparr> sr_seq = q, sr_orderId = c, sr_status = SeqActive \<rparr>"
      by (auto simp: grant_def Let_def split: prod.splits)
    then show ?thesis by (simp add: burned_seqs_iff)
  qed
  then show ?thesis using alloc_step_trace [OF inv, of nfc "OpReallocate ord"] r by simp
qed

lemma release_trace:
  assumes "alloc_inv a" "release nfc q ord a = (r, a')"
  shows "alloc_inv a' \<and> burned_seqs a \<subseteq> burned_seqs a'"
  using alloc_step_trace [OF assms(1), of nfc "OpRelease q ord"] assms(2) by simp

lemma submit_trace:
  assumes "alloc_inv (seqs w)"
  shows "wp (doSubmitAndObserve ctx s D)
    (\<lambda>p w'. trace_step D SubmitPay ctx w w' \<and> seq_effect SubmitPay ctx p w') (\<lambda>e w'. trace_step D SubmitPay ctx w w') w"
  using assms
  by (auto simp: doSubmitAndObserve_def payRequest_def requireSeq_def trace_step_def seq_effect_def own_request_def pay_seq_def
      Let_def split: option.splits sum.splits core_mapping.splits)

lemma perform_trace:
  assumes inv: "alloc_inv (seqs w)"
  shows "wp (perform eff ctx s ev D)
    (\<lambda>p w'. trace_step D eff ctx w w' \<and> seq_effect eff ctx p w') (\<lambda>e w'. trace_step D eff ctx w w') w"
proof (cases eff)
  case SubmitPay
  with submit_trace [OF inv] show ?thesis by (simp add: perform_def)
next
  case SubmitReplacementSameSeq
  from submit_trace [OF inv, of ctx s D]
  have sub: "wp (doSubmitAndObserve ctx s D) (\<lambda>p w'. trace_step D eff ctx w w' \<and> seq_effect eff ctx p w') (\<lambda>e w'. trace_step D eff ctx w w') w"
    unfolding SubmitReplacementSameSeq by (rule wp_mono) (auto simp: trace_step_def seq_effect_def)
  show ?thesis
  proof (cases "cx_activeSeq ctx")
    case None
    with SubmitReplacementSameSeq inv show ?thesis by (simp add: perform_def requireSeq_def trace_step_def)
  next
    case (Some q)
    obtain r where r: "reuseOnDead (de_nfc D) q (cx_orderId ctx) (seqs w) = (r, seqs w)"
      using reuseOnDead_frame [of "de_nfc D" q "cx_orderId ctx" "seqs w"] by (metis prod.collapse)
    show ?thesis
    proof (cases r)
      case (Inl e)
      with Some r SubmitReplacementSameSeq inv show ?thesis by (simp add: perform_def requireSeq_def trace_step_def)
    next
      case (Inr x)
      with Some r SubmitReplacementSameSeq sub show ?thesis by (simp add: perform_def requireSeq_def)
    qed
  qed
next
  case ConfirmBurnedSeq
  then show ?thesis
    using confirmBurned_trace [OF inv] inv
    by (fastforce simp: perform_defs trace_step_def seq_effect_def Let_def split: option.splits sum.splits prod.splits)
next
  case ReallocateSeq
  then show ?thesis
    using reallocate_trace [OF inv]
    by (fastforce simp: perform_defs trace_step_def seq_effect_def split: sum.splits prod.splits)
next
  case AllocateSeq
  then show ?thesis
    using alloc_step_trace [OF inv, of "de_nfc D" "OpAllocate (cx_orderId ctx)"]
    by (auto simp: perform_defs trace_step_def seq_effect_def split: sum.splits prod.splits)
next
  case ReleaseSeq
  then show ?thesis
    using release_trace [OF inv] inv
    by (fastforce simp: perform_defs trace_step_def seq_effect_def split: option.splits sum.splits prod.splits)
qed (use inv in \<open>auto simp: perform_defs trace_step_def seq_effect_def Let_def releaseReason_def split: option.splits sum.splits\<close>)

text \<open>How the payments of a run relate to the burned numbers: none so far, all burned, all burned and the present number
  still unused, or all burned except perhaps the present number.\<close>

datatype pay_phase = PhAny | PhEmpty | PhSpent | PhFresh | PhCovered

fun in_phase :: "pay_phase \<Rightarrow> int set \<Rightarrow> int set \<Rightarrow> int option \<Rightarrow> bool" where
  "in_phase PhAny used burned active = True"
| "in_phase PhEmpty used burned active = (used = {})"
| "in_phase PhSpent used burned active = (used \<subseteq> burned)"
| "in_phase PhFresh used burned active = (used \<subseteq> burned \<and> (\<forall>q. active = Some q \<longrightarrow> q \<notin> used))"
| "in_phase PhCovered used burned active = (used \<subseteq> burned \<union> set_option active)"

definition pay_state :: "deps \<Rightarrow> order_ctx \<Rightarrow> pay_request list \<Rightarrow> pay_phase \<Rightarrow> order_ctx \<Rightarrow> world \<Rightarrow> bool" where
  "pay_state D c0 old ph ctx w \<longleftrightarrow>
     alloc_inv (seqs w) \<and> same_facts c0 ctx
     \<and> (\<exists>new. payments (wo_calls w) = old @ new \<and> (\<forall>r \<in> set new. own_request D c0 r) \<and> distinct (map pay_seq new)
          \<and> in_phase ph (pay_seq ` set new) (burned_seqs (seqs w)) (cx_activeSeq ctx))"

text \<open>What an effect does to the phase; \<open>None\<close> where it could pay a number twice.\<close>

fun phase_after :: "effect \<Rightarrow> pay_phase \<Rightarrow> pay_phase option" where
  "phase_after SubmitPay ph = (if ph \<in> {PhEmpty, PhFresh} then Some PhCovered else None)"
| "phase_after SubmitReplacementSameSeq ph = (if ph \<in> {PhEmpty, PhFresh} then Some PhCovered else None)"
| "phase_after AllocateSeq ph = Some (if ph = PhEmpty then PhEmpty else PhAny)"
| "phase_after ReallocateSeq ph = Some (if ph = PhSpent then PhFresh else PhAny)"
| "phase_after ConfirmBurnedSeq ph = Some (if ph = PhCovered then PhSpent else ph)"
| "phase_after _ ph = Some ph"

lemma in_phase_any: "pay_state D c0 old ph ctx w \<Longrightarrow> pay_state D c0 old PhAny ctx w"
  by (auto simp: pay_state_def)

lemma same_facts_trans: "same_facts a b \<Longrightarrow> same_facts b c \<Longrightarrow> same_facts a c"
  by (simp add: same_facts_def)

lemma in_phase_mono:
  "in_phase ph used burned active \<Longrightarrow> burned \<subseteq> burned' \<Longrightarrow> in_phase ph used burned' active"
  by (cases ph) auto

text \<open>An effect without a payment.\<close>

lemma pay_state_frame:
  assumes st: "pay_state D c0 old ph ctx w" and tr: "trace_step D eff ctx w w'"
    and same: "payments (wo_calls w') = payments (wo_calls w)" and facts: "same_facts ctx ctx'"
    and phase: "\<And>used. in_phase ph used (burned_seqs (seqs w)) (cx_activeSeq ctx) \<Longrightarrow>
        burned_seqs (seqs w) \<subseteq> burned_seqs (seqs w') \<Longrightarrow> in_phase ph' used (burned_seqs (seqs w')) (cx_activeSeq ctx')"
  shows "pay_state D c0 old ph' ctx' w'"
  using st tr same phase same_facts_trans [OF _ facts, of c0] by (fastforce simp: pay_state_def trace_step_def)

text \<open>An effect with a payment.\<close>

lemma pay_state_submit:
  assumes st: "pay_state D c0 old ph ctx w" and tr: "trace_step D eff ctx w w'" and ph: "ph \<in> {PhEmpty, PhFresh}"
    and facts: "same_facts ctx ctx'" "cx_activeSeq ctx' = cx_activeSeq ctx"
  shows "pay_state D c0 old PhCovered ctx' w'"
proof (cases "payments (wo_calls w') = payments (wo_calls w)")
  case True
  show ?thesis
    by (rule pay_state_frame [OF st tr True facts(1)]) (use ph facts(2) in \<open>auto; blast\<close>)
next
  case False
  with tr obtain req where req: "payments (wo_calls w') = payments (wo_calls w) @ [req]"
      "cx_activeSeq ctx = Some (pay_seq req)" "own_request D ctx req" by (auto simp: trace_step_def)
  from st obtain new where new: "payments (wo_calls w) = old @ new" "\<forall>r \<in> set new. own_request D c0 r" "distinct (map pay_seq new)"
      "in_phase ph (pay_seq ` set new) (burned_seqs (seqs w)) (cx_activeSeq ctx)" and same: "same_facts c0 ctx"
    by (auto simp: pay_state_def)
  have "own_request D c0 req" using req(3) own_request_cong [OF same] by simp
  moreover have "pay_seq req \<notin> pay_seq ` set new" using ph new(4) req(2) by auto
  moreover have "pay_seq ` set new \<subseteq> burned_seqs (seqs w')"
  proof -
    have "pay_seq ` set new \<subseteq> burned_seqs (seqs w)" using ph new(4) by (cases ph) simp_all
    also have "\<dots> \<subseteq> burned_seqs (seqs w')" using tr by (simp add: trace_step_def)
    finally show ?thesis .
  qed
  ultimately show ?thesis
    using req new tr same same_facts_trans [OF same facts(1)] facts(2)
    by (auto simp: pay_state_def trace_step_def intro!: exI [of _ "new @ [req]"])
qed

lemma perform_phase:
  assumes st: "pay_state D c0 old ph ctx w" and ph': "phase_after eff ph = Some ph'"
  shows "wp (perform eff ctx s ev D) (\<lambda>p w'. pay_state D c0 old ph' (apply_patch (pr_ctxPatch p) ctx) w')
     (\<lambda>e w'. pay_state D c0 old PhAny ctx w') w"
proof -
  have inv: "alloc_inv (seqs w)" using st by (simp add: pay_state_def)
  have refl: "same_facts ctx ctx" by (simp add: same_facts_def)
  have pays: "eff \<in> {SubmitPay, SubmitReplacementSameSeq} \<or> (\<forall>w'. trace_step D eff ctx w w' \<longrightarrow> payments (wo_calls w') = payments (wo_calls w))"
    by (auto simp: trace_step_def)
  show ?thesis
  proof (rule wp_mono [OF perform_trace [OF inv]])
    fix e w'
    assume tr: "trace_step D eff ctx w w'"
    show "pay_state D c0 old PhAny ctx w'"
    proof (cases "eff \<in> {SubmitPay, SubmitReplacementSameSeq}")
      case True
      with ph' have "ph \<in> {PhEmpty, PhFresh}" by (auto split: if_splits)
      from pay_state_submit [OF st tr this refl] show ?thesis using in_phase_any by blast
    next
      case False
      with pays tr have "payments (wo_calls w') = payments (wo_calls w)" by blast
      from pay_state_frame [OF st tr this refl, of PhAny] show ?thesis by simp
    qed
  next
    fix p w'
    assume "trace_step D eff ctx w w' \<and> seq_effect eff ctx p w'"
    then have tr: "trace_step D eff ctx w w'" and sq: "seq_effect eff ctx p w'" by simp_all
    let ?c = "apply_patch (pr_ctxPatch p) ctx"
    show "pay_state D c0 old ph' ?c w'"
    proof (cases "eff \<in> {SubmitPay, SubmitReplacementSameSeq}")
      case True
      with ph' have "ph \<in> {PhEmpty, PhFresh}" "ph' = PhCovered" by (auto split: if_splits)
      with True sq pay_state_submit [OF st tr _ apply_patch_facts] show ?thesis by (auto simp: seq_effect_def)
    next
      case False
      with pays tr have same: "payments (wo_calls w') = payments (wo_calls w)" by blast
      show ?thesis
      proof (rule pay_state_frame [OF st tr same apply_patch_facts])
        fix used
        assume used: "in_phase ph used (burned_seqs (seqs w)) (cx_activeSeq ctx)"
          and mono: "burned_seqs (seqs w) \<subseteq> burned_seqs (seqs w')"
        show "in_phase ph' used (burned_seqs (seqs w')) (cx_activeSeq ?c)"
        proof (cases "eff \<in> {AllocateSeq, ReallocateSeq, ConfirmBurnedSeq}")
          case True
          then show ?thesis using used mono ph' sq by (cases ph; auto simp: seq_effect_def split: if_splits; blast)
        next
          case no: False
          then have "ph' = ph" using False ph' by (cases eff) auto
          moreover have "cx_activeSeq ?c = cx_activeSeq ctx" using no sq by (auto simp: seq_effect_def)
          ultimately show ?thesis using in_phase_mono [OF used mono] by simp
        qed
      qed
    qed
  qed
qed

fun phases :: "effect list \<Rightarrow> pay_phase \<Rightarrow> pay_phase option" where
  "phases [] ph = Some ph"
| "phases (eff # effs) ph = Option.bind (phase_after eff ph) (phases effs)"

lemma perform_all_phase:
  assumes "pay_state D c0 old ph (ba_ctx b) w" and "phases effs ph = Some ph'"
  shows "wp (perform_all effs s ev D b) (\<lambda>b' w'. pay_state D c0 old ph' (ba_ctx b') w')
     (\<lambda>e w'. \<exists>ctx. pay_state D c0 old PhAny ctx w') w"
  using assms
proof (induction effs arbitrary: b ph w)
  case (Cons eff effs)
  from Cons.prems(2) obtain ph1 where ph1: "phase_after eff ph = Some ph1" "phases effs ph1 = Some ph'"
    by (auto simp: bind_eq_Some_conv)
  show ?case
    unfolding perform_all.simps wp_bindE
    by (rule wp_mono [OF perform_phase [OF Cons.prems(1) ph1(1)]])
      (use Cons.IH [OF _ ph1(2)] in \<open>auto simp: absorb_def\<close>)
qed simp

text \<open>The phase in which an event of the engine finds the run.\<close>

fun phase_of :: "event \<Rightarrow> pay_phase" where
  "phase_of ChargeOk = PhEmpty"
| "phase_of RecoverResubmit = PhEmpty"
| "phase_of PollDead = PhEmpty"
| "phase_of (DeadRetry _) = PhEmpty"
| "phase_of EvidenceSuccess = PhCovered"
| "phase_of EvidencePending = PhCovered"
| "phase_of EvidenceReverted = PhCovered"
| "phase_of RevertAlreadyProcessed = PhSpent"
| "phase_of RevertBalanceGuard = PhSpent"
| "phase_of (RevertIndeterminate _) = PhSpent"
| "phase_of _ = PhAny"

text \<open>Every batch of the table is safe in the phase of its event, and leaves the phase of the event it feeds.\<close>

lemma table_phases:
  assumes "transition s e = Transition s' effs"
  shows "\<exists>ph'. phases effs (phase_of e) = Some ph' \<and> (\<forall>e' \<in> batch_outcomes effs. phase_of e' \<in> {ph', PhAny})
    \<and> (s' = UsdcDead \<longrightarrow> ph' = PhEmpty)"
  by (rule transition_cases [OF assms])
    (insert assms, auto simp: sm_defs batch_outcomes_def split: if_splits)

definition paid_once :: "deps \<Rightarrow> order_ctx \<Rightarrow> pay_request list \<Rightarrow> world \<Rightarrow> bool" where
  "paid_once D ctx old w \<longleftrightarrow>
     (\<exists>new. payments (wo_calls w) = old @ new \<and> (\<forall>r \<in> set new. own_request D ctx r) \<and> distinct (map pay_seq new))"

lemma pay_state_paid_once: "pay_state D c0 old ph ctx w \<Longrightarrow> paid_once D c0 old w"
  by (auto simp: pay_state_def paid_once_def)

lemma pay_state_store: "pay_state D c0 old ph ctx w \<Longrightarrow> so_sequences s = seqs w \<Longrightarrow> pay_state D c0 old ph ctx (w\<lparr> wo_store := s \<rparr>)"
  by (simp add: pay_state_def)

lemma run_loop_pays:
  assumes "pay_state D c0 old (phase_of e) ctx w"
  shows "wp (run_loop fuel ctx s e sides D) (\<lambda>r w'. paid_once D c0 old w') (\<lambda>err w'. paid_once D c0 old w') w"
  using assms
proof (induction fuel arbitrary: ctx s e sides w)
  case 0
  then show ?case by (simp add: pay_state_paid_once)
next
  case (Suc fuel)
  show ?case
  proof (cases "transition s e")
    case (Transition s' effs)
    obtain ph' where ph': "phases effs (phase_of e) = Some ph'"
        "\<forall>e' \<in> batch_outcomes effs. phase_of e' \<in> {ph', PhAny}" "s' = UsdcDead \<longrightarrow> ph' = PhEmpty"
      using table_phases [OF Transition] by blast
    let ?b = "\<lparr> ba_ctx = ctx, ba_sides = sides, ba_escalated = False, ba_fed = None \<rparr>"
    have ready: "list_all (\<lambda>eff. effect_ready eff s' (Some e)) effs" "feeds_last effs"
      using transition_effects_ready [OF Transition] by simp_all
    have batch: "wp (perform_all effs s' (Some e) D ?b)
        (\<lambda>b' w'. batch_good D effs ?b w b' w' \<and> pay_state D c0 old ph' (ba_ctx b') w') (\<lambda>err w'. paid_once D c0 old w') w"
      using wp_conj [OF perform_all_progress [OF ready, of ?b D w] perform_all_phase [OF _ ph'(1), of D c0 old ?b w]] Suc.prems
      by (auto elim!: wp_mono dest: pay_state_paid_once)
    have after: "wp (after_batch fuel s' D b) (\<lambda>r w'. paid_once D c0 old w') (\<lambda>err w'. paid_once D c0 old w') w1"
      if good: "batch_good D effs ?b w b w1" and st: "pay_state D c0 old ph' (ba_ctx b) w1" for b w1
    proof -
      have fed: "pay_state D c0 old (phase_of e') (ba_ctx b) w1" if "ba_fed b = Some e'" for e'
        using good that ph'(2) st in_phase_any [OF st] by (auto simp: batch_good_def)
      have "wp (decisionEvent D s' (ba_ctx b))
          (\<lambda>d w'. case d of Some e \<Rightarrow> pay_state D c0 old (phase_of e) (ba_ctx b) w' | None \<Rightarrow> paid_once D c0 old w') (\<lambda>err w'. False) w1"
        using st ph'(3) pay_state_paid_once [OF st] pay_state_store [OF st]
        by (cases s') (auto simp: decisionEvent_def)
      then show ?thesis
        using fed Suc.IH pay_state_paid_once [OF st]
        by (auto simp: after_batch_def applyEscalate_def paid_once_def elim!: wp_mono split: option.splits)
    qed
    show ?thesis
      unfolding run_loop_step [OF Transition] wp_bindE
      by (rule wp_mono [OF batch]) (use after in auto)
  qed (use pay_state_paid_once [OF Suc.prems] in \<open>auto simp: paid_once_def\<close>)
qed

text \<open>C3. One run never pays twice with one sequence number. Whatever the ports answer and however the run ends, a throw
  included, the payments it submits all carry the order's own merchant, amount, rate and the transaction id and memo
  derived from the order, and their sequence numbers are pairwise different: a resubmission inside a run only
  happens after the earlier number was recorded as burned and a new one was granted.\<close>

theorem one_run_pays_each_sequence_once:
  assumes "alloc_inv (so_sequences (wo_store w))"
  shows "\<exists>new. payments (wo_calls (snd (run ctx s e D w))) = payments (wo_calls w) @ new
    \<and> list_all (own_request D ctx) new \<and> distinct (map pay_seq new)"
proof -
  have "in_phase (phase_of e) {} B q" for B q by (cases e) simp_all
  with assms have "pay_state D ctx (payments (wo_calls w)) (phase_of e) ctx w"
    by (auto simp: pay_state_def same_facts_def intro!: exI [of _ "[]"])
  from run_loop_pays [OF this, of "run_fuel D" s "[]"] show ?thesis
    by (auto simp: wp_def run_def paid_once_def list_all_iff split: prod.splits sum.splits)
qed

section \<open>A run keeps the store's invariant\<close>

lemma store_inv_steps:
  assumes "store_inv s"
  shows "0 \<le> a \<Longrightarrow> store_inv (snd (store_reserve ord a t n s))" "store_inv (releaseReservation ord s)"
    "store_inv (snd (createIfAbsent ord s))" "store_inv (persistState ord st p s)" "store_inv (flagLoss ord b h s)"
    "store_inv (snd (appendEvidence ok ord r f s))" "store_inv (snd (bumpDeadRetries ord s))"
    "store_inv (snd (bumpReversalRetries ord s))" "store_inv (snd (bumpRevertOtherRetries ord s))"
  using store_step_inv [OF assms, of "SoReserve ord a t n" id] store_step_inv [OF assms, of "SoRelease ord" id]
    store_step_inv [OF assms, of "SoCreate ord" id] store_step_inv [OF assms, of "SoPersist ord st p" id]
    store_step_inv [OF assms, of "SoFlag ord b h" id] store_step_inv [OF assms, of "SoEvidence ok ord r f" id]
    store_step_inv [OF assms, of "SoBumpDead ord" id] store_step_inv [OF assms, of "SoBumpReversal ord" id]
    store_step_inv [OF assms, of "SoBumpRevert ord" id]
  by (simp_all add: fair_op_def)

lemma store_inv_seq: "store_inv s \<Longrightarrow> alloc_inv a \<Longrightarrow> store_inv (s\<lparr> so_sequences := a \<rparr>)"
  by (rule store_inv_cong [of _ s]) (simp_all add: store_inv_def)

abbreviation store_ok :: "world \<Rightarrow> bool" where "store_ok w \<equiv> store_inv (wo_store w)"

lemma on_seq_bind_ok:
  assumes ok: "store_ok w" and f: "\<And>a. alloc_inv a \<Longrightarrow> alloc_inv (snd (f a))"
    and g: "\<And>x w'. store_ok w' \<Longrightarrow> wp (g x) (\<lambda>p. store_ok) (\<lambda>e. store_ok) w'"
  shows "wp (bindE (on_seq f) g) (\<lambda>p. store_ok) (\<lambda>e. store_ok) w"
  using ok f [of "seqs w"] store_inv_seq [OF ok] g
  by (auto simp: store_inv_def split: prod.splits sum.splits)

lemma need_bind: "bindE (need e (Some x)) f = f x"
  by (rule ext) (simp add: bindE_def need_def retE_def)

lemma submit_store_ok:
  "store_ok w \<Longrightarrow> wp (doSubmitAndObserve ctx s D) (\<lambda>p. store_ok) (\<lambda>e. store_ok) w"
  by (auto simp: doSubmitAndObserve_def payRequest_def requireSeq_def Let_def store_inv_steps
      split: option.splits sum.splits core_mapping.splits)

lemma perform_store_ok:
  assumes ok: "store_ok w" and amount: "0 \<le> cx_amountStroops ctx"
  shows "wp (perform eff ctx s ev D) (\<lambda>p. store_ok) (\<lambda>e. store_ok) w"
proof (cases eff)
  case SubmitReplacementSameSeq
  have "wp (bindE (on_seq (reuseOnDead (de_nfc D) q (cx_orderId ctx))) (\<lambda>_. doSubmitAndObserve ctx s D)) (\<lambda>p. store_ok) (\<lambda>e. store_ok) w" for q
    by (rule on_seq_bind_ok [OF ok]) (simp_all add: submit_store_ok)
  with SubmitReplacementSameSeq ok show ?thesis
    by (simp add: perform_def requireSeq_def del: wp_on_seq split: option.splits)
next
  case AllocateSeq
  then show ?thesis unfolding perform_def
    by (simp only: effect.simps) (rule on_seq_bind_ok [OF ok], simp_all add: allocate_inv)
next
  case ReallocateSeq
  then show ?thesis unfolding perform_def
    by (simp only: effect.simps) (rule on_seq_bind_ok [OF ok], simp_all add: reallocate_inv)
next
  case ReleaseSeq
  have "wp (bindE (on_seq (release (de_nfc D) q (cx_orderId ctx))) (\<lambda>_. retE NO_EVENT)) (\<lambda>p. store_ok) (\<lambda>e. store_ok) w" for q
    by (rule on_seq_bind_ok [OF ok]) (simp_all add: release_inv)
  with ReleaseSeq ok show ?thesis
    by (simp add: perform_def requireSeq_def del: wp_on_seq split: option.splits)
next
  case ConfirmBurnedSeq
  show ?thesis
  proof (cases "cx_activeSeq ctx")
    case None
    with ConfirmBurnedSeq ok show ?thesis by (simp add: perform_def perform_confirmBurnedSeq_def requireSeq_def)
  next
    case (Some q)
    show ?thesis
      unfolding ConfirmBurnedSeq perform_def effect.simps perform_confirmBurnedSeq_def requireSeq_def Some need_bind
      by (rule on_seq_bind_ok [OF ok])
        (use ok in \<open>auto simp: confirmBurned_inv Let_def store_inv_steps split: option.splits\<close>)
  qed
qed (use ok amount in \<open>auto simp: perform_defs Let_def releaseReason_def store_inv_steps submit_store_ok [unfolded doSubmitAndObserve_def]
      split: option.splits sum.splits core_mapping.splits\<close>)

lemma amount_kept: "cx_amountStroops (apply_patch p c) = cx_amountStroops c"
  by (cases p) simp_all

lemma perform_all_store_ok:
  assumes "store_ok w" "0 \<le> cx_amountStroops (ba_ctx b)"
  shows "wp (perform_all effs s ev D b) (\<lambda>b' w'. store_ok w' \<and> 0 \<le> cx_amountStroops (ba_ctx b')) (\<lambda>e. store_ok) w"
  using assms
proof (induction effs arbitrary: b w)
  case (Cons eff effs)
  show ?case
    unfolding perform_all.simps wp_bindE
    by (rule wp_mono [OF perform_store_ok [OF Cons.prems]])
      (use Cons in \<open>auto simp: absorb_def amount_kept\<close>)
qed simp

lemma decision_store_ok: "store_ok w \<Longrightarrow> wp (decisionEvent D s ctx) (\<lambda>d. store_ok) (\<lambda>e. store_ok) w"
  by (cases s) (simp_all add: decisionEvent_def store_inv_steps)

lemma run_loop_store_ok:
  assumes "store_ok w" "0 \<le> cx_amountStroops ctx"
  shows "wp (run_loop fuel ctx s e sides D) (\<lambda>r. store_ok) (\<lambda>e. store_ok) w"
  using assms
proof (induction fuel arbitrary: ctx s e sides w)
  case (Suc fuel)
  show ?case
  proof (cases "transition s e")
    case (Transition s' effs)
    have after: "wp (after_batch fuel s' D b) (\<lambda>r. store_ok) (\<lambda>e. store_ok) w1"
      if "store_ok w1" "0 \<le> cx_amountStroops (ba_ctx b)" for b w1
      using that Suc.IH
      by (auto simp: after_batch_def applyEscalate_def store_inv_steps intro!: wp_mono [OF decision_store_ok] split: option.splits)
    show ?thesis
      unfolding run_loop_step [OF Transition] wp_bindE
      by (rule wp_mono [OF perform_all_store_ok]) (use Suc.prems after in auto)
  qed (use Suc.prems in simp_all)
qed simp

section \<open>A start\<close>

text \<open>The three ways a start can go on after its reservation.\<close>

lemma reserve_outcome_cases:
  "fst (reserve ord a t n l) \<noteq> ReserveUnknown"
  "fst (reserve ord a t n l) = ReserveOk i \<Longrightarrow> \<exists>r. reservationFor (snd (reserve ord a t n l)) ord = Some r \<and> rv_amountStroops r = a"
  by (auto simp: reserve_def reserve_begin_def reserve_end_def commit_def reservationFor_def Let_def split: option.splits if_splits)

definition reserved_for :: "order_ctx \<Rightarrow> store \<Rightarrow> bool" where
  "reserved_for ctx s \<longleftrightarrow> (\<exists>r. reservationFor (so_ledger s) (cx_orderId ctx) = Some r \<and> rv_amountStroops r = cx_amountStroops ctx)"

lemma start_exists:
  assumes "has_key (so_orders (wo_store w)) (cx_orderId ctx)"
  shows "start ctx D w = (Inr (finish ctx Reserved [] False AlreadyStarted), w)"
  using assms by (simp add: start_def initialState_def bindE_def on_store_def createIfAbsent_def retE_def)

text \<open>How a start that created its order may end.\<close>

definition start_ends :: "order_ctx \<Rightarrow> world \<Rightarrow> run_result \<Rightarrow> world \<Rightarrow> bool" where
  "start_ends ctx w r w' \<longleftrightarrow>
     has_key (so_orders (wo_store w')) (cx_orderId ctx) \<and> payments (wo_calls w') = payments (wo_calls w)
     \<and> (rr_state r = SolvencyReserved \<and> rr_quiescence r = Waiting \<and> reserved_for ctx (wo_store w')
        \<or> rr_state r = FailedClean \<and> rr_quiescence r = Terminal)"

lemma created_row:
  "\<not> has_key (so_orders s) ord \<Longrightarrow> fst (createIfAbsent ord s) \<and> has_key (so_orders (snd (createIfAbsent ord s))) ord
     \<and> so_ledger (snd (createIfAbsent ord s)) = so_ledger s"
  by (simp add: createIfAbsent_def has_key_def)

lemma has_key_frames [simp]:
  "so_orders (snd (store_reserve ord a t n s)) = so_orders s" "so_orders (releaseReservation ord s) = so_orders s"
  by (simp_all add: store_defs split_beta)

lemma checkout_wp:
  assumes "has_key (so_orders (wo_store w1)) (cx_orderId ctx)" "reserved_for ctx (wo_store w1)"
    "payments (wo_calls w1) = payments (wo_calls w)"
  shows "wp (run_loop (Suc (Suc (Suc k))) ctx Reserved SolvencyOk sides D) (start_ends ctx w)
    (\<lambda>err w'. soft_error err \<and> reserved_for ctx (wo_store w') \<and> payments (wo_calls w') = payments (wo_calls w)) w1"
  using assms
  by (auto simp: sm_defs guard_defs perform_def perform_fireCheckoutForm_def NO_EVENT_def event_result_def absorb_def decisionEvent_def
      releaseReason_def start_ends_def reserved_for_def finish_def soft_error_def
      split: option.splits sum.splits)

lemma refused_wp:
  assumes "has_key (so_orders (wo_store w1)) (cx_orderId ctx)" "payments (wo_calls w1) = payments (wo_calls w)"
  shows "wp (run_loop (Suc k) ctx Reserved SolvencyFail sides D) (\<lambda>r w'. start_ends ctx w r w' \<and> wo_calls w' = wo_calls w1) (\<lambda>err w'. False) w1"
  using assms
  by (simp add: sm_defs guard_defs decisionEvent_def start_ends_def finish_def)

lemma run_fuel_Suc: "\<exists>k. run_fuel D = Suc (Suc (Suc k))"
  by (rule exI [of _ "run_fuel D - 3"]) (simp add: run_fuel_def Let_def)

definition first_reserve :: "order_ctx \<Rightarrow> deps \<Rightarrow> world \<Rightarrow> reserve_outcome \<times> reservation_ledger" where
  "first_reserve ctx D w = reserve (cx_orderId ctx) (cx_amountStroops ctx) (po_reservationTtlMs (ec_policy (de_config D)))
     (de_now D (wo_tick w) * 1000) (so_ledger (wo_store w))"

text \<open>A start of a new order is a run from the state after the reservation.\<close>

definition reserved_world :: "order_ctx \<Rightarrow> deps \<Rightarrow> world \<Rightarrow> world" where
  "reserved_world ctx D w = w\<lparr> wo_tick := Suc (wo_tick w),
     wo_store := (snd (createIfAbsent (cx_orderId ctx) (wo_store w)))\<lparr> so_ledger := snd (first_reserve ctx D w) \<rparr> \<rparr>"

definition solvency_event :: "reserve_outcome \<Rightarrow> event" where
  "solvency_event r = (case r of ReserveOk _ \<Rightarrow> SolvencyOk | Insufficient _ _ \<Rightarrow> SolvencyFail | ReserveUnknown \<Rightarrow> SolvencyUnknown)"

lemma bindE_retE_id: "bindE m retE = m"
  by (rule ext) (simp add: bindE_def retE_def split: sum.splits prod.splits)

lemma start_is_run:
  assumes "\<not> has_key (so_orders (wo_store w)) (cx_orderId ctx)"
  shows "start ctx D w = run ctx Reserved (solvency_event (fst (first_reserve ctx D w))) D (reserved_world ctx D w)"
proof -
  have res: "store_reserve (cx_orderId ctx) (cx_amountStroops ctx) (po_reservationTtlMs (ec_policy (de_config D)))
      (de_now D (wo_tick w) * 1000) (snd (createIfAbsent (cx_orderId ctx) (wo_store w)))
    = (fst (first_reserve ctx D w), (snd (createIfAbsent (cx_orderId ctx) (wo_store w)))\<lparr> so_ledger := snd (first_reserve ctx D w) \<rparr>)"
    using created_row [OF assms] by (simp add: store_reserve_def first_reserve_def split_beta)
  have same: "(\<lambda>rest. retE (finish (rr_ctx rest) (rr_state rest) ([] @ rr_sideOutputs rest) (rr_escalate rest) (rr_quiescence rest))) = retE"
  proof (rule ext)
    fix rest :: run_result
    show "retE (finish (rr_ctx rest) (rr_state rest) ([] @ rr_sideOutputs rest) (rr_escalate rest) (rr_quiescence rest)) = retE rest"
      by (cases rest) (simp add: finish_def)
  qed
  show ?thesis
    using created_row [OF assms] res
    by (simp add: start_def initialState_def bindE_def [of "on_store _"] bindE_def [of "ask _"] bindE_def [of "perform _ _ _ _ _"]
        on_store_def ask_def perform_def perform_fireSolvencyCheck_def event_result_def NO_EVENT_def absorb_def retE_def [of "_ :: batch"]
        retE_def [of "_ :: perform_result"] bindE_def [of "bindE _ _"] split_beta same [simplified] bindE_retE_id
        reserved_world_def solvency_event_def)
qed

lemma start_wp:
  fixes D :: deps
  assumes fresh: "\<not> has_key (so_orders (wo_store w)) (cx_orderId ctx)"
  defines "reserved \<equiv> \<exists>i. fst (first_reserve ctx D w) = ReserveOk i"
  shows "wp (start ctx D) (\<lambda>r w'. start_ends ctx w r w' \<and> (reserved \<or> wo_calls w' = wo_calls w))
     (\<lambda>err w'. soft_error err \<and> reserved_for ctx (wo_store w') \<and> payments (wo_calls w') = payments (wo_calls w) \<and> reserved) w"
proof -
  obtain k where k: "run_fuel D = Suc (Suc (Suc k))" using run_fuel_Suc by blast
  have st: "wp (start ctx D) Q E w = wp (run ctx Reserved (solvency_event (fst (first_reserve ctx D w))) D) Q E (reserved_world ctx D w)" for Q E
    by (simp add: wp_def start_is_run [OF fresh])
  have key: "has_key (so_orders (wo_store (reserved_world ctx D w))) (cx_orderId ctx)"
    and calls: "wo_calls (reserved_world ctx D w) = wo_calls w"
    using created_row [OF fresh] by (simp_all add: reserved_world_def)
  show ?thesis
  proof (cases "fst (first_reserve ctx D w)")
    case (ReserveOk i)
    then have held: "reserved_for ctx (wo_store (reserved_world ctx D w))"
      using reserve_outcome_cases(2) [of "cx_orderId ctx"]
      by (simp add: reserved_for_def reserved_world_def first_reserve_def)
    have "wp (run ctx Reserved SolvencyOk D) (start_ends ctx w)
        (\<lambda>err w'. soft_error err \<and> reserved_for ctx (wo_store w') \<and> payments (wo_calls w') = payments (wo_calls w)) (reserved_world ctx D w)"
      unfolding run_def k by (rule checkout_wp [OF key held]) (simp add: calls)
    with ReserveOk show ?thesis
      unfolding st reserved_def by (auto simp: solvency_event_def elim!: wp_mono)
  next
    case (Insufficient a r)
    have "wp (run ctx Reserved SolvencyFail D) (\<lambda>r w'. start_ends ctx w r w' \<and> wo_calls w' = wo_calls (reserved_world ctx D w))
        (\<lambda>err w'. False) (reserved_world ctx D w)"
      unfolding run_def k by (rule refused_wp [OF key]) (simp add: calls)
    with Insufficient show ?thesis
      unfolding st by (auto simp: solvency_event_def calls elim!: wp_mono)
  next
    case ReserveUnknown
    then show ?thesis using reserve_outcome_cases(1) by (simp add: first_reserve_def)
  qed
qed


text \<open>The engine keeps the store's books. For an order with a non-negative amount, a run and a start keep the store's
  invariant, whatever the ports answer and however they end: the pool covers its reservations, the sequence numbers
  stay gap free and owned by one order each, the loss rows agree with the quarantine latch, and the durable evidence
  log holds exactly the rows in memory.\<close>

theorem engine_keeps_store_invariant:
  assumes "store_inv (wo_store w)" and "0 \<le> cx_amountStroops ctx"
  shows "store_inv (wo_store (snd (run ctx s e D w))) \<and> store_inv (wo_store (snd (start ctx D w)))"
proof -
  have run_ok: "store_ok (snd (run ctx s e D w))" if "store_ok w" for s e w
    using run_loop_store_ok [OF that assms(2), of "run_fuel D" s e "[]" D]
    by (auto simp: wp_def run_def split: sum.splits prod.splits)
  have "store_ok (snd (start ctx D w))"
  proof (cases "has_key (so_orders (wo_store w)) (cx_orderId ctx)")
    case True
    with start_exists [OF this] assms(1) show ?thesis by simp
  next
    case False
    have "store_ok (reserved_world ctx D w)"
      using store_inv_steps(1) [OF store_inv_steps(3) [OF assms(1)] assms(2), of "cx_orderId ctx"
          "po_reservationTtlMs (ec_policy (de_config D))" "de_now D (wo_tick w) * 1000" "cx_orderId ctx"] created_row [OF False]
      by (simp add: reserved_world_def first_reserve_def store_reserve_def split_beta)
    with run_ok show ?thesis by (simp add: start_is_run [OF False])
  qed
  with run_ok [OF assms(1)] show ?thesis by blast
qed

section \<open>A concrete run\<close>

text \<open>An engine whose first payment reverts without a known cause and whose second lands.\<close>

definition demo_config :: engine_config where
  "demo_config = \<lparr> ec_stellar = \<lparr> sc_operatorPublic = [], sc_troyPool = [], sc_passphrase = [], sc_usdcIssuer = [],
       sc_feeStroops = [], sc_timeboundsSecs = 60 \<rparr>,
     ec_psp = \<lparr> pc_callbackUrl = [], pc_currency = [], pc_paymentGroup = [], pc_locale = [], pc_buyer = [],
       pc_shippingAddress = JNull, pc_billingAddress = JNull, pc_basketItemTemplate = [] \<rparr>,
     ec_policy = \<lparr> po_maxDeadRetries = 1, po_maxReversalRetries = 1, po_maxRevertOtherRetries = 1,
       po_reservationTtlMs = 1000, po_poolLowWatermarkStroops = 0 \<rparr> \<rparr>"

definition demo_deps :: deps where
  "demo_deps = \<lparr> de_nfc = (\<lambda>u. u), de_sha256 = (\<lambda>_. replicate 32 0), de_now = (\<lambda>_. 100), de_initForm = (\<lambda>_ _. None),
     de_cancel = (\<lambda>_ _. None), de_submitPay = (\<lambda>_ _. Some (lit ''f0'', lit ''AA'')),
     de_observe = (\<lambda>t _. Some (Some (if t < 4 then LandedReverted else LandedSuccess))),
     de_revertCode = (\<lambda>_ _. Some None), de_bankTransfer = None, de_diskOk = (\<lambda>_. True), de_config = demo_config \<rparr>"

definition demo_ctx :: order_ctx where
  "demo_ctx = demo_bank_ctx\<lparr> cx_paymentMethod := Card \<rparr>"

definition demo_world :: world where
  "demo_world = \<lparr> wo_store = newStore 9 7 (Some []) [], wo_tick = 0, wo_calls = [] \<rparr>"

lemma demo_id_ok: "\<not> LONE_SURROGATE (lit ''o1'')"
  by (simp add: LONE_SURROGATE_def lit_def is_high_def is_low_def)

lemma demo_ids: "\<exists>ids. deriveIds (\<lambda>u. u) (\<lambda>_. replicate 32 0) (lit ''o1'') (lit ''G'') 5 = Inr ids"
  using demo_id_ok
  by (simp add: deriveIds_def canonicalizeOrderId_def I128_MIN_def I128_MAX_def NON_ASCII_def Let_def bindR_def)
    (simp add: lit_def)

lemma demo_fuel: "run_fuel demo_deps = Suc (Suc (Suc (Suc (Suc (Suc (Suc (Suc (Suc (Suc (Suc (Suc (Suc 0))))))))))))"
  by (simp add: run_fuel_def demo_deps_def demo_config_def)

lemmas demo_defs = demo_deps_def demo_config_def demo_ctx_def demo_bank_ctx_def demo_world_def

lemma demo_run:
  "\<exists>r w. run demo_ctx SolvencyReserved ChargeOk demo_deps demo_world = (Inr r, w) \<and> rr_state r = UsdcConfirmed
     \<and> map pay_seq (payments (wo_calls w)) = [8, 9]"
proof -
  obtain ids where ids: "deriveIds (\<lambda>u. u) (\<lambda>_. replicate 32 0) (lit ''o1'') (lit ''G'') 5 = Inr ids" using demo_ids by blast
  with demo_id_ok show ?thesis
    unfolding run_def demo_fuel
    by (simp add: demo_defs newStore_def newAllocator_def sm_defs guard_defs perform_defs
       bindE_def retE_def failE_def need_def ask_def tell_def on_store_def on_seq_def NO_EVENT_def event_result_def absorb_def decisionEvent_def
       allocate_def reallocate_def confirmBurned_def grant_def takeSeq_def with_id_def canonicalizeOrderId_def persist_def Let_def
       classifyRevertCause_def verdictToCore_def store_defs finish_def pay_seq_def retry_count_def payments_def List.map_filter_def)
qed

lemma demo_world_inv: "store_inv (wo_store demo_world)"
  using newStore_inv [of 9 7 "[]"] by (simp add: demo_world_def)

theorem run_reaches_quiescence_witness:
  "\<exists>r w. run demo_ctx SolvencyReserved ChargeOk demo_deps demo_world = (Inr r, w) \<and> rr_state r = UsdcConfirmed
     \<and> quiet_result (lit ''o1'') r w"
proof -
  have "accepted SolvencyReserved ChargeOk" by (simp add: accepted_def sm_defs)
  from run_reaches_quiescence [OF this, of demo_ctx demo_deps demo_world] demo_run show ?thesis
    by (auto simp: demo_ctx_def demo_bank_ctx_def)
qed

theorem one_run_pays_each_sequence_once_witness:
  "\<exists>new. payments (wo_calls (snd (run demo_ctx SolvencyReserved ChargeOk demo_deps demo_world))) = new
     \<and> length new = 2 \<and> list_all (own_request demo_deps demo_ctx) new \<and> distinct (map pay_seq new)"
proof -
  have inv: "alloc_inv (so_sequences (wo_store demo_world))"
    using newAllocator_inv by (simp add: demo_world_def newStore_def)
  have two: "length (payments (wo_calls (snd (run demo_ctx SolvencyReserved ChargeOk demo_deps demo_world)))) = 2"
    using demo_run by (auto dest: arg_cong [of _ _ length])
  from one_run_pays_each_sequence_once [OF inv, of demo_ctx SolvencyReserved ChargeOk demo_deps] two show ?thesis
    by (auto simp: demo_world_def)
qed

theorem engine_keeps_store_invariant_witness:
  "store_inv (wo_store (snd (run demo_ctx SolvencyReserved ChargeOk demo_deps demo_world)))
   \<and> store_inv (wo_store (snd (start demo_ctx demo_deps demo_world)))"
  using engine_keeps_store_invariant [OF demo_world_inv, of demo_ctx SolvencyReserved ChargeOk demo_deps]
  by (simp add: demo_ctx_def demo_bank_ctx_def)

end
