(* ===== verification/Sessions.thy ===== *)
theory Sessions
  imports Psp
begin

text \<open>
  The session gate of the intent route, \<^verbatim>\<open>packages/backend/src/http/session.ts\<close>: signed tokens and the budget of
  accepted orders per session. HMAC, base64url and the text form of JSON are parameters. The lemmas show that a minted
  token verifies until it expires, and count exactly how many orders a session is granted.
\<close>

section \<open>Tokens\<close>

definition DEFAULT_SESSION_TTL_SECS :: int where "DEFAULT_SESSION_TTL_SECS = 900"
definition DEFAULT_SESSION_MAX_INTENTS :: nat where "DEFAULT_SESSION_MAX_INTENTS = 5"

record session_claims =
  sl_sid :: ustring
  sl_expUnix :: int

text \<open>The functions of the runtime the tokens are made with: the HMAC of a text, base64url of bytes and back (\<open>None\<close>
  when it throws), and the UTF-8 bytes of a JSON value and back.\<close>

record token_codec =
  tc_hmac :: "ustring \<Rightarrow> ustring \<Rightarrow> byte list"
  tc_b64 :: "byte list \<Rightarrow> ustring"
  tc_unb64 :: "ustring \<Rightarrow> byte list option"
  tc_print :: "json \<Rightarrow> byte list"
  tc_parse :: "byte list \<Rightarrow> json option"

definition DOT :: "16 word" where "DOT = 46"

text \<open>\<open>sid\<close> is the hex text of sixteen random bytes.\<close>

definition mintSessionToken :: "token_codec \<Rightarrow> ustring \<Rightarrow> int \<Rightarrow> int \<Rightarrow> byte list \<Rightarrow> ustring \<times> session_claims" where
  "mintSessionToken tc secret nowUnix ttlSecs random =
     (let claims = \<lparr> sl_sid = to_hex random, sl_expUnix = nowUnix + ttlSecs \<rparr>;
          payloadB64 = tc_b64 tc (tc_print tc (JObj [(''sid'', JStr (sl_sid claims)), (''exp'', JInt (sl_expUnix claims))]));
          sigB64 = tc_b64 tc (tc_hmac tc secret payloadB64)
      in (payloadB64 @ [DOT] @ sigB64, claims))"

definition claims_of :: "json \<Rightarrow> int \<Rightarrow> session_claims option" where
  "claims_of raw nowUnix =
     (if \<not> is_jobject raw then None
      else (case (jprop raw ''sid'', jprop raw ''exp'') of
              (Some (JStr sid), Some (JInt exp)) \<Rightarrow>
                if sid = [] \<or> \<not> is_safe_int exp then None
                else if exp \<le> nowUnix then None
                else Some \<lparr> sl_sid = sid, sl_expUnix = exp \<rparr>
            | _ \<Rightarrow> None))"

text \<open>The text before the first dot and the text after it; both must be non-empty and there must be no other dot.\<close>

definition verifySessionToken :: "token_codec \<Rightarrow> ustring \<Rightarrow> ustring \<Rightarrow> int \<Rightarrow> session_claims option" where
  "verifySessionToken tc secret token nowUnix =
     (let payloadB64 = takeWhile (\<lambda>c. c \<noteq> DOT) token; rest = dropWhile (\<lambda>c. c \<noteq> DOT) token in
      if rest = [] \<or> payloadB64 = [] \<or> tl rest = [] \<or> DOT \<in> set (tl rest) then None
      else
        let expected = tc_hmac tc secret payloadB64 in
        case tc_unb64 tc (tl rest) of
          None \<Rightarrow> None
        | Some provided \<Rightarrow>
            if length provided \<noteq> length expected \<or> provided \<noteq> expected then None
            else (case tc_unb64 tc payloadB64 of
                    None \<Rightarrow> None
                  | Some bytes \<Rightarrow> (case tc_parse tc bytes of None \<Rightarrow> None | Some raw \<Rightarrow> claims_of raw nowUnix)))"

section \<open>Budget\<close>

record budget_row =
  bu_used :: nat
  bu_expUnix :: int

definition prune_budget :: "int \<Rightarrow> (ustring, budget_row) jsmap \<Rightarrow> (ustring, budget_row) jsmap" where
  "prune_budget nowUnix counts = filter (\<lambda>(sid, row). \<not> bu_expUnix row \<le> nowUnix) counts"

definition take_budget ::
    "nat \<Rightarrow> session_claims \<Rightarrow> int \<Rightarrow> (ustring, budget_row) jsmap \<Rightarrow> bool \<times> (ustring, budget_row) jsmap" where
  "take_budget maxIntents claims nowUnix counts =
     (let counts = prune_budget nowUnix counts;
          row = (case map_of counts (sl_sid claims) of
                   None \<Rightarrow> \<lparr> bu_used = 0, bu_expUnix = sl_expUnix claims \<rparr> | Some row \<Rightarrow> row) in
      if bu_used row \<ge> maxIntents then (False, counts)
      else (True, AList.update (sl_sid claims) (row\<lparr> bu_used := bu_used row + 1 \<rparr>) counts))"

text \<open>A history of calls, each with the time it is made at; the answers, in order.\<close>

fun take_history ::
    "nat \<Rightarrow> (session_claims \<times> int) list \<Rightarrow> (ustring, budget_row) jsmap \<Rightarrow> (session_claims \<times> bool) list" where
  "take_history mx [] counts = []"
| "take_history mx ((claims, now) # calls) counts =
     (let (ok, counts') = take_budget mx claims now counts in (claims, ok) # take_history mx calls counts')"

section \<open>Lemmas\<close>

lemma map_of_filter_snd:
  "distinct (map fst m) \<Longrightarrow> map_of (filter (\<lambda>(k, v). P v) m) k = (case map_of m k of None \<Rightarrow> None | Some v \<Rightarrow> if P v then Some v else None)"
  by (induction m) (auto split: option.splits simp: map_of_eq_None_iff image_iff rev_image_eqI)

lemma distinct_prune: "distinct (map fst m) \<Longrightarrow> distinct (map fst (prune_budget t m))"
  by (auto simp: prune_budget_def distinct_map_filter)

lemma take_budget_keys: "distinct (map fst m) \<Longrightarrow> distinct (map fst (snd (take_budget mx c t m)))"
  by (simp add: take_budget_def Let_def distinct_prune distinct_update split: option.splits)

definition used_by :: "ustring \<Rightarrow> (ustring, budget_row) jsmap \<Rightarrow> nat" where
  "used_by sid m = (case map_of m sid of None \<Rightarrow> 0 | Some row \<Rightarrow> bu_used row)"

definition granted :: "ustring \<Rightarrow> (session_claims \<times> bool) list \<Rightarrow> nat" where
  "granted sid answers = length (filter (\<lambda>(c, ok). sl_sid c = sid \<and> ok) answers)"

definition asked :: "ustring \<Rightarrow> (session_claims \<times> int) list \<Rightarrow> nat" where
  "asked sid calls = length (filter (\<lambda>(c, now). sl_sid c = sid) calls)"

text \<open>A call for another session leaves an unexpired row alone.\<close>

lemma take_budget_row:
  assumes "distinct (map fst m)" and "\<And>row. map_of m sid = Some row \<Longrightarrow> bu_expUnix row = e" and "now < e"
    and "sl_sid c = sid \<longrightarrow> sl_expUnix c = e"
  shows "map_of (snd (take_budget mx c now m)) sid =
      (if sl_sid c = sid \<and> used_by sid m < mx then Some \<lparr> bu_used = used_by sid m + 1, bu_expUnix = e \<rparr> else map_of m sid)"
    and "sl_sid c = sid \<Longrightarrow> fst (take_budget mx c now m) = (used_by sid m < mx)"
proof -
  have pruned: "map_of (prune_budget now m) sid = map_of m sid"
    using map_of_filter_snd [OF assms(1), of "\<lambda>row. \<not> bu_expUnix row \<le> now" sid] assms(2,3)
    by (auto simp: prune_budget_def split: option.splits)
  show "map_of (snd (take_budget mx c now m)) sid =
      (if sl_sid c = sid \<and> used_by sid m < mx then Some \<lparr> bu_used = used_by sid m + 1, bu_expUnix = e \<rparr> else map_of m sid)"
    using assms(2,4) pruned by (auto simp: take_budget_def Let_def used_by_def split: option.splits)
  show "fst (take_budget mx c now m) = (used_by sid m < mx)" if "sl_sid c = sid"
    using that pruned by (auto simp: take_budget_def Let_def used_by_def split: option.splits)
qed

lemma asked_none: "asked sid calls = 0 \<Longrightarrow> granted sid (take_history mx calls m) = 0"
  by (induction mx calls m rule: take_history.induct)
    (auto simp: asked_def granted_def Let_def split: prod.splits if_splits)

lemma take_history_grants:
  assumes "sorted (map snd calls)" and "\<And>c now. (c, now) \<in> set calls \<Longrightarrow> sl_sid c = sid \<Longrightarrow> sl_expUnix c = e \<and> now < e"
    and "distinct (map fst m)" and "\<And>row. map_of m sid = Some row \<Longrightarrow> bu_expUnix row = e" and "used_by sid m \<le> mx"
  shows "granted sid (take_history mx calls m) = min (mx - used_by sid m) (asked sid calls)"
  using assms
proof (induction calls arbitrary: m)
  case Nil
  then show ?case by (simp add: granted_def asked_def)
next
  case (Cons call calls)
  obtain c now where call: "call = (c, now)" by fastforce
  let ?m = "snd (take_budget mx c now m)"
  have split: "granted sid (take_history mx (call # calls) m)
      = (if sl_sid c = sid \<and> fst (take_budget mx c now m) then 1 else 0) + granted sid (take_history mx calls ?m)"
    by (simp add: call granted_def Let_def split: prod.splits)
  show ?case
  proof (cases "now < e")
    case True
    have exp: "sl_sid c = sid \<longrightarrow> sl_expUnix c = e" using Cons.prems(2) call by auto
    note row = take_budget_row [OF Cons.prems(3,4) True exp]
    have used: "used_by sid ?m = used_by sid m + (if sl_sid c = sid \<and> used_by sid m < mx then 1 else 0)"
      using row(1) [of mx] by (simp add: used_by_def)
    have "granted sid (take_history mx calls ?m) = min (mx - used_by sid ?m) (asked sid calls)"
    proof (rule Cons.IH)
      show "bu_expUnix r = e" if "map_of ?m sid = Some r" for r
        using that row(1) [of mx] Cons.prems(4) by (auto split: if_splits)
    qed (use Cons.prems used in \<open>auto simp: take_budget_keys\<close>)
    then show ?thesis using split used row(2) [of mx] Cons.prems(5) by (auto simp: asked_def call)
  next
    case False
    have "asked sid (call # calls) = 0"
      using Cons.prems(1,2) False call by (fastforce simp: asked_def filter_empty_conv)
    with asked_none show ?thesis by simp
  qed
qed

text \<open>C38. A session is granted exactly its budget. In any history of budget calls whose clock does not run backwards, made
  with unexpired claims of which a session has one expiry, the calls of a session that are granted are the first
  ones, as many as the budget allows: the smaller of the budget and the number of its calls, whatever the other
  sessions do and whenever expired rows are pruned in between.\<close>

theorem session_budget_is_exact:
  assumes "sorted (map snd calls)"
    and "\<forall>(c, now) \<in> set calls. sl_sid c = sid \<longrightarrow> sl_expUnix c = e \<and> now < e"
  shows "granted sid (take_history maxIntents calls []) = min maxIntents (asked sid calls)"
  using take_history_grants [OF assms(1), of sid e "[]" maxIntents] assms(2) by (auto simp: used_by_def)

theorem session_budget_is_exact_witness:
  "\<exists>c d. sl_sid c \<noteq> sl_sid d
     \<and> granted (sl_sid c) (take_history 2 [(c, 1), (d, 2), (c, 3), (c, 4)] []) = 2"
proof -
  let ?c = "\<lparr> sl_sid = [1], sl_expUnix = 9 \<rparr>" and ?d = "\<lparr> sl_sid = [2], sl_expUnix = 3 \<rparr>"
  have "granted [1] (take_history 2 [(?c, 1), (?d, 2), (?c, 3), (?c, 4)] []) = min 2 (asked [1] [(?c, 1), (?d, 2), (?c, 3), (?c, 4)])"
    by (rule session_budget_is_exact [of _ _ 9]) auto
  then show ?thesis by (intro exI [of _ ?c] exI [of _ ?d]) (simp add: asked_def)
qed

text \<open>What a deployment's codec satisfies: base64url reads back what it wrote and never writes a dot or an empty text
  for bytes, and JSON text reads back.\<close>

definition codec_ok :: "token_codec \<Rightarrow> bool" where
  "codec_ok tc \<longleftrightarrow> (\<forall>b. tc_unb64 tc (tc_b64 tc b) = Some b \<and> DOT \<notin> set (tc_b64 tc b) \<and> (b \<noteq> [] \<longrightarrow> tc_b64 tc b \<noteq> []))
     \<and> (\<forall>j. tc_parse tc (tc_print tc j) = Some j \<and> tc_print tc j \<noteq> [])
     \<and> (\<forall>k t. tc_hmac tc k t \<noteq> [])"

lemma dot_split:
  "DOT \<notin> set p \<Longrightarrow> takeWhile (\<lambda>c. c \<noteq> DOT) (p @ DOT # s) = p \<and> dropWhile (\<lambda>c. c \<noteq> DOT) (p @ DOT # s) = DOT # s"
  by (induction p) auto

lemma minted_token_verifies:
  assumes "codec_ok tc" "random \<noteq> []" "is_safe_int (now + ttl)" "t < now + ttl"
  shows "verifySessionToken tc secret (fst (mintSessionToken tc secret now ttl random)) t = Some (snd (mintSessionToken tc secret now ttl random))"
proof -
  let ?p = "tc_b64 tc (tc_print tc (JObj [(''sid'', JStr (to_hex random)), (''exp'', JInt (now + ttl))]))"
  let ?s = "tc_b64 tc (tc_hmac tc secret ?p)"
  have p: "?p \<noteq> []" "DOT \<notin> set ?p" "?s \<noteq> []" "DOT \<notin> set ?s" using assms(1) by (auto simp: codec_ok_def)
  have "to_hex random \<noteq> []" using assms(2) by (cases random) (simp_all add: to_hex_def)
  with assms p dot_split [OF p(2), of ?s] show ?thesis
    by (simp add: verifySessionToken_def mintSessionToken_def Let_def codec_ok_def claims_of_def)
qed

lemma tampered_token_refused:
  assumes "DOT \<notin> set p" "DOT \<notin> set s" "tc_unb64 tc s \<noteq> Some (tc_hmac tc secret p)"
  shows "verifySessionToken tc secret (p @ DOT # s) t = None"
  using assms dot_split [OF assms(1), of s] by (auto simp: verifySessionToken_def Let_def split: option.splits)

end
