(* ===== verification/Http_App.thy ===== *)
theory Http_App
  imports Engine_Runs Sessions
begin

text \<open>
  The HTTP layer, \<^verbatim>\<open>packages/backend/src/http\<close>: the order registry, the public status and the handlers of
  \<^verbatim>\<open>app.ts\<close>. A handler is cut where it gives up the event loop in a way another handler can see: what it does
  before it takes the order's lock, and what it does under the lock. A reply is a status code and a JSON value; an
  exception that leaves a handler is \<open>Inl\<close>. Routing, content parsing and the rate-limit plugin are not modelled.
\<close>

section \<open>The registry, order-registry.ts\<close>

record order_record =
  od_ctx :: order_ctx
  od_state :: state

record registry =
  rg_byOrder :: "(ustring, order_record) jsmap"
  rg_convToOrder :: "(ustring, ustring) jsmap"

definition newRegistry :: registry where
  "newRegistry = \<lparr> rg_byOrder = [], rg_convToOrder = [] \<rparr>"

definition registry_put :: "order_ctx \<Rightarrow> state \<Rightarrow> registry \<Rightarrow> registry" where
  "registry_put ctx s g =
     g\<lparr> rg_byOrder := AList.update (cx_orderId ctx) \<lparr> od_ctx = ctx, od_state = s \<rparr> (rg_byOrder g),
        rg_convToOrder := AList.update (cx_conversationId ctx) (cx_orderId ctx) (rg_convToOrder g) \<rparr>"

definition getByOrderId :: "registry \<Rightarrow> ustring \<Rightarrow> order_record option" where
  "getByOrderId g orderId = map_of (rg_byOrder g) orderId"

definition getByConversationId :: "registry \<Rightarrow> ustring \<Rightarrow> order_record option" where
  "getByConversationId g conversationId =
     (case map_of (rg_convToOrder g) conversationId of None \<Rightarrow> None | Some orderId \<Rightarrow> map_of (rg_byOrder g) orderId)"

definition ordersInStates :: "registry \<Rightarrow> state list \<Rightarrow> order_record list" where
  "ordersInStates g states = filter (\<lambda>r. od_state r \<in> set states) (map snd (rg_byOrder g))"

section \<open>The public status, public-status.ts\<close>

datatype public_status = PubPending | PubProcessing | PubCompleted | PubFailed | PubReview

fun toPublicStatus :: "state \<Rightarrow> public_status" where
  "toPublicStatus Reserved = PubPending"
| "toPublicStatus SolvencyReserved = PubPending"
| "toPublicStatus UsdcSubmitted = PubProcessing"
| "toPublicStatus UsdcPending = PubProcessing"
| "toPublicStatus UsdcDead = PubProcessing"
| "toPublicStatus UsdcReverted = PubProcessing"
| "toPublicStatus UsdcConfirmed = PubCompleted"
| "toPublicStatus Reconciled = PubCompleted"
| "toPublicStatus FailedClean = PubFailed"
| "toPublicStatus ChargeReversing = PubReview"
| "toPublicStatus ChargeReversed = PubReview"
| "toPublicStatus LossReview = PubReview"

fun status_text :: "public_status \<Rightarrow> ustring" where
  "status_text PubPending = lit ''pending''"
| "status_text PubProcessing = lit ''processing''"
| "status_text PubCompleted = lit ''completed''"
| "status_text PubFailed = lit ''failed''"
| "status_text PubReview = lit ''review''"

section \<open>Dependencies, state, requests and replies\<close>

record app_quote =
  aq_userTryKurus :: int
  aq_paidPriceTry :: ustring
  aq_appliedRateStroops :: int
  aq_oracleMidE7 :: int
  aq_spreadBps :: int
  aq_spreadRevenueKurus :: int
  aq_pspCostKurus :: int

record intent_auth =
  ia_secret :: ustring
  ia_ttlSecs :: int
  ia_maxIntentsPerSession :: nat

text \<open>The answers of the outside world are functions of the call counter; \<open>None\<close> is an exception. The ports the engine
  does not use itself stand here beside the engine's.\<close>

record app_deps =
  ap_engine :: deps
  ap_quote :: "nat \<Rightarrow> int \<Rightarrow> app_quote option"
  ap_bankQuote :: "(nat \<Rightarrow> int \<Rightarrow> app_quote option) option"
  ap_webhookSigningSecret :: ustring
  ap_intentAuth :: "intent_auth option"
  ap_snapshot :: "nat \<Rightarrow> ustring \<Rightarrow> account_snapshot option"
  ap_retrieveForm :: "nat \<Rightarrow> ustring \<Rightarrow> ustring \<Rightarrow> raw_result option"
  ap_retrieveTransfer :: "nat \<Rightarrow> bank_instructions \<Rightarrow> bank_observation option"
  ap_simulate :: "(nat \<Rightarrow> bank_instructions \<Rightarrow> bool) option"
  ap_random :: "nat \<Rightarrow> byte list"
  ap_isEd25519 :: "ustring \<Rightarrow> bool"
  ap_isContract :: "ustring \<Rightarrow> bool"
  ap_codec :: token_codec

record bridge =
  br_world :: world
  br_registry :: registry
  br_budget :: "(ustring, budget_row) jsmap"

definition newBridge :: "store \<Rightarrow> bridge" where
  "newBridge s = \<lparr> br_world = \<lparr> wo_store = s, wo_tick = 0, wo_calls = [] \<rparr>, br_registry = newRegistry, br_budget = [] \<rparr>"

type_synonym reply = "nat \<times> json"

definition err :: "nat \<Rightarrow> string \<Rightarrow> reply" where
  "err code text = (code, JObj [(''error'', JStr (lit text))])"

datatype header = HeaderAbsent | HeaderOne ustring | HeaderMany "ustring list"

fun headerStr :: "header \<Rightarrow> ustring option" where
  "headerStr HeaderAbsent = None"
| "headerStr (HeaderOne v) = Some v"
| "headerStr (HeaderMany vs) = (case vs of [] \<Rightarrow> None | v # _ \<Rightarrow> Some v)"

record http_request =
  hr_body :: "json option"
  hr_sessionHeader :: header
  hr_signatureHeader :: header
  hr_ip :: ustring

text \<open>One answer of the outside world.\<close>

definition next_tick :: "bridge \<Rightarrow> nat \<times> bridge" where
  "next_tick b = (wo_tick (br_world b), b\<lparr> br_world := (br_world b)\<lparr> wo_tick := wo_tick (br_world b) + 1 \<rparr> \<rparr>)"

definition nowUnix :: "app_deps \<Rightarrow> bridge \<Rightarrow> int \<times> bridge" where
  "nowUnix A b = (let (t, b') = next_tick b in (de_now (ap_engine A) t, b'))"

section \<open>Helpers of app.ts\<close>

definition optStr :: "json \<Rightarrow> string \<Rightarrow> ustring option" where
  "optStr obj k = (case jprop obj k of Some (JStr v) \<Rightarrow> Some v | _ \<Rightarrow> None)"

text \<open>\<open>canonicalizeOrderId\<close> throws nothing but \<open>OrderIdNotWellFormed\<close>.\<close>

definition tryCanonicalizeOrderId :: "app_deps \<Rightarrow> ustring \<Rightarrow> ustring option" where
  "tryCanonicalizeOrderId A rawOrderId =
     (case canonicalizeOrderId (de_nfc (ap_engine A)) (JsIs rawOrderId) of Inl _ \<Rightarrow> None | Inr c \<Rightarrow> Some c)"

definition DEV_FALLBACK_BUYER_IP :: ustring where "DEV_FALLBACK_BUYER_IP = lit ''85.34.78.112''"

definition starts_with :: "ustring \<Rightarrow> ustring \<Rightarrow> bool" where
  "starts_with p u = (take (length p) u = p)"

definition isPrivateOrLoopback :: "ustring \<Rightarrow> bool" where
  "isPrivateOrLoopback ip =
     (ip = lit ''127.0.0.1'' \<or> ip = lit ''::1'' \<or> starts_with (lit ''::ffff:127.'') ip \<or> starts_with (lit ''10.'') ip
      \<or> starts_with (lit ''192.168.'') ip
      \<or> list_ex (\<lambda>n. starts_with (lit (''172.'' @ nat_dec n @ ''.'')) ip) [16..<32]
      \<or> starts_with (lit ''fc'') ip \<or> starts_with (lit ''fd'') ip)"

definition buyerIpOf :: "ustring \<Rightarrow> ustring" where
  "buyerIpOf ip = (if length ip = 0 \<or> isPrivateOrLoopback ip then DEV_FALLBACK_BUYER_IP else ip)"

text \<open>\<open>BigInt(s)\<close>: white space around a decimal number with an optional sign, or around an unsigned number with a radix
  prefix; the empty text is zero.\<close>

definition radix_nat :: "nat \<Rightarrow> ustring \<Rightarrow> nat option" where
  "radix_nat radix u =
     (if u = [] then None
      else foldl (\<lambda>acc c. case (acc, hex_val c) of
          (Some a, Some d) \<Rightarrow> if d < radix then Some (a * radix + d) else None
        | _ \<Rightarrow> None) (Some 0) u)"

definition parseBigInt :: "ustring \<Rightarrow> int option" where
  "parseBigInt u =
     (let s = js_trim u in
      if s = [] then Some 0
      else if starts_with (lit ''-'') s then map_option (\<lambda>n. - int n) (radix_nat 10 (drop 1 s))
      else if starts_with (lit ''+'') s then map_option int (radix_nat 10 (drop 1 s))
      else if starts_with (lit ''0x'') s \<or> starts_with (lit ''0X'') s then map_option int (radix_nat 16 (drop 2 s))
      else if starts_with (lit ''0o'') s \<or> starts_with (lit ''0O'') s then map_option int (radix_nat 8 (drop 2 s))
      else if starts_with (lit ''0b'') s \<or> starts_with (lit ''0B'') s then map_option int (radix_nat 2 (drop 2 s))
      else map_option int (radix_nat 10 s))"

definition opt_field :: "string \<Rightarrow> ustring option \<Rightarrow> (string \<times> json) list" where
  "opt_field k v = (case v of None \<Rightarrow> [] | Some u \<Rightarrow> [(k, JStr u)])"

definition null_or :: "ustring option \<Rightarrow> json" where
  "null_or v = (case v of None \<Rightarrow> JNull | Some u \<Rightarrow> JStr u)"

definition instructions_json :: "bank_instructions \<Rightarrow> json" where
  "instructions_json i =
     JObj ([(''providerId'', JStr (bi_providerId i)), (''transferId'', JStr (bi_transferId i)), (''orderId'', JStr (bi_orderId i)),
            (''reference'', JStr (bi_reference i)), (''iban'', JStr (bi_iban i)), (''beneficiary'', JStr (bi_beneficiary i)),
            (''amountTry'', JStr (bi_amountTry i)), (''currency'', JStr (lit ''TRY'')), (''expiresAtUnix'', JInt (bi_expiresAtUnix i))]
           @ opt_field ''sandboxToken'' (bi_sandboxToken i))"

fun method_text :: "payment_method \<Rightarrow> ustring" where
  "method_text Card = lit ''card''"
| "method_text BankTransferMethod = lit ''bank_transfer''"

text \<open>\<open>value ?? 'card'\<close>, then the two accepted texts.\<close>

definition parse_method :: "json option \<Rightarrow> payment_method option" where
  "parse_method v =
     (case v of
        None \<Rightarrow> Some Card
      | Some JNull \<Rightarrow> Some Card
      | Some (JStr m) \<Rightarrow> (if m = lit ''card'' then Some Card else if m = lit ''bank_transfer'' then Some BankTransferMethod else None)
      | _ \<Rightarrow> None)"

definition bank_missing :: "app_deps \<Rightarrow> payment_method \<Rightarrow> bool" where
  "bank_missing A m = (m = BankTransferMethod \<and> (de_bankTransfer (ap_engine A) = None \<or> ap_bankQuote A = None))"

text \<open>The quote function of the method; the bank one is present where it is called.\<close>

definition quote_for :: "app_deps \<Rightarrow> payment_method \<Rightarrow> nat \<Rightarrow> int \<Rightarrow> app_quote option" where
  "quote_for A m = (if m = BankTransferMethod then (case ap_bankQuote A of Some f \<Rightarrow> f | None \<Rightarrow> \<lambda>_ _. None) else ap_quote A)"

fun build_error_text :: "build_error \<Rightarrow> string" where
  "build_error_text OrderIdMalformed = ''OrderIdMalformed''"
| "build_error_text OrderIdEmpty = ''OrderIdEmpty''"
| "build_error_text AddressInvalidChecksum = ''AddressInvalidChecksum''"
| "build_error_text MemoMissing = ''MemoMissing''"
| "build_error_text MemoWrongLength = ''MemoWrongLength''"
| "build_error_text MemoZero = ''MemoZero''"
| "build_error_text MemoMismatch = ''MemoMismatch''"
| "build_error_text AmountNonPositive = ''AmountNonPositive''"
| "build_error_text IssuerNotAllowlisted = ''IssuerNotAllowlisted''"
| "build_error_text TrustlineMissing = ''TrustlineMissing''"
| "build_error_text DestinationMemoRequired = ''DestinationMemoRequired''"

section \<open>POST /intent\<close>

text \<open>The session gate. \<open>Inr None\<close>: no gate is configured.\<close>

definition intent_session :: "app_deps \<Rightarrow> http_request \<Rightarrow> bridge \<Rightarrow> (reply + session_claims option) \<times> bridge" where
  "intent_session A rq b =
     (case ap_intentAuth A of
        None \<Rightarrow> (Inr None, b)
      | Some ia \<Rightarrow>
          (case headerStr (hr_sessionHeader rq) of
             None \<Rightarrow> (Inl (err 401 ''SessionRequired''), b)
           | Some h \<Rightarrow>
               let (now, b) = nowUnix A b in
               (case verifySessionToken (ap_codec A) (ia_secret ia) h now of
                 None \<Rightarrow> (Inl (err 401 ''SessionRequired''), b)
               | Some claims \<Rightarrow> (Inr (Some claims), b))))"

record intent_fields =
  nf_method :: payment_method
  nf_orderId :: ustring
  nf_destination :: ustring
  nf_amountStr :: ustring
  nf_assetIssuer :: ustring
  nf_memoHex :: ustring
  nf_ip :: ustring

definition intent_parse :: "app_deps \<Rightarrow> http_request \<Rightarrow> reply + intent_fields" where
  "intent_parse A rq =
     (case hr_body rq of
        None \<Rightarrow> Inl (err 400 ''BadRequest'')
      | Some body \<Rightarrow>
          if \<not> is_jobject body then Inl (err 400 ''BadRequest'')
          else (case parse_method (jprop body ''paymentMethod'') of
            None \<Rightarrow> Inl (err 400 ''BadPaymentMethod'')
          | Some m \<Rightarrow>
              if bank_missing A m then Inl (err 503 ''BankTransferUnavailable'')
              else (case (optStr body ''orderId'', optStr body ''destination'', optStr body ''amountStroops'',
                          optStr body ''assetIssuer'', optStr body ''memoHex'') of
                (Some rawOrderId, Some destination, Some amountStr, Some assetIssuer, Some memoHex) \<Rightarrow>
                  if length rawOrderId = 0 then Inl (err 400 ''BadRequest'')
                  else (case tryCanonicalizeOrderId A rawOrderId of
                          None \<Rightarrow> Inl (err 400 ''OrderIdMalformed'')
                        | Some orderId \<Rightarrow>
                            Inr \<lparr> nf_method = m, nf_orderId = orderId, nf_destination = destination, nf_amountStr = amountStr,
                                  nf_assetIssuer = assetIssuer, nf_memoHex = memoHex, nf_ip = buyerIpOf (hr_ip rq) \<rparr>)
              | _ \<Rightarrow> Inl (err 400 ''BadRequest''))))"

text \<open>The first locked section: an order that exists keeps its identity and its method, and a bank transfer is shown again.\<close>

definition intent_existing :: "intent_fields \<Rightarrow> bridge \<Rightarrow> reply option" where
  "intent_existing f b =
     (case getByOrderId (br_registry b) (nf_orderId f) of
        None \<Rightarrow> None
      | Some rec \<Rightarrow>
          let c = od_ctx rec in
          if cx_paymentMethod c \<noteq> nf_method f \<or> cx_destination c \<noteq> nf_destination f
             \<or> lit (bigint_str (cx_amountStroops c)) \<noteq> nf_amountStr f \<or> cx_memoHex c \<noteq> nf_memoHex f
          then Some (err 409 ''OrderConflict'')
          else if nf_method f \<noteq> BankTransferMethod then None
          else if od_state rec \<noteq> SolvencyReserved then Some (err 409 ''OrderClosed'')
          else if cx_bankReview c \<or> isLossFlagged (wo_store (br_world b)) (nf_orderId f) then Some (err 409 ''BankTransferReview'')
          else (case cx_bankTransfer c of
                  None \<Rightarrow> Some (err 503 ''BankTransferPreparing'')
                | Some i \<Rightarrow>
                    Some (200, JObj [(''orderId'', JStr (nf_orderId f)), (''token'', null_or (cx_token c)),
                      (''paymentMethod'', JStr (method_text (nf_method f))), (''paidPriceTry'', JStr (cx_paidPriceTry c)),
                      (''bankTransfer'', instructions_json i), (''alreadyStarted'', JBool True)])))"

definition intent_budget :: "app_deps \<Rightarrow> intent_fields \<Rightarrow> session_claims option \<Rightarrow> bridge \<Rightarrow> bool \<times> bridge" where
  "intent_budget A f session b =
     (case (ap_intentAuth A, session) of
        (Some ia, Some claims) \<Rightarrow>
          if getByOrderId (br_registry b) (nf_orderId f) \<noteq> None then (True, b)
          else
            let (now, b) = nowUnix A b; (ok, counts) = take_budget (ia_maxIntentsPerSession ia) claims now (br_budget b)
            in (ok, b\<lparr> br_budget := counts \<rparr>)
      | _ \<Rightarrow> (True, b))"

text \<open>The account snapshot, the fail-closed payout constructor, the pool check and the price. The
  constructor throws nothing, so the server's own error reply does not arise there.\<close>

definition intent_price ::
    "app_deps \<Rightarrow> intent_fields \<Rightarrow> bridge \<Rightarrow> (reply + (int \<times> validated_payout \<times> app_quote)) \<times> bridge" where
  "intent_price A f b =
     (case parseBigInt (nf_amountStr f) of
        None \<Rightarrow> (Inl (err 400 ''BadAmount''), b)
      | Some amount \<Rightarrow>
          let (t, b) = next_tick b; D = ap_engine A in
          (case ap_snapshot A t (nf_destination f) of
            None \<Rightarrow> (Inl (err 502 ''SnapshotUnavailable''), b)
          | Some snap \<Rightarrow>
              (case build (de_nfc D) (de_sha256 D) (ap_isEd25519 A) (ap_isContract A)
                  \<lparr> rp_orderId = JsIs (nf_orderId f), rp_destination = JsIs (nf_destination f), rp_amount = JsIs amount,
                    rp_assetIssuer = nf_assetIssuer f, rp_memo = MemoText (nf_memoHex f) \<rparr>
                  \<lparr> bc_snapshot = snap, bc_allowedIssuers = [sc_usdcIssuer (ec_stellar (de_config D))], bc_assetCode = None \<rparr> of
                 Inl _ \<Rightarrow> (Inl (500, JNull), b)
               | Inr (Inl e) \<Rightarrow> (Inl (err 400 (build_error_text e)), b)
               | Inr (Inr payout) \<Rightarrow>
                   if availableStroops (wo_store (br_world b)) < amount then (Inl (err 409 ''PoolInsufficient''), b)
                   else
                     let (t, b) = next_tick b in
                     (case quote_for A (nf_method f) t amount of
                       None \<Rightarrow> (Inl (err 502 ''PriceUnavailable''), b)
                     | Some q \<Rightarrow> (Inr (amount, payout, q), b)))))"

definition intent_ctx :: "app_deps \<Rightarrow> intent_fields \<Rightarrow> int \<Rightarrow> validated_payout \<Rightarrow> app_quote \<Rightarrow> bridge \<Rightarrow> order_ctx \<times> bridge" where
  "intent_ctx A f amount payout q b =
     (let bank = (nf_method f = BankTransferMethod); (now, b) = (if bank then nowUnix A b else (0, b)); ids = vp_ids payout in
      (\<lparr> cx_paymentMethod = nf_method f, cx_bankTransfer = None,
         cx_bankExpiresAtUnix = (if bank then Some (now + 900) else None), cx_bankReview = False,
         cx_orderId = nf_orderId f, cx_conversationId = di_idempotencyKeyHex ids, cx_destination = nf_destination f,
         cx_amountStroops = amount, cx_appliedRateStroops = aq_appliedRateStroops q, cx_memoHex = di_memoHex ids,
         cx_paymentId = None, cx_token = None, cx_paymentPageUrl = None, cx_paidPriceTry = aq_paidPriceTry q,
         cx_spreadKurus = aq_spreadRevenueKurus q + aq_pspCostKurus q, cx_feeKurus = aq_pspCostKurus q,
         cx_currency = pc_currency (ec_psp (de_config (ap_engine A))), cx_ip = nf_ip f, cx_activeSeq = None,
         cx_channelPublic = None, cx_hashHex = None, cx_signedXdr = None, cx_payMaxTimeUnix = None,
         cx_deadRetries = 0, cx_reversalRetries = 0 \<rparr>, b))"

text \<open>Before the lock: the order is made findable, unless it is known already.\<close>

definition intent_register :: "order_ctx \<Rightarrow> bridge \<Rightarrow> bridge" where
  "intent_register ctx b =
     (if getByOrderId (br_registry b) (cx_orderId ctx) = None
      then b\<lparr> br_registry := registry_put ctx Reserved (br_registry b) \<rparr> else b)"

datatype intent_outcome =
    IoConflict
  | IoClosed
  | IoAlready "ustring option" "ustring option" "ustring option" "bank_instructions option"
  | IoStarted quiescence "side_output option"

text \<open>Under the lock.\<close>

definition intent_locked ::
    "app_deps \<Rightarrow> intent_fields \<Rightarrow> int \<Rightarrow> order_ctx \<Rightarrow> bridge \<Rightarrow> (engine_error + intent_outcome) \<times> bridge" where
  "intent_locked A f amount ctx b =
     (let conflict = (case getByOrderId (br_registry b) (nf_orderId f) of
            None \<Rightarrow> False
          | Some rec \<Rightarrow> cx_paymentMethod (od_ctx rec) \<noteq> nf_method f \<or> cx_destination (od_ctx rec) \<noteq> nf_destination f
              \<or> cx_amountStroops (od_ctx rec) \<noteq> amount \<or> cx_memoHex (od_ctx rec) \<noteq> nf_memoHex f) in
      if conflict then (Inr IoConflict, b)
      else (case start ctx (ap_engine A) (br_world b) of
          (Inl e, w) \<Rightarrow> (Inl e, b\<lparr> br_world := w \<rparr>)
        | (Inr r, w) \<Rightarrow>
            let b = b\<lparr> br_world := w \<rparr>; existing = getByOrderId (br_registry b) (nf_orderId f) in
            if rr_quiescence r = AlreadyStarted then
              if nf_method f = BankTransferMethod
                 \<and> (map_option od_state existing \<noteq> Some SolvencyReserved \<or> (case existing of None \<Rightarrow> False | Some rec \<Rightarrow> cx_bankReview (od_ctx rec)))
              then (Inr IoClosed, b)
              else (case existing of
                      None \<Rightarrow> (Inr (IoAlready None None None None), b)
                    | Some rec \<Rightarrow> (Inr (IoAlready (cx_token (od_ctx rec)) (Some (cx_paidPriceTry (od_ctx rec)))
                        (cx_paymentPageUrl (od_ctx rec)) (cx_bankTransfer (od_ctx rec))), b))
            else
              let checkout = (case rr_sideOutputs r of [] \<Rightarrow> None | x # _ \<Rightarrow> Some x);
                  finalCtx = (case checkout of
                      None \<Rightarrow> rr_ctx r
                    | Some (CheckoutForm token content url bank) \<Rightarrow> (rr_ctx r)\<lparr> cx_token := Some token, cx_paymentPageUrl := url \<rparr>)
              in (Inr (IoStarted (rr_quiescence r) checkout),
                  b\<lparr> br_registry := registry_put finalCtx (rr_state r) (br_registry b) \<rparr>)))"

definition intent_reply :: "app_deps \<Rightarrow> intent_fields \<Rightarrow> app_quote \<Rightarrow> intent_outcome \<Rightarrow> bridge \<Rightarrow> reply" where
  "intent_reply A f q outcome b =
     (case outcome of
        IoConflict \<Rightarrow> err 409 ''OrderConflict''
      | IoClosed \<Rightarrow> err 409 ''OrderClosed''
      | IoAlready token price url bank \<Rightarrow>
          (case token of
             None \<Rightarrow> err 409 ''AlreadyStarted''
           | Some t \<Rightarrow>
               (200, JObj ([(''orderId'', JStr (nf_orderId f)), (''token'', JStr t), (''alreadyStarted'', JBool True),
                  (''paidPriceTry'', null_or price)] @ opt_field ''paymentPageUrl'' url
                  @ (case bank of None \<Rightarrow> []
                     | Some i \<Rightarrow> [(''paymentMethod'', JStr (method_text (nf_method f))), (''bankTransfer'', instructions_json i)]))))
      | IoStarted _ checkout \<Rightarrow>
          (case checkout of
             None \<Rightarrow> err 503 (if nf_method f = BankTransferMethod then ''BankTransferPreparing'' else ''CheckoutUnavailable'')
           | Some (CheckoutForm token content url bank) \<Rightarrow>
               (200, JObj ([(''orderId'', JStr (nf_orderId f)), (''token'', JStr token), (''checkoutFormContent'', JStr content)]
                  @ opt_field ''paymentPageUrl'' url
                  @ [(''paidPriceTry'', JStr (aq_paidPriceTry q)), (''spreadBps'', JInt (aq_spreadBps q)),
                     (''poolLow'', JBool (availableStroops (wo_store (br_world b)) \<le> po_poolLowWatermarkStroops (ec_policy (de_config (ap_engine A)))))]
                  @ (case bank of None \<Rightarrow> []
                     | Some i \<Rightarrow> [(''paymentMethod'', JStr (method_text (nf_method f))), (''bankTransfer'', instructions_json i)])))))"

definition handleIntent :: "app_deps \<Rightarrow> http_request \<Rightarrow> bridge \<Rightarrow> (engine_error + reply) \<times> bridge" where
  "handleIntent A rq b =
     (case intent_session A rq b of
        (Inl rep, b) \<Rightarrow> (Inr rep, b)
      | (Inr session, b) \<Rightarrow>
          (case intent_parse A rq of
             Inl rep \<Rightarrow> (Inr rep, b)
           | Inr f \<Rightarrow>
               (case intent_existing f b of
                  Some rep \<Rightarrow> (Inr rep, b)
                | None \<Rightarrow>
                    let (ok, b) = intent_budget A f session b in
                    if \<not> ok then (Inr (err 429 ''SessionBudgetExceeded''), b)
                    else (case intent_price A f b of
                        (Inl rep, b) \<Rightarrow> (Inr rep, b)
                      | (Inr (amount, payout, q), b) \<Rightarrow>
                          let (ctx, b) = intent_ctx A f amount payout q b; b = intent_register ctx b in
                          (case intent_locked A f amount ctx b of
                             (Inl e, b) \<Rightarrow> (Inl e, b)
                           | (Inr outcome, b) \<Rightarrow> (Inr (intent_reply A f q outcome b), b))))))"

section \<open>GET /quote, POST /session, POST /sandbox/bank-transfer/:orderId/simulate\<close>

definition handleQuote :: "app_deps \<Rightarrow> json option \<Rightarrow> ustring option \<Rightarrow> bridge \<Rightarrow> reply \<times> bridge" where
  "handleQuote A method_param amount_param b =
     (case parse_method method_param of
        None \<Rightarrow> (err 400 ''BadPaymentMethod'', b)
      | Some m \<Rightarrow>
          if bank_missing A m then (err 503 ''BankTransferUnavailable'', b)
          else (case amount_param of
            None \<Rightarrow> (err 400 ''BadRequest'', b)
          | Some amountStr \<Rightarrow>
              if length amountStr = 0 then (err 400 ''BadRequest'', b)
              else (case parseBigInt amountStr of
                None \<Rightarrow> (err 400 ''BadAmount'', b)
              | Some amount \<Rightarrow>
                  if amount \<le> 0 \<or> amount > I128_MAX then (err 400 ''BadAmount'', b)
                  else
                    let (t, b) = next_tick b in
                    (case quote_for A m t amount of
                      None \<Rightarrow> (err 502 ''PriceUnavailable'', b)
                    | Some q \<Rightarrow> ((200, JObj [(''paidPriceTry'', JStr (aq_paidPriceTry q)), (''spreadBps'', JInt (aq_spreadBps q))]), b)))))"

text \<open>The route exists only with the gate configured.\<close>

definition handleSession :: "app_deps \<Rightarrow> bridge \<Rightarrow> reply option \<times> bridge" where
  "handleSession A b =
     (case ap_intentAuth A of
        None \<Rightarrow> (None, b)
      | Some ia \<Rightarrow>
          let (now, b) = nowUnix A b; (t, b) = next_tick b;
              (token, claims) = mintSessionToken (ap_codec A) (ia_secret ia) now (ia_ttlSecs ia) (ap_random A t)
          in (Some (200, JObj [(''token'', JStr token), (''expiresAtUnix'', JInt (sl_expUnix claims))]), b))"

definition TESTNET_PASSPHRASE :: ustring where "TESTNET_PASSPHRASE = lit ''Test SDF Network ; September 2015''"

definition simulate_locked :: "app_deps \<Rightarrow> (nat \<Rightarrow> bank_instructions \<Rightarrow> bool) \<Rightarrow> ustring \<Rightarrow> json option \<Rightarrow> bridge \<Rightarrow> reply \<times> bridge" where
  "simulate_locked A simulate orderId sandboxToken b =
     (let rec = getByOrderId (br_registry b) orderId; bank = Option.bind rec (\<lambda>r. cx_bankTransfer (od_ctx r)) in
      (case (rec, bank) of
        (Some r, Some i) \<Rightarrow>
          if bi_providerId i \<noteq> lit ''tr-mock-anchor'' \<or> bi_sandboxToken i = None \<or> bi_sandboxToken i = Some []
             \<or> sandboxToken \<noteq> map_option JStr (bi_sandboxToken i)
          then (err 403 ''SandboxCapabilityRequired'', b)
          else if od_state r \<noteq> SolvencyReserved \<or> cx_bankReview (od_ctx r) then (err 409 ''OrderClosed'', b)
          else
            let (now, b) = nowUnix A b in
            if bi_expiresAtUnix i \<le> now then (err 409 ''OrderClosed'', b)
            else
              let (t, b) = next_tick b in
              if simulate t i then ((202, JObj [(''accepted'', JBool True), (''network'', JStr (lit ''stellar-testnet''))]), b)
              else (err 502 ''SandboxUnavailable'', b)
      | _ \<Rightarrow> (err 403 ''SandboxCapabilityRequired'', b)))"

definition handleSimulate :: "app_deps \<Rightarrow> http_request \<Rightarrow> ustring \<Rightarrow> bridge \<Rightarrow> reply \<times> bridge" where
  "handleSimulate A rq orderId_param b =
     (case ap_simulate A of
        None \<Rightarrow> (err 404 ''NotFound'', b)
      | Some simulate \<Rightarrow>
          if de_bankTransfer (ap_engine A) = None \<or> sc_passphrase (ec_stellar (de_config (ap_engine A))) \<noteq> TESTNET_PASSPHRASE
          then (err 404 ''NotFound'', b)
          else
            let (admitted, b) = (case ap_intentAuth A of
                  None \<Rightarrow> (True, b)
                | Some ia \<Rightarrow>
                    let (now, b) = nowUnix A b;
                        h = (case headerStr (hr_sessionHeader rq) of None \<Rightarrow> [] | Some h \<Rightarrow> h)
                    in (verifySessionToken (ap_codec A) (ia_secret ia) h now \<noteq> None, b)) in
            if \<not> admitted then (err 401 ''SessionRequired'', b)
            else (case tryCanonicalizeOrderId A orderId_param of
                    None \<Rightarrow> (err 400 ''BadRequest'', b)
                  | Some orderId \<Rightarrow> simulate_locked A simulate orderId (Option.bind (hr_body rq) (\<lambda>body. jprop body ''sandboxToken'')) b))"

section \<open>GET /status and GET /receipt\<close>

definition publicStatusOf :: "bridge \<Rightarrow> ustring \<Rightarrow> state \<Rightarrow> public_status" where
  "publicStatusOf b orderId s = (if isLossFlagged (wo_store (br_world b)) orderId then PubReview else toPublicStatus s)"

definition shown_status :: "bridge \<Rightarrow> ustring \<Rightarrow> order_record \<Rightarrow> public_status" where
  "shown_status b orderId rec = (if cx_bankReview (od_ctx rec) then PubReview else publicStatusOf b orderId (od_state rec))"

definition handleStatus :: "app_deps \<Rightarrow> ustring option \<Rightarrow> bridge \<Rightarrow> reply" where
  "handleStatus A orderId_param b =
     (case orderId_param of
        None \<Rightarrow> err 400 ''BadRequest''
      | Some rawOrderId \<Rightarrow>
          if length rawOrderId = 0 then err 400 ''BadRequest''
          else (case tryCanonicalizeOrderId A rawOrderId of
            None \<Rightarrow> err 400 ''OrderIdMalformed''
          | Some orderId \<Rightarrow>
              (case getByOrderId (br_registry b) orderId of
                 Some rec \<Rightarrow> (200, JObj [(''orderId'', JStr orderId), (''status'', JStr (status_text (shown_status b orderId rec)))])
               | None \<Rightarrow>
                   if settledEvidence (wo_store (br_world b)) orderId \<noteq> None
                   then (200, JObj [(''orderId'', JStr orderId), (''status'', JStr (status_text (toPublicStatus UsdcConfirmed)))])
                   else err 404 ''NotFound'')))"

definition handleReceipt :: "app_deps \<Rightarrow> ustring option \<Rightarrow> bridge \<Rightarrow> reply" where
  "handleReceipt A orderId_param b =
     (case orderId_param of
        None \<Rightarrow> err 400 ''BadRequest''
      | Some rawOrderId \<Rightarrow>
          if length rawOrderId = 0 then err 400 ''BadRequest''
          else (case tryCanonicalizeOrderId A rawOrderId of
            None \<Rightarrow> err 400 ''OrderIdMalformed''
          | Some orderId \<Rightarrow>
              (case getByOrderId (br_registry b) orderId of
                 Some rec \<Rightarrow>
                   (200, JObj [(''orderId'', JStr orderId), (''status'', JStr (status_text (shown_status b orderId rec))),
                      (''txHash'', null_or (cx_hashHex (od_ctx rec))), (''paidPriceTry'', JStr (cx_paidPriceTry (od_ctx rec)))])
               | None \<Rightarrow>
                   (case settledEvidence (wo_store (br_world b)) orderId of
                      None \<Rightarrow> err 404 ''NotFound''
                    | Some row \<Rightarrow>
                        (200, JObj [(''orderId'', JStr orderId), (''status'', JStr (status_text (toPublicStatus UsdcConfirmed))),
                           (''txHash'', JStr (er_txHash (ew_record row))), (''paidPriceTry'', JStr (of_paidPriceTry (ew_order row)))])))))"

section \<open>POST /webhook\<close>

definition webhook_event_of :: "json \<Rightarrow> webhook_event" where
  "webhook_event_of body =
     \<lparr> we_iyziEventType = Some (case optStr body ''iyziEventType'' of None \<Rightarrow> [] | Some v \<Rightarrow> v),
       we_iyziPaymentId = optStr body ''iyziPaymentId'', we_paymentId = optStr body ''paymentId'', we_token = optStr body ''token'',
       we_paymentConversationId = optStr body ''paymentConversationId'', we_status = optStr body ''status'' \<rparr>"

definition webhook_event_id :: "webhook_event \<Rightarrow> ustring \<Rightarrow> ustring" where
  "webhook_event_id e conv =
     (let txt = (\<lambda>v. case v of None \<Rightarrow> [] | Some u \<Rightarrow> u);
          payment = (case we_iyziPaymentId e of Some u \<Rightarrow> u
            | None \<Rightarrow> (case we_paymentId e of Some u \<Rightarrow> u | None \<Rightarrow> txt (we_token e))) in
      txt (we_iyziEventType e) @ lit '':'' @ conv @ lit '':'' @ payment @ lit '':'' @ txt (we_status e))"

text \<open>The outcome of a provider retrieval, as the webhook and the poll worker use it: the context with the payment id, and
  the event of the charge; nothing when the answer is for another conversation.\<close>

definition charge_step :: "order_ctx \<Rightarrow> ustring \<Rightarrow> raw_result \<Rightarrow> (order_ctx \<times> event) option" where
  "charge_step ctx conv retrieved =
     (case projectCheckoutFormResult retrieved of
        Inr proj \<Rightarrow>
          if fr_conversationId proj \<noteq> conv then None
          else Some (ctx\<lparr> cx_paymentId := Some (fr_paymentId proj) \<rparr>, chargeEvent retrieved)
      | Inl _ \<Rightarrow> Some (ctx, ChargeUnknown))"

definition advance_and_put ::
    "app_deps \<Rightarrow> order_ctx \<Rightarrow> state \<Rightarrow> event \<Rightarrow> bridge \<Rightarrow> (engine_error + run_result) \<times> bridge" where
  "advance_and_put A ctx s e b =
     (case advance ctx s e (ap_engine A) (br_world b) of
        (Inl x, w) \<Rightarrow> (Inl x, b\<lparr> br_world := w \<rparr>)
      | (Inr r, w) \<Rightarrow> (Inr r, b\<lparr> br_world := w, br_registry := registry_put (rr_ctx r) (rr_state r) (br_registry b) \<rparr>))"

fun quiescence_text :: "quiescence \<Rightarrow> string" where
  "quiescence_text Terminal = ''terminal''"
| "quiescence_text Waiting = ''waiting''"
| "quiescence_text Escalated = ''escalated''"
| "quiescence_text IgnoredEvent = ''ignored''"
| "quiescence_text AlreadyStarted = ''alreadyStarted''"

definition status_json :: "string \<Rightarrow> json" where
  "status_json t = JObj [(''status'', JStr (lit t))]"

definition webhook_locked ::
    "app_deps \<Rightarrow> ustring \<Rightarrow> ustring option \<Rightarrow> order_record \<Rightarrow> bridge \<Rightarrow> (engine_error + json) \<times> bridge" where
  "webhook_locked A conv token rec b =
     (let current = (case getByConversationId (br_registry b) conv of None \<Rightarrow> rec | Some r \<Rightarrow> r); ctx = od_ctx current in
      if od_state current \<noteq> SolvencyReserved then (Inr (status_json ''noop''), b)
      else (case cx_token ctx of
          None \<Rightarrow> (Inr (status_json ''tokenMismatch''), b)
        | Some issued \<Rightarrow>
            if token \<noteq> Some issued then (Inr (status_json ''tokenMismatch''), b)
            else
              let (t, b) = next_tick b in
              (case ap_retrieveForm A t conv issued of
                None \<Rightarrow> (Inl EePort, b)
              | Some retrieved \<Rightarrow>
                  (case charge_step ctx conv retrieved of
                     None \<Rightarrow> (Inr (status_json ''convMismatch''), b)
                   | Some (paid, e) \<Rightarrow>
                       (case advance_and_put A paid SolvencyReserved e b of
                          (Inl x, b) \<Rightarrow> (Inl x, b)
                        | (Inr r, b) \<Rightarrow>
                            (Inr (JObj [(''status'', JStr (lit ''ok'')), (''quiescence'', JStr (lit (quiescence_text (rr_quiescence r))))]), b))))))"

definition handleWebhook :: "app_deps \<Rightarrow> http_request \<Rightarrow> bridge \<Rightarrow> (engine_error + reply) \<times> bridge" where
  "handleWebhook A rq b =
     (let body = (case hr_body rq of Some j \<Rightarrow> (if is_jobject j then j else JObj []) | None \<Rightarrow> JObj []);
          event = webhook_event_of body; conv = we_paymentConversationId event in
      if \<not> verifyWebhookSignature (tc_hmac (ap_codec A))
            \<lparr> vi_signingSecret = Some (ap_webhookSigningSecret A), vi_event = event,
              vi_providedSignature = headerStr (hr_signatureHeader rq) \<rparr>
      then (Inr (err 401 ''BadSignature''), b)
      else (case conv of
          None \<Rightarrow> (Inr (err 404 ''UnknownOrder''), b)
        | Some cv \<Rightarrow>
            (case getByConversationId (br_registry b) cv of
               None \<Rightarrow> (Inr (err 404 ''UnknownOrder''), b)
             | Some rec \<Rightarrow>
                 if cx_paymentMethod (od_ctx rec) = BankTransferMethod then (Inr (err 409 ''PaymentMethodMismatch''), b)
                 else
                   let (now, b) = nowUnix A b;
                       (first, s) = markWebhookSeen (webhook_event_id event cv) (cx_orderId (od_ctx rec)) (now * 1000) (wo_store (br_world b));
                       b = b\<lparr> br_world := (br_world b)\<lparr> wo_store := s \<rparr> \<rparr> in
                   if \<not> first then (Inr (200, status_json ''duplicate''), b)
                   else (case webhook_locked A cv (we_token event) rec b of
                           (Inl e, b) \<Rightarrow> (Inl e, b)
                         | (Inr result, b) \<Rightarrow> (Inr (200, result), b)))))"

end
