(* ===== verification/Poll_Worker.thy ===== *)
theory Poll_Worker
  imports Http_App
begin

text \<open>
  The poll and recovery worker, \<^verbatim>\<open>packages/backend/src/worker/poll-worker.ts\<close>. One tick takes a snapshot of the
  recoverable orders and drives each under its lock; the section under the lock is \<open>poll_order\<close>.
\<close>

section \<open>The worker\<close>

definition RECOVERY_STATES :: "state list" where
  "RECOVERY_STATES = [SolvencyReserved, UsdcSubmitted, UsdcPending]"

record poll_report =
  pl_polled :: nat
  pl_advanced :: nat
  pl_escalated :: nat
  pl_quarantined :: nat
  pl_failed :: nat

datatype tick_outcome = PoSkip | PoPolled | PoAdvanced | PoEscalated | PoQuarantined

definition moved :: "state \<Rightarrow> (engine_error + run_result) \<times> bridge \<Rightarrow> (engine_error + tick_outcome) \<times> bridge" where
  "moved s res = (case res of
     (Inl e, b) \<Rightarrow> (Inl e, b)
   | (Inr r, b) \<Rightarrow> (Inr (if rr_state r \<noteq> s then PoAdvanced else PoPolled), b))"

definition quarantine :: "order_ctx \<Rightarrow> tick_outcome \<Rightarrow> bridge \<Rightarrow> (engine_error + tick_outcome) \<times> bridge" where
  "quarantine ctx outcome b =
     (let (_, w) = applyEscalate ctx (br_world b) in (Inr outcome, b\<lparr> br_world := w \<rparr>))"

text \<open>(A) with a bank transfer: open it again, or match what arrived.\<close>

definition poll_bank :: "app_deps \<Rightarrow> order_ctx \<Rightarrow> bridge \<Rightarrow> (engine_error + tick_outcome) \<times> bridge" where
  "poll_bank A ctx b =
     (case de_bankTransfer (ap_engine A) of
        None \<Rightarrow> (Inr PoSkip, b)
      | Some provider \<Rightarrow>
          (case cx_bankTransfer ctx of
             None \<Rightarrow>
               (case cx_bankExpiresAtUnix ctx of
                  None \<Rightarrow> (Inr PoSkip, b)
                | Some expires \<Rightarrow>
                    let (t, b) = next_tick b;
                        w = br_world b;
                        b = (if bankTransferReference (cx_conversationId ctx) = None then b
                             else b\<lparr> br_world := w\<lparr> wo_calls := wo_calls w @ [ExtOpenTransfer (cx_orderId ctx)] \<rparr> \<rparr>) in
                    (case initializeBankTransfer ctx (provider t) expires of
                      Inl _ \<Rightarrow> (Inl EeDurableLog, b)
                    | Inr None \<Rightarrow> (Inr PoPolled, b)
                    | Inr (Some i) \<Rightarrow>
                        (Inr PoPolled, b\<lparr> br_registry := registry_put (ctx\<lparr> cx_bankTransfer := Some i, cx_token := Some (bi_transferId i) \<rparr>)
                            SolvencyReserved (br_registry b) \<rparr>)))
           | Some i \<Rightarrow>
               let (t, b) = next_tick b in
               (case ap_retrieveTransfer A t i of
                 None \<Rightarrow> (Inl EePort, b)
               | Some actual \<Rightarrow>
                   let (now, b) = nowUnix A b; (event, review) = bankTransferEvent i actual now;
                       paid = ctx\<lparr> cx_bankReview := review,
                         cx_paymentId := (if event = ChargeOk then Some (bi_transferId i) else cx_paymentId ctx) \<rparr>
                   in moved SolvencyReserved (advance_and_put A paid SolvencyReserved event b))))"

text \<open>(A) with a card: retrieve the sale by the token the backend issued.\<close>

definition poll_card :: "app_deps \<Rightarrow> order_ctx \<Rightarrow> bridge \<Rightarrow> (engine_error + tick_outcome) \<times> bridge" where
  "poll_card A ctx b =
     (case cx_token ctx of
        None \<Rightarrow> (Inr PoSkip, b)
      | Some token \<Rightarrow>
          let (t, b) = next_tick b in
          (case ap_retrieveForm A t (cx_conversationId ctx) token of
            None \<Rightarrow> (Inl EePort, b)
          | Some retrieved \<Rightarrow>
              (case charge_step ctx (cx_conversationId ctx) retrieved of
                 None \<Rightarrow> (Inr PoPolled, b)
               | Some (paid, event) \<Rightarrow> moved SolvencyReserved (advance_and_put A paid SolvencyReserved event b))))"

text \<open>(B) and (C): a payment that was never sent, or one whose fate is read from the chain.\<close>

definition poll_usdc :: "app_deps \<Rightarrow> order_ctx \<Rightarrow> state \<Rightarrow> bridge \<Rightarrow> (engine_error + tick_outcome) \<times> bridge" where
  "poll_usdc A ctx s b =
     (case cx_hashHex ctx of
        None \<Rightarrow>
          if s = UsdcSubmitted \<and> cx_paymentId ctx \<noteq> None \<and> cx_activeSeq ctx \<noteq> None
          then moved s (advance_and_put A ctx s RecoverResubmit b)
          else quarantine ctx PoQuarantined b
      | Some hash \<Rightarrow>
          (case (cx_activeSeq ctx, cx_payMaxTimeUnix ctx) of
             (Some seq, Some maxTime) \<Rightarrow>
               let (t, b) = next_tick b;
                   rs = \<lparr> rs_phase = Polling, rs_hashHex = hash, rs_ourSeq = seq, rs_maxTime = maxTime,
                          rs_sourcePublic = cx_channelPublic ctx \<rparr> in
               (case de_observe (ap_engine A) t rs of
                  None \<Rightarrow> (Inl EePort, b)
                | Some verdict \<Rightarrow>
                    (case verdictToCore (case verdict of None \<Rightarrow> StillPending | Some v \<Rightarrow> v) s of
                       CoreEscalate \<Rightarrow> quarantine ctx PoEscalated b
                     | CoreEvent e \<Rightarrow> moved s (advance_and_put A ctx s e b)))
           | _ \<Rightarrow> quarantine ctx PoQuarantined b))"

definition poll_order :: "app_deps \<Rightarrow> ustring \<Rightarrow> bridge \<Rightarrow> (engine_error + tick_outcome) \<times> bridge" where
  "poll_order A orderId b =
     (case getByOrderId (br_registry b) orderId of
        None \<Rightarrow> (Inr PoSkip, b)
      | Some rec \<Rightarrow>
          if isLossFlagged (wo_store (br_world b)) orderId then (Inr PoSkip, b)
          else
            let s = od_state rec; ctx = od_ctx rec in
            if s = SolvencyReserved then
              if cx_paymentMethod ctx = BankTransferMethod then poll_bank A ctx b else poll_card A ctx b
            else if s \<noteq> UsdcSubmitted \<and> s \<noteq> UsdcPending then (Inr PoSkip, b)
            else poll_usdc A ctx s b)"

definition count_outcome :: "tick_outcome \<Rightarrow> poll_report \<Rightarrow> poll_report" where
  "count_outcome outcome r =
     (let r = r\<lparr> pl_polled := pl_polled r + 1 \<rparr> in
      (case outcome of
        PoAdvanced \<Rightarrow> r\<lparr> pl_advanced := pl_advanced r + 1 \<rparr>
      | PoEscalated \<Rightarrow> r\<lparr> pl_escalated := pl_escalated r + 1 \<rparr>
      | PoQuarantined \<Rightarrow> r\<lparr> pl_quarantined := pl_quarantined r + 1 \<rparr>
      | _ \<Rightarrow> r))"

text \<open>A durable-log failure leaves the tick; any other exception is counted and the tick goes on.\<close>

fun poll_loop :: "app_deps \<Rightarrow> ustring list \<Rightarrow> poll_report \<Rightarrow> bridge \<Rightarrow> (engine_error + poll_report) \<times> bridge" where
  "poll_loop A [] r b = (Inr r, b)"
| "poll_loop A (orderId # rest) r b =
     (case poll_order A orderId b of
        (Inl e, b) \<Rightarrow> if e = EeDurableLog then (Inl e, b) else poll_loop A rest (r\<lparr> pl_failed := pl_failed r + 1 \<rparr>) b
      | (Inr outcome, b) \<Rightarrow> poll_loop A rest (count_outcome outcome r) b)"

definition pollInFlight :: "app_deps \<Rightarrow> bridge \<Rightarrow> (engine_error + poll_report) \<times> bridge" where
  "pollInFlight A b =
     poll_loop A (map (\<lambda>rec. cx_orderId (od_ctx rec)) (ordersInStates (br_registry b) RECOVERY_STATES))
       \<lparr> pl_polled = 0, pl_advanced = 0, pl_escalated = 0, pl_quarantined = 0, pl_failed = 0 \<rparr> b"

end
