(* ===== verification/Payout_Once.thy ===== *)
theory Payout_Once
  imports Poll_Worker
begin

text \<open>
  The bridge as a whole: intents, webhooks and poll ticks for many orders, interleaved at the points where the code
  gives up an order's lock. The theorems follow every payment ever submitted: an order has at most one sequence number
  that is not burned, so at most one of its payments can take effect on the chain, and every payment carries the
  facts the order is registered with.
\<close>

section \<open>What an effect does to the sequence pointer of an order\<close>

abbreviation ptr :: "world \<Rightarrow> ustring \<Rightarrow> int option" where "ptr w \<equiv> map_of (sa_byOrder (seqs w))"
abbreviation burned :: "world \<Rightarrow> int set" where "burned w \<equiv> burned_seqs (seqs w)"
abbreviation pays :: "world \<Rightarrow> pay_request list" where "pays w \<equiv> payments (wo_calls w)"

lemma with_id_cases:
  assumes "nfc ord = ord" and "with_id nfc ord a f = (r, a')"
  obtains e where "r = Inl e" "a' = a" | "f ord = (r, a')"
  using assms by (auto simp: with_id_def canonicalizeOrderId_def split: if_splits)

lemma grant_view:
  assumes "alloc_inv a" "grant ord a = (r, a')"
  shows "\<exists>q. r = Inr q \<and> map_of (sa_byOrder a') = (map_of (sa_byOrder a))(ord \<mapsto> q) \<and> burned_seqs a' = burned_seqs a"
proof -
  from assms(1) have "core_inv a" by (simp add: alloc_inv_def)
  from grant_facts [OF this assms(2)] obtain q where q: "r = Inr q" "map_of (sa_bySeq a) q = None"
    "map_of (sa_bySeq a') = (map_of (sa_bySeq a))(q \<mapsto> \<lparr> sr_seq = q, sr_orderId = ord, sr_status = SeqActive \<rparr>)"
    "map_of (sa_byOrder a') = (map_of (sa_byOrder a))(ord \<mapsto> q)" by metis
  then have "burned_seqs a' = burned_seqs a" by (auto simp: burned_seqs_iff split: if_splits)
  with q show ?thesis by simp
qed

lemma allocate_view:
  assumes "alloc_inv a" "nfc ord = ord" "allocate nfc ord a = (r, a')"
  shows "a' = a \<and> (\<forall>q. r = Inr q \<longrightarrow> map_of (sa_byOrder a) ord = Some q)
    \<or> map_of (sa_byOrder a) ord = None
      \<and> (\<exists>q. r = Inr q \<and> map_of (sa_byOrder a') = (map_of (sa_byOrder a))(ord \<mapsto> q) \<and> burned_seqs a' = burned_seqs a)"
  using with_id_cases [where nfc = nfc, OF assms(2) assms(3) [unfolded allocate_def]]
proof cases
  case 2
  then show ?thesis using grant_view [OF assms(1)] by (fastforce split: option.splits)
qed auto

lemma reallocate_view:
  assumes "alloc_inv a" "nfc ord = ord" "reallocate nfc ord a = (r, a')"
  shows "a' = a \<and> (\<exists>e. r = Inl e)
    \<or> (\<exists>p \<in> burned_seqs a. map_of (sa_byOrder a) ord = Some p)
      \<and> (\<exists>q. r = Inr q \<and> map_of (sa_byOrder a') = (map_of (sa_byOrder a))(ord \<mapsto> q) \<and> burned_seqs a' = burned_seqs a)"
  using with_id_cases [where nfc = nfc, OF assms(2) assms(3) [unfolded reallocate_def]]
proof cases
  case 2
  then consider e where "r = Inl e" "a' = a"
    | p rec where "map_of (sa_byOrder a) ord = Some p" "map_of (sa_bySeq a) p = Some rec" "sr_status rec = SeqBurned" "grant ord a = (r, a')"
    by (auto split: option.splits if_splits)
  then show ?thesis
  proof cases
    case (2 p rec)
    then have "p \<in> burned_seqs a" by (auto simp: burned_seqs_iff)
    with 2 grant_view [OF assms(1)] show ?thesis by blast
  qed simp
qed auto

lemma release_view:
  assumes "nfc ord = ord" "release nfc q ord a = (r, a')"
  shows "a' = a \<or> map_of (sa_byOrder a') = (map_of (sa_byOrder a))(ord := None) \<and> burned_seqs a' \<subseteq> burned_seqs a"
proof (cases rule: release_cases [of nfc q ord a])
  case (released rec)
  then have "sr_orderId rec = ord" using assms(1) by (auto simp: canonicalizeOrderId_def split: if_splits)
  with released assms(2) show ?thesis
    by (auto simp: delete_conv' burned_seqs_iff split: if_splits)
qed (use assms in auto)

lemma confirmBurned_view:
  assumes "confirmBurned q a = (r, a')"
  shows "sa_byOrder a' = sa_byOrder a \<and> burned_seqs a' \<subseteq> insert q (burned_seqs a)"
  using assms by (auto simp: confirmBurned_def burned_seqs_iff update_conv' split: option.splits if_splits)

lemma reuseOnDead_view:
  assumes "alloc_inv a" "nfc ord = ord" "reuseOnDead nfc q ord a = (Inr x, a')"
  shows "map_of (sa_byOrder a) ord = Some q"
  using with_id_cases [where nfc = nfc, OF assms(2) assms(3) [unfolded reuseOnDead_def]]
proof cases
  case 2
  then show ?thesis using assms(1) unfolding alloc_inv_def core_inv_def
    by (auto simp: requireOwned_def split: option.splits if_splits)
qed auto

definition ptr_step :: "effect \<Rightarrow> order_ctx \<Rightarrow> world \<Rightarrow> world \<Rightarrow> bool" where
  "ptr_step eff ctx w w' \<longleftrightarrow>
     (\<forall>ord. ord \<noteq> cx_orderId ctx \<longrightarrow> ptr w' ord = ptr w ord)
     \<and> (ptr w' (cx_orderId ctx) = ptr w (cx_orderId ctx)
        \<or> eff = AllocateSeq \<and> ptr w (cx_orderId ctx) = None
        \<or> eff = ReallocateSeq \<and> (\<exists>p \<in> burned w. ptr w (cx_orderId ctx) = Some p) \<and> ptr w' (cx_orderId ctx) \<noteq> None
        \<or> eff = ReleaseSeq \<and> ptr w' (cx_orderId ctx) = None)
     \<and> burned w' \<subseteq> burned w \<union> (if eff = ConfirmBurnedSeq then set_option (cx_activeSeq ctx) else {})
     \<and> (eff = SubmitReplacementSameSeq \<longrightarrow> pays w' = pays w \<or> ptr w (cx_orderId ctx) = cx_activeSeq ctx)"

text \<open>What the observations say of the chain: \<open>R q\<close> when the number \<open>q\<close> was used by a transaction that failed.\<close>

definition truthful :: "(int \<Rightarrow> bool) \<Rightarrow> deps \<Rightarrow> bool" where
  "truthful R D \<longleftrightarrow> (\<forall>t rs. de_observe D t rs = Some (Some LandedReverted) \<longrightarrow> R (rs_ourSeq rs))"

definition ptr_result :: "(int \<Rightarrow> bool) \<Rightarrow> effect \<Rightarrow> order_ctx \<Rightarrow> perform_result \<Rightarrow> world \<Rightarrow> bool" where
  "ptr_result R eff ctx p w' \<longleftrightarrow>
     (eff \<in> {AllocateSeq, ReallocateSeq} \<longrightarrow>
        (\<exists>q. cx_activeSeq (apply_patch (pr_ctxPatch p) ctx) = Some q \<and> ptr w' (cx_orderId ctx) = Some q))
     \<and> (pr_event p = Some EvidenceReverted \<longrightarrow> eff \<in> {SubmitPay, SubmitReplacementSameSeq} \<and> (\<forall>q. cx_activeSeq ctx = Some q \<longrightarrow> R q))"

lemma truthfulD: "truthful R D \<Longrightarrow> de_observe D t rs = Some (Some LandedReverted) \<Longrightarrow> R (rs_ourSeq rs)"
  by (simp add: truthful_def)

lemma ptr_step_refl: "seqs w' = seqs w \<Longrightarrow> pays w' = pays w \<or> eff \<noteq> SubmitReplacementSameSeq \<Longrightarrow> ptr_step eff ctx w w'"
  by (auto simp: ptr_step_def)

lemma submit_ptr:
  assumes "truthful R D"
  shows "wp (doSubmitAndObserve ctx s D) (\<lambda>p w'. seqs w' = seqs w \<and> ptr_result R SubmitPay ctx p w') (\<lambda>e w'. seqs w' = seqs w) w"
  using assms
  by (auto simp: doSubmitAndObserve_def payRequest_def requireSeq_def ptr_result_def verdictToCore_def
      Let_def dest!: truthfulD split: option.splits sum.splits poll_verdict.splits)

lemma perform_ptr:
  assumes inv: "alloc_inv (seqs w)" and nfc: "de_nfc D (cx_orderId ctx) = cx_orderId ctx" and R: "truthful R D"
  shows "wp (perform eff ctx s ev D) (\<lambda>p w'. ptr_step eff ctx w w' \<and> ptr_result R eff ctx p w') (\<lambda>e w'. ptr_step eff ctx w w') w"
proof (cases eff)
  case SubmitPay
  with submit_ptr [OF R, of ctx s w] show ?thesis
    by (auto simp: perform_def ptr_step_refl elim!: wp_mono)
next
  case SubmitReplacementSameSeq
  show ?thesis
  proof (cases "cx_activeSeq ctx")
    case None
    with SubmitReplacementSameSeq show ?thesis by (simp add: perform_def requireSeq_def ptr_step_refl)
  next
    case (Some q)
    obtain r where r: "reuseOnDead (de_nfc D) q (cx_orderId ctx) (seqs w) = (r, seqs w)"
      using reuseOnDead_frame [of "de_nfc D" q "cx_orderId ctx" "seqs w"] by (metis prod.collapse)
    show ?thesis
    proof (cases r)
      case (Inl e)
      with Some r SubmitReplacementSameSeq show ?thesis by (simp add: perform_def requireSeq_def ptr_step_refl)
    next
      case (Inr x)
      with r reuseOnDead_view [where nfc = "de_nfc D", OF inv nfc] have "ptr w (cx_orderId ctx) = Some q" by simp
      then have "wp (doSubmitAndObserve ctx s D) (\<lambda>p w'. ptr_step eff ctx w w' \<and> ptr_result R eff ctx p w') (\<lambda>e w'. ptr_step eff ctx w w') w"
        using SubmitReplacementSameSeq Some
        by (intro wp_mono [OF submit_ptr [OF R, of ctx s w]]) (auto simp: ptr_step_def ptr_result_def)
      with Some r Inr SubmitReplacementSameSeq show ?thesis by (simp add: perform_def requireSeq_def)
    qed
  qed
next
  case AllocateSeq
  then show ?thesis using allocate_view [where nfc = "de_nfc D", OF inv nfc]
    by (fastforce simp: perform_def ptr_step_def ptr_result_def NO_EVENT_def split: prod.splits sum.splits)
next
  case ReallocateSeq
  then show ?thesis using reallocate_view [where nfc = "de_nfc D", OF inv nfc]
    by (fastforce simp: perform_def ptr_step_def ptr_result_def NO_EVENT_def split: prod.splits sum.splits)
next
  case ReleaseSeq
  then show ?thesis using release_view [where nfc = "de_nfc D", OF nfc]
    by (fastforce simp: perform_def requireSeq_def ptr_step_def ptr_result_def NO_EVENT_def split: prod.splits sum.splits option.splits)
next
  case ConfirmBurnedSeq
  then show ?thesis using confirmBurned_view
    by (fastforce simp: perform_def perform_confirmBurnedSeq_def requireSeq_def ptr_step_def ptr_result_def event_result_def NO_EVENT_def
        Let_def classifyRevertCause_def split: prod.splits sum.splits option.splits)
qed (auto simp: perform_defs ptr_step_def ptr_result_def Let_def releaseReason_def NO_EVENT_def event_result_def reversalEvent_def
    split: option.splits sum.splits reserve_outcome.splits)

section \<open>At most one live number per order\<close>

definition covers :: "int \<Rightarrow> world \<Rightarrow> ustring \<Rightarrow> bool" where
  "covers p w ord \<longleftrightarrow> (\<forall>r \<in> set (pays w). py_orderId r = ord \<longrightarrow> pay_seq r = p \<or> pay_seq r \<in> burned w)"

definition one_live :: "world \<Rightarrow> ustring \<Rightarrow> bool" where
  "one_live w ord \<longleftrightarrow> (case ptr w ord of Some p \<Rightarrow> covers p w ord | None \<Rightarrow> \<exists>p. covers p w ord)"

text \<open>An order without a pointer was never paid: the condition under which a first number may be granted.\<close>

definition fresh :: "world \<Rightarrow> ustring \<Rightarrow> bool" where
  "fresh w ord \<longleftrightarrow> (ptr w ord = None \<longrightarrow> (\<forall>r \<in> set (pays w). py_orderId r \<noteq> ord))"

definition seq_safe :: "(int \<Rightarrow> bool) \<Rightarrow> world \<Rightarrow> bool" where
  "seq_safe R w \<longleftrightarrow> alloc_inv (seqs w) \<and> burned w \<subseteq> Collect R \<and> (\<forall>ord. one_live w ord)"

lemma covers_mono:
  "covers p w ord \<Longrightarrow> burned w \<subseteq> burned w' \<Longrightarrow>
     (\<And>r. r \<in> set (pays w') \<Longrightarrow> py_orderId r = ord \<Longrightarrow> r \<in> set (pays w) \<or> pay_seq r = p) \<Longrightarrow> covers p w' ord"
  unfolding covers_def by blast

text \<open>The conditions under which the table emits the effects that need one.\<close>

definition effect_pre :: "(int \<Rightarrow> bool) \<Rightarrow> effect \<Rightarrow> order_ctx \<Rightarrow> world \<Rightarrow> bool" where
  "effect_pre R eff ctx w \<longleftrightarrow>
     (eff = SubmitPay \<longrightarrow> ptr w (cx_orderId ctx) = cx_activeSeq ctx)
     \<and> (eff = AllocateSeq \<longrightarrow> fresh w (cx_orderId ctx))
     \<and> (eff = ConfirmBurnedSeq \<longrightarrow> (\<forall>q. cx_activeSeq ctx = Some q \<longrightarrow> R q))"

lemma effect_other:
  assumes tr: "trace_step D eff ctx w w'" and pt: "ptr_step eff ctx w w'" and ord: "ord \<noteq> cx_orderId ctx"
  shows "one_live w ord \<Longrightarrow> one_live w' ord" and "fresh w ord \<Longrightarrow> fresh w' ord"
proof -
  have same: "ptr w' ord = ptr w ord" using pt ord by (simp add: ptr_step_def)
  have old: "r \<in> set (pays w)" if "r \<in> set (pays w')" "py_orderId r = ord" for r
    using tr that ord by (auto simp: trace_step_def own_request_def)
  have grow: "burned w \<subseteq> burned w'" using tr by (simp add: trace_step_def)
  show "one_live w' ord" if "one_live w ord"
    using that same covers_mono [OF _ grow] old by (auto simp: one_live_def split: option.splits)
  show "fresh w' ord" if "fresh w ord" using that same old by (auto simp: fresh_def)
qed

lemma effect_paid:
  assumes tr: "trace_step D eff ctx w w'" and pt: "ptr_step eff ctx w w'" and pre: "effect_pre R eff ctx w"
    and new: "pays w' \<noteq> pays w"
  obtains req where "pays w' = pays w @ [req]" "ptr w (cx_orderId ctx) = Some (pay_seq req)" "ptr w' (cx_orderId ctx) = Some (pay_seq req)"
  using tr new pt pre by (auto simp: trace_step_def ptr_step_def effect_pre_def)

lemma effect_own:
  assumes tr: "trace_step D eff ctx w w'" and pt: "ptr_step eff ctx w w'" and pre: "effect_pre R eff ctx w"
    and live: "one_live w (cx_orderId ctx)"
  shows "one_live w' (cx_orderId ctx)" and "eff \<noteq> ReleaseSeq \<Longrightarrow> fresh w (cx_orderId ctx) \<Longrightarrow> fresh w' (cx_orderId ctx)"
proof -
  let ?o = "cx_orderId ctx"
  have grow: "burned w \<subseteq> burned w'" using tr by (simp add: trace_step_def)
  have "one_live w' ?o \<and> (eff \<noteq> ReleaseSeq \<longrightarrow> fresh w ?o \<longrightarrow> fresh w' ?o)"
  proof (cases "pays w' = pays w")
    case False
    from effect_paid [OF tr pt pre False] obtain req where req: "pays w' = pays w @ [req]" "ptr w ?o = Some (pay_seq req)"
      "ptr w' ?o = Some (pay_seq req)" .
    with live have "covers (pay_seq req) w ?o" by (simp add: one_live_def)
    with req have "covers (pay_seq req) w' ?o" by (intro covers_mono [OF _ grow]) auto
    with req show ?thesis by (simp add: one_live_def fresh_def)
  next
    case True
    have keep: "covers p w' ?o" if "covers p w ?o" for p by (rule covers_mono [OF that grow]) (simp add: True)
    from pt consider (same) "ptr w' ?o = ptr w ?o" | (first) "eff = AllocateSeq" "ptr w ?o = None"
      | (again) p where "p \<in> burned w" "ptr w ?o = Some p" "ptr w' ?o \<noteq> None" | (free) "eff = ReleaseSeq" "ptr w' ?o = None"
      by (auto simp: ptr_step_def)
    then show ?thesis
    proof cases
      case same
      with live keep True show ?thesis by (auto simp: one_live_def fresh_def split: option.splits)
    next
      case first
      with pre True have "\<forall>r \<in> set (pays w'). py_orderId r \<noteq> ?o" by (simp add: effect_pre_def fresh_def)
      then show ?thesis by (auto simp: one_live_def fresh_def covers_def split: option.splits)
    next
      case again
      with live have "covers q w ?o" for q by (auto simp: one_live_def covers_def)
      with keep again show ?thesis by (auto simp: one_live_def fresh_def split: option.splits)
    next
      case free
      with live keep show ?thesis by (auto simp: one_live_def split: option.splits)
    qed
  qed
  then show "one_live w' ?o" "eff \<noteq> ReleaseSeq \<Longrightarrow> fresh w ?o \<Longrightarrow> fresh w' ?o" by blast+
qed

lemma effect_safe:
  assumes "trace_step D eff ctx w w'" "ptr_step eff ctx w w'" "effect_pre R eff ctx w" "seq_safe R w"
  shows "seq_safe R w'" and "ord \<noteq> cx_orderId ctx \<or> eff \<noteq> ReleaseSeq \<Longrightarrow> fresh w ord \<Longrightarrow> fresh w' ord"
proof -
  have "one_live w' ord" for ord
    using effect_other(1) [OF assms(1,2)] effect_own(1) [OF assms(1-3)] assms(4)
    by (cases "ord = cx_orderId ctx") (auto simp: seq_safe_def)
  moreover have "burned w' \<subseteq> Collect R"
    using assms by (auto simp: ptr_step_def seq_safe_def effect_pre_def split: if_splits)
  ultimately show "seq_safe R w'" using assms(1) by (simp add: seq_safe_def trace_step_def)
  show "fresh w' ord" if "ord \<noteq> cx_orderId ctx \<or> eff \<noteq> ReleaseSeq" "fresh w ord"
    using that effect_other(2) [OF assms(1,2)] effect_own(2) [OF assms(1-3)] assms(4)
    by (cases "ord = cx_orderId ctx") (auto simp: seq_safe_def)
qed

section \<open>Batches and runs\<close>

text \<open>A list of effects in which a payment comes last and only after the context was given the order's pointer.\<close>

fun synced :: "bool \<Rightarrow> effect list \<Rightarrow> bool" where
  "synced sy [] = True"
| "synced sy (eff # effs) =
     (if eff = SubmitPay then sy \<and> effs = [] else if eff = SubmitReplacementSameSeq then effs = []
      else synced (eff \<in> {AllocateSeq, ReallocateSeq} \<or> sy \<and> eff \<noteq> ReleaseSeq) effs)"

definition batch_pre :: "(int \<Rightarrow> bool) \<Rightarrow> effect list \<Rightarrow> order_ctx \<Rightarrow> world \<Rightarrow> bool" where
  "batch_pre R effs ctx w \<longleftrightarrow>
     (AllocateSeq \<in> set effs \<longrightarrow> fresh w (cx_orderId ctx) \<and> ReleaseSeq \<notin> set effs)
     \<and> (ConfirmBurnedSeq \<in> set effs \<longrightarrow> (\<forall>q. cx_activeSeq ctx = Some q \<longrightarrow> R q) \<and> set effs \<inter> {AllocateSeq, ReallocateSeq} = {})"

text \<open>What a stretch of effects for one order keeps; \<open>rel\<close>: it may release the order's number.\<close>

definition keeps :: "(int \<Rightarrow> bool) \<Rightarrow> ustring \<Rightarrow> bool \<Rightarrow> world \<Rightarrow> world \<Rightarrow> bool" where
  "keeps R o1 rel w w' \<longleftrightarrow> seq_safe R w' \<and> (\<forall>ord. ord \<noteq> o1 \<or> \<not> rel \<longrightarrow> fresh w ord \<longrightarrow> fresh w' ord)"

lemma keeps_trans: "keeps R o1 r1 w w1 \<Longrightarrow> keeps R o1 r2 w1 w2 \<Longrightarrow> (r1 \<longrightarrow> r) \<Longrightarrow> (r2 \<longrightarrow> r) \<Longrightarrow> keeps R o1 r w w2"
  unfolding keeps_def by blast

lemma keeps_mono: "keeps R o1 r w w' \<Longrightarrow> (r \<longrightarrow> r') \<Longrightarrow> keeps R o1 r' w w'"
  unfolding keeps_def by blast

lemma keeps_same:
  assumes "seq_safe R w" "seqs w' = seqs w" "pays w' = pays w"
  shows "keeps R o1 r w w'"
proof -
  have "covers p w' ord = covers p w ord" for p ord using assms(2,3) by (simp add: covers_def)
  then have "one_live w' ord = one_live w ord" for ord using assms(2) by (cases "ptr w ord") (simp_all add: one_live_def)
  with assms show ?thesis by (simp add: keeps_def seq_safe_def fresh_def)
qed

definition canonical :: "deps \<Rightarrow> ustring \<Rightarrow> bool" where
  "canonical D ord \<longleftrightarrow> de_nfc D ord = ord"

lemma perform_keeps:
  assumes safe: "seq_safe R w" and "truthful R D" "canonical D (cx_orderId ctx)" and pre: "effect_pre R eff ctx w"
  shows "wp (perform eff ctx s ev D)
    (\<lambda>p w'. keeps R (cx_orderId ctx) (eff = ReleaseSeq) w w' \<and> ptr_step eff ctx w w' \<and> ptr_result R eff ctx p w' \<and> seq_effect eff ctx p w')
    (\<lambda>e w'. keeps R (cx_orderId ctx) (eff = ReleaseSeq) w w') w"
proof -
  have inv: "alloc_inv (seqs w)" using safe by (simp add: seq_safe_def)
  note both = wp_conj [OF perform_trace [OF inv] perform_ptr [where ctx = ctx and D = D and R = R, OF inv]]
  have "de_nfc D (cx_orderId ctx) = cx_orderId ctx" using assms(3) by (simp add: canonical_def)
  then show ?thesis
    using effect_safe [OF _ _ pre safe] assms(2) by (intro wp_mono [OF both]) (auto simp: keeps_def)
qed

lemma absorb_sel [simp]:
  "ba_ctx (absorb p b) = apply_patch (pr_ctxPatch p) (ba_ctx b)"
  "ba_fed (absorb p b) = (case pr_event p of None \<Rightarrow> ba_fed b | Some e \<Rightarrow> Some e)"
  by (simp_all add: absorb_def)

lemma patch_orderId [simp]: "cx_orderId (apply_patch p c) = cx_orderId c"
  using apply_patch_facts [of c p] by (simp add: same_facts_def)

lemma perform_all_keeps:
  assumes "seq_safe R w" "truthful R D" "canonical D (cx_orderId (ba_ctx b))" "synced sy effs"
    "sy \<longrightarrow> ptr w (cx_orderId (ba_ctx b)) = cx_activeSeq (ba_ctx b)" "batch_pre R effs (ba_ctx b) w" "ba_fed b \<noteq> Some EvidenceReverted"
  shows "wp (perform_all effs s ev D b)
    (\<lambda>b' w'. keeps R (cx_orderId (ba_ctx b)) (ReleaseSeq \<in> set effs) w w'
       \<and> (ba_fed b' = Some EvidenceReverted \<longrightarrow> (\<forall>q. cx_activeSeq (ba_ctx b') = Some q \<longrightarrow> R q)))
    (\<lambda>e w'. keeps R (cx_orderId (ba_ctx b)) (ReleaseSeq \<in> set effs) w w') w"
  using assms
proof (induction effs arbitrary: b w sy)
  case Nil
  then show ?case by (simp add: keeps_def)
next
  case (Cons eff effs)
  let ?c = "ba_ctx b" and ?o = "cx_orderId (ba_ctx b)"
  have pre: "effect_pre R eff ?c w" using Cons.prems(4-6) by (auto simp: effect_pre_def batch_pre_def split: if_splits)
  have rest: "wp (perform_all effs s ev D (absorb p b))
      (\<lambda>b' w'. keeps R ?o (ReleaseSeq \<in> set (eff # effs)) w w'
         \<and> (ba_fed b' = Some EvidenceReverted \<longrightarrow> (\<forall>q. cx_activeSeq (ba_ctx b') = Some q \<longrightarrow> R q)))
      (\<lambda>e w'. keeps R ?o (ReleaseSeq \<in> set (eff # effs)) w w') w1"
    if k: "keeps R ?o (eff = ReleaseSeq) w w1" and pt: "ptr_step eff ?c w w1" and res: "ptr_result R eff ?c p w1"
      and sq: "seq_effect eff ?c p w1" for p w1
  proof (cases "eff \<in> {SubmitPay, SubmitReplacementSameSeq}")
    case True
    then have "effs = []" using Cons.prems(4) by (auto split: if_splits)
    with True k res sq Cons.prems(7) show ?thesis
      by (auto simp: ptr_result_def seq_effect_def split: option.splits)
  next
    case False
    let ?sy = "eff \<in> {AllocateSeq, ReallocateSeq} \<or> sy \<and> eff \<noteq> ReleaseSeq"
    have safe1: "seq_safe R w1" using k by (simp add: keeps_def)
    have nofed: "ba_fed (absorb p b) \<noteq> Some EvidenceReverted"
      using Cons.prems(7) False res by (auto simp: ptr_result_def split: option.splits)
    have sync: "ptr w1 ?o = cx_activeSeq (ba_ctx (absorb p b))" if ?sy
      using that Cons.prems(5) False pt res sq by (auto simp: ptr_step_def ptr_result_def seq_effect_def)
    have pre1: "batch_pre R effs (ba_ctx (absorb p b)) w1"
      using Cons.prems(6) k sq by (auto simp: batch_pre_def keeps_def seq_effect_def)
    have IH: "wp (perform_all effs s ev D (absorb p b))
        (\<lambda>b' w'. keeps R ?o (ReleaseSeq \<in> set effs) w1 w'
           \<and> (ba_fed b' = Some EvidenceReverted \<longrightarrow> (\<forall>q. cx_activeSeq (ba_ctx b') = Some q \<longrightarrow> R q)))
        (\<lambda>e w'. keeps R ?o (ReleaseSeq \<in> set effs) w1 w') w1"
      using Cons.IH [of w1 "absorb p b" ?sy] safe1 nofed sync pre1 Cons.prems(2-4) False by (auto split: if_splits)
    show ?thesis
      by (rule wp_mono [OF IH]) (use keeps_trans [OF k] in auto)
  qed
  show ?case
    unfolding perform_all.simps wp_bindE
    by (rule wp_mono [OF perform_keeps [OF Cons.prems(1-3) pre]]) (use rest in \<open>auto elim: keeps_mono\<close>)
qed

text \<open>The states in which an order has not been granted a number yet, and the events that can lead to a release.\<close>

definition early :: "state \<Rightarrow> bool" where
  "early s \<longleftrightarrow> s \<in> {Reserved, SolvencyReserved}"

definition releasing :: "event \<Rightarrow> bool" where
  "releasing e \<longleftrightarrow> e = PollDead \<or> (\<exists>r. e = DeadRetry r)"

lemma table_batches:
  assumes "transition s e = Transition s' effs"
  shows "synced False effs" and "AllocateSeq \<in> set effs \<Longrightarrow> early s \<and> ReleaseSeq \<notin> set effs"
    and "ConfirmBurnedSeq \<in> set effs \<Longrightarrow> e = EvidenceReverted \<and> set effs \<inter> {AllocateSeq, ReallocateSeq} = {}"
    and "ReleaseSeq \<in> set effs \<Longrightarrow> releasing e \<and> \<not> early s" and "early s' \<Longrightarrow> early s"
    and "s' = UsdcDead \<Longrightarrow> releasing e" and "e' \<in> batch_outcomes effs \<Longrightarrow> \<not> releasing e'"
  by (rule transition_cases [OF assms];
      insert assms, auto simp: sm_defs early_def releasing_def batch_outcomes_def split: if_splits)+

lemma decision_keeps:
  assumes "seq_safe R w"
  shows "wp (decisionEvent D s ctx)
    (\<lambda>d w'. seqs w' = seqs w \<and> pays w' = pays w \<and> (\<forall>e. d = Some e \<longrightarrow> s = UsdcDead \<and> releasing e \<and> e \<noteq> EvidenceReverted)) (\<lambda>e w'. False) w"
  by (cases s) (auto simp: decisionEvent_def releasing_def)

definition run_pre :: "(int \<Rightarrow> bool) \<Rightarrow> order_ctx \<Rightarrow> state \<Rightarrow> event \<Rightarrow> world \<Rightarrow> bool" where
  "run_pre R ctx s e w \<longleftrightarrow>
     seq_safe R w \<and> (e = EvidenceReverted \<longrightarrow> (\<forall>q. cx_activeSeq ctx = Some q \<longrightarrow> R q)) \<and> (early s \<longrightarrow> fresh w (cx_orderId ctx))"

definition run_post :: "(int \<Rightarrow> bool) \<Rightarrow> order_ctx \<Rightarrow> event \<Rightarrow> world \<Rightarrow> run_result \<Rightarrow> world \<Rightarrow> bool" where
  "run_post R ctx e w r w' \<longleftrightarrow>
     keeps R (cx_orderId ctx) (releasing e) w w' \<and> cx_orderId (rr_ctx r) = cx_orderId ctx
     \<and> (early (rr_state r) \<longrightarrow> fresh w' (cx_orderId ctx))"

lemma run_post_step:
  assumes "keeps R (cx_orderId ctx) (releasing e) w w1" "run_post R ctx' e' w1 r w2" "cx_orderId ctx' = cx_orderId ctx"
    "releasing e' \<longrightarrow> releasing e"
  shows "run_post R ctx e w r w2"
  using assms keeps_trans [OF assms(1)] by (auto simp: run_post_def)

lemma flagLoss_seqs [simp]: "so_sequences (flagLoss ord b h s) = so_sequences s"
  by (simp add: flagLoss_def split: option.splits)

lemma after_batch_keeps:
  assumes tr: "transition s e = Transition s' effs" and pre: "run_pre R ctx s e w" and o: "cx_orderId (ba_ctx b) = cx_orderId ctx"
    and k: "keeps R (cx_orderId ctx) (ReleaseSeq \<in> set effs) w w1"
    and rev: "ba_fed b = Some EvidenceReverted \<longrightarrow> (\<forall>q. cx_activeSeq (ba_ctx b) = Some q \<longrightarrow> R q)"
    and fed: "\<And>e'. ba_fed b = Some e' \<Longrightarrow> e' \<in> batch_outcomes effs"
    and IH: "\<And>e' w2. run_pre R (ba_ctx b) s' e' w2 \<Longrightarrow> wp (run_loop fuel (ba_ctx b) s' e' (ba_sides b) D)
        (run_post R (ba_ctx b) e' w2) (\<lambda>err w'. keeps R (cx_orderId (ba_ctx b)) (releasing e') w2 w') w2"
  shows "wp (after_batch fuel s' D b) (run_post R ctx e w) (\<lambda>err w'. keeps R (cx_orderId ctx) (releasing e) w w') w1"
proof -
  note tb = table_batches [OF tr]
  have kk: "keeps R (cx_orderId ctx) (releasing e) w w1" using keeps_mono [OF k] tb(4) by blast
  have safe: "seq_safe R w1" using k by (simp add: keeps_def)
  have fr: "fresh w1 (cx_orderId ctx)" if "early s'"
    using tb(4,5) that pre k by (auto simp: run_pre_def keeps_def)
  have stay: "keeps R (cx_orderId ctx) r w1 w2" if "seqs w2 = seqs w1" "pays w2 = pays w1" for r w2
    using keeps_same [OF safe that] .
  have go: "wp (run_loop fuel (ba_ctx b) s' e' (ba_sides b) D) (run_post R ctx e w) (\<lambda>err w'. keeps R (cx_orderId ctx) (releasing e) w w') w2"
    if "seqs w2 = seqs w1" "pays w2 = pays w1" "releasing e' \<longrightarrow> releasing e"
      "e' = EvidenceReverted \<longrightarrow> (\<forall>q. cx_activeSeq (ba_ctx b) = Some q \<longrightarrow> R q)" for e' w2
  proof -
    have k2: "keeps R (cx_orderId ctx) (releasing e) w w2" by (rule keeps_trans [OF kk stay [OF that(1,2)]]) auto
    have "fresh w2 (cx_orderId ctx)" if "early s'" using fr [OF that] \<open>seqs w2 = seqs w1\<close> \<open>pays w2 = pays w1\<close> by (simp add: fresh_def)
    then have "run_pre R (ba_ctx b) s' e' w2" using k2 that(4) o by (simp add: run_pre_def keeps_def)
    from IH [OF this] show ?thesis
      by (rule wp_mono) (use run_post_step [OF k2 _ o] keeps_trans [OF k2] that(3) o in auto)
  qed
  consider (esc) "ba_escalated b" | (fed) e' where "\<not> ba_escalated b" "ba_fed b = Some e'" | (none) "\<not> ba_escalated b" "ba_fed b = None"
    by (cases "ba_fed b") auto
  then show ?thesis
  proof cases
    case esc
    have "keeps R (cx_orderId ctx) (releasing e) w (w1\<lparr> wo_store := flagLoss ord bk h (wo_store w1) \<rparr>)" for ord bk h
      by (rule keeps_trans [OF kk stay]) auto
    with esc fr o show ?thesis by (auto simp: after_batch_def applyEscalate_def run_post_def finish_def fresh_def)
  next
    case (fed e')
    with go [of w1 e'] tb(7) assms(6) rev show ?thesis by (simp add: after_batch_def)
  next
    case none
    have "wp (decisionEvent D s' (ba_ctx b)) (\<lambda>d. wp (case d of Some e' \<Rightarrow> run_loop fuel (ba_ctx b) s' e' (ba_sides b) D
        | None \<Rightarrow> retE (finish (ba_ctx b) s' (ba_sides b) False (if isAbsoluteTerminal s' then Terminal else Waiting)))
        (run_post R ctx e w) (\<lambda>err w'. keeps R (cx_orderId ctx) (releasing e) w w')) (\<lambda>err w'. keeps R (cx_orderId ctx) (releasing e) w w') w1"
    proof (rule wp_mono [OF decision_keeps [OF safe]])
      fix d w2
      assume d: "seqs w2 = seqs w1 \<and> pays w2 = pays w1 \<and> (\<forall>e. d = Some e \<longrightarrow> s' = UsdcDead \<and> releasing e \<and> e \<noteq> EvidenceReverted)"
      have "keeps R (cx_orderId ctx) (releasing e) w w2" by (rule keeps_trans [OF kk stay]) (use d in auto)
      with d go [of w2] tb(6) fr o show "wp (case d of Some e' \<Rightarrow> run_loop fuel (ba_ctx b) s' e' (ba_sides b) D
          | None \<Rightarrow> retE (finish (ba_ctx b) s' (ba_sides b) False (if isAbsoluteTerminal s' then Terminal else Waiting)))
          (run_post R ctx e w) (\<lambda>err w'. keeps R (cx_orderId ctx) (releasing e) w w') w2"
        by (auto simp: run_post_def finish_def fresh_def split: option.splits)
    qed simp
    with none show ?thesis by (simp add: after_batch_def)
  qed
qed

lemma run_loop_keeps:
  assumes "truthful R D" "canonical D (cx_orderId ctx)" "run_pre R ctx s e w"
  shows "wp (run_loop fuel ctx s e sides D) (run_post R ctx e w) (\<lambda>err w'. keeps R (cx_orderId ctx) (releasing e) w w') w"
  using assms
proof (induction fuel arbitrary: ctx s e sides w)
  case 0
  then show ?case by (simp add: keeps_def run_pre_def)
next
  case (Suc fuel)
  have here: "run_post R ctx e w (finish ctx s sides esc q) w" "keeps R (cx_orderId ctx) (releasing e) w w" for sides esc q
    using Suc.prems(3) by (simp_all add: run_post_def finish_def run_pre_def keeps_def)
  show ?case
  proof (cases "transition s e")
    case (Transition s' effs)
    note tb = table_batches [OF Transition]
    let ?b = "\<lparr> ba_ctx = ctx, ba_sides = sides, ba_escalated = False, ba_fed = None \<rparr>" and ?o = "cx_orderId ctx"
    have pre: "batch_pre R effs ctx w" using Suc.prems(3) tb(2,3) by (auto simp: batch_pre_def run_pre_def)
    have ready: "list_all (\<lambda>eff. effect_ready eff s' (Some e)) effs" "feeds_last effs"
      using transition_effects_ready [OF Transition] by simp_all
    have batch: "wp (perform_all effs s' (Some e) D ?b)
        (\<lambda>b w1. keeps R ?o (ReleaseSeq \<in> set effs) w w1
           \<and> (ba_fed b = Some EvidenceReverted \<longrightarrow> (\<forall>q. cx_activeSeq (ba_ctx b) = Some q \<longrightarrow> R q)) \<and> batch_good D effs ?b w b w1)
        (\<lambda>err w1. keeps R ?o (releasing e) w w1) w"
      using wp_conj [OF perform_all_keeps [where b = ?b and sy = False, OF _ Suc.prems(1)] perform_all_progress [OF ready, of ?b D w]]
        Suc.prems(2,3) tb(1,4) pre by (auto simp: run_pre_def elim!: wp_mono keeps_mono)
    have after: "wp (after_batch fuel s' D b) (run_post R ctx e w) (\<lambda>err w'. keeps R ?o (releasing e) w w') w1"
      if "keeps R ?o (ReleaseSeq \<in> set effs) w w1"
        and "ba_fed b = Some EvidenceReverted \<longrightarrow> (\<forall>q. cx_activeSeq (ba_ctx b) = Some q \<longrightarrow> R q)"
        and "batch_good D effs ?b w b w1" for b w1
    proof (rule after_batch_keeps [OF Transition Suc.prems(3) _ that(1,2)])
      show o: "cx_orderId (ba_ctx b) = ?o" using that(3) by (simp add: batch_good_def)
      show "e' \<in> batch_outcomes effs" if "ba_fed b = Some e'" for e' using \<open>batch_good D effs ?b w b w1\<close> that by (simp add: batch_good_def)
      show "wp (run_loop fuel (ba_ctx b) s' e' (ba_sides b) D) (run_post R (ba_ctx b) e' w2)
          (\<lambda>err w'. keeps R (cx_orderId (ba_ctx b)) (releasing e') w2 w') w2" if "run_pre R (ba_ctx b) s' e' w2" for e' w2
        by (rule Suc.IH [OF Suc.prems(1) _ that]) (simp add: o Suc.prems(2))
    qed
    show ?thesis
      unfolding run_loop_step [OF Transition] wp_bindE
      by (rule wp_mono [OF batch]) (use after in auto)
  qed (use here in simp_all)
qed

end
