(* ===== verification/Bridge_System.thy ===== *)
theory Bridge_System
  imports Payout_Once
begin

text \<open>
  Histories of the bridge. A step is one section of a handler or of the poll worker that runs under an order's lock, or
  one of the small steps in between; sections of different requests interleave in any order. The handlers and the tick
  of the poll worker are sequences of such steps.
\<close>

section \<open>What a run keeps of the order\<close>

text \<open>The facts of an order that no effect changes.\<close>

definition same_order :: "order_ctx \<Rightarrow> order_ctx \<Rightarrow> bool" where
  "same_order c c' \<longleftrightarrow> same_facts c c' \<and> cx_paymentMethod c' = cx_paymentMethod c \<and> cx_conversationId c' = cx_conversationId c
     \<and> cx_memoHex c' = cx_memoHex c \<and> cx_paidPriceTry c' = cx_paidPriceTry c
     \<and> cx_spreadKurus c' = cx_spreadKurus c \<and> cx_feeKurus c' = cx_feeKurus c \<and> cx_currency c' = cx_currency c"

lemma same_order_refl [simp]: "same_order c c"
  by (simp add: same_order_def same_facts_def)

lemma same_order_trans: "same_order a b \<Longrightarrow> same_order b c \<Longrightarrow> same_order a c"
  by (auto simp: same_order_def intro: same_facts_trans)

lemma same_order_patch: "same_order c (apply_patch p c)"
  using apply_patch_facts [of c p] by (cases p) (simp_all add: same_order_def)

lemma same_order_own: "same_order c c' \<Longrightarrow> own_request D c' r = own_request D c r"
  unfolding same_order_def using own_request_cong by blast

definition rows_kept :: "world \<Rightarrow> world \<Rightarrow> bool" where
  "rows_kept w w' \<longleftrightarrow> (\<forall>ord. has_key (so_orders (wo_store w)) ord \<longrightarrow> has_key (so_orders (wo_store w')) ord)"

lemma rows_trans: "rows_kept a b \<Longrightarrow> rows_kept b c \<Longrightarrow> rows_kept a c"
  by (auto simp: rows_kept_def)

lemma store_rows [simp]:
  "so_orders (releaseReservation ord s) = so_orders s" "so_orders (snd (store_reserve ord a t n s)) = so_orders s"
  "so_orders (snd (appendEvidence ok ord r f s)) = so_orders s"
  "so_orders (snd (bumpReversalRetries ord s)) = so_orders s" "so_orders (snd (bumpRevertOtherRetries ord s)) = so_orders s"
  "so_orders (snd (bumpDeadRetries ord s)) = so_orders s" "so_orders (flagLoss ord b h s) = so_orders s"
  by (simp_all add: store_defs split_beta split: option.splits)

lemma persist_rows [simp]: "has_key (so_orders s) x \<Longrightarrow> has_key (so_orders (persistState ord st p s)) x"
  by (simp add: persistState_def has_key_def Let_def)

lemma perform_rows: "wp (perform eff ctx s ev D) (\<lambda>p w'. rows_kept w w') (\<lambda>e w'. rows_kept w w') w"
  by (cases eff) (auto simp: perform_defs rows_kept_def Let_def releaseReason_def
      split: option.splits sum.splits core_mapping.splits prod.splits)

lemma perform_all_order:
  "wp (perform_all effs s ev D b) (\<lambda>b' w'. rows_kept w w' \<and> same_order (ba_ctx b) (ba_ctx b')) (\<lambda>e w'. rows_kept w w') w"
proof (induction effs arbitrary: b w)
  case Nil
  then show ?case by (simp add: rows_kept_def)
next
  case (Cons eff effs)
  have rest: "wp (perform_all effs s ev D (absorb p b)) (\<lambda>b' w'. rows_kept w w' \<and> same_order (ba_ctx b) (ba_ctx b'))
      (\<lambda>e w'. rows_kept w w') w1" if "rows_kept w w1" for p w1
    by (rule wp_mono [OF Cons.IH])
      (use rows_trans [OF that] same_order_trans [OF same_order_patch [of "ba_ctx b" "pr_ctxPatch p"]] in auto)
  show ?case
    unfolding perform_all.simps wp_bindE by (rule wp_mono [OF perform_rows]) (use rest in auto)
qed

lemma run_loop_order:
  "wp (run_loop fuel ctx s e sides D) (\<lambda>r w'. rows_kept w w' \<and> same_order ctx (rr_ctx r)) (\<lambda>err w'. rows_kept w w') w"
proof (induction fuel arbitrary: ctx s e sides w)
  case 0
  then show ?case by (simp add: rows_kept_def)
next
  case (Suc fuel)
  show ?case
  proof (cases "transition s e")
    case (Transition s' effs)
    have next_run: "wp (run_loop fuel (ba_ctx b) s' e' (ba_sides b) D) (\<lambda>r w'. rows_kept w w' \<and> same_order ctx (rr_ctx r))
        (\<lambda>err w'. rows_kept w w') w1" if "rows_kept w w1" "same_order ctx (ba_ctx b)" for b e' w1
      by (rule wp_mono [OF Suc.IH]) (use that rows_trans same_order_trans in blast)+
    have "wp (after_batch fuel s' D b) (\<lambda>r w'. rows_kept w w' \<and> same_order ctx (rr_ctx r)) (\<lambda>err w'. rows_kept w w') w1"
      if "rows_kept w w1" "same_order ctx (ba_ctx b)" for b w1
    proof -
      have "wp (decisionEvent D s' (ba_ctx b)) (\<lambda>d w2. rows_kept w w2) (\<lambda>err w'. rows_kept w w') w1"
        using that by (cases s') (auto simp: decisionEvent_def rows_kept_def)
      with that next_run show ?thesis
        by (auto simp: after_batch_def applyEscalate_def finish_def rows_kept_def elim!: wp_mono split: option.splits)
    qed
    then show ?thesis
      unfolding run_loop_step [OF Transition] wp_bindE
      by (intro wp_mono [OF perform_all_order]) auto
  qed (simp_all add: rows_kept_def finish_def)
qed

section \<open>Steps of the bridge\<close>

text \<open>The intents that are registered and wait for their order's lock.\<close>

type_synonym system = "bridge \<times> (intent_fields \<times> int \<times> order_ctx) list"

text \<open>\<open>enter\<close>: a validated and priced intent is registered; its price may have been computed in any earlier state.
  \<open>lock\<close>, \<open>webhook\<close> and \<open>poll\<close>: the sections under an order's lock. \<open>seen\<close>: the replay guard of the webhook.
  \<open>credit\<close>: a top-up of the pool. \<open>idle\<close>: a read of the clock or of a port, or a session's budget.\<close>

inductive bridge_step :: "app_deps \<Rightarrow> system \<Rightarrow> system \<Rightarrow> bool" for A where
  enter: "\<lbrakk> intent_parse A rq = Inr f; intent_price A f b0 = (Inr (amount, payout, q), b1);
      intent_ctx A f amount payout q b = (ctx, b') \<rbrakk> \<Longrightarrow> bridge_step A (b, ps) (intent_register ctx b', (f, amount, ctx) # ps)"
| lock: "\<lbrakk> (f, amount, ctx) \<in> set ps; intent_locked A f amount ctx b = (r, b') \<rbrakk> \<Longrightarrow>
      bridge_step A (b, ps) (b', remove1 (f, amount, ctx) ps)"
| seen: "w = br_world b \<Longrightarrow>
      bridge_step A (b, ps) (b\<lparr> br_world := w\<lparr> wo_store := snd (markWebhookSeen ev ord t (wo_store w)) \<rparr> \<rparr>, ps)"
| webhook: "\<lbrakk> getByConversationId (br_registry b) conv = Some rec; webhook_locked A conv token rec b = (r, b') \<rbrakk> \<Longrightarrow>
      bridge_step A (b, ps) (b', ps)"
| poll: "poll_order A ord b = (r, b') \<Longrightarrow> bridge_step A (b, ps) (b', ps)"
| credit: "w = br_world b \<Longrightarrow>
      bridge_step A (b, ps) (b\<lparr> br_world := w\<lparr> wo_store := snd (creditPool n (wo_store w)) \<rparr> \<rparr>, ps)"
| idle: "bridge_step A (b, ps) (b\<lparr> br_world := (br_world b)\<lparr> wo_tick := t \<rparr>, br_budget := m \<rparr>, ps)"

inductive bridge_run :: "app_deps \<Rightarrow> system \<Rightarrow> system \<Rightarrow> bool" for A where
  nil: "bridge_run A x x"
| snoc: "bridge_run A x y \<Longrightarrow> bridge_step A y z \<Longrightarrow> bridge_run A x z"

lemma bridge_run_trans: "bridge_run A y z \<Longrightarrow> bridge_run A x y \<Longrightarrow> bridge_run A x z"
  by (induction rule: bridge_run.induct) (auto intro: bridge_run.intros)

section \<open>The invariant\<close>

text \<open>An order that passed the intent gate.\<close>

definition valid_order :: "app_deps \<Rightarrow> order_ctx \<Rightarrow> bool" where
  "valid_order A ctx \<longleftrightarrow>
     canonical (ap_engine A) (cx_orderId ctx) \<and> 0 < cx_amountStroops ctx \<and> cx_amountStroops ctx \<le> I128_MAX
     \<and> classifyAddress (ap_isEd25519 A) (ap_isContract A) (cx_destination ctx) \<noteq> InvalidAddress
     \<and> (\<exists>ids. deriveIds (de_nfc (ap_engine A)) (de_sha256 (ap_engine A)) (cx_orderId ctx) (cx_destination ctx) (cx_amountStroops ctx) = Inr ids
          \<and> cx_conversationId ctx = di_idempotencyKeyHex ids \<and> cx_memoHex ctx = di_memoHex ids)"

lemma valid_order_cong: "same_order c c' \<Longrightarrow> valid_order A c \<Longrightarrow> valid_order A c'"
  by (simp add: valid_order_def same_order_def same_facts_def)

text \<open>Every registered order is a valid order under its own id; one that is not granted a number yet was not paid; one
  that left its first state has a row in the store.\<close>

definition record_ok :: "app_deps \<Rightarrow> world \<Rightarrow> ustring \<Rightarrow> order_record \<Rightarrow> bool" where
  "record_ok A w ord rec \<longleftrightarrow>
     cx_orderId (od_ctx rec) = ord \<and> valid_order A (od_ctx rec) \<and> (early (od_state rec) \<longrightarrow> fresh w ord)
     \<and> (od_state rec \<noteq> Reserved \<longrightarrow> has_key (so_orders (wo_store w)) ord)"

definition paid_for :: "app_deps \<Rightarrow> registry \<Rightarrow> world \<Rightarrow> pay_request \<Rightarrow> bool" where
  "paid_for A g w r \<longleftrightarrow>
     has_key (so_orders (wo_store w)) (py_orderId r)
     \<and> (\<exists>rec. getByOrderId g (py_orderId r) = Some rec \<and> own_request (ap_engine A) (od_ctx rec) r)"

definition bridge_inv :: "(int \<Rightarrow> bool) \<Rightarrow> app_deps \<Rightarrow> system \<Rightarrow> bool" where
  "bridge_inv R A x \<longleftrightarrow> (case x of (b, ps) \<Rightarrow>
     seq_safe R (br_world b)
     \<and> (\<forall>ord rec. getByOrderId (br_registry b) ord = Some rec \<longrightarrow> record_ok A (br_world b) ord rec)
     \<and> (\<forall>r \<in> set (pays (br_world b)). paid_for A (br_registry b) (br_world b) r)
     \<and> (\<forall>(f, amount, ctx) \<in> set ps. valid_order A ctx \<and> nf_orderId f = cx_orderId ctx
          \<and> getByOrderId (br_registry b) (cx_orderId ctx) \<noteq> None))"

lemma get_put [simp]:
  "getByOrderId (registry_put ctx s g) ord = (if ord = cx_orderId ctx then Some \<lparr> od_ctx = ctx, od_state = s \<rparr> else getByOrderId g ord)"
  by (simp add: getByOrderId_def registry_put_def)

text \<open>A step that leaves the numbers, the payments and the registry alone.\<close>

lemma bridge_inv_frame:
  assumes inv: "bridge_inv R A (b, ps)" and same: "seqs w = seqs (br_world b)" "pays w = pays (br_world b)" "rows_kept (br_world b) w"
  shows "bridge_inv R A (b\<lparr> br_world := w, br_budget := m \<rparr>, ps)"
proof -
  have "seq_safe R w" using keeps_same [OF _ same(1,2), of R] inv by (auto simp: bridge_inv_def keeps_def)
  with assms show ?thesis by (fastforce simp: bridge_inv_def record_ok_def fresh_def paid_for_def rows_kept_def)
qed

lemma run_facts:
  assumes "truthful R D" "canonical D (cx_orderId ctx)" "run_pre R ctx s e w"
  shows "wp (run ctx s e D)
    (\<lambda>r w'. run_post R ctx e w r w' \<and> (rows_kept w w' \<and> same_order ctx (rr_ctx r)) \<and> paid_once D ctx (pays w) w')
    (\<lambda>err w'. keeps R (cx_orderId ctx) (releasing e) w w' \<and> rows_kept w w' \<and> paid_once D ctx (pays w) w') w"
proof -
  have "in_phase (phase_of e) {} B q" for B q by (cases e) simp_all
  then have "pay_state D ctx (pays w) (phase_of e) ctx w"
    using assms(3) by (auto simp: pay_state_def same_facts_def run_pre_def seq_safe_def intro!: exI [of _ "[]"])
  from run_loop_pays [OF this] show ?thesis
    unfolding run_def by (intro wp_conj [OF run_loop_keeps [OF assms]] wp_conj [OF run_loop_order])
qed

lemma paid_kept:
  assumes old: "\<forall>r \<in> set (pays w). paid_for A g w r" and paid: "paid_once (ap_engine A) ctx (pays w) w'" and rows: "rows_kept w w'"
    and rec: "getByOrderId g' (cx_orderId ctx) = Some rec'" "same_order ctx (od_ctx rec')" "has_key (so_orders (wo_store w')) (cx_orderId ctx)"
    and own: "\<And>rec. getByOrderId g (cx_orderId ctx) = Some rec \<Longrightarrow> same_order (od_ctx rec) ctx \<or> (\<forall>r \<in> set (pays w). py_orderId r \<noteq> cx_orderId ctx)"
    and other: "\<And>ord. ord \<noteq> cx_orderId ctx \<Longrightarrow> getByOrderId g' ord = getByOrderId g ord"
  shows "\<forall>r \<in> set (pays w'). paid_for A g' w' r"
proof
  fix r
  assume "r \<in> set (pays w')"
  with paid consider (new) "own_request (ap_engine A) ctx r" | (old) "r \<in> set (pays w)" by (auto simp: paid_once_def)
  then show "paid_for A g' w' r"
  proof cases
    case new
    then have "own_request (ap_engine A) (od_ctx rec') r" using same_order_own [OF rec(2)] by simp
    moreover have "py_orderId r = cx_orderId ctx" using new by (simp add: own_request_def)
    ultimately show ?thesis using rec(1,3) by (simp add: paid_for_def)
  next
    case old
    with \<open>\<forall>r \<in> set (pays w). paid_for A g w r\<close> obtain rec where r: "getByOrderId g (py_orderId r) = Some rec"
      "own_request (ap_engine A) (od_ctx rec) r" "has_key (so_orders (wo_store w)) (py_orderId r)" by (auto simp: paid_for_def)
    then have row: "has_key (so_orders (wo_store w')) (py_orderId r)" using rows by (simp add: rows_kept_def)
    show ?thesis
    proof (cases "py_orderId r = cx_orderId ctx")
      case True
      with own r(1) old have "same_order (od_ctx rec) (od_ctx rec')" using rec(2) same_order_trans by metis
      then have "own_request (ap_engine A) (od_ctx rec') r" using r(2) same_order_own by blast
      with True rec(1) row show ?thesis by (simp add: paid_for_def)
    next
      case False
      with r row other show ?thesis by (simp add: paid_for_def)
    qed
  qed
qed

lemma others_kept:
  assumes "\<forall>ord rec. getByOrderId g ord = Some rec \<longrightarrow> record_ok A w ord rec" "keeps R o1 rel w w'" "rows_kept w w'"
    "getByOrderId g ord = Some rec" "ord \<noteq> o1 \<or> \<not> rel \<or> \<not> early (od_state rec)"
  shows "record_ok A w' ord rec"
  using assms by (auto simp: record_ok_def keeps_def rows_kept_def)

lemma advance_inv:
  assumes inv: "bridge_inv R A (b, ps)" and R: "truthful R (ap_engine A)" and rec: "getByOrderId (br_registry b) ord = Some rec"
    and s: "od_state rec = s" "s \<noteq> Reserved" and same: "same_order (od_ctx rec) ctx"
    and e: "e = EvidenceReverted \<longrightarrow> (\<forall>q. cx_activeSeq ctx = Some q \<longrightarrow> R q)" "early s \<longrightarrow> \<not> releasing e"
  shows "bridge_inv R A (snd (advance_and_put A ctx s e b), ps)"
proof -
  let ?w = "br_world b" and ?D = "ap_engine A" and ?g = "br_registry b"
  have safe: "seq_safe R ?w" and recs: "\<forall>ord rec. getByOrderId ?g ord = Some rec \<longrightarrow> record_ok A ?w ord rec"
    and paid: "\<forall>r \<in> set (pays ?w). paid_for A ?g ?w r" using inv by (simp_all add: bridge_inv_def)
  have ok: "record_ok A ?w ord rec" using recs rec by blast
  then have o: "cx_orderId ctx = ord" "valid_order A ctx" "has_key (so_orders (wo_store ?w)) ord" "early s \<longrightarrow> fresh ?w ord"
    using same s valid_order_cong [OF same] by (auto simp: record_ok_def same_order_def same_facts_def)
  have pre: "run_pre R ctx s e ?w" using safe e(1) o by (simp add: run_pre_def)
  have canon: "canonical ?D (cx_orderId ctx)" using o(2) by (simp add: valid_order_def)
  note facts = run_facts [OF R canon pre]
  have sym: "same_order ctx (od_ctx rec)" using same by (simp add: same_order_def same_facts_def)
  obtain res w' where run: "run ctx s e ?D ?w = (res, w')" by fastforce
  show ?thesis
  proof (cases res)
    case (Inl err)
    with facts run have f: "keeps R ord (releasing e) ?w w'" "rows_kept ?w w'" "paid_once ?D ctx (pays ?w) w'"
      by (simp_all add: wp_def o)
    have row: "has_key (so_orders (wo_store w')) (cx_orderId ctx)" using f(2) o by (simp add: rows_kept_def)
    have "\<forall>r \<in> set (pays w'). paid_for A ?g w' r"
      by (rule paid_kept [OF paid f(3,2) _ sym row]) (use rec same o(1) in auto)
    moreover have "record_ok A w' o1 rec1" if "getByOrderId ?g o1 = Some rec1" for o1 rec1
      by (rule others_kept [OF recs f(1,2) that]) (use that rec s e(2) in auto)
    ultimately show ?thesis using Inl run f(1) inv by (auto simp: advance_and_put_def advance_def bridge_inv_def keeps_def)
  next
    case (Inr r)
    with facts run have f: "run_post R ctx e ?w r w'" "rows_kept ?w w'" "same_order ctx (rr_ctx r)" "paid_once ?D ctx (pays ?w) w'"
      by (simp_all add: wp_def)
    let ?g' = "registry_put (rr_ctx r) (rr_state r) ?g"
    have ro: "cx_orderId (rr_ctx r) = ord" using f(1) o by (simp add: run_post_def)
    have row: "has_key (so_orders (wo_store w')) (cx_orderId ctx)" using f(2) o by (simp add: rows_kept_def)
    have "\<forall>r \<in> set (pays w'). paid_for A ?g' w' r"
      by (rule paid_kept [OF paid f(4,2), of _ "\<lparr> od_ctx = rr_ctx r, od_state = rr_state r \<rparr>"]) (use rec same o(1) f(3) row ro in auto)
    moreover have "record_ok A w' o1 rec1" if "getByOrderId ?g' o1 = Some rec1" for o1 rec1
    proof (cases "o1 = ord")
      case True
      with that ro f(1) o row valid_order_cong [OF f(3)] show ?thesis by (auto simp: record_ok_def run_post_def)
    next
      case False
      with that ro have "getByOrderId ?g o1 = Some rec1" by simp
      from others_kept [OF recs _ f(2) this, of R ord "releasing e"] f(1) o(1) False show ?thesis by (simp add: run_post_def)
    qed
    ultimately show ?thesis using Inr run f(1) inv ro by (auto simp: advance_and_put_def advance_def bridge_inv_def run_post_def keeps_def)
  qed
qed

section \<open>Every step keeps the invariant\<close>

lemma put_inv:
  assumes inv: "bridge_inv R A (b, ps)" and rec: "getByOrderId (br_registry b) (cx_orderId ctx) = Some rec" "same_order (od_ctx rec) ctx"
  shows "bridge_inv R A (b\<lparr> br_registry := registry_put ctx (od_state rec) (br_registry b) \<rparr>, ps)"
proof -
  have ok: "record_ok A (br_world b) (cx_orderId ctx) rec" using inv rec by (simp add: bridge_inv_def)
  have "paid_for A (registry_put ctx (od_state rec) (br_registry b)) (br_world b) r" if "paid_for A (br_registry b) (br_world b) r" for r
    using that rec same_order_own [OF rec(2)] by (auto simp: paid_for_def)
  with inv ok valid_order_cong [OF rec(2)] show ?thesis by (auto simp: bridge_inv_def record_ok_def)
qed

lemma tick_inv:
  assumes "bridge_inv R A (b, ps)" "next_tick b = (t, b')"
  shows "bridge_inv R A (b', ps)" and "br_registry b' = br_registry b" and "br_world b' = (br_world b)\<lparr> wo_tick := wo_tick (br_world b) + 1 \<rparr>"
  using bridge_inv_frame [OF assms(1), of "(br_world b)\<lparr> wo_tick := wo_tick (br_world b) + 1 \<rparr>" "br_budget b"] assms(2)
  by (auto simp: next_tick_def rows_kept_def)

lemma clock_inv:
  assumes "bridge_inv R A (b, ps)" "nowUnix A b = (t, b')"
  shows "bridge_inv R A (b', ps)" and "br_registry b' = br_registry b"
proof -
  obtain u where "next_tick b = (u, b')" using assms(2) by (auto simp: nowUnix_def split: prod.splits)
  from tick_inv [OF assms(1) this] show "bridge_inv R A (b', ps)" "br_registry b' = br_registry b" by blast+
qed

lemma escalate_inv: "bridge_inv R A (b, ps) \<Longrightarrow> bridge_inv R A (snd (quarantine ctx x b), ps)"
  using bridge_inv_frame [of R A b ps "(br_world b)\<lparr> wo_store := flagLoss (cx_orderId ctx) IndeterminateLoss (cx_hashHex ctx) (wo_store (br_world b)) \<rparr>" "br_budget b"]
  by (simp add: quarantine_def applyEscalate_def on_store_def rows_kept_def)

lemma moved_inv: "bridge_inv R A (snd (moved s res), ps) = bridge_inv R A (snd res, ps)"
  by (simp add: moved_def split: prod.splits sum.splits)

lemma charge_step_facts:
  assumes "charge_step ctx conv raw = Some (ctx', e)"
  shows "same_order ctx ctx' \<and> e \<in> {ChargeOk, ChargeRejected, ChargeUnknown}"
  using assms chargeEvent_cases [of raw]
  by (auto simp: charge_step_def same_order_def same_facts_def split: sum.splits if_splits)

text \<open>A charge event on an order that waits for its charge.\<close>

lemma charge_inv:
  assumes "bridge_inv R A (b, ps)" "truthful R (ap_engine A)" "getByOrderId (br_registry b) ord = Some rec" "od_state rec = SolvencyReserved"
    "same_order (od_ctx rec) ctx" "e \<in> {ChargeOk, ChargeRejected, ChargeUnknown}"
  shows "bridge_inv R A (snd (advance_and_put A ctx SolvencyReserved e b), ps)"
  by (rule advance_inv [OF assms(1-4)]) (use assms(5,6) in \<open>auto simp: releasing_def\<close>)

lemma retrieved_inv:
  assumes inv: "bridge_inv R A (b, ps)" and R: "truthful R (ap_engine A)" and rec: "getByOrderId (br_registry b) ord = Some rec"
    "od_state rec = SolvencyReserved" and step: "charge_step (od_ctx rec) conv raw = Some (ctx, e)"
  shows "bridge_inv R A (snd (advance_and_put A ctx SolvencyReserved e b), ps)"
  using charge_inv [OF inv R rec] charge_step_facts [OF step] by blast

lemma webhook_inv:
  assumes inv: "bridge_inv R A (b, ps)" and R: "truthful R (ap_engine A)" and rec: "getByConversationId (br_registry b) conv = Some rec"
  shows "bridge_inv R A (snd (webhook_locked A conv token rec b), ps)"
proof -
  from rec obtain ord where ord: "getByOrderId (br_registry b) ord = Some rec"
    by (auto simp: getByConversationId_def getByOrderId_def split: option.splits)
  obtain t b1 where t: "next_tick b = (t, b1)" by fastforce
  note b1 = tick_inv [OF inv t]
  have "bridge_inv R A (snd (advance_and_put A ctx SolvencyReserved e b1), ps)"
    if "od_state rec = SolvencyReserved" "charge_step (od_ctx rec) conv raw = Some (ctx, e)" for raw ctx e
    using retrieved_inv [OF b1(1) R _ that] ord b1(2) by simp
  then show ?thesis using inv rec t b1
    by (auto simp: webhook_locked_def Let_def split: option.splits prod.splits sum.splits)
       (metis snd_conv)+
qed

lemma poll_card_inv:
  assumes inv: "bridge_inv R A (b, ps)" and R: "truthful R (ap_engine A)" and rec: "getByOrderId (br_registry b) ord = Some rec"
    "od_state rec = SolvencyReserved"
  shows "bridge_inv R A (snd (poll_card A (od_ctx rec) b), ps)"
proof -
  obtain t b1 where t: "next_tick b = (t, b1)" by fastforce
  note b1 = tick_inv [OF inv t]
  have "bridge_inv R A (snd (advance_and_put A ctx SolvencyReserved e b1), ps)"
    if "charge_step (od_ctx rec) conv raw = Some (ctx, e)" for conv raw ctx e
    using retrieved_inv [OF b1(1) R _ rec(2) that] rec(1) b1(2) by simp
  then show ?thesis using inv t b1
    by (auto simp: poll_card_def Let_def moved_inv split: option.splits)
qed

lemma bankTransferEvent_charge: "fst (bankTransferEvent i a n) \<in> {ChargeOk, ChargeRejected, ChargeUnknown}"
  by (simp add: bankTransferEvent_def Let_def split: option.splits)

lemma poll_open_inv:
  assumes inv: "bridge_inv R A (b, ps)" and rec: "getByOrderId (br_registry b) ord = Some rec" "od_state rec = SolvencyReserved"
    and b1: "b1 = b \<or> b1 = b\<lparr> br_world := (br_world b)\<lparr> wo_calls := wo_calls (br_world b) @ [ExtOpenTransfer u] \<rparr> \<rparr>"
  shows "bridge_inv R A (b1, ps)"
    and "bridge_inv R A (b1\<lparr> br_registry := registry_put ((od_ctx rec)\<lparr> cx_bankTransfer := x, cx_token := y \<rparr>) SolvencyReserved (br_registry b1) \<rparr>, ps)"
proof -
  have "bridge_inv R A (b\<lparr> br_world := (br_world b)\<lparr> wo_calls := wo_calls (br_world b) @ [ExtOpenTransfer u] \<rparr>, br_budget := br_budget b \<rparr>, ps)"
    by (rule bridge_inv_frame [OF inv]) (simp_all add: rows_kept_def)
  with b1 inv show inv1: "bridge_inv R A (b1, ps)" by auto
  have "cx_orderId (od_ctx rec) = ord" using inv rec by (simp add: bridge_inv_def record_ok_def)
  moreover have "br_registry b1 = br_registry b" using b1 by auto
  ultimately show "bridge_inv R A (b1\<lparr> br_registry := registry_put ((od_ctx rec)\<lparr> cx_bankTransfer := x, cx_token := y \<rparr>) SolvencyReserved (br_registry b1) \<rparr>, ps)"
    using put_inv [OF inv1, of "(od_ctx rec)\<lparr> cx_bankTransfer := x, cx_token := y \<rparr>" rec] rec by (simp add: same_order_def same_facts_def)
qed

lemma poll_bank_inv:
  assumes inv: "bridge_inv R A (b, ps)" and R: "truthful R (ap_engine A)" and rec: "getByOrderId (br_registry b) ord = Some rec"
    "od_state rec = SolvencyReserved"
  shows "bridge_inv R A (snd (poll_bank A (od_ctx rec) b), ps)"
proof -
  obtain t b1 where t: "next_tick b = (t, b1)" by fastforce
  note b1 = tick_inv [OF inv t]
  have rec1: "getByOrderId (br_registry b1) ord = Some rec" using rec(1) b1(2) by simp
  obtain n b2 where n: "nowUnix A b1 = (n, b2)" by fastforce
  note b2 = clock_inv [OF b1(1) n]
  have rec2: "getByOrderId (br_registry b2) ord = Some rec" using rec1 b2(2) by simp
  have match: "bridge_inv R A (snd (advance_and_put A ((od_ctx rec)\<lparr> cx_bankReview := rv, cx_paymentId := pid \<rparr>) SolvencyReserved e b2), ps)"
    if "bankTransferEvent i a n = (e, rv)" for e i a rv pid
    by (rule charge_inv [OF b2(1) R rec2 rec(2)])
      (use bankTransferEvent_charge [of i a n] that in \<open>auto simp: same_order_def same_facts_def\<close>)
  let ?b1 = "if bankTransferReference (cx_conversationId (od_ctx rec)) = None then b1
    else b1\<lparr> br_world := (br_world b1)\<lparr> wo_calls := wo_calls (br_world b1) @ [ExtOpenTransfer (cx_orderId (od_ctx rec))] \<rparr> \<rparr>"
  have reopened: "bridge_inv R A (?b1, ps)"
    "bridge_inv R A (?b1\<lparr> br_registry := registry_put ((od_ctx rec)\<lparr> cx_bankTransfer := x, cx_token := y \<rparr>) SolvencyReserved (br_registry ?b1) \<rparr>, ps)"
    for x y by (rule poll_open_inv [where u = "cx_orderId (od_ctx rec)", OF b1(1) rec1 rec(2)], simp)+
  show ?thesis
  proof (cases "cx_bankTransfer (od_ctx rec)")
    case None
    then show ?thesis using inv reopened t
      by (cases "bankTransferReference (cx_conversationId (od_ctx rec))") (simp_all add: poll_bank_def Let_def split: option.splits sum.splits)
  next
    case (Some i)
    then show ?thesis using inv b1(1) t n match by (simp add: poll_bank_def Let_def moved_inv split: option.splits prod.splits)
  qed
qed

lemma poll_usdc_inv:
  assumes inv: "bridge_inv R A (b, ps)" and R: "truthful R (ap_engine A)" and rec: "getByOrderId (br_registry b) ord = Some rec"
    "od_state rec \<in> {UsdcSubmitted, UsdcPending}"
  shows "bridge_inv R A (snd (poll_usdc A (od_ctx rec) (od_state rec) b), ps)"
proof -
  obtain t b1 where t: "next_tick b = (t, b1)" by fastforce
  note b1 = tick_inv [OF inv t]
  have late: "od_state rec \<noteq> Reserved" "\<not> early (od_state rec)" using rec(2) by (auto simp: early_def)
  have "bridge_inv R A (snd (advance_and_put A (od_ctx rec) (od_state rec) RecoverResubmit b), ps)"
    by (rule advance_inv [OF inv R rec(1) refl late(1)]) (use late in auto)
  moreover have "bridge_inv R A (snd (advance_and_put A (od_ctx rec) (od_state rec) e b1), ps)"
    if "de_observe (ap_engine A) t rs = Some v" "rs_ourSeq rs = q" "cx_activeSeq (od_ctx rec) = Some q"
      "verdictToCore (case v of None \<Rightarrow> StillPending | Some v \<Rightarrow> v) (od_state rec) = CoreEvent e" for rs v q e
  proof (rule advance_inv [OF b1(1) R _ refl late(1)])
    show "e = EvidenceReverted \<longrightarrow> (\<forall>q. cx_activeSeq (od_ctx rec) = Some q \<longrightarrow> R q)"
      using that truthfulD [OF R, of t rs] by (auto simp: verdictToCore_def split: option.splits poll_verdict.splits if_splits)
  qed (use rec(1) b1(2) late in auto)
  ultimately show ?thesis
    using inv b1(1) t escalate_inv [OF inv] escalate_inv [OF b1(1)]
    by (auto simp: poll_usdc_def Let_def moved_inv split: option.splits core_mapping.splits)
qed

lemma poll_inv:
  assumes inv: "bridge_inv R A (b, ps)" and R: "truthful R (ap_engine A)"
  shows "bridge_inv R A (snd (poll_order A ord b), ps)"
  using inv poll_bank_inv [OF inv R] poll_card_inv [OF inv R] poll_usdc_inv [OF inv R]
  by (auto simp: poll_order_def Let_def split: option.splits)

text \<open>What passes the gate is a valid order.\<close>

lemma build_valid:
  assumes "build nfc sha isE isC raw bc = Inr (Inr payout)" "rp_orderId raw = JsIs ord" "rp_destination raw = JsIs dest"
    "rp_amount raw = JsIs amount" "nfc ord = ord"
  shows "0 < amount \<and> amount \<le> I128_MAX \<and> classifyAddress isE isC dest \<noteq> InvalidAddress
    \<and> deriveIds nfc sha ord dest amount = Inr (vp_ids payout)"
  using assms
  by (auto simp: build_def build_payable_def canonicalizeOrderId_def Let_def bindR_Inr_iff split: if_splits memo_decode.splits)

lemma parsed_canonical:
  assumes "nfc_ok (de_nfc (ap_engine A))" "intent_parse A rq = Inr f"
  shows "canonical (ap_engine A) (nf_orderId f)"
proof -
  obtain raw where "tryCanonicalizeOrderId A raw = Some (nf_orderId f)"
    using assms(2) by (auto simp: intent_parse_def split: option.splits if_splits)
  then have "\<not> LONE_SURROGATE raw" "nf_orderId f = de_nfc (ap_engine A) raw"
    by (auto simp: tryCanonicalizeOrderId_def canonicalizeOrderId_def split: if_splits)
  with assms(1) show ?thesis by (simp add: canonical_def nfc_ok_def)
qed

lemma intent_ctx_valid:
  assumes nfc: "nfc_ok (de_nfc (ap_engine A))" and f: "intent_parse A rq = Inr f"
    and price: "intent_price A f b0 = (Inr (amount, payout, q), b1)" and ctx: "intent_ctx A f amount payout q b = (ctx, b')"
  shows "valid_order A ctx \<and> cx_orderId ctx = nf_orderId f"
proof -
  have canon: "canonical (ap_engine A) (nf_orderId f)" by (rule parsed_canonical [OF nfc f])
  have facts: "cx_orderId ctx = nf_orderId f" "cx_destination ctx = nf_destination f" "cx_amountStroops ctx = amount"
    "cx_conversationId ctx = di_idempotencyKeyHex (vp_ids payout)" "cx_memoHex ctx = di_memoHex (vp_ids payout)"
    using ctx by (auto simp: intent_ctx_def Let_def split: prod.splits)
  obtain raw bc where "build (de_nfc (ap_engine A)) (de_sha256 (ap_engine A)) (ap_isEd25519 A) (ap_isContract A) raw bc = Inr (Inr payout)"
    "rp_orderId raw = JsIs (nf_orderId f)" "rp_destination raw = JsIs (nf_destination f)" "rp_amount raw = JsIs amount"
    using price by (auto simp: intent_price_def Let_def split: option.splits sum.splits if_splits prod.splits)
  from build_valid [OF this] canon facts show ?thesis by (auto simp: valid_order_def canonical_def)
qed

lemma enter_inv:
  assumes inv: "bridge_inv R A (b, ps)" and ctx: "intent_ctx A f amount payout q b = (ctx, b')"
    and valid: "valid_order A ctx" "cx_orderId ctx = nf_orderId f"
  shows "bridge_inv R A (intent_register ctx b', (f, amount, ctx) # ps)"
proof -
  have inv': "bridge_inv R A (b', ps)"
    using ctx inv clock_inv [OF inv] by (auto simp: intent_ctx_def Let_def split: if_splits prod.splits)
  show ?thesis
  proof (cases "getByOrderId (br_registry b') (cx_orderId ctx)")
    case None
    with inv' have "\<forall>r \<in> set (pays (br_world b')). py_orderId r \<noteq> cx_orderId ctx" by (auto simp: bridge_inv_def paid_for_def)
    with None inv' valid show ?thesis
      by (auto simp: intent_register_def bridge_inv_def record_ok_def fresh_def paid_for_def)
  next
    case (Some rec)
    with inv' valid show ?thesis by (auto simp: intent_register_def bridge_inv_def)
  qed
qed

lemma pending_subset: "bridge_inv R A (b, ps) \<Longrightarrow> set qs \<subseteq> set ps \<Longrightarrow> bridge_inv R A (b, qs)"
  by (auto simp: bridge_inv_def)

lemma reserved_world_frame [simp]: "seqs (reserved_world ctx D w) = seqs w" "wo_calls (reserved_world ctx D w) = wo_calls w"
  by (simp_all add: reserved_world_def createIfAbsent_def)

lemma reserved_world_rows: "rows_kept w (reserved_world ctx D w)"
  by (simp add: rows_kept_def reserved_world_def createIfAbsent_def has_key_def)

text \<open>A start of an order without a row.\<close>

lemma start_facts:
  assumes R: "truthful R D" and canon: "canonical D (cx_orderId ctx)" and safe: "seq_safe R w" and fr: "fresh w (cx_orderId ctx)"
    and new: "\<not> has_key (so_orders (wo_store w)) (cx_orderId ctx)"
  shows "wp (start ctx D)
    (\<lambda>r w'. start_ends ctx w r w' \<and> keeps R (cx_orderId ctx) False w w' \<and> rows_kept w w' \<and> same_order ctx (rr_ctx r)
       \<and> fresh w' (cx_orderId ctx))
    (\<lambda>err w'. pays w' = pays w \<and> keeps R (cx_orderId ctx) False w w' \<and> rows_kept w w') w"
proof -
  let ?w = "reserved_world ctx D w" and ?e = "solvency_event (fst (first_reserve ctx D w))"
  have e: "\<not> releasing ?e" "?e \<noteq> EvidenceReverted"
    by (auto simp: solvency_event_def releasing_def split: reserve_outcome.splits)
  have k: "keeps R (cx_orderId ctx) False w ?w" by (rule keeps_same [OF safe]) simp_all
  then have pre: "run_pre R ctx Reserved ?e ?w" using e fr by (simp add: run_pre_def keeps_def fresh_def)
  have fresh: "keeps R (cx_orderId ctx) False w w' \<Longrightarrow> fresh w' (cx_orderId ctx)" for w' using fr by (simp add: keeps_def)
  have "wp (start ctx D) (\<lambda>r w'. run_post R ctx ?e ?w r w' \<and> (rows_kept ?w w' \<and> same_order ctx (rr_ctx r)) \<and> paid_once D ctx (pays ?w) w')
    (\<lambda>err w'. keeps R (cx_orderId ctx) (releasing ?e) ?w w' \<and> rows_kept ?w w' \<and> paid_once D ctx (pays ?w) w') w"
    using run_facts [OF R canon pre] by (simp add: wp_def start_is_run [OF new])
  from wp_conj [OF this start_wp [OF new, where D = D]] show ?thesis
    using e(1) keeps_trans [OF k] fresh rows_trans [OF reserved_world_rows [of w ctx D]]
    by (auto simp: run_post_def elim!: wp_mono)
qed

lemma lock_inv:
  assumes inv: "bridge_inv R A (b, ps)" and R: "truthful R (ap_engine A)" and mem: "(f, amount, ctx) \<in> set ps"
  shows "bridge_inv R A (snd (intent_locked A f amount ctx b), ps)"
proof -
  let ?w = "br_world b" and ?D = "ap_engine A" and ?g = "br_registry b" and ?o = "cx_orderId ctx"
  obtain rec0 where rec0: "getByOrderId ?g ?o = Some rec0" and valid: "valid_order A ctx" "nf_orderId f = ?o"
    using inv mem by (fastforce simp: bridge_inv_def)
  have recs: "\<forall>ord rec. getByOrderId ?g ord = Some rec \<longrightarrow> record_ok A ?w ord rec" using inv by (simp add: bridge_inv_def)
  show ?thesis
  proof (cases "has_key (so_orders (wo_store ?w)) ?o")
    case True
    from start_exists [OF this, of ?D] inv show ?thesis
      by (auto simp: intent_locked_def Let_def finish_def split: option.splits)
  next
    case False
    have "record_ok A ?w ?o rec0" using recs rec0 by blast
    with False have fr: "fresh ?w ?o" by (cases "od_state rec0 = Reserved") (auto simp: record_ok_def early_def)
    have unpaid: "\<forall>r \<in> set (pays ?w). py_orderId r \<noteq> ?o" using inv False by (auto simp: bridge_inv_def paid_for_def)
    have safe: "seq_safe R ?w" and canon: "canonical ?D ?o" using inv valid(1) by (simp_all add: bridge_inv_def valid_order_def)
    obtain res w' where st: "start ctx ?D ?w = (res, w')" by fastforce
    note facts = start_facts [OF R canon safe fr False]
    show ?thesis
    proof (cases res)
      case (Inl err)
      with facts st have f: "pays w' = pays ?w" "keeps R ?o False ?w w'" "rows_kept ?w w'" by (simp_all add: wp_def)
      have "record_ok A w' o1 rec1" if "getByOrderId ?g o1 = Some rec1" for o1 rec1
        by (rule others_kept [OF recs f(2,3) that]) simp
      moreover have "\<forall>r \<in> set (pays w'). paid_for A ?g w' r" using f inv by (auto simp: bridge_inv_def paid_for_def rows_kept_def)
      ultimately have "bridge_inv R A (b\<lparr> br_world := w' \<rparr>, ps)" using f(2) inv by (simp add: bridge_inv_def keeps_def)
      with Inl st inv show ?thesis by (simp add: intent_locked_def Let_def)
    next
      case (Inr r)
      with facts st have f: "start_ends ctx ?w r w'" "keeps R ?o False ?w w'" "rows_kept ?w w'" "same_order ctx (rr_ctx r)" "fresh w' ?o"
        by (simp_all add: wp_def)
      have put: "bridge_inv R A (b\<lparr> br_world := w', br_registry := registry_put c (rr_state r) ?g \<rparr>, ps)" if c: "same_order ctx c" for c
      proof -
        have co: "cx_orderId c = ?o" using c by (simp add: same_order_def same_facts_def)
        have "record_ok A w' o1 rec1" if "getByOrderId (registry_put c (rr_state r) ?g) o1 = Some rec1" for o1 rec1
        proof (cases "o1 = ?o")
          case True
          with that co f(1,5) valid_order_cong [OF c valid(1)] show ?thesis by (auto simp: record_ok_def start_ends_def)
        next
          case False
          with that co others_kept [OF recs f(2,3), of o1 rec1] show ?thesis by simp
        qed
        moreover have "\<forall>r' \<in> set (pays w'). paid_for A (registry_put c (rr_state r) ?g) w' r'"
          using f(1,3) inv unpaid co by (auto simp: start_ends_def bridge_inv_def paid_for_def rows_kept_def)
        ultimately show ?thesis using f(2) inv by (auto simp: bridge_inv_def keeps_def)
      qed
      have "same_order (rr_ctx r) ((rr_ctx r)\<lparr> cx_token := t, cx_paymentPageUrl := u \<rparr>)" for t u by (simp add: same_order_def same_facts_def)
      then have "same_order ctx ((rr_ctx r)\<lparr> cx_token := t, cx_paymentPageUrl := u \<rparr>)" for t u using same_order_trans [OF f(4)] by blast
      with put [OF f(4)] put inv st Inr f(1) show ?thesis
        by (auto simp: intent_locked_def Let_def start_ends_def split: option.splits list.splits side_output.splits)
    qed
  qed
qed

lemma bridge_step_inv:
  assumes "bridge_step A x y" "bridge_inv R A x" "truthful R (ap_engine A)" "nfc_ok (de_nfc (ap_engine A))"
  shows "bridge_inv R A y"
  using assms
proof (cases rule: bridge_step.cases)
  case (enter rq f b0 amount payout q b1 b ctx b' ps)
  with intent_ctx_valid [OF assms(4) enter(3,4,5)] assms(2) show ?thesis by (auto intro: enter_inv)
next
  case (lock f amount ctx ps b r b')
  with lock_inv [OF _ assms(3) lock(3)] assms(2) pending_subset [of R A b' ps "remove1 (f, amount, ctx) ps"] set_remove1_subset
  show ?thesis by fastforce
next
  case (seen w b ps ev ord t)
  with bridge_inv_frame [of R A b ps "w\<lparr> wo_store := snd (markWebhookSeen ev ord t (wo_store w)) \<rparr>" "br_budget b"] assms(2)
  show ?thesis by (simp add: rows_kept_def markWebhookSeen_def)
next
  case (webhook b conv rec token r b' ps)
  with webhook_inv [OF _ assms(3) webhook(3), of ps token] assms(2) show ?thesis by simp
next
  case (poll ord b r b' ps)
  with poll_inv [OF _ assms(3), of b ps ord] assms(2) show ?thesis by simp
next
  case (credit w b ps n)
  with bridge_inv_frame [of R A b ps "w\<lparr> wo_store := snd (creditPool n (wo_store w)) \<rparr>" "br_budget b"] assms(2)
  show ?thesis by (simp add: rows_kept_def creditPool_def split_beta)
next
  case (idle b ps m t)
  with bridge_inv_frame [of R A b ps "(br_world b)\<lparr> wo_tick := t \<rparr>" m] assms(2) show ?thesis by (simp add: rows_kept_def)
qed

lemma newBridge_inv: "bridge_inv R A (newBridge (newStore balance base log seed), [])"
  using newAllocator_inv [of base]
  by (auto simp: bridge_inv_def newBridge_def newRegistry_def getByOrderId_def seq_safe_def one_live_def covers_def
      newStore_def newAllocator_def burned_seqs_iff split: option.splits)

lemma bridge_run_inv:
  assumes "bridge_run A x y" "bridge_inv R A x" "truthful R (ap_engine A)" "nfc_ok (de_nfc (ap_engine A))"
  shows "bridge_inv R A y"
  using assms by (induction rule: bridge_run.induct) (auto intro: bridge_step_inv)

section \<open>The handlers are sequences of steps\<close>

lemma run_idle: "bridge_run A x (b, ps) \<Longrightarrow> bridge_run A x (b\<lparr> br_world := (br_world b)\<lparr> wo_tick := t \<rparr>, br_budget := m \<rparr>, ps)"
  by (rule bridge_run.snoc [OF _ bridge_step.idle])

lemma run_tick: "bridge_run A x (b, ps) \<Longrightarrow> next_tick b = (t, b') \<Longrightarrow> bridge_run A x (b', ps)"
  using run_idle [of A x b ps "br_budget b" "wo_tick (br_world b) + 1"] by (auto simp: next_tick_def)

lemma run_clock: "bridge_run A x (b, ps) \<Longrightarrow> nowUnix A b = (t, b') \<Longrightarrow> bridge_run A x (b', ps)"
  using run_tick by (auto simp: nowUnix_def split: prod.splits)

lemma session_run: "bridge_run A x (b, ps) \<Longrightarrow> intent_session A rq b = (r, b') \<Longrightarrow> bridge_run A x (b', ps)"
  using run_clock by (fastforce simp: intent_session_def split: option.splits prod.splits)

lemma budget_run:
  assumes "bridge_run A x (b, ps)" "intent_budget A f c b = (ok, b')"
  shows "bridge_run A x (b', ps)"
proof (cases "b' = b")
  case False
  then obtain now b1 m where "nowUnix A b = (now, b1)" "b' = b1\<lparr> br_budget := m \<rparr>"
    using assms(2) by (auto simp: intent_budget_def Let_def split: option.splits if_splits prod.splits)
  with run_clock [OF assms(1)] run_idle [of A x b1 ps m "wo_tick (br_world b1)"] show ?thesis by simp
qed (use assms in simp)

lemma price_run:
  assumes "bridge_run A x (b, ps)" "intent_price A f b = (r, b')"
  shows "bridge_run A x (b', ps)"
proof -
  obtain t b1 where t: "next_tick b = (t, b1)" by fastforce
  obtain u b2 where u: "next_tick b1 = (u, b2)" by fastforce
  have "b' \<in> {b, b1, b2}"
    using assms(2) t u by (auto simp: intent_price_def Let_def split: option.splits sum.splits if_splits)
  with run_tick [OF assms(1) t] run_tick [OF run_tick [OF assms(1) t] u] assms(1) show ?thesis by auto
qed

lemma handleIntent_run:
  assumes run: "bridge_run A x (b, ps)" and h: "handleIntent A rq b = (r, b')"
  shows "bridge_run A x (b', ps)"
proof -
  obtain s1 b1 where s1: "intent_session A rq b = (s1, b1)" by fastforce
  note r1 = session_run [OF run s1]
  show ?thesis
  proof (cases "\<exists>c f. s1 = Inr c \<and> intent_parse A rq = Inr f \<and> intent_existing f b1 = None")
    case False
    with h s1 have "b' = b1" by (auto simp: handleIntent_def split: sum.splits option.splits)
    with r1 show ?thesis by simp
  next
    case True
    then obtain c f where cf: "s1 = Inr c" "intent_parse A rq = Inr f" "intent_existing f b1 = None" by blast
    obtain ok b2 where b2: "intent_budget A f c b1 = (ok, b2)" by fastforce
    note r2 = budget_run [OF r1 b2]
    obtain p b3 where p: "intent_price A f b2 = (p, b3)" by fastforce
    note r3 = price_run [OF r2 p]
    show ?thesis
    proof (cases "ok \<and> (\<exists>amount payout q. p = Inr (amount, payout, q))")
      case False
      with h s1 cf b2 p have "b' \<in> {b2, b3}" by (auto simp: handleIntent_def Let_def split: sum.splits if_splits)
      with r2 r3 show ?thesis by auto
    next
      case True
      then obtain amount payout q where q: "ok" "p = Inr (amount, payout, q)" by blast
      obtain ctx b4 where ctx: "intent_ctx A f amount payout q b3 = (ctx, b4)" by fastforce
      have "bridge_run A x (intent_register ctx b4, (f, amount, ctx) # ps)"
        by (rule bridge_run.snoc [OF r3 bridge_step.enter [OF cf(2) p [unfolded q(2)] ctx]])
      moreover have "intent_locked A f amount ctx (intent_register ctx b4) = (fst (intent_locked A f amount ctx (intent_register ctx b4)), b')"
        using h s1 cf b2 p q ctx by (auto simp: handleIntent_def Let_def split: sum.splits prod.splits)
      ultimately show ?thesis using bridge_run.snoc [OF _ bridge_step.lock [where ps = "(f, amount, ctx) # ps"]] by fastforce
    qed
  qed
qed

lemma handleWebhook_run:
  assumes run: "bridge_run A x (b, ps)" and h: "handleWebhook A rq b = (r, b')"
  shows "bridge_run A x (b', ps)"
proof (cases "b' = b")
  case False
  with h obtain ev cv rec where rec: "getByConversationId (br_registry b) cv = Some rec"
    and h': "(let (now, b) = nowUnix A b;
        (first, s) = markWebhookSeen (webhook_event_id ev cv) (cx_orderId (od_ctx rec)) (now * 1000) (wo_store (br_world b));
        b = b\<lparr> br_world := (br_world b)\<lparr> wo_store := s \<rparr> \<rparr> in
      if \<not> first then (Inr (200, status_json ''duplicate''), b)
      else (case webhook_locked A cv (we_token ev) rec b of (Inl e, b) \<Rightarrow> (Inl e, b) | (Inr result, b) \<Rightarrow> (Inr (200, result), b))) = (r, b')"
    by (auto simp: handleWebhook_def Let_def split: if_splits option.splits)
  obtain now b1 where b1: "nowUnix A b = (now, b1)" by fastforce
  note r1 = run_clock [OF run b1]
  obtain fs s where fs: "markWebhookSeen (webhook_event_id ev cv) (cx_orderId (od_ctx rec)) (now * 1000) (wo_store (br_world b1)) = (fs, s)" by fastforce
  let ?b2 = "b1\<lparr> br_world := (br_world b1)\<lparr> wo_store := s \<rparr> \<rparr>"
  have r2: "bridge_run A x (?b2, ps)"
    using bridge_run.snoc [OF r1 bridge_step.seen [OF refl, of A b1 ps "webhook_event_id ev cv" "cx_orderId (od_ctx rec)" "now * 1000"]] fs by simp
  have "br_registry b1 = br_registry b" using b1 by (auto simp: nowUnix_def next_tick_def)
  then have rec2: "getByConversationId (br_registry ?b2) cv = Some rec" using rec by simp
  show ?thesis
  proof (cases fs)
    case True
    then have "webhook_locked A cv (we_token ev) rec ?b2 = (fst (webhook_locked A cv (we_token ev) rec ?b2), b')"
      using h' b1 fs by (auto split: sum.splits prod.splits)
    from bridge_run.snoc [OF r2 bridge_step.webhook [OF rec2 this]] show ?thesis .
  next
    case False
    with h' b1 fs r2 show ?thesis by simp
  qed
qed (use run in simp)

lemma poll_loop_run:
  "bridge_run A x (b, ps) \<Longrightarrow> poll_loop A ords rep b = (r, b') \<Longrightarrow> bridge_run A x (b', ps)"
proof (induction ords arbitrary: rep b)
  case (Cons ord ords)
  obtain res b1 where p: "poll_order A ord b = (res, b1)" by fastforce
  from bridge_run.snoc [OF Cons.prems(1) bridge_step.poll [OF p]] Cons.IH Cons.prems(2) p show ?case
    by (auto split: sum.splits if_splits)
qed simp

lemma pollInFlight_run: "bridge_run A x (b, ps) \<Longrightarrow> pollInFlight A b = (r, b') \<Longrightarrow> bridge_run A x (b', ps)"
  unfolding pollInFlight_def by (rule poll_loop_run)

section \<open>Theorems\<close>

text \<open>What the chain holds at a sequence number of the operator account: nothing yet, the payment that was applied
  there, or a transaction that failed.\<close>

datatype chain_entry = Applied pay_request | Failed

text \<open>C1. An order is paid out at most once. Take any history of the bridge: any number of orders, intents, webhooks and
  poll ticks interleaved at the points where the code gives up an order's lock, and ports that may answer anything and
  may throw at any point. If an observation says \<open>landed and reverted\<close> only of a sequence number the chain has used
  for a failed transaction, then of all payments ever submitted for one order at most one is applied on the chain.\<close>

theorem order_paid_out_at_most_once:
  assumes "nfc_ok (de_nfc (ap_engine A))"
    and "\<And>t rs. de_observe (ap_engine A) t rs = Some (Some LandedReverted) \<Longrightarrow> chain (rs_ourSeq rs) = Some Failed"
    and "bridge_run A (newBridge (newStore balance base log seed), []) (b, ps)"
  shows "\<forall>r1 \<in> set (payments (wo_calls (br_world b))). \<forall>r2 \<in> set (payments (wo_calls (br_world b))).
    py_orderId r1 = py_orderId r2 \<and> chain (pay_seq r1) = Some (Applied r1) \<and> chain (pay_seq r2) = Some (Applied r2) \<longrightarrow> r1 = r2"
proof -
  let ?R = "\<lambda>q. chain q = Some Failed"
  have "truthful ?R (ap_engine A)" using assms(2) by (simp add: truthful_def)
  from bridge_run_inv [OF assms(3) newBridge_inv this assms(1)]
  have live: "one_live (br_world b) ord" and burnt: "burned (br_world b) \<subseteq> Collect ?R" for ord
    by (simp_all add: bridge_inv_def seq_safe_def)
  show ?thesis
  proof (intro ballI impI)
    fix r1 r2
    assume r: "r1 \<in> set (pays (br_world b))" "r2 \<in> set (pays (br_world b))"
      and on: "py_orderId r1 = py_orderId r2 \<and> chain (pay_seq r1) = Some (Applied r1) \<and> chain (pay_seq r2) = Some (Applied r2)"
    from live [of "py_orderId r2"] obtain p where "covers p (br_world b) (py_orderId r2)" by (auto simp: one_live_def split: option.splits)
    moreover have "pay_seq r1 \<notin> burned (br_world b)" "pay_seq r2 \<notin> burned (br_world b)" using burnt on by auto
    ultimately have "pay_seq r1 = p" "pay_seq r2 = p" using r on by (auto simp: covers_def)
    with on show "r1 = r2" by auto
  qed
qed

text \<open>C4. Nothing is paid but registered, validated orders. In any history of the bridge, every payment ever submitted is
  for an order in the registry and carries that order's merchant, amount, rate and derived transaction id and memo;
  and every registered order passed the intent gate: its id is canonical, its amount is positive and fits the
  contract's integer, its destination is a valid address, and its conversation id and memo are the derived ones.\<close>

theorem payments_match_registered_orders:
  assumes "nfc_ok (de_nfc (ap_engine A))"
    and "bridge_run A (newBridge (newStore balance base log seed), []) (b, ps)"
  shows "(\<forall>r \<in> set (payments (wo_calls (br_world b))). \<exists>rec. getByOrderId (br_registry b) (py_orderId r) = Some rec
      \<and> own_request (ap_engine A) (od_ctx rec) r)
    \<and> (\<forall>ord rec. getByOrderId (br_registry b) ord = Some rec \<longrightarrow> cx_orderId (od_ctx rec) = ord \<and> valid_order A (od_ctx rec))"
proof -
  have "bridge_inv (\<lambda>_. True) A (b, ps)"
    by (rule bridge_run_inv [OF assms(2) newBridge_inv _ assms(1)]) (simp add: truthful_def)
  then show ?thesis by (simp add: bridge_inv_def paid_for_def record_ok_def)
qed

section \<open>A concrete history\<close>

text \<open>A card order whose first payment lands and reverts and whose second lands.\<close>

definition demo_app :: app_deps where
  "demo_app = \<lparr> ap_engine = demo_deps\<lparr> de_sha256 := (\<lambda>_. replicate 32 1),
       de_initForm := (\<lambda>_ _. Some (RawBody (JObj [(''token'', JStr (lit ''t'')), (''checkoutFormContent'', JStr (lit ''f'')),
         (''conversationId'', JStr (lit ''c''))]))),
       de_observe := (\<lambda>_ rs. Some (Some (if rs_ourSeq rs = 8 then LandedReverted else LandedSuccess))) \<rparr>,
     ap_quote = (\<lambda>_ _. Some \<lparr> aq_userTryKurus = 100, aq_paidPriceTry = lit ''1.00'', aq_appliedRateStroops = 7, aq_oracleMidE7 = 7,
       aq_spreadBps = 1, aq_spreadRevenueKurus = 1, aq_pspCostKurus = 1 \<rparr>),
     ap_bankQuote = None, ap_webhookSigningSecret = lit ''s'', ap_intentAuth = None,
     ap_snapshot = (\<lambda>_ _. Some \<lparr> as_exists = True, as_trustlines = [\<lparr> tl_assetCode = lit ''USDC'', tl_assetIssuer = [] \<rparr>], as_memoRequired = None \<rparr>),
     ap_retrieveForm = (\<lambda>_ conv token. Some (RawBody (JObj [(''status'', JStr (lit ''success'')), (''token'', JStr token),
       (''paymentId'', JStr (lit ''p'')), (''paymentStatus'', JStr (lit ''SUCCESS'')), (''conversationId'', JStr conv), (''fraudStatus'', JInt 1)]))),
     ap_retrieveTransfer = (\<lambda>_ _. None), ap_simulate = None, ap_random = (\<lambda>_. []),
     ap_isEd25519 = (\<lambda>u. u = lit ''G''), ap_isContract = (\<lambda>_. False),
     ap_codec = \<lparr> tc_hmac = (\<lambda>_ _. []), tc_b64 = (\<lambda>_. []), tc_unb64 = (\<lambda>_. None), tc_print = (\<lambda>_. []), tc_parse = (\<lambda>_. None) \<rparr> \<rparr>"

definition demo_intent :: http_request where
  "demo_intent = \<lparr> hr_body = Some (JObj [(''orderId'', JStr (lit ''o1'')), (''destination'', JStr (lit ''G'')), (''amountStroops'', JStr (lit ''5'')),
       (''assetIssuer'', JStr []), (''memoHex'', JStr (to_hex (replicate 32 1)))]),
     hr_sessionHeader = HeaderAbsent, hr_signatureHeader = HeaderAbsent, hr_ip = lit ''9'' \<rparr>"

definition demo_start :: bridge where
  "demo_start = snd (handleIntent demo_app demo_intent (newBridge (newStore 9 7 (Some []) [])))"

definition demo_paid :: bridge where
  "demo_paid = snd (pollInFlight demo_app demo_start)"

definition demo_memo :: ustring where
  "demo_memo = to_hex (replicate 32 1)"

definition demo_card_ctx :: order_ctx where
  "demo_card_ctx = \<lparr> cx_paymentMethod = Card, cx_bankTransfer = None, cx_bankExpiresAtUnix = None, cx_bankReview = False,
     cx_orderId = lit ''o1'', cx_conversationId = demo_memo, cx_destination = lit ''G'', cx_amountStroops = 5,
     cx_appliedRateStroops = 7, cx_memoHex = demo_memo, cx_paymentId = None, cx_token = None, cx_paymentPageUrl = None,
     cx_paidPriceTry = lit ''1.00'', cx_spreadKurus = 2, cx_feeKurus = 1, cx_currency = [], cx_ip = buyerIpOf (lit ''9''),
     cx_activeSeq = None, cx_channelPublic = None, cx_hashHex = None, cx_signedXdr = None, cx_payMaxTimeUnix = None,
     cx_deadRetries = 0, cx_reversalRetries = 0 \<rparr>"

definition demo_reserved_store :: store where
  "demo_reserved_store = (newStore 9 7 (Some []) [])\<lparr>
     so_ledger := \<lparr> rl_balanceStroops = 9, rl_reservations = [(lit ''o1'', \<lparr> rv_reservationId = lit ''res-'' @ lit ''o1'',
       rv_amountStroops = 5, rv_reservedAtMs = 100000, rv_expiresAtMs = 101000 \<rparr>)] \<rparr>,
     so_orders := [(lit ''o1'', \<lparr> or_state = Reserved, or_seq = None, or_paymentId = None, or_hashHex = None,
       or_signedXdr = None, or_channelPublic = None \<rparr>)] \<rparr>"

definition demo_reserved :: bridge where
  "demo_reserved = \<lparr> br_world = \<lparr> wo_store = demo_reserved_store, wo_tick = 4,
       wo_calls = [ExtInitForm (checkoutFormParams demo_card_ctx (ap_engine demo_app))] \<rparr>,
     br_registry = \<lparr> rg_byOrder = [(lit ''o1'', \<lparr> od_ctx = demo_card_ctx\<lparr> cx_token := Some (lit ''t'') \<rparr>, od_state = SolvencyReserved \<rparr>)],
       rg_convToOrder = [(demo_memo, lit ''o1'')] \<rparr>,
     br_budget = [] \<rparr>"

definition demo_derived :: derived_ids where
  "demo_derived = \<lparr> di_memo = replicate 32 1, di_txId = replicate 32 1, di_idempotencyKey = replicate 32 1,
     di_memoHex = demo_memo, di_txIdHex = demo_memo, di_idempotencyKeyHex = demo_memo \<rparr>"

lemma demo_memo_text: "length demo_memo = 64" "is_hex64 demo_memo" "from_hex demo_memo = replicate 32 1"
  unfolding demo_memo_def
  by (simp add: to_hex_def sum_list_replicate length_concat,
      simp add: is_hex64_def to_hex_def hex_digit_def hex_val_def length_concat sum_list_replicate list_all_iff,
      rule from_hex_to_hex)

lemma demo_amount_text: "parseBigInt (lit ''5'') = Some 5"
  by (simp add: parseBigInt_def js_trim_def lit_def js_space_def Let_def starts_with_def radix_nat_def hex_val_def)

lemma demo_derives: "deriveIds (\<lambda>u. u) (\<lambda>_. replicate 32 1) (lit ''o1'') (lit ''G'') 5 = Inr demo_derived"
  using demo_id_ok
  by (simp add: deriveIds_def canonicalizeOrderId_def I128_MIN_def I128_MAX_def NON_ASCII_def Let_def bindR_def
      demo_derived_def demo_memo_def computeMemo_def) (simp add: lit_def)

lemma demo_builds:
  "\<exists>p. build (\<lambda>u. u) (\<lambda>_. replicate 32 1) (\<lambda>u. u = lit ''G'') (\<lambda>_. False)
     \<lparr> rp_orderId = JsIs (lit ''o1''), rp_destination = JsIs (lit ''G''), rp_amount = JsIs 5, rp_assetIssuer = [], rp_memo = MemoText demo_memo \<rparr>
     \<lparr> bc_snapshot = \<lparr> as_exists = True, as_trustlines = [\<lparr> tl_assetCode = lit ''USDC'', tl_assetIssuer = [] \<rparr>], as_memoRequired = None \<rparr>,
       bc_allowedIssuers = [[]], bc_assetCode = None \<rparr> = Inr (Inr p) \<and> vp_ids p = demo_derived"
  using demo_id_ok demo_memo_text
  by (simp add: build_def canonicalizeOrderId_def classifyAddress_def decodeMemo_def isAllZero_def deriveMemo_def computeMemo_def
      bindR_def Let_def build_payable_def I128_MAX_def has_trustline_def demo_derives list_all_iff)

lemma demo_app_fuel: "run_fuel (ap_engine demo_app) = Suc (Suc (Suc (Suc (Suc (Suc (Suc (Suc (Suc (Suc (Suc (Suc (Suc 0))))))))))))"
  by (simp add: run_fuel_def demo_app_def demo_deps_def demo_config_def)

lemmas intent_defs = handleIntent_def intent_session_def intent_parse_def intent_existing_def intent_budget_def intent_price_def
  intent_ctx_def intent_register_def intent_locked_def registry_put_def getByOrderId_def newBridge_def newRegistry_def next_tick_def
  optStr_def parse_method_def bank_missing_def tryCanonicalizeOrderId_def quote_for_def availableStroops_def available_def
  sumReserved_def newReservationLedger_def

lemmas engine_eval_defs = sm_defs guard_defs perform_defs initialState_def start_def run_def bindE_def retE_def failE_def need_def
  ask_def tell_def on_store_def on_seq_def NO_EVENT_def event_result_def absorb_def decisionEvent_def allocate_def reallocate_def
  confirmBurned_def grant_def takeSeq_def with_id_def canonicalizeOrderId_def persist_def Let_def classifyRevertCause_def
  verdictToCore_def store_defs finish_def retry_count_def createIfAbsent_def has_key_def reserve_def reserve_begin_def
  reserve_end_def commit_def reservationFor_def projectCheckoutFormInit_def readString_def

lemma demo_start_eq: "demo_start = demo_reserved"
proof -
  obtain p where p: "build (\<lambda>u. u) (\<lambda>_. replicate 32 1) (\<lambda>u. u = lit ''G'') (\<lambda>_. False)
     \<lparr> rp_orderId = JsIs (lit ''o1''), rp_destination = JsIs (lit ''G''), rp_amount = JsIs 5, rp_assetIssuer = [], rp_memo = MemoText demo_memo \<rparr>
     \<lparr> bc_snapshot = \<lparr> as_exists = True, as_trustlines = [\<lparr> tl_assetCode = lit ''USDC'', tl_assetIssuer = [] \<rparr>], as_memoRequired = None \<rparr>,
       bc_allowedIssuers = [[]], bc_assetCode = None \<rparr> = Inr (Inr p)" "vp_ids p = demo_derived"
    using demo_builds by blast
  with demo_id_ok demo_memo_text demo_derives demo_amount_text demo_app_fuel show ?thesis
    by (simp add: demo_start_def demo_intent_def demo_app_def demo_defs demo_derived_def demo_memo_def [symmetric]
        demo_reserved_def demo_reserved_store_def demo_card_ctx_def intent_defs newStore_def newAllocator_def engine_eval_defs)
qed

lemma demo_charge:
  "charge_step ctx conv (RawBody (JObj [(''status'', JStr (lit ''success'')), (''token'', JStr token), (''paymentId'', JStr (lit ''p'')),
     (''paymentStatus'', JStr (lit ''SUCCESS'')), (''conversationId'', JStr conv), (''fraudStatus'', JInt 1)]))
   = Some (ctx\<lparr> cx_paymentId := Some (lit ''p'') \<rparr>, ChargeOk)"
  by (simp add: charge_step_def projectCheckoutFormResult_def readString_def chargeEvent_def classifyIyzicoResult_def success_shape_def
      readNumber_def TERMINAL_SUCCESS_PAYMENT_STATUS_def FRAUD_STATUS_OK_def lit_def)

lemma demo_paid_seqs: "map pay_seq (payments (wo_calls (br_world demo_paid))) = [8, 9]"
  using demo_id_ok demo_memo_text demo_derives demo_app_fuel
  by (simp add: demo_paid_def demo_start_eq pollInFlight_def poll_order_def poll_card_def ordersInStates_def getByOrderId_def
     isLossFlagged_def next_tick_def moved_def count_outcome_def
     RECOVERY_STATES_def demo_reserved_def demo_reserved_store_def demo_card_ctx_def demo_app_def demo_defs demo_derived_def
     newStore_def newAllocator_def demo_charge advance_and_put_def advance_def engine_eval_defs pay_seq_def payments_def List.map_filter_def)

lemma demo_history: "bridge_run demo_app (newBridge (newStore 9 7 (Some []) []), []) (demo_paid, [])"
  unfolding demo_paid_def demo_start_def
  by (rule pollInFlight_run [OF handleIntent_run [OF bridge_run.nil]]) (rule prod.collapse [symmetric])+

lemma demo_nfc: "nfc_ok (de_nfc (ap_engine demo_app))"
  by (simp add: nfc_ok_def demo_app_def demo_deps_def)

theorem order_paid_out_at_most_once_witness:
  "let pays = payments (wo_calls (br_world demo_paid));
       chain = (\<lambda>q. if q = 8 then Some Failed else if q = 9 then Some (Applied (last pays)) else None) in
   map pay_seq pays = [8, 9] \<and> chain (pay_seq (last pays)) = Some (Applied (last pays)) \<and> pays ! 1 = last pays"
proof -
  let ?pays = "payments (wo_calls (br_world demo_paid))"
  let ?chain = "\<lambda>q. if q = 8 then Some Failed else if q = 9 then Some (Applied (last ?pays)) else None"
  from demo_paid_seqs obtain r1 r2 where two: "?pays = [r1, r2]" "pay_seq r1 = 8" "pay_seq r2 = 9" by (auto simp: map_eq_Cons_conv)
  have "?chain (rs_ourSeq rs) = Some Failed" if "de_observe (ap_engine demo_app) t rs = Some (Some LandedReverted)" for t rs
    using that by (simp add: demo_app_def split: if_splits)
  from order_paid_out_at_most_once [where chain = ?chain, OF demo_nfc this demo_history] two demo_paid_seqs show ?thesis
    by (simp add: Let_def)
qed

theorem payments_match_registered_orders_witness:
  "\<exists>rec. getByOrderId (br_registry demo_paid) (py_orderId (hd (payments (wo_calls (br_world demo_paid))))) = Some rec
     \<and> own_request (ap_engine demo_app) (od_ctx rec) (hd (payments (wo_calls (br_world demo_paid)))) \<and> valid_order demo_app (od_ctx rec)"
proof -
  from demo_paid_seqs have "hd (payments (wo_calls (br_world demo_paid))) \<in> set (payments (wo_calls (br_world demo_paid)))"
    by (cases "payments (wo_calls (br_world demo_paid))") auto
  with payments_match_registered_orders [OF demo_nfc demo_history] show ?thesis by blast
qed

end
