(* ===== verification/Settlement.thy ===== *)
theory Settlement
  imports Order_Store Pricing
begin

text \<open>
  The refill of the pool after a payout: the pending settlements (\<^verbatim>\<open>backend/src/settlement/pending-settlement-store.ts\<close>),
  the policy that sizes a refill (\<^verbatim>\<open>rebalance-policy.ts\<close>), the provider that mints it
  (\<^verbatim>\<open>packages/rebalance/src/index.ts\<close>), the write-ahead journal of mints
  (\<^verbatim>\<open>composition/src/mint-intent-journal.ts\<close>) and the worker (\<^verbatim>\<open>settlement-worker.ts\<close>).

  The process may die before or after any effect that leaves its memory; a life ends there and the next one starts
  from what is durable: the ledger's journal, the evidence and the open mint intents. The theorem at the end is the one
  the journal exists for: over any number of lives a refill is minted at most once.
\<close>

section \<open>Pending settlements, pending-settlement-store.ts\<close>

datatype settlement_status = StPending | StSettling | StSettled | StVoided

record pending_input =
  pn_orderId :: ustring
  pn_tryKurus :: int
  pn_usdcPaidOutStroops :: int
  pn_appliedRateStroops :: int
  pn_confirmedAtUnix :: int
  pn_settlesAtUnix :: int

record pending_settlement = pending_input +
  pn_status :: settlement_status

type_synonym pending_store = "(ustring, pending_settlement) jsmap"

text \<open>\<open>True\<close> is \<open>recorded\<close>, \<open>False\<close> is \<open>exists\<close>.\<close>

definition recordIfAbsent :: "(ustring \<Rightarrow> ustring) \<Rightarrow> pending_input \<Rightarrow> pending_store \<Rightarrow> (derive_error + bool) \<times> pending_store" where
  "recordIfAbsent nfc rec m =
     (case canonicalizeOrderId nfc (JsIs (pn_orderId rec)) of
        Inl e \<Rightarrow> (Inl e, m)
      | Inr orderId \<Rightarrow>
          if has_key m orderId then (Inr False, m)
          else (Inr True, AList.update orderId
                  (pending_input.extend (rec\<lparr> pn_orderId := orderId \<rparr>) (pending_settlement.fields StPending)) m))"

definition due :: "int \<Rightarrow> pending_store \<Rightarrow> pending_settlement list" where
  "due nowUnix m = filter (\<lambda>r. pn_status r = StPending \<and> pn_settlesAtUnix r \<le> nowUnix) (map snd m)"

definition claim :: "(ustring \<Rightarrow> ustring) \<Rightarrow> ustring \<Rightarrow> pending_store \<Rightarrow> (derive_error + bool) \<times> pending_store" where
  "claim nfc orderIdRaw m =
     (case canonicalizeOrderId nfc (JsIs orderIdRaw) of
        Inl e \<Rightarrow> (Inl e, m)
      | Inr orderId \<Rightarrow>
          (case map_of m orderId of
             None \<Rightarrow> (Inr False, m)
           | Some r \<Rightarrow>
               if pn_status r \<noteq> StPending then (Inr False, m)
               else (Inr True, AList.update orderId (r\<lparr> pn_status := StSettling \<rparr>) m)))"

definition fromSettling ::
    "(ustring \<Rightarrow> ustring) \<Rightarrow> ustring \<Rightarrow> settlement_status \<Rightarrow> pending_store \<Rightarrow> (derive_error + unit) \<times> pending_store" where
  "fromSettling nfc orderIdRaw to m =
     (case canonicalizeOrderId nfc (JsIs orderIdRaw) of
        Inl e \<Rightarrow> (Inl e, m)
      | Inr orderId \<Rightarrow>
          (case map_of m orderId of
             None \<Rightarrow> (Inr (), m)
           | Some r \<Rightarrow>
               if pn_status r \<noteq> StSettling then (Inr (), m)
               else (Inr (), AList.update orderId (r\<lparr> pn_status := to \<rparr>) m)))"

definition markSettled :: "(ustring \<Rightarrow> ustring) \<Rightarrow> ustring \<Rightarrow> pending_store \<Rightarrow> (derive_error + unit) \<times> pending_store" where
  "markSettled nfc orderIdRaw = fromSettling nfc orderIdRaw StSettled"

definition markFailed :: "(ustring \<Rightarrow> ustring) \<Rightarrow> ustring \<Rightarrow> pending_store \<Rightarrow> (derive_error + unit) \<times> pending_store" where
  "markFailed nfc orderIdRaw = fromSettling nfc orderIdRaw StPending"

definition markVoided :: "(ustring \<Rightarrow> ustring) \<Rightarrow> ustring \<Rightarrow> pending_store \<Rightarrow> (derive_error + unit) \<times> pending_store" where
  "markVoided nfc orderIdRaw m =
     (case canonicalizeOrderId nfc (JsIs orderIdRaw) of
        Inl e \<Rightarrow> (Inl e, m)
      | Inr orderId \<Rightarrow>
          (case map_of m orderId of
             None \<Rightarrow> (Inr (), m)
           | Some r \<Rightarrow>
               if pn_status r = StSettled \<or> pn_status r = StVoided then (Inr (), m)
               else (Inr (), AList.update orderId (r\<lparr> pn_status := StVoided \<rparr>) m)))"

definition get_pending :: "(ustring \<Rightarrow> ustring) \<Rightarrow> ustring \<Rightarrow> pending_store \<Rightarrow> derive_error + pending_settlement option" where
  "get_pending nfc orderIdRaw m =
     (case canonicalizeOrderId nfc (JsIs orderIdRaw) of Inl e \<Rightarrow> Inl e | Inr orderId \<Rightarrow> Inr (map_of m orderId))"

section \<open>The policy, rebalance-policy.ts\<close>

record topup_request =
  tr_ref :: ustring
  tr_usdcStroops :: int
  tr_valueKurus :: int

definition KURUS_TO_STROOP_NUMERATOR :: int where "KURUS_TO_STROOP_NUMERATOR = 1000000000000"

definition topup_ref :: "ustring \<Rightarrow> ustring" where
  "topup_ref orderId = lit ''topup:'' @ orderId"

definition plan :: "pending_settlement \<Rightarrow> int \<Rightarrow> range_error + topup_request" where
  "plan rec liveRateStroops =
     (if liveRateStroops \<le> 0 then Inl RangeError
      else if pn_tryKurus rec \<le> 0 then Inl RangeError
      else Inr \<lparr> tr_ref = topup_ref (pn_orderId rec),
                 tr_usdcStroops = bigdiv (pn_tryKurus rec * KURUS_TO_STROOP_NUMERATOR) liveRateStroops,
                 tr_valueKurus = pn_tryKurus rec \<rparr>)"

section \<open>The provider, rebalance/src/index.ts\<close>

record topup_result =
  tu_ref :: ustring
  tu_usdcStroops :: int
  tu_valueKurus :: int
  tu_txHash :: ustring
  tu_poolStroops :: int

text \<open>What the map of in-flight promises holds for a ref: a mint under way, or the result it resolved to. A rejected
  promise leaves the map.\<close>

datatype mint_promise = MintRunning topup_request | MintDone topup_result

datatype topup_call = CallInvalid | CallJoined mint_promise | CallMints

type_synonym inflight = "(ustring, mint_promise) jsmap"

definition topUp_call :: "topup_request \<Rightarrow> inflight \<Rightarrow> topup_call \<times> inflight" where
  "topUp_call req m =
     (if length (tr_ref req) = 0 then (CallInvalid, m)
      else if tr_usdcStroops req \<le> 0 then (CallInvalid, m)
      else if tr_valueKurus req \<le> 0 then (CallInvalid, m)
      else (case map_of m (tr_ref req) of
              Some existing \<Rightarrow> (CallJoined existing, m)
            | None \<Rightarrow> (CallMints, AList.update (tr_ref req) (MintRunning req) m)))"

text \<open>The mint port answered: a transaction hash and the balance after it, or a rejection.\<close>

definition topUp_settled :: "ustring \<Rightarrow> (ustring \<times> int) option \<Rightarrow> inflight \<Rightarrow> inflight" where
  "topUp_settled ref answer m =
     (case map_of m ref of
        Some (MintRunning req) \<Rightarrow>
          (case answer of
             Some (txHash, poolStroops) \<Rightarrow>
               AList.update ref (MintDone \<lparr> tu_ref = tr_ref req, tu_usdcStroops = tr_usdcStroops req,
                 tu_valueKurus = tr_valueKurus req, tu_txHash = txHash, tu_poolStroops = poolStroops \<rparr>) m
           | None \<Rightarrow> AList.delete ref m)
      | _ \<Rightarrow> m)"

section \<open>The mint write-ahead journal, mint-intent-journal.ts\<close>

text \<open>The table \<open>mint_intents\<close>: ref to the life that opened it and the time.\<close>

type_synonym mint_intents = "(ustring, ustring \<times> int) jsmap"

definition unresolvedAtBoot :: "ustring \<Rightarrow> mint_intents \<Rightarrow> ustring list" where
  "unresolvedAtBoot bootId T = map fst (filter (\<lambda>(ref, boot, at). boot \<noteq> bootId) T)"

definition isBlocked :: "ustring \<Rightarrow> ustring \<Rightarrow> mint_intents \<Rightarrow> bool" where
  "isBlocked bootId ref T = (case map_of T ref of None \<Rightarrow> False | Some (boot, at) \<Rightarrow> boot \<noteq> bootId)"

text \<open>\<open>None\<close> when no row changed, and \<open>open\<close> throws.\<close>

definition open_intent :: "ustring \<Rightarrow> ustring \<Rightarrow> int \<Rightarrow> mint_intents \<Rightarrow> mint_intents option" where
  "open_intent bootId ref nowMs T =
     (case map_of T ref of
        None \<Rightarrow> Some (AList.update ref (bootId, nowMs) T)
      | Some (boot, at) \<Rightarrow> if boot = bootId then Some (AList.update ref (boot, nowMs) T) else None)"

definition close_intent :: "ustring \<Rightarrow> mint_intents \<Rightarrow> mint_intents" where
  "close_intent ref T = AList.delete ref T"

section \<open>The worker, settlement-worker.ts\<close>

text \<open>What one effect does to the process that performs it.\<close>

datatype fate = Lives | DiesBefore | DiesAfter

datatype settle_error =
    SeDied
  | SeDurable
  | SeLedger ledger_error
  | SeOrderId derive_error
  | SeRate
  | SePlan
  | SeProvider
  | SeMintThrew
  | SeForeignMint
  | SeIntentOpen
  | SeCredit reservation_error

definition isDurableLogFailure :: "settle_error \<Rightarrow> bool" where
  "isDurableLogFailure e = (e = SeDurable \<or> e = SeLedger SinkFailed)"

definition isDuplicateRef :: "settle_error \<Rightarrow> bool" where
  "isDuplicateRef e = (e = SeLedger DuplicateRef)"

record settle_report =
  sr_armed :: nat
  sr_settled :: nat
  sr_voided :: nat
  sr_failed :: nat
  sr_skipped :: nat
  sr_booked :: nat
  sr_mintBlocked :: nat

text \<open>The collaborators whose answers come from outside, each a function of the number of the effect.\<close>

record settle_deps =
  sd_manualFunding :: bool
  sd_nfc :: "ustring \<Rightarrow> ustring"
  sd_now :: "nat \<Rightarrow> int"
  sd_rate :: "nat \<Rightarrow> int option"
  sd_mint :: "nat \<Rightarrow> int \<Rightarrow> (ustring \<times> int) option"
  sd_sinkOk :: "nat \<Rightarrow> bool"
  sd_dbOk :: "nat \<Rightarrow> bool"
  sd_fate :: "nat \<Rightarrow> fate"
  sd_demoValorSecs :: int

text \<open>The state the worker works on. \<open>sw_mints\<close> is what the mint port put on the chain, with the ref it was for;
  \<open>sw_intents\<close> is \<open>None\<close> when no journal is injected.\<close>

record settle_world =
  sw_store :: store
  sw_ledger :: ledger
  sw_pending :: pending_store
  sw_inflight :: inflight
  sw_intents :: "mint_intents option"
  sw_bootId :: ustring
  sw_tick :: nat
  sw_mints :: "(ustring \<times> int) list"

type_synonym 'a settle = "settle_world \<Rightarrow> (settle_error + 'a) \<times> settle_world"

definition retS :: "'a \<Rightarrow> 'a settle" where "retS x w = (Inr x, w)"

definition failS :: "settle_error \<Rightarrow> 'a settle" where "failS e w = (Inl e, w)"

definition bindS :: "'a settle \<Rightarrow> ('a \<Rightarrow> 'b settle) \<Rightarrow> 'b settle" where
  "bindS m f w = (case m w of (Inl e, w') \<Rightarrow> (Inl e, w') | (Inr x, w') \<Rightarrow> f x w')"

definition catchS :: "'a settle \<Rightarrow> (settle_error \<Rightarrow> 'a settle) \<Rightarrow> 'a settle" where
  "catchS m h w = (case m w of (Inl e, w') \<Rightarrow> if e = SeDied then (Inl e, w') else h e w' | (Inr x, w') \<Rightarrow> (Inr x, w'))"

text \<open>An effect outside the process's memory: the process may die on either side of it.\<close>

definition act :: "settle_deps \<Rightarrow> (nat \<Rightarrow> 'a settle) \<Rightarrow> 'a settle" where
  "act D f w =
     (let t = sw_tick w; w = w\<lparr> sw_tick := t + 1 \<rparr> in
      case sd_fate D t of
        Lives \<Rightarrow> f t w
      | DiesBefore \<Rightarrow> (Inl SeDied, w)
      | DiesAfter \<Rightarrow> (Inl SeDied, snd (f t w)))"

definition on_ledger :: "(ledger \<Rightarrow> (ledger_error + 'a) \<times> ledger) \<Rightarrow> 'a settle" where
  "on_ledger f w =
     (case f (sw_ledger w) of
        (Inl e, l) \<Rightarrow> (Inl (SeLedger e), w\<lparr> sw_ledger := l \<rparr>)
      | (Inr x, l) \<Rightarrow> (Inr x, w\<lparr> sw_ledger := l \<rparr>))"

definition on_pending :: "(pending_store \<Rightarrow> (derive_error + 'a) \<times> pending_store) \<Rightarrow> 'a settle" where
  "on_pending f w =
     (case f (sw_pending w) of
        (Inl e, m) \<Rightarrow> (Inl (SeOrderId e), w\<lparr> sw_pending := m \<rparr>)
      | (Inr x, m) \<Rightarrow> (Inr x, w\<lparr> sw_pending := m \<rparr>))"

definition db_open :: "settle_deps \<Rightarrow> ustring \<Rightarrow> nat \<Rightarrow> unit settle" where
  "db_open D ref t w =
     (case sw_intents w of
        None \<Rightarrow> (Inr (), w)
      | Some T \<Rightarrow>
          if \<not> sd_dbOk D t then (Inl SeDurable, w)
          else (case open_intent (sw_bootId w) ref (sd_now D t * 1000) T of
                  None \<Rightarrow> (Inl SeIntentOpen, w)
                | Some T' \<Rightarrow> (Inr (), w\<lparr> sw_intents := Some T' \<rparr>)))"

definition db_close :: "settle_deps \<Rightarrow> ustring \<Rightarrow> nat \<Rightarrow> unit settle" where
  "db_close D ref t w =
     (case sw_intents w of
        None \<Rightarrow> (Inr (), w)
      | Some T \<Rightarrow> if \<not> sd_dbOk D t then (Inl SeDurable, w) else (Inr (), w\<lparr> sw_intents := Some (close_intent ref T) \<rparr>))"

text \<open>\<open>mintToPool\<close>, under the contract \<^verbatim>\<open>rebalance/src/index.ts\<close> and the worker state for a mint port: a mint that throws has
  put nothing on the chain, so the chain has the mint exactly when the port answers with its hash. \<open>Mint_Client\<close> models the
  port of the deployment, which does not keep this contract.\<close>

definition mintToPool :: "settle_deps \<Rightarrow> topup_request \<Rightarrow> nat \<Rightarrow> (ustring \<times> int) option settle" where
  "mintToPool D req t w =
     (case sd_mint D t (tr_usdcStroops req) of
        None \<Rightarrow> (Inr None, w)
      | Some answer \<Rightarrow> (Inr (Some answer), w\<lparr> sw_mints := sw_mints w @ [(tr_ref req, tr_usdcStroops req)] \<rparr>))"

text \<open>\<open>topUp\<close> awaited: a call, the mint it starts, and its promise settling.\<close>

definition topUp :: "settle_deps \<Rightarrow> topup_request \<Rightarrow> topup_result settle" where
  "topUp D req w =
     (case topUp_call req (sw_inflight w) of
        (CallInvalid, _) \<Rightarrow> (Inl SeProvider, w)
      | (CallJoined (MintDone r), _) \<Rightarrow> (Inr r, w)
      | (CallJoined (MintRunning _), _) \<Rightarrow> (Inl SeForeignMint, w)
      | (CallMints, m) \<Rightarrow>
          bindS (act D (mintToPool D req)) (\<lambda>answer w.
            let m = topUp_settled (tr_ref req) answer (sw_inflight w); w = w\<lparr> sw_inflight := m \<rparr> in
            (case map_of m (tr_ref req) of
               Some (MintDone r) \<Rightarrow> (Inr r, w)
             | _ \<Rightarrow> (Inl SeMintThrew, w)))
          (w\<lparr> sw_inflight := m \<rparr>))"

definition paid_kurus :: "ustring \<Rightarrow> range_error + int" where
  "paid_kurus paidPriceTry = (case ascii_of (js_trim paidPriceTry) of None \<Rightarrow> Inl RangeError | Some s \<Rightarrow> tryToKurus s)"

text \<open>\<open>confirmed.get\<close>: the evidence row of the order.\<close>

definition confirmedOrder :: "store \<Rightarrow> ustring \<Rightarrow> order_facts option" where
  "confirmedOrder s orderId = map_option ew_order (settledEvidence s orderId)"

text \<open>Phase A, the section of one order: book the payout, then record the settlement that will refill it.\<close>

definition arm_pending :: "settle_deps \<Rightarrow> ustring \<Rightarrow> order_facts \<Rightarrow> int \<Rightarrow> settle_report \<Rightarrow> settle_report settle" where
  "arm_pending D orderId facts tryKurus report =
     (if sd_manualFunding D then retS report
      else bindS (act D (\<lambda>t. retS (sd_now D t))) (\<lambda>now.
        bindS (on_pending (recordIfAbsent (sd_nfc D)
            \<lparr> pn_orderId = orderId, pn_tryKurus = tryKurus, pn_usdcPaidOutStroops = of_amountStroops facts,
              pn_appliedRateStroops = of_appliedRateStroops facts, pn_confirmedAtUnix = now,
              pn_settlesAtUnix = now + sd_demoValorSecs D \<rparr>)) (\<lambda>recorded.
        retS (if recorded then report\<lparr> sr_armed := sr_armed report + 1 \<rparr> else report))))"

definition arm_order :: "settle_deps \<Rightarrow> ustring \<Rightarrow> settle_report \<Rightarrow> settle_report settle" where
  "arm_order D orderId report w =
     (case confirmedOrder (sw_store w) orderId of
        None \<Rightarrow> (Inr report, w)
      | Some facts \<Rightarrow>
          (case paid_kurus (of_paidPriceTry facts) of
             Inl _ \<Rightarrow> (Inr report, w)
           | Inr tryKurus \<Rightarrow>
               if tryKurus \<le> 0 then (Inr report, w)
               else (case act D (\<lambda>t. on_ledger (recordSettlement (sd_sinkOk D t)
                       \<lparr> si_orderId = orderId, si_usdcStroops = of_amountStroops facts, si_userTryKurus = tryKurus,
                         si_spreadKurus = of_spreadKurus facts, si_feeKurus = Some (of_feeKurus facts) \<rparr>)) w of
                   (Inr _, w) \<Rightarrow> arm_pending D orderId facts tryKurus (report\<lparr> sr_booked := sr_booked report + 1 \<rparr>) w
                 | (Inl e, w) \<Rightarrow>
                     if e = SeDied \<or> isDurableLogFailure e then (Inl e, w)
                     else if \<not> isDuplicateRef e then (Inr (report\<lparr> sr_skipped := sr_skipped report + 1 \<rparr>), w)
                     else arm_pending D orderId facts tryKurus report w)))"

text \<open>Phase B, the section of one due record. The guarded part first: rate, plan, the three questions, mint, book, credit.\<close>

definition book_and_credit ::
    "settle_deps \<Rightarrow> pending_settlement \<Rightarrow> topup_request \<Rightarrow> topup_result \<Rightarrow> settle_report \<Rightarrow> settle_report settle" where
  "book_and_credit D rec req result report =
     bindS (catchS (bindS (act D (\<lambda>t. on_ledger (recordTopUp (sd_sinkOk D t)
               \<lparr> ti_ref = tr_ref req, ti_usdcStroops = tu_usdcStroops result, ti_valueKurus = tr_valueKurus req \<rparr>)))
             (\<lambda>_. retS ()))
           (\<lambda>e. if \<not> isDuplicateRef e then failS e else retS ())) (\<lambda>_.
     bindS (act D (db_close D (tr_ref req))) (\<lambda>_.
     bindS (act D (\<lambda>t w. case creditPool (tu_usdcStroops result) (sw_store w) of
               (Inl e, s) \<Rightarrow> (Inl (SeCredit e), w\<lparr> sw_store := s \<rparr>)
             | (Inr _, s) \<Rightarrow> (Inr (), w\<lparr> sw_store := s \<rparr>))) (\<lambda>_.
     bindS (on_pending (markSettled (sd_nfc D) (pn_orderId rec))) (\<lambda>_.
     retS (report\<lparr> sr_settled := sr_settled report + 1 \<rparr>)))))"

definition mint_and_book :: "settle_deps \<Rightarrow> pending_settlement \<Rightarrow> topup_request \<Rightarrow> settle_report \<Rightarrow> settle_report settle" where
  "mint_and_book D rec req report =
     bindS (act D (db_open D (tr_ref req))) (\<lambda>_.
     bindS (topUp D req) (\<lambda>result. book_and_credit D rec req result report))"

definition refill_request :: "settle_deps \<Rightarrow> pending_settlement \<Rightarrow> topup_request \<Rightarrow> settle_report \<Rightarrow> settle_report settle" where
  "refill_request D rec req report w =
     (if hasRef (sw_ledger w) (tr_ref req) then
        bindS (act D (db_close D (tr_ref req))) (\<lambda>_.
        bindS (on_pending (markSettled (sd_nfc D) (pn_orderId rec))) (\<lambda>_.
        retS (report\<lparr> sr_skipped := sr_skipped report + 1 \<rparr>))) w
      else if (case sw_intents w of None \<Rightarrow> False | Some T \<Rightarrow> isBlocked (sw_bootId w) (tr_ref req) T) then
        bindS (on_pending (markFailed (sd_nfc D) (pn_orderId rec))) (\<lambda>_.
        retS (report\<lparr> sr_mintBlocked := sr_mintBlocked report + 1 \<rparr>)) w
      else mint_and_book D rec req report w)"

definition refill :: "settle_deps \<Rightarrow> pending_settlement \<Rightarrow> settle_report \<Rightarrow> settle_report settle" where
  "refill D rec report =
     bindS (act D (\<lambda>t w. case sd_rate D t of None \<Rightarrow> (Inl SeRate, w) | Some r \<Rightarrow> (Inr r, w))) (\<lambda>liveRate.
       case plan rec liveRate of Inl _ \<Rightarrow> failS SePlan | Inr req \<Rightarrow> refill_request D rec req report)"

definition settle_order :: "settle_deps \<Rightarrow> pending_settlement \<Rightarrow> settle_report \<Rightarrow> settle_report settle" where
  "settle_order D rec report w =
     (if confirmedOrder (sw_store w) (pn_orderId rec) = None then
        bindS (on_pending (markVoided (sd_nfc D) (pn_orderId rec))) (\<lambda>_.
        retS (report\<lparr> sr_voided := sr_voided report + 1 \<rparr>)) w
      else
        bindS (on_pending (claim (sd_nfc D) (pn_orderId rec))) (\<lambda>won.
          if \<not> won then retS (report\<lparr> sr_skipped := sr_skipped report + 1 \<rparr>)
          else catchS (refill D rec report) (\<lambda>e.
            if isDurableLogFailure e then failS e
            else bindS (on_pending (markFailed (sd_nfc D) (pn_orderId rec))) (\<lambda>_.
              retS (report\<lparr> sr_failed := sr_failed report + 1 \<rparr>)))) w)"

fun each :: "('x \<Rightarrow> 'r \<Rightarrow> 'r settle) \<Rightarrow> 'x list \<Rightarrow> 'r \<Rightarrow> 'r settle" where
  "each f [] r = retS r"
| "each f (x # xs) r = bindS (f x r) (each f xs)"

definition settleAndRebalance :: "settle_deps \<Rightarrow> settle_report settle" where
  "settleAndRebalance D w =
     bindS (each (arm_order D) (map fst (confirmedOrders (sw_store w)))
       \<lparr> sr_armed = 0, sr_settled = 0, sr_voided = 0, sr_failed = 0, sr_skipped = 0, sr_booked = 0, sr_mintBlocked = 0 \<rparr>) (\<lambda>report.
     if sd_manualFunding D then retS report
     else bindS (act D (\<lambda>t. retS (sd_now D t))) (\<lambda>now w.
       each (settle_order D) (due now (sw_pending w)) report w)) w"

section \<open>Lives of the process\<close>

text \<open>The ledger of a new life, rebuilt from its journal (\<open>buildDurableBundle\<close>).\<close>

definition reopenLedger :: "json list \<Rightarrow> ledger_error + ledger" where
  "reopenLedger journal =
     (case decode_all (\<lambda>j. decodeJournalEntry (Some j)) journal of
        Inl e \<Rightarrow> Inl e
      | Inr entries \<Rightarrow>
          (case hydrate entries (newLedger\<lparr> lg_journal := journal \<rparr>) of (Inl e, _) \<Rightarrow> Inl e | (Inr _, l) \<Rightarrow> Inr l))"

text \<open>A tick after which the process goes on: it returned, or threw something that is neither its death nor a durable
  failure, on which the composition root exits.\<close>

definition survives :: "(settle_error + 'a) \<Rightarrow> bool" where
  "survives r = (case r of Inr _ \<Rightarrow> True | Inl e \<Rightarrow> e \<noteq> SeDied \<and> \<not> isDurableLogFailure e)"

text \<open>Histories over any number of lives, with a journal of mints injected: ticks with any answers of the outside; payouts
  that add evidence and other bookings in between; an operator who clears the intent of a mint that is not on the
  chain; and restarts, each under a boot id no open intent carries.\<close>

inductive refill_run :: "bool \<Rightarrow> settle_world \<Rightarrow> bool" where
  first: "sw_intents w = Some [] \<Longrightarrow> sw_mints w = [] \<Longrightarrow> sw_inflight w = [] \<Longrightarrow> sw_ledger w = newLedger \<Longrightarrow> refill_run True w"
| tick: "refill_run True w \<Longrightarrow> settleAndRebalance D w = (r, w') \<Longrightarrow> refill_run (survives r) w'"
| payout: "refill_run True w \<Longrightarrow> refill_run True (w\<lparr> sw_store := s \<rparr>)"
| booking: "refill_run True w \<Longrightarrow> refill_run True (w\<lparr> sw_ledger := ledger_step op (sw_ledger w) \<rparr>)"
| cleared: "refill_run a w \<Longrightarrow> sw_intents w = Some T \<Longrightarrow> ref \<notin> fst ` set (sw_mints w) \<Longrightarrow>
    refill_run a (w\<lparr> sw_intents := Some (close_intent ref T) \<rparr>)"
| restart: "refill_run a w \<Longrightarrow> sw_intents w = Some T \<Longrightarrow> \<forall>row \<in> set T. fst (snd row) \<noteq> boot \<Longrightarrow>
    reopenLedger (lg_journal (sw_ledger w)) = Inr l \<Longrightarrow>
    refill_run True (w\<lparr> sw_bootId := boot, sw_pending := [], sw_inflight := [], sw_ledger := l, sw_store := s \<rparr>)"

section \<open>Lemmas\<close>

lemma hydrate_loop_adds:
  "hydrate_loop es l = (Inr (), l') \<Longrightarrow>
     lg_refs l' = lg_refs l \<union> je_ref ` set es \<and> lg_entries l' = lg_entries l @ es \<and> lg_journal l' = lg_journal l"
proof (induction es arbitrary: l)
  case (Cons e es)
  then show ?case by (fastforce split: option.splits if_splits)
qed simp

lemma decode_all_Inr: "decode_all dec rs = Inr xs \<Longrightarrow> list_all2 (\<lambda>r x. dec r = Inr x) rs xs"
  by (induction rs arbitrary: xs) (auto simp: bindR_def split: sum.splits)

lemma decode_ref: "decodeJournalEntry (Some j) = Inr e \<Longrightarrow> jprop j ''ref'' = Some (JStr (je_ref e))"
  by (auto simp: decodeJournalEntry_def bindR_Inr_iff split: if_splits option.splits json.splits)

text \<open>Every ref the memory knows is in the journal.\<close>

definition journaled :: "ledger \<Rightarrow> bool" where
  "journaled l = (\<forall>ref \<in> lg_refs l. \<exists>j \<in> set (lg_journal l). jprop j ''ref'' = Some (JStr ref))"

lemma newLedger_journaled: "journaled newLedger"
  by (simp add: journaled_def newLedger_def)

lemma validate_not_duplicate: "validateBalanced ds cs \<noteq> Some DuplicateRef"
proof -
  have "check_legs ls \<noteq> Some DuplicateRef" for ls by (induction ls) auto
  then show ?thesis by (auto simp: validateBalanced_def split: option.splits)
qed

lemma post_grows:
  assumes "post b i l = (r, l')"
  shows "lg_refs l \<subseteq> lg_refs l'" "journaled l \<Longrightarrow> journaled l'"
    "r = Inr e \<or> r = Inl DuplicateRef \<Longrightarrow> pi_ref i \<in> lg_refs l'"
proof -
  have "lg_refs l \<subseteq> lg_refs l' \<and> (journaled l \<longrightarrow> journaled l') \<and> (r = Inr e \<longrightarrow> pi_ref i \<in> lg_refs l')"
    using assms by (cases rule: post_cases [of b i l]) (auto simp: journaled_def encodeJournalEntry_def)
  moreover have "r = Inl DuplicateRef \<Longrightarrow> pi_ref i \<in> lg_refs l'"
    using assms validate_not_duplicate [of "pi_debits i" "pi_credits i"]
    by (auto simp: post_def Let_def split: option.splits if_splits)
  ultimately show "lg_refs l \<subseteq> lg_refs l'" "journaled l \<Longrightarrow> journaled l'"
    "r = Inr e \<or> r = Inl DuplicateRef \<Longrightarrow> pi_ref i \<in> lg_refs l'" by auto
qed

lemma recordTopUp_grows:
  assumes "recordTopUp b i l = (r, l')"
  shows "lg_refs l \<subseteq> lg_refs l'" "journaled l \<Longrightarrow> journaled l'"
    "r = Inr e \<or> r = Inl DuplicateRef \<Longrightarrow> ti_ref i \<in> lg_refs l'"
  using assms post_grows [of b "topup_post i" l r l']
  by (auto simp: recordTopUp_def topup_post_def split: if_splits)

lemma recordSettlement_grows:
  assumes "recordSettlement b i l = (r, l')"
  shows "lg_refs l \<subseteq> lg_refs l'" "journaled l \<Longrightarrow> journaled l'"
  using assms post_grows [of b "settlement_post i" l r l'] by (auto simp: recordSettlement_def split: if_splits)

lemma ledger_step_grows: "lg_refs l \<subseteq> lg_refs (ledger_step op l)" "journaled l \<Longrightarrow> journaled (ledger_step op l)"
proof -
  have "lg_refs l \<subseteq> lg_refs (ledger_step op l) \<and> (journaled l \<longrightarrow> journaled (ledger_step op l))"
  proof (cases op)
    case (OpPost b i)
    then show ?thesis using post_grows [of b i l] by (metis ledger_step.simps(1) prod.collapse)
  next
    case (OpSettlement b i)
    then show ?thesis using recordSettlement_grows [of b i l] by (metis ledger_step.simps(2) prod.collapse)
  next
    case (OpTopUp b i)
    then show ?thesis using recordTopUp_grows [of b i l] by (metis ledger_step.simps(3) prod.collapse)
  qed
  then show "lg_refs l \<subseteq> lg_refs (ledger_step op l)" "journaled l \<Longrightarrow> journaled (ledger_step op l)" by auto
qed

lemma reopenLedger_keeps:
  assumes "journaled l" "reopenLedger (lg_journal l) = Inr l'"
  shows "lg_refs l \<subseteq> lg_refs l' \<and> journaled l'"
proof -
  from assms(2) obtain es where es: "decode_all (\<lambda>j. decodeJournalEntry (Some j)) (lg_journal l) = Inr es"
    and h: "hydrate_loop es (newLedger\<lparr> lg_journal := lg_journal l \<rparr>) = (Inr (), l')"
    by (auto simp: reopenLedger_def hydrate_def newLedger_def split: sum.splits prod.splits)
  note l' = hydrate_loop_adds [OF h]
  have dec: "list_all2 (\<lambda>j e. jprop j ''ref'' = Some (JStr (je_ref e))) (lg_journal l) es"
    using decode_all_Inr [OF es] by (rule list_all2_mono) (rule decode_ref)
  have "\<exists>e \<in> set es. je_ref e = ref" if "ref \<in> lg_refs l" for ref
    using assms(1) that dec by (fastforce simp: journaled_def list_all2_conv_all_nth in_set_conv_nth)
  moreover have "\<exists>j \<in> set (lg_journal l). jprop j ''ref'' = Some (JStr (je_ref e))" if "e \<in> set es" for e
    using dec that by (fastforce simp: list_all2_conv_all_nth in_set_conv_nth)
  ultimately show ?thesis using l' by (fastforce simp: journaled_def newLedger_def)
qed

section \<open>Reasoning about effects\<close>

text \<open>\<open>triple I J P m Q\<close>: from a state with \<open>I\<close> and \<open>P\<close>, \<open>m\<close> ends with \<open>I\<close> and, when it returns, \<open>Q\<close>; if the process
  dies in it, what is left satisfies \<open>J\<close>.\<close>

fun after ::
    "(settle_world \<Rightarrow> bool) \<Rightarrow> (settle_world \<Rightarrow> bool) \<Rightarrow> ('a \<Rightarrow> settle_world \<Rightarrow> bool) \<Rightarrow> settle_error + 'a \<Rightarrow> settle_world \<Rightarrow> bool" where
  "after I J Q (Inl e) w = (if e = SeDied then J w else I w)"
| "after I J Q (Inr x) w = (I w \<and> Q x w)"

definition triple ::
    "(settle_world \<Rightarrow> bool) \<Rightarrow> (settle_world \<Rightarrow> bool) \<Rightarrow> (settle_world \<Rightarrow> bool) \<Rightarrow> 'a settle \<Rightarrow> ('a \<Rightarrow> settle_world \<Rightarrow> bool) \<Rightarrow> bool" where
  "triple I J P m Q \<longleftrightarrow> (\<forall>w. I w \<longrightarrow> P w \<longrightarrow> after I J Q (fst (m w)) (snd (m w)))"

lemma tripleI: "(\<And>w. I w \<Longrightarrow> P w \<Longrightarrow> after I J Q (fst (m w)) (snd (m w))) \<Longrightarrow> triple I J P m Q"
  by (simp add: triple_def)

lemma tripleD: "triple I J P m Q \<Longrightarrow> I w \<Longrightarrow> P w \<Longrightarrow> m w = (r, w') \<Longrightarrow> after I J Q r w'"
  unfolding triple_def by (metis fst_conv snd_conv)

lemma after_weaken: "after I J Q r w \<Longrightarrow> (\<And>x. Q x w \<Longrightarrow> Q' x w) \<Longrightarrow> after I J Q' r w"
  by (cases r) auto

lemma triple_weaken:
  "triple I J P m Q \<Longrightarrow> (\<And>w. P' w \<Longrightarrow> P w) \<Longrightarrow> (\<And>x w. Q x w \<Longrightarrow> Q' x w) \<Longrightarrow> triple I J P' m Q'"
  unfolding triple_def by (blast intro: after_weaken)

lemma triple_ret: "(\<And>w. P w \<Longrightarrow> Q x w) \<Longrightarrow> triple I J P (retS x) Q"
  by (simp add: triple_def retS_def)

lemma triple_fail: "e \<noteq> SeDied \<Longrightarrow> triple I J P (failS e) Q"
  by (simp add: triple_def failS_def)

lemma triple_bind:
  assumes m: "triple I J P m Q" and f: "\<And>x. triple I J (Q x) (f x) R"
  shows "triple I J P (bindS m f) R"
proof (rule tripleI)
  fix w assume w: "I w" "P w"
  obtain r w' where r: "m w = (r, w')" by fastforce
  from tripleD [OF m w r] f [unfolded triple_def] show "after I J R (fst (bindS m f w)) (snd (bindS m f w))"
    by (cases r) (simp_all add: bindS_def r)
qed

lemma triple_catch:
  assumes m: "triple I J P m Q" and h: "\<And>e. e \<noteq> SeDied \<Longrightarrow> triple I J (\<lambda>_. True) (h e) Q"
  shows "triple I J P (catchS m h) Q"
proof (rule tripleI)
  fix w assume w: "I w" "P w"
  obtain r w' where r: "m w = (r, w')" by fastforce
  from tripleD [OF m w r] h [unfolded triple_def] show "after I J Q (fst (catchS m h w)) (snd (catchS m h w))"
    by (cases r) (simp_all add: catchS_def r)
qed

lemma triple_case: "(\<And>w0. P w0 \<Longrightarrow> triple I J (\<lambda>w. w = w0) (m w0) Q) \<Longrightarrow> triple I J P (\<lambda>w. m w w) Q"
  by (simp add: triple_def)

text \<open>An invariant of the worker: it survives as the weaker \<open>J\<close> when the process dies, and depends neither on the count of
  effects nor on the pending settlements. The rules for effects and loops follow.\<close>

locale worker_invariant =
  fixes I J :: "settle_world \<Rightarrow> bool"
  assumes dies: "I w \<Longrightarrow> J w"
    and tick_free: "I (w\<lparr> sw_tick := n \<rparr>) = I w"
    and pending_free: "I (w\<lparr> sw_pending := m \<rparr>) = I w"
begin

lemma act:
  assumes f: "\<And>t. triple I J P (f t) Q" and P: "\<And>w n. P w \<Longrightarrow> P (w\<lparr> sw_tick := n \<rparr>)"
  shows "triple I J P (act D f) Q"
proof (rule tripleI)
  fix w assume w: "I w" "P w"
  let ?w = "w\<lparr> sw_tick := sw_tick w + 1 \<rparr>"
  have I: "I ?w" and P': "P ?w" using w P by (simp_all add: tick_free)
  note fw = f [of "sw_tick w", unfolded triple_def, rule_format, OF I P']
  then have "J (snd (f (sw_tick w) ?w))"
    by (cases "fst (f (sw_tick w) ?w)") (auto simp: dies split: if_splits)
  with fw I dies show "after I J Q (fst (act D f w)) (snd (act D f w))"
    by (cases "sd_fate D (sw_tick w)") (simp_all add: act_def Let_def)
qed

lemma on_pending:
  assumes "\<And>w m. P w \<Longrightarrow> P (w\<lparr> sw_pending := m \<rparr>)"
  shows "triple I J P (on_pending f) (\<lambda>_. P)"
proof (rule tripleI)
  fix w assume w: "I w" "P w"
  obtain r m where "f (sw_pending w) = (r, m)" by fastforce
  with w assms show "after I J (\<lambda>_. P) (fst (on_pending f w)) (snd (on_pending f w))"
    by (cases r) (simp_all add: on_pending_def pending_free)
qed

lemma each: "(\<And>x r. triple I J (\<lambda>_. True) (f x r) (\<lambda>_ _. True)) \<Longrightarrow> triple I J (\<lambda>_. True) (each f xs r) (\<lambda>_ _. True)"
  by (induction xs arbitrary: r) (auto intro: triple_ret triple_bind)

end

section \<open>Mints are known\<close>

text \<open>A ref on the chain is booked or has an open intent; in a living process the intent is an older life's, or the provider
  remembers the mint.\<close>

definition minted :: "(ustring \<times> int) list \<Rightarrow> ustring \<Rightarrow> bool" where
  "minted ms ref = (ref \<in> fst ` set ms)"

definition mint_known :: "bool \<Rightarrow> settle_world \<Rightarrow> mint_intents \<Rightarrow> ustring \<Rightarrow> bool" where
  "mint_known living w T ref \<longleftrightarrow> ref \<in> lg_refs (sw_ledger w)
     \<or> (\<exists>boot at. map_of T ref = Some (boot, at)
          \<and> (living \<longrightarrow> boot \<noteq> sw_bootId w \<or> (\<exists>r. map_of (sw_inflight w) ref = Some (MintDone r))))"

definition refill_inv :: "bool \<Rightarrow> settle_world \<Rightarrow> bool" where
  "refill_inv living w \<longleftrightarrow> journaled (sw_ledger w) \<and> distinct (map fst (sw_mints w))
     \<and> (\<exists>T. sw_intents w = Some T \<and> (\<forall>ref. minted (sw_mints w) ref \<longrightarrow> mint_known living w T ref))
     \<and> (living \<longrightarrow> (\<forall>ref req. map_of (sw_inflight w) ref \<noteq> Some (MintRunning req)))"

abbreviation "living \<equiv> refill_inv True"
abbreviation "dead \<equiv> refill_inv False"

interpretation mint_logic: worker_invariant living dead
proof unfold_locales
  fix w :: settle_world and n m
  show "living w \<Longrightarrow> dead w" by (fastforce simp: refill_inv_def mint_known_def)
  show "living (w\<lparr> sw_tick := n \<rparr>) = living w" "living (w\<lparr> sw_pending := m \<rparr>) = living w"
    by (simp_all add: refill_inv_def mint_known_def)
qed

abbreviation "keeps_mints P m Q \<equiv> triple living dead P m Q"

lemma living_ledger:
  "living w \<Longrightarrow> lg_refs (sw_ledger w) \<subseteq> lg_refs l \<Longrightarrow> journaled l \<Longrightarrow> living (w\<lparr> sw_ledger := l \<rparr>)"
  by (fastforce simp: refill_inv_def mint_known_def)

lemma living_journaled: "living w \<Longrightarrow> journaled (sw_ledger w)"
  by (simp add: refill_inv_def)

lemma book_payout: "keeps_mints P (act D (\<lambda>t. on_ledger (recordSettlement (sd_sinkOk D t) i))) (\<lambda>_ _. True)"
proof (rule triple_weaken)
  show "keeps_mints (\<lambda>_. True) (act D (\<lambda>t. on_ledger (recordSettlement (sd_sinkOk D t) i))) (\<lambda>_ _. True)"
  proof (rule mint_logic.act, rule tripleI)
    fix t w assume w: "living w"
    obtain r l where r: "recordSettlement (sd_sinkOk D t) i (sw_ledger w) = (r, l)" by fastforce
    have "living (w\<lparr> sw_ledger := l \<rparr>)"
      using w recordSettlement_grows [OF r] living_journaled [OF w] by (intro living_ledger)
    then show "after living dead (\<lambda>_ _. True) (fst (on_ledger (recordSettlement (sd_sinkOk D t) i) w))
        (snd (on_ledger (recordSettlement (sd_sinkOk D t) i) w))"
      by (cases r) (simp_all add: on_ledger_def r)
  qed simp
qed simp_all

lemma book_topup:
  "keeps_mints P (catchS (bindS (act D (\<lambda>t. on_ledger (recordTopUp (sd_sinkOk D t) i))) (\<lambda>_. retS ()))
      (\<lambda>e. if \<not> isDuplicateRef e then failS e else retS ())) (\<lambda>_ w. ti_ref i \<in> lg_refs (sw_ledger w))"
proof (rule tripleI)
  fix w assume w: "living w"
  let ?t = "sw_tick w"
  let ?w = "w\<lparr> sw_tick := ?t + 1 \<rparr>"
  obtain r l where r: "recordTopUp (sd_sinkOk D ?t) i (sw_ledger w) = (r, l)" by fastforce
  note g = recordTopUp_grows [OF r]
  have I: "living ?w" using w by (simp add: mint_logic.tick_free)
  have l: "living (?w\<lparr> sw_ledger := l \<rparr>)" using I g living_journaled [OF w] by (intro living_ledger) auto
  note d = mint_logic.dies [OF I] mint_logic.dies [OF l]
  show "after living dead (\<lambda>_ w. ti_ref i \<in> lg_refs (sw_ledger w))
      (fst (catchS (bindS (act D (\<lambda>t. on_ledger (recordTopUp (sd_sinkOk D t) i))) (\<lambda>_. retS ()))
        (\<lambda>e. if \<not> isDuplicateRef e then failS e else retS ()) w))
      (snd (catchS (bindS (act D (\<lambda>t. on_ledger (recordTopUp (sd_sinkOk D t) i))) (\<lambda>_. retS ()))
        (\<lambda>e. if \<not> isDuplicateRef e then failS e else retS ()) w))"
    using l d g(3)
    by (cases "sd_fate D ?t"; cases r)
      (simp_all add: catchS_def bindS_def act_def on_ledger_def retS_def failS_def Let_def isDuplicateRef_def r)
qed

lemma close_booked: "keeps_mints (\<lambda>w. ref \<in> lg_refs (sw_ledger w)) (act D (db_close D ref)) (\<lambda>_ _. True)"
proof (rule mint_logic.act)
  fix t
  show "keeps_mints (\<lambda>w. ref \<in> lg_refs (sw_ledger w)) (db_close D ref t) (\<lambda>_ _. True)"
    by (rule tripleI)
      (fastforce simp: db_close_def close_intent_def refill_inv_def mint_known_def split: option.splits)
qed simp

text \<open>What opening an intent gives the mint that follows: the row is this life's, and the ref is not booked.\<close>

definition opened :: "ustring \<Rightarrow> settle_world \<Rightarrow> bool" where
  "opened ref w \<longleftrightarrow> ref \<notin> lg_refs (sw_ledger w)
     \<and> (\<exists>T at. sw_intents w = Some T \<and> map_of T ref = Some (sw_bootId w, at))"

lemma open_intent_ok:
  "keeps_mints (\<lambda>w. ref \<notin> lg_refs (sw_ledger w)) (act D (db_open D ref)) (\<lambda>_. opened ref)"
proof (rule mint_logic.act)
  fix t
  show "keeps_mints (\<lambda>w. ref \<notin> lg_refs (sw_ledger w)) (db_open D ref t) (\<lambda>_. opened ref)"
    by (rule tripleI)
      (auto simp: db_open_def open_intent_def opened_def refill_inv_def mint_known_def split: option.splits if_splits)
qed simp

text \<open>A mint that lands under an opened intent, with the provider remembering it or the process dead.\<close>

lemma not_minted_yet:
  assumes "living w" "opened ref w" "map_of (sw_inflight w) ref = None"
  shows "\<not> minted (sw_mints w) ref"
  using assms by (fastforce simp: refill_inv_def opened_def mint_known_def)

lemma minted_now:
  assumes w: "living w" "opened ref w" "map_of (sw_inflight w) ref = None"
  shows "dead (w\<lparr> sw_inflight := m, sw_tick := n, sw_mints := sw_mints w @ [(ref, k)] \<rparr>)"
    "living (w\<lparr> sw_tick := n, sw_mints := sw_mints w @ [(ref, k)], sw_inflight := AList.update ref (MintDone r) (sw_inflight w) \<rparr>)"
proof -
  from w obtain T at where T: "sw_intents w = Some T" "map_of T ref = Some (sw_bootId w, at)" by (auto simp: opened_def)
  have dist: "distinct (map fst (sw_mints w @ [(ref, k)]))"
    using w(1) not_minted_yet [OF w] by (simp add: refill_inv_def minted_def)
  have old: "minted (sw_mints w @ [(ref, k)]) r' \<Longrightarrow> r' = ref \<or> minted (sw_mints w) r'" for r'
    by (auto simp: minted_def)
  from w(1) T(1) have known: "minted (sw_mints w) r' \<Longrightarrow> mint_known True w T r'" for r' by (simp add: refill_inv_def)
  show "dead (w\<lparr> sw_inflight := m, sw_tick := n, sw_mints := sw_mints w @ [(ref, k)] \<rparr>)"
    using w(1) T dist by (auto simp: refill_inv_def mint_known_def dest!: old known)
  show "living (w\<lparr> sw_tick := n, sw_mints := sw_mints w @ [(ref, k)], sw_inflight := AList.update ref (MintDone r) (sw_inflight w) \<rparr>)"
    using w(1) T dist by (auto simp: refill_inv_def mint_known_def dest!: old known)
qed

lemma inflight_dropped: "map_of m k = None \<Longrightarrow> AList.delete k (AList.update k v m) = m"
  by (induction m) auto

lemma topUp_ok: "keeps_mints (opened (tr_ref req)) (topUp D req) (\<lambda>_ _. True)"
proof (rule tripleI)
  fix w assume w: "living w" "opened (tr_ref req) w"
  show "after living dead (\<lambda>_ _. True) (fst (topUp D req w)) (snd (topUp D req w))"
  proof (cases "fst (topUp_call req (sw_inflight w)) = CallMints")
    case False
    with w(1) have "snd (topUp D req w) = w \<and> fst (topUp D req w) \<noteq> Inl SeDied"
      by (cases "topUp_call req (sw_inflight w)"; cases "fst (topUp_call req (sw_inflight w))")
        (auto simp: topUp_def split: mint_promise.splits)
    with w(1) show ?thesis by (cases "fst (topUp D req w)") auto
  next
    case True
    let ?t = "sw_tick w"
    let ?m = "AList.update (tr_ref req) (MintRunning req) (sw_inflight w)"
    have new: "map_of (sw_inflight w) (tr_ref req) = None" and call: "topUp_call req (sw_inflight w) = (CallMints, ?m)"
      using True by (auto simp: topUp_call_def split: if_splits option.splits)
    have same: "living (w\<lparr> sw_tick := n \<rparr>)" for n using w(1) by (simp add: mint_logic.tick_free)
    then have lost: "dead (w\<lparr> sw_inflight := m, sw_tick := n \<rparr>)" for m n
      using w(1) by (fastforce simp: refill_inv_def mint_known_def)
    note lands = minted_now [OF w new]
    have drop: "AList.delete (tr_ref req) ?m = sw_inflight w" using new by (rule inflight_dropped)
    show ?thesis
      using same lost lands
      by (cases "sd_fate D ?t"; cases "sd_mint D ?t (tr_usdcStroops req)")
        (simp_all add: topUp_def call bindS_def act_def Let_def mintToPool_def topUp_settled_def drop new split: prod.splits)
  qed
qed

lemma pure_effect: "keeps_mints P (act D (\<lambda>t. retS (g t))) (\<lambda>_ _. True)"
  by (rule triple_weaken [OF mint_logic.act [where P = "\<lambda>_. True"]]) (auto intro: triple_ret)

lemma rate_effect:
  "keeps_mints P (act D (\<lambda>t w. case sd_rate D t of None \<Rightarrow> (Inl SeRate, w) | Some r \<Rightarrow> (Inr r, w))) (\<lambda>_ _. True)"
  by (rule triple_weaken [OF mint_logic.act [where P = "\<lambda>_. True"]]) (auto simp: triple_def split: option.splits)

lemma credit_effect:
  "keeps_mints P (act D (\<lambda>t w. case creditPool k (sw_store w) of
       (Inl e, s) \<Rightarrow> (Inl (SeCredit e), w\<lparr> sw_store := s \<rparr>) | (Inr _, s) \<Rightarrow> (Inr (), w\<lparr> sw_store := s \<rparr>))) (\<lambda>_ _. True)"
  by (rule triple_weaken [OF mint_logic.act [where P = "\<lambda>_. True"]])
    (auto simp: triple_def refill_inv_def mint_known_def split: prod.splits sum.splits)

lemma pending_effect: "keeps_mints P (on_pending f) (\<lambda>_ _. True)"
  by (rule triple_weaken [OF mint_logic.on_pending [where P = "\<lambda>_. True"]]) auto

lemma true_pre: "keeps_mints (\<lambda>_. True) m Q \<Longrightarrow> keeps_mints P m Q"
  by (erule triple_weaken) auto

lemmas plain_effects = pure_effect rate_effect credit_effect pending_effect

lemma finish_pending:
  fixes f :: "pending_store \<Rightarrow> (derive_error + unit) \<times> pending_store" and x :: settle_report
  shows "keeps_mints P (bindS (on_pending f) (\<lambda>_. retS x)) (\<lambda>_ _. True)"
  by (rule triple_bind [OF pending_effect triple_ret]) simp

lemma book_and_credit_keeps: "keeps_mints P (book_and_credit D rec req result report) (\<lambda>_ _. True)"
proof -
  have credit: "keeps_mints (\<lambda>w. tr_ref req \<in> lg_refs (sw_ledger w)) (bindS (act D (db_close D (tr_ref req))) (\<lambda>_.
     bindS (act D (\<lambda>t w. case creditPool (tu_usdcStroops result) (sw_store w) of
               (Inl e, s) \<Rightarrow> (Inl (SeCredit e), w\<lparr> sw_store := s \<rparr>)
             | (Inr _, s) \<Rightarrow> (Inr (), w\<lparr> sw_store := s \<rparr>))) (\<lambda>_.
     bindS (on_pending (markSettled (sd_nfc D) (pn_orderId rec))) (\<lambda>_.
     retS (report\<lparr> sr_settled := sr_settled report + 1 \<rparr>))))) (\<lambda>_ _. True)"
    by (rule triple_bind [OF close_booked triple_bind [OF credit_effect finish_pending]])
  show ?thesis
    unfolding book_and_credit_def by (rule triple_bind [OF triple_weaken [OF book_topup] credit]) simp_all
qed

lemma mint_and_book_keeps:
  "keeps_mints (\<lambda>w. tr_ref req \<notin> lg_refs (sw_ledger w)) (mint_and_book D rec req report) (\<lambda>_ _. True)"
  unfolding mint_and_book_def
  by (rule triple_bind [OF open_intent_ok triple_bind [OF topUp_ok book_and_credit_keeps]])

lemma refill_request_keeps: "keeps_mints P (refill_request D rec req report) (\<lambda>_ _. True)"
proof (rule tripleI)
  fix w assume w: "living w"
  have skip: "keeps_mints (\<lambda>w. tr_ref req \<in> lg_refs (sw_ledger w)) (bindS (act D (db_close D (tr_ref req))) (\<lambda>_.
        bindS (on_pending (markSettled (sd_nfc D) (pn_orderId rec))) (\<lambda>_.
        retS (report\<lparr> sr_skipped := sr_skipped report + 1 \<rparr>)))) (\<lambda>_ _. True)"
    by (rule triple_bind [OF close_booked finish_pending])
  note keeps = skip [unfolded triple_def, rule_format, OF w] finish_pending [unfolded triple_def, rule_format, OF w, of "\<lambda>_. True"]
    mint_and_book_keeps [unfolded triple_def, rule_format, OF w]
  show "after living dead (\<lambda>_ _. True) (fst (refill_request D rec req report w)) (snd (refill_request D rec req report w))"
    using keeps by (simp add: refill_request_def hasRef_def)
qed

lemma refill_keeps: "keeps_mints P (refill D rec report) (\<lambda>_ _. True)"
  unfolding refill_def by (rule triple_bind [OF rate_effect]) (auto split: sum.split intro: triple_fail refill_request_keeps)

lemma arm_pending_keeps: "keeps_mints P (arm_pending D orderId facts k report) (\<lambda>_ _. True)"
  unfolding arm_pending_def
  by (auto intro!: triple_ret triple_bind [OF pure_effect] triple_bind [OF pending_effect])

lemma arm_order_keeps: "keeps_mints P (arm_order D orderId report) (\<lambda>_ _. True)"
proof (rule tripleI)
  fix w assume w: "living w"
  note arm = arm_pending_keeps [where P = "\<lambda>_. True"]
  show "after living dead (\<lambda>_ _. True) (fst (arm_order D orderId report w)) (snd (arm_order D orderId report w))"
  proof (cases "\<exists>facts k. confirmedOrder (sw_store w) orderId = Some facts \<and> paid_kurus (of_paidPriceTry facts) = Inr k \<and> 0 < k")
    case False
    with w have "arm_order D orderId report w = (Inr report, w)"
      by (auto simp: arm_order_def split: option.splits sum.splits)
    with w show ?thesis by simp
  next
    case True
    then obtain facts k where k: "confirmedOrder (sw_store w) orderId = Some facts" "paid_kurus (of_paidPriceTry facts) = Inr k" "0 < k"
      by blast
    let ?i = "\<lparr> si_orderId = orderId, si_usdcStroops = of_amountStroops facts, si_userTryKurus = k,
                si_spreadKurus = of_spreadKurus facts, si_feeKurus = Some (of_feeKurus facts) \<rparr>"
    obtain r w' where r: "act D (\<lambda>t. on_ledger (recordSettlement (sd_sinkOk D t) ?i)) w = (r, w')" by fastforce
    have a: "after living dead (\<lambda>_ _. True) r w'" by (rule tripleD [OF book_payout w _ r]) simp
    show ?thesis
    proof (cases r)
      case (Inl e)
      with a k r arm show ?thesis by (cases "e = SeDied") (simp_all add: arm_order_def triple_def)
    next
      case (Inr x)
      with a k r arm show ?thesis by (simp add: arm_order_def triple_def)
    qed
  qed
qed

lemma settle_order_keeps: "keeps_mints P (settle_order D rec report) (\<lambda>_ _. True)"
proof (rule tripleI)
  fix w assume w: "living w"
  have "keeps_mints (\<lambda>_. True) (bindS (on_pending (claim (sd_nfc D) (pn_orderId rec))) (\<lambda>won.
          if \<not> won then retS (report\<lparr> sr_skipped := sr_skipped report + 1 \<rparr>)
          else catchS (refill D rec report) (\<lambda>e.
            if isDurableLogFailure e then failS e
            else bindS (on_pending (markFailed (sd_nfc D) (pn_orderId rec))) (\<lambda>_.
              retS (report\<lparr> sr_failed := sr_failed report + 1 \<rparr>))))) (\<lambda>_ _. True)"
    by (rule triple_bind [OF pending_effect])
      (auto intro!: triple_ret triple_catch [OF refill_keeps] triple_fail finish_pending)
  from this [unfolded triple_def, rule_format, OF w] finish_pending [unfolded triple_def, rule_format, OF w, of "\<lambda>_. True"]
  show "after living dead (\<lambda>_ _. True) (fst (settle_order D rec report w)) (snd (settle_order D rec report w))"
    by (simp add: settle_order_def)
qed

lemma settle_keeps: "keeps_mints (\<lambda>_. True) (settleAndRebalance D) (\<lambda>_ _. True)"
proof (rule tripleI)
  fix w assume w: "living w"
  have due: "keeps_mints (\<lambda>_. True) (\<lambda>w. each (settle_order D) (due now (sw_pending w)) report w) (\<lambda>_ _. True)" for now report
    using mint_logic.each [of "settle_order D", OF settle_order_keeps] by (simp add: triple_def)
  have "keeps_mints (\<lambda>_. True) (bindS (each (arm_order D) orders report) (\<lambda>report.
     if sd_manualFunding D then retS report
     else bindS (act D (\<lambda>t. retS (sd_now D t))) (\<lambda>now w. each (settle_order D) (due now (sw_pending w)) report w))) (\<lambda>_ _. True)"
    for orders report
    by (rule triple_bind [OF mint_logic.each [OF arm_order_keeps]])
      (auto intro: triple_ret triple_bind [OF pure_effect due])
  from this [unfolded triple_def, rule_format, OF w]
  show "after living dead (\<lambda>_ _. True) (fst (settleAndRebalance D w)) (snd (settleAndRebalance D w))"
    by (simp add: settleAndRebalance_def)
qed

section \<open>Books and gate\<close>

text \<open>The two numbers a refill raises: the pool account of the ledger, and the balance the intent gate reserves against.\<close>

definition same_books :: "settle_world \<Rightarrow> settle_world \<Rightarrow> bool" where
  "same_books w w' \<longleftrightarrow> sw_ledger w' = sw_ledger w \<and> sw_store w' = sw_store w"

definition refilled :: "settle_world \<Rightarrow> settle_world \<Rightarrow> ustring \<Rightarrow> bool" where
  "refilled w w' ref \<longleftrightarrow> (\<exists>k > 0. nativeBalance (sw_ledger w') USDC_POOL = nativeBalance (sw_ledger w) USDC_POOL + k
     \<and> rl_balanceStroops (so_ledger (sw_store w')) = rl_balanceStroops (so_ledger (sw_store w)) + k
     \<and> \<not> hasRef (sw_ledger w) ref \<and> hasRef (sw_ledger w') ref)"

lemma bindS_E:
  assumes "bindS m f w = (r, w')"
  obtains (fails) e where "m w = (Inl e, w')" "r = Inl e" | (goes_on) x w1 where "m w = (Inr x, w1)" "f x w1 = (r, w')"
  using assms by (cases "m w"; cases "fst (m w)") (auto simp: bindS_def)

lemma act_same: "(\<And>t w. same_books w (snd (f t w))) \<Longrightarrow> act D f w = (r, w') \<Longrightarrow> same_books w w'"
proof -
  assume f: "\<And>t w. same_books w (snd (f t w))" and a: "act D f w = (r, w')"
  from f [of "w\<lparr> sw_tick := sw_tick w + 1 \<rparr>" "sw_tick w"] a show "same_books w w'"
    by (cases "sd_fate D (sw_tick w)") (auto simp: act_def Let_def same_books_def)
qed

lemma db_same: "act D (db_open D ref) w = (r, w') \<Longrightarrow> same_books w w'" "act D (db_close D ref) w = (r2, w') \<Longrightarrow> same_books w w'"
  by (erule act_same [rotated], simp add: db_open_def db_close_def same_books_def split: option.split)+

lemma on_pending_same: "on_pending f w = (r, w') \<Longrightarrow> same_books w w'"
  by (auto simp: on_pending_def same_books_def split: prod.splits sum.splits)

lemma topUp_same:
  assumes "topUp D req w = (r, w')"
  shows "same_books w w'"
proof (cases "fst (topUp_call req (sw_inflight w)) = CallMints")
  case False
  with assms show ?thesis
    by (cases "topUp_call req (sw_inflight w)"; cases "fst (topUp_call req (sw_inflight w))")
      (auto simp: topUp_def same_books_def split: mint_promise.splits)
next
  case True
  then obtain m where call: "topUp_call req (sw_inflight w) = (CallMints, m)" by (metis prod.collapse)
  obtain r1 w1 where mint: "act D (mintToPool D req) (w\<lparr> sw_inflight := m \<rparr>) = (r1, w1)" by fastforce
  have "same_books (w\<lparr> sw_inflight := m \<rparr>) w1"
    using mint by (rule act_same [rotated]) (simp add: mintToPool_def same_books_def split: option.split)
  with assms show ?thesis
    by (cases r1) (auto simp: topUp_def call bindS_def mint Let_def same_books_def split: option.splits mint_promise.splits)
qed

lemma recordTopUp_books:
  assumes "recordTopUp b i l = (Inr e, l')"
  shows "0 < ti_usdcStroops i" "nativeBalance l' USDC_POOL = nativeBalance l USDC_POOL + ti_usdcStroops i"
    "\<not> hasRef l (ti_ref i)" "hasRef l' (ti_ref i)"
proof -
  from assms have p: "post b (topup_post i) l = (Inr e, l')" and pos: "0 < ti_usdcStroops i"
    by (auto simp: recordTopUp_def split: if_splits)
  then have l': "lg_entries l' = lg_entries l @ [e]" "je_debits e = pi_debits (topup_post i)" "je_credits e = pi_credits (topup_post i)"
      "ti_ref i \<notin> lg_refs l" "lg_refs l' = insert (ti_ref i) (lg_refs l)"
    by (cases rule: post_cases [of b "topup_post i" l]; simp add: topup_post_def)+
  show "0 < ti_usdcStroops i" "\<not> hasRef l (ti_ref i)" "hasRef l' (ti_ref i)" using pos l' by (simp_all add: hasRef_def)
  show "nativeBalance l' USDC_POOL = nativeBalance l USDC_POOL + ti_usdcStroops i"
    using l' by (simp add: nativeBalance_def balance_by_snoc [OF l'(1)] topup_post_def leg_sum_def)
qed

lemma book_step:
  assumes "catchS (bindS (act D (\<lambda>t. on_ledger (recordTopUp (sd_sinkOk D t) i))) (\<lambda>_. retS ()))
      (\<lambda>e. if \<not> isDuplicateRef e then failS e else retS ()) w = (r, w')" and new: "\<not> hasRef (sw_ledger w) (ti_ref i)"
  shows "r = Inr () \<and> sw_store w' = sw_store w \<and> (\<exists>b e. recordTopUp b i (sw_ledger w) = (Inr e, sw_ledger w'))
    \<or> (\<exists>e. r = Inl e \<and> (e = SeDied \<or> same_books w w'))"
proof -
  let ?t = "sw_tick w"
  obtain a l where a: "recordTopUp (sd_sinkOk D ?t) i (sw_ledger w) = (a, l)" by fastforce
  have refused: "a = Inl e \<Longrightarrow> l = sw_ledger w \<and> e \<noteq> DuplicateRef" for e
    using a new validate_not_duplicate [of "pi_debits (topup_post i)" "pi_credits (topup_post i)"]
    by (auto simp: recordTopUp_def post_def Let_def hasRef_def topup_post_def split: if_splits option.splits)
  show ?thesis
    using assms(1) a refused
    by (cases "sd_fate D ?t"; cases a)
      (auto simp: catchS_def bindS_def act_def on_ledger_def retS_def failS_def Let_def isDuplicateRef_def same_books_def)
qed

lemma credit_step:
  assumes "act D (\<lambda>t w. case creditPool k (sw_store w) of
       (Inl e, s) \<Rightarrow> (Inl (SeCredit e), w\<lparr> sw_store := s \<rparr>) | (Inr _, s) \<Rightarrow> (Inr (), w\<lparr> sw_store := s \<rparr>)) w = (r, w')" "0 < k"
  shows "r = Inl SeDied \<or> r = Inr () \<and> sw_ledger w' = sw_ledger w
    \<and> rl_balanceStroops (so_ledger (sw_store w')) = rl_balanceStroops (so_ledger (sw_store w)) + k"
  using assms by (cases "sd_fate D (sw_tick w)") (auto simp: act_def Let_def creditPool_def credit_def)

lemma close_step: "act D (db_close D ref) w = (Inl e, w') \<Longrightarrow> e = SeDied \<or> e = SeDurable"
  by (cases "sd_fate D (sw_tick w)") (auto simp: act_def Let_def db_close_def split: option.splits if_splits)

lemma same_books_trans: "same_books w w1 \<Longrightarrow> same_books w1 w' \<Longrightarrow> same_books w w'"
  by (simp add: same_books_def)

lemma book_and_credit_result:
  assumes "book_and_credit D rec req result report w = (r, w')" and new: "\<not> hasRef (sw_ledger w) (tr_ref req)"
    and id: "canonicalizeOrderId (sd_nfc D) (JsIs (pn_orderId rec)) = Inr oid"
  shows "r = Inr (report\<lparr> sr_settled := sr_settled report + 1 \<rparr>) \<and> refilled w w' (tr_ref req)
    \<or> (\<exists>e. r = Inl e \<and> (e = SeDied \<or> isDurableLogFailure e \<or> same_books w w'))"
  using assms(1) unfolding book_and_credit_def
proof (cases rule: bindS_E)
  case (fails e)
  then show ?thesis using book_step new by fastforce
next
  case s1: (goes_on x1 w1)
  from book_step [OF s1(1)] new obtain b e where st: "sw_store w1 = sw_store w"
    and book: "recordTopUp b \<lparr> ti_ref = tr_ref req, ti_usdcStroops = tu_usdcStroops result, ti_valueKurus = tr_valueKurus req \<rparr>
      (sw_ledger w) = (Inr e, sw_ledger w1)" by auto
  note booked = recordTopUp_books [OF book, simplified]
  from s1(2) show ?thesis
  proof (cases rule: bindS_E)
    case (fails e)
    then show ?thesis using close_step by (fastforce simp: isDurableLogFailure_def)
  next
    case s2: (goes_on x2 w2)
    note b2 = db_same(2) [OF s2(1)]
    from s2(2) show ?thesis
    proof (cases rule: bindS_E)
      case (fails e)
      then show ?thesis using credit_step booked(1) by blast
    next
      case s3: (goes_on x3 w3)
      from credit_step [OF s3(1) booked(1)] have c: "sw_ledger w3 = sw_ledger w2"
        "rl_balanceStroops (so_ledger (sw_store w3)) = rl_balanceStroops (so_ledger (sw_store w2)) + tu_usdcStroops result" by auto
      have "r = Inr (report\<lparr> sr_settled := sr_settled report + 1 \<rparr>) \<and> same_books w3 w'"
        using s3(2) id by (auto simp: bindS_def on_pending_def markSettled_def fromSettling_def retS_def same_books_def
            split: option.splits if_splits)
      with c b2 st booked show ?thesis by (auto simp: refilled_def same_books_def)
    qed
  qed
qed

lemma mint_and_book_result:
  assumes "mint_and_book D rec req report w = (r, w')" and new: "\<not> hasRef (sw_ledger w) (tr_ref req)"
    and id: "canonicalizeOrderId (sd_nfc D) (JsIs (pn_orderId rec)) = Inr oid"
  shows "r = Inr (report\<lparr> sr_settled := sr_settled report + 1 \<rparr>) \<and> refilled w w' (tr_ref req)
    \<or> (\<exists>e. r = Inl e \<and> (e = SeDied \<or> isDurableLogFailure e \<or> same_books w w'))"
  using assms(1) unfolding mint_and_book_def
proof (cases rule: bindS_E)
  case (fails e)
  then show ?thesis using db_same(1) by blast
next
  case s1: (goes_on x1 w1)
  note b1 = db_same(1) [OF s1(1)]
  from s1(2) show ?thesis
  proof (cases rule: bindS_E)
    case (fails e)
    then show ?thesis using b1 topUp_same same_books_trans by blast
  next
    case s2: (goes_on res w2)
    have b2: "same_books w w2" using b1 topUp_same [OF s2(1)] by (rule same_books_trans)
    from s2(2) show ?thesis using book_and_credit_result [OF _ _ id, of req res report w2 r w'] new b2
      by (auto simp: same_books_def refilled_def)
  qed
qed

section \<open>Theorems\<close>

lemma refill_run_inv: "refill_run a w \<Longrightarrow> refill_inv a w"
proof (induction rule: refill_run.induct)
  case (first w)
  then show ?case by (simp add: refill_inv_def minted_def newLedger_journaled)
next
  case (tick w D r w')
  from tripleD [OF settle_keeps tick.IH _ tick.hyps(2)] have "after living dead (\<lambda>_ _. True) r w'" by simp
  then show ?case
    using mint_logic.dies by (cases r; cases "survives r") (auto simp: survives_def split: if_splits)
next
  case (payout w s)
  then show ?case by (simp add: refill_inv_def mint_known_def)
next
  case (booking w op)
  then show ?case using ledger_step_grows living_journaled by (intro living_ledger) auto
next
  case (cleared a w T ref)
  then show ?case by (fastforce simp: refill_inv_def mint_known_def close_intent_def minted_def)
next
  case (restart a w T boot l s)
  have keep: "lg_refs (sw_ledger w) \<subseteq> lg_refs l \<and> journaled l"
    using reopenLedger_keeps [OF _ restart.hyps(4)] restart.IH by (simp add: refill_inv_def)
  let ?w = "w\<lparr> sw_bootId := boot, sw_pending := [], sw_inflight := [], sw_ledger := l, sw_store := s \<rparr>"
  have foreign: "map_of T ref = Some (b, at) \<Longrightarrow> b \<noteq> boot" for ref b at
    using restart.hyps(3) by (fastforce dest: map_of_SomeD)
  have "mint_known a w T ref \<Longrightarrow> mint_known True ?w T ref" for ref
    using keep foreign by (auto simp: mint_known_def)
  with restart.IH restart.hyps(2) keep show ?case by (simp add: refill_inv_def)
qed


lemma act_rate_same:
  "act D (\<lambda>t w. case sd_rate D t of None \<Rightarrow> (Inl SeRate, w) | Some r \<Rightarrow> (Inr r, w)) w = (r, w') \<Longrightarrow> same_books w w'"
  by (erule act_same [rotated]) (simp add: same_books_def split: option.split)

lemma refill_result:
  assumes "refill D rec report w = (r, w')" and id: "canonicalizeOrderId (sd_nfc D) (JsIs (pn_orderId rec)) = Inr oid"
  shows "r = Inr (report\<lparr> sr_settled := sr_settled report + 1 \<rparr>) \<and> refilled w w' (topup_ref (pn_orderId rec))
    \<or> (\<exists>report'. r = Inr report' \<and> sr_settled report' = sr_settled report \<and> same_books w w')
    \<or> (\<exists>e. r = Inl e \<and> (e = SeDied \<or> isDurableLogFailure e \<or> same_books w w'))"
  using assms(1) unfolding refill_def
proof (cases rule: bindS_E)
  case (fails e)
  then show ?thesis using act_rate_same by blast
next
  case s1: (goes_on rate w1)
  note b1 = act_rate_same [OF s1(1)]
  show ?thesis
  proof (cases "plan rec rate")
    case (Inl e)
    with s1 b1 show ?thesis by (auto simp: failS_def)
  next
    case (Inr req)
    then have ref: "tr_ref req = topup_ref (pn_orderId rec)" by (auto simp: plan_def split: if_splits)
    from s1(2) Inr have rq: "refill_request D rec req report w1 = (r, w')" by simp
    have skip: "(\<exists>report'. r = Inr report' \<and> sr_settled report' = sr_settled report \<and> same_books w w') \<or> (\<exists>e. r = Inl e \<and> (e = SeDied \<or> isDurableLogFailure e \<or> same_books w w'))"
      if "bindS (on_pending f) (\<lambda>_. retS x) w2 = (r, w')" "same_books w w2" "sr_settled x = sr_settled report"
      for f :: "pending_store \<Rightarrow> (derive_error + unit) \<times> pending_store" and x w2
      using that(1)
    proof (cases rule: bindS_E)
      case (fails e)
      then show ?thesis using on_pending_same same_books_trans that(2) by blast
    next
      case (goes_on y w3)
      then show ?thesis using same_books_trans [OF that(2) on_pending_same [OF goes_on(1)]] that(3) goes_on(2) by (auto simp: retS_def)
    qed
    consider "hasRef (sw_ledger w1) (tr_ref req)" | "\<not> hasRef (sw_ledger w1) (tr_ref req)"
        "case sw_intents w1 of None \<Rightarrow> False | Some T \<Rightarrow> isBlocked (sw_bootId w1) (tr_ref req) T"
      | "\<not> hasRef (sw_ledger w1) (tr_ref req)" "mint_and_book D rec req report w1 = (r, w')"
      using rq unfolding refill_request_def by meson
    then show ?thesis
    proof cases
      case 1
      with rq have "bindS (act D (db_close D (tr_ref req))) (\<lambda>_. bindS (on_pending (markSettled (sd_nfc D) (pn_orderId rec))) (\<lambda>_.
        retS (report\<lparr> sr_skipped := sr_skipped report + 1 \<rparr>))) w1 = (r, w')" by (simp add: refill_request_def)
      then show ?thesis
      proof (cases rule: bindS_E)
        case (fails e)
        then show ?thesis using close_step by (fastforce simp: isDurableLogFailure_def)
      next
        case (goes_on y w2)
        then show ?thesis using skip [OF goes_on(2) same_books_trans [OF b1 db_same(2) [OF goes_on(1)]]] by simp
      qed
    next
      case 2
      with rq have "bindS (on_pending (markFailed (sd_nfc D) (pn_orderId rec))) (\<lambda>_.
        retS (report\<lparr> sr_mintBlocked := sr_mintBlocked report + 1 \<rparr>)) w1 = (r, w')" by (simp add: refill_request_def)
      from skip [OF this b1] show ?thesis by simp
    next
      case 3
      from mint_and_book_result [OF 3(2,1) id] b1 show ?thesis by (auto simp: ref same_books_def refilled_def)
    qed
  qed
qed

text \<open>A refill moves the books and the gate together. When the section of one due record returns, either it settled
  it, and then the order has a payout witnessed on chain, the ledger's pool account and the balance the intent gate
  reserves against grew by the same positive amount, and the refill's ref, not booked before, is booked now; or both
  are exactly as they were, and the record is not counted as settled.\<close>

lemma refill_moves_books_and_gate:
  assumes "settle_order D rec report w = (Inr report', w')"
  shows "sr_settled report' = sr_settled report + 1 \<and> confirmedOrder (sw_store w) (pn_orderId rec) \<noteq> None
      \<and> refilled w w' (topup_ref (pn_orderId rec))
    \<or> sr_settled report' = sr_settled report \<and> same_books w w'"
proof (cases "confirmedOrder (sw_store w) (pn_orderId rec) = None")
  case True
  with assms have "bindS (on_pending (markVoided (sd_nfc D) (pn_orderId rec))) (\<lambda>_.
        retS (report\<lparr> sr_voided := sr_voided report + 1 \<rparr>)) w = (Inr report', w')" by (simp add: settle_order_def)
  then show ?thesis by (cases rule: bindS_E) (auto simp: retS_def dest: on_pending_same)
next
  case False
  with assms have "bindS (on_pending (claim (sd_nfc D) (pn_orderId rec))) (\<lambda>won.
          if \<not> won then retS (report\<lparr> sr_skipped := sr_skipped report + 1 \<rparr>)
          else catchS (refill D rec report) (\<lambda>e.
            if isDurableLogFailure e then failS e
            else bindS (on_pending (markFailed (sd_nfc D) (pn_orderId rec))) (\<lambda>_.
              retS (report\<lparr> sr_failed := sr_failed report + 1 \<rparr>)))) w = (Inr report', w')" by (simp add: settle_order_def)
  then show ?thesis
  proof (cases rule: bindS_E)
    case (goes_on won w1)
    note b1 = on_pending_same [OF goes_on(1)]
    from goes_on(1) obtain oid where id: "canonicalizeOrderId (sd_nfc D) (JsIs (pn_orderId rec)) = Inr oid"
      by (auto simp: on_pending_def claim_def split: sum.splits prod.splits)
    obtain r2 w2 where r2: "refill D rec report w1 = (r2, w2)" by fastforce
    have fail: "sr_settled report' = sr_settled report \<and> same_books w w'"
      if "bindS (on_pending (markFailed (sd_nfc D) (pn_orderId rec))) (\<lambda>_. retS (report\<lparr> sr_failed := sr_failed report + 1 \<rparr>)) w2 = (Inr report', w')"
        "same_books w w2"
      using that(1) by (cases rule: bindS_E) (use that(2) in \<open>auto simp: retS_def intro: same_books_trans dest: on_pending_same\<close>)
    show ?thesis
    proof (cases won)
      case False
      with goes_on b1 show ?thesis by (auto simp: retS_def)
    next
      case True
      with goes_on(2) r2 have r: "r2 = Inr report' \<and> w' = w2 \<or> (\<exists>e. r2 = Inl e \<and> e \<noteq> SeDied \<and> \<not> isDurableLogFailure e
        \<and> bindS (on_pending (markFailed (sd_nfc D) (pn_orderId rec))) (\<lambda>_. retS (report\<lparr> sr_failed := sr_failed report + 1 \<rparr>)) w2 = (Inr report', w'))"
        by (cases r2) (auto simp: catchS_def failS_def split: if_splits)
      from refill_result [OF r2 id] r False b1 fail show ?thesis
        by (auto simp: refilled_def same_books_def)
    qed
  qed simp
qed

section \<open>Two lives\<close>

text \<open>In the first life the mint lands and the process dies before it is booked; in the second the order is armed again
  and its refill is refused.\<close>

definition demo_payout_row :: evidence_row where
  "demo_payout_row = \<lparr> ew_orderId = lit ''o1'',
     ew_record = \<lparr> er_txHash = lit ''f0'', er_signedXdr = lit ''AA'', er_seq = lit ''8'', er_witnessedAtUnix = 5 \<rparr>,
     ew_order = \<lparr> of_destination = lit ''G'', of_amountStroops = 5, of_memoHex = lit ''01'', of_appliedRateStroops = 7,
       of_paidPriceTry = lit ''1.00'', of_spreadKurus = 2, of_feeKurus = 1 \<rparr> \<rparr>"

definition demo_settle_deps :: settle_deps where
  "demo_settle_deps = \<lparr> sd_manualFunding = False, sd_nfc = (\<lambda>u. u), sd_now = (\<lambda>t. 10), sd_rate = (\<lambda>_. Some 400000000),
     sd_mint = (\<lambda>_ _. Some (lit ''m1'', 100)), sd_sinkOk = (\<lambda>_. True), sd_dbOk = (\<lambda>_. True),
     sd_fate = (\<lambda>t. if t = 5 then DiesAfter else Lives), sd_demoValorSecs = 0 \<rparr>"

definition demo_life :: settle_world where
  "demo_life = \<lparr> sw_store = newStore 9 7 None [demo_payout_row], sw_ledger = newLedger, sw_pending = [], sw_inflight = [],
     sw_intents = Some [], sw_bootId = lit ''b1'', sw_tick = 0, sw_mints = [] \<rparr>"

definition demo_crashed :: settle_world where
  "demo_crashed = snd (settleAndRebalance demo_settle_deps demo_life)"

definition demo_second_life :: settle_world where
  "demo_second_life = demo_crashed\<lparr> sw_bootId := lit ''b2'', sw_pending := [], sw_inflight := [],
     sw_ledger := projr (reopenLedger (lg_journal (sw_ledger demo_crashed))), sw_store := sw_store demo_life \<rparr>"

definition demo_refused :: "(settle_error + settle_report) \<times> settle_world" where
  "demo_refused = settleAndRebalance demo_settle_deps demo_second_life"

lemma demo_paid_price: "paid_kurus (lit ''1.00'') = Inr 100"
  by (simp add: paid_kurus_def lit_def js_trim_def js_space_def ascii_of_def tryToKurus_def trim_def is_space_def is_digit_def
      dec_nat_def digit_val_def padEnd2_def Let_def)
    (simp add: char_of_def bit_0)

lemmas settle_eval = settleAndRebalance_def arm_order_def arm_pending_def settle_order_def refill_def refill_request_def mint_and_book_def book_and_credit_def
  bindS_def retS_def failS_def catchS_def act_def on_ledger_def on_pending_def db_open_def db_close_def topUp_def topUp_call_def
  topUp_settled_def mintToPool_def open_intent_def close_intent_def isBlocked_def plan_def due_def claim_def recordIfAbsent_def
  markSettled_def markFailed_def fromSettling_def has_key_def confirmedOrder_def confirmedOrders_def settledEvidence_def
  canonicalizeOrderId_def recordSettlement_def settlement_refused_def settlement_post_def fee_of_def post_def validateBalanced_def
  hasRef_def sumKurus_def isDurableLogFailure_def isDuplicateRef_def Let_def bigdiv_def KURUS_TO_STROOP_NUMERATOR_def
  pending_input.defs pending_settlement.defs

lemma topup_ref_fresh: "topup_ref u \<noteq> []" "topup_ref u \<noteq> lit ''o1''"
  by (simp_all add: topup_ref_def lit_def)

lemma order_o1_ok: "\<not> LONE_SURROGATE (lit ''o1'')"
  by (simp add: LONE_SURROGATE_def lit_def is_high_def is_low_def)

definition demo_entry :: journal_entry where
  "demo_entry = \<lparr> je_seq = 0, je_ref = lit ''o1'', je_kind = SETTLEMENT,
     je_debits = [\<lparr> leg_account = FIAT_CASH, leg_native = 99, leg_kurus = 99 \<rparr>, \<lparr> leg_account = PSP_FEE, leg_native = 1, leg_kurus = 1 \<rparr>],
     je_credits = [\<lparr> leg_account = USDC_POOL, leg_native = 5, leg_kurus = 98 \<rparr>, \<lparr> leg_account = SPREAD_REVENUE, leg_native = 2, leg_kurus = 2 \<rparr>] \<rparr>"

lemmas demo_settle_defs = demo_life_def demo_settle_deps_def demo_payout_row_def newStore_def newLedger_def

lemma demo_crash:
  "fst (settleAndRebalance demo_settle_deps demo_life) = Inl SeDied"
  "sw_mints demo_crashed = [(topup_ref (lit ''o1''), 250000)]"
  "sw_intents demo_crashed = Some [(topup_ref (lit ''o1''), (lit ''b1'', 10000))]"
  "lg_journal (sw_ledger demo_crashed) = [encodeJournalEntry demo_entry]"
  "sw_tick demo_crashed = 6"
  using order_o1_ok topup_ref_fresh
  by (simp_all add: demo_crashed_def demo_settle_defs demo_paid_price demo_entry_def settle_eval)

lemma demo_reopens: "reopenLedger [encodeJournalEntry demo_entry]
    = Inr \<lparr> lg_entries = [demo_entry], lg_refs = {lit ''o1''}, lg_journal = [encodeJournalEntry demo_entry] \<rparr>"
proof -
  have "storable_entry demo_entry"
    by (simp add: demo_entry_def storable_entry_def storable_leg_def own_account_def lit_def)
  from journal_codec.decode_encode [OF this] show ?thesis
    by (simp add: reopenLedger_def hydrate_def newLedger_def bindR_def) (simp add: demo_entry_def validateBalanced_def sumKurus_def)
qed

lemma demo_refusal:
  "map_option sr_mintBlocked (case fst demo_refused of Inl _ \<Rightarrow> None | Inr r \<Rightarrow> Some r) = Some 1"
  "sw_mints (snd demo_refused) = [(topup_ref (lit ''o1''), 250000)]"
proof -
  have "lit ''b1'' \<noteq> lit ''b2''" by (simp add: lit_def)
  with order_o1_ok topup_ref_fresh demo_crash
  show "map_option sr_mintBlocked (case fst demo_refused of Inl _ \<Rightarrow> None | Inr r \<Rightarrow> Some r) = Some 1"
    "sw_mints (snd demo_refused) = [(topup_ref (lit ''o1''), 250000)]"
    by (simp_all add: demo_refused_def demo_second_life_def demo_reopens demo_settle_defs demo_paid_price settle_eval)
qed


text \<open>One process that lives: the due record is settled.\<close>

definition demo_due :: pending_settlement where
  "demo_due = \<lparr> pn_orderId = lit ''o1'', pn_tryKurus = 100, pn_usdcPaidOutStroops = 5, pn_appliedRateStroops = 7,
     pn_confirmedAtUnix = 1, pn_settlesAtUnix = 2, pn_status = StPending \<rparr>"

definition demo_armed :: settle_world where
  "demo_armed = demo_life\<lparr> sw_pending := [(lit ''o1'', demo_due)], sw_tick := 6 \<rparr>"

lemma refill_moves_books_and_gate_witness:
  "\<exists>r w'. settle_order demo_settle_deps demo_due \<lparr> sr_armed = 0, sr_settled = 0, sr_voided = 0, sr_failed = 0, sr_skipped = 0,
       sr_booked = 0, sr_mintBlocked = 0 \<rparr> demo_armed = (Inr r, w')
     \<and> sr_settled r = 1 \<and> refilled demo_armed w' (topup_ref (lit ''o1''))"
proof -
  let ?r = "\<lparr> sr_armed = 0, sr_settled = 0, sr_voided = 0, sr_failed = 0, sr_skipped = 0, sr_booked = 0, sr_mintBlocked = 0 \<rparr>"
  have "\<exists>r w'. settle_order demo_settle_deps demo_due ?r demo_armed = (Inr r, w') \<and> sr_settled r = 1"
    using order_o1_ok topup_ref_fresh
    by (simp add: demo_armed_def demo_due_def demo_settle_defs settle_eval recordTopUp_def topup_post_def creditPool_def credit_def)
  then obtain r w' where r: "settle_order demo_settle_deps demo_due ?r demo_armed = (Inr r, w')" "sr_settled r = 1" by blast
  from refill_moves_books_and_gate [OF r(1)] r show ?thesis by (auto simp: demo_due_def)
qed

text \<open>Order ids and refill refs share one name space: once the payout of an order called \<open>topup:o\<close> is booked, the
  refill of order \<open>o\<close> counts as done and is never minted.\<close>

lemma order_id_shadows_refill:
  assumes "recordSettlement b i l = (Inr e, l')" "si_orderId i = topup_ref (pn_orderId rec)"
    and "sw_ledger w = l'" "plan rec rate = Inr req" "refill_request D rec req report w = (Inr report', w')"
  shows "report' = report\<lparr> sr_skipped := sr_skipped report + 1 \<rparr> \<and> sw_mints w' = sw_mints w"
proof -
  have "tr_ref req = si_orderId i" using assms(2,4) by (auto simp: plan_def split: if_splits)
  moreover have "si_orderId i \<in> lg_refs l'"
    using assms(1) post_grows(3) [of b "settlement_post i" l "Inr e" l' e]
    by (auto simp: recordSettlement_def settlement_post_def Let_def split: if_splits)
  ultimately have "hasRef (sw_ledger w) (tr_ref req)" using assms(3) by (simp add: hasRef_def)
  with assms(5) show ?thesis
    by (cases "sd_fate D (sw_tick w)")
      (auto simp: refill_request_def bindS_def act_def Let_def db_close_def on_pending_def retS_def
        split: option.splits if_splits prod.splits sum.splits)
qed

end
