(* ===== verification/Alarms.thy ===== *)
theory Alarms
  imports Ledger
begin

text \<open>
  The two monitors that turn a reading per tick into at most one page per episode: the solvency tripwire
  (\<^verbatim>\<open>backend/src/settlement/drift-worker.ts\<close>) and the health of the event tail (\<^verbatim>\<open>outflow-worker.ts\<close>). The locale
  \<open>episode_latch\<close> states what both promise; the client lemma says on which readings the alarm fires.
\<close>

section \<open>The solvency tripwire, drift-worker.ts\<close>

text \<open>\<open>None\<close>: the balance cannot be read and the tick throws.\<close>

definition checkDrift :: "int option \<Rightarrow> ledger \<Rightarrow> drift_report option" where
  "checkDrift observed l = (case observed of None \<Rightarrow> None | Some b \<Rightarrow> Some (detectDrift l b))"

definition DEFAULT_DRIFT_ALARM_AFTER :: int where "DEFAULT_DRIFT_ALARM_AFTER = 3"

record drift_state =
  ds_consecutiveOutOfSync :: int
  ds_alarmed :: bool

definition INITIAL_DRIFT_STATE :: drift_state where
  "INITIAL_DRIFT_STATE = \<lparr> ds_consecutiveOutOfSync = 0, ds_alarmed = False \<rparr>"

record drift_observation =
  do_state :: drift_state
  do_alarm :: bool
  do_settling :: bool
  do_recovered :: bool

definition observeDrift :: "drift_state \<Rightarrow> drift_report \<Rightarrow> int \<Rightarrow> drift_observation" where
  "observeDrift prev report alarmAfter =
     (if dr_inSync report then
        \<lparr> do_state = INITIAL_DRIFT_STATE, do_alarm = False, do_settling = False,
          do_recovered = (ds_consecutiveOutOfSync prev > 0) \<rparr>
      else
        let consecutiveOutOfSync = ds_consecutiveOutOfSync prev + 1;
            due = (consecutiveOutOfSync \<ge> alarmAfter);
            alarm = (due \<and> \<not> ds_alarmed prev) in
        \<lparr> do_state = \<lparr> ds_consecutiveOutOfSync = consecutiveOutOfSync, ds_alarmed = (ds_alarmed prev \<or> due) \<rparr>,
          do_alarm = alarm, do_settling = (\<not> due), do_recovered = False \<rparr>)"

section \<open>The health of the tail, outflow-worker.ts\<close>

definition DEFAULT_TAIL_STALL_AFTER :: int where "DEFAULT_TAIL_STALL_AFTER = 3"

record tail_health =
  th_consecutiveStalls :: int
  th_alarmed :: bool

definition INITIAL_TAIL_HEALTH :: tail_health where
  "INITIAL_TAIL_HEALTH = \<lparr> th_consecutiveStalls = 0, th_alarmed = False \<rparr>"

record tail_observation =
  to_state :: tail_health
  to_alarm :: bool
  to_recovered :: bool

definition observeTailHealth :: "tail_health \<Rightarrow> bool \<Rightarrow> int \<Rightarrow> tail_observation" where
  "observeTailHealth prev stalled alarmAfter =
     (if \<not> stalled then
        \<lparr> to_state = INITIAL_TAIL_HEALTH, to_alarm = False, to_recovered = (th_consecutiveStalls prev > 0) \<rparr>
      else
        let consecutiveStalls = th_consecutiveStalls prev + 1; due = (consecutiveStalls \<ge> alarmAfter) in
        \<lparr> to_state = \<lparr> th_consecutiveStalls = consecutiveStalls, th_alarmed = (th_alarmed prev \<or> due) \<rparr>,
          to_alarm = (due \<and> \<not> th_alarmed prev), to_recovered = False \<rparr>)"

section \<open>What a monitor promises\<close>

text \<open>The alarms of a sequence of readings, and how many readings in a row, up to the last one, were bad.\<close>

fun run_monitor :: "('s \<Rightarrow> 'r \<Rightarrow> 's) \<Rightarrow> ('s \<Rightarrow> 'r \<Rightarrow> bool) \<Rightarrow> 's \<Rightarrow> 'r list \<Rightarrow> bool list" where
  "run_monitor step fires s [] = []"
| "run_monitor step fires s (r # rs) = fires s r # run_monitor step fires (step s r) rs"

definition bad_run :: "bool list \<Rightarrow> nat" where
  "bad_run bs = length (takeWhile (\<lambda>b. b) (rev bs))"

lemma bad_run_Nil [simp]: "bad_run [] = 0"
  by (simp add: bad_run_def)

lemma bad_run_snoc [simp]: "bad_run (bs @ [b]) = (if b then bad_run bs + 1 else 0)"
  by (simp add: bad_run_def)

locale episode_latch =
  fixes count :: "'s \<Rightarrow> int" and latched :: "'s \<Rightarrow> bool" and bad :: "'r \<Rightarrow> bool"
    and step :: "int \<Rightarrow> 's \<Rightarrow> 'r \<Rightarrow> 's" and fires :: "int \<Rightarrow> 's \<Rightarrow> 'r \<Rightarrow> bool"
  assumes reset: "\<not> bad r \<Longrightarrow> count (step n s r) = 0 \<and> \<not> latched (step n s r)"
    and counts: "bad r \<Longrightarrow> count (step n s r) = count s + 1 \<and> (latched (step n s r) \<longleftrightarrow> latched s \<or> n \<le> count s + 1)"
    and fires: "fires n s r \<longleftrightarrow> bad r \<and> n \<le> count s + 1 \<and> \<not> latched s"
begin

text \<open>The latch holds exactly when the run of bad readings has reached the threshold.\<close>

definition in_episode :: "int \<Rightarrow> 's \<Rightarrow> bool list \<Rightarrow> bool" where
  "in_episode n s seen \<longleftrightarrow> count s = int (bad_run seen) \<and> (latched s \<longleftrightarrow> 0 < bad_run seen \<and> n \<le> int (bad_run seen))"

lemma episode_step: "in_episode n s seen \<Longrightarrow> in_episode n (step n s r) (seen @ [bad r])"
  using reset [of r n s] counts [of r n s] by (cases "bad r") (auto simp: in_episode_def)

lemma fires_at: "in_episode n s seen \<Longrightarrow> fires n s r \<longleftrightarrow> int (bad_run (seen @ [bad r])) = max 1 n"
  using fires [of n s r] by (auto simp: in_episode_def)

lemma alarms_from:
  "in_episode n s seen \<Longrightarrow> run_monitor (step n) (fires n) s rs
     = map (\<lambda>i. int (bad_run (seen @ map bad (take (Suc i) rs))) = max 1 n) [0..<length rs]"
proof (induction rs arbitrary: s seen)
  case (Cons r rs)
  have "run_monitor (step n) (fires n) (step n s r) rs
      = map (\<lambda>i. int (bad_run ((seen @ [bad r]) @ map bad (take (Suc i) rs))) = max 1 n) [0..<length rs]"
    by (rule Cons.IH [OF episode_step [OF Cons.prems]])
  then show ?case
    using fires_at [OF Cons.prems, of r] by (simp add: upt_conv_Cons map_Suc_upt [symmetric] del: upt_Suc)
qed simp

text \<open>From a fresh monitor the alarm fires exactly on the reading that completes a run of the threshold's length.\<close>

lemma alarm_exactly_at_threshold:
  "count s = 0 \<Longrightarrow> \<not> latched s \<Longrightarrow> run_monitor (step n) (fires n) s rs
     = map (\<lambda>i. int (bad_run (map bad (take (Suc i) rs))) = max 1 n) [0..<length rs]"
  using alarms_from [of n s "[]" rs] by (simp add: in_episode_def)

end

interpretation drift_latch: episode_latch ds_consecutiveOutOfSync ds_alarmed "\<lambda>r. \<not> dr_inSync r"
    "\<lambda>n s r. do_state (observeDrift s r n)" "\<lambda>n s r. do_alarm (observeDrift s r n)"
  by unfold_locales (auto simp: observeDrift_def INITIAL_DRIFT_STATE_def Let_def)

interpretation tail_latch: episode_latch th_consecutiveStalls th_alarmed "\<lambda>b. b"
    "\<lambda>n s r. to_state (observeTailHealth s r n)" "\<lambda>n s r. to_alarm (observeTailHealth s r n)"
  by unfold_locales (auto simp: observeTailHealth_def INITIAL_TAIL_HEALTH_def Let_def)

section \<open>Properties\<close>

text \<open>One page per episode, at the threshold. For any sequence of readings the drift monitor raises its alarm on
  exactly those readings that complete a run of out-of-sync readings of the configured length (of one, when the
  configured number is not positive), and the tail's monitor on exactly those that complete a run of stalls of that
  length. So a drift or a stall that closes earlier never pages, and one that stays open pages once.\<close>

lemma alarm_fires_once_per_episode:
  "run_monitor (\<lambda>s r. do_state (observeDrift s r n)) (\<lambda>s r. do_alarm (observeDrift s r n)) INITIAL_DRIFT_STATE reports
     = map (\<lambda>i. int (bad_run (map (\<lambda>r. \<not> dr_inSync r) (take (Suc i) reports))) = max 1 n) [0..<length reports]
   \<and> run_monitor (\<lambda>s r. to_state (observeTailHealth s r n)) (\<lambda>s r. to_alarm (observeTailHealth s r n)) INITIAL_TAIL_HEALTH stalls
     = map (\<lambda>i. int (bad_run (take (Suc i) stalls)) = max 1 n) [0..<length stalls]"
  using drift_latch.alarm_exactly_at_threshold [of INITIAL_DRIFT_STATE n reports]
    tail_latch.alarm_exactly_at_threshold [of INITIAL_TAIL_HEALTH n stalls]
  by (simp add: INITIAL_DRIFT_STATE_def INITIAL_TAIL_HEALTH_def)

end
