(* ===== verification/Chain_Records.thy ===== *)
theory Chain_Records
  imports Evidence
begin

text \<open>
  What the watchers of the pool write down, and its record formats: the events of the tail
  (\<^verbatim>\<open>stellar-client/src/outflow-types.ts\<close>), the observations of the chain and the reconciled orders
  (\<^verbatim>\<open>composition/src/chain-observations.ts\<close>), the checkpoint and the suspects (\<^verbatim>\<open>outflow-stores.ts\<close>) and the
  authorised payments (\<^verbatim>\<open>file-journal.ts\<close>). Each format interprets the locale \<open>codec\<close> of the ledger's journal.
\<close>

section \<open>Events of the pool, outflow-types.ts\<close>

record outflow_event =
  oe_txHash :: ustring
  oe_ledger :: int
  oe_ledgerCloseUnix :: int
  oe_to :: ustring
  oe_amountStroops :: int

record settlement_observation =
  so_txIdHex :: ustring
  so_txHash :: ustring
  so_ledger_seq :: int
  so_ledgerCloseUnix :: int
  so_contractId :: ustring
  so_sourceAccount :: ustring
  so_merchant :: ustring
  so_amountStroops :: int
  so_appliedRateStroops :: int
  so_memoHex :: ustring

record pool_upgrade =
  pu_txHash :: ustring
  pu_ledger :: int
  pu_ledgerCloseUnix :: int

datatype pool_fetch = FromCursor ustring | FromLedger int

record pool_page =
  pp_outflows :: "outflow_event list"
  pp_settlements :: "settlement_observation list"
  pp_upgrades :: "pool_upgrade list"
  pp_cursor :: ustring
  pp_latestLedger :: int
  pp_latestLedgerCloseUnix :: int
  pp_oldestLedger :: int

datatype pool_activity = Page pool_page | CursorBelowRetention int int int | RpcUnavailable ustring

datatype tx_liveness = LiveSuccess int | LiveAbsent | LiveUnknown ustring

section \<open>Reading a record\<close>

datatype record_error = RecordNotJson | RecordNotObject | RecordVersion | RecordType | RecordField string

definition rd_str :: "json \<Rightarrow> string \<Rightarrow> record_error + ustring" where
  "rd_str obj f =
     (case jprop obj f of Some (JStr s) \<Rightarrow> (if length s = 0 then Inl (RecordField f) else Inr s) | _ \<Rightarrow> Inl (RecordField f))"

definition rd_int :: "json \<Rightarrow> string \<Rightarrow> record_error + int" where
  "rd_int obj f =
     (case jprop obj f of Some (JInt i) \<Rightarrow> (if is_safe_int i then Inr i else Inl (RecordField f)) | _ \<Rightarrow> Inl (RecordField f))"

definition rd_amount :: "json \<Rightarrow> string \<Rightarrow> record_error + int" where
  "rd_amount obj f = (case decimal_prop obj f of Some i \<Rightarrow> Inr i | None \<Rightarrow> Inl (RecordField f))"

text \<open>The guards every decoder starts with: it parses, it is an object, its version is 1.\<close>

definition rd_object :: "json option \<Rightarrow> (json \<Rightarrow> record_error + 'a) \<Rightarrow> record_error + 'a" where
  "rd_object payload k =
     (case payload of
        None \<Rightarrow> Inl RecordNotJson
      | Some raw \<Rightarrow>
          if \<not> is_jobject raw then Inl RecordNotObject
          else if jprop raw ''v'' \<noteq> Some (JInt 1) then Inl RecordVersion
          else k raw)"

lemma rd_str_JStr: "jprop obj f = Some (JStr s) \<Longrightarrow> s \<noteq> [] \<Longrightarrow> rd_str obj f = Inr s"
  by (simp add: rd_str_def)

lemma rd_int_JInt: "jprop obj f = Some (JInt i) \<Longrightarrow> is_safe_int i \<Longrightarrow> rd_int obj f = Inr i"
  by (simp add: rd_int_def)

lemma rd_amount_bigint: "jprop obj f = Some (jtext (bigint_str i)) \<Longrightarrow> 0 \<le> i \<Longrightarrow> rd_amount obj f = Inr i"
  using decimal_prop_bigint [of i obj f] by (simp add: rd_amount_def)

lemmas rd_ok = rd_str_JStr rd_int_JInt rd_amount_bigint

lemma rd_object_JObj: "rd_object (Some (JObj ((''v'', JInt 1) # kvs))) k = k (JObj ((''v'', JInt 1) # kvs))"
  by (simp add: rd_object_def)

section \<open>Observations of the chain, chain-observations.ts\<close>

datatype observation =
    ObsOut outflow_event
  | ObsSet settlement_observation
  | ObsUpg pool_upgrade
  | ObsCov int

definition encodeObservation :: "observation \<Rightarrow> json" where
  "encodeObservation r =
     (case r of
        ObsOut e \<Rightarrow> JObj [(''v'', JInt 1), (''t'', jtext ''out''), (''txHash'', JStr (oe_txHash e)), (''ledger'', JInt (oe_ledger e)),
          (''ledgerCloseUnix'', JInt (oe_ledgerCloseUnix e)), (''to'', JStr (oe_to e)),
          (''amountStroops'', jtext (bigint_str (oe_amountStroops e)))]
      | ObsCov u \<Rightarrow> JObj [(''v'', JInt 1), (''t'', jtext ''cov''), (''unix'', JInt u)]
      | ObsUpg u \<Rightarrow> JObj [(''v'', JInt 1), (''t'', jtext ''upg''), (''txHash'', JStr (pu_txHash u)), (''ledger'', JInt (pu_ledger u)),
          (''ledgerCloseUnix'', JInt (pu_ledgerCloseUnix u))]
      | ObsSet s \<Rightarrow> JObj [(''v'', JInt 1), (''t'', jtext ''set''), (''txIdHex'', JStr (so_txIdHex s)), (''txHash'', JStr (so_txHash s)),
          (''ledger'', JInt (so_ledger_seq s)), (''ledgerCloseUnix'', JInt (so_ledgerCloseUnix s)),
          (''contractId'', JStr (so_contractId s)), (''sourceAccount'', JStr (so_sourceAccount s)), (''merchant'', JStr (so_merchant s)),
          (''amountStroops'', jtext (bigint_str (so_amountStroops s))),
          (''appliedRateStroops'', jtext (bigint_str (so_appliedRateStroops s))), (''memoHex'', JStr (so_memoHex s))])"

definition decode_out :: "json \<Rightarrow> record_error + observation" where
  "decode_out r =
     bindR (rd_str r ''txHash'') (\<lambda>txHash. bindR (rd_int r ''ledger'') (\<lambda>ledger.
     bindR (rd_int r ''ledgerCloseUnix'') (\<lambda>close. bindR (rd_str r ''to'') (\<lambda>dest. bindR (rd_amount r ''amountStroops'') (\<lambda>amount.
       Inr (ObsOut \<lparr> oe_txHash = txHash, oe_ledger = ledger, oe_ledgerCloseUnix = close, oe_to = dest, oe_amountStroops = amount \<rparr>))))))"

definition decode_set :: "json \<Rightarrow> record_error + observation" where
  "decode_set r =
     bindR (rd_str r ''txIdHex'') (\<lambda>txIdHex. bindR (rd_str r ''txHash'') (\<lambda>txHash. bindR (rd_int r ''ledger'') (\<lambda>ledger.
     bindR (rd_int r ''ledgerCloseUnix'') (\<lambda>close. bindR (rd_str r ''contractId'') (\<lambda>contract.
     bindR (rd_str r ''sourceAccount'') (\<lambda>source. bindR (rd_str r ''merchant'') (\<lambda>merchant.
     bindR (rd_amount r ''amountStroops'') (\<lambda>amount. bindR (rd_amount r ''appliedRateStroops'') (\<lambda>rate.
     bindR (rd_str r ''memoHex'') (\<lambda>memo.
       Inr (ObsSet \<lparr> so_txIdHex = txIdHex, so_txHash = txHash, so_ledger_seq = ledger, so_ledgerCloseUnix = close,
         so_contractId = contract, so_sourceAccount = source, so_merchant = merchant, so_amountStroops = amount,
         so_appliedRateStroops = rate, so_memoHex = memo \<rparr>)))))))))))"

definition decodeObservation :: "json option \<Rightarrow> record_error + observation" where
  "decodeObservation payload = rd_object payload (\<lambda>r.
     if jprop r ''t'' = Some (jtext ''out'') then decode_out r
     else if jprop r ''t'' = Some (jtext ''cov'') then
       bindR (rd_int r ''unix'') (\<lambda>u. if u < 0 then Inl (RecordField ''unix'') else Inr (ObsCov u))
     else if jprop r ''t'' = Some (jtext ''upg'') then
       bindR (rd_str r ''txHash'') (\<lambda>txHash. bindR (rd_int r ''ledger'') (\<lambda>ledger. bindR (rd_int r ''ledgerCloseUnix'') (\<lambda>close.
         Inr (ObsUpg \<lparr> pu_txHash = txHash, pu_ledger = ledger, pu_ledgerCloseUnix = close \<rparr>))))
     else if jprop r ''t'' \<noteq> Some (jtext ''set'') then Inl RecordType
     else decode_set r)"

text \<open>What the chain's adapter emits: texts are present, numbers are safe integers, amounts are not negative.\<close>

definition storable_outflow :: "outflow_event \<Rightarrow> bool" where
  "storable_outflow e \<longleftrightarrow> oe_txHash e \<noteq> [] \<and> oe_to e \<noteq> [] \<and> is_safe_int (oe_ledger e) \<and> is_safe_int (oe_ledgerCloseUnix e)
     \<and> 0 \<le> oe_amountStroops e"

fun storable_observation :: "observation \<Rightarrow> bool" where
  "storable_observation (ObsOut e) \<longleftrightarrow> storable_outflow e"
| "storable_observation (ObsSet s) \<longleftrightarrow> so_txIdHex s \<noteq> [] \<and> so_txHash s \<noteq> [] \<and> is_safe_int (so_ledger_seq s)
     \<and> is_safe_int (so_ledgerCloseUnix s) \<and> so_contractId s \<noteq> [] \<and> so_sourceAccount s \<noteq> [] \<and> so_merchant s \<noteq> []
     \<and> 0 \<le> so_amountStroops s \<and> 0 \<le> so_appliedRateStroops s \<and> so_memoHex s \<noteq> []"
| "storable_observation (ObsUpg u) \<longleftrightarrow> pu_txHash u \<noteq> [] \<and> is_safe_int (pu_ledger u) \<and> is_safe_int (pu_ledgerCloseUnix u)"
| "storable_observation (ObsCov u) \<longleftrightarrow> is_safe_int u \<and> 0 \<le> u"

lemma tags_differ: "jtext ''cov'' \<noteq> jtext ''out''" "jtext ''upg'' \<noteq> jtext ''out''" "jtext ''upg'' \<noteq> jtext ''cov''"
  "jtext ''set'' \<noteq> jtext ''out''" "jtext ''set'' \<noteq> jtext ''cov''" "jtext ''set'' \<noteq> jtext ''upg''"
  by (simp_all add: jtext_def lit_def)

interpretation observation_codec: codec "\<lambda>r. Some (encodeObservation r)" decodeObservation storable_observation
proof unfold_locales
  fix r assume "storable_observation r"
  then show "decodeObservation (Some (encodeObservation r)) = Inr r"
    by (cases r) (simp_all add: encodeObservation_def decodeObservation_def rd_object_JObj decode_out_def decode_set_def
        storable_outflow_def tags_differ rd_ok)
qed

section \<open>The checkpoint and the suspects, outflow-stores.ts\<close>

record suspect =
  su_txHash :: ustring
  su_firstSeenLedgerCloseUnix :: int
  su_ledger :: int
  su_amountStroops :: int
  su_to :: ustring
  su_alarmed :: bool

definition encodeCursor :: "ustring \<Rightarrow> json" where
  "encodeCursor cursor = JObj [(''v'', JInt 1), (''cursor'', JStr cursor)]"

definition decodeCursor :: "json option \<Rightarrow> record_error + ustring" where
  "decodeCursor payload = rd_object payload (\<lambda>r. rd_str r ''cursor'')"

datatype suspect_record = SuSeen suspect | SuAlarmed ustring | SuCleared ustring

definition encodeSuspect :: "suspect_record \<Rightarrow> json" where
  "encodeSuspect r =
     (case r of
        SuSeen s \<Rightarrow> JObj [(''v'', JInt 1), (''t'', jtext ''seen''), (''txHash'', JStr (su_txHash s)),
          (''firstSeenLedgerCloseUnix'', JInt (su_firstSeenLedgerCloseUnix s)), (''ledger'', JInt (su_ledger s)),
          (''amountStroops'', jtext (bigint_str (su_amountStroops s))), (''to'', JStr (su_to s))]
      | SuAlarmed h \<Rightarrow> JObj [(''v'', JInt 1), (''t'', jtext ''alarmed''), (''txHash'', JStr h)]
      | SuCleared h \<Rightarrow> JObj [(''v'', JInt 1), (''t'', jtext ''cleared''), (''txHash'', JStr h)])"

definition decodeSuspect :: "json option \<Rightarrow> record_error + suspect_record" where
  "decodeSuspect payload = rd_object payload (\<lambda>r.
     bindR (rd_str r ''txHash'') (\<lambda>txHash.
       if jprop r ''t'' = Some (jtext ''alarmed'') then Inr (SuAlarmed txHash)
       else if jprop r ''t'' = Some (jtext ''cleared'') then Inr (SuCleared txHash)
       else if jprop r ''t'' \<noteq> Some (jtext ''seen'') then Inl RecordType
       else bindR (rd_int r ''firstSeenLedgerCloseUnix'') (\<lambda>first. bindR (rd_int r ''ledger'') (\<lambda>ledger.
            bindR (rd_amount r ''amountStroops'') (\<lambda>amount. bindR (rd_str r ''to'') (\<lambda>dest.
              Inr (SuSeen \<lparr> su_txHash = txHash, su_firstSeenLedgerCloseUnix = first, su_ledger = ledger,
                su_amountStroops = amount, su_to = dest, su_alarmed = False \<rparr>)))))))"

fun storable_suspect :: "suspect_record \<Rightarrow> bool" where
  "storable_suspect (SuSeen s) \<longleftrightarrow> su_txHash s \<noteq> [] \<and> is_safe_int (su_firstSeenLedgerCloseUnix s) \<and> is_safe_int (su_ledger s)
     \<and> 0 \<le> su_amountStroops s \<and> su_to s \<noteq> [] \<and> \<not> su_alarmed s"
| "storable_suspect (SuAlarmed h) \<longleftrightarrow> h \<noteq> []"
| "storable_suspect (SuCleared h) \<longleftrightarrow> h \<noteq> []"

lemma suspect_tags_differ: "jtext ''cleared'' \<noteq> jtext ''alarmed''" "jtext ''seen'' \<noteq> jtext ''alarmed''" "jtext ''seen'' \<noteq> jtext ''cleared''"
  by (simp_all add: jtext_def lit_def)

interpretation suspect_codec: codec "\<lambda>r. Some (encodeSuspect r)" decodeSuspect storable_suspect
proof unfold_locales
  fix r assume "storable_suspect r"
  then show "decodeSuspect (Some (encodeSuspect r)) = Inr r"
    by (cases r) (auto simp: encodeSuspect_def decodeSuspect_def rd_object_JObj suspect_tags_differ rd_ok)
qed

interpretation cursor_codec: codec "\<lambda>c. Some (encodeCursor c)" decodeCursor "\<lambda>c. c \<noteq> []"
  by unfold_locales (simp add: encodeCursor_def decodeCursor_def rd_object_JObj rd_ok)

section \<open>Authorised payments, file-journal.ts\<close>

record authorized_record =
  az_orderId :: ustring
  az_seq :: ustring
  az_hashHex :: ustring
  az_signedXdr :: ustring

definition encodeAuthorizedRecord :: "authorized_record \<Rightarrow> json" where
  "encodeAuthorizedRecord r = JObj [(''v'', JInt 1), (''orderId'', JStr (az_orderId r)), (''seq'', JStr (az_seq r)),
     (''hashHex'', JStr (az_hashHex r)), (''signedXdr'', JStr (az_signedXdr r))]"

definition decodeAuthorizedRecord :: "json option \<Rightarrow> record_error + authorized_record" where
  "decodeAuthorizedRecord payload = rd_object payload (\<lambda>r.
     bindR (rd_str r ''orderId'') (\<lambda>orderId. bindR (rd_str r ''seq'') (\<lambda>seq. bindR (rd_str r ''hashHex'') (\<lambda>hashHex.
     bindR (rd_str r ''signedXdr'') (\<lambda>signedXdr.
       Inr \<lparr> az_orderId = orderId, az_seq = seq, az_hashHex = hashHex, az_signedXdr = signedXdr \<rparr>)))))"

definition storable_authorized :: "authorized_record \<Rightarrow> bool" where
  "storable_authorized r \<longleftrightarrow> az_orderId r \<noteq> [] \<and> az_seq r \<noteq> [] \<and> az_hashHex r \<noteq> [] \<and> az_signedXdr r \<noteq> []"

interpretation authorized_codec: codec "\<lambda>r. Some (encodeAuthorizedRecord r)" decodeAuthorizedRecord storable_authorized
  by unfold_locales (simp add: encodeAuthorizedRecord_def decodeAuthorizedRecord_def storable_authorized_def rd_object_JObj rd_ok)

end
