(* ===== verification/Pool_Watch.thy ===== *)
theory Pool_Watch
  imports Chain_Records
begin

text \<open>
  The watcher of the pool: what left it, and whether this operator authorised it. The durable stores
  (\<^verbatim>\<open>composition/src/outflow-stores.ts\<close>, \<^verbatim>\<open>chain-observations.ts\<close>, \<^verbatim>\<open>file-journal.ts\<close>) and the tick
  (\<^verbatim>\<open>backend/src/settlement/outflow-worker.ts\<close>).

  Every append may be lost, or reach the disk and still throw; the process then stops and the next one replays the
  logs. Over all such histories no outflow of a page behind the checkpoint is forgotten.
\<close>

section \<open>The stores\<close>

datatype append_fate = Appended | AppendLost | AppendKept

text \<open>An append and the update of the memory that follows it: \<open>True\<close> when it returned.\<close>

definition logged :: "append_fate \<Rightarrow> 's \<Rightarrow> 's \<Rightarrow> 's \<Rightarrow> bool \<times> 's" where
  "logged fate before on_disk believed =
     (case fate of Appended \<Rightarrow> (True, believed) | AppendLost \<Rightarrow> (False, before) | AppendKept \<Rightarrow> (False, on_disk))"

subsection \<open>The checkpoint\<close>

record cursor_store =
  cu_log :: "json list"
  cu_current :: "ustring option"

definition save_cursor :: "ustring \<Rightarrow> append_fate \<Rightarrow> cursor_store \<Rightarrow> bool \<times> cursor_store" where
  "save_cursor cursor fate c =
     (let c' = c\<lparr> cu_log := cu_log c @ [encodeCursor cursor] \<rparr> in logged fate c c' (c'\<lparr> cu_current := Some cursor \<rparr>))"

definition open_cursor :: "json list \<Rightarrow> record_error + cursor_store" where
  "open_cursor log =
     (if log = [] then Inr \<lparr> cu_log = log, cu_current = None \<rparr>
      else bindR (decodeCursor (Some (last log))) (\<lambda>cursor. Inr \<lparr> cu_log = log, cu_current = Some cursor \<rparr>))"

subsection \<open>The suspects\<close>

record suspect_store =
  ss_log :: "json list"
  ss_open :: "(ustring, suspect) jsmap"

definition apply_suspect :: "suspect_record \<Rightarrow> (ustring, suspect) jsmap \<Rightarrow> (ustring, suspect) jsmap" where
  "apply_suspect rec m =
     (case rec of
        SuSeen s \<Rightarrow> if \<not> has_key m (su_txHash s) then AList.update (su_txHash s) s m else m
      | SuAlarmed h \<Rightarrow> (case map_of m h of None \<Rightarrow> m | Some s \<Rightarrow> AList.update h (s\<lparr> su_alarmed := True \<rparr>) m)
      | SuCleared h \<Rightarrow> AList.delete h m)"

definition open_suspects :: "json list \<Rightarrow> record_error + suspect_store" where
  "open_suspects log =
     bindR (decode_all (\<lambda>j. decodeSuspect (Some j)) log) (\<lambda>recs.
       Inr \<lparr> ss_log = log, ss_open = fold apply_suspect recs [] \<rparr>)"

definition all_suspects :: "suspect_store \<Rightarrow> suspect list" where
  "all_suspects s = map snd (ss_open s)"

definition record_suspect :: "suspect \<Rightarrow> append_fate \<Rightarrow> suspect_store \<Rightarrow> bool \<times> suspect_store" where
  "record_suspect su fate s =
     (if has_key (ss_open s) (su_txHash su) then (True, s)
      else let s' = s\<lparr> ss_log := ss_log s @ [encodeSuspect (SuSeen su)] \<rparr> in
        logged fate s s' (s'\<lparr> ss_open := AList.update (su_txHash su) su (ss_open s) \<rparr>))"

definition markAlarmed :: "ustring \<Rightarrow> append_fate \<Rightarrow> suspect_store \<Rightarrow> bool \<times> suspect_store" where
  "markAlarmed h fate s =
     (case map_of (ss_open s) h of
        None \<Rightarrow> (True, s)
      | Some su \<Rightarrow>
          if su_alarmed su then (True, s)
          else let s' = s\<lparr> ss_log := ss_log s @ [encodeSuspect (SuAlarmed h)] \<rparr> in
            logged fate s s' (s'\<lparr> ss_open := AList.update h (su\<lparr> su_alarmed := True \<rparr>) (ss_open s) \<rparr>))"

definition tombstone :: "ustring \<Rightarrow> append_fate \<Rightarrow> suspect_store \<Rightarrow> bool \<times> suspect_store" where
  "tombstone h fate s =
     (if \<not> has_key (ss_open s) h then (True, s)
      else let s' = s\<lparr> ss_log := ss_log s @ [encodeSuspect (SuCleared h)] \<rparr> in
        logged fate s s' (s'\<lparr> ss_open := AList.delete h (ss_open s) \<rparr>))"

subsection \<open>The observations\<close>

record observations =
  ob_outByTx :: "(ustring, int) jsmap"
  ob_setByTxId :: "(ustring, settlement_observation) jsmap"
  ob_seenOutflow :: "ustring set"
  ob_upgraded :: "pool_upgrade list"
  ob_coverageStart :: "int option"

record observation_store =
  os_log :: "json list"
  os_obs :: observations

definition outflow_key :: "outflow_event \<Rightarrow> ustring" where
  "outflow_key e = oe_txHash e @ lit '':'' @ lit (bigint_str (oe_ledger e)) @ lit '':'' @ oe_to e @ lit '':''
     @ lit (bigint_str (oe_amountStroops e))"

definition outflowStroopsByTx :: "observations \<Rightarrow> ustring \<Rightarrow> int" where
  "outflowStroopsByTx ob txHash = (case map_of (ob_outByTx ob) txHash of None \<Rightarrow> 0 | Some n \<Rightarrow> n)"

definition index_observation :: "observation \<Rightarrow> observations \<Rightarrow> observations" where
  "index_observation r ob =
     (case r of
        ObsCov u \<Rightarrow>
          (case ob_coverageStart ob of
             None \<Rightarrow> ob\<lparr> ob_coverageStart := Some u \<rparr>
           | Some c \<Rightarrow> if u > c then ob\<lparr> ob_coverageStart := Some u \<rparr> else ob)
      | ObsOut e \<Rightarrow>
          if outflow_key e \<in> ob_seenOutflow ob then ob
          else ob\<lparr> ob_seenOutflow := insert (outflow_key e) (ob_seenOutflow ob),
                   ob_outByTx := AList.update (oe_txHash e) (outflowStroopsByTx ob (oe_txHash e) + oe_amountStroops e) (ob_outByTx ob) \<rparr>
      | ObsUpg u \<Rightarrow>
          if list_ex (\<lambda>x. pu_txHash x = pu_txHash u) (ob_upgraded ob) then ob
          else ob\<lparr> ob_upgraded := ob_upgraded ob @ [u] \<rparr>
      | ObsSet s \<Rightarrow>
          if has_key (ob_setByTxId ob) (so_txIdHex s) then ob
          else ob\<lparr> ob_setByTxId := AList.update (so_txIdHex s) s (ob_setByTxId ob) \<rparr>)"

definition newObservations :: observations where
  "newObservations = \<lparr> ob_outByTx = [], ob_setByTxId = [], ob_seenOutflow = {}, ob_upgraded = [], ob_coverageStart = None \<rparr>"

definition open_observations :: "json list \<Rightarrow> record_error + observation_store" where
  "open_observations log =
     bindR (decode_all (\<lambda>j. decodeObservation (Some j)) log) (\<lambda>recs.
       Inr \<lparr> os_log = log, os_obs = fold index_observation recs newObservations \<rparr>)"

definition append_observation :: "observation \<Rightarrow> append_fate \<Rightarrow> observation_store \<Rightarrow> bool \<times> observation_store" where
  "append_observation r fate s =
     (let s' = s\<lparr> os_log := os_log s @ [encodeObservation r] \<rparr> in
      logged fate s s' (s'\<lparr> os_obs := index_observation r (os_obs s) \<rparr>))"

definition recordOutflow :: "outflow_event \<Rightarrow> append_fate \<Rightarrow> observation_store \<Rightarrow> bool \<times> observation_store" where
  "recordOutflow e fate s =
     (if outflow_key e \<in> ob_seenOutflow (os_obs s) then (True, s) else append_observation (ObsOut e) fate s)"

definition recordSettlement_obs :: "settlement_observation \<Rightarrow> append_fate \<Rightarrow> observation_store \<Rightarrow> bool \<times> observation_store" where
  "recordSettlement_obs x fate s =
     (if has_key (ob_setByTxId (os_obs s)) (so_txIdHex x) then (True, s) else append_observation (ObsSet x) fate s)"

definition recordUpgrade :: "pool_upgrade \<Rightarrow> append_fate \<Rightarrow> observation_store \<Rightarrow> bool \<times> observation_store" where
  "recordUpgrade u fate s =
     (if list_ex (\<lambda>x. pu_txHash x = pu_txHash u) (ob_upgraded (os_obs s)) then (True, s)
      else append_observation (ObsUpg u) fate s)"

definition recordCoverageStart :: "int \<Rightarrow> append_fate \<Rightarrow> observation_store \<Rightarrow> bool \<times> observation_store" where
  "recordCoverageStart unix fate s =
     (case ob_coverageStart (os_obs s) of
        Some c \<Rightarrow> if unix \<le> c then (True, s) else append_observation (ObsCov unix) fate s
      | None \<Rightarrow> append_observation (ObsCov unix) fate s)"

definition settlementByTxId :: "observations \<Rightarrow> ustring \<Rightarrow> settlement_observation option" where
  "settlementByTxId ob txIdHex = map_of (ob_setByTxId ob) txIdHex"

subsection \<open>The authorised hashes\<close>

record authorized_journal =
  aj_log :: "json list"
  aj_byOrder :: "(ustring, ustring \<times> ustring) jsmap"
  aj_hashes :: "ustring set"

definition index_authorized :: "authorized_record \<Rightarrow> authorized_journal \<Rightarrow> authorized_journal" where
  "index_authorized r j =
     j\<lparr> aj_byOrder := AList.update (az_orderId r) (az_hashHex r, az_signedXdr r) (aj_byOrder j),
        aj_hashes := insert (az_hashHex r) (aj_hashes j) \<rparr>"

definition open_authorized :: "json list \<Rightarrow> record_error + authorized_journal" where
  "open_authorized log =
     bindR (decode_all (\<lambda>j. decodeAuthorizedRecord (Some j)) log) (\<lambda>recs.
       Inr (fold index_authorized recs \<lparr> aj_log = log, aj_byOrder = [], aj_hashes = {} \<rparr>))"

definition file_persistPreSubmit :: "authorized_record \<Rightarrow> append_fate \<Rightarrow> authorized_journal \<Rightarrow> bool \<times> authorized_journal" where
  "file_persistPreSubmit r fate j =
     (let j' = j\<lparr> aj_log := aj_log j @ [encodeAuthorizedRecord r] \<rparr> in logged fate j j' (index_authorized r j'))"

definition file_loadPersisted :: "ustring \<Rightarrow> authorized_journal \<Rightarrow> (ustring \<times> ustring) option" where
  "file_loadPersisted orderId j = map_of (aj_byOrder j) orderId"

section \<open>The verdict, outflow-worker.ts\<close>

record outflow_verdict =
  ov_rogue :: "suspect list"
  ov_newSuspects :: "suspect list"
  ov_cleared :: "ustring list"
  ov_pending :: "suspect list"

definition suspect_of :: "outflow_event \<Rightarrow> suspect" where
  "suspect_of e = \<lparr> su_txHash = oe_txHash e, su_firstSeenLedgerCloseUnix = oe_ledgerCloseUnix e, su_ledger = oe_ledger e,
     su_amountStroops = oe_amountStroops e, su_to = oe_to e, su_alarmed = False \<rparr>"

fun judge_events ::
    "(ustring \<Rightarrow> bool) \<Rightarrow> outflow_event list \<Rightarrow> (ustring, suspect) jsmap \<Rightarrow> suspect list \<times> (ustring, suspect) jsmap" where
  "judge_events isAuthorized [] tracked = ([], tracked)"
| "judge_events isAuthorized (e # es) tracked =
     (if isAuthorized (oe_txHash e) then judge_events isAuthorized es tracked
      else if has_key tracked (oe_txHash e) then judge_events isAuthorized es tracked
      else let (new, tracked) = judge_events isAuthorized es (AList.update (oe_txHash e) (suspect_of e) tracked) in
        (suspect_of e # new, tracked))"

definition judgeOutflows ::
    "outflow_event list \<Rightarrow> suspect list \<Rightarrow> (ustring \<Rightarrow> bool) \<Rightarrow> int \<Rightarrow> int \<Rightarrow> outflow_verdict" where
  "judgeOutflows events priorSuspects isAuthorized latestLedgerCloseUnix graceSecs =
     (let tracked = fold (\<lambda>s. AList.update (su_txHash s) s) priorSuspects [];
          (newSuspects, tracked) = judge_events isAuthorized events tracked;
          escalates = (\<lambda>s. \<not> su_alarmed s \<and> latestLedgerCloseUnix - su_firstSeenLedgerCloseUnix s \<ge> graceSecs);
          open = filter (\<lambda>s. \<not> isAuthorized (su_txHash s)) (map snd tracked) in
      \<lparr> ov_rogue = map (\<lambda>s. s\<lparr> su_alarmed := True \<rparr>) (filter escalates open),
        ov_newSuspects = newSuspects,
        ov_cleared = map su_txHash (filter (\<lambda>s. isAuthorized (su_txHash s)) (map snd tracked)),
        ov_pending = filter (\<lambda>s. \<not> escalates s) open \<rparr>)"

section \<open>The tick\<close>

record tail_deps =
  td_latestLedger :: "int option"
  td_fetch :: "pool_fetch \<Rightarrow> pool_activity option"
  td_authorized :: "ustring \<Rightarrow> bool"
  td_graceSecs :: int
  td_coldStartMarginLedgers :: int
  td_nowUnix :: int
  td_append :: "nat \<Rightarrow> append_fate"

record tail_state =
  ts_cursor :: cursor_store
  ts_suspects :: suspect_store
  ts_obs :: observation_store

datatype tail_report =
    Scanned nat nat "pool_upgrade list" "suspect list" nat nat nat int "int option"
  | BlindSpot int int int
  | Stalled ustring

datatype tail_error = TailRpcThrew | TailDurable

definition toidAtLedger :: "int \<Rightarrow> ustring" where
  "toidAtLedger ledger =
     (let toid = bigint_str (or (push_bit 32 ledger) 0xFFFFFFFF) in
      lit (replicate (19 - length toid) CHR ''0'' @ toid @ ''-4294967295''))"

text \<open>The durable writes of a tick, in order; the first one that fails ends it. A write is given its own fate.\<close>

type_synonym durable_write = "append_fate \<Rightarrow> tail_state \<Rightarrow> bool \<times> tail_state"

fun run_writes :: "(nat \<Rightarrow> append_fate) \<Rightarrow> nat \<Rightarrow> durable_write list \<Rightarrow> tail_state \<Rightarrow> bool \<times> tail_state" where
  "run_writes fates n [] s = (True, s)"
| "run_writes fates n (wr # wrs) s =
     (case wr (fates n) s of (False, s) \<Rightarrow> (False, s) | (True, s) \<Rightarrow> run_writes fates (n + 1) wrs s)"

definition on_obs :: "(append_fate \<Rightarrow> observation_store \<Rightarrow> bool \<times> observation_store) \<Rightarrow> durable_write" where
  "on_obs f fate s = (let (ok, x) = f fate (ts_obs s) in (ok, s\<lparr> ts_obs := x \<rparr>))"

definition on_suspects :: "(append_fate \<Rightarrow> suspect_store \<Rightarrow> bool \<times> suspect_store) \<Rightarrow> durable_write" where
  "on_suspects f fate s = (let (ok, x) = f fate (ts_suspects s) in (ok, s\<lparr> ts_suspects := x \<rparr>))"

definition on_cursor :: "(append_fate \<Rightarrow> cursor_store \<Rightarrow> bool \<times> cursor_store) \<Rightarrow> durable_write" where
  "on_cursor f fate s = (let (ok, x) = f fate (ts_cursor s) in (ok, s\<lparr> ts_cursor := x \<rparr>))"

definition page_writes :: "pool_page \<Rightarrow> outflow_verdict \<Rightarrow> durable_write list" where
  "page_writes page verdict =
     map (\<lambda>e. on_obs (recordOutflow e)) (pp_outflows page)
     @ map (\<lambda>x. on_obs (recordSettlement_obs x)) (pp_settlements page)
     @ map (\<lambda>u. on_obs (recordUpgrade u)) (pp_upgrades page)
     @ map (\<lambda>su. on_suspects (record_suspect su)) (ov_newSuspects verdict)
     @ map (\<lambda>su. on_suspects (markAlarmed (su_txHash su))) (ov_rogue verdict)
     @ map (\<lambda>h. on_suspects (tombstone h)) (ov_cleared verdict)
     @ [on_cursor (save_cursor (pp_cursor page))]"

text \<open>Scanning a page. The verdict is taken after the observations are written and before the suspects are.\<close>

definition verdict_of :: "tail_deps \<Rightarrow> pool_page \<Rightarrow> tail_state \<Rightarrow> outflow_verdict" where
  "verdict_of D page s =
     judgeOutflows (pp_outflows page) (all_suspects (ts_suspects s)) (td_authorized D) (pp_latestLedgerCloseUnix page) (td_graceSecs D)"

definition scan_page :: "tail_deps \<Rightarrow> int option \<Rightarrow> pool_page \<Rightarrow> tail_state \<Rightarrow> (tail_error + tail_report) \<times> tail_state" where
  "scan_page D coldStart page s =
     (let verdict = verdict_of D page s in
      case run_writes (td_append D) 1 (page_writes page verdict) s of
        (False, s) \<Rightarrow> (Inl TailDurable, s)
      | (True, s) \<Rightarrow> (Inr (Scanned (length (pp_outflows page)) (length (pp_settlements page)) (pp_upgrades page) (ov_rogue verdict)
          (length (ov_newSuspects verdict)) (length (ov_cleared verdict)) (length (ov_pending verdict)) (pp_latestLedger page) coldStart), s))"

definition handle_activity ::
    "tail_deps \<Rightarrow> int option \<Rightarrow> pool_activity \<Rightarrow> tail_state \<Rightarrow> (tail_error + tail_report) \<times> tail_state" where
  "handle_activity D coldStart activity s =
     (case activity of
        RpcUnavailable reason \<Rightarrow> (Inr (Stalled reason), s)
      | CursorBelowRetention cursorLedger oldestLedger latestLedger \<Rightarrow>
          (case run_writes (td_append D) 1 [on_obs (recordCoverageStart (td_nowUnix D)),
                  on_cursor (save_cursor (toidAtLedger (max 1 (latestLedger - 1))))] s of
             (False, s) \<Rightarrow> (Inl TailDurable, s)
           | (True, s) \<Rightarrow> (Inr (BlindSpot cursorLedger oldestLedger latestLedger), s))
      | Page page \<Rightarrow> scan_page D coldStart page s)"

definition tailOutflows :: "tail_deps \<Rightarrow> tail_state \<Rightarrow> (tail_error + tail_report) \<times> tail_state" where
  "tailOutflows D s =
     (case cu_current (ts_cursor s) of
        None \<Rightarrow>
          (case td_latestLedger D of
             None \<Rightarrow> (Inl TailRpcThrew, s)
           | Some head \<Rightarrow>
               let coldStartFromLedger = max 1 (head - td_coldStartMarginLedgers D) in
               (case run_writes (td_append D) 0 [on_obs (recordCoverageStart (td_nowUnix D))] s of
                  (False, s) \<Rightarrow> (Inl TailDurable, s)
                | (True, s) \<Rightarrow>
                    (case td_fetch D (FromLedger coldStartFromLedger) of
                       None \<Rightarrow> (Inl TailRpcThrew, s)
                     | Some activity \<Rightarrow> handle_activity D (Some coldStartFromLedger) activity s)))
      | Some saved \<Rightarrow>
          (case td_fetch D (FromCursor saved) of
             None \<Rightarrow> (Inl TailRpcThrew, s)
           | Some activity \<Rightarrow> handle_activity D None activity s))"

section \<open>Stores that replay their log\<close>

text \<open>A store whose memory is the fold of its log. What is on disk can always be read back, and reading it back gives what
  the memory held.\<close>

locale replayed_log = codec "\<lambda>r. Some (enc r)" dec storable
    for enc :: "'a \<Rightarrow> json" and dec :: "json option \<Rightarrow> record_error + 'a" and storable :: "'a \<Rightarrow> bool" +
  fixes app :: "'a \<Rightarrow> 'm \<Rightarrow> 'm" and init :: 'm
begin

definition on_disk :: "json list \<Rightarrow> 'a list \<Rightarrow> bool" where
  "on_disk log recs \<longleftrightarrow> log = map enc recs \<and> list_all storable recs"

definition replayed :: "'a list \<Rightarrow> 'm" where
  "replayed recs = fold app recs init"

lemma reads_back: "on_disk log recs \<Longrightarrow> decode_all (\<lambda>j. dec (Some j)) log = Inr recs"
proof -
  assume d: "on_disk log recs"
  have "map (\<lambda>j. dec (Some j)) log = map Inr recs"
    using d by (auto simp: on_disk_def list_all_iff decode_encode)
  then show ?thesis by (rule decode_all_map)
qed

lemma on_disk_snoc: "on_disk log recs \<Longrightarrow> storable r \<Longrightarrow> on_disk (log @ [enc r]) (recs @ [r])"
  by (simp add: on_disk_def)

lemma replayed_snoc [simp]: "replayed (recs @ [r]) = app r (replayed recs)"
  by (simp add: replayed_def)

lemma on_disk_Nil: "on_disk [] []"
  by (simp add: on_disk_def)

end

interpretation cases: replayed_log encodeSuspect decodeSuspect storable_suspect apply_suspect "[]"
  by unfold_locales

interpretation seen: replayed_log encodeObservation decodeObservation storable_observation index_observation newObservations
  by unfold_locales

interpretation sent: replayed_log encodeAuthorizedRecord decodeAuthorizedRecord storable_authorized index_authorized
    "\<lparr> aj_log = [], aj_byOrder = [], aj_hashes = {} \<rparr>"
  by unfold_locales

text \<open>Two transfers of one transaction with the same receiver and amount have one key: the second is taken for a re-read page.\<close>

lemma twin_transfer_counted_once:
  "outflowStroopsByTx (index_observation (ObsOut e) (index_observation (ObsOut e) newObservations)) (oe_txHash e) = oe_amountStroops e"
  by (simp add: index_observation_def newObservations_def outflowStroopsByTx_def)

section \<open>The open cases\<close>

definition casebook :: "(ustring, suspect) jsmap \<Rightarrow> bool" where
  "casebook m \<longleftrightarrow> distinct (map fst m) \<and> (\<forall>h s. map_of m h = Some s \<longrightarrow> su_txHash s = h)"

lemma casebook_Nil: "casebook []"
  by (simp add: casebook_def)

lemma casebook_update: "casebook m \<Longrightarrow> su_txHash s = h \<Longrightarrow> casebook (AList.update h s m)"
  by (simp add: casebook_def distinct_update)

lemma casebook_delete: "casebook m \<Longrightarrow> casebook (AList.delete h m)"
  by (auto simp: casebook_def intro: distinct_delete split: if_splits)

lemma casebook_alarm: "casebook m \<Longrightarrow> map_of m h = Some s \<Longrightarrow> casebook (AList.update h (s\<lparr> su_alarmed := True \<rparr>) m)"
  by (rule casebook_update) (simp_all add: casebook_def)

lemma casebook_apply: "casebook m \<Longrightarrow> casebook (apply_suspect r m)"
  by (cases r) (simp_all add: apply_suspect_def casebook_update casebook_delete casebook_alarm split: option.split)

lemma casebook_replayed: "casebook (cases.replayed recs)"
  by (induction recs rule: rev_induct) (simp_all add: cases.replayed_def casebook_Nil casebook_apply)

text \<open>Reading the cases into a map by hash, as the verdict does, changes nothing.\<close>

lemma tracked_same:
  assumes "casebook m"
  shows "fold (\<lambda>s. AList.update (su_txHash s) s) (map snd m) [] = m"
proof -
  have "fold (\<lambda>s. AList.update (su_txHash s) s) (map snd m) acc = acc @ m"
    if "distinct (map fst (acc @ m))" "\<forall>(h, s) \<in> set m. su_txHash s = h" for acc
    using that
  proof (induction m arbitrary: acc)
    case (Cons x m)
    have "AList.update (su_txHash (snd x)) (snd x) acc = acc @ [x]"
      using Cons.prems by (subst update_absent) (auto split: prod.splits)
    with Cons.IH [of "acc @ [x]"] Cons.prems show ?case by simp
  qed simp
  from this [of "[]"] assms show ?thesis by (simp add: casebook_def case_prod_unfold)
qed

text \<open>The cases of hashes outside \<open>A\<close> stay open, and stay alarmed.\<close>

definition keeps_cases :: "(ustring \<Rightarrow> bool) \<Rightarrow> (ustring, suspect) jsmap \<Rightarrow> (ustring, suspect) jsmap \<Rightarrow> bool" where
  "keeps_cases A m m' \<longleftrightarrow> (\<forall>h s. \<not> A h \<longrightarrow> map_of m h = Some s \<longrightarrow> (\<exists>s'. map_of m' h = Some s' \<and> (su_alarmed s \<longrightarrow> su_alarmed s')))"

lemma keeps_cases_refl: "keeps_cases A m m"
  by (simp add: keeps_cases_def)

lemma keeps_cases_trans: "keeps_cases A m m1 \<Longrightarrow> keeps_cases A m1 m2 \<Longrightarrow> keeps_cases A m m2"
  by (fastforce simp: keeps_cases_def)

lemma keeps_cases_apply:
  "(\<And>h. r = SuCleared h \<Longrightarrow> A h) \<Longrightarrow> keeps_cases A m (apply_suspect r m)"
  by (cases r) (auto simp: apply_suspect_def keeps_cases_def has_key_def split: option.split)

section \<open>The writes of a tick\<close>

text \<open>The disk holds \<open>recs\<close> and, in a living process, the memory is their replay.\<close>

definition stored :: "bool \<Rightarrow> suspect_record list \<Rightarrow> tail_state \<Rightarrow> bool" where
  "stored up recs s \<longleftrightarrow> cases.on_disk (ss_log (ts_suspects s)) recs \<and> (up \<longrightarrow> ss_open (ts_suspects s) = cases.replayed recs)"

definition safe_write :: "(ustring \<Rightarrow> bool) \<Rightarrow> durable_write \<Rightarrow> bool" where
  "safe_write A wr \<longleftrightarrow> (\<forall>fate s recs ok s'. stored True recs s \<longrightarrow> wr fate s = (ok, s') \<longrightarrow>
     (\<exists>recs'. stored ok recs' s' \<and> keeps_cases A (cases.replayed recs) (cases.replayed recs')))"

lemma safe_writeD:
  "safe_write A wr \<Longrightarrow> stored True recs s \<Longrightarrow> wr fate s = (ok, s') \<Longrightarrow>
     \<exists>recs'. stored ok recs' s' \<and> keeps_cases A (cases.replayed recs) (cases.replayed recs')"
  by (auto simp: safe_write_def)

text \<open>Writes elsewhere, and the three writes of the suspects.\<close>

lemma elsewhere_safe: "(\<And>fate s. ts_suspects (snd (wr fate s)) = ts_suspects s) \<Longrightarrow> safe_write A wr"
  unfolding safe_write_def stored_def by (metis keeps_cases_refl snd_conv)

lemma on_obs_safe: "safe_write A (on_obs f)"
  by (rule elsewhere_safe) (simp add: on_obs_def split: prod.split)

lemma on_cursor_safe: "safe_write A (on_cursor f)"
  by (rule elsewhere_safe) (simp add: on_cursor_def split: prod.split)

text \<open>A write that is skipped, or logs the storable record \<open>r\<close> and applies it.\<close>

lemma logs_safe:
  assumes f: "\<And>fate x. f fate x = (True, x) \<or> f fate x = logged fate x (x\<lparr> ss_log := ss_log x @ [encodeSuspect r] \<rparr>)
      (x\<lparr> ss_log := ss_log x @ [encodeSuspect r], ss_open := apply_suspect r (ss_open x) \<rparr>)"
    and r: "storable_suspect r" "\<And>h. r = SuCleared h \<Longrightarrow> A h"
  shows "safe_write A (on_suspects f)"
  unfolding safe_write_def
proof (intro allI impI)
  fix fate s recs ok s'
  assume s: "stored True recs s" and wr: "on_suspects f fate s = (ok, s')"
  have keep: "keeps_cases A (cases.replayed recs) (cases.replayed (recs @ [r]))"
    using r(2) by (simp add: keeps_cases_apply)
  consider "f fate (ts_suspects s) = (True, ts_suspects s)"
    | "f fate (ts_suspects s) = logged fate (ts_suspects s) (ts_suspects s\<lparr> ss_log := ss_log (ts_suspects s) @ [encodeSuspect r] \<rparr>)
        (ts_suspects s\<lparr> ss_log := ss_log (ts_suspects s) @ [encodeSuspect r], ss_open := apply_suspect r (ss_open (ts_suspects s)) \<rparr>)"
    using f by blast
  then show "\<exists>recs'. stored ok recs' s' \<and> keeps_cases A (cases.replayed recs) (cases.replayed recs')"
  proof cases
    case 1
    with wr s show ?thesis by (auto simp: on_suspects_def intro: keeps_cases_refl)
  next
    case 2
    have d: "cases.on_disk (ss_log (ts_suspects s) @ [encodeSuspect r]) (recs @ [r])"
      using s r(1) by (auto simp: stored_def intro: cases.on_disk_snoc)
    show ?thesis
    proof (cases fate)
      case AppendLost
      with 2 wr s show ?thesis by (auto simp: on_suspects_def logged_def stored_def intro: keeps_cases_refl)
    next
      case Appended
      with 2 wr s d keep show ?thesis by (intro exI [of _ "recs @ [r]"]) (auto simp: on_suspects_def logged_def stored_def)
    next
      case AppendKept
      with 2 wr s d keep show ?thesis by (intro exI [of _ "recs @ [r]"]) (auto simp: on_suspects_def logged_def stored_def)
    qed
  qed
qed

lemma record_safe: "storable_suspect (SuSeen su) \<Longrightarrow> safe_write A (on_suspects (record_suspect su))"
  by (rule logs_safe [where r = "SuSeen su"]) (auto simp: record_suspect_def Let_def apply_suspect_def)

lemma alarm_safe: "h \<noteq> [] \<Longrightarrow> safe_write A (on_suspects (markAlarmed h))"
  by (rule logs_safe [where r = "SuAlarmed h"])
    (auto simp: markAlarmed_def Let_def apply_suspect_def split: option.split)

lemma tombstone_safe: "h \<noteq> [] \<Longrightarrow> A h \<Longrightarrow> safe_write A (on_suspects (tombstone h))"
  by (rule logs_safe [where r = "SuCleared h"]) (auto simp: tombstone_def Let_def apply_suspect_def)

lemma run_writes_safe:
  "list_all (safe_write A) wrs \<Longrightarrow> stored True recs s \<Longrightarrow> run_writes fates n wrs s = (ok, s') \<Longrightarrow>
     \<exists>recs'. stored ok recs' s' \<and> keeps_cases A (cases.replayed recs) (cases.replayed recs')"
proof (induction wrs arbitrary: n recs s)
  case Nil
  then show ?case by (auto intro: keeps_cases_refl)
next
  case (Cons wr wrs)
  obtain ok1 s1 where wr: "wr (fates n) s = (ok1, s1)" by fastforce
  from safe_writeD [where A = A and wr = wr and fate = "fates n", OF _ Cons.prems(2) wr] Cons.prems(1) obtain recs1
    where r1: "stored ok1 recs1 s1" "keeps_cases A (cases.replayed recs) (cases.replayed recs1)" by auto
  show ?case
  proof (cases ok1)
    case False
    with wr r1 Cons.prems(3) show ?thesis by auto
  next
    case True
    with wr Cons.prems(3) have "run_writes fates (n + 1) wrs s1 = (ok, s')" by simp
    from Cons.IH [OF _ _ this] r1 True Cons.prems(1) show ?thesis by (auto intro: keeps_cases_trans)
  qed
qed

section \<open>The verdict\<close>

text \<open>What the loop over the events does: one new case for each unauthorised hash without one, appended to the map.\<close>

lemma judge_events_spec:
  "judge_events auth es m = (new, m') \<Longrightarrow>
     m' = m @ map (\<lambda>s. (su_txHash s, s)) new \<and> distinct (map su_txHash new) \<and> su_txHash ` set new \<inter> fst ` set m = {}
     \<and> (\<forall>s \<in> set new. \<exists>e \<in> set es. s = suspect_of e \<and> \<not> auth (oe_txHash e))
     \<and> (\<forall>e \<in> set es. auth (oe_txHash e) \<or> oe_txHash e \<in> fst ` set m')"
proof (induction es arbitrary: m new m')
  case (Cons e es)
  show ?case
  proof (cases "auth (oe_txHash e) \<or> has_key m (oe_txHash e)")
    case True
    with Cons.prems have "judge_events auth es m = (new, m')" by (auto split: if_splits)
    from Cons.IH [OF this] True show ?thesis by (auto simp: has_key_iff)
  next
    case False
    let ?m = "AList.update (oe_txHash e) (suspect_of e) m"
    have m: "?m = m @ [(oe_txHash e, suspect_of e)]" using False by (intro update_absent) (simp add: has_key_iff)
    obtain new1 where new1: "judge_events auth es ?m = (new1, m')" "new = suspect_of e # new1"
      using Cons.prems False by (auto split: prod.splits)
    from Cons.IH [OF new1(1)] False show ?thesis
      unfolding m new1(2) by (auto simp: has_key_iff suspect_of_def)
  qed
qed auto

text \<open>The verdict on a page, with the cases open before it: the new cases are those of the page, only authorised hashes are
  cleared, and a hash is accused only when it has a case that is not alarmed and is not authorised.\<close>

lemma verdict_spec:
  fixes es auth close grace
  assumes m: "casebook m" and v: "v = judgeOutflows es (map snd m) auth close grace"
  shows "\<forall>s \<in> set (ov_newSuspects v). \<exists>e \<in> set es. s = suspect_of e \<and> \<not> auth (oe_txHash e)"
    and "\<forall>e \<in> set es. auth (oe_txHash e) \<or> has_key m (oe_txHash e) \<or> oe_txHash e \<in> su_txHash ` set (ov_newSuspects v)"
    and "\<forall>h \<in> set (ov_cleared v). auth h \<and> has_key m h"
    and "distinct (map su_txHash (ov_rogue v))"
    and "\<forall>s \<in> set (ov_rogue v). \<not> auth (su_txHash s)
      \<and> (\<exists>s0. (map_of m (su_txHash s) = Some s0 \<or> \<not> has_key m (su_txHash s) \<and> s0 \<in> set (ov_newSuspects v) \<and> su_txHash s0 = su_txHash s)
           \<and> \<not> su_alarmed s0 \<and> grace \<le> close - su_firstSeenLedgerCloseUnix s0)"
proof -
  obtain new m' where j: "judge_events auth es m = (new, m')" by fastforce
  note sp = judge_events_spec [OF j]
  have new: "ov_newSuspects v = new" and cl: "ov_cleared v = map su_txHash (filter (\<lambda>s. auth (su_txHash s)) (map snd m'))"
    and rg: "ov_rogue v = map (\<lambda>s. s\<lparr> su_alarmed := True \<rparr>) (filter (\<lambda>s. \<not> su_alarmed s \<and> close - su_firstSeenLedgerCloseUnix s \<ge> grace)
      (filter (\<lambda>s. \<not> auth (su_txHash s)) (map snd m')))"
    unfolding v judgeOutflows_def Let_def tracked_same [OF m] j by simp_all
  have keys: "fst ` set m' = fst ` set m \<union> su_txHash ` set new" using sp by (simp add: image_Un image_image)
  show "\<forall>s \<in> set (ov_newSuspects v). \<exists>e \<in> set es. s = suspect_of e \<and> \<not> auth (oe_txHash e)" using sp new by simp
  show "\<forall>e \<in> set es. auth (oe_txHash e) \<or> has_key m (oe_txHash e) \<or> oe_txHash e \<in> su_txHash ` set (ov_newSuspects v)"
    using sp keys by (auto simp: has_key_iff new)
  show "\<forall>h \<in> set (ov_cleared v). auth h \<and> has_key m h"
  proof
    fix h assume "h \<in> set (ov_cleared v)"
    then obtain k s where s: "(k, s) \<in> set m'" "auth (su_txHash s)" "h = su_txHash s" unfolding cl by auto
    then have "(k, s) \<in> set m" using sp by (auto simp: suspect_of_def)
    with m s show "auth h \<and> has_key m h" by (force simp: casebook_def has_key_iff)
  qed
  have key: "map su_txHash (map snd m') = map fst m'"
    using m sp by (auto simp: casebook_def o_def)
  have "distinct (map fst m')" using m sp by (auto simp: casebook_def o_def)
  then have dist: "distinct (map su_txHash (map snd m'))" by (simp only: key)
  show "distinct (map su_txHash (ov_rogue v))"
    using distinct_map_filter [OF dist, of "\<lambda>s. (\<not> su_alarmed s \<and> close - su_firstSeenLedgerCloseUnix s \<ge> grace) \<and> \<not> auth (su_txHash s)"]
    by (simp add: rg o_def conj_commute)
  show "\<forall>s \<in> set (ov_rogue v). \<not> auth (su_txHash s)
      \<and> (\<exists>s0. (map_of m (su_txHash s) = Some s0 \<or> \<not> has_key m (su_txHash s) \<and> s0 \<in> set (ov_newSuspects v) \<and> su_txHash s0 = su_txHash s)
           \<and> \<not> su_alarmed s0 \<and> grace \<le> close - su_firstSeenLedgerCloseUnix s0)"
  proof
    fix s assume "s \<in> set (ov_rogue v)"
    then obtain s0 h where s0: "(h, s0) \<in> set m'" "s = s0\<lparr> su_alarmed := True \<rparr>" "\<not> auth (su_txHash s0)" "\<not> su_alarmed s0"
      "grace \<le> close - su_firstSeenLedgerCloseUnix s0" unfolding rg by auto
    then have "map_of m (su_txHash s) = Some s0 \<or> \<not> has_key m (su_txHash s) \<and> s0 \<in> set new"
      using sp m by (auto simp: casebook_def has_key_iff)
    with s0 new show "\<not> auth (su_txHash s) \<and> (\<exists>s0. (map_of m (su_txHash s) = Some s0 \<or> \<not> has_key m (su_txHash s) \<and> s0 \<in> set (ov_newSuspects v) \<and> su_txHash s0 = su_txHash s)
           \<and> \<not> su_alarmed s0 \<and> grace \<le> close - su_firstSeenLedgerCloseUnix s0)" by auto
  qed
qed

section \<open>A tick that checkpoints has accounted for its page\<close>

lemma run_writes_append:
  "run_writes fates n (xs @ ys) s =
     (case run_writes fates n xs s of (False, s) \<Rightarrow> (False, s) | (True, s) \<Rightarrow> run_writes fates (n + length xs) ys s)"
  by (induction xs arbitrary: n s) (auto split: prod.splits bool.splits)

definition stable :: "(ustring \<Rightarrow> bool) \<Rightarrow> ((ustring, suspect) jsmap \<Rightarrow> bool) \<Rightarrow> bool" where
  "stable A G \<longleftrightarrow> (\<forall>m m'. keeps_cases A m m' \<longrightarrow> G m \<longrightarrow> G m')"

lemma stable_open: "\<not> A h \<Longrightarrow> stable A (\<lambda>m. has_key m h)"
  by (auto simp: stable_def keeps_cases_def has_key_def)

lemma stable_alarmed: "\<not> A h \<Longrightarrow> stable A (\<lambda>m. \<exists>s. map_of m h = Some s \<and> su_alarmed s)"
  by (fastforce simp: stable_def keeps_cases_def)

text \<open>What one write achieves, from a condition no later write undoes, holds at the end.\<close>

lemma run_writes_achieve:
  assumes "list_all (safe_write A) wrs" "wr \<in> set wrs" "stored True recs s" "run_writes fates n wrs s = (True, s')"
    and "Pre (ss_open (ts_suspects s))" and Pre: "stable A Pre" and G: "stable A G"
    and wr: "\<And>fate s s'. Pre (ss_open (ts_suspects s)) \<Longrightarrow> wr fate s = (True, s') \<Longrightarrow> G (ss_open (ts_suspects s'))"
  shows "G (ss_open (ts_suspects s'))"
  using assms(1-5)
proof (induction wrs arbitrary: n recs s)
  case (Cons w wrs)
  obtain s1 where w: "w (fates n) s = (True, s1)" and rest: "run_writes fates (n + 1) wrs s1 = (True, s')"
    using Cons.prems(4) by (auto split: prod.splits bool.splits)
  from safe_writeD [where A = A and wr = w and fate = "fates n", OF _ Cons.prems(3) w] Cons.prems(1) obtain recs1
    where r1: "stored True recs1 s1" "keeps_cases A (cases.replayed recs) (cases.replayed recs1)" by auto
  then have keep: "keeps_cases A (ss_open (ts_suspects s)) (ss_open (ts_suspects s1))"
    using Cons.prems(3) by (simp add: stored_def)
  show ?case
  proof (cases "wr = w")
    case True
    have "G (ss_open (ts_suspects s1))" using wr [OF Cons.prems(5)] w True by blast
    moreover from run_writes_safe [OF _ r1(1) rest, of A] Cons.prems(1) obtain recs2
      where "stored True recs2 s'" "keeps_cases A (cases.replayed recs1) (cases.replayed recs2)" by auto
    ultimately show ?thesis using G r1(1) by (auto simp: stable_def stored_def)
  next
    case False
    have "Pre (ss_open (ts_suspects s1))" using Pre keep Cons.prems(5) by (auto simp: stable_def)
    with Cons.IH [OF _ _ r1(1) rest] Cons.prems(1,2) False show ?thesis by auto
  qed
qed simp

lemma record_opens: "on_suspects (record_suspect su) fate s = (True, s') \<Longrightarrow> has_key (ss_open (ts_suspects s')) (su_txHash su)"
  by (auto simp: on_suspects_def record_suspect_def logged_def Let_def has_key_def split: if_splits append_fate.splits)

lemma markAlarmed_alarms:
  "has_key (ss_open (ts_suspects s)) h \<Longrightarrow> on_suspects (markAlarmed h) fate s = (True, s') \<Longrightarrow>
     \<exists>su. map_of (ss_open (ts_suspects s')) h = Some su \<and> su_alarmed su"
  by (auto simp: on_suspects_def markAlarmed_def logged_def Let_def has_key_def split: if_splits append_fate.splits option.splits)

text \<open>The writes before the checkpoint, and which of them leave it alone.\<close>

definition open_writes :: "pool_page \<Rightarrow> outflow_verdict \<Rightarrow> durable_write list" where
  "open_writes page v = map (\<lambda>e. on_obs (recordOutflow e)) (pp_outflows page) @ map (\<lambda>x. on_obs (recordSettlement_obs x)) (pp_settlements page)
     @ map (\<lambda>u. on_obs (recordUpgrade u)) (pp_upgrades page) @ map (\<lambda>su. on_suspects (record_suspect su)) (ov_newSuspects v)"

definition close_writes :: "outflow_verdict \<Rightarrow> durable_write list" where
  "close_writes v = map (\<lambda>su. on_suspects (markAlarmed (su_txHash su))) (ov_rogue v) @ map (\<lambda>h. on_suspects (tombstone h)) (ov_cleared v)"

lemma page_writes_split: "page_writes page v = (open_writes page v @ close_writes v) @ [on_cursor (save_cursor (pp_cursor page))]"
  by (simp add: page_writes_def open_writes_def close_writes_def)

lemma keeps_cursor:
  "\<forall>wr \<in> set wrs. \<exists>f g. wr = on_obs f \<or> wr = on_suspects g \<Longrightarrow> run_writes fates n wrs s = (ok, s') \<Longrightarrow> ts_cursor s' = ts_cursor s"
proof (induction wrs arbitrary: n s)
  case (Cons w wrs)
  obtain ok1 s1 where w: "w (fates n) s = (ok1, s1)" by fastforce
  have "ts_cursor s1 = ts_cursor s"
    using Cons.prems(1) w by (auto simp: on_obs_def on_suspects_def split: prod.splits)
  with Cons.IH [of "n + 1" s1] Cons.prems w show ?case by (cases ok1) auto
qed simp

lemma before_checkpoint: "wr \<in> set (open_writes page v @ close_writes v) \<Longrightarrow> \<exists>f g. wr = on_obs f \<or> wr = on_suspects g"
  by (auto simp: open_writes_def close_writes_def)

lemma replayed_named: "list_all storable_suspect recs \<Longrightarrow> has_key (cases.replayed recs) h \<Longrightarrow> h \<noteq> []"
proof (induction recs rule: rev_induct)
  case (snoc r recs)
  have "has_key (apply_suspect r m) h \<Longrightarrow> has_key m h \<or> (\<exists>su. r = SuSeen su \<and> h = su_txHash su)" for m
    by (cases r) (auto simp: apply_suspect_def has_key_def split: option.splits if_splits)
  from this [of "cases.replayed recs"] snoc show ?case by auto
qed (simp add: cases.replayed_def has_key_def)

lemma page_writes_safe:
  assumes s: "stored True recs s" and v: "v = verdict_of D page s" and ev: "list_all storable_outflow (pp_outflows page)"
  shows "list_all (safe_write (td_authorized D)) (open_writes page v @ close_writes v)"
proof -
  have m: "casebook (ss_open (ts_suspects s))" using s by (simp add: stored_def casebook_replayed)
  note sp = verdict_spec [OF m v [unfolded verdict_of_def all_suspects_def]]
  have named: "has_key (ss_open (ts_suspects s)) h \<Longrightarrow> h \<noteq> []" for h
    using s replayed_named [of recs h] by (simp add: stored_def cases.on_disk_def)
  have new: "storable_suspect (SuSeen su)" if "su \<in> set (ov_newSuspects v)" for su
    using sp(1) that ev by (fastforce simp: suspect_of_def list_all_iff storable_outflow_def)
  have rogue: "su_txHash su \<noteq> []" if "su \<in> set (ov_rogue v)" for su
    using sp(5) that named new by (fastforce simp: has_key_def)
  have "safe_write (td_authorized D) (on_suspects (tombstone h))" if "h \<in> set (ov_cleared v)" for h
    using sp(3) that named [of h] by (intro tombstone_safe) auto
  with new rogue show ?thesis
    by (auto simp: open_writes_def close_writes_def list_all_iff intro: on_obs_safe record_safe alarm_safe)
qed

lemma scan_page_result:
  assumes s: "stored True recs s" and ev: "list_all storable_outflow (pp_outflows page)" and r: "scan_page D c page s = (r, s')"
  defines "v \<equiv> verdict_of D page s" and "A \<equiv> td_authorized D"
  shows "\<exists>recs'. stored (r \<noteq> Inl TailDurable) recs' s' \<and> keeps_cases A (cases.replayed recs) (cases.replayed recs')
    \<and> (cu_log (ts_cursor s') \<noteq> cu_log (ts_cursor s) \<longrightarrow> (\<forall>e \<in> set (pp_outflows page). A (oe_txHash e) \<or> has_key (cases.replayed recs') (oe_txHash e)))
    \<and> (r = Inl TailDurable \<or> (\<forall>su \<in> set (ov_rogue v). \<exists>x. map_of (cases.replayed recs') (su_txHash su) = Some x \<and> su_alarmed x))"
proof -
  let ?w1 = "open_writes page v" and ?w2 = "close_writes v"
  let ?save = "on_cursor (save_cursor (pp_cursor page))"
  have safe: "list_all (safe_write A) ?w1" "list_all (safe_write A) ?w2"
    using page_writes_safe [OF s v_def [THEN meta_eq_to_obj_eq] ev] by (simp_all add: A_def)
  have m: "casebook (ss_open (ts_suspects s))" using s by (simp add: stored_def casebook_replayed)
  note sp = verdict_spec [OF m v_def [THEN meta_eq_to_obj_eq, unfolded verdict_of_def all_suspects_def], folded A_def]
  obtain ok1 s1 where w1: "run_writes (td_append D) 1 ?w1 s = (ok1, s1)" by fastforce
  from run_writes_safe [OF safe(1) s w1] obtain recs1
    where r1: "stored ok1 recs1 s1" "keeps_cases A (cases.replayed recs) (cases.replayed recs1)" by blast
  have c1: "ts_cursor s1 = ts_cursor s"
    by (rule keeps_cursor [OF _ w1]) (use before_checkpoint [of _ page v] in auto)
  show ?thesis
  proof (cases ok1)
    case False
    then have "r = Inl TailDurable" "s' = s1"
      using r w1 by (auto simp: scan_page_def page_writes_split run_writes_append v_def Let_def split: prod.splits bool.splits)
    with r1 c1 False show ?thesis by auto
  next
    case True
    obtain ok2 s2 where w2: "run_writes (td_append D) (1 + length ?w1) ?w2 s1 = (ok2, s2)" by fastforce
    from r1(1) True have st1: "stored True recs1 s1" by simp
    from w1 True have w1': "run_writes (td_append D) 1 ?w1 s = (True, s1)" by simp
    from run_writes_safe [OF safe(2) st1 w2] obtain recs2
      where r2: "stored ok2 recs2 s2" "keeps_cases A (cases.replayed recs1) (cases.replayed recs2)" by blast
    have c2: "ts_cursor s2 = ts_cursor s1"
      by (rule keeps_cursor [OF _ w2]) (use before_checkpoint [of _ page v] in auto)
    have keep: "keeps_cases A (cases.replayed recs) (cases.replayed recs2)" using r1(2) r2(2) by (rule keeps_cases_trans)
    show ?thesis
    proof (cases ok2)
      case False
      then have "r = Inl TailDurable" "s' = s2"
        using r w1 w2 True by (auto simp: scan_page_def page_writes_split run_writes_append v_def Let_def split: prod.splits bool.splits)
      with r2 c1 c2 keep False show ?thesis by auto
    next
      case ok2: True
      have opened: "has_key (cases.replayed recs1) (su_txHash su)" if "su \<in> set (ov_newSuspects v)" for su
      proof -
        have "\<not> A (su_txHash su)" using sp(1) that by (auto simp: suspect_of_def)
        then show ?thesis
          using run_writes_achieve [OF safe(1) _ s w1', where wr = "on_suspects (record_suspect su)" and Pre = "\<lambda>_. True"
              and G = "\<lambda>m. has_key m (su_txHash su)"] that st1 record_opens stable_open
          by (fastforce simp: open_writes_def stable_def stored_def)
      qed
      from w2 ok2 have w2': "run_writes (td_append D) (1 + length ?w1) ?w2 s1 = (True, s2)" by simp
      have alarmed: "\<exists>x. map_of (cases.replayed recs2) (su_txHash su) = Some x \<and> su_alarmed x" if "su \<in> set (ov_rogue v)" for su
      proof -
        have na: "\<not> A (su_txHash su)" using sp(5) that by auto
        have "has_key (cases.replayed recs) (su_txHash su) \<or> has_key (cases.replayed recs1) (su_txHash su)"
          using sp(5) that opened s by (fastforce simp: stored_def has_key_def)
        with na r1(2) have "has_key (ss_open (ts_suspects s1)) (su_txHash su)"
          using st1 stable_open [of A, OF na] by (auto simp: stable_def stored_def)
        from run_writes_achieve [OF safe(2) _ st1 w2' this stable_open [of A, OF na] stable_alarmed [of A, OF na],
            where wr = "on_suspects (markAlarmed (su_txHash su))"] that markAlarmed_alarms r2(1) ok2
        show ?thesis by (auto simp: close_writes_def stored_def)
      qed
      have covered: "A (oe_txHash e) \<or> has_key (cases.replayed recs2) (oe_txHash e)" if e: "e \<in> set (pp_outflows page)" for e
      proof (cases "A (oe_txHash e)")
        case na: False
        then have "has_key (cases.replayed recs) (oe_txHash e) \<or> has_key (cases.replayed recs1) (oe_txHash e)"
          using sp(2) e opened s by (auto simp: stored_def)
        with r2(2) keep stable_open [of A, OF na] show ?thesis by (auto simp: stable_def)
      qed simp
      have "stored (r \<noteq> Inl TailDurable) recs2 s'"
        using r w1 w2 True ok2 r2(1)
        by (auto simp: scan_page_def page_writes_split run_writes_append v_def Let_def on_cursor_def save_cursor_def logged_def stored_def
            split: prod.splits bool.splits append_fate.splits)
      with keep alarmed covered show ?thesis by blast
    qed
  qed
qed

section \<open>A tick\<close>

fun outflows_of :: "pool_activity option \<Rightarrow> outflow_event list" where
  "outflows_of (Some (Page page)) = pp_outflows page"
| "outflows_of _ = []"

fun accused :: "tail_error + tail_report \<Rightarrow> ustring list" where
  "accused (Inr (Scanned _ _ _ rogue _ _ _ _ _)) = map su_txHash rogue"
| "accused _ = []"

text \<open>The outflows of the page a tick reads.\<close>

definition fetched :: "tail_deps \<Rightarrow> tail_state \<Rightarrow> outflow_event list" where
  "fetched D s =
     (case cu_current (ts_cursor s) of
        Some saved \<Rightarrow> outflows_of (td_fetch D (FromCursor saved))
      | None \<Rightarrow> (case td_latestLedger D of
                   None \<Rightarrow> []
                 | Some head \<Rightarrow> outflows_of (td_fetch D (FromLedger (max 1 (head - td_coldStartMarginLedgers D))))))"

definition alarmed_in :: "(ustring, suspect) jsmap \<Rightarrow> ustring \<Rightarrow> bool" where
  "alarmed_in m h \<longleftrightarrow> (case map_of m h of None \<Rightarrow> False | Some su \<Rightarrow> su_alarmed su)"

lemma alarmed_in_iff: "alarmed_in m h \<longleftrightarrow> (\<exists>su. map_of m h = Some su \<and> su_alarmed su)"
  by (simp add: alarmed_in_def split: option.split)

text \<open>What a tick leaves behind, from cases \<open>m\<close> to cases \<open>m'\<close>: no case is lost, a moved checkpoint has every outflow of the
  page accounted for, and the accused are unauthorised, accused for the first time and alarmed on disk.\<close>

definition tick_effect ::
    "(ustring \<Rightarrow> bool) \<Rightarrow> outflow_event list \<Rightarrow> bool \<Rightarrow> tail_error + tail_report \<Rightarrow> (ustring, suspect) jsmap \<Rightarrow> (ustring, suspect) jsmap \<Rightarrow> bool" where
  "tick_effect A es moved r m m' \<longleftrightarrow>
     keeps_cases A m m' \<and> (moved \<longrightarrow> (\<forall>e \<in> set es. A (oe_txHash e) \<or> has_key m' (oe_txHash e)))
     \<and> distinct (accused r) \<and> (\<forall>h \<in> set (accused r). \<not> A h \<and> \<not> alarmed_in m h \<and> alarmed_in m' h)"

lemma scan_page_effect:
  assumes s: "stored True recs s" and ev: "list_all storable_outflow (pp_outflows page)" and r: "scan_page D c page s = (r, s')"
  shows "\<exists>recs'. stored (r \<noteq> Inl TailDurable) recs' s'
    \<and> tick_effect (td_authorized D) (pp_outflows page) (cu_log (ts_cursor s') \<noteq> cu_log (ts_cursor s)) r (cases.replayed recs) (cases.replayed recs')"
proof -
  define v where "v = verdict_of D page s"
  have m: "casebook (ss_open (ts_suspects s))" using s by (simp add: stored_def casebook_replayed)
  have old: "ss_open (ts_suspects s) = cases.replayed recs" using s by (simp add: stored_def)
  note sp = verdict_spec [OF m v_def [unfolded verdict_of_def all_suspects_def]]
  have ac: "accused r = (if r = Inl TailDurable then [] else map su_txHash (ov_rogue v))"
    using r by (auto simp: scan_page_def v_def Let_def split: prod.splits bool.splits)
  have once: "\<not> td_authorized D (su_txHash su) \<and> \<not> alarmed_in (cases.replayed recs) (su_txHash su)" if "su \<in> set (ov_rogue v)" for su
    using sp(5) that by (fastforce simp: old alarmed_in_iff has_key_def)
  from scan_page_result [OF s ev r] obtain recs' where recs': "stored (r \<noteq> Inl TailDurable) recs' s'"
    "keeps_cases (td_authorized D) (cases.replayed recs) (cases.replayed recs')"
    "cu_log (ts_cursor s') \<noteq> cu_log (ts_cursor s) \<longrightarrow>
       (\<forall>e \<in> set (pp_outflows page). td_authorized D (oe_txHash e) \<or> has_key (cases.replayed recs') (oe_txHash e))"
    "r = Inl TailDurable \<or> (\<forall>su \<in> set (ov_rogue v). \<exists>x. map_of (cases.replayed recs') (su_txHash su) = Some x \<and> su_alarmed x)"
    unfolding v_def by blast
  then have "tick_effect (td_authorized D) (pp_outflows page) (cu_log (ts_cursor s') \<noteq> cu_log (ts_cursor s)) r (cases.replayed recs) (cases.replayed recs')"
    unfolding tick_effect_def ac using once sp(4) by (auto simp: alarmed_in_iff)
  with recs'(1) show ?thesis by blast
qed

lemma quiet_effect: "accused r = [] \<Longrightarrow> keeps_cases A m m' \<Longrightarrow> es = [] \<or> \<not> moved \<Longrightarrow> tick_effect A es moved r m m'"
  by (auto simp: tick_effect_def)

lemma handle_activity_effect:
  assumes s: "stored True recs s" and ev: "list_all storable_outflow (outflows_of (Some activity))" and r: "handle_activity D c activity s = (r, s')"
  shows "\<exists>recs'. stored (r \<noteq> Inl TailDurable) recs' s' \<and> tick_effect (td_authorized D) (outflows_of (Some activity))
    (cu_log (ts_cursor s') \<noteq> cu_log (ts_cursor s)) r (cases.replayed recs) (cases.replayed recs')"
proof (cases activity)
  case (Page page)
  with scan_page_effect [OF s] ev r show ?thesis by (simp add: handle_activity_def)
next
  case (RpcUnavailable reason)
  with s r show ?thesis by (auto simp: handle_activity_def intro!: quiet_effect keeps_cases_refl)
next
  case (CursorBelowRetention a b l)
  let ?w = "[on_obs (recordCoverageStart (td_nowUnix D)), on_cursor (save_cursor (toidAtLedger (max 1 (l - 1))))]"
  obtain ok s1 where w: "run_writes (td_append D) 1 ?w s = (ok, s1)" by fastforce
  have "list_all (safe_write (td_authorized D)) ?w" by (simp add: on_obs_safe on_cursor_safe)
  from run_writes_safe [OF this s w] obtain recs' where
    recs': "stored ok recs' s1" "keeps_cases (td_authorized D) (cases.replayed recs) (cases.replayed recs')" by blast
  have "r = (if ok then Inr (BlindSpot a b l) else Inl TailDurable)" "s' = s1"
    using r w CursorBelowRetention by (auto simp: handle_activity_def split: bool.splits)
  with recs' CursorBelowRetention show ?thesis by (intro exI [of _ recs'] conjI quiet_effect) auto
qed

lemma tick_effects:
  assumes s: "stored True recs s" and ev: "list_all storable_outflow (fetched D s)" and r: "tailOutflows D s = (r, s')"
  shows "\<exists>recs'. stored (r \<noteq> Inl TailDurable) recs' s'
    \<and> tick_effect (td_authorized D) (fetched D s) (cu_log (ts_cursor s') \<noteq> cu_log (ts_cursor s)) r (cases.replayed recs) (cases.replayed recs')"
proof -
  have quiet: ?thesis if "accused r = []" "stored (r \<noteq> Inl TailDurable) recs' s'" "ts_cursor s' = ts_cursor s"
    "keeps_cases (td_authorized D) (cases.replayed recs) (cases.replayed recs')" for recs'
    using that by (intro exI [of _ recs'] conjI quiet_effect) auto
  show ?thesis
  proof (cases "cu_current (ts_cursor s)")
    case (Some saved)
    show ?thesis
    proof (cases "td_fetch D (FromCursor saved)")
      case None
      with Some r s show ?thesis by (intro quiet [of recs]) (auto simp: tailOutflows_def keeps_cases_refl)
    next
      case fetch: (Some activity)
      have "fetched D s = outflows_of (Some activity)" using Some fetch by (simp add: fetched_def)
      with handle_activity_effect [OF s, of activity D None r s'] ev r Some fetch show ?thesis by (simp add: tailOutflows_def)
    qed
  next
    case None
    show ?thesis
    proof (cases "td_latestLedger D")
      case no: None
      with None r s show ?thesis by (intro quiet [of recs]) (auto simp: tailOutflows_def keeps_cases_refl)
    next
      case head: (Some head)
      let ?from = "max 1 (head - td_coldStartMarginLedgers D)"
      obtain ok s1 where w: "run_writes (td_append D) 0 [on_obs (recordCoverageStart (td_nowUnix D))] s = (ok, s1)" by fastforce
      have c1: "ts_cursor s1 = ts_cursor s" by (rule keeps_cursor [OF _ w]) auto
      have s1: "stored True recs s1"
        using w s by (auto simp: on_obs_def stored_def split: prod.splits bool.splits)
      show ?thesis
      proof (cases "ok \<and> td_fetch D (FromLedger ?from) \<noteq> None")
        case True
        then obtain activity where fetch: "td_fetch D (FromLedger ?from) = Some activity" by auto
        have "fetched D s = outflows_of (Some activity)" using None head fetch by (simp add: fetched_def)
        with handle_activity_effect [OF s1, of activity D "Some ?from" r s'] ev r None head fetch w True c1 show ?thesis
          by (simp add: tailOutflows_def Let_def)
      next
        case False
        with None head r w have "(r = Inl TailDurable \<or> r = Inl TailRpcThrew) \<and> s' = s1"
          by (auto simp: tailOutflows_def Let_def split: bool.splits option.splits)
        with s1 c1 show ?thesis by (intro quiet [of recs]) (auto simp: keeps_cases_refl stored_def)
      qed
    qed
  qed
qed

section \<open>Histories of the watcher\<close>

text \<open>The journal of authorised hashes beside the tail, with two histories: the outflows of the pages the checkpoint has passed,
  and the hashes paged to the operator. Payouts are authorised between the ticks; a process that failed an append is
  restarted on what its logs hold, and one that is up may be stopped at any moment.\<close>

record pool_watch =
  pw_auth :: authorized_journal
  pw_tail :: tail_state
  pw_passed :: "outflow_event list"
  pw_paged :: "ustring list"

definition empty_tail :: tail_state where
  "empty_tail = \<lparr> ts_cursor = \<lparr> cu_log = [], cu_current = None \<rparr>, ts_suspects = \<lparr> ss_log = [], ss_open = [] \<rparr>,
     ts_obs = \<lparr> os_log = [], os_obs = newObservations \<rparr> \<rparr>"

inductive watch_run :: "bool \<Rightarrow> pool_watch \<Rightarrow> bool" where
  watch_first: "watch_run True \<lparr> pw_auth = \<lparr> aj_log = [], aj_byOrder = [], aj_hashes = {} \<rparr>, pw_tail = empty_tail, pw_passed = [], pw_paged = [] \<rparr>"
| watch_authorise:
    "watch_run True w \<Longrightarrow> storable_authorized rec \<Longrightarrow> file_persistPreSubmit rec fate (pw_auth w) = (ok, j) \<Longrightarrow>
       watch_run ok (w\<lparr> pw_auth := j \<rparr>)"
| watch_tick:
    "watch_run True w \<Longrightarrow> td_authorized D = (\<lambda>h. h \<in> aj_hashes (pw_auth w)) \<Longrightarrow> list_all storable_outflow (fetched D (pw_tail w)) \<Longrightarrow>
       tailOutflows D (pw_tail w) = (r, s) \<Longrightarrow>
       watch_run (r \<noteq> Inl TailDurable) (w\<lparr> pw_tail := s,
         pw_passed := pw_passed w @ (if cu_log (ts_cursor s) \<noteq> cu_log (ts_cursor (pw_tail w)) then fetched D (pw_tail w) else []),
         pw_paged := pw_paged w @ accused r \<rparr>)"
| watch_restart:
    "watch_run up w \<Longrightarrow> open_authorized (aj_log (pw_auth w)) = Inr j \<Longrightarrow> open_cursor (cu_log (ts_cursor (pw_tail w))) = Inr c \<Longrightarrow>
       open_suspects (ss_log (ts_suspects (pw_tail w))) = Inr ss \<Longrightarrow> open_observations (os_log (ts_obs (pw_tail w))) = Inr ob \<Longrightarrow>
       watch_run True (w\<lparr> pw_auth := j, pw_tail := \<lparr> ts_cursor = c, ts_suspects = ss, ts_obs = ob \<rparr> \<rparr>)"

lemma fold_index_hashes: "aj_hashes (fold index_authorized recs j) = aj_hashes j \<union> az_hashHex ` set recs"
  by (induction recs arbitrary: j) (auto simp: index_authorized_def)

lemma fold_index_log: "aj_log (fold index_authorized recs j) = aj_log j"
  by (induction recs arbitrary: j) (simp_all add: index_authorized_def)

definition watch_ok :: "bool \<Rightarrow> pool_watch \<Rightarrow> authorized_record list \<Rightarrow> suspect_record list \<Rightarrow> bool" where
  "watch_ok up w auths recs \<longleftrightarrow>
     sent.on_disk (aj_log (pw_auth w)) auths \<and> (up \<longrightarrow> aj_hashes (pw_auth w) = az_hashHex ` set auths)
     \<and> stored up recs (pw_tail w)
     \<and> (\<forall>e \<in> set (pw_passed w). oe_txHash e \<in> az_hashHex ` set auths \<or> has_key (cases.replayed recs) (oe_txHash e))
     \<and> distinct (pw_paged w) \<and> (\<forall>h \<in> set (pw_paged w). h \<in> az_hashHex ` set auths \<or> alarmed_in (cases.replayed recs) h)"

lemma keeps_cases_key: "keeps_cases A m m' \<Longrightarrow> \<not> A h \<Longrightarrow> has_key m h \<Longrightarrow> has_key m' h"
  by (auto simp: keeps_cases_def has_key_def)

lemma keeps_cases_alarm: "keeps_cases A m m' \<Longrightarrow> \<not> A h \<Longrightarrow> alarmed_in m h \<Longrightarrow> alarmed_in m' h"
  by (fastforce simp: keeps_cases_def alarmed_in_iff)

lemma authorise_ok:
  assumes w: "watch_ok True w auths recs" and r: "storable_authorized rec" "file_persistPreSubmit rec fate (pw_auth w) = (ok, j)"
  shows "\<exists>auths'. watch_ok ok (w\<lparr> pw_auth := j \<rparr>) auths' recs"
proof (cases fate)
  case AppendLost
  with w r(2) show ?thesis by (intro exI [of _ auths]) (auto simp: file_persistPreSubmit_def logged_def watch_ok_def stored_def)
next
  case Appended
  with w r show ?thesis
    by (intro exI [of _ "auths @ [rec]"])
      (auto simp: file_persistPreSubmit_def logged_def watch_ok_def index_authorized_def intro: sent.on_disk_snoc)
next
  case AppendKept
  with w r show ?thesis
    by (intro exI [of _ "auths @ [rec]"])
      (auto simp: file_persistPreSubmit_def logged_def watch_ok_def stored_def intro: sent.on_disk_snoc)
qed

lemma tick_ok:
  assumes w: "watch_ok True w auths recs" and D: "td_authorized D = (\<lambda>h. h \<in> aj_hashes (pw_auth w))"
    and ev: "list_all storable_outflow (fetched D (pw_tail w))" and r: "tailOutflows D (pw_tail w) = (r, s)"
  shows "\<exists>recs'. watch_ok (r \<noteq> Inl TailDurable) (w\<lparr> pw_tail := s,
         pw_passed := pw_passed w @ (if cu_log (ts_cursor s) \<noteq> cu_log (ts_cursor (pw_tail w)) then fetched D (pw_tail w) else []),
         pw_paged := pw_paged w @ accused r \<rparr>) auths recs'"
proof -
  define H where "H = az_hashHex ` set auths"
  have A: "td_authorized D = (\<lambda>h. h \<in> H)" using w D by (simp add: watch_ok_def H_def)
  from tick_effects [OF _ ev r, of recs] w obtain recs' where recs': "stored (r \<noteq> Inl TailDurable) recs' s"
    "tick_effect (td_authorized D) (fetched D (pw_tail w)) (cu_log (ts_cursor s) \<noteq> cu_log (ts_cursor (pw_tail w))) r
       (cases.replayed recs) (cases.replayed recs')" by (auto simp: watch_ok_def)
  let ?m = "cases.replayed recs" and ?m' = "cases.replayed recs'"
  have keep: "keeps_cases (\<lambda>h. h \<in> H) ?m ?m'" and acc: "\<forall>h \<in> set (accused r). h \<notin> H \<and> \<not> alarmed_in ?m h \<and> alarmed_in ?m' h"
    using recs'(2) A by (auto simp: tick_effect_def)
  have passed: "\<forall>e \<in> set (pw_passed w). oe_txHash e \<in> H \<or> has_key ?m' (oe_txHash e)"
    and paged: "\<forall>h \<in> set (pw_paged w). h \<in> H \<or> alarmed_in ?m' h"
    using w keeps_cases_key [OF keep] keeps_cases_alarm [OF keep] unfolding watch_ok_def H_def [symmetric] by blast+
  have "set (pw_paged w) \<inter> set (accused r) = {}" using w acc by (auto simp: watch_ok_def H_def)
  with w recs' passed paged acc show ?thesis
    by (intro exI [of _ recs']) (auto simp: watch_ok_def tick_effect_def A H_def)
qed

lemma reopened_suspects: "cases.on_disk log recs \<Longrightarrow> open_suspects log = Inr \<lparr> ss_log = log, ss_open = cases.replayed recs \<rparr>"
  by (simp add: open_suspects_def cases.reads_back cases.replayed_def)

lemma reopened_authorized:
  "sent.on_disk log auths \<Longrightarrow> \<exists>j. open_authorized log = Inr j \<and> aj_log j = log \<and> aj_hashes j = az_hashHex ` set auths"
  by (simp add: open_authorized_def sent.reads_back fold_index_hashes fold_index_log)

lemma watch_run_ok: "watch_run up w \<Longrightarrow> \<exists>auths recs. watch_ok up w auths recs"
proof (induction rule: watch_run.induct)
  case watch_first
  show ?case
    by (intro exI [of _ "[]"])
      (simp add: watch_ok_def stored_def empty_tail_def sent.on_disk_Nil cases.on_disk_Nil cases.replayed_def)
next
  case (watch_authorise w rec fate ok j)
  then show ?case using authorise_ok by blast
next
  case (watch_tick w D r s)
  then show ?case using tick_ok by blast
next
  case (watch_restart up w j c ss ob)
  then obtain auths recs where w: "watch_ok up w auths recs" by blast
  have "aj_log j = aj_log (pw_auth w) \<and> aj_hashes j = az_hashHex ` set auths"
    "ss = \<lparr> ss_log = ss_log (ts_suspects (pw_tail w)), ss_open = cases.replayed recs \<rparr>"
    using w watch_restart(2,4) reopened_authorized [of "aj_log (pw_auth w)" auths] reopened_suspects [of "ss_log (ts_suspects (pw_tail w))" recs]
    by (auto simp: watch_ok_def stored_def)
  with w have "watch_ok True (w\<lparr> pw_auth := j, pw_tail := \<lparr> ts_cursor = c, ts_suspects = ss, ts_obs = ob \<rparr> \<rparr>) auths recs"
    by (simp add: watch_ok_def stored_def)
  then show ?case by blast
qed

text \<open>C12. In every history of ticks, payouts authorised, failed appends and restarts, the logs can be read back, and every outflow
  of a page the checkpoint has passed is authorised by the journal on disk or has an open case on disk; no hash is paged
  twice, and a hash that was paged is authorised by now or its case is alarmed on disk.\<close>

theorem outflows_behind_checkpoint_accounted_for:
  assumes "watch_run up w"
  shows "\<exists>j ss. open_authorized (aj_log (pw_auth w)) = Inr j \<and> open_suspects (ss_log (ts_suspects (pw_tail w))) = Inr ss
    \<and> (\<forall>e \<in> set (pw_passed w). oe_txHash e \<in> aj_hashes j \<or> has_key (ss_open ss) (oe_txHash e))
    \<and> distinct (pw_paged w) \<and> (\<forall>h \<in> set (pw_paged w). h \<in> aj_hashes j \<or> alarmed_in (ss_open ss) h)"
proof -
  from watch_run_ok [OF assms] obtain auths recs where w: "watch_ok up w auths recs" by blast
  then have "sent.on_disk (aj_log (pw_auth w)) auths" by (simp add: watch_ok_def)
  from reopened_authorized [OF this] obtain j where "open_authorized (aj_log (pw_auth w)) = Inr j" "aj_hashes j = az_hashHex ` set auths" by blast
  with w reopened_suspects [of "ss_log (ts_suspects (pw_tail w))" recs] show ?thesis by (simp add: watch_ok_def stored_def)
qed

section \<open>An overdue case is paged\<close>

lemma run_writes_all:
  "(\<And>wr s. wr \<in> set wrs \<Longrightarrow> fst (wr Appended s)) \<Longrightarrow> fst (run_writes (\<lambda>_. Appended) n wrs s)"
  by (induction wrs arbitrary: n s) (auto split: prod.splits bool.splits, metis fst_conv)

lemma appended_returns:
  "fst (on_obs (recordOutflow e) Appended s)" "fst (on_obs (recordSettlement_obs x) Appended s)" "fst (on_obs (recordUpgrade u) Appended s)"
  "fst (on_suspects (record_suspect su) Appended s)" "fst (on_suspects (markAlarmed h) Appended s)" "fst (on_suspects (tombstone h) Appended s)"
  "fst (on_cursor (save_cursor c) Appended s)"
  by (simp_all add: on_obs_def on_suspects_def on_cursor_def recordOutflow_def recordSettlement_obs_def recordUpgrade_def append_observation_def
      record_suspect_def markAlarmed_def tombstone_def save_cursor_def logged_def Let_def split: option.split)

lemma page_writes_return: "fst (run_writes (\<lambda>_. Appended) n (page_writes page v) s)"
  by (rule run_writes_all) (auto simp: page_writes_def appended_returns)

lemma overdue_accused:
  assumes m: "casebook m" and su: "map_of m h = Some su" "\<not> su_alarmed su" "\<not> auth h" "grace \<le> close - su_firstSeenLedgerCloseUnix su"
  shows "h \<in> su_txHash ` set (ov_rogue (judgeOutflows es (map snd m) auth close grace))"
proof -
  obtain new m' where j: "judge_events auth es m = (new, m')" by fastforce
  have "(h, su) \<in> set m'" using judge_events_spec [OF j] su(1) by (auto dest: map_of_SomeD)
  moreover have "su_txHash su = h" using m su(1) by (simp add: casebook_def)
  ultimately show ?thesis
    using su unfolding judgeOutflows_def Let_def tracked_same [OF m] j by (force simp: image_iff)
qed

text \<open>C39. In every state a watcher can be in, a case that is open, not alarmed and not authorised is paged by the next tick whose page
  closes at least the grace after the outflow was first seen, when that tick's appends succeed: the tick returns, accuses the
  hash, and its checkpoint moves to the page's cursor.\<close>

theorem overdue_case_is_paged:
  assumes "watch_run True w" and "cu_current (ts_cursor (pw_tail w)) = Some saved" and "td_fetch D (FromCursor saved) = Some (Page page)"
    and "td_append D = (\<lambda>_. Appended)"
    and "map_of (ss_open (ts_suspects (pw_tail w))) h = Some su" "\<not> su_alarmed su" "\<not> td_authorized D h"
    and "td_graceSecs D \<le> pp_latestLedgerCloseUnix page - su_firstSeenLedgerCloseUnix su"
  shows "\<exists>r s. tailOutflows D (pw_tail w) = (r, s) \<and> h \<in> set (accused r) \<and> cu_current (ts_cursor s) = Some (pp_cursor page)"
proof -
  from watch_run_ok [OF assms(1)] have m: "casebook (ss_open (ts_suspects (pw_tail w)))"
    by (auto simp: watch_ok_def stored_def casebook_replayed)
  define v where "v = verdict_of D page (pw_tail w)"
  have rogue: "h \<in> su_txHash ` set (ov_rogue v)"
    using overdue_accused [where auth = "td_authorized D", OF m assms(5-8)] by (simp add: v_def verdict_of_def all_suspects_def)
  obtain s where s: "run_writes (\<lambda>_. Appended) 1 (page_writes page v) (pw_tail w) = (True, s)"
    using page_writes_return [of 1 page v "pw_tail w"] by (metis prod.collapse)
  obtain s1 where s1: "run_writes (\<lambda>_. Appended) (1 + length (open_writes page v @ close_writes v)) [on_cursor (save_cursor (pp_cursor page))] s1 = (True, s)"
    using s unfolding page_writes_split run_writes_append [of _ _ "open_writes page v @ close_writes v"] by (auto split: prod.splits bool.splits)
  then have "cu_current (ts_cursor s) = Some (pp_cursor page)"
    by (auto simp: on_cursor_def save_cursor_def logged_def Let_def)
  with s rogue assms(2-4) show ?thesis
    by (auto simp: tailOutflows_def handle_activity_def scan_page_def v_def [symmetric] Let_def)
qed

text \<open>A history: one payout is authorised, then a page shows it beside an outflow nobody authorised; the cold start has no grace
  left, so the second is paged at once and the checkpoint moves.\<close>

definition demo_outflow :: "string \<Rightarrow> outflow_event" where
  "demo_outflow h = \<lparr> oe_txHash = lit h, oe_ledger = 7, oe_ledgerCloseUnix = 100, oe_to = lit ''G'', oe_amountStroops = 5 \<rparr>"

definition demo_page :: pool_page where
  "demo_page = \<lparr> pp_outflows = [demo_outflow ''a'', demo_outflow ''b''], pp_settlements = [], pp_upgrades = [], pp_cursor = lit ''c'',
     pp_latestLedger = 9, pp_latestLedgerCloseUnix = 200, pp_oldestLedger = 1 \<rparr>"

definition demo_deps :: "int \<Rightarrow> (ustring \<Rightarrow> bool) \<Rightarrow> tail_deps" where
  "demo_deps grace auth = \<lparr> td_latestLedger = Some 9, td_fetch = (\<lambda>_. Some (Page demo_page)), td_authorized = auth, td_graceSecs = grace,
     td_coldStartMarginLedgers = 5, td_nowUnix = 150, td_append = (\<lambda>_. Appended) \<rparr>"

definition demo_journal :: "authorized_journal" where
  "demo_journal = snd (file_persistPreSubmit \<lparr> az_orderId = lit ''o'', az_seq = lit ''1'', az_hashHex = lit ''a'', az_signedXdr = lit ''x'' \<rparr>
     Appended \<lparr> aj_log = [], aj_byOrder = [], aj_hashes = {} \<rparr>)"

definition demo_tick :: "int \<Rightarrow> (tail_error + tail_report) \<times> tail_state" where
  "demo_tick grace = tailOutflows (demo_deps grace (\<lambda>h. h \<in> aj_hashes demo_journal)) empty_tail"

definition demo_watch :: "int \<Rightarrow> pool_watch" where
  "demo_watch grace = \<lparr> pw_auth = demo_journal, pw_tail = snd (demo_tick grace), pw_passed = pp_outflows demo_page,
     pw_paged = accused (fst (demo_tick grace)) \<rparr>"

lemma demo_hashes: "aj_hashes demo_journal = {lit ''a''}"
  by (simp add: demo_journal_def file_persistPreSubmit_def logged_def index_authorized_def Let_def)

lemma demo_neq: "lit ''b'' \<noteq> lit ''a''"
  by (simp add: lit_def)

definition demo_case :: suspect where
  "demo_case = \<lparr> su_txHash = lit ''b'', su_firstSeenLedgerCloseUnix = 100, su_ledger = 7, su_amountStroops = 5, su_to = lit ''G'', su_alarmed = False \<rparr>"

lemma demo_verdict:
  "judgeOutflows [demo_outflow ''a'', demo_outflow ''b''] [] (\<lambda>h. h = lit ''a'') 200 grace =
     \<lparr> ov_rogue = if grace \<le> 100 then [demo_case\<lparr> su_alarmed := True \<rparr>] else [], ov_newSuspects = [demo_case],
       ov_cleared = [], ov_pending = if grace \<le> 100 then [] else [demo_case] \<rparr>"
  by (simp add: judgeOutflows_def demo_outflow_def suspect_of_def has_key_def demo_neq demo_case_def Let_def)

lemma demo_tick_eval:
  "accused (fst (demo_tick grace)) = (if grace \<le> 100 then [lit ''b''] else [])
     \<and> fst (demo_tick grace) \<noteq> Inl TailDurable
     \<and> cu_log (ts_cursor (snd (demo_tick grace))) = [encodeCursor (lit ''c'')] \<and> cu_current (ts_cursor (snd (demo_tick grace))) = Some (lit ''c'')
     \<and> (100 < grace \<longrightarrow> map_of (ss_open (ts_suspects (snd (demo_tick grace)))) (lit ''b'') = Some demo_case)"
  by (cases "grace \<le> 100")
    (simp_all add: demo_tick_def tailOutflows_def empty_tail_def demo_deps_def on_obs_def recordCoverageStart_def append_observation_def
      newObservations_def logged_def index_observation_def handle_activity_def scan_page_def verdict_of_def all_suspects_def demo_hashes
      page_writes_def demo_verdict demo_page_def recordOutflow_def on_suspects_def record_suspect_def markAlarmed_def on_cursor_def
      save_cursor_def has_key_def Let_def demo_case_def)

lemma demo_watch_runs: "watch_run True (demo_watch grace)"
proof -
  let ?w0 = "\<lparr> pw_auth = \<lparr> aj_log = [], aj_byOrder = [], aj_hashes = {} \<rparr>, pw_tail = empty_tail, pw_passed = [], pw_paged = [] \<rparr>"
  let ?rec = "\<lparr> az_orderId = lit ''o'', az_seq = lit ''1'', az_hashHex = lit ''a'', az_signedXdr = lit ''x'' \<rparr>"
  let ?D = "demo_deps grace (\<lambda>h. h \<in> aj_hashes demo_journal)"
  have "watch_run True (?w0\<lparr> pw_auth := demo_journal \<rparr>)"
    by (rule watch_authorise [OF watch_first, where rec = ?rec and fate = Appended])
      (simp_all add: storable_authorized_def lit_def demo_journal_def file_persistPreSubmit_def logged_def Let_def)
  from watch_tick [OF this, where D = ?D and r = "fst (demo_tick grace)" and s = "snd (demo_tick grace)"] demo_tick_eval [of grace]
  show ?thesis
    by (simp add: demo_watch_def demo_tick_def demo_deps_def empty_tail_def fetched_def demo_page_def storable_outflow_def demo_outflow_def
        is_safe_int_def lit_def)
qed

theorem outflows_behind_checkpoint_accounted_for_witness:
  "watch_run True (demo_watch 60) \<and> length (pw_passed (demo_watch 60)) = 2 \<and> pw_paged (demo_watch 60) = [lit ''b'']
   \<and> (\<exists>j ss. open_authorized (aj_log (pw_auth (demo_watch 60))) = Inr j
       \<and> open_suspects (ss_log (ts_suspects (pw_tail (demo_watch 60)))) = Inr ss
       \<and> (lit ''a'' \<in> aj_hashes j \<or> has_key (ss_open ss) (lit ''a'')) \<and> (lit ''b'' \<in> aj_hashes j \<or> alarmed_in (ss_open ss) (lit ''b'')))"
  using outflows_behind_checkpoint_accounted_for [OF demo_watch_runs [of 60]] demo_watch_runs [of 60] demo_tick_eval [of 60]
  by (simp add: demo_watch_def demo_page_def demo_outflow_def) blast

text \<open>The same history with a longer grace leaves the case open; with the grace over, the next page pages it.\<close>

theorem overdue_case_is_paged_witness:
  "watch_run True (demo_watch 600) \<and> pw_paged (demo_watch 600) = []
   \<and> (\<exists>r s. tailOutflows (demo_deps 60 (\<lambda>h. h = lit ''a'')) (pw_tail (demo_watch 600)) = (r, s) \<and> lit ''b'' \<in> set (accused r)
        \<and> cu_current (ts_cursor s) = Some (lit ''c''))"
  using overdue_case_is_paged [OF demo_watch_runs [of 600], where saved = "lit ''c''" and D = "demo_deps 60 (\<lambda>h. h = lit ''a'')" and page = demo_page
      and h = "lit ''b''" and su = demo_case] demo_watch_runs [of 600] demo_tick_eval [of 600]
  by (simp add: demo_watch_def demo_deps_def demo_page_def demo_case_def demo_neq)

end
