(* ===== verification/Ground_Truth.thy ===== *)
theory Ground_Truth
  imports Derive_Ids
begin

text \<open>
  The offline reconciler, \<^verbatim>\<open>packages/reconciler/src\<close>: the comparators of \<^verbatim>\<open>normalize.ts\<close>, the reading of a signed payout
  (\<^verbatim>\<open>decode.ts\<close>), the three cryptographic checks (\<^verbatim>\<open>verify-crypto.ts\<close>), the decision procedure
  (\<^verbatim>\<open>resolve-ground-truth.ts\<close>), the report (\<^verbatim>\<open>report.ts\<close>), its verification against two anchors from outside it
  (\<^verbatim>\<open>verify.ts\<close>) and the store of witnesses (\<^verbatim>\<open>evidence-store.ts\<close>).

  What the SDK and the runtime do is the record \<open>sdk\<close>: parsing an envelope, the ed25519 check, StrKey and addresses, the
  payload of an authorisation entry and the case tables of \<open>toLowerCase\<close>. \<open>None\<close> is a throw.

  The lemmas show when the verdict is MATCHED, that a report that verifies proves its matched orders against the anchors,
  and that a report that was built verifies unless an order names another contract.
\<close>

section \<open>What the SDK returns\<close>

datatype scval =
    ScVec "scval list"
  | ScMap "(scval \<times> scval) list"
  | ScSymbol ustring
  | ScBytes "byte list"
  | ScOther

text \<open>A value of \<open>scValToNative\<close>: what \<open>Buffer.from(v).toString('hex')\<close> and \<open>v.toString()\<close> give, and the value itself when
  it is a string.\<close>

record native =
  nv_hex :: "ustring option"
  nv_text :: "ustring option"
  nv_string :: "ustring option"

datatype sc_address = AccountAddress "byte list" | OtherAddress

datatype credentials = AddressCredentials sc_address int int scval | OtherCredentials

record auth_entry =
  ae_credentials :: credentials
  ae_rootInvocation :: scval

datatype host_function = InvokeContract "ustring option" ustring "native option list" | OtherHostFunction

datatype tx_operation = InvokeHostFunction host_function "auth_entry list" | OtherOperation ustring

record parsed_tx =
  pt_source :: ustring
  pt_networkPassphrase :: ustring
  pt_hash :: "byte list"
  pt_signatures :: "(byte list \<times> byte list) list"
  pt_operations :: "tx_operation list"

datatype parsed_envelope = ParsedTransaction parsed_tx | ParsedFeeBump

record sdk =
  sdk_fromXDR :: "ustring \<Rightarrow> ustring \<Rightarrow> parsed_envelope option"
  sdk_decodeKey :: "ustring \<Rightarrow> byte list option"
  sdk_verify :: "ustring \<Rightarrow> byte list \<Rightarrow> byte list \<Rightarrow> bool option"
  sdk_authPayload :: "ustring \<Rightarrow> auth_entry \<Rightarrow> byte list option"
  sdk_isValidKey :: "ustring \<Rightarrow> bool"
  sdk_isValidContract :: "ustring \<Rightarrow> bool"
  sdk_address :: "ustring \<Rightarrow> ustring option"
  sdk_toLowerCase :: "ustring \<Rightarrow> ustring"

section \<open>The artifacts, types.ts\<close>

record business_intent =
  bi_order_id :: ustring
  bi_destination :: ustring
  bi_amount_stroops :: ustring
  bi_memo_hex :: ustring

record ledger_evidence =
  le_signed_xdr :: ustring
  le_hash :: ustring

record chain_snapshot =
  cs_function :: ustring
  cs_contract_id :: ustring
  cs_source_account :: ustring
  cs_tx_id_hex :: ustring
  cs_amount_stroops :: ustring
  cs_applied_rate_stroops :: ustring
  cs_merchant :: ustring
  cs_memo_hex :: ustring

record chain_evidence =
  ce_tx_hash :: ustring
  ce_fetched_at_ledger :: int
  ce_horizon_snapshot :: chain_snapshot

datatype recon_verdict = MATCHED | CORRUPT_LOCAL | EVIDENCE_TAMPERED | CHAIN_DIVERGENCE | UNSETTLED

datatype order_status = StMatched | StMismatch | StUnsettled

datatype diff_field = AmountField | DestinationField | MemoField

record field_diff =
  fd_field :: diff_field
  fd_local_value :: ustring
  fd_chain_value :: ustring
  fd_equal :: bool

record ground_truth =
  gt_verdict :: recon_verdict
  gt_status :: order_status
  gt_signature_valid :: bool
  gt_hash_consistent :: bool
  gt_chain_bound :: bool
  gt_field_diff :: "field_diff list"

record report_entry =
  re_order_id :: ustring
  re_business_intent :: business_intent
  re_ledger_evidence :: ledger_evidence
  re_chain_evidence :: "chain_evidence option"
  re_ground_truth :: ground_truth

record report_network =
  rn_network :: ustring
  rn_passphrase :: ustring
  rn_operator_public :: ustring

record report_summary =
  rs_total :: nat
  rs_matched :: nat
  rs_mismatch :: nat
  rs_unsettled :: nat

record recon_report =
  rr_version :: int
  rr_seed :: ustring
  rr_network :: report_network
  rr_orders :: "report_entry list"
  rr_summary :: report_summary

fun verdictToStatus :: "recon_verdict \<Rightarrow> order_status" where
  "verdictToStatus MATCHED = StMatched"
| "verdictToStatus UNSETTLED = StUnsettled"
| "verdictToStatus CORRUPT_LOCAL = StMismatch"
| "verdictToStatus EVIDENCE_TAMPERED = StMismatch"
| "verdictToStatus CHAIN_DIVERGENCE = StMismatch"

section \<open>The comparators, normalize.ts\<close>

text \<open>\<open>CANONICAL_DECIMAL\<close> and \<open>BigInt\<close> of a text that passes it.\<close>

definition canonical_decimal :: "ustring \<Rightarrow> nat option" where
  "canonical_decimal s =
     (case ascii_of s of
        None \<Rightarrow> None
      | Some t \<Rightarrow> if t \<noteq> [] \<and> list_all is_digit t then Some (dec_nat t) else None)"

definition amountEqual :: "ustring \<Rightarrow> ustring \<Rightarrow> bool" where
  "amountEqual local chain =
     (case (canonical_decimal local, canonical_decimal chain) of
        (Some a, Some b) \<Rightarrow> a = b
      | _ \<Rightarrow> False)"

definition canonicalAddress :: "sdk \<Rightarrow> ustring \<Rightarrow> ustring option" where
  "canonicalAddress S s = (if \<not> sdk_isValidKey S s \<and> \<not> sdk_isValidContract S s then None else sdk_address S s)"

definition addressEqual :: "sdk \<Rightarrow> ustring \<Rightarrow> ustring \<Rightarrow> bool" where
  "addressEqual S local chain =
     (case (canonicalAddress S local, canonicalAddress S chain) of
        (Some a, Some b) \<Rightarrow> a = b
      | _ \<Rightarrow> False)"

definition hexEqual :: "sdk \<Rightarrow> ustring \<Rightarrow> ustring \<Rightarrow> bool" where
  "hexEqual S local chain \<longleftrightarrow> sdk_toLowerCase S local = sdk_toLowerCase S chain"

definition semanticEqualProjection :: "sdk \<Rightarrow> chain_snapshot \<Rightarrow> chain_snapshot \<Rightarrow> bool" where
  "semanticEqualProjection S x y \<longleftrightarrow>
     cs_function x = cs_function y
     \<and> addressEqual S (cs_contract_id x) (cs_contract_id y)
     \<and> addressEqual S (cs_source_account x) (cs_source_account y)
     \<and> hexEqual S (cs_tx_id_hex x) (cs_tx_id_hex y)
     \<and> amountEqual (cs_amount_stroops x) (cs_amount_stroops y)
     \<and> amountEqual (cs_applied_rate_stroops x) (cs_applied_rate_stroops y)
     \<and> addressEqual S (cs_merchant x) (cs_merchant y)
     \<and> hexEqual S (cs_memo_hex x) (cs_memo_hex y)"

section \<open>The differences, field-diff.ts\<close>

definition computeDiffs :: "sdk \<Rightarrow> business_intent \<Rightarrow> chain_snapshot \<Rightarrow> field_diff list" where
  "computeDiffs S a c =
     [\<lparr> fd_field = AmountField, fd_local_value = bi_amount_stroops a, fd_chain_value = cs_amount_stroops c,
        fd_equal = amountEqual (bi_amount_stroops a) (cs_amount_stroops c) \<rparr>,
      \<lparr> fd_field = DestinationField, fd_local_value = bi_destination a, fd_chain_value = cs_merchant c,
        fd_equal = addressEqual S (bi_destination a) (cs_merchant c) \<rparr>,
      \<lparr> fd_field = MemoField, fd_local_value = bi_memo_hex a, fd_chain_value = cs_memo_hex c,
        fd_equal = hexEqual S (bi_memo_hex a) (cs_memo_hex c) \<rparr>]"

definition intentEqualsChain :: "field_diff list \<Rightarrow> bool" where
  "intentEqualsChain diffs = list_all fd_equal diffs"

definition differing :: "field_diff list \<Rightarrow> field_diff list" where
  "differing diffs = filter (\<lambda>d. \<not> fd_equal d) diffs"

section \<open>Reading a signed payout, decode.ts\<close>

record decoded_pay =
  dp_tx :: parsed_tx
  dp_recomputedHash :: ustring
  dp_projection :: chain_snapshot

text \<open>The projection of the five arguments. A merchant that is no string is the empty text, which like it is no address.\<close>

definition project_pay :: "parsed_tx \<Rightarrow> ustring option \<Rightarrow> native option list \<Rightarrow> chain_snapshot option" where
  "project_pay tx contract args =
     (case (contract, args) of
        (Some c, [Some a0, Some a1, Some a2, Some a3, Some a4]) \<Rightarrow>
          (case (nv_hex a0, nv_text a1, nv_text a2, nv_hex a4) of
             (Some txId, Some amount, Some rate, Some memo) \<Rightarrow>
               Some \<lparr> cs_function = lit ''pay'', cs_contract_id = c, cs_source_account = pt_source tx, cs_tx_id_hex = txId,
                 cs_amount_stroops = amount, cs_applied_rate_stroops = rate,
                 cs_merchant = (case nv_string a3 of Some m \<Rightarrow> m | None \<Rightarrow> []), cs_memo_hex = memo \<rparr>
           | _ \<Rightarrow> None)
      | _ \<Rightarrow> None)"

definition decodeSignedPay :: "sdk \<Rightarrow> ustring \<Rightarrow> ustring \<Rightarrow> decoded_pay option" where
  "decodeSignedPay S signedXdr passphrase =
     (case sdk_fromXDR S signedXdr passphrase of
        Some (ParsedTransaction tx) \<Rightarrow>
          (case pt_operations tx of
             [InvokeHostFunction (InvokeContract contract fnName args) auth] \<Rightarrow>
               if fnName \<noteq> lit ''pay'' then None
               else if length args \<noteq> 5 then None
               else (case project_pay tx contract args of
                       None \<Rightarrow> None
                     | Some projection \<Rightarrow>
                         Some \<lparr> dp_tx = tx, dp_recomputedHash = to_hex (pt_hash tx), dp_projection = projection \<rparr>)
           | _ \<Rightarrow> None)
      | _ \<Rightarrow> None)"

section \<open>The cryptographic checks, verify-crypto.ts\<close>

text \<open>\<open>Array.some\<close> with a predicate that may throw.\<close>

fun some_of :: "('a \<Rightarrow> bool option) \<Rightarrow> 'a list \<Rightarrow> bool option" where
  "some_of p [] = Some False"
| "some_of p (x # xs) = (case p x of None \<Rightarrow> None | Some True \<Rightarrow> Some True | Some False \<Rightarrow> some_of p xs)"

text \<open>The loop over the pairs of one map: the last \<open>public_key\<close> and the last \<open>signature\<close> that are bytes.\<close>

fun read_pairs :: "(scval \<times> scval) list \<Rightarrow> byte list option \<times> byte list option \<Rightarrow> byte list option \<times> byte list option" where
  "read_pairs [] acc = acc"
| "read_pairs ((ScSymbol name, ScBytes v) # rest) (publicKey, signature) =
     read_pairs rest (if name = lit ''public_key'' then Some v else publicKey, if name = lit ''signature'' then Some v else signature)"
| "read_pairs (_ # rest) acc = read_pairs rest acc"

definition anySignatureVerifies :: "sdk \<Rightarrow> scval \<Rightarrow> byte list \<Rightarrow> ustring \<Rightarrow> byte list \<Rightarrow> bool option" where
  "anySignatureVerifies S sigVal opRaw operatorPublic payload =
     (case sigVal of
        ScVec items \<Rightarrow>
          some_of (\<lambda>item.
            case item of
              ScMap pairs \<Rightarrow>
                (case read_pairs pairs (None, None) of
                   (Some publicKey, Some signature) \<Rightarrow>
                     if publicKey = opRaw then sdk_verify S operatorPublic payload signature else Some False
                 | _ \<Rightarrow> Some False)
            | _ \<Rightarrow> Some False) items
      | _ \<Rightarrow> Some False)"

definition entry_signed :: "sdk \<Rightarrow> parsed_tx \<Rightarrow> ustring \<Rightarrow> byte list \<Rightarrow> auth_entry \<Rightarrow> bool" where
  "entry_signed S tx operatorPublic opRaw entry =
     (case ae_credentials entry of
        AddressCredentials (AccountAddress k) nonce expiration sigVal \<Rightarrow>
          k = opRaw \<and>
          (case sdk_authPayload S (pt_networkPassphrase tx) entry of
             None \<Rightarrow> False
           | Some payload \<Rightarrow> anySignatureVerifies S sigVal opRaw operatorPublic payload = Some True)
      | _ \<Rightarrow> False)"

definition operatorAuthEntrySigned :: "sdk \<Rightarrow> parsed_tx \<Rightarrow> ustring \<Rightarrow> byte list \<Rightarrow> bool" where
  "operatorAuthEntrySigned S tx operatorPublic opRaw =
     list_ex (\<lambda>oper. case oper of
         InvokeHostFunction f auth \<Rightarrow> list_ex (entry_signed S tx operatorPublic opRaw) auth
       | OtherOperation _ \<Rightarrow> False) (pt_operations tx)"

definition signatureValid :: "sdk \<Rightarrow> parsed_tx \<Rightarrow> ustring \<Rightarrow> bool option" where
  "signatureValid S tx operatorPublic =
     (case sdk_decodeKey S operatorPublic of
        None \<Rightarrow> Some False
      | Some opRaw \<Rightarrow>
          if pt_source tx = operatorPublic then
            let wantHint = to_hex (take 4 (drop 28 opRaw)) in
            some_of (\<lambda>(hint, signature).
              if to_hex hint = wantHint then sdk_verify S operatorPublic (pt_hash tx) signature else Some False) (pt_signatures tx)
          else Some (operatorAuthEntrySigned S tx operatorPublic opRaw))"

definition hashConsistent :: "sdk \<Rightarrow> ustring \<Rightarrow> ustring \<Rightarrow> bool" where
  "hashConsistent S recomputedHash recordedHash \<longleftrightarrow> sdk_toLowerCase S recomputedHash = sdk_toLowerCase S recordedHash"

definition chainBound :: "sdk \<Rightarrow> ustring \<Rightarrow> ustring option \<Rightarrow> bool" where
  "chainBound S recordedHash txHash =
     (case txHash of None \<Rightarrow> False | Some h \<Rightarrow> sdk_toLowerCase S recordedHash = sdk_toLowerCase S h)"

section \<open>The decision, resolve-ground-truth.ts\<close>

definition gt :: "recon_verdict \<Rightarrow> bool \<Rightarrow> bool \<Rightarrow> bool \<Rightarrow> field_diff list \<Rightarrow> ground_truth" where
  "gt v sig hb bc diffs = \<lparr> gt_verdict = v, gt_status = verdictToStatus v, gt_signature_valid = sig, gt_hash_consistent = hb,
     gt_chain_bound = bc, gt_field_diff = diffs \<rparr>"

definition resolveGroundTruth ::
    "sdk \<Rightarrow> business_intent \<Rightarrow> ledger_evidence \<Rightarrow> chain_evidence option \<Rightarrow> ustring \<Rightarrow> ustring \<Rightarrow> ground_truth option" where
  "resolveGroundTruth S intent ledger chain operatorPublic passphrase =
     (case decodeSignedPay S (le_signed_xdr ledger) passphrase of
        None \<Rightarrow> Some (gt EVIDENCE_TAMPERED False False False [])
      | Some decoded \<Rightarrow>
          (case signatureValid S (dp_tx decoded) operatorPublic of
             None \<Rightarrow> None
           | Some sig \<Rightarrow>
               let hb = hashConsistent S (dp_recomputedHash decoded) (le_hash ledger);
                   bc = chainBound S (le_hash ledger) (map_option ce_tx_hash chain) in
               Some (if \<not> sig then gt EVIDENCE_TAMPERED False hb bc []
                 else if \<not> hb then gt EVIDENCE_TAMPERED True False bc []
                 else (case chain of
                         None \<Rightarrow> gt UNSETTLED True True False []
                       | Some c \<Rightarrow>
                           let diffs = computeDiffs S intent (ce_horizon_snapshot c);
                               dc = semanticEqualProjection S (dp_projection decoded) (ce_horizon_snapshot c) in
                           if \<not> bc \<or> \<not> dc then gt CHAIN_DIVERGENCE True True bc (differing diffs)
                           else if intentEqualsChain diffs then gt MATCHED True True True []
                           else gt CORRUPT_LOCAL True True True (differing diffs)))))"

section \<open>The report, report.ts\<close>

record order_input =
  oi_business_intent :: business_intent
  oi_ledger_evidence :: ledger_evidence
  oi_chain_evidence :: "chain_evidence option"

definition count_status :: "order_status \<Rightarrow> report_summary \<Rightarrow> report_summary" where
  "count_status st s =
     (case st of
        StMatched \<Rightarrow> s\<lparr> rs_matched := rs_matched s + 1 \<rparr>
      | StMismatch \<Rightarrow> s\<lparr> rs_mismatch := rs_mismatch s + 1 \<rparr>
      | StUnsettled \<Rightarrow> s\<lparr> rs_unsettled := rs_unsettled s + 1 \<rparr>)"

definition summarize :: "report_entry list \<Rightarrow> report_summary" where
  "summarize orders = fold (\<lambda>entry. count_status (gt_status (re_ground_truth entry))) orders
     \<lparr> rs_total = length orders, rs_matched = 0, rs_mismatch = 0, rs_unsettled = 0 \<rparr>"

definition toEntry :: "sdk \<Rightarrow> report_network \<Rightarrow> order_input \<Rightarrow> report_entry option" where
  "toEntry S network input =
     map_option (\<lambda>g. \<lparr> re_order_id = bi_order_id (oi_business_intent input), re_business_intent = oi_business_intent input,
         re_ledger_evidence = oi_ledger_evidence input, re_chain_evidence = oi_chain_evidence input, re_ground_truth = g \<rparr>)
       (resolveGroundTruth S (oi_business_intent input) (oi_ledger_evidence input) (oi_chain_evidence input)
         (rn_operator_public network) (rn_passphrase network))"

fun all_some :: "'a option list \<Rightarrow> 'a list option" where
  "all_some [] = Some []"
| "all_some (x # xs) = (case x of None \<Rightarrow> None | Some y \<Rightarrow> map_option ((#) y) (all_some xs))"

definition buildReconReport :: "sdk \<Rightarrow> ustring \<Rightarrow> report_network \<Rightarrow> order_input list \<Rightarrow> recon_report option" where
  "buildReconReport S seed network inputs =
     map_option (\<lambda>orders. \<lparr> rr_version = 1, rr_seed = seed, rr_network = network, rr_orders = orders, rr_summary = summarize orders \<rparr>)
       (all_some (map (toEntry S network) inputs))"

section \<open>Its verification, verify.ts\<close>

datatype report_failure =
    UnsupportedReportVersion int
  | OperatorNotCanonical ustring
  | VerdictMismatch ustring | StatusMismatch ustring | SignatureMismatch ustring | HashMismatch ustring
  | BoundMismatch ustring | DiffMismatch ustring
  | SignedContractNotCanonical ustring ustring | SnapshotContractNotCanonical ustring ustring
  | SummaryMismatch

record verify_result =
  vr_ok :: bool
  vr_ordersVerified :: nat
  vr_summary :: report_summary
  vr_failures :: "report_failure list"

definition diffEqual :: "field_diff list \<Rightarrow> field_diff list \<Rightarrow> bool" where
  "diffEqual a b \<longleftrightarrow> length a = length b \<and>
     list_all (\<lambda>(x, y). fd_field x = fd_field y \<and> fd_local_value x = fd_local_value y \<and> fd_chain_value x = fd_chain_value y
       \<and> fd_equal x = fd_equal y) (zip a b)"

definition pinSettlementContract :: "sdk \<Rightarrow> report_entry \<Rightarrow> ustring \<Rightarrow> ustring \<Rightarrow> report_failure list" where
  "pinSettlementContract S entry canonicalTroyPool passphrase =
     (case decodeSignedPay S (le_signed_xdr (re_ledger_evidence entry)) passphrase of
        None \<Rightarrow> []
      | Some decoded \<Rightarrow>
          let signedContract = cs_contract_id (dp_projection decoded) in
          (if \<not> addressEqual S signedContract canonicalTroyPool then [SignedContractNotCanonical (re_order_id entry) signedContract] else [])
          @ (case re_chain_evidence entry of
               None \<Rightarrow> []
             | Some c \<Rightarrow>
                 let observed = cs_contract_id (ce_horizon_snapshot c) in
                 if \<not> addressEqual S observed canonicalTroyPool then [SnapshotContractNotCanonical (re_order_id entry) observed] else []))"

definition entry_failures :: "report_entry \<Rightarrow> ground_truth \<Rightarrow> report_failure list" where
  "entry_failures entry g =
     (let h = re_ground_truth entry; label = re_order_id entry in
      (if gt_verdict g \<noteq> gt_verdict h then [VerdictMismatch label] else [])
      @ (if gt_status g \<noteq> gt_status h then [StatusMismatch label] else [])
      @ (if gt_signature_valid g \<noteq> gt_signature_valid h then [SignatureMismatch label] else [])
      @ (if gt_hash_consistent g \<noteq> gt_hash_consistent h then [HashMismatch label] else [])
      @ (if gt_chain_bound g \<noteq> gt_chain_bound h then [BoundMismatch label] else [])
      @ (if \<not> diffEqual (gt_field_diff g) (gt_field_diff h) then [DiffMismatch label] else []))"

definition check_entry :: "sdk \<Rightarrow> ustring \<Rightarrow> ustring \<Rightarrow> ustring \<Rightarrow> report_entry \<Rightarrow> report_failure list option" where
  "check_entry S operator pool passphrase entry =
     map_option (\<lambda>g. entry_failures entry g @ pinSettlementContract S entry pool passphrase)
       (resolveGroundTruth S (re_business_intent entry) (re_ledger_evidence entry) (re_chain_evidence entry) operator passphrase)"

definition verifyReport :: "sdk \<Rightarrow> recon_report \<Rightarrow> ustring \<Rightarrow> ustring \<Rightarrow> verify_result option" where
  "verifyReport S report canonicalOperatorPublic canonicalTroyPool =
     map_option (\<lambda>perOrder.
       let recomputed = summarize (rr_orders report);
           failures = (if rr_version report \<noteq> 1 then [UnsupportedReportVersion (rr_version report)] else [])
             @ (if rn_operator_public (rr_network report) \<noteq> canonicalOperatorPublic
                then [OperatorNotCanonical (rn_operator_public (rr_network report))] else [])
             @ concat perOrder
             @ (if recomputed \<noteq> rr_summary report then [SummaryMismatch] else []) in
       \<lparr> vr_ok = (length failures = 0), vr_ordersVerified = length (rr_orders report), vr_summary = recomputed, vr_failures = failures \<rparr>)
     (all_some (map (check_entry S canonicalOperatorPublic canonicalTroyPool (rn_passphrase (rr_network report))) (rr_orders report)))"

section \<open>The store of witnesses, evidence-store.ts\<close>

record evidence_witness =
  wt_order_id :: ustring
  wt_tx_hash :: ustring
  wt_signed_xdr :: ustring
  wt_seq :: ustring
  wt_ledger_hint :: int
  wt_ts :: int

datatype witness_error = DuplicateEvidence ustring

type_synonym witness_store = "(ustring, evidence_witness) jsmap"

definition append_witness :: "evidence_witness \<Rightarrow> witness_store \<Rightarrow> (witness_error + evidence_witness) \<times> witness_store" where
  "append_witness r m =
     (if has_key m (wt_order_id r) then (Inl (DuplicateEvidence (wt_order_id r)), m)
      else (Inr r, AList.update (wt_order_id r) r m))"

definition get_witness :: "witness_store \<Rightarrow> ustring \<Rightarrow> evidence_witness option" where
  "get_witness m orderId = map_of m orderId"

definition toLedgerEvidence :: "witness_store \<Rightarrow> ustring \<Rightarrow> ledger_evidence option" where
  "toLedgerEvidence m orderId =
     map_option (\<lambda>r. \<lparr> le_signed_xdr = wt_signed_xdr r, le_hash = wt_tx_hash r \<rparr>) (map_of m orderId)"

definition all_witnesses :: "witness_store \<Rightarrow> evidence_witness list" where
  "all_witnesses m = map snd m"

text \<open>A witness, once appended, is what the store returns for ever after.\<close>

lemma witness_frozen: "map_of m k = Some r \<Longrightarrow> map_of (snd (append_witness x m)) k = Some r"
  by (auto simp: append_witness_def has_key_def)

lemma append_then_evidence:
  "append_witness r m = (Inr r', m') \<Longrightarrow>
     toLedgerEvidence m' (wt_order_id r) = Some \<lparr> le_signed_xdr = wt_signed_xdr r, le_hash = wt_tx_hash r \<rparr>"
  by (auto simp: append_witness_def toLedgerEvidence_def split: if_splits)

section \<open>The comparators are partial equivalences\<close>

text \<open>A comparison that holds between equal canonical forms: symmetric and transitive, so a chain of comparisons through the
  three artifacts composes.\<close>

locale comparator =
  fixes canon :: "'a \<Rightarrow> 'c option" and same :: "'a \<Rightarrow> 'a \<Rightarrow> bool"
  assumes same_iff: "same a b \<longleftrightarrow> (\<exists>c. canon a = Some c \<and> canon b = Some c)"
begin

lemma same_sym: "same a b \<Longrightarrow> same b a"
  by (auto simp: same_iff)

lemma same_trans: "same a b \<Longrightarrow> same b c \<Longrightarrow> same a c"
  by (auto simp: same_iff)

lemma same_join: "same a b \<Longrightarrow> same c b \<Longrightarrow> same a c"
  by (auto simp: same_iff)

end

interpretation amounts: comparator canonical_decimal amountEqual
  by unfold_locales (auto simp: amountEqual_def split: option.splits)

interpretation addresses: comparator "canonicalAddress S" "addressEqual S" for S
  by unfold_locales (auto simp: addressEqual_def split: option.splits)

interpretation hexes: comparator "\<lambda>s. Some (sdk_toLowerCase S s)" "hexEqual S" for S
  by unfold_locales (auto simp: hexEqual_def)

section \<open>What MATCHED means\<close>

text \<open>The three artifacts agree: the signed transaction is a payout of the operator with the recorded hash, the chain holds that
  hash, and the arguments signed, the announcement on the chain and the local row are the same.\<close>

definition artifacts_agree ::
    "sdk \<Rightarrow> business_intent \<Rightarrow> ledger_evidence \<Rightarrow> chain_evidence option \<Rightarrow> ustring \<Rightarrow> ustring \<Rightarrow> bool" where
  "artifacts_agree S intent ledger chain operator passphrase \<longleftrightarrow>
     (\<exists>d c. decodeSignedPay S (le_signed_xdr ledger) passphrase = Some d \<and> chain = Some c
        \<and> signatureValid S (dp_tx d) operator = Some True
        \<and> hexEqual S (dp_recomputedHash d) (le_hash ledger) \<and> hexEqual S (le_hash ledger) (ce_tx_hash c)
        \<and> semanticEqualProjection S (dp_projection d) (ce_horizon_snapshot c)
        \<and> amountEqual (bi_amount_stroops intent) (cs_amount_stroops (ce_horizon_snapshot c))
        \<and> addressEqual S (bi_destination intent) (cs_merchant (ce_horizon_snapshot c))
        \<and> hexEqual S (bi_memo_hex intent) (cs_memo_hex (ce_horizon_snapshot c)))"

lemma matched_iff:
  assumes g: "resolveGroundTruth S intent ledger chain operator passphrase = Some g"
  shows "gt_verdict g = MATCHED \<longleftrightarrow> artifacts_agree S intent ledger chain operator passphrase"
proof (cases "decodeSignedPay S (le_signed_xdr ledger) passphrase")
  case None
  with g show ?thesis by (auto simp: resolveGroundTruth_def artifacts_agree_def gt_def)
next
  case (Some d)
  with g obtain sig where sig: "signatureValid S (dp_tx d) operator = Some sig" by (auto simp: resolveGroundTruth_def split: option.splits)
  show ?thesis
  proof (cases chain)
    case None
    with Some sig g show ?thesis by (auto simp: resolveGroundTruth_def artifacts_agree_def gt_def Let_def split: if_splits)
  next
    case chain: (Some c)
    have "artifacts_agree S intent ledger chain operator passphrase \<longleftrightarrow>
        sig \<and> hashConsistent S (dp_recomputedHash d) (le_hash ledger) \<and> chainBound S (le_hash ledger) (Some (ce_tx_hash c))
        \<and> semanticEqualProjection S (dp_projection d) (ce_horizon_snapshot c) \<and> intentEqualsChain (computeDiffs S intent (ce_horizon_snapshot c))"
      unfolding artifacts_agree_def
      by (simp add: Some sig chain hashConsistent_def chainBound_def hexEqual_def intentEqualsChain_def computeDiffs_def)
    with Some sig chain g show ?thesis
      by (auto simp: resolveGroundTruth_def gt_def Let_def split: if_splits)
  qed
qed

lemma status_of_verdict:
  "resolveGroundTruth S intent ledger chain operator passphrase = Some g \<Longrightarrow> gt_status g = verdictToStatus (gt_verdict g)"
  by (auto simp: resolveGroundTruth_def gt_def Let_def split: option.splits if_splits)

text \<open>The differences are reported exactly when the local row or the chain is blamed, and the row only under a valid signature.\<close>

lemma corrupt_local_signed:
  "resolveGroundTruth S intent ledger chain operator passphrase = Some g \<Longrightarrow> gt_verdict g = CORRUPT_LOCAL \<Longrightarrow>
     gt_signature_valid g \<and> gt_hash_consistent g \<and> gt_chain_bound g \<and> gt_field_diff g \<noteq> []"
  by (auto simp: resolveGroundTruth_def gt_def Let_def intentEqualsChain_def differing_def list_all_iff filter_empty_conv
      split: option.splits if_splits)

lemma agreed_business:
  assumes "artifacts_agree S intent ledger chain operator passphrase"
  obtains d c where "decodeSignedPay S (le_signed_xdr ledger) passphrase = Some d" "chain = Some c"
    "signatureValid S (dp_tx d) operator = Some True" "hexEqual S (dp_recomputedHash d) (ce_tx_hash c)"
    "amountEqual (bi_amount_stroops intent) (cs_amount_stroops (dp_projection d))"
    "addressEqual S (bi_destination intent) (cs_merchant (dp_projection d))"
proof -
  from assms obtain d c where "decodeSignedPay S (le_signed_xdr ledger) passphrase = Some d" "chain = Some c"
    "signatureValid S (dp_tx d) operator = Some True"
    "hexEqual S (dp_recomputedHash d) (le_hash ledger)" "hexEqual S (le_hash ledger) (ce_tx_hash c)"
    "semanticEqualProjection S (dp_projection d) (ce_horizon_snapshot c)"
    "amountEqual (bi_amount_stroops intent) (cs_amount_stroops (ce_horizon_snapshot c))"
    "addressEqual S (bi_destination intent) (cs_merchant (ce_horizon_snapshot c))"
    by (auto simp: artifacts_agree_def)
  then show thesis
    by (intro that [of d c]) (auto simp: semanticEqualProjection_def intro: hexes.same_trans amounts.same_join addresses.same_join)
qed

section \<open>A report that verifies\<close>

lemma all_some_iff: "all_some xs = Some ys \<longleftrightarrow> xs = map Some ys"
  by (induction xs arbitrary: ys) (auto split: option.splits)

lemma all_some_exists: "list_all (\<lambda>x. x \<noteq> None) xs \<Longrightarrow> \<exists>ys. all_some xs = Some ys"
  by (induction xs) auto

lemma fold_count:
  "fold (\<lambda>entry. count_status (gt_status (re_ground_truth entry))) orders s =
     s\<lparr> rs_matched := rs_matched s + length (filter (\<lambda>x. gt_status (re_ground_truth x) = StMatched) orders),
        rs_mismatch := rs_mismatch s + length (filter (\<lambda>x. gt_status (re_ground_truth x) = StMismatch) orders),
        rs_unsettled := rs_unsettled s + length (filter (\<lambda>x. gt_status (re_ground_truth x) = StUnsettled) orders) \<rparr>"
proof (induction orders arbitrary: s)
  case (Cons x orders)
  then show ?case by (cases "gt_status (re_ground_truth x)") (simp_all add: count_status_def)
qed simp

lemma summarize_counts:
  "summarize orders = \<lparr> rs_total = length orders, rs_matched = length (filter (\<lambda>x. gt_status (re_ground_truth x) = StMatched) orders),
     rs_mismatch = length (filter (\<lambda>x. gt_status (re_ground_truth x) = StMismatch) orders),
     rs_unsettled = length (filter (\<lambda>x. gt_status (re_ground_truth x) = StUnsettled) orders) \<rparr>"
  by (simp add: summarize_def fold_count)

lemma diffEqual_iff: "diffEqual a b \<longleftrightarrow> a = b"
proof (induction a b rule: list_induct2')
  case (4 x xs y ys)
  then show ?case by (cases x; cases y) (auto simp: diffEqual_def)
qed (auto simp: diffEqual_def)

lemma entry_failures_Nil: "entry_failures entry g = [] \<longleftrightarrow> g = re_ground_truth entry"
  by (auto simp: entry_failures_def Let_def diffEqual_iff intro!: ground_truth.equality)

lemma verified_entries:
  assumes "verifyReport S report operator pool = Some vr"
  shows "vr_ok vr \<longleftrightarrow> rr_version report = 1 \<and> rn_operator_public (rr_network report) = operator \<and> rr_summary report = summarize (rr_orders report)
     \<and> (\<forall>entry \<in> set (rr_orders report). check_entry S operator pool (rn_passphrase (rr_network report)) entry = Some [])"
proof -
  let ?check = "check_entry S operator pool (rn_passphrase (rr_network report))"
  from assms obtain per where per: "map ?check (rr_orders report) = map Some per"
    and vr: "vr_ok vr \<longleftrightarrow> rr_version report = 1 \<and> rn_operator_public (rr_network report) = operator \<and> concat per = []
      \<and> summarize (rr_orders report) = rr_summary report"
    by (auto simp: verifyReport_def all_some_iff Let_def)
  have "concat per = [] \<longleftrightarrow> (\<forall>entry \<in> set (rr_orders report). ?check entry = Some [])"
  proof -
    have "?check ` set (rr_orders report) = Some ` set per" using arg_cong [OF per, of set] by simp
    moreover have "concat per = [] \<longleftrightarrow> Some ` set per \<subseteq> {Some []}" by auto
    ultimately have "concat per = [] \<longleftrightarrow> ?check ` set (rr_orders report) \<subseteq> {Some []}" by simp
    then show ?thesis by blast
  qed
  with vr show ?thesis by auto
qed

lemma checked_entry:
  "check_entry S operator pool passphrase entry = Some [] \<longleftrightarrow>
     resolveGroundTruth S (re_business_intent entry) (re_ledger_evidence entry) (re_chain_evidence entry) operator passphrase
       = Some (re_ground_truth entry)
     \<and> pinSettlementContract S entry pool passphrase = []"
  by (auto simp: check_entry_def entry_failures_Nil)

lemma pinned:
  "pinSettlementContract S entry pool passphrase = [] \<Longrightarrow>
   decodeSignedPay S (le_signed_xdr (re_ledger_evidence entry)) passphrase = Some d \<Longrightarrow> re_chain_evidence entry = Some c \<Longrightarrow>
     addressEqual S (cs_contract_id (dp_projection d)) pool \<and> addressEqual S (cs_contract_id (ce_horizon_snapshot c)) pool"
  by (auto simp: pinSettlementContract_def Let_def split: if_splits)


section \<open>A report that was built\<close>

text \<open>A report built by \<open>buildReconReport\<close> is verified under the operator key it was built with, and verification passes exactly
  when no order names a contract other than the pool: the verifier recomputes what the builder stored.\<close>

lemma built_report_verifies:
  assumes "buildReconReport S seed network inputs = Some report"
  shows "\<exists>vr. verifyReport S report (rn_operator_public network) pool = Some vr
    \<and> vr_ordersVerified vr = length inputs
    \<and> (vr_ok vr \<longleftrightarrow> (\<forall>entry \<in> set (rr_orders report). pinSettlementContract S entry pool (rn_passphrase network) = []))"
proof -
  from assms obtain orders where orders: "map (toEntry S network) inputs = map Some orders"
    and report: "report = \<lparr> rr_version = 1, rr_seed = seed, rr_network = network, rr_orders = orders, rr_summary = summarize orders \<rparr>"
    by (auto simp: buildReconReport_def all_some_iff)
  have truth: "resolveGroundTruth S (re_business_intent x) (re_ledger_evidence x) (re_chain_evidence x) (rn_operator_public network)
      (rn_passphrase network) = Some (re_ground_truth x)" if "x \<in> set orders" for x
  proof -
    from that have "Some x \<in> set (map (toEntry S network) inputs)" unfolding orders by simp
    then obtain input where "toEntry S network input = Some x" by auto
    then show ?thesis by (auto simp: toEntry_def)
  qed
  then have "list_all (\<lambda>x. x \<noteq> None) (map (check_entry S (rn_operator_public network) pool (rn_passphrase network)) orders)"
    by (auto simp: list_all_iff check_entry_def)
  from all_some_exists [OF this] obtain vr where vr: "verifyReport S report (rn_operator_public network) pool = Some vr"
    by (auto simp: verifyReport_def report)
  have "length orders = length inputs" using arg_cong [OF orders, of length] by simp
  with vr have "vr_ordersVerified vr = length inputs" by (auto simp: verifyReport_def report Let_def)
  moreover have "vr_ok vr \<longleftrightarrow> (\<forall>x \<in> set (rr_orders report). pinSettlementContract S x pool (rn_passphrase network) = [])"
    using verified_entries [OF vr] truth by (auto simp: report checked_entry)
  ultimately show ?thesis using vr by blast
qed

section \<open>An instance\<close>

text \<open>An SDK that reads every envelope as one payout of 5 stroops signed by the operator, and a report on it.\<close>

definition demo_native :: "string \<Rightarrow> native" where
  "demo_native t = \<lparr> nv_hex = Some (lit t), nv_text = Some (lit t), nv_string = Some (lit t) \<rparr>"

definition demo_tx :: parsed_tx where
  "demo_tx = \<lparr> pt_source = lit ''OP'', pt_networkPassphrase = lit ''n'', pt_hash = [], pt_signatures = [([0, 0, 0, 0], [1])],
     pt_operations = [InvokeHostFunction (InvokeContract (Some (lit ''POOL'')) (lit ''pay'')
       [Some (demo_native ''t''), Some (demo_native ''5''), Some (demo_native ''7''), Some (demo_native ''M''), Some (demo_native ''e'')]) []] \<rparr>"

definition demo_sdk :: sdk where
  "demo_sdk = \<lparr> sdk_fromXDR = (\<lambda>_ _. Some (ParsedTransaction demo_tx)), sdk_decodeKey = (\<lambda>_. Some (replicate 32 0)),
     sdk_verify = (\<lambda>k _ sig. Some (k = lit ''OP'' \<and> sig = [1])), sdk_authPayload = (\<lambda>_ _. None), sdk_isValidKey = (\<lambda>_. True),
     sdk_isValidContract = (\<lambda>_. False), sdk_address = Some, sdk_toLowerCase = (\<lambda>s. s) \<rparr>"

definition demo_input :: order_input where
  "demo_input = \<lparr> oi_business_intent = \<lparr> bi_order_id = lit ''o'', bi_destination = lit ''M'', bi_amount_stroops = lit ''5'', bi_memo_hex = lit ''e'' \<rparr>,
     oi_ledger_evidence = \<lparr> le_signed_xdr = lit ''x'', le_hash = [] \<rparr>,
     oi_chain_evidence = Some \<lparr> ce_tx_hash = [], ce_fetched_at_ledger = 3, ce_horizon_snapshot =
       \<lparr> cs_function = lit ''pay'', cs_contract_id = lit ''POOL'', cs_source_account = lit ''OP'', cs_tx_id_hex = lit ''t'',
         cs_amount_stroops = lit ''5'', cs_applied_rate_stroops = lit ''7'', cs_merchant = lit ''M'', cs_memo_hex = lit ''e'' \<rparr> \<rparr> \<rparr>"

definition demo_network :: report_network where
  "demo_network = \<lparr> rn_network = lit ''testnet'', rn_passphrase = lit ''n'', rn_operator_public = lit ''OP'' \<rparr>"

definition demo_entry :: report_entry where
  "demo_entry = \<lparr> re_order_id = lit ''o'', re_business_intent = oi_business_intent demo_input, re_ledger_evidence = oi_ledger_evidence demo_input,
     re_chain_evidence = oi_chain_evidence demo_input, re_ground_truth = gt MATCHED True True True [] \<rparr>"

definition demo_report :: recon_report where
  "demo_report = \<lparr> rr_version = 1, rr_seed = lit ''s'', rr_network = demo_network, rr_orders = [demo_entry],
     rr_summary = \<lparr> rs_total = 1, rs_matched = 1, rs_mismatch = 0, rs_unsettled = 0 \<rparr> \<rparr>"

lemma demo_digits: "canonical_decimal (lit ''5'') = Some 5" "canonical_decimal (lit ''7'') = Some 7"
  by (simp_all add: canonical_decimal_def lit_def ascii_of_def is_digit_def dec_nat_def digit_val_def)

lemma demo_decoded: "decodeSignedPay demo_sdk x n = Some \<lparr> dp_tx = demo_tx, dp_recomputedHash = [], dp_projection =
    \<lparr> cs_function = lit ''pay'', cs_contract_id = lit ''POOL'', cs_source_account = lit ''OP'', cs_tx_id_hex = lit ''t'',
      cs_amount_stroops = lit ''5'', cs_applied_rate_stroops = lit ''7'', cs_merchant = lit ''M'', cs_memo_hex = lit ''e'' \<rparr> \<rparr>"
  by (simp add: decodeSignedPay_def project_pay_def demo_sdk_def demo_tx_def demo_native_def to_hex_def)

lemma replicate_4: "replicate 4 x = [x, x, x, x]"
  by (simp add: numeral_eq_Suc)

lemma demo_signed: "signatureValid demo_sdk demo_tx (lit ''OP'') = Some True"
  by (simp add: signatureValid_def demo_sdk_def demo_tx_def Let_def to_hex_def replicate_4)

lemma demo_truth:
  "resolveGroundTruth demo_sdk (oi_business_intent demo_input) (oi_ledger_evidence demo_input) (oi_chain_evidence demo_input) (lit ''OP'') n
     = Some (gt MATCHED True True True [])"
  by (simp add: resolveGroundTruth_def demo_decoded demo_signed demo_input_def Let_def hashConsistent_def chainBound_def semanticEqualProjection_def
      addressEqual_def canonicalAddress_def hexEqual_def amountEqual_def demo_digits computeDiffs_def intentEqualsChain_def)
    (simp add: demo_sdk_def)

lemma demo_pinned: "pinSettlementContract demo_sdk demo_entry (lit ''POOL'') n = []"
  by (simp add: pinSettlementContract_def demo_decoded demo_entry_def demo_input_def addressEqual_def canonicalAddress_def Let_def)
    (simp add: demo_sdk_def)

lemma demo_built: "buildReconReport demo_sdk (lit ''s'') demo_network [demo_input] = Some demo_report"
  using demo_truth [of "lit ''n''"]
  by (simp add: buildReconReport_def toEntry_def demo_report_def demo_entry_def demo_network_def summarize_def count_status_def gt_def)
    (simp add: demo_input_def)

lemma built_report_verifies_witness:
  "buildReconReport demo_sdk (lit ''s'') demo_network [demo_input] = Some demo_report \<and>
   (\<exists>vr. verifyReport demo_sdk demo_report (lit ''OP'') (lit ''POOL'') = Some vr \<and> vr_ordersVerified vr = 1 \<and> vr_ok vr)"
  using built_report_verifies [OF demo_built, of "lit ''POOL''"] demo_built demo_pinned
  by (auto simp: demo_report_def demo_network_def)


end
