(* ===== verification/Reconcile.thy ===== *)
theory Reconcile
  imports Pool_Watch Ground_Truth
begin

text \<open>
  The reconciler, running: \<^verbatim>\<open>backend/src/settlement/reconcile-worker.ts\<close> and the store of closed orders
  (\<^verbatim>\<open>composition/src/chain-observations.ts\<close>, \<open>FileReconciledStore\<close>). Every row of the evidence log that is not closed is
  audited against what the tail saw, against the chain asked again, and by the offline reconciler.

  The tail may write between two rows, so the observations, the clock, the answers of the chain and the fate of the append
  are those of the row's index; the upgrades are read once, before the loop. Over every history of ticks and restarts an
  order is closed only with a proof, and advanced at most once.
\<close>

section \<open>The closed orders\<close>

definition encodeReconciled :: "ustring \<Rightarrow> json" where
  "encodeReconciled orderId = JObj [(''v'', JInt 1), (''orderId'', JStr orderId)]"

definition decodeReconciled :: "json option \<Rightarrow> record_error + ustring" where
  "decodeReconciled payload =
     (case payload of
        None \<Rightarrow> Inl RecordNotJson
      | Some raw \<Rightarrow> if jprop raw ''v'' \<noteq> Some (JInt 1) then Inl RecordVersion else rd_str raw ''orderId'')"

record reconciled_store =
  rc_log :: "json list"
  rc_closed :: "ustring set"

definition open_reconciled :: "json list \<Rightarrow> record_error + reconciled_store" where
  "open_reconciled log =
     bindR (decode_all (\<lambda>j. decodeReconciled (Some j)) log) (\<lambda>ids. Inr \<lparr> rc_log = log, rc_closed = fold insert ids {} \<rparr>)"

definition mark_reconciled :: "ustring \<Rightarrow> append_fate \<Rightarrow> reconciled_store \<Rightarrow> bool \<times> reconciled_store" where
  "mark_reconciled orderId fate s =
     (if orderId \<in> rc_closed s then (True, s)
      else let s' = s\<lparr> rc_log := rc_log s @ [encodeReconciled orderId] \<rparr> in
        logged fate s s' (s'\<lparr> rc_closed := insert orderId (rc_closed s) \<rparr>))"

section \<open>The audit, reconcile-worker.ts\<close>

datatype divergence =
    CodeReplaced int
  | AnnouncedButMoved int int
  | LocalRowDisagrees
  | NotTheOneWeSigned bool bool bool

datatype blind_reason = NeverWatched | AgedOut

datatype order_audit =
    AuditReconciled ustring
  | Diverged ustring recon_verdict divergence "field_diff list"
  | Unobservable ustring int
  | Blind ustring blind_reason int
  | AuditWaiting ustring
  | Unreachable ustring ustring

record reconcile_report =
  rp_audited :: nat
  rp_reconciled :: "ustring list"
  rp_problems :: "order_audit list"
  rp_waiting :: nat
  rp_unreachable :: nat
  rp_upgrades :: "pool_upgrade list"

text \<open>What the world is at one row: \<open>None\<close> from the chain, and an \<open>advance\<close> that does not return, are throws.\<close>

record row_env =
  rv_obs :: observations
  rv_now :: int
  rv_live :: "ustring \<Rightarrow> tx_liveness option"
  rv_mark :: append_fate
  rv_advance :: bool

record reconcile_deps =
  rd_upgrades :: "pool_upgrade list"
  rd_env :: "nat \<Rightarrow> row_env"
  rd_resolve :: "business_intent \<Rightarrow> ledger_evidence \<Rightarrow> chain_evidence option \<Rightarrow> ustring \<Rightarrow> ustring \<Rightarrow> ground_truth option"
  rd_deriveTxIdHex :: "evidence_row \<Rightarrow> ustring option"
  rd_operatorPublic :: ustring
  rd_passphrase :: ustring
  rd_advance :: bool
  rd_unsettledGraceSecs :: int

text \<open>The durable state, with the orders fed to the state machine so far.\<close>

record reconcile_state =
  rq_store :: reconciled_store
  rq_advanced :: "ustring list"

datatype reconcile_error = ReconcileDurable | ReconcileThrew

definition snapshotOf :: "settlement_observation \<Rightarrow> chain_snapshot" where
  "snapshotOf obs = \<lparr> cs_function = lit ''pay'', cs_contract_id = so_contractId obs, cs_source_account = so_sourceAccount obs,
     cs_tx_id_hex = so_txIdHex obs, cs_amount_stroops = lit (bigint_str (so_amountStroops obs)),
     cs_applied_rate_stroops = lit (bigint_str (so_appliedRateStroops obs)), cs_merchant = so_merchant obs, cs_memo_hex = so_memoHex obs \<rparr>"

definition intentOf :: "evidence_row \<Rightarrow> business_intent" where
  "intentOf row = \<lparr> bi_order_id = ew_orderId row, bi_destination = of_destination (ew_order row),
     bi_amount_stroops = lit (bigint_str (of_amountStroops (ew_order row))), bi_memo_hex = of_memoHex (ew_order row) \<rparr>"

datatype row_outcome = RowReconciled | RowProblem order_audit | RowWaiting

text \<open>An order the pool announced nothing for.\<close>

definition audit_silence :: "reconcile_deps \<Rightarrow> row_env \<Rightarrow> evidence_row \<Rightarrow> row_outcome" where
  "audit_silence D env row =
     (let witnessed = er_witnessedAtUnix (ew_record row); ageSecs = rv_now env - witnessed in
      if (case ob_coverageStart (rv_obs env) of None \<Rightarrow> False | Some coverage \<Rightarrow> witnessed < coverage)
      then RowProblem (Blind (ew_orderId row) NeverWatched ageSecs)
      else if ageSecs \<ge> rd_unsettledGraceSecs D then RowProblem (Unobservable (ew_orderId row) ageSecs)
      else RowWaiting)"

text \<open>The verdict of the offline reconciler, acted on.\<close>

definition act_on :: "reconcile_deps \<Rightarrow> row_env \<Rightarrow> evidence_row \<Rightarrow> ground_truth \<Rightarrow> reconcile_state \<Rightarrow> (reconcile_error + row_outcome) \<times> reconcile_state" where
  "act_on D env row g s =
     (if gt_verdict g = MATCHED then
        (case mark_reconciled (ew_orderId row) (rv_mark env) (rq_store s) of
           (False, st) \<Rightarrow> (Inl ReconcileDurable, s\<lparr> rq_store := st \<rparr>)
         | (True, st) \<Rightarrow>
             if rd_advance D then
               let s' = s\<lparr> rq_store := st, rq_advanced := rq_advanced s @ [ew_orderId row] \<rparr> in
               (if rv_advance env then Inr RowReconciled else Inl ReconcileThrew, s')
             else (Inr RowReconciled, s\<lparr> rq_store := st \<rparr>))
      else if gt_verdict g = UNSETTLED then
        (Inr (RowProblem (Blind (ew_orderId row) AgedOut (rv_now env - er_witnessedAtUnix (ew_record row)))), s)
      else
        (Inr (RowProblem (Diverged (ew_orderId row) (gt_verdict g)
           (if length (gt_field_diff g) > 0 then LocalRowDisagrees
            else NotTheOneWeSigned (gt_signature_valid g) (gt_hash_consistent g) (gt_chain_bound g)) (gt_field_diff g))), s))"

definition audit_row :: "reconcile_deps \<Rightarrow> row_env \<Rightarrow> evidence_row \<Rightarrow> reconcile_state \<Rightarrow> (reconcile_error + row_outcome) \<times> reconcile_state" where
  "audit_row D env row s =
     (case rd_deriveTxIdHex D row of
        None \<Rightarrow> (Inl ReconcileThrew, s)
      | Some txIdHex \<Rightarrow>
     (case settlementByTxId (rv_obs env) txIdHex of
        None \<Rightarrow> (Inr (audit_silence D env row), s)
      | Some obs \<Rightarrow>
          if rd_upgrades D \<noteq> [] then
            (Inr (RowProblem (Diverged (ew_orderId row) CHAIN_DIVERGENCE (CodeReplaced (pu_ledger (hd (rd_upgrades D)))) [])), s)
          else
            let moved = outflowStroopsByTx (rv_obs env) (so_txHash obs) in
            if moved \<noteq> so_amountStroops obs then
              (Inr (RowProblem (Diverged (ew_orderId row) CHAIN_DIVERGENCE (AnnouncedButMoved (so_amountStroops obs) moved) [])), s)
            else
              (case rv_live env (so_txHash obs) of
                 None \<Rightarrow> (Inl ReconcileThrew, s)
               | Some (LiveUnknown reason) \<Rightarrow> (Inr (RowProblem (Unreachable (ew_orderId row) reason)), s)
               | Some live \<Rightarrow>
                   let chain = (case live of
                       LiveSuccess _ \<Rightarrow> Some \<lparr> ce_tx_hash = so_txHash obs, ce_fetched_at_ledger = so_ledger_seq obs, ce_horizon_snapshot = snapshotOf obs \<rparr>
                     | _ \<Rightarrow> None) in
                   (case rd_resolve D (intentOf row)
                           \<lparr> le_signed_xdr = er_signedXdr (ew_record row), le_hash = er_txHash (ew_record row) \<rparr>
                           chain (rd_operatorPublic D) (rd_passphrase D) of
                      None \<Rightarrow> (Inl ReconcileThrew, s)
                    | Some g \<Rightarrow> act_on D env row g s))))"

text \<open>One row's outcome in the report.\<close>

definition tally :: "ustring \<Rightarrow> row_outcome \<Rightarrow> reconcile_report \<Rightarrow> reconcile_report" where
  "tally orderId out rep =
     (case out of
        RowReconciled \<Rightarrow> rep\<lparr> rp_reconciled := rp_reconciled rep @ [orderId] \<rparr>
      | RowWaiting \<Rightarrow> rep\<lparr> rp_waiting := rp_waiting rep + 1 \<rparr>
      | RowProblem p \<Rightarrow> rep\<lparr> rp_problems := rp_problems rep @ [p],
          rp_unreachable := rp_unreachable rep + (case p of Unreachable _ _ \<Rightarrow> 1 | _ \<Rightarrow> 0) \<rparr>)"

fun audit_rows ::
    "reconcile_deps \<Rightarrow> nat \<Rightarrow> evidence_row list \<Rightarrow> reconcile_report \<Rightarrow> reconcile_state \<Rightarrow> (reconcile_error + reconcile_report) \<times> reconcile_state" where
  "audit_rows D n [] rep s = (Inr rep, s)"
| "audit_rows D n (row # rows) rep s =
     (if ew_orderId row \<in> rc_closed (rq_store s) then audit_rows D (n + 1) rows rep s
      else (case audit_row D (rd_env D n) row s of
              (Inl e, s) \<Rightarrow> (Inl e, s)
            | (Inr out, s) \<Rightarrow> audit_rows D (n + 1) rows (tally (ew_orderId row) out (rep\<lparr> rp_audited := rp_audited rep + 1 \<rparr>)) s))"

definition reconcileOrders ::
    "reconcile_deps \<Rightarrow> evidence_row list \<Rightarrow> reconcile_state \<Rightarrow> (reconcile_error + reconcile_report) \<times> reconcile_state" where
  "reconcileOrders D rows s =
     audit_rows D 0 rows \<lparr> rp_audited = 0, rp_reconciled = [], rp_problems = [], rp_waiting = 0, rp_unreachable = 0, rp_upgrades = rd_upgrades D \<rparr> s"

section \<open>The alarm latch\<close>

datatype alarm_key = KeyDiverged recon_verdict | KeyUnobservable | KeyBlind blind_reason

fun alarmKey :: "order_audit \<Rightarrow> alarm_key option" where
  "alarmKey (Diverged _ v _ _) = Some (KeyDiverged v)"
| "alarmKey (Unobservable _ _) = Some KeyUnobservable"
| "alarmKey (Blind _ r _) = Some (KeyBlind r)"
| "alarmKey _ = None"

fun audit_orderId :: "order_audit \<Rightarrow> ustring" where
  "audit_orderId (AuditReconciled i) = i"
| "audit_orderId (Diverged i _ _ _) = i"
| "audit_orderId (Unobservable i _) = i"
| "audit_orderId (Blind i _ _) = i"
| "audit_orderId (AuditWaiting i) = i"
| "audit_orderId (Unreachable i _) = i"

type_synonym reconcile_alarms = "(ustring, alarm_key) jsmap"

definition INITIAL_RECONCILE_ALARMS :: reconcile_alarms where
  "INITIAL_RECONCILE_ALARMS = []"

record reconcile_observation =
  rx_state :: reconcile_alarms
  rx_fresh :: "order_audit list"
  rx_resolved :: "ustring list"

text \<open>The loop over the problems: the latch of this tick, the fresh problems and the orders that could not be looked at.\<close>

fun latch_problems ::
    "reconcile_alarms \<Rightarrow> order_audit list \<Rightarrow> reconcile_alarms \<times> order_audit list \<times> ustring set \<Rightarrow> reconcile_alarms \<times> order_audit list \<times> ustring set" where
  "latch_problems prev [] acc = acc"
| "latch_problems prev (p # ps) (current, fresh, unreachable) =
     latch_problems prev ps
       (case p of
          Unreachable i _ \<Rightarrow> (current, fresh, insert i unreachable)
        | _ \<Rightarrow>
            (case alarmKey p of
               None \<Rightarrow> (current, fresh, unreachable)
             | Some key \<Rightarrow> (AList.update (audit_orderId p) key current,
                 if map_of prev (audit_orderId p) \<noteq> Some key then fresh @ [p] else fresh, unreachable)))"

definition observeReconcile :: "reconcile_alarms \<Rightarrow> reconcile_report \<Rightarrow> reconcile_observation" where
  "observeReconcile prev report =
     (let (current, fresh, unreachable) = latch_problems prev (rp_problems report) ([], [], {});
          alarmed = fold (\<lambda>(orderId, key) m. if \<not> has_key m orderId \<and> orderId \<in> unreachable then AList.update orderId key m else m) prev current in
      \<lparr> rx_state = alarmed, rx_fresh = fresh, rx_resolved = filter (\<lambda>orderId. \<not> has_key alarmed orderId) (map fst prev) \<rparr>)"

section \<open>An order is closed only with a proof\<close>

interpretation shut: replayed_log encodeReconciled decodeReconciled "\<lambda>i. i \<noteq> []" insert "{}"
  by unfold_locales (simp add: encodeReconciled_def decodeReconciled_def rd_ok)

lemma shut_replayed: "shut.replayed ids = set ids"
  by (induction ids rule: rev_induct) (simp_all add: shut.replayed_def)

text \<open>Everything that has to hold: no upgrade was known when the tick started, the settlement found under the order's own
  identifier announced what the token contract moved, the transaction is on the chain, and the three artifacts agree.\<close>

definition settled_proof :: "sdk \<Rightarrow> reconcile_deps \<Rightarrow> row_env \<Rightarrow> evidence_row \<Rightarrow> bool" where
  "settled_proof S D env row \<longleftrightarrow>
     rd_upgrades D = [] \<and>
     (\<exists>txIdHex obs ledger. rd_deriveTxIdHex D row = Some txIdHex \<and> settlementByTxId (rv_obs env) txIdHex = Some obs
        \<and> outflowStroopsByTx (rv_obs env) (so_txHash obs) = so_amountStroops obs
        \<and> rv_live env (so_txHash obs) = Some (LiveSuccess ledger)
        \<and> artifacts_agree S (intentOf row) \<lparr> le_signed_xdr = er_signedXdr (ew_record row), le_hash = er_txHash (ew_record row) \<rparr>
            (Some \<lparr> ce_tx_hash = so_txHash obs, ce_fetched_at_ledger = so_ledger_seq obs, ce_horizon_snapshot = snapshotOf obs \<rparr>)
            (rd_operatorPublic D) (rd_passphrase D))"

lemma audit_row_matched:
  assumes "rd_resolve D = resolveGroundTruth S" and r: "audit_row D env row s = (r, s')" and "s' \<noteq> s"
  shows "settled_proof S D env row \<and> (\<exists>g. gt_verdict g = MATCHED \<and> (r, s') = act_on D env row g s)"
proof -
  have act: "act_on D env row g s = (r, s') \<Longrightarrow> gt_verdict g = MATCHED" for g
    using assms(3) by (auto simp: act_on_def split: if_splits)
  have no_chain: "resolveGroundTruth S i l None k n = Some g \<Longrightarrow> gt_verdict g \<noteq> MATCHED" for i l k n g
    using matched_iff [of S i l None k n g] by (auto simp: artifacts_agree_def)
  from r assms(1,3) obtain txIdHex obs live g where 1: "rd_deriveTxIdHex D row = Some txIdHex"
    "settlementByTxId (rv_obs env) txIdHex = Some obs" "rd_upgrades D = []"
    "outflowStroopsByTx (rv_obs env) (so_txHash obs) = so_amountStroops obs" "rv_live env (so_txHash obs) = Some live"
    and g: "resolveGroundTruth S (intentOf row) \<lparr> le_signed_xdr = er_signedXdr (ew_record row), le_hash = er_txHash (ew_record row) \<rparr>
        (case live of LiveSuccess _ \<Rightarrow> Some \<lparr> ce_tx_hash = so_txHash obs, ce_fetched_at_ledger = so_ledger_seq obs, ce_horizon_snapshot = snapshotOf obs \<rparr> | _ \<Rightarrow> None)
        (rd_operatorPublic D) (rd_passphrase D) = Some g" "act_on D env row g s = (r, s')"
    by (auto simp: audit_row_def Let_def split: option.splits if_splits tx_liveness.splits)
  obtain ledger where "live = LiveSuccess ledger"
    using no_chain g act [OF g(2)] by (cases live) auto
  with 1 g act [OF g(2)] show ?thesis by (auto simp: settled_proof_def matched_iff [symmetric])
qed

definition closed_on_disk :: "bool \<Rightarrow> ustring list \<Rightarrow> reconcile_state \<Rightarrow> bool" where
  "closed_on_disk up ids s \<longleftrightarrow> shut.on_disk (rc_log (rq_store s)) ids \<and> (up \<longrightarrow> rc_closed (rq_store s) = set ids)
     \<and> distinct (rq_advanced s) \<and> set (rq_advanced s) \<subseteq> set ids"

lemma act_on_matched:
  assumes g: "gt_verdict g = MATCHED" and s: "closed_on_disk True ids s" and row: "ew_orderId row \<notin> set ids" "ew_orderId row \<noteq> []"
    and r: "act_on D env row g s = (r, s')"
  shows "\<exists>ids'. closed_on_disk (r \<noteq> Inl ReconcileDurable) ids' s' \<and> (ids' = ids \<or> ids' = ids @ [ew_orderId row])"
proof -
  have d: "shut.on_disk (rc_log (rq_store s) @ [encodeReconciled (ew_orderId row)]) (ids @ [ew_orderId row])"
    using s row by (auto simp: closed_on_disk_def intro: shut.on_disk_snoc)
  show ?thesis
  proof (cases "rv_mark env = AppendLost")
    case True
    with g s row r show ?thesis
      by (intro exI [of _ ids]) (auto simp: act_on_def mark_reconciled_def logged_def Let_def closed_on_disk_def)
  next
    case False
    with g s row r d show ?thesis
      by (intro exI [of _ "ids @ [ew_orderId row]"])
        (cases "rv_mark env"; auto simp: act_on_def mark_reconciled_def logged_def Let_def closed_on_disk_def split: if_splits)
  qed
qed

lemma audit_row_ok:
  assumes D: "rd_resolve D = resolveGroundTruth S" and s: "closed_on_disk True ids s" and row: "ew_orderId row \<notin> set ids" "ew_orderId row \<noteq> []"
    and r: "audit_row D env row s = (r, s')"
  shows "\<exists>ids'. closed_on_disk (r \<noteq> Inl ReconcileDurable) ids' s' \<and> set ids \<subseteq> set ids'
    \<and> (\<forall>i \<in> set ids'. i \<in> set ids \<or> i = ew_orderId row \<and> settled_proof S D env row)"
proof (cases "s' = s")
  case True
  with s show ?thesis by (intro exI [of _ ids]) (auto simp: closed_on_disk_def)
next
  case False
  from audit_row_matched [OF D r False] obtain g where "settled_proof S D env row" "gt_verdict g = MATCHED" "act_on D env row g s = (r, s')" by auto
  with act_on_matched [OF _ s row, of g D env r s'] show ?thesis by auto
qed

lemma audit_rows_ok:
  assumes D: "rd_resolve D = resolveGroundTruth S"
  shows "closed_on_disk True ids s \<Longrightarrow> \<forall>row \<in> set rows. ew_orderId row \<noteq> [] \<Longrightarrow> audit_rows D n rows rep s = (r, s') \<Longrightarrow>
    \<exists>ids'. closed_on_disk (r \<noteq> Inl ReconcileDurable) ids' s' \<and> set ids \<subseteq> set ids'
      \<and> (\<forall>i \<in> set ids'. i \<in> set ids \<or> (\<exists>k. \<exists>row \<in> set rows. ew_orderId row = i \<and> settled_proof S D (rd_env D k) row))"
proof (induction rows arbitrary: n rep s ids)
  case Nil
  then show ?case by auto
next
  case (Cons row rows)
  have closed: "rc_closed (rq_store s) = set ids" using Cons.prems(1) by (simp add: closed_on_disk_def)
  show ?case
  proof (cases "ew_orderId row \<in> set ids")
    case True
    from Cons.IH [OF Cons.prems(1), of "n + 1" rep] Cons.prems(2,3) True closed show ?thesis by fastforce
  next
    case False
    obtain r1 s1 where r1: "audit_row D (rd_env D n) row s = (r1, s1)" by fastforce
    from audit_row_ok [OF D Cons.prems(1) False _ r1] Cons.prems(2) obtain ids1 where
      1: "closed_on_disk (r1 \<noteq> Inl ReconcileDurable) ids1 s1" "set ids \<subseteq> set ids1"
         "\<forall>i \<in> set ids1. i \<in> set ids \<or> i = ew_orderId row \<and> settled_proof S D (rd_env D n) row" by auto
    show ?thesis
    proof (cases r1)
      case (Inl e)
      with r1 False closed Cons.prems(3) have "r = Inl e" "s' = s1" by auto
      with 1 Inl show ?thesis by (intro exI [of _ ids1]) auto
    next
      case (Inr out)
      let ?rep = "tally (ew_orderId row) out (rep\<lparr> rp_audited := rp_audited rep + 1 \<rparr>)"
      have "audit_rows D (n + 1) rows ?rep s1 = (r, s')" using r1 Inr False closed Cons.prems(3) by simp
      from Cons.IH [OF _ _ this, of ids1] 1(1) Inr Cons.prems(2) obtain ids' where
        2: "closed_on_disk (r \<noteq> Inl ReconcileDurable) ids' s'" "set ids1 \<subseteq> set ids'"
           "\<forall>i \<in> set ids'. i \<in> set ids1 \<or> (\<exists>k. \<exists>row \<in> set rows. ew_orderId row = i \<and> settled_proof S D (rd_env D k) row)" by auto
      have "i \<in> set ids \<or> (\<exists>k. \<exists>row \<in> set (row # rows). ew_orderId row = i \<and> settled_proof S D (rd_env D k) row)" if "i \<in> set ids'" for i
        using 2(3) 1(3) that by (metis list.set_intros)
      with 1(2) 2(1,2) show ?thesis by (intro exI [of _ ids']) auto
    qed
  qed
qed

section \<open>Histories of the reconciler\<close>

record reconcile_history =
  rh_state :: reconcile_state
  rh_ticks :: "(reconcile_deps \<times> evidence_row list) list"

inductive reconcile_run :: "sdk \<Rightarrow> bool \<Rightarrow> reconcile_history \<Rightarrow> bool" for S where
  reconcile_first: "reconcile_run S True \<lparr> rh_state = \<lparr> rq_store = \<lparr> rc_log = [], rc_closed = {} \<rparr>, rq_advanced = [] \<rparr>, rh_ticks = [] \<rparr>"
| reconcile_tick:
    "reconcile_run S True h \<Longrightarrow> rd_resolve D = resolveGroundTruth S \<Longrightarrow> \<forall>row \<in> set rows. ew_orderId row \<noteq> [] \<Longrightarrow>
       reconcileOrders D rows (rh_state h) = (r, s) \<Longrightarrow>
       reconcile_run S (r \<noteq> Inl ReconcileDurable) \<lparr> rh_state = s, rh_ticks = rh_ticks h @ [(D, rows)] \<rparr>"
| reconcile_restart:
    "reconcile_run S up h \<Longrightarrow> open_reconciled (rc_log (rq_store (rh_state h))) = Inr st \<Longrightarrow>
       reconcile_run S True (h\<lparr> rh_state := (rh_state h)\<lparr> rq_store := st \<rparr> \<rparr>)"

definition proved_by :: "sdk \<Rightarrow> (reconcile_deps \<times> evidence_row list) list \<Rightarrow> ustring \<Rightarrow> bool" where
  "proved_by S ticks i \<longleftrightarrow> (\<exists>(D, rows) \<in> set ticks. \<exists>k. \<exists>row \<in> set rows. ew_orderId row = i \<and> settled_proof S D (rd_env D k) row)"

lemma reopened_reconciled: "shut.on_disk log ids \<Longrightarrow> open_reconciled log = Inr \<lparr> rc_log = log, rc_closed = set ids \<rparr>"
  using shut_replayed [of ids] by (simp add: open_reconciled_def shut.reads_back shut.replayed_def)

lemma reconcile_run_ok:
  "reconcile_run S up h \<Longrightarrow> \<exists>ids. closed_on_disk up ids (rh_state h) \<and> (\<forall>i \<in> set ids. proved_by S (rh_ticks h) i)"
proof (induction rule: reconcile_run.induct)
  case reconcile_first
  show ?case by (intro exI [of _ "[]"]) (simp add: closed_on_disk_def shut.on_disk_Nil)
next
  case (reconcile_tick h D rows r s)
  then obtain ids where ids: "closed_on_disk True ids (rh_state h)" "\<forall>i \<in> set ids. proved_by S (rh_ticks h) i" by blast
  from audit_rows_ok [OF reconcile_tick(2) ids(1) reconcile_tick(3) reconcile_tick(4) [unfolded reconcileOrders_def]] obtain ids' where
    "closed_on_disk (r \<noteq> Inl ReconcileDurable) ids' s"
    "\<forall>i \<in> set ids'. i \<in> set ids \<or> (\<exists>k. \<exists>row \<in> set rows. ew_orderId row = i \<and> settled_proof S D (rd_env D k) row)" by blast
  with ids(2) show ?case by (intro exI [of _ ids']) (fastforce simp: proved_by_def)
next
  case (reconcile_restart up h st)
  then obtain ids where ids: "closed_on_disk up ids (rh_state h)" "\<forall>i \<in> set ids. proved_by S (rh_ticks h) i" by blast
  with reconcile_restart(2) reopened_reconciled show ?case
    by (intro exI [of _ ids]) (auto simp: closed_on_disk_def)
qed


section \<open>An instance\<close>

text \<open>The payout of the report's instance: the pool announced 5 stroops, the token moved 5, and the transaction is on the chain.\<close>

definition demo_row :: evidence_row where
  "demo_row = \<lparr> ew_orderId = lit ''o'', ew_record = \<lparr> er_txHash = [], er_signedXdr = lit ''x'', er_seq = lit ''1'', er_witnessedAtUnix = 50 \<rparr>,
     ew_order = \<lparr> of_destination = lit ''M'', of_amountStroops = 5, of_memoHex = lit ''e'', of_appliedRateStroops = 7, of_paidPriceTry = lit ''1'',
       of_spreadKurus = 0, of_feeKurus = 0 \<rparr> \<rparr>"

definition demo_settlement :: settlement_observation where
  "demo_settlement = \<lparr> so_txIdHex = lit ''t'', so_txHash = [], so_ledger_seq = 3, so_ledgerCloseUnix = 60, so_contractId = lit ''POOL'',
     so_sourceAccount = lit ''OP'', so_merchant = lit ''M'', so_amountStroops = 5, so_appliedRateStroops = 7, so_memoHex = lit ''e'' \<rparr>"

definition demo_env :: row_env where
  "demo_env = \<lparr> rv_obs = newObservations\<lparr> ob_setByTxId := [(lit ''t'', demo_settlement)], ob_outByTx := [([], 5)] \<rparr>, rv_now = 70,
     rv_live = (\<lambda>_. Some (LiveSuccess 3)), rv_mark = Appended, rv_advance = True \<rparr>"

definition demo_reconcile :: reconcile_deps where
  "demo_reconcile = \<lparr> rd_upgrades = [], rd_env = (\<lambda>_. demo_env), rd_resolve = resolveGroundTruth demo_sdk, rd_deriveTxIdHex = (\<lambda>_. Some (lit ''t'')),
     rd_operatorPublic = lit ''OP'', rd_passphrase = lit ''n'', rd_advance = True, rd_unsettledGraceSecs = 600 \<rparr>"

lemma demo_artifacts:
  "intentOf demo_row = oi_business_intent demo_input"
  "\<lparr> le_signed_xdr = er_signedXdr (ew_record demo_row), le_hash = er_txHash (ew_record demo_row) \<rparr> = oi_ledger_evidence demo_input"
  "Some \<lparr> ce_tx_hash = so_txHash demo_settlement, ce_fetched_at_ledger = so_ledger_seq demo_settlement, ce_horizon_snapshot = snapshotOf demo_settlement \<rparr>
     = oi_chain_evidence demo_input"
  by (simp_all add: intentOf_def demo_row_def demo_input_def demo_settlement_def snapshotOf_def bigint_str_def nat_dec.simps digit_def char_of_def bit_0)

definition demo_start :: reconcile_state where
  "demo_start = \<lparr> rq_store = \<lparr> rc_log = [], rc_closed = {} \<rparr>, rq_advanced = [] \<rparr>"

definition demo_end :: reconcile_state where
  "demo_end = \<lparr> rq_store = \<lparr> rc_log = [encodeReconciled (lit ''o'')], rc_closed = {lit ''o''} \<rparr>, rq_advanced = [lit ''o''] \<rparr>"

lemma demo_audited: "audit_row demo_reconcile demo_env demo_row demo_start = (Inr RowReconciled, demo_end)"
proof -
  have "audit_row demo_reconcile demo_env demo_row demo_start = act_on demo_reconcile demo_env demo_row (gt MATCHED True True True []) demo_start"
    unfolding audit_row_def
    using demo_truth [of "lit ''n''"]
    by (simp add: demo_reconcile_def demo_env_def settlementByTxId_def outflowStroopsByTx_def demo_artifacts [symmetric] Let_def)
      (simp add: demo_settlement_def)
  then show ?thesis
    by (simp add: act_on_def gt_def mark_reconciled_def demo_start_def demo_end_def demo_env_def demo_reconcile_def demo_row_def logged_def Let_def)
qed

lemma demo_reconciled: "\<exists>rep. reconcileOrders demo_reconcile [demo_row] demo_start = (Inr rep, demo_end)"
  using demo_audited by (simp add: reconcileOrders_def demo_start_def) (simp add: demo_reconcile_def)


section \<open>What the latch pages\<close>

text \<open>A problem is fresh exactly when it can page and differs from what was last paged for its order.\<close>

lemma latch_problems_fresh:
  "fst (snd (latch_problems prev ps (c, f, u))) =
     f @ filter (\<lambda>p. alarmKey p \<noteq> None \<and> map_of prev (audit_orderId p) \<noteq> alarmKey p) ps"
proof (induction ps arbitrary: c f u)
  case (Cons p ps)
  then show ?case by (cases p) simp_all
qed simp

lemma latch_problems_unreachable:
  "snd (snd (latch_problems prev ps (c, f, u))) = u \<union> {i. \<exists>reason. Unreachable i reason \<in> set ps}"
proof (induction ps arbitrary: c f u)
  case (Cons p ps)
  then show ?case by (cases p) auto
qed simp

text \<open>The key a tick leaves for an order: that of its last problem that can page.\<close>

definition last_key :: "order_audit list \<Rightarrow> ustring \<Rightarrow> alarm_key option" where
  "last_key ps i = fold (\<lambda>p k. if audit_orderId p = i \<and> alarmKey p \<noteq> None then alarmKey p else k) ps None"

lemma latch_problems_current:
  "map_of (fst (latch_problems prev ps (c, f, u))) i =
     fold (\<lambda>p k. if audit_orderId p = i \<and> alarmKey p \<noteq> None then alarmKey p else k) ps (map_of c i)"
proof (induction ps arbitrary: c f u)
  case (Cons p ps)
  then show ?case by (cases p) simp_all
qed simp

lemma held_open:
  "map_of (fold (\<lambda>(orderId, key) m. if \<not> has_key m orderId \<and> orderId \<in> U then AList.update orderId key m else m) prev m) i =
     (if has_key m i then map_of m i else if i \<in> U then map_of prev i else None)"
proof (induction prev arbitrary: m)
  case (Cons x prev)
  obtain j key where x: "x = (j, key)" by (cases x)
  show ?case by (simp add: x Cons.IH) (auto simp: has_key_def split: option.splits)
qed (auto simp: has_key_def)

lemma latched_state:
  "map_of (rx_state (observeReconcile prev rep)) i =
     (case last_key (rp_problems rep) i of
        Some key \<Rightarrow> Some key
      | None \<Rightarrow> if \<exists>reason. Unreachable i reason \<in> set (rp_problems rep) then map_of prev i else None)"
proof -
  obtain c f u where l: "latch_problems prev (rp_problems rep) ([], [], {}) = (c, f, u)" by (cases "latch_problems prev (rp_problems rep) ([], [], {})")
  have "map_of c i = last_key (rp_problems rep) i" "u = {i. \<exists>reason. Unreachable i reason \<in> set (rp_problems rep)}"
    using latch_problems_current [of prev "rp_problems rep" "[]" "[]" "{}" i] latch_problems_unreachable [of prev "rp_problems rep" "[]" "[]" "{}"]
    by (simp_all add: l last_key_def)
  moreover have "rx_state (observeReconcile prev rep) =
      fold (\<lambda>(orderId, key) m. if \<not> has_key m orderId \<and> orderId \<in> u then AList.update orderId key m else m) prev c"
    by (simp add: observeReconcile_def l Let_def)
  then have "map_of (rx_state (observeReconcile prev rep)) i = (if has_key c i then map_of c i else if i \<in> u then map_of prev i else None)"
    by (simp only: held_open)
  ultimately show ?thesis by (auto simp: has_key_def split: option.splits)
qed

lemma fresh_iff:
  "rx_fresh (observeReconcile prev rep) = filter (\<lambda>p. alarmKey p \<noteq> None \<and> map_of prev (audit_orderId p) \<noteq> alarmKey p) (rp_problems rep)"
  using latch_problems_fresh [of prev "rp_problems rep" "[]" "[]" "{}"]
  by (auto simp: observeReconcile_def Let_def split: prod.split)

lemma resolved_iff:
  "set (rx_resolved (observeReconcile prev rep)) = {i. has_key prev i \<and> \<not> has_key (rx_state (observeReconcile prev rep)) i}"
  by (auto simp: observeReconcile_def Let_def has_key_iff split: prod.split)

text \<open>While every tick restates the problem or cannot look, the latch holds and nothing is paged for the order again.\<close>

lemma stuck_problem_pages_once:
  assumes "map_of prev i = Some key"
    and "\<forall>rep \<in> set reps. (\<exists>p \<in> set (rp_problems rep). audit_orderId p = i)
          \<and> (\<forall>p \<in> set (rp_problems rep). audit_orderId p = i \<longrightarrow> alarmKey p = Some key \<or> (\<exists>reason. p = Unreachable i reason))"
  shows "map_of (fold (\<lambda>rep st. rx_state (observeReconcile st rep)) reps prev) i = Some key
    \<and> (\<forall>k < length reps. \<forall>p \<in> set (rx_fresh (observeReconcile (fold (\<lambda>rep st. rx_state (observeReconcile st rep)) (take k reps) prev) (reps ! k))).
         audit_orderId p \<noteq> i)"
  using assms
proof (induction reps arbitrary: prev)
  case (Cons rep reps)
  have one: "(\<exists>p \<in> set ps. audit_orderId p = i) \<Longrightarrow>
      \<forall>p \<in> set ps. audit_orderId p = i \<longrightarrow> alarmKey p = Some key \<or> (\<exists>reason. p = Unreachable i reason) \<Longrightarrow>
      last_key ps i = Some key \<or> last_key ps i = None \<and> (\<exists>reason. Unreachable i reason \<in> set ps)" for ps
  proof (induction ps rule: rev_induct)
    case (snoc p ps)
    show ?case
    proof (cases "\<exists>p \<in> set ps. audit_orderId p = i")
      case True
      with snoc show ?thesis by (auto simp: last_key_def)
    next
      case False
      then have "last_key ps i = None" by (induction ps rule: rev_induct) (auto simp: last_key_def)
      with snoc.prems False show ?thesis by (cases p) (auto simp: last_key_def)
    qed
  qed simp
  have st: "map_of (rx_state (observeReconcile prev rep)) i = Some key"
    using one [of "rp_problems rep"] Cons.prems by (auto simp: latched_state)
  have now: "\<forall>p \<in> set (rx_fresh (observeReconcile prev rep)). audit_orderId p \<noteq> i"
    using Cons.prems by (auto simp: fresh_iff)
  show ?case
    using Cons.IH [OF st] Cons.prems(2) now by (auto simp: less_Suc_eq_0_disj)
qed simp

end
