(* ===== verification/Order_Codecs.thy ===== *)
theory Order_Codecs
  imports Order_Store Bank_Transfer
begin

text \<open>
  The two record formats of the order database: the facts of an order (\<^verbatim>\<open>composition/src/order-ctx-codec.ts\<close>) and the
  snapshot of a sequence allocator (\<^verbatim>\<open>composition/src/sqlite-sequence-store.ts\<close>). \<open>None\<close> as a payload is a text that is
  not JSON. The sequence number of an order is kept as the integer its text prints, so a text that is no decimal is
  refused here. Both formats interpret \<open>codec\<close>; what is decoded is well formed.
\<close>

section \<open>The facts of an order, order-ctx-codec.ts\<close>

datatype ctx_codec_error = CtxNotJson | CtxNotObject | CtxVersion | CtxField string

definition CTX_VERSION :: int where "CTX_VERSION = 3"

definition ACCEPTED_VERSIONS :: "int list" where "ACCEPTED_VERSIONS = [1, 2, 3]"

definition jopt :: "('a \<Rightarrow> json) \<Rightarrow> 'a option \<Rightarrow> json" where
  "jopt f v = (case v of None \<Rightarrow> JNull | Some x \<Rightarrow> f x)"

definition encode_instructions :: "bank_instructions \<Rightarrow> json" where
  "encode_instructions i =
     JObj ([(''providerId'', JStr (bi_providerId i)), (''transferId'', JStr (bi_transferId i)), (''orderId'', JStr (bi_orderId i)),
       (''reference'', JStr (bi_reference i)), (''iban'', JStr (bi_iban i)), (''beneficiary'', JStr (bi_beneficiary i)),
       (''amountTry'', JStr (bi_amountTry i)), (''currency'', JStr (lit ''TRY'')), (''expiresAtUnix'', JInt (bi_expiresAtUnix i))]
       @ (case bi_sandboxToken i of None \<Rightarrow> [] | Some t \<Rightarrow> [(''sandboxToken'', JStr t)]))"

fun method_text :: "payment_method \<Rightarrow> json" where
  "method_text Card = jtext ''card''"
| "method_text BankTransferMethod = jtext ''bank_transfer''"

definition encodeOrderCtx :: "order_ctx \<Rightarrow> json" where
  "encodeOrderCtx ctx = JObj
     [(''v'', JInt CTX_VERSION),
      (''paymentMethod'', method_text (cx_paymentMethod ctx)),
      (''bankTransfer'', jopt encode_instructions (cx_bankTransfer ctx)),
      (''bankExpiresAtUnix'', jopt JInt (cx_bankExpiresAtUnix ctx)),
      (''bankReview'', JBool (cx_bankReview ctx)),
      (''orderId'', JStr (cx_orderId ctx)),
      (''conversationId'', JStr (cx_conversationId ctx)),
      (''destination'', JStr (cx_destination ctx)),
      (''amountStroops'', jtext (bigint_str (cx_amountStroops ctx))),
      (''appliedRateStroops'', jtext (bigint_str (cx_appliedRateStroops ctx))),
      (''memoHex'', JStr (cx_memoHex ctx)),
      (''paymentId'', jopt JStr (cx_paymentId ctx)),
      (''token'', jopt JStr (cx_token ctx)),
      (''paymentPageUrl'', jopt JStr (cx_paymentPageUrl ctx)),
      (''paidPriceTry'', JStr (cx_paidPriceTry ctx)),
      (''spreadKurus'', jtext (bigint_str (cx_spreadKurus ctx))),
      (''feeKurus'', jtext (bigint_str (cx_feeKurus ctx))),
      (''currency'', JStr (cx_currency ctx)),
      (''ip'', JStr (cx_ip ctx)),
      (''activeSeq'', jopt (\<lambda>q. jtext (bigint_str q)) (cx_activeSeq ctx)),
      (''channelPublic'', jopt JStr (cx_channelPublic ctx)),
      (''hashHex'', jopt JStr (cx_hashHex ctx)),
      (''signedXdr'', jopt JStr (cx_signedXdr ctx)),
      (''payMaxTimeUnix'', jopt JInt (cx_payMaxTimeUnix ctx)),
      (''deadRetries'', JInt (int (cx_deadRetries ctx))),
      (''reversalRetries'', JInt (int (cx_reversalRetries ctx)))]"

text \<open>\<open>str\<close>, \<open>strOrNull\<close>, \<open>big\<close> and \<open>count\<close>.\<close>

definition cx_str :: "json \<Rightarrow> string \<Rightarrow> ctx_codec_error + ustring" where
  "cx_str obj f = (case jprop obj f of Some (JStr s) \<Rightarrow> Inr s | _ \<Rightarrow> Inl (CtxField f))"

definition cx_strOrNull :: "json \<Rightarrow> string \<Rightarrow> ctx_codec_error + ustring option" where
  "cx_strOrNull obj f = (case jprop obj f of Some JNull \<Rightarrow> Inr None | Some (JStr s) \<Rightarrow> Inr (Some s) | _ \<Rightarrow> Inl (CtxField f))"

definition cx_big :: "json \<Rightarrow> string \<Rightarrow> ctx_codec_error + int" where
  "cx_big obj f = (case decimal_prop obj f of Some i \<Rightarrow> Inr i | None \<Rightarrow> Inl (CtxField f))"

definition cx_count :: "json \<Rightarrow> string \<Rightarrow> ctx_codec_error + nat" where
  "cx_count obj f =
     (case jprop obj f of Some (JInt i) \<Rightarrow> (if \<not> is_safe_int i \<or> i < 0 then Inl (CtxField f) else Inr (nat i)) | _ \<Rightarrow> Inl (CtxField f))"

text \<open>The sequence text, read as the integer it prints.\<close>

definition cx_seqOrNull :: "json \<Rightarrow> string \<Rightarrow> ctx_codec_error + int option" where
  "cx_seqOrNull obj f = (case jprop obj f of Some JNull \<Rightarrow> Inr None | _ \<Rightarrow> bindR (cx_big obj f) (\<lambda>q. Inr (Some q)))"

definition cx_time :: "json \<Rightarrow> ctx_codec_error + int option" where
  "cx_time obj =
     (case jprop obj ''payMaxTimeUnix'' of
        Some JNull \<Rightarrow> Inr None
      | Some (JInt i) \<Rightarrow> if \<not> is_safe_int i then Inl (CtxField ''payMaxTimeUnix'') else Inr (Some i)
      | _ \<Rightarrow> Inl (CtxField ''payMaxTimeUnix''))"

text \<open>The bank fields of version 3: the method, the instructions, their deadline and the review flag.\<close>

type_synonym bank_fields = "payment_method \<times> bank_instructions option \<times> int option \<times> bool"

definition decode_bank_transfer :: "json \<Rightarrow> ctx_codec_error + bank_fields" where
  "decode_bank_transfer raw =
     (case (jprop raw ''bankExpiresAtUnix'', jprop raw ''bankReview'') of
        (Some (JInt expires), Some (JBool review)) \<Rightarrow>
          if \<not> is_safe_int expires \<or> expires \<le> 0 then Inl (CtxField ''bankExpiresAtUnix'')
          else (case jprop raw ''bankTransfer'' of
                  Some JNull \<Rightarrow> Inr (BankTransferMethod, None, Some expires, review)
                | Some v \<Rightarrow>
                    (case parseBankInstructions v of
                       None \<Rightarrow> Inl (CtxField ''bankTransfer'')
                     | Some i \<Rightarrow>
                         if jprop raw ''orderId'' \<noteq> Some (JStr (bi_orderId i)) \<or> jprop raw ''paidPriceTry'' \<noteq> Some (JStr (bi_amountTry i))
                            \<or> jprop raw ''token'' \<noteq> Some (JStr (bi_transferId i)) \<or> bi_expiresAtUnix i > expires
                         then Inl (CtxField ''bankTransfer'')
                         else Inr (BankTransferMethod, Some i, Some expires, review))
                | None \<Rightarrow> Inl (CtxField ''bankTransfer''))
      | _ \<Rightarrow> Inl (CtxField ''bankExpiresAtUnix''))"

definition decode_bank_fields :: "json \<Rightarrow> ctx_codec_error + bank_fields" where
  "decode_bank_fields raw =
     (if jprop raw ''v'' \<noteq> Some (JInt 3) then Inr (Card, None, None, False)
      else case jprop raw ''bankReview'' of
        Some (JBool review) \<Rightarrow>
          if jprop raw ''paymentMethod'' = Some (jtext ''bank_transfer'') then decode_bank_transfer raw
          else if jprop raw ''paymentMethod'' = Some (jtext ''card'') then
            (if jprop raw ''bankTransfer'' \<noteq> Some JNull \<or> jprop raw ''bankExpiresAtUnix'' \<noteq> Some JNull \<or> review
             then Inl (CtxField ''bankTransfer'') else Inr (Card, None, None, False))
          else Inl (CtxField ''paymentMethod'')
      | _ \<Rightarrow> Inl (CtxField ''paymentMethod''))"

definition decode_ctx_fields :: "json \<Rightarrow> int option \<Rightarrow> bank_fields \<Rightarrow> ctx_codec_error + order_ctx" where
  "decode_ctx_fields raw payMaxTimeUnix bank =
     (let (paymentMethod, bankTransfer, bankExpiresAtUnix, bankReview) = bank in
      bindR (cx_str raw ''orderId'') (\<lambda>orderId.
      bindR (cx_str raw ''conversationId'') (\<lambda>conversationId.
      bindR (cx_str raw ''destination'') (\<lambda>destination.
      bindR (cx_big raw ''amountStroops'') (\<lambda>amountStroops.
      bindR (cx_big raw ''appliedRateStroops'') (\<lambda>appliedRateStroops.
      bindR (cx_str raw ''memoHex'') (\<lambda>memoHex.
      bindR (cx_strOrNull raw ''paymentId'') (\<lambda>paymentId.
      bindR (cx_strOrNull raw ''token'') (\<lambda>token.
      bindR (cx_strOrNull raw ''paymentPageUrl'') (\<lambda>paymentPageUrl.
      bindR (cx_str raw ''paidPriceTry'') (\<lambda>paidPriceTry.
      bindR (cx_big raw ''spreadKurus'') (\<lambda>spreadKurus.
      bindR (cx_big raw ''feeKurus'') (\<lambda>feeKurus.
      bindR (cx_str raw ''currency'') (\<lambda>currency.
      bindR (cx_str raw ''ip'') (\<lambda>ip.
      bindR (cx_seqOrNull raw ''activeSeq'') (\<lambda>activeSeq.
      bindR (if jprop raw ''v'' = Some (JInt 1) then Inr None else cx_strOrNull raw ''channelPublic'') (\<lambda>channelPublic.
      bindR (cx_strOrNull raw ''hashHex'') (\<lambda>hashHex.
      bindR (cx_strOrNull raw ''signedXdr'') (\<lambda>signedXdr.
      bindR (cx_count raw ''deadRetries'') (\<lambda>deadRetries.
      bindR (cx_count raw ''reversalRetries'') (\<lambda>reversalRetries.
        Inr \<lparr> cx_paymentMethod = paymentMethod, cx_bankTransfer = bankTransfer, cx_bankExpiresAtUnix = bankExpiresAtUnix,
              cx_bankReview = bankReview, cx_orderId = orderId, cx_conversationId = conversationId, cx_destination = destination,
              cx_amountStroops = amountStroops, cx_appliedRateStroops = appliedRateStroops, cx_memoHex = memoHex,
              cx_paymentId = paymentId, cx_token = token, cx_paymentPageUrl = paymentPageUrl, cx_paidPriceTry = paidPriceTry,
              cx_spreadKurus = spreadKurus, cx_feeKurus = feeKurus, cx_currency = currency, cx_ip = ip, cx_activeSeq = activeSeq,
              cx_channelPublic = channelPublic, cx_hashHex = hashHex, cx_signedXdr = signedXdr, cx_payMaxTimeUnix = payMaxTimeUnix,
              cx_deadRetries = deadRetries, cx_reversalRetries = reversalRetries \<rparr>)))))))))))))))))))))"

definition decodeOrderCtx :: "json option \<Rightarrow> ctx_codec_error + order_ctx" where
  "decodeOrderCtx payload =
     (case payload of
        None \<Rightarrow> Inl CtxNotJson
      | Some raw \<Rightarrow>
          if \<not> is_jobject raw then Inl CtxNotObject
          else if \<not> (\<exists>v \<in> set ACCEPTED_VERSIONS. jprop raw ''v'' = Some (JInt v)) then Inl CtxVersion
          else bindR (cx_time raw) (\<lambda>payMaxTimeUnix. bindR (decode_bank_fields raw) (\<lambda>bank. decode_ctx_fields raw payMaxTimeUnix bank)))"

section \<open>The snapshot of an allocator, sqlite-sequence-store.ts\<close>

datatype seq_codec_error = SeqNotJson | SeqNotObject | SeqVersion | SeqBadShape | SeqBadRecord | SeqNonCanonical string | SeqBadKey

definition SNAPSHOT_VERSION :: int where "SNAPSHOT_VERSION = 1"

fun status_text :: "seq_status \<Rightarrow> json" where
  "status_text SeqActive = jtext ''active''"
| "status_text SeqBurned = jtext ''burned''"

definition encode_seq_record :: "seq_record \<Rightarrow> json" where
  "encode_seq_record r = JObj [(''seq'', jtext (bigint_str (sr_seq r))), (''orderId'', JStr (sr_orderId r)), (''status'', status_text (sr_status r))]"

definition encodeSequenceSnapshot :: "seq_snapshot \<Rightarrow> json" where
  "encodeSequenceSnapshot s = JObj
     [(''v'', JInt SNAPSHOT_VERSION),
      (''baseSeq'', jtext (bigint_str (ss_baseSeq s))),
      (''nextSeq'', jtext (bigint_str (ss_nextSeq s))),
      (''freeList'', JArr (map (\<lambda>n. jtext (bigint_str n)) (ss_freeList s))),
      (''records'', JArr (map encode_seq_record (ss_records s))),
      (''byOrder'', JArr (map (\<lambda>(orderId, seq). JArr [JStr orderId, jtext (bigint_str seq)]) (ss_byOrder s)))]"

text \<open>\<open>big\<close> on a value and on a property.\<close>

definition seq_big :: "string \<Rightarrow> json option \<Rightarrow> seq_codec_error + int" where
  "seq_big f v =
     (case v of
        Some (JStr u) \<Rightarrow>
          (case ascii_of u of
             Some t \<Rightarrow> if is_canonical_decimal t then Inr (str_bigint t) else Inl (SeqNonCanonical f)
           | None \<Rightarrow> Inl (SeqNonCanonical f))
      | _ \<Rightarrow> Inl (SeqNonCanonical f))"

definition decode_seq_record :: "json \<Rightarrow> seq_codec_error + seq_record" where
  "decode_seq_record rec =
     (case jprop rec ''orderId'' of
        Some (JStr orderId) \<Rightarrow>
          if jprop rec ''status'' = Some (jtext ''active'') then
            bindR (seq_big ''record.seq'' (jprop rec ''seq'')) (\<lambda>seq. Inr \<lparr> sr_seq = seq, sr_orderId = orderId, sr_status = SeqActive \<rparr>)
          else if jprop rec ''status'' = Some (jtext ''burned'') then
            bindR (seq_big ''record.seq'' (jprop rec ''seq'')) (\<lambda>seq. Inr \<lparr> sr_seq = seq, sr_orderId = orderId, sr_status = SeqBurned \<rparr>)
          else Inl SeqBadRecord
      | _ \<Rightarrow> Inl SeqBadRecord)"

text \<open>One pair of \<open>byOrder\<close> is destructured: the first two elements of an array, the first two code points of a text; any other
  value throws, and an element that is absent is \<open>undefined\<close>.\<close>

fun code_points :: "ustring \<Rightarrow> ustring list" where
  "code_points [] = []"
| "code_points [c] = [[c]]"
| "code_points (c # d # rest) = (if is_high c \<and> is_low d then [c, d] # code_points rest else [c] # code_points (d # rest))"

definition decode_by_order :: "json \<Rightarrow> seq_codec_error + ustring \<times> int" where
  "decode_by_order pair =
     (case (case pair of JArr vs \<Rightarrow> vs | JStr u \<Rightarrow> map JStr (code_points u) | _ \<Rightarrow> []) of
        JStr orderId # rest \<Rightarrow>
          bindR (seq_big ''byOrder[]'' (case rest of [] \<Rightarrow> None | v # _ \<Rightarrow> Some v)) (\<lambda>seq. Inr (orderId, seq))
      | _ \<Rightarrow> Inl SeqBadKey)"

definition decodeSequenceSnapshot :: "json option \<Rightarrow> seq_codec_error + seq_snapshot" where
  "decodeSequenceSnapshot payload =
     (case payload of
        None \<Rightarrow> Inl SeqNotJson
      | Some raw \<Rightarrow>
          if \<not> is_jobject raw then Inl SeqNotObject
          else if jprop raw ''v'' \<noteq> Some (JInt SNAPSHOT_VERSION) then Inl SeqVersion
          else (case (jprop raw ''freeList'', jprop raw ''records'', jprop raw ''byOrder'') of
                  (Some (JArr free), Some (JArr recs), Some (JArr pairs)) \<Rightarrow>
                    bindR (decode_all decode_seq_record recs) (\<lambda>records.
                    bindR (seq_big ''baseSeq'' (jprop raw ''baseSeq'')) (\<lambda>baseSeq.
                    bindR (seq_big ''nextSeq'' (jprop raw ''nextSeq'')) (\<lambda>nextSeq.
                    bindR (decode_all (\<lambda>n. seq_big ''freeList[]'' (Some n)) free) (\<lambda>freeList.
                    bindR (decode_all decode_by_order pairs) (\<lambda>byOrder.
                      Inr \<lparr> ss_baseSeq = baseSeq, ss_nextSeq = nextSeq, ss_freeList = freeList, ss_records = records, ss_byOrder = byOrder \<rparr>)))))
                | _ \<Rightarrow> Inl SeqBadShape))"

section \<open>The codec laws\<close>

lemma seq_big_bigint: "0 \<le> i \<Longrightarrow> seq_big f (Some (jtext (bigint_str i))) = Inr i"
  by (simp add: seq_big_def jtext_def ascii_of_bigint_str bigint_str_canonical str_bigint_bigint_str)

definition storable_snapshot :: "seq_snapshot \<Rightarrow> bool" where
  "storable_snapshot s \<longleftrightarrow> 0 \<le> ss_baseSeq s \<and> 0 \<le> ss_nextSeq s \<and> list_all (\<lambda>n. 0 \<le> n) (ss_freeList s)
     \<and> list_all (\<lambda>r. 0 \<le> sr_seq r) (ss_records s) \<and> list_all (\<lambda>(_, n). 0 \<le> n) (ss_byOrder s)"

lemma decode_encode_record: "0 \<le> sr_seq r \<Longrightarrow> decode_seq_record (encode_seq_record r) = Inr r"
  by (cases r; cases "sr_status r") (simp_all add: decode_seq_record_def encode_seq_record_def seq_big_bigint, simp_all add: jtext_def)

interpretation snapshot_codec: codec "\<lambda>s. Some (encodeSequenceSnapshot s)" decodeSequenceSnapshot storable_snapshot
proof unfold_locales
  fix s assume s: "storable_snapshot s"
  have r: "decode_all decode_seq_record (map encode_seq_record (ss_records s)) = Inr (ss_records s)"
    using s by (intro decode_all_map) (auto simp: storable_snapshot_def list_all_iff decode_encode_record)
  have f: "decode_all (\<lambda>n. seq_big ''freeList[]'' (Some n)) (map (\<lambda>n. jtext (bigint_str n)) (ss_freeList s)) = Inr (ss_freeList s)"
    using s by (intro decode_all_map) (auto simp: storable_snapshot_def list_all_iff seq_big_bigint)
  have b: "decode_all decode_by_order (map (\<lambda>(orderId, seq). JArr [JStr orderId, jtext (bigint_str seq)]) (ss_byOrder s)) = Inr (ss_byOrder s)"
    using s by (intro decode_all_map) (auto simp: storable_snapshot_def list_all_iff decode_by_order_def seq_big_bigint)
  show "decodeSequenceSnapshot (Some (encodeSequenceSnapshot s)) = Inr s"
    using s r f b by (simp add: decodeSequenceSnapshot_def encodeSequenceSnapshot_def storable_snapshot_def seq_big_bigint)
qed

text \<open>Instructions the parser returned are printed and read back as they are.\<close>

lemma parsed_instructions_again:
  assumes "parseBankInstructions v = Some i"
  shows "parseBankInstructions (encode_instructions i) = Some i"
proof -
  from assms obtain providerId transferId orderId reference beneficiary amountTry expires where
    t: "bank_text v ''providerId'' = Some providerId" "bank_text v ''transferId'' = Some transferId" "bank_text v ''orderId'' = Some orderId"
      "bank_text v ''reference'' = Some reference" "bank_text v ''beneficiary'' = Some beneficiary"
    and iban: "validTurkishIban (jprop v ''iban'')"
    and p: "positive_price (jprop v ''amountTry'') = Some amountTry" "positive_time (jprop v ''expiresAtUnix'') = Some expires"
    and i: "i = \<lparr> bi_providerId = providerId, bi_transferId = transferId, bi_orderId = orderId, bi_reference = reference,
        bi_iban = json_text (jprop v ''iban''), bi_beneficiary = beneficiary, bi_amountTry = amountTry, bi_expiresAtUnix = expires,
        bi_sandboxToken = sandbox_token v \<rparr>"
    by (auto simp: parseBankInstructions_def split: if_splits option.splits)
  have again: "bank_text v f = Some x \<Longrightarrow> jprop obj g = Some (JStr x) \<Longrightarrow> bank_text obj g = Some x" for f x obj g
    by (auto simp: bank_text_def split: option.splits json.splits if_splits)
  have iban': "jprop v ''iban'' = Some (JStr (json_text (jprop v ''iban'')))"
    using iban by (auto simp: validTurkishIban_def json_text_def split: option.splits json.splits)
  have price: "positive_price (Some (JStr amountTry)) = Some amountTry" and time: "positive_time (Some (JInt expires)) = Some expires"
    using p by (auto simp: positive_price_def positive_time_def split: option.splits json.splits if_splits)
  have provider: "jprop v ''providerId'' = Some (JStr providerId)"
    using t(1) by (auto simp: bank_text_def split: option.splits json.splits if_splits)
  let ?e = "encode_instructions i"
  have sandbox: "sandbox_token ?e = sandbox_token v"
    by (cases "sandbox_token v")
      (auto simp: sandbox_token_def provider i encode_instructions_def split: option.splits json.splits if_splits)
  have "bank_text ?e ''providerId'' = Some providerId" "bank_text ?e ''transferId'' = Some transferId" "bank_text ?e ''orderId'' = Some orderId"
    "bank_text ?e ''reference'' = Some reference" "bank_text ?e ''beneficiary'' = Some beneficiary"
    by (rule t [THEN again]; simp add: encode_instructions_def i)+
  moreover have "jprop ?e ''iban'' = jprop v ''iban''" using iban' by (simp add: encode_instructions_def i)
  ultimately show ?thesis
    using iban sandbox price time by (simp add: parseBankInstructions_def) (simp add: encode_instructions_def i)
qed

text \<open>The facts an engine holds: amounts are not negative, counters and times are safe integers, a card order has no bank fields
  and a bank order a positive deadline with, once opened, instructions of the parser that match the order.\<close>

definition storable_bank :: "order_ctx \<Rightarrow> bool" where
  "storable_bank ctx \<longleftrightarrow>
     (case cx_paymentMethod ctx of
        Card \<Rightarrow> cx_bankTransfer ctx = None \<and> cx_bankExpiresAtUnix ctx = None \<and> \<not> cx_bankReview ctx
      | BankTransferMethod \<Rightarrow>
          (\<exists>expires. cx_bankExpiresAtUnix ctx = Some expires \<and> is_safe_int expires \<and> 0 < expires
             \<and> (\<forall>i. cx_bankTransfer ctx = Some i \<longrightarrow> (\<exists>v. parseBankInstructions v = Some i) \<and> bi_orderId i = cx_orderId ctx
                  \<and> bi_amountTry i = cx_paidPriceTry ctx \<and> cx_token ctx = Some (bi_transferId i) \<and> bi_expiresAtUnix i \<le> expires)))"

definition storable_ctx :: "order_ctx \<Rightarrow> bool" where
  "storable_ctx ctx \<longleftrightarrow> storable_bank ctx \<and> 0 \<le> cx_amountStroops ctx \<and> 0 \<le> cx_appliedRateStroops ctx
     \<and> 0 \<le> cx_spreadKurus ctx \<and> 0 \<le> cx_feeKurus ctx \<and> (\<forall>q. cx_activeSeq ctx = Some q \<longrightarrow> 0 \<le> q)
     \<and> (\<forall>t. cx_payMaxTimeUnix ctx = Some t \<longrightarrow> is_safe_int t)
     \<and> is_safe_int (int (cx_deadRetries ctx)) \<and> is_safe_int (int (cx_reversalRetries ctx))"

lemma cx_big_bigint: "jprop obj f = Some (jtext (bigint_str i)) \<Longrightarrow> 0 \<le> i \<Longrightarrow> cx_big obj f = Inr i"
  by (simp add: cx_big_def decimal_prop_bigint)

lemma cx_str_JStr: "jprop obj f = Some (JStr s) \<Longrightarrow> cx_str obj f = Inr s"
  by (simp add: cx_str_def)

lemma cx_strOrNull_jopt: "jprop obj f = Some (jopt JStr v) \<Longrightarrow> cx_strOrNull obj f = Inr v"
  by (cases v) (simp_all add: cx_strOrNull_def jopt_def)

lemma cx_count_JInt: "jprop obj f = Some (JInt (int n)) \<Longrightarrow> is_safe_int (int n) \<Longrightarrow> cx_count obj f = Inr n"
  by (simp add: cx_count_def)

lemma cx_seqOrNull_jopt:
  assumes "jprop obj f = Some (jopt (\<lambda>q. jtext (bigint_str q)) v)" "\<forall>q. v = Some q \<longrightarrow> 0 \<le> q"
  shows "cx_seqOrNull obj f = Inr v"
proof (cases v)
  case None
  with assms show ?thesis by (simp add: cx_seqOrNull_def jopt_def)
next
  case (Some q)
  with assms have "cx_big obj f = Inr q" "jprop obj f = Some (JStr (lit (bigint_str q)))"
    by (simp_all add: jopt_def cx_big_bigint) (simp add: jtext_def)
  with Some show ?thesis by (simp add: cx_seqOrNull_def)
qed

lemmas cx_read = cx_big_bigint cx_str_JStr cx_strOrNull_jopt cx_count_JInt cx_seqOrNull_jopt

lemma cx_time_encoded:
  "storable_ctx ctx \<Longrightarrow> cx_time (encodeOrderCtx ctx) = Inr (cx_payMaxTimeUnix ctx)"
  by (cases "cx_payMaxTimeUnix ctx") (simp_all add: cx_time_def encodeOrderCtx_def jopt_def storable_ctx_def)

lemma bank_fields_encoded:
  assumes "storable_ctx ctx"
  shows "decode_bank_fields (encodeOrderCtx ctx)
    = Inr (cx_paymentMethod ctx, cx_bankTransfer ctx, cx_bankExpiresAtUnix ctx, cx_bankReview ctx)"
proof (cases "cx_paymentMethod ctx")
  case Card
  with assms show ?thesis
    by (simp add: decode_bank_fields_def encodeOrderCtx_def jopt_def storable_ctx_def storable_bank_def CTX_VERSION_def jtext_def)
next
  case BankTransferMethod
  with assms obtain expires where e: "cx_bankExpiresAtUnix ctx = Some expires" "is_safe_int expires" "0 < expires"
    and i: "\<And>i. cx_bankTransfer ctx = Some i \<Longrightarrow> (\<exists>v. parseBankInstructions v = Some i) \<and> bi_orderId i = cx_orderId ctx
        \<and> bi_amountTry i = cx_paidPriceTry ctx \<and> cx_token ctx = Some (bi_transferId i) \<and> bi_expiresAtUnix i \<le> expires"
    by (auto simp: storable_ctx_def storable_bank_def)
  have "decode_bank_transfer (encodeOrderCtx ctx)
      = Inr (BankTransferMethod, cx_bankTransfer ctx, cx_bankExpiresAtUnix ctx, cx_bankReview ctx)"
  proof (cases "cx_bankTransfer ctx")
    case None
    with e show ?thesis by (simp add: decode_bank_transfer_def encodeOrderCtx_def jopt_def)
  next
    case (Some instr)
    from i [OF Some] obtain v where "parseBankInstructions v = Some instr" by blast
    then have p: "parseBankInstructions (encode_instructions instr) = Some instr" by (rule parsed_instructions_again)
    obtain kvs where o: "encode_instructions instr = JObj kvs" by (simp add: encode_instructions_def)
    with e Some i [OF Some] p show ?thesis
      by (simp add: decode_bank_transfer_def encodeOrderCtx_def jopt_def)
  qed
  with BankTransferMethod show ?thesis
    by (simp add: decode_bank_fields_def) (simp add: encodeOrderCtx_def CTX_VERSION_def)
qed

interpretation ctx_codec: codec "\<lambda>ctx. Some (encodeOrderCtx ctx)" decodeOrderCtx storable_ctx
proof unfold_locales
  fix ctx assume s: "storable_ctx ctx"
  let ?raw = "encodeOrderCtx ctx"
  have head: "is_jobject ?raw" "jprop ?raw ''v'' = Some (JInt 3)" by (simp_all add: encodeOrderCtx_def CTX_VERSION_def)
  have fields: "cx_str ?raw ''orderId'' = Inr (cx_orderId ctx)" "cx_str ?raw ''conversationId'' = Inr (cx_conversationId ctx)"
    "cx_str ?raw ''destination'' = Inr (cx_destination ctx)" "cx_str ?raw ''memoHex'' = Inr (cx_memoHex ctx)"
    "cx_str ?raw ''paidPriceTry'' = Inr (cx_paidPriceTry ctx)" "cx_str ?raw ''currency'' = Inr (cx_currency ctx)"
    "cx_str ?raw ''ip'' = Inr (cx_ip ctx)" "cx_strOrNull ?raw ''paymentId'' = Inr (cx_paymentId ctx)"
    "cx_strOrNull ?raw ''token'' = Inr (cx_token ctx)" "cx_strOrNull ?raw ''paymentPageUrl'' = Inr (cx_paymentPageUrl ctx)"
    "cx_strOrNull ?raw ''channelPublic'' = Inr (cx_channelPublic ctx)" "cx_strOrNull ?raw ''hashHex'' = Inr (cx_hashHex ctx)"
    "cx_strOrNull ?raw ''signedXdr'' = Inr (cx_signedXdr ctx)"
    by (rule cx_read; simp add: encodeOrderCtx_def)+
  have nums: "cx_big ?raw ''amountStroops'' = Inr (cx_amountStroops ctx)" "cx_big ?raw ''appliedRateStroops'' = Inr (cx_appliedRateStroops ctx)"
    "cx_big ?raw ''spreadKurus'' = Inr (cx_spreadKurus ctx)" "cx_big ?raw ''feeKurus'' = Inr (cx_feeKurus ctx)"
    "cx_seqOrNull ?raw ''activeSeq'' = Inr (cx_activeSeq ctx)"
    "cx_count ?raw ''deadRetries'' = Inr (cx_deadRetries ctx)" "cx_count ?raw ''reversalRetries'' = Inr (cx_reversalRetries ctx)"
    using s by (intro cx_read; simp add: storable_ctx_def encodeOrderCtx_def)+
  show "decodeOrderCtx (Some ?raw) = Inr ctx"
    using cx_time_encoded [OF s] bank_fields_encoded [OF s]
    by (simp add: decodeOrderCtx_def head ACCEPTED_VERSIONS_def decode_ctx_fields_def fields nums)
qed

text \<open>What is decoded satisfies the rules of its own, whatever the row says.\<close>

lemma decoded_bank_fields:
  assumes "decode_bank_fields raw = Inr (m, Some i, expires, review)"
  shows "m = BankTransferMethod \<and> jprop raw ''orderId'' = Some (JStr (bi_orderId i)) \<and> jprop raw ''paidPriceTry'' = Some (JStr (bi_amountTry i))
    \<and> (\<exists>v. parseBankInstructions v = Some i)"
proof -
  have "decode_bank_transfer raw = Inr (m, Some i, expires, review)"
    using assms by (auto simp: decode_bank_fields_def split: option.splits json.splits if_splits)
  then show ?thesis
    by (auto simp: decode_bank_transfer_def split: option.splits json.splits if_splits)
qed

lemma decoded_instructions_match:
  assumes "decodeOrderCtx payload = Inr ctx" "cx_bankTransfer ctx = Some i"
  shows "cx_paymentMethod ctx = BankTransferMethod \<and> bi_orderId i = cx_orderId ctx \<and> bi_amountTry i = cx_paidPriceTry ctx"
proof -
  from assms(1) obtain raw t bank where b: "decode_bank_fields raw = Inr bank" and c: "decode_ctx_fields raw t bank = Inr ctx"
    by (auto simp: decodeOrderCtx_def bindR_Inr_iff split: option.splits if_splits)
  obtain m bt expires review where bank: "bank = (m, bt, expires, review)" by (cases bank)
  have "m = cx_paymentMethod ctx" "bt = cx_bankTransfer ctx" "cx_str raw ''orderId'' = Inr (cx_orderId ctx)" "cx_str raw ''paidPriceTry'' = Inr (cx_paidPriceTry ctx)"
    using c unfolding decode_ctx_fields_def bank Let_def prod.case bindR_Inr_iff by auto
  with b decoded_bank_fields [of raw m i expires review] assms(2) bank show ?thesis by (auto simp: cx_str_def)
qed

end
