(* ===== verification/Durable_Store.thy ===== *)
theory Durable_Store
  imports Order_Codecs
begin

text \<open>
  The durable twin of the store: the database (\<^verbatim>\<open>composition/src/order-db.ts\<close>), the store over it
  (\<^verbatim>\<open>sqlite-order-store.ts\<close>), its sequence and channel tables (\<^verbatim>\<open>sqlite-sequence-store.ts\<close>) and the registry of orders
  (\<^verbatim>\<open>sqlite-order-registry.ts\<close>). A table is a map from its primary key in insertion order; a statement changes the tables at
  once, and one that fails ends the process, so the histories let the process die between any two writes.

  The lemmas show that the store answers every sequence of calls as the in-memory store does, what a restart finds, and
  that a recovered order never resumes behind a submission.
\<close>

section \<open>The database, order-db.ts\<close>

datatype retry_kind = RetryDead | RetryReversal | RetryRevertOther

record reservation_row =
  rsv_amount :: int
  rsv_reservedAtMs :: int
  rsv_expiresAtMs :: int
  rsv_settled :: bool

record registry_row =
  rg_ctx_json :: json
  rg_state :: state
  rg_conversation_id :: ustring

record order_db =
  db_store_orders :: "(ustring, order_row) jsmap"
  db_registry_orders :: "(ustring, registry_row) jsmap"
  db_reservations :: "(ustring, reservation_row) jsmap"
  db_retry_counters :: "(ustring \<times> retry_kind, nat) jsmap"
  db_webhooks :: "(ustring, ustring \<times> int) jsmap"
  db_losses :: "(ustring \<times> loss_bucket, ustring option \<times> int) jsmap"
  db_seq_snapshots :: "(ustring, json) jsmap"
  db_channel_map :: "(ustring, ustring) jsmap"

text \<open>What \<open>SCHEMA\<close> creates.\<close>

definition empty_db :: order_db where
  "empty_db = \<lparr> db_store_orders = [], db_registry_orders = [], db_reservations = [], db_retry_counters = [], db_webhooks = [],
     db_losses = [], db_seq_snapshots = [], db_channel_map = [] \<rparr>"

section \<open>The sequence and channel tables, sqlite-sequence-store.ts\<close>

definition read_snapshot :: "ustring \<Rightarrow> order_db \<Rightarrow> seq_codec_error + seq_snapshot option" where
  "read_snapshot scope db =
     (case map_of (db_seq_snapshots db) scope of
        None \<Rightarrow> Inr None
      | Some j \<Rightarrow> bindR (decodeSequenceSnapshot (Some j)) (\<lambda>s. Inr (Some s)))"

definition write_snapshot :: "ustring \<Rightarrow> seq_snapshot \<Rightarrow> order_db \<Rightarrow> order_db" where
  "write_snapshot scope s db = db\<lparr> db_seq_snapshots := AList.update scope (encodeSequenceSnapshot s) (db_seq_snapshots db) \<rparr>"

definition read_channel_map :: "order_db \<Rightarrow> (ustring \<times> ustring) list option" where
  "read_channel_map db = (if length (db_channel_map db) = 0 then None else Some (db_channel_map db))"

text \<open>A second row for one order is the constraint violation that rolls the transaction back (\<open>None\<close>).\<close>

fun insert_channels :: "(ustring \<times> ustring) list \<Rightarrow> (ustring, ustring) jsmap \<Rightarrow> (ustring, ustring) jsmap option" where
  "insert_channels [] m = Some m"
| "insert_channels ((orderId, channel) # rest) m =
     (if has_key m orderId then None else insert_channels rest (AList.update orderId channel m))"

definition write_channel_map :: "(ustring \<times> ustring) list \<Rightarrow> order_db \<Rightarrow> bool \<times> order_db" where
  "write_channel_map entries db =
     (case insert_channels entries [] of None \<Rightarrow> (False, db) | Some m \<Rightarrow> (True, db\<lparr> db_channel_map := m \<rparr>))"

lemma channel_map_roundtrip:
  assumes "distinct (map fst entries)" "entries \<noteq> []"
  shows "\<exists>db'. write_channel_map entries db = (True, db') \<and> read_channel_map db' = Some entries"
proof -
  have "insert_channels entries m = Some (m @ entries)" if "distinct (map fst (m @ entries))" for m
    using that
  proof (induction entries arbitrary: m)
    case (Cons x entries)
    then show ?case by (cases x) (auto simp: has_key_iff update_absent)
  qed simp
  from this [of "[]"] assms show ?thesis by (simp add: write_channel_map_def read_channel_map_def)
qed

section \<open>The store, sqlite-order-store.ts\<close>

record sqlite_store =
  sq_db :: order_db
  sq_sequences :: seq_alloc
  sq_balance :: int
  sq_evidence :: "evidence_row list"
  sq_evidenceLog :: "json list option"

record boot_report =
  bo_settledReservationsDropped :: nat
  bo_heldReservationsReplayed :: nat

definition OPERATOR :: ustring where "OPERATOR = lit ''operator''"

text \<open>\<open>DELETE FROM reservations\<close> with a condition, and the number of rows it changed.\<close>

definition delete_reservations :: "(ustring \<Rightarrow> reservation_row \<Rightarrow> bool) \<Rightarrow> nat \<times> order_db \<Rightarrow> nat \<times> order_db" where
  "delete_reservations P x =
     (let (n, db) = x; gone = filter (\<lambda>(k, r). P k r) (db_reservations db) in
      (n + length gone, db\<lparr> db_reservations := filter (\<lambda>(k, r). \<not> P k r) (db_reservations db) \<rparr>))"

definition boot_sweep :: "evidence_row list \<Rightarrow> order_db \<Rightarrow> boot_report \<times> order_db" where
  "boot_sweep seedEvidence db =
     (let (dropped, db) = fold (\<lambda>row. delete_reservations (\<lambda>k r. k = ew_orderId row)) seedEvidence
            (delete_reservations (\<lambda>k r. rsv_settled r) (0, db)) in
      (\<lparr> bo_settledReservationsDropped = dropped, bo_heldReservationsReplayed = length (db_reservations db) \<rparr>, db))"

definition newSqliteStore ::
    "order_db \<Rightarrow> int \<Rightarrow> int \<Rightarrow> json list option \<Rightarrow> evidence_row list \<Rightarrow> seq_codec_error + boot_report \<times> sqlite_store" where
  "newSqliteStore db balanceStroops baseSeq evidenceLog seedEvidence =
     bindR (read_snapshot OPERATOR db) (\<lambda>snap.
       let sequences = newAllocator snap baseSeq;
           db = (case snap of None \<Rightarrow> write_snapshot OPERATOR (snapshot sequences) db | Some _ \<Rightarrow> db);
           (report, db) = boot_sweep seedEvidence db in
       Inr (report, \<lparr> sq_db = db, sq_sequences = sequences, sq_balance = balanceStroops, sq_evidence = seedEvidence, sq_evidenceLog = evidenceLog \<rparr>))"

definition sql_availableStroops :: "sqlite_store \<Rightarrow> int" where
  "sql_availableStroops s = sq_balance s - fold (\<lambda>(_, r) sum. sum + rsv_amount r) (db_reservations (sq_db s)) 0"

definition sql_reserve :: "ustring \<Rightarrow> int \<Rightarrow> int \<Rightarrow> int \<Rightarrow> sqlite_store \<Rightarrow> reserve_outcome \<times> sqlite_store" where
  "sql_reserve orderId amountStroops ttlMs nowMs s =
     (case map_of (db_reservations (sq_db s)) orderId of
        Some existing \<Rightarrow>
          if rsv_amount existing \<noteq> amountStroops then (Insufficient (sql_availableStroops s) amountStroops, s)
          else (ReserveOk (lit ''res-'' @ orderId), s)
      | None \<Rightarrow>
          let available = sql_availableStroops s in
          if available < amountStroops then (Insufficient available amountStroops, s)
          else (ReserveOk (lit ''res-'' @ orderId),
            s\<lparr> sq_db := (sq_db s)\<lparr> db_reservations := AList.update orderId
                 \<lparr> rsv_amount = amountStroops, rsv_reservedAtMs = nowMs, rsv_expiresAtMs = nowMs + ttlMs, rsv_settled = False \<rparr>
                 (db_reservations (sq_db s)) \<rparr> \<rparr>))"

definition sql_releaseReservation :: "ustring \<Rightarrow> sqlite_store \<Rightarrow> sqlite_store" where
  "sql_releaseReservation orderId s =
     s\<lparr> sq_db := (sq_db s)\<lparr> db_reservations := AList.delete orderId (db_reservations (sq_db s)) \<rparr> \<rparr>"

definition sql_creditPool :: "int \<Rightarrow> sqlite_store \<Rightarrow> (reservation_error + unit) \<times> sqlite_store" where
  "sql_creditPool stroops s =
     (if stroops \<le> 0 then (Inl CreditNotPositive, s) else (Inr (), s\<lparr> sq_balance := sq_balance s + stroops \<rparr>))"

definition sql_createIfAbsent :: "ustring \<Rightarrow> sqlite_store \<Rightarrow> bool \<times> sqlite_store" where
  "sql_createIfAbsent orderId s =
     (if has_key (db_store_orders (sq_db s)) orderId then (False, s)
      else (True, s\<lparr> sq_db := (sq_db s)\<lparr> db_store_orders := AList.update orderId
              \<lparr> or_state = Reserved, or_seq = None, or_paymentId = None, or_hashHex = None, or_signedXdr = None, or_channelPublic = None \<rparr>
              (db_store_orders (sq_db s)) \<rparr> \<rparr>))"

text \<open>The upsert: a new row takes the patch, an old one keeps what the patch leaves out (\<open>COALESCE\<close>).\<close>

definition sql_persistState :: "ustring \<Rightarrow> state \<Rightarrow> in_flight_patch \<Rightarrow> sqlite_store \<Rightarrow> sqlite_store" where
  "sql_persistState orderId next patch s =
     (let excluded = \<lparr> or_state = next, or_seq = ip_seq patch, or_paymentId = ip_paymentId patch, or_hashHex = ip_hashHex patch,
            or_signedXdr = ip_signedXdr patch, or_channelPublic = ip_channelPublic patch \<rparr>;
          row = (case map_of (db_store_orders (sq_db s)) orderId of
              None \<Rightarrow> excluded
            | Some old \<Rightarrow> \<lparr> or_state = or_state excluded, or_seq = patched (or_seq excluded) (or_seq old),
                or_paymentId = patched (or_paymentId excluded) (or_paymentId old), or_hashHex = patched (or_hashHex excluded) (or_hashHex old),
                or_signedXdr = patched (or_signedXdr excluded) (or_signedXdr old),
                or_channelPublic = patched (or_channelPublic excluded) (or_channelPublic old) \<rparr>) in
      s\<lparr> sq_db := (sq_db s)\<lparr> db_store_orders := AList.update orderId row (db_store_orders (sq_db s)) \<rparr> \<rparr>)"

definition sql_flagLoss :: "ustring \<Rightarrow> loss_bucket \<Rightarrow> ustring option \<Rightarrow> sqlite_store \<Rightarrow> sqlite_store" where
  "sql_flagLoss orderId bucket usdcTxHash s =
     (if has_key (db_losses (sq_db s)) (orderId, bucket) then s
      else s\<lparr> sq_db := (sq_db s)\<lparr> db_losses := AList.update (orderId, bucket) (usdcTxHash, 0) (db_losses (sq_db s)) \<rparr> \<rparr>)"

definition sql_isLossFlagged :: "sqlite_store \<Rightarrow> ustring \<Rightarrow> bool" where
  "sql_isLossFlagged s orderId = list_ex (\<lambda>((k, b), _). k = orderId) (db_losses (sq_db s))"

definition sql_markWebhookSeen :: "ustring \<Rightarrow> ustring \<Rightarrow> int \<Rightarrow> sqlite_store \<Rightarrow> bool \<times> sqlite_store" where
  "sql_markWebhookSeen eventId orderId nowMs s =
     (if has_key (db_webhooks (sq_db s)) eventId then (False, s)
      else (True, s\<lparr> sq_db := (sq_db s)\<lparr> db_webhooks := AList.update eventId (orderId, nowMs) (db_webhooks (sq_db s)) \<rparr> \<rparr>))"

text \<open>\<open>UPDATE reservations SET settled = 1\<close>.\<close>

definition mark_settled :: "ustring \<Rightarrow> order_db \<Rightarrow> order_db" where
  "mark_settled orderId db =
     db\<lparr> db_reservations := map (\<lambda>(k, r). (k, if k = orderId then r\<lparr> rsv_settled := True \<rparr> else r)) (db_reservations db) \<rparr>"

text \<open>The log first; then the mark; then the memory. \<open>log_evidence\<close> is the first write alone.\<close>

definition log_evidence :: "evidence_row \<Rightarrow> sqlite_store \<Rightarrow> sqlite_store" where
  "log_evidence row s = s\<lparr> sq_evidenceLog := map_option (\<lambda>log. log @ [encodeEvidenceRow row]) (sq_evidenceLog s) \<rparr>"

definition sql_appendEvidence ::
    "bool \<Rightarrow> ustring \<Rightarrow> evidence_record \<Rightarrow> order_facts \<Rightarrow> sqlite_store \<Rightarrow> (unit + unit) \<times> sqlite_store" where
  "sql_appendEvidence disk_ok orderId record order s =
     (let row = \<lparr> ew_orderId = orderId, ew_record = record, ew_order = order \<rparr> in
      if sq_evidenceLog s \<noteq> None \<and> \<not> disk_ok then (Inl (), s)
      else let s = log_evidence row s;
               s = s\<lparr> sq_db := mark_settled orderId (sq_db s) \<rparr> in
        (Inr (), s\<lparr> sq_evidence := sq_evidence s @ [row] \<rparr>))"

definition bump :: "retry_kind \<Rightarrow> ustring \<Rightarrow> sqlite_store \<Rightarrow> nat \<times> sqlite_store" where
  "bump kind orderId s =
     (let n = (case map_of (db_retry_counters (sq_db s)) (orderId, kind) of None \<Rightarrow> 1 | Some n \<Rightarrow> n + 1) in
      (n, s\<lparr> sq_db := (sq_db s)\<lparr> db_retry_counters := AList.update (orderId, kind) n (db_retry_counters (sq_db s)) \<rparr> \<rparr>))"

definition retryCounts :: "sqlite_store \<Rightarrow> ustring \<Rightarrow> nat \<times> nat" where
  "retryCounts s orderId =
     fold (\<lambda>((k, kind), n) (dead, reversal).
        if k = orderId \<and> kind = RetryDead then (n, reversal)
        else if k = orderId \<and> kind = RetryReversal then (dead, n)
        else (dead, reversal)) (db_retry_counters (sq_db s)) (0, 0)"

definition orderRow :: "sqlite_store \<Rightarrow> ustring \<Rightarrow> order_row option" where
  "orderRow s orderId = map_of (db_store_orders (sq_db s)) orderId"

definition lossRecords :: "sqlite_store \<Rightarrow> loss_row list" where
  "lossRecords s = map (\<lambda>((k, b), (h, at)). \<lparr> lr_orderId = k, lr_bucket = b, lr_usdcTxHash = h, lr_atMs = at \<rparr>) (db_losses (sq_db s))"

definition sql_confirmedOrders :: "sqlite_store \<Rightarrow> (ustring \<times> order_facts) list" where
  "sql_confirmedOrders s = confirmed_loop [] (sq_evidence s)"

definition sql_settledEvidence :: "sqlite_store \<Rightarrow> ustring \<Rightarrow> evidence_row option" where
  "sql_settledEvidence s orderId = find (\<lambda>r. ew_orderId r = orderId) (sq_evidence s)"

text \<open>A call of the allocator, with the snapshot it writes through.\<close>

definition sql_sequence :: "(ustring \<Rightarrow> ustring) \<Rightarrow> seq_op \<Rightarrow> sqlite_store \<Rightarrow> sqlite_store" where
  "sql_sequence nfc oper s =
     (let a = alloc_step nfc oper (sq_sequences s) in
      s\<lparr> sq_sequences := a, sq_db := (case sa_store a of None \<Rightarrow> sq_db s | Some snap \<Rightarrow> write_snapshot OPERATOR snap (sq_db s)) \<rparr>)"

section \<open>The calls, with their answers\<close>

datatype store_answer =
    AnsReserve reserve_outcome
  | AnsCredit "reservation_error + unit"
  | AnsFlag bool
  | AnsEvidence "unit + unit"
  | AnsCount nat
  | AnsDone

fun memory_call :: "(ustring \<Rightarrow> ustring) \<Rightarrow> store_op \<Rightarrow> store \<Rightarrow> store_answer \<times> store" where
  "memory_call nfc (SoReserve ord a t n) s = apfst AnsReserve (store_reserve ord a t n s)"
| "memory_call nfc (SoRelease ord) s = (AnsDone, releaseReservation ord s)"
| "memory_call nfc (SoCredit a) s = apfst AnsCredit (creditPool a s)"
| "memory_call nfc (SoCreate ord) s = apfst AnsFlag (createIfAbsent ord s)"
| "memory_call nfc (SoPersist ord st p) s = (AnsDone, persistState ord st p s)"
| "memory_call nfc (SoFlag ord b h) s = (AnsDone, flagLoss ord b h s)"
| "memory_call nfc (SoWebhook e ord n) s = apfst AnsFlag (markWebhookSeen e ord n s)"
| "memory_call nfc (SoEvidence ok ord r f) s = apfst AnsEvidence (appendEvidence ok ord r f s)"
| "memory_call nfc (SoBumpDead ord) s = apfst AnsCount (bumpDeadRetries ord s)"
| "memory_call nfc (SoBumpReversal ord) s = apfst AnsCount (bumpReversalRetries ord s)"
| "memory_call nfc (SoBumpRevert ord) s = apfst AnsCount (bumpRevertOtherRetries ord s)"
| "memory_call nfc (SoSequence oper) s = (AnsDone, s\<lparr> so_sequences := alloc_step nfc oper (so_sequences s) \<rparr>)"

fun sqlite_call :: "(ustring \<Rightarrow> ustring) \<Rightarrow> store_op \<Rightarrow> sqlite_store \<Rightarrow> store_answer \<times> sqlite_store" where
  "sqlite_call nfc (SoReserve ord a t n) s = apfst AnsReserve (sql_reserve ord a t n s)"
| "sqlite_call nfc (SoRelease ord) s = (AnsDone, sql_releaseReservation ord s)"
| "sqlite_call nfc (SoCredit a) s = apfst AnsCredit (sql_creditPool a s)"
| "sqlite_call nfc (SoCreate ord) s = apfst AnsFlag (sql_createIfAbsent ord s)"
| "sqlite_call nfc (SoPersist ord st p) s = (AnsDone, sql_persistState ord st p s)"
| "sqlite_call nfc (SoFlag ord b h) s = (AnsDone, sql_flagLoss ord b h s)"
| "sqlite_call nfc (SoWebhook e ord n) s = apfst AnsFlag (sql_markWebhookSeen e ord n s)"
| "sqlite_call nfc (SoEvidence ok ord r f) s = apfst AnsEvidence (sql_appendEvidence ok ord r f s)"
| "sqlite_call nfc (SoBumpDead ord) s = apfst AnsCount (bump RetryDead ord s)"
| "sqlite_call nfc (SoBumpReversal ord) s = apfst AnsCount (bump RetryReversal ord s)"
| "sqlite_call nfc (SoBumpRevert ord) s = apfst AnsCount (bump RetryRevertOther ord s)"
| "sqlite_call nfc (SoSequence oper) s = (AnsDone, sql_sequence nfc oper s)"

fun answers_of :: "('op \<Rightarrow> 's \<Rightarrow> 'r \<times> 's) \<Rightarrow> 'op list \<Rightarrow> 's \<Rightarrow> 'r list \<times> 's" where
  "answers_of call [] s = ([], s)"
| "answers_of call (c # cs) s = (let (r, s) = call c s; (rs, s) = answers_of call cs s in (r # rs, s))"

section \<open>The durable store refines the in-memory store\<close>

text \<open>A relation between two stores that every call keeps, with equal answers: then every sequence of calls is answered alike.\<close>

locale call_simulation =
  fixes abstract :: "'op \<Rightarrow> 'a \<Rightarrow> 'r \<times> 'a" and concrete :: "'op \<Rightarrow> 'c \<Rightarrow> 'r \<times> 'c" and rel :: "'c \<Rightarrow> 'a \<Rightarrow> bool"
  assumes step: "rel c a \<Longrightarrow> \<exists>r c' a'. concrete x c = (r, c') \<and> abstract x a = (r, a') \<and> rel c' a'"
begin

lemma run: "rel c a \<Longrightarrow> \<exists>rs c' a'. answers_of concrete xs c = (rs, c') \<and> answers_of abstract xs a = (rs, a') \<and> rel c' a'"
proof (induction xs arbitrary: c a)
  case (Cons x xs)
  from step [OF Cons.prems, of x] obtain r c1 a1 where "concrete x c = (r, c1)" "abstract x a = (r, a1)" "rel c1 a1" by blast
  with Cons.IH [of c1 a1] show ?case by auto
qed simp

end

definition memory_reservation :: "ustring \<times> reservation_row \<Rightarrow> ustring \<times> reservation" where
  "memory_reservation x = (let (k, r) = x in
     (k, \<lparr> rv_reservationId = lit ''res-'' @ k, rv_amountStroops = rsv_amount r, rv_reservedAtMs = rsv_reservedAtMs r, rv_expiresAtMs = rsv_expiresAtMs r \<rparr>))"

definition of_kind :: "retry_kind \<Rightarrow> (ustring \<times> retry_kind, nat) jsmap \<Rightarrow> (ustring, nat) jsmap" where
  "of_kind kind m = map (\<lambda>((k, _), n). (k, n)) (filter (\<lambda>((_, kind'), _). kind' = kind) m)"

text \<open>The memory store with the rows of the tables; its loss latch is the set of the keys of the loss table.\<close>

definition same_rows :: "sqlite_store \<Rightarrow> store \<Rightarrow> bool" where
  "same_rows s t \<longleftrightarrow>
     so_sequences t = sq_sequences s
     \<and> so_ledger t = \<lparr> rl_balanceStroops = sq_balance s, rl_reservations = map memory_reservation (db_reservations (sq_db s)) \<rparr>
     \<and> so_orders t = db_store_orders (sq_db s) \<and> so_webhooks t = db_webhooks (sq_db s)
     \<and> so_evidence t = sq_evidence s \<and> so_evidenceLog t = sq_evidenceLog s
     \<and> so_losses t = lossRecords s \<and> loss_inv t
     \<and> so_deadRetries t = of_kind RetryDead (db_retry_counters (sq_db s))
     \<and> so_reversalRetries t = of_kind RetryReversal (db_retry_counters (sq_db s))
     \<and> so_revertOtherRetries t = of_kind RetryRevertOther (db_retry_counters (sq_db s))"

lemma memory_reservation_of: "map_of (map memory_reservation m) k = map_option (\<lambda>r. snd (memory_reservation (k, r))) (map_of m k)"
  by (induction m) (auto simp: memory_reservation_def)

lemma memory_update: "map memory_reservation (AList.update k r m) = AList.update k (snd (memory_reservation (k, r))) (map memory_reservation m)"
  by (induction m) (auto simp: memory_reservation_def)

lemma memory_delete: "map memory_reservation (AList.delete k m) = AList.delete k (map memory_reservation m)"
  by (induction m) (auto simp: memory_reservation_def)

lemma memory_sum: "fold (\<lambda>(_, r) sum. sum + rv_amountStroops r) (map memory_reservation m) n = fold (\<lambda>(_, r) sum. sum + rsv_amount r) m n"
  by (induction m arbitrary: n) (auto simp: memory_reservation_def)

lemma of_kind_of: "map_of (of_kind kind m) k = map_of m (k, kind)"
  by (induction m) (auto simp: of_kind_def)

lemma of_kind_update:
  "of_kind kind (AList.update (k, kind') n m) = (if kind' = kind then AList.update k n (of_kind kind m) else of_kind kind m)"
  by (induction m) (auto simp: of_kind_def)

lemma same_available: "same_rows s t \<Longrightarrow> availableStroops t = sql_availableStroops s"
  by (simp add: same_rows_def availableStroops_def available_def sumReserved_def sql_availableStroops_def memory_sum)

lemma same_flagged: "same_rows s t \<Longrightarrow> isLossFlagged t i = sql_isLossFlagged s i"
proof -
  assume s: "same_rows s t"
  have "isLossFlagged t i \<longleftrightarrow> (\<exists>b. (i, b) \<in> flagged t)"
    using s by (fastforce simp: isLossFlagged_def has_key_def flagged_def same_rows_def loss_inv_def)
  also have "\<dots> \<longleftrightarrow> (\<exists>b. (i, b) \<in> set (loss_keys t))" using s by (simp add: same_rows_def loss_inv_def)
  also have "\<dots> \<longleftrightarrow> sql_isLossFlagged s i"
    using s by (force simp: same_rows_def loss_keys_def lossRecords_def sql_isLossFlagged_def list_ex_iff)
  finally show ?thesis .
qed

lemma loss_inv_frame [simp]:
  "loss_inv (t\<lparr> so_ledger := a \<rparr>) = loss_inv t" "loss_inv (t\<lparr> so_orders := b \<rparr>) = loss_inv t"
  "loss_inv (t\<lparr> so_webhooks := c \<rparr>) = loss_inv t" "loss_inv (t\<lparr> so_evidence := d \<rparr>) = loss_inv t"
  "loss_inv (t\<lparr> so_evidenceLog := l \<rparr>) = loss_inv t" "loss_inv (t\<lparr> so_deadRetries := f \<rparr>) = loss_inv t"
  "loss_inv (t\<lparr> so_reversalRetries := g \<rparr>) = loss_inv t" "loss_inv (t\<lparr> so_revertOtherRetries := h \<rparr>) = loss_inv t"
  "loss_inv (t\<lparr> so_sequences := q \<rparr>) = loss_inv t"
  by (rule loss_inv_cong; simp)+

lemmas call_defs = store_reserve_def reserve_def reserve_begin_def reserve_end_def commit_def reservationFor_def releaseReservation_def
  release_reservation_def creditPool_def credit_def createIfAbsent_def persistState_def markWebhookSeen_def appendEvidence_def
  bumpDeadRetries_def bumpReversalRetries_def bumpRevertOtherRetries_def retry_count_def
  sql_reserve_def sql_releaseReservation_def sql_creditPool_def sql_createIfAbsent_def sql_persistState_def sql_markWebhookSeen_def
  sql_appendEvidence_def log_evidence_def mark_settled_def bump_def

lemma patched_None [simp]: "patched v None = v"
  by (cases v) (simp_all add: patched_def)

lemma same_rows_flag:
  assumes s: "same_rows s t"
  shows "same_rows (sql_flagLoss i b h s) (flagLoss i b h t)"
proof -
  have "has_key (db_losses (sq_db s)) (i, b) \<longleftrightarrow> (i, b) \<in> set (loss_keys t)"
    using s by (force simp: same_rows_def loss_keys_def lossRecords_def has_key_iff)
  then have k: "has_key (db_losses (sq_db s)) (i, b) \<longleftrightarrow> b \<in> set (case map_of (so_lossBuckets t) i of None \<Rightarrow> [] | Some bs \<Rightarrow> bs)"
    using s by (auto simp: same_rows_def loss_inv_def flagged_def split: option.splits)
  have "so_losses (flagLoss i b h t) = lossRecords (sql_flagLoss i b h s)"
    using s k by (auto simp: flagLoss_def sql_flagLoss_def lossRecords_def same_rows_def Let_def has_key_iff update_absent split: if_splits)
  moreover have "loss_inv (flagLoss i b h t)" using s flagLoss_inv by (simp add: same_rows_def)
  moreover have "so_webhooks (flagLoss i b h t) = so_webhooks t" by (simp add: flagLoss_def Let_def)
  ultimately show ?thesis using s unfolding same_rows_def by (simp add: sql_flagLoss_def)
qed

lemma same_rows_call:
  assumes s: "same_rows s t"
  shows "\<exists>r s' t'. sqlite_call nfc x s = (r, s') \<and> memory_call nfc x t = (r, t') \<and> same_rows s' t'"
proof -
  note rows = s [unfolded same_rows_def]
  note avail = same_available [OF s, unfolded availableStroops_def]
  show ?thesis
  proof (cases x)
    case (SoFlag i b h)
    with same_rows_flag [OF s] show ?thesis by simp
  next
    case (SoReserve i a ttl n)
    show ?thesis
    proof (cases "map_of (db_reservations (sq_db s)) i")
      case None
      with SoReserve rows avail show ?thesis
        by (auto simp: call_defs same_rows_def memory_reservation_of memory_update lossRecords_def Let_def)
          (simp_all add: memory_reservation_def)
    next
      case (Some r)
      with SoReserve rows avail s show ?thesis
        by (simp add: call_defs memory_reservation_of Let_def) (simp add: memory_reservation_def same_rows_def)
    qed
  next
    case (SoEvidence ok i r f)
    with rows show ?thesis
      by (cases "sq_evidenceLog s") (auto simp: call_defs same_rows_def memory_reservation_def lossRecords_def Let_def)
  next
    case (SoBumpDead i)
    with rows show ?thesis
      by (auto simp: call_defs same_rows_def of_kind_of of_kind_update lossRecords_def Let_def split: option.splits)
  next
    case (SoBumpReversal i)
    with rows show ?thesis
      by (auto simp: call_defs same_rows_def of_kind_of of_kind_update lossRecords_def Let_def split: option.splits)
  next
    case (SoBumpRevert i)
    with rows show ?thesis
      by (auto simp: call_defs same_rows_def of_kind_of of_kind_update lossRecords_def Let_def split: option.splits)
  next
    case (SoSequence oper)
    with rows show ?thesis
      by (auto simp: same_rows_def sql_sequence_def write_snapshot_def lossRecords_def Let_def split: option.splits)
  next
    case (SoPersist i st p)
    have "so_orders (persistState i st p t) = db_store_orders (sq_db (sql_persistState i st p s))"
      using rows by (cases "map_of (db_store_orders (sq_db s)) i") (auto simp: persistState_def sql_persistState_def Let_def
          intro!: arg_cong [where f = "\<lambda>row. AList.update i row m" for m] order_row.equality)
    with SoPersist rows show ?thesis
      by (simp add: same_rows_def lossRecords_def persistState_def sql_persistState_def Let_def)
  qed (use rows in \<open>auto simp: call_defs same_rows_def memory_delete lossRecords_def Let_def\<close>)
qed

interpretation durable: call_simulation "memory_call nfc" "sqlite_call nfc" same_rows for nfc
  by unfold_locales (rule same_rows_call)

text \<open>Both stores, fresh.\<close>

lemma fresh_sqlite:
  "newSqliteStore empty_db balance base log seed =
     Inr (\<lparr> bo_settledReservationsDropped = 0, bo_heldReservationsReplayed = 0 \<rparr>,
          \<lparr> sq_db = write_snapshot OPERATOR (snapshot (newAllocator None base)) empty_db, sq_sequences = newAllocator None base,
            sq_balance = balance, sq_evidence = seed, sq_evidenceLog = log \<rparr>)"
proof -
  have "fold (\<lambda>row. delete_reservations (\<lambda>k r. k = ew_orderId row)) rows (0, db) = (0, db)" if "db_reservations db = []"
    for rows :: "evidence_row list" and db
  proof -
    have "delete_reservations P (0, db) = (0, db)" for P
      using that by (cases db) (simp add: delete_reservations_def)
    then show ?thesis by (induction rows) simp_all
  qed
  then show ?thesis
    by (simp add: newSqliteStore_def read_snapshot_def empty_db_def boot_sweep_def delete_reservations_def write_snapshot_def Let_def)
qed

lemma fresh_same_rows:
  "same_rows \<lparr> sq_db = write_snapshot OPERATOR snap empty_db, sq_sequences = newAllocator None base, sq_balance = balance,
     sq_evidence = seed, sq_evidenceLog = log \<rparr> (newStore balance base log seed)"
  by (simp add: same_rows_def newStore_def newReservationLedger_def write_snapshot_def empty_db_def lossRecords_def of_kind_def
      loss_inv_def loss_keys_def flagged_def)

text \<open>C20. The durable store refines the in-memory store: started on an empty database it answers every sequence of calls (reserve,
  release, credit, create, persist, flag, webhook mark, evidence, retry counters, sequences) as the in-memory store does, and
  afterwards the two agree on the available balance, the loss latch, the rows of orders, the evidence and the work list.\<close>

theorem durable_store_refines_memory_store:
  "\<exists>rep s. newSqliteStore empty_db balance base log seed = Inr (rep, s) \<and>
     (\<exists>answers s' t'. answers_of (sqlite_call nfc) calls s = (answers, s')
        \<and> answers_of (memory_call nfc) calls (newStore balance base log seed) = (answers, t')
        \<and> sql_availableStroops s' = availableStroops t' \<and> (\<forall>i. sql_isLossFlagged s' i = isLossFlagged t' i)
        \<and> (\<forall>i. orderRow s' i = map_of (so_orders t') i) \<and> sql_settledEvidence s' = settledEvidence t'
        \<and> sql_confirmedOrders s' = confirmedOrders t')"
proof -
  let ?s = "\<lparr> sq_db = write_snapshot OPERATOR (snapshot (newAllocator None base)) empty_db, sq_sequences = newAllocator None base,
            sq_balance = balance, sq_evidence = seed, sq_evidenceLog = log \<rparr>"
  from durable.run [OF fresh_same_rows, of nfc calls] obtain answers s' t' where
    "answers_of (sqlite_call nfc) calls ?s = (answers, s')"
    "answers_of (memory_call nfc) calls (newStore balance base log seed) = (answers, t')" and rows: "same_rows s' t'" by blast
  moreover have "orderRow s' i = map_of (so_orders t') i" "sql_settledEvidence s' i = settledEvidence t' i"
    "sql_confirmedOrders s' = confirmedOrders t'" for i
    using rows by (simp_all add: same_rows_def orderRow_def sql_settledEvidence_def settledEvidence_def sql_confirmedOrders_def confirmedOrders_def)
  ultimately show ?thesis
    using same_available [OF rows] same_flagged [OF rows] by (simp add: fresh_sqlite) blast
qed

section \<open>What a restart finds\<close>

text \<open>Histories of the store: calls, a death between two writes (also between the evidence append and the mark), and boots on
  the database and the evidence log, with the balance and the sequence the chain answers then.\<close>

definition seed_of :: "json list \<Rightarrow> (evidence_codec_error + evidence_row list)" where
  "seed_of log = bindR (decode_all (\<lambda>j. decodeEvidenceRow (Some j)) log) (\<lambda>rows. Inr (dedupeEvidence rows))"

text \<open>A witness as the engine writes it: a transaction hash holds no space.\<close>

definition witness_row :: "evidence_row \<Rightarrow> bool" where
  "witness_row row \<longleftrightarrow> storable_row row \<and> SPACE \<notin> set (er_txHash (ew_record row))"

fun durable_op :: "store_op \<Rightarrow> bool" where
  "durable_op (SoEvidence ok i r f) = witness_row \<lparr> ew_orderId = i, ew_record = r, ew_order = f \<rparr>"
| "durable_op _ = True"

inductive durable_run :: "(ustring \<Rightarrow> ustring) \<Rightarrow> bool \<Rightarrow> sqlite_store \<Rightarrow> bool" for nfc where
  durable_first: "0 \<le> base \<Longrightarrow> newSqliteStore empty_db balance base (Some []) [] = Inr (rep, s) \<Longrightarrow> durable_run nfc True s"
| durable_call: "durable_run nfc True s \<Longrightarrow> durable_op x \<Longrightarrow> durable_run nfc True (snd (sqlite_call nfc x s))"
| durable_death: "durable_run nfc True s \<Longrightarrow> durable_run nfc False s"
| durable_torn: "durable_run nfc True s \<Longrightarrow> witness_row row \<Longrightarrow> durable_run nfc False (log_evidence row s)"
| durable_boot: "durable_run nfc up s \<Longrightarrow> sq_evidenceLog s = Some log \<Longrightarrow> seed_of log = Inr seed \<Longrightarrow>
    newSqliteStore (sq_db s) balance base (Some log) seed = Inr (rep, s') \<Longrightarrow> durable_run nfc True s'"

text \<open>Whether the log holds a witness for an order, and the invariant: the log can be read back, a settled reservation has its
  witness there, the memory of a living process has the witnesses of the log, and the snapshot row is the allocator.\<close>

definition durable_inv :: "bool \<Rightarrow> evidence_row list \<Rightarrow> sqlite_store \<Rightarrow> bool" where
  "durable_inv up rows s \<longleftrightarrow>
     sq_evidenceLog s = Some (map encodeEvidenceRow rows) \<and> list_all witness_row rows
     \<and> (up \<longrightarrow> (\<forall>i. find (\<lambda>r. ew_orderId r = i) (sq_evidence s) = find (\<lambda>r. ew_orderId r = i) rows))
     \<and> (\<forall>k r. (k, r) \<in> set (db_reservations (sq_db s)) \<longrightarrow> rsv_settled r \<longrightarrow> k \<in> ew_orderId ` set rows)
     \<and> alloc_inv (sq_sequences s) \<and> 0 \<le> sa_baseSeq (sq_sequences s)
     \<and> map_of (db_seq_snapshots (sq_db s)) OPERATOR = Some (encodeSequenceSnapshot (snapshot (sq_sequences s)))"

lemma alloc_step_base: "alloc_inv s \<Longrightarrow> sa_baseSeq (alloc_step nfc oper s) = sa_baseSeq s"
  by (cases oper) (auto simp: allocate_def confirmBurned_def release_def reallocate_def grant_def takeSeq_def with_id_def requireOwned_def Let_def
      split: option.splits sum.splits list.splits)

lemma snapshot_storable:
  assumes "alloc_inv s" "0 \<le> sa_baseSeq s"
  shows "storable_snapshot (snapshot s)"
proof -
  have core: "core_inv s" using assms by (simp add: alloc_inv_def)
  have range: "q \<in> set (sa_freeList s) \<union> dom (map_of (sa_bySeq s)) \<Longrightarrow> 0 \<le> q" for q
  proof -
    assume "q \<in> set (sa_freeList s) \<union> dom (map_of (sa_bySeq s))"
    then have "q \<in> {sa_baseSeq s <..< sa_nextSeq s}" using core by (simp only: core_inv_def)
    with assms(2) show ?thesis by simp
  qed
  have recs: "0 \<le> sr_seq r" if "(q, r) \<in> set (sa_bySeq s)" for q r
  proof -
    have m: "map_of (sa_bySeq s) q = Some r" using that core by (intro map_of_eq_SomeI) (simp_all add: core_inv_def)
    then have "0 \<le> q" using range by blast
    moreover have "sr_seq r = q" using core m unfolding core_inv_def by blast
    ultimately show ?thesis by simp
  qed
  have "0 \<le> q" if "(i, q) \<in> set (sa_byOrder s)" for i q
  proof -
    have "map_of (sa_byOrder s) i = Some q" using that core by (intro map_of_eq_SomeI) (simp_all add: core_inv_def)
    then have "q \<in> dom (map_of (sa_bySeq s))" using core unfolding core_inv_def by blast
    then show ?thesis using range by blast
  qed
  moreover have "0 \<le> sa_nextSeq s" using core assms(2) by (simp add: core_inv_def)
  ultimately show ?thesis
    using recs range assms(2) by (auto simp: storable_snapshot_def snapshot_def list_all_iff)
qed

lemma seed_of_log:
  assumes "list_all witness_row rows"
  shows "seed_of (map encodeEvidenceRow rows) = Inr (dedupeEvidence rows)"
proof -
  have "map (\<lambda>j. decodeEvidenceRow (Some j)) (map encodeEvidenceRow rows) = map Inr rows"
    using assms by (auto simp: list_all_iff decode_encode_row witness_row_def)
  from decode_all_map [OF this] show ?thesis by (simp add: seed_of_def)
qed

lemma delete_pair:
  "delete_reservations P (n, db) = (n + length (filter (\<lambda>(k, r). P k r) (db_reservations db)),
     db\<lparr> db_reservations := filter (\<lambda>(k, r). \<not> P k r) (db_reservations db) \<rparr>)"
  by (simp add: delete_reservations_def)

lemma sweep_reservations:
  "snd (fold (\<lambda>row. delete_reservations (\<lambda>k r. k = ew_orderId row)) rows (n, db))
     = db\<lparr> db_reservations := filter (\<lambda>(k, r). k \<notin> ew_orderId ` set rows) (db_reservations db) \<rparr>"
proof (induction rows arbitrary: n db)
  case Nil
  then show ?case by (simp add: case_prod_unfold)
next
  case (Cons row rows)
  show ?case by (simp add: delete_pair Cons.IH case_prod_unfold)
qed

lemma boot_sweep_db:
  "snd (boot_sweep rows db) = db\<lparr> db_reservations := filter (\<lambda>(k, r). \<not> rsv_settled r \<and> k \<notin> ew_orderId ` set rows) (db_reservations db) \<rparr>"
proof -
  have "snd (boot_sweep rows db) = snd (fold (\<lambda>row. delete_reservations (\<lambda>k r. k = ew_orderId row)) rows (delete_reservations (\<lambda>k r. rsv_settled r) (0, db)))"
    by (simp add: boot_sweep_def case_prod_unfold Let_def)
  then show ?thesis by (simp add: delete_pair sweep_reservations case_prod_unfold)
qed

text \<open>Only the named tables matter to the invariant.\<close>

lemma durable_inv_frame:
  "durable_inv up rows s \<Longrightarrow> sq_evidenceLog s' = sq_evidenceLog s \<Longrightarrow> sq_evidence s' = sq_evidence s \<Longrightarrow> sq_sequences s' = sq_sequences s \<Longrightarrow>
   db_seq_snapshots (sq_db s') = db_seq_snapshots (sq_db s) \<Longrightarrow>
   {x \<in> set (db_reservations (sq_db s')). rsv_settled (snd x)} \<subseteq> set (db_reservations (sq_db s)) \<Longrightarrow> durable_inv up rows s'"
  by (fastforce simp: durable_inv_def)

lemma settled_ids: "list_all witness_row rows \<Longrightarrow> ew_orderId ` set (dedupeEvidence rows) = ew_orderId ` set rows"
proof -
  assume w: "list_all witness_row rows"
  have "i \<in> ew_orderId ` set xs \<longleftrightarrow> find (\<lambda>r. ew_orderId r = i) xs \<noteq> None" for i and xs :: "evidence_row list"
    by (auto simp: find_None_iff)
  moreover have "find (\<lambda>r. ew_orderId r = i) (dedupeEvidence rows) = find (\<lambda>r. ew_orderId r = i) rows" for i
    using w by (intro dedupe_find) (simp add: list_all_iff witness_row_def)
  ultimately show ?thesis by (simp add: set_eq_iff)
qed

lemma sequence_inv:
  assumes "durable_inv up rows s"
  shows "durable_inv up rows (sql_sequence nfc oper s)"
proof -
  let ?a = "alloc_step nfc oper (sq_sequences s)"
  have a: "alloc_inv ?a" "sa_baseSeq ?a = sa_baseSeq (sq_sequences s)"
    using assms alloc_step_inv alloc_step_base by (auto simp: durable_inv_def)
  then have "sa_store ?a = Some (snapshot ?a)" by (simp add: alloc_inv_def)
  with assms a show ?thesis by (simp add: durable_inv_def sql_sequence_def write_snapshot_def Let_def)
qed

lemma evidence_inv:
  assumes inv: "durable_inv True rows s" and w: "witness_row \<lparr> ew_orderId = i, ew_record = r, ew_order = f \<rparr>"
  shows "\<exists>rows'. durable_inv True rows' (snd (sql_appendEvidence ok i r f s))"
proof (cases ok)
  case False
  with inv show ?thesis by (intro exI [of _ rows]) (auto simp: sql_appendEvidence_def durable_inv_def Let_def)
next
  case True
  let ?row = "\<lparr> ew_orderId = i, ew_record = r, ew_order = f \<rparr>"
  have find_snoc: "find P (xs @ [x]) = (case find P xs of None \<Rightarrow> if P x then Some x else None | Some y \<Rightarrow> Some y)" for P and xs :: "evidence_row list" and x
    by (induction xs) auto
  from inv w True show ?thesis
    by (intro exI [of _ "rows @ [?row]"])
      (auto simp: sql_appendEvidence_def log_evidence_def mark_settled_def durable_inv_def find_snoc Let_def split: if_splits)
qed

lemma call_inv:
  assumes inv: "durable_inv True rows s" and x: "durable_op x"
  shows "\<exists>rows'. durable_inv True rows' (snd (sqlite_call nfc x s))"
proof (cases x)
  case (SoEvidence ok i r f)
  with evidence_inv [OF inv] x show ?thesis by simp
next
  case (SoSequence oper)
  with sequence_inv [OF inv] show ?thesis by auto
next
  case (SoReserve i a t n)
  have "{y \<in> set (db_reservations (sq_db (snd (sql_reserve i a t n s)))). rsv_settled (snd y)} \<subseteq> set (db_reservations (sq_db s))"
    by (auto simp: sql_reserve_def Let_def update_absent map_of_eq_None_iff split: option.splits if_splits)
  with SoReserve show ?thesis
    by (intro exI [of _ rows] durable_inv_frame [OF inv]) (auto simp: sql_reserve_def Let_def split: option.splits)
next
  case (SoRelease i)
  then show ?thesis
    by (intro exI [of _ rows] durable_inv_frame [OF inv]) (auto simp: sql_releaseReservation_def AList.delete_eq)
qed (intro exI [of _ rows] durable_inv_frame [OF inv]; auto simp: sql_creditPool_def sql_createIfAbsent_def sql_persistState_def sql_flagLoss_def
    sql_markWebhookSeen_def bump_def Let_def)+

text \<open>Booting on the tables of any such state.\<close>

lemma boot_state:
  assumes inv: "durable_inv up rows s"
  shows "\<exists>rep. newSqliteStore (sq_db s) balance base (sq_evidenceLog s) (dedupeEvidence rows) = Inr (rep,
    \<lparr> sq_db = (sq_db s)\<lparr> db_reservations := filter (\<lambda>(k, r). k \<notin> ew_orderId ` set rows) (db_reservations (sq_db s)) \<rparr>,
      sq_sequences = sq_sequences s, sq_balance = balance, sq_evidence = dedupeEvidence rows, sq_evidenceLog = sq_evidenceLog s \<rparr>)"
proof -
  have w: "list_all witness_row rows" and a: "alloc_inv (sq_sequences s)" and b: "0 \<le> sa_baseSeq (sq_sequences s)"
    using inv by (simp_all add: durable_inv_def)
  have st: "sa_store (sq_sequences s) = Some (snapshot (sq_sequences s))" using a by (simp add: alloc_inv_def)
  have "read_snapshot OPERATOR (sq_db s) = Inr (Some (snapshot (sq_sequences s)))"
    using inv snapshot_codec.decode_encode [OF snapshot_storable [OF a b]] by (simp add: read_snapshot_def durable_inv_def)
  moreover have "newAllocator (Some (snapshot (sq_sequences s))) base = sq_sequences s" using restart_state [OF a, of base] st by simp
  moreover have "filter (\<lambda>(k, r). \<not> rsv_settled r \<and> k \<notin> ew_orderId ` set rows) (db_reservations (sq_db s))
      = filter (\<lambda>(k, r). k \<notin> ew_orderId ` set rows) (db_reservations (sq_db s))"
    using inv by (intro filter_cong) (auto simp: durable_inv_def)
  ultimately show ?thesis
    using boot_sweep_db [of "dedupeEvidence rows" "sq_db s"] settled_ids [OF w]
    by (cases "boot_sweep (dedupeEvidence rows) (sq_db s)") (simp add: newSqliteStore_def)
qed

lemma booted_inv:
  assumes inv: "durable_inv up rows s"
  shows "durable_inv True rows \<lparr> sq_db = (sq_db s)\<lparr> db_reservations := filter (\<lambda>(k, r). k \<notin> ew_orderId ` set rows) (db_reservations (sq_db s)) \<rparr>,
      sq_sequences = sq_sequences s, sq_balance = balance, sq_evidence = dedupeEvidence rows, sq_evidenceLog = sq_evidenceLog s \<rparr>"
  using inv dedupe_find [of rows] by (auto simp: durable_inv_def list_all_iff witness_row_def)

lemma durable_run_inv: "durable_run nfc up s \<Longrightarrow> \<exists>rows. durable_inv up rows s"
proof (induction rule: durable_run.induct)
  case (durable_first base balance rep s)
  then have s: "s = \<lparr> sq_db = write_snapshot OPERATOR (snapshot (newAllocator None base)) empty_db, sq_sequences = newAllocator None base,
      sq_balance = balance, sq_evidence = [], sq_evidenceLog = Some [] \<rparr>" by (simp add: fresh_sqlite)
  have "sa_baseSeq (newAllocator None base) = base" by (simp add: newAllocator_def)
  with durable_first(1) show ?case
    by (intro exI [of _ "[]"]) (simp add: s durable_inv_def newAllocator_inv write_snapshot_def empty_db_def)
next
  case (durable_call s x)
  then show ?case using call_inv by blast
next
  case (durable_death s)
  then show ?case by (auto simp: durable_inv_def)
next
  case (durable_torn s row)
  then obtain rows where "durable_inv True rows s" by blast
  with durable_torn(2) show ?case
    by (intro exI [of _ "rows @ [row]"]) (auto simp: durable_inv_def log_evidence_def)
next
  case (durable_boot up s log seed balance base rep s')
  then obtain rows where inv: "durable_inv up rows s" by blast
  then have "seed = dedupeEvidence rows" using durable_boot(2,3) seed_of_log [of rows] by (simp add: durable_inv_def)
  with boot_state [OF inv, of balance base] booted_inv [OF inv, of balance] durable_boot(2,4) show ?case by auto
qed

text \<open>C11. In every history of calls, deaths between any two writes and boots, the next boot succeeds and finds exactly the holds of
  the orders without a witness in the evidence log, so a payout that landed is not debited twice and one in doubt stays held;
  the sequence allocator, the rows of orders, the retry counters, the loss flags and the webhook marks are what they were,
  and the available balance is the balance on the chain less these holds.\<close>

theorem restart_finds_unsettled_holds:
  assumes "durable_run nfc up s"
  shows "\<exists>log seed rep s'. sq_evidenceLog s = Some log \<and> seed_of log = Inr seed
    \<and> newSqliteStore (sq_db s) balance base (Some log) seed = Inr (rep, s')
    \<and> (\<forall>i. map_of (db_reservations (sq_db s')) i = (if sql_settledEvidence s' i = None then map_of (db_reservations (sq_db s)) i else None))
    \<and> sq_sequences s' = sq_sequences s \<and> db_webhooks (sq_db s') = db_webhooks (sq_db s)
    \<and> (\<forall>i. orderRow s' i = orderRow s i \<and> retryCounts s' i = retryCounts s i \<and> sql_isLossFlagged s' i = sql_isLossFlagged s i)
    \<and> sql_availableStroops s' = balance - sum_list (map (\<lambda>(_, r). rsv_amount r) (filter (\<lambda>(k, _). sql_settledEvidence s' k = None) (db_reservations (sq_db s))))
    \<and> (up \<longrightarrow> (\<forall>i. sql_settledEvidence s' i = sql_settledEvidence s i))"
proof -
  from durable_run_inv [OF assms] obtain rows where inv: "durable_inv up rows s" by blast
  let ?log = "map encodeEvidenceRow rows"
  let ?s = "\<lparr> sq_db = (sq_db s)\<lparr> db_reservations := filter (\<lambda>(k, r). k \<notin> ew_orderId ` set rows) (db_reservations (sq_db s)) \<rparr>,
      sq_sequences = sq_sequences s, sq_balance = balance, sq_evidence = dedupeEvidence rows, sq_evidenceLog = sq_evidenceLog s \<rparr>"
  have log: "sq_evidenceLog s = Some ?log" and w: "list_all witness_row rows" using inv by (simp_all add: durable_inv_def)
  from boot_state [OF inv, of balance base] obtain rep where boot: "newSqliteStore (sq_db s) balance base (Some ?log) (dedupeEvidence rows) = Inr (rep, ?s)"
    by (auto simp: log)
  have ids: "sql_settledEvidence ?s i = None \<longleftrightarrow> i \<notin> ew_orderId ` set rows" for i
  proof -
    have "sql_settledEvidence ?s i = None \<longleftrightarrow> i \<notin> ew_orderId ` set (dedupeEvidence rows)"
      by (auto simp: sql_settledEvidence_def find_None_iff)
    then show ?thesis by (simp only: settled_ids [OF w])
  qed
  have held: "map_of (filter (\<lambda>(k, r). k \<notin> E) m) i = (if i \<notin> E then map_of m i else None)" for E i and m :: "(ustring \<times> reservation_row) list"
    by (induction m) auto
  have fold: "fold (\<lambda>(_, r) sum. sum + rsv_amount r) m n = n + sum_list (map (\<lambda>(_, r). rsv_amount r) m)" for m :: "(ustring \<times> reservation_row) list" and n
    by (induction m arbitrary: n) auto
  have "up \<longrightarrow> sql_settledEvidence ?s i = sql_settledEvidence s i" for i
    using inv dedupe_find [of rows i] w by (auto simp: durable_inv_def sql_settledEvidence_def list_all_iff witness_row_def)
  with boot seed_of_log [OF w] log ids show ?thesis
    by (intro exI [of _ ?log] exI [of _ "dedupeEvidence rows"] exI [of _ rep] exI [of _ ?s])
      (simp add: held fold orderRow_def retryCounts_def sql_isLossFlagged_def sql_availableStroops_def)
qed

section \<open>The registry, sqlite-order-registry.ts\<close>

definition SQL_RECOVERY_STATES :: "state list" where "SQL_RECOVERY_STATES = [SolvencyReserved, UsdcSubmitted, UsdcPending]"

definition PRE_SUBMIT_STATES :: "state list" where "PRE_SUBMIT_STATES = [Reserved, SolvencyReserved]"

definition sql_registry_put :: "order_ctx \<Rightarrow> state \<Rightarrow> sqlite_store \<Rightarrow> sqlite_store" where
  "sql_registry_put ctx st s =
     s\<lparr> sq_db := (sq_db s)\<lparr> db_registry_orders := AList.update (cx_orderId ctx)
        \<lparr> rg_ctx_json = encodeOrderCtx ctx, rg_state = st, rg_conversation_id = cx_conversationId ctx \<rparr> (db_registry_orders (sq_db s)) \<rparr> \<rparr>"

definition effectiveState :: "sqlite_store \<Rightarrow> ustring \<Rightarrow> state \<Rightarrow> state option \<Rightarrow> state" where
  "effectiveState s orderId registryState storeState =
     (if registryState = Reconciled then Reconciled
      else if sql_settledEvidence s orderId \<noteq> None then UsdcConfirmed
      else if storeState = Some UsdcSubmitted \<and> registryState \<in> set PRE_SUBMIT_STATES then UsdcSubmitted
      else registryState)"

text \<open>The facts of the row under those of the store: a value of the store wins, the larger counter wins.\<close>

definition overlay :: "order_row option \<Rightarrow> nat \<times> nat \<Rightarrow> order_ctx \<Rightarrow> order_ctx" where
  "overlay store retries ctx =
     ctx\<lparr> cx_activeSeq := patched (Option.bind store or_seq) (cx_activeSeq ctx),
          cx_channelPublic := patched (Option.bind store or_channelPublic) (cx_channelPublic ctx),
          cx_paymentId := patched (Option.bind store or_paymentId) (cx_paymentId ctx),
          cx_hashHex := patched (Option.bind store or_hashHex) (cx_hashHex ctx),
          cx_signedXdr := patched (Option.bind store or_signedXdr) (cx_signedXdr ctx),
          cx_deadRetries := max (cx_deadRetries ctx) (fst retries),
          cx_reversalRetries := max (cx_reversalRetries ctx) (snd retries) \<rparr>"

definition toRecord :: "sqlite_store \<Rightarrow> ustring \<times> registry_row \<Rightarrow> ctx_codec_error + order_ctx \<times> state" where
  "toRecord s x =
     (let (orderId, row) = x in
      bindR (decodeOrderCtx (Some (rg_ctx_json row))) (\<lambda>ctx.
        let store = orderRow s orderId in
        Inr (overlay store (retryCounts s orderId) ctx, effectiveState s orderId (rg_state row) (map_option or_state store))))"

definition sql_getByOrderId :: "sqlite_store \<Rightarrow> ustring \<Rightarrow> ctx_codec_error + (order_ctx \<times> state) option" where
  "sql_getByOrderId s orderId =
     (case map_of (db_registry_orders (sq_db s)) orderId of
        None \<Rightarrow> Inr None
      | Some row \<Rightarrow> bindR (toRecord s (orderId, row)) (\<lambda>r. Inr (Some r)))"

definition sql_getByConversationId :: "sqlite_store \<Rightarrow> ustring \<Rightarrow> ctx_codec_error + (order_ctx \<times> state) option" where
  "sql_getByConversationId s conversationId =
     (case find (\<lambda>(k, row). rg_conversation_id row = conversationId) (db_registry_orders (sq_db s)) of
        None \<Rightarrow> Inr None
      | Some x \<Rightarrow> bindR (toRecord s x) (\<lambda>r. Inr (Some r)))"

definition sql_ordersInStates :: "state list \<Rightarrow> sqlite_store \<Rightarrow> ctx_codec_error + (order_ctx \<times> state) list" where
  "sql_ordersInStates states s =
     bindR (decode_all (toRecord s) (db_registry_orders (sq_db s))) (\<lambda>rs. Inr (filter (\<lambda>(_, st). st \<in> set states) rs))"

text \<open>The sweep at boot: orders that never left \<open>Reserved\<close> lose their rows and their hold, then rows without a registry row go.\<close>

definition stale_orders :: "order_db \<Rightarrow> ustring list" where
  "stale_orders db =
     map fst (filter (\<lambda>(k, row). rg_state row = Reserved
        \<and> (case map_of (db_store_orders db) k of None \<Rightarrow> True | Some r \<Rightarrow> or_state r = Reserved)) (db_registry_orders db))"

definition purge_order :: "ustring \<Rightarrow> order_db \<Rightarrow> order_db" where
  "purge_order k db = db\<lparr> db_reservations := AList.delete k (db_reservations db), db_registry_orders := AList.delete k (db_registry_orders db),
     db_store_orders := AList.delete k (db_store_orders db) \<rparr>"

definition purge_at_boot :: "order_db \<Rightarrow> ustring list \<times> order_db" where
  "purge_at_boot db =
     (let ids = stale_orders db; db = fold purge_order ids db in
      (ids, db\<lparr> db_store_orders := filter (\<lambda>(k, r). has_key (db_registry_orders db) k) (db_store_orders db) \<rparr>))"

definition recoverAtBoot :: "sqlite_store \<Rightarrow> (ctx_codec_error + (ustring \<times> state) list \<times> ustring list) \<times> sqlite_store" where
  "recoverAtBoot s =
     (let (purged, db) = purge_at_boot (sq_db s); s = s\<lparr> sq_db := db \<rparr> in
      (bindR (sql_ordersInStates SQL_RECOVERY_STATES s) (\<lambda>rs. Inr (map (\<lambda>(ctx, st). (cx_orderId ctx, st)) rs, purged)), s))"

section \<open>What is recovered\<close>

lemma retryCounts_of:
  assumes "distinct (map fst (db_retry_counters (sq_db s)))"
  shows "retryCounts s i = (case map_of (db_retry_counters (sq_db s)) (i, RetryDead) of None \<Rightarrow> 0 | Some n \<Rightarrow> n,
                            case map_of (db_retry_counters (sq_db s)) (i, RetryReversal) of None \<Rightarrow> 0 | Some n \<Rightarrow> n)"
proof -
  let ?f = "\<lambda>((k, kind), n) (dead, reversal).
        if k = i \<and> kind = RetryDead then (n, reversal)
        else if k = i \<and> kind = RetryReversal then (dead, n)
        else (dead, reversal)"
  have "fold ?f m (d, r) = (case map_of m (i, RetryDead) of None \<Rightarrow> d | Some n \<Rightarrow> n, case map_of m (i, RetryReversal) of None \<Rightarrow> r | Some n \<Rightarrow> n)"
    if "distinct (map fst m)" for m :: "((ustring \<times> retry_kind) \<times> nat) list" and d r
    using that
  proof (induction m arbitrary: d r)
    case (Cons x m)
    obtain k kind n where x: "x = ((k, kind), n)" by (metis prod.exhaust)
    have new: "map_of m (k, kind) = None" using Cons.prems by (simp add: x map_of_eq_None_iff)
    show ?case using Cons x new by (cases kind) auto
  qed simp
  with assms show ?thesis by (simp add: retryCounts_def)
qed

text \<open>The engine writes the store's row only on the way into \<open>UsdcSubmitted\<close>, so that is the only state it can be ahead with.\<close>

lemma store_row_ahead_means_submitted:
  "transition st ev = Transition next effs \<Longrightarrow> PersistInFlight \<in> set effs \<or> SubmitPay \<in> set effs \<or> SubmitReplacementSameSeq \<in> set effs \<Longrightarrow>
     next = UsdcSubmitted"
  by (cases st) (auto simp: transition_def transition_table_def transition_reversing_def isAbsoluteTerminal_def ABSOLUTE_TERMINAL_STATES_def
      isReversalPending_def REVERSAL_PENDING_STATES_def rejected_def split: event.splits if_splits)

text \<open>A record that was put is read back, under the overlay of the store.\<close>

lemma put_then_get:
  assumes "storable_ctx ctx"
  shows "sql_getByOrderId (sql_registry_put ctx st s) (cx_orderId ctx) =
     Inr (Some (overlay (orderRow s (cx_orderId ctx)) (retryCounts s (cx_orderId ctx)) ctx,
                effectiveState s (cx_orderId ctx) st (map_option or_state (orderRow s (cx_orderId ctx)))))"
proof -
  have same: "orderRow (sql_registry_put ctx st s) = orderRow s" "retryCounts (sql_registry_put ctx st s) = retryCounts s"
    "sql_settledEvidence (sql_registry_put ctx st s) = sql_settledEvidence s"
    by (auto simp: sql_registry_put_def orderRow_def retryCounts_def sql_settledEvidence_def)
  show ?thesis
    unfolding sql_getByOrderId_def toRecord_def effectiveState_def same using ctx_codec.decode_encode [OF assms]
    by (auto simp: sql_registry_put_def Let_def)
qed

lemma purged_orders_unstarted:
  assumes "purge_at_boot db = (ids, db')" "k \<in> set ids"
  shows "\<exists>row. (k, row) \<in> set (db_registry_orders db) \<and> rg_state row = Reserved
    \<and> (case map_of (db_store_orders db) k of None \<Rightarrow> True | Some r \<Rightarrow> or_state r = Reserved)"
proof -
  have "k \<in> set (stale_orders db)" using assms by (auto simp: purge_at_boot_def Let_def)
  then show ?thesis by (auto simp: stale_orders_def)
qed

lemma purge_keeps_others:
  "k \<notin> set ids \<Longrightarrow> map_of (db_reservations (fold purge_order ids db)) k = map_of (db_reservations db) k
     \<and> map_of (db_registry_orders (fold purge_order ids db)) k = map_of (db_registry_orders db) k
     \<and> map_of (db_store_orders (fold purge_order ids db)) k = map_of (db_store_orders db) k"
  by (induction ids arbitrary: db) (auto simp: purge_order_def)

text \<open>C14. An order read from the registry after a crash never resumes behind what was made durable: with a witness in the evidence
  it is confirmed or reconciled, with a submission in the store's row it is not in a state before the charge, it carries the
  sequence number and hash of that row, and its retry budgets are at least the persisted counts; the boot sweep drops no order
  whose row says it was submitted.\<close>

theorem recovered_order_never_behind:
  assumes "sql_getByOrderId s i = Inr (Some (ctx, st))" and "distinct (map fst (db_retry_counters (sq_db s)))"
  shows "(sql_settledEvidence s i \<noteq> None \<longrightarrow> st \<in> {UsdcConfirmed, Reconciled})
    \<and> (\<forall>r. orderRow s i = Some r \<longrightarrow> or_state r = UsdcSubmitted \<longrightarrow> st \<notin> {Reserved, SolvencyReserved} \<and> i \<notin> set (stale_orders (sq_db s)))
    \<and> (\<forall>r q h. orderRow s i = Some r \<longrightarrow> or_seq r = Some q \<longrightarrow> or_hashHex r = Some h \<longrightarrow> cx_activeSeq ctx = Some q \<and> cx_hashHex ctx = Some h)
    \<and> (\<forall>n. map_of (db_retry_counters (sq_db s)) (i, RetryDead) = Some n \<longrightarrow> n \<le> cx_deadRetries ctx)
    \<and> (\<forall>n. map_of (db_retry_counters (sq_db s)) (i, RetryReversal) = Some n \<longrightarrow> n \<le> cx_reversalRetries ctx)"
proof -
  from assms(1) obtain row where row: "map_of (db_registry_orders (sq_db s)) i = Some row"
    and rec: "toRecord s (i, row) = Inr (ctx, st)" by (auto simp: sql_getByOrderId_def bindR_Inr_iff split: option.splits)
  then obtain ctx0 where ctx: "ctx = overlay (orderRow s i) (retryCounts s i) ctx0"
    and st: "st = effectiveState s i (rg_state row) (map_option or_state (orderRow s i))"
    by (auto simp: toRecord_def bindR_Inr_iff Let_def)
  show ?thesis
    using retryCounts_of [OF assms(2), of i]
    by (auto simp: ctx st effectiveState_def PRE_SUBMIT_STATES_def overlay_def patched_def stale_orders_def orderRow_def)
qed

section \<open>An instance\<close>

definition demo_facts :: order_facts where
  "demo_facts = \<lparr> of_destination = lit ''M'', of_amountStroops = 5, of_memoHex = lit ''e'', of_appliedRateStroops = 7, of_paidPriceTry = lit ''1'',
     of_spreadKurus = 0, of_feeKurus = 0 \<rparr>"

definition demo_witness :: evidence_record where
  "demo_witness = \<lparr> er_txHash = lit ''h'', er_signedXdr = lit ''x'', er_seq = lit ''1'', er_witnessedAtUnix = 50 \<rparr>"

definition demo_booted :: sqlite_store where
  "demo_booted = \<lparr> sq_db = write_snapshot OPERATOR (snapshot (newAllocator None 0)) empty_db, sq_sequences = newAllocator None 0,
     sq_balance = 100, sq_evidence = [], sq_evidenceLog = Some [] \<rparr>"

text \<open>Two holds, one payout witnessed, and the process dies.\<close>

definition demo_calls :: "store_op list" where
  "demo_calls = [SoReserve (lit ''a'') 5 0 0, SoReserve (lit ''b'') 3 0 0, SoEvidence True (lit ''a'') demo_witness demo_facts]"

definition demo_dead :: sqlite_store where
  "demo_dead = fold (\<lambda>x s. snd (sqlite_call (\<lambda>i. i) x s)) demo_calls demo_booted"

lemma demo_dead_run: "durable_run (\<lambda>i. i) False demo_dead"
proof -
  have b: "durable_run (\<lambda>i. i) True demo_booted"
    by (rule durable_first [where base = 0 and balance = 100]) (simp_all add: fresh_sqlite demo_booted_def)
  have ops: "list_all durable_op demo_calls"
    by (simp add: demo_calls_def witness_row_def storable_row_def demo_witness_def demo_facts_def is_safe_int_def SPACE_def lit_def)
  have "durable_run (\<lambda>i. i) True (fold (\<lambda>x s. snd (sqlite_call (\<lambda>i. i) x s)) xs s)"
    if "list_all durable_op xs" "durable_run (\<lambda>i. i) True s" for xs s
    using that by (induction xs arbitrary: s) (auto intro: durable_call)
  from durable_death [OF this [OF ops b]] show ?thesis by (simp add: demo_dead_def)
qed

lemma demo_dead_state:
  "db_reservations (sq_db demo_dead) = [(lit ''a'', \<lparr> rsv_amount = 5, rsv_reservedAtMs = 0, rsv_expiresAtMs = 0, rsv_settled = True \<rparr>),
     (lit ''b'', \<lparr> rsv_amount = 3, rsv_reservedAtMs = 0, rsv_expiresAtMs = 0, rsv_settled = False \<rparr>)]
   \<and> sq_evidenceLog demo_dead = Some [encodeEvidenceRow \<lparr> ew_orderId = lit ''a'', ew_record = demo_witness, ew_order = demo_facts \<rparr>]"
proof -
  have ne: "lit ''b'' \<noteq> lit ''a''" by simp
  show ?thesis
    using ne by (simp add: demo_dead_def demo_calls_def demo_booted_def sql_reserve_def sql_availableStroops_def write_snapshot_def empty_db_def
        sql_appendEvidence_def log_evidence_def mark_settled_def Let_def)
qed

theorem restart_finds_unsettled_holds_witness:
  "\<exists>rep s'. newSqliteStore (sq_db demo_dead) 95 0 (sq_evidenceLog demo_dead)
        [\<lparr> ew_orderId = lit ''a'', ew_record = demo_witness, ew_order = demo_facts \<rparr>] = Inr (rep, s')
     \<and> map_of (db_reservations (sq_db s')) (lit ''a'') = None
     \<and> map_option rsv_amount (map_of (db_reservations (sq_db s')) (lit ''b'')) = Some 3 \<and> sql_availableStroops s' = 92"
proof -
  let ?row = "\<lparr> ew_orderId = lit ''a'', ew_record = demo_witness, ew_order = demo_facts \<rparr>"
  have ne: "lit ''b'' \<noteq> lit ''a''" by simp
  have "witness_row ?row"
    by (simp add: witness_row_def storable_row_def demo_witness_def demo_facts_def is_safe_int_def SPACE_def lit_def)
  then have seed: "seed_of [encodeEvidenceRow ?row] = Inr [?row]"
    using seed_of_log [of "[?row]"] by (simp add: dedupeEvidence_def)
  from restart_finds_unsettled_holds [OF demo_dead_run, of 95 0] obtain rep s' where
    boot: "newSqliteStore (sq_db demo_dead) 95 0 (sq_evidenceLog demo_dead) [?row] = Inr (rep, s')"
    and held: "\<forall>i. map_of (db_reservations (sq_db s')) i = (if sql_settledEvidence s' i = None then map_of (db_reservations (sq_db demo_dead)) i else None)"
    and av: "sql_availableStroops s' = 95 - sum_list (map (\<lambda>(_, r). rsv_amount r) (filter (\<lambda>(k, _). sql_settledEvidence s' k = None) (db_reservations (sq_db demo_dead))))"
    using demo_dead_state seed by auto
  from boot have "sq_evidence s' = [?row]"
    by (auto simp: newSqliteStore_def bindR_Inr_iff Let_def case_prod_unfold)
  then have "sql_settledEvidence s' (lit ''a'') \<noteq> None" "sql_settledEvidence s' (lit ''b'') = None"
    using ne by (auto simp: sql_settledEvidence_def)
  with boot held av demo_dead_state ne show ?thesis by (intro exI [of _ rep] exI [of _ s']) simp
qed

definition demo_order :: order_ctx where
  "demo_order = \<lparr> cx_paymentMethod = Card, cx_bankTransfer = None, cx_bankExpiresAtUnix = None, cx_bankReview = False, cx_orderId = lit ''a'',
     cx_conversationId = lit ''c'', cx_destination = lit ''M'', cx_amountStroops = 5, cx_appliedRateStroops = 7, cx_memoHex = lit ''e'',
     cx_paymentId = None, cx_token = None, cx_paymentPageUrl = None, cx_paidPriceTry = lit ''1.00'', cx_spreadKurus = 0, cx_feeKurus = 0,
     cx_currency = lit ''TRY'', cx_ip = lit ''::1'', cx_activeSeq = None, cx_channelPublic = None, cx_hashHex = None, cx_signedXdr = None,
     cx_payMaxTimeUnix = None, cx_deadRetries = 0, cx_reversalRetries = 0 \<rparr>"

text \<open>The submission is in the store's row, the registry still says the order is reserved.\<close>

definition demo_crashed :: sqlite_store where
  "demo_crashed = sql_registry_put demo_order SolvencyReserved
     (sql_persistState (lit ''a'') UsdcSubmitted \<lparr> ip_seq = Some 9, ip_paymentId = None, ip_hashHex = Some (lit ''h''), ip_signedXdr = None,
        ip_channelPublic = None \<rparr> demo_booted)"

lemma demo_storable: "storable_ctx demo_order"
  by (simp add: storable_ctx_def storable_bank_def demo_order_def is_safe_int_def)

theorem recovered_order_never_behind_witness:
  "\<exists>ctx. sql_getByOrderId demo_crashed (lit ''a'') = Inr (Some (ctx, UsdcSubmitted))
     \<and> cx_activeSeq ctx = Some 9 \<and> cx_hashHex ctx = Some (lit ''h'') \<and> lit ''a'' \<notin> set (stale_orders (sq_db demo_crashed))"
proof -
  have row: "orderRow demo_crashed (lit ''a'') = Some \<lparr> or_state = UsdcSubmitted, or_seq = Some 9, or_paymentId = None,
      or_hashHex = Some (lit ''h''), or_signedXdr = None, or_channelPublic = None \<rparr>"
    by (simp add: demo_crashed_def sql_registry_put_def sql_persistState_def demo_booted_def orderRow_def write_snapshot_def empty_db_def)
  obtain ctx where get: "sql_getByOrderId demo_crashed (lit ''a'') = Inr (Some (ctx, UsdcSubmitted))"
    using put_then_get [OF demo_storable, of SolvencyReserved]
    by (auto simp: demo_crashed_def demo_order_def effectiveState_def sql_settledEvidence_def sql_persistState_def demo_booted_def orderRow_def
        PRE_SUBMIT_STATES_def write_snapshot_def empty_db_def)
  have "distinct (map fst (db_retry_counters (sq_db demo_crashed)))"
    by (simp add: demo_crashed_def sql_registry_put_def sql_persistState_def demo_booted_def write_snapshot_def empty_db_def)
  from recovered_order_never_behind [OF get this] row get show ?thesis by auto
qed

end
