(* ===== verification/Rpc_Adapter.thy ===== *)
theory Rpc_Adapter
  imports Stellar_Client Chain_Records
begin

text \<open>
  The adapter between the Soroban RPC node and everything that decides, \<^verbatim>\<open>stellar-client/src/rpc-adapter.ts\<close>, with the
  readers of contract values of \<^verbatim>\<open>soroban-reads.ts\<close>. What the node answers is an argument: \<open>Inl\<close> is a call that threw or
  timed out (\<open>withTimeout\<close> turns a hanging call into a throw), \<open>Inr\<close> the response as the SDK types it. The encoders of
  StrKey, which may throw, are arguments too.

  The lemmas show which page of pool activity a response becomes, when a blind spot is claimed, whose error code explains
  a reverted payment, and that what a page holds is always a record the durable logs can read back.
\<close>

section \<open>What the SDK returns\<close>

text \<open>The contract values the code tells apart. An address is kept as the text \<open>Address.fromScVal(v).toString()\<close>.\<close>

datatype sc_error = SceContract int | SceOther

datatype scv =
    ScvSymbol ustring
  | ScvBytes "byte list"
  | ScvI128 "64 word" "64 word"
  | ScvAddress ustring
  | ScvMap "(scv \<times> scv) list option"
  | ScvError sc_error
  | ScvVoid
  | ScvOther

record call_error =
  ce_code :: "int option"
  ce_message :: ustring

datatype sim_response = SimFailed ustring | SimRestore | SimSuccess "ustring option" ustring "ustring list option" "scv option"

record send_response =
  sn_status :: ustring
  sn_hash :: ustring
  sn_errorResult :: "ustring option"

text \<open>A diagnostic event whose fields read (contract id, topics, data), or one whose accessors throw.\<close>

datatype diagnostic_event = DiagEvent "byte list option" "scv list" scv | DiagUnreadable

text \<open>The soroban meta of a V3 result meta, with its diagnostic events, or any other meta, whose accessor throws.\<close>

datatype result_meta = MetaV3 "diagnostic_event list option" | MetaOther

datatype muxed_account = KeyEd25519 "byte list" | KeyMuxed

datatype tx_envelope = EnvelopeV1 muxed_account | EnvelopeFeeBump muxed_account | EnvelopeOther

record failed_tx =
  ft_resultXdr :: "ustring option"
  ft_diagnosticEventsXdr :: "diagnostic_event list option"
  ft_resultMetaXdr :: result_meta

datatype tx_response =
    ResSuccess int "tx_envelope option"
  | ResNotFound int
  | ResFailed failed_tx

record pool_event =
  pe_inSuccessfulContractCall :: bool
  pe_topic :: "scv list"
  pe_value :: scv
  pe_contractId :: "ustring option"
  pe_txHash :: ustring
  pe_ledger :: int
  pe_closedAtMs :: int

record events_response =
  er_events :: "pool_event list"
  er_cursor :: ustring
  er_latestLedger :: int
  er_latestLedgerCloseTime :: int
  er_oldestLedger :: int

section \<open>Contract values, soroban-reads.ts\<close>

datatype adapter_error = CallThrew call_error | SimulationError ustring | NotI128 | NotAnAddress | NotACursor | BadEnvelope | BadKey

definition scValI128ToBigInt :: "scv \<Rightarrow> adapter_error + int" where
  "scValI128ToBigInt v =
     (case v of
        ScvI128 hi lo \<Rightarrow> Inr (push_bit 64 (sint hi) + uint lo)
      | _ \<Rightarrow> Inl NotI128)"

definition scValContractErrorCode :: "scv \<Rightarrow> int option" where
  "scValContractErrorCode v =
     (case v of
        ScvError (SceContract code) \<Rightarrow> Some code
      | _ \<Rightarrow> None)"

fun firstContractErrorCode :: "scv list \<Rightarrow> int option" where
  "firstContractErrorCode [] = None"
| "firstContractErrorCode (v # vs) =
     (case scValContractErrorCode v of Some code \<Rightarrow> Some code | None \<Rightarrow> firstContractErrorCode vs)"

record diagnostic_scvals =
  ds_contractId :: "ustring option"
  ds_vals :: "scv list"

fun firstContractErrorCodeFromContract :: "diagnostic_scvals list \<Rightarrow> ustring \<Rightarrow> int option" where
  "firstContractErrorCodeFromContract [] pool = None"
| "firstContractErrorCodeFromContract (e # es) pool =
     (if ds_contractId e \<noteq> Some pool then firstContractErrorCodeFromContract es pool
      else case firstContractErrorCode (ds_vals e) of
             Some code \<Rightarrow> Some code
           | None \<Rightarrow> firstContractErrorCodeFromContract es pool)"

section \<open>Single calls, rpc-adapter.ts\<close>

text \<open>The result of \<open>withTimeout\<close> on a call.\<close>

definition awaited :: "call_error + 'a \<Rightarrow> adapter_error + 'a" where
  "awaited m = (case m of Inl e \<Rightarrow> Inl (CallThrew e) | Inr x \<Rightarrow> Inr x)"

record sim_result =
  si_sorobanDataXdr :: ustring
  si_minResourceFee :: ustring
  si_authXdr :: "ustring list"

definition simulate :: "call_error + sim_response \<Rightarrow> adapter_error + sim_result" where
  "simulate response =
     bindR (awaited response) (\<lambda>sim.
       case sim of
         SimFailed message \<Rightarrow> Inl (SimulationError message)
       | SimRestore \<Rightarrow> Inl (SimulationError (lit ''footprint touches archived entries''))
       | SimSuccess transactionData minResourceFee auth retval \<Rightarrow>
           (case transactionData of
              None \<Rightarrow> Inl (SimulationError (lit ''simulation returned no transactionData (footprint)''))
            | Some d \<Rightarrow> Inr \<lparr> si_sorobanDataXdr = d, si_minResourceFee = minResourceFee,
                si_authXdr = (case auth of None \<Rightarrow> [] | Some a \<Rightarrow> a) \<rparr>))"

definition isBadSeq :: "ustring option \<Rightarrow> bool" where
  "isBadSeq errorResult = (case errorResult of None \<Rightarrow> False | Some name \<Rightarrow> name = lit ''txBadSeq'')"

definition resultCodeName :: "ustring option \<Rightarrow> ustring" where
  "resultCodeName errorResult = (case errorResult of None \<Rightarrow> lit ''unknown'' | Some name \<Rightarrow> name)"

text \<open>\<open>fromXDR\<close> is the SDK's parser; the response is that of the parsed transaction.\<close>

definition send :: "(ustring \<Rightarrow> 't option) \<Rightarrow> ('t \<Rightarrow> call_error + send_response) \<Rightarrow> ustring \<Rightarrow> adapter_error + send_outcome" where
  "send fromXDR sendTransaction signedXdr =
     (case fromXDR signedXdr of
        None \<Rightarrow> Inl BadEnvelope
      | Some tx \<Rightarrow>
          bindR (awaited (sendTransaction tx)) (\<lambda>res. Inr (
            if sn_status res = lit ''PENDING'' then SendPending (sn_hash res)
            else if sn_status res = lit ''DUPLICATE'' then SendDuplicate (sn_hash res)
            else if sn_status res = lit ''TRY_AGAIN_LATER'' then SendTryAgain
            else if sn_status res = lit ''ERROR'' then
              (if isBadSeq (sn_errorResult res) then SendBadSeq else SendError (resultCodeName (sn_errorResult res)))
            else SendError (lit ''unknown send status '' @ sn_status res))))"

definition getTransaction :: "call_error + tx_response \<Rightarrow> adapter_error + get_tx_outcome" where
  "getTransaction response =
     bindR (awaited response) (\<lambda>res.
       case res of
         ResSuccess ledger env \<Rightarrow> Inr (TxSuccess ledger)
       | ResNotFound latestLedgerCloseTime \<Rightarrow> Inr (TxNotFound latestLedgerCloseTime)
       | ResFailed f \<Rightarrow> Inr (TxFailed (isBadSeq (ft_resultXdr f))))"

text \<open>The entries found for the account's ledger key, each with the sequence number it holds.\<close>

definition readAccountSeq :: "(ustring \<Rightarrow> 'k option) \<Rightarrow> ('k \<Rightarrow> call_error + int list) \<Rightarrow> ustring \<Rightarrow> adapter_error + account_seq_read" where
  "readAccountSeq fromPublicKey getLedgerEntries operatorPublic =
     (case fromPublicKey operatorPublic of
        None \<Rightarrow> Inl BadKey
      | Some key \<Rightarrow>
          bindR (awaited (getLedgerEntries key)) (\<lambda>entries.
            case entries of
              [] \<Rightarrow> Inr \<lparr> sr_exists = False, sr_value = 0 \<rparr>
            | seqNum # _ \<Rightarrow> Inr \<lparr> sr_exists = True, sr_value = seqNum \<rparr>))"

definition latestLedger :: "call_error + int \<times> int \<Rightarrow> adapter_error + ledger_head" where
  "latestLedger response =
     bindR (awaited response) (\<lambda>(sequence, closeTime). Inr \<lparr> lh_sequence = sequence, lh_closeTimeUnix = closeTime \<rparr>)"

definition readSacBalance :: "call_error + sim_response \<Rightarrow> adapter_error + int" where
  "readSacBalance response =
     bindR (awaited response) (\<lambda>sim.
       case sim of
         SimFailed message \<Rightarrow> Inl (SimulationError message)
       | SimSuccess transactionData minResourceFee auth (Some retval) \<Rightarrow> scValI128ToBigInt retval
       | _ \<Rightarrow> Inl (SimulationError (lit ''balance simulation returned no retval'')))"

section \<open>Why a payment reverted\<close>

text \<open>\<open>push\<close>: an event that cannot be read, or whose contract id cannot be encoded, is skipped.\<close>

definition read_diagnostic :: "(byte list \<Rightarrow> ustring option) \<Rightarrow> diagnostic_event \<Rightarrow> diagnostic_scvals option" where
  "read_diagnostic encodeContract ev =
     (case ev of
        DiagUnreadable \<Rightarrow> None
      | DiagEvent None topics data \<Rightarrow> Some \<lparr> ds_contractId = None, ds_vals = topics @ [data] \<rparr>
      | DiagEvent (Some cid) topics data \<Rightarrow>
          (case encodeContract cid of
             None \<Rightarrow> None
           | Some contractId \<Rightarrow> Some \<lparr> ds_contractId = Some contractId, ds_vals = topics @ [data] \<rparr>))"

definition push_events :: "(byte list \<Rightarrow> ustring option) \<Rightarrow> diagnostic_event list option \<Rightarrow> diagnostic_scvals list" where
  "push_events encodeContract events =
     (case events of None \<Rightarrow> [] | Some evs \<Rightarrow> List.map_filter (read_diagnostic encodeContract) evs)"

definition collectDiagnosticEvents :: "(byte list \<Rightarrow> ustring option) \<Rightarrow> failed_tx \<Rightarrow> diagnostic_scvals list" where
  "collectDiagnosticEvents encodeContract res =
     (let top = (case ft_diagnosticEventsXdr res of None \<Rightarrow> [] | Some evs \<Rightarrow> evs) in
      push_events encodeContract (Some top) @
      (if length top = 0 then
         (case ft_resultMetaXdr res of
            MetaV3 nested \<Rightarrow> push_events encodeContract nested
          | MetaOther \<Rightarrow> [])
       else []))"

definition readContractErrorCode :: "(byte list \<Rightarrow> ustring option) \<Rightarrow> call_error + tx_response \<Rightarrow> ustring \<Rightarrow> int option" where
  "readContractErrorCode encodeContract response contractId =
     (case response of
        Inr (ResFailed f) \<Rightarrow> firstContractErrorCodeFromContract (collectDiagnosticEvents encodeContract f) contractId
      | _ \<Rightarrow> None)"

record revert_description =
  rd_status :: ustring
  rd_topDiagnosticEvents :: nat
  rd_eventContractIds :: "ustring option list"
  rd_classifiedCode :: "int option"

definition status_text :: "tx_response \<Rightarrow> ustring" where
  "status_text res = (case res of ResSuccess _ _ \<Rightarrow> lit ''SUCCESS'' | ResNotFound _ \<Rightarrow> lit ''NOT_FOUND'' | ResFailed _ \<Rightarrow> lit ''FAILED'')"

definition describeRevert ::
    "(byte list \<Rightarrow> ustring option) \<Rightarrow> call_error + tx_response \<Rightarrow> ustring \<Rightarrow> adapter_error + revert_description" where
  "describeRevert encodeContract response contractId =
     bindR (awaited response) (\<lambda>res.
       case res of
         ResFailed f \<Rightarrow>
           let events = collectDiagnosticEvents encodeContract f in
           Inr \<lparr> rd_status = status_text res,
             rd_topDiagnosticEvents = (case ft_diagnosticEventsXdr f of None \<Rightarrow> 0 | Some evs \<Rightarrow> length evs),
             rd_eventContractIds = map ds_contractId events,
             rd_classifiedCode = firstContractErrorCodeFromContract events contractId \<rparr>
       | _ \<Rightarrow> Inr \<lparr> rd_status = status_text res, rd_topDiagnosticEvents = 0, rd_eventContractIds = [], rd_classifiedCode = None \<rparr>)"

text \<open>\<open>wrapStellarPort\<close>, \<^verbatim>\<open>composition/src/stellar-port.ts\<close>: the two reads the settlement engine has beside the client. The hash comes
  from the write-ahead journal, and the code is read of the pool contract.\<close>

record port_wiring =
  pw_sacContractId :: ustring
  pw_troyPool :: ustring
  pw_operatorPublic :: ustring

definition readRevertErrorCode ::
    "(byte list \<Rightarrow> ustring option) \<Rightarrow> (ustring \<Rightarrow> call_error + tx_response) \<Rightarrow> port_wiring \<Rightarrow> wal \<Rightarrow> ustring \<Rightarrow> int option" where
  "readRevertErrorCode encodeContract lookup wiring journal orderId =
     (case loadPersisted orderId journal of
        None \<Rightarrow> None
      | Some persisted \<Rightarrow> readContractErrorCode encodeContract (lookup (ev_hashHex persisted)) (pw_troyPool wiring))"

text \<open>The balance simulation is a function of its three arguments: token contract, holder and source.\<close>

definition readPoolBalanceStroops ::
    "(ustring \<Rightarrow> ustring \<Rightarrow> ustring \<Rightarrow> call_error + sim_response) \<Rightarrow> port_wiring \<Rightarrow> adapter_error + int" where
  "readPoolBalanceStroops simulateBalance wiring =
     readSacBalance (simulateBalance (pw_sacContractId wiring) (pw_troyPool wiring) (pw_operatorPublic wiring))"

definition checkTxLiveness :: "call_error + tx_response \<Rightarrow> tx_liveness" where
  "checkTxLiveness response =
     (case response of
        Inl e \<Rightarrow> LiveUnknown (ce_message e)
      | Inr (ResSuccess ledger env) \<Rightarrow> LiveSuccess ledger
      | Inr (ResNotFound t) \<Rightarrow> LiveAbsent
      | Inr (ResFailed f) \<Rightarrow> LiveUnknown (status_text (ResFailed f)))"

section \<open>What the chain did to the pool\<close>

text \<open>\<open>cursorLedger\<close> of \<^verbatim>\<open>outflow-types.ts\<close>: the part of the cursor before its first dash, as a decimal, less its lower
  32 bits. \<open>None\<close> is the exception.\<close>

definition cursorLedger :: "ustring \<Rightarrow> int option" where
  "cursorLedger cursor =
     (let toid = takeWhile (\<lambda>c. c \<notin> set (lit ''-'')) cursor in
      case ascii_of toid of
        None \<Rightarrow> None
      | Some t \<Rightarrow> if t \<noteq> [] \<and> list_all is_digit t then Some (drop_bit 32 (int (dec_nat t))) else None)"

text \<open>\<open>Address.fromScVal\<close>, which throws on any other value.\<close>

definition addressOf :: "scv \<Rightarrow> adapter_error + ustring" where
  "addressOf v = (case v of ScvAddress a \<Rightarrow> Inr a | _ \<Rightarrow> Inl NotAnAddress)"

definition toOutflowEvent :: "pool_event \<Rightarrow> ustring \<Rightarrow> int \<Rightarrow> adapter_error + outflow_event option" where
  "toOutflowEvent ev poolAddress closeUnix =
     (case pe_topic ev of
        name # sender # dest # _ \<Rightarrow>
          bindR (addressOf sender) (\<lambda>sender.
            if sender \<noteq> poolAddress then Inr None
            else bindR (addressOf dest) (\<lambda>dest. bindR (scValI128ToBigInt (pe_value ev)) (\<lambda>amount.
              Inr (Some \<lparr> oe_txHash = pe_txHash ev, oe_ledger = pe_ledger ev, oe_ledgerCloseUnix = closeUnix,
                oe_to = dest, oe_amountStroops = amount \<rparr>))))
      | _ \<Rightarrow> Inr None)"

text \<open>The fields of a map of symbols, later entries over earlier ones; \<open>None\<close> when a key is no symbol.\<close>

fun map_fields :: "(scv \<times> scv) list \<Rightarrow> (ustring, scv) jsmap \<Rightarrow> (ustring, scv) jsmap option" where
  "map_fields [] acc = Some acc"
| "map_fields ((ScvSymbol k, v) # rest) acc = map_fields rest (AList.update k v acc)"
| "map_fields (_ # rest) acc = None"

text \<open>\<open>''undefined''\<close> is what \<open>String(ev.contractId)\<close> gives for an event of no contract.\<close>

definition contract_text :: "pool_event \<Rightarrow> ustring" where
  "contract_text ev = (case pe_contractId ev of None \<Rightarrow> lit ''undefined'' | Some c \<Rightarrow> c)"

definition toSettlementObservation :: "pool_event \<Rightarrow> ustring \<Rightarrow> int \<Rightarrow> adapter_error + settlement_observation option" where
  "toSettlementObservation ev sourceAccount closeUnix =
     (case (pe_topic ev, pe_value ev) of
        (_ # ScvBytes txId # _, ScvMap entries) \<Rightarrow>
          (case map_fields (case entries of None \<Rightarrow> [] | Some es \<Rightarrow> es) [] of
             None \<Rightarrow> Inr None
           | Some found \<Rightarrow>
               (case (map_of found (lit ''amount''), map_of found (lit ''applied_rate''),
                      map_of found (lit ''merchant''), map_of found (lit ''memo'')) of
                  (Some amount, Some appliedRate, Some merchant, Some (ScvBytes memo)) \<Rightarrow>
                    bindR (addressOf merchant) (\<lambda>merchant. bindR (scValI128ToBigInt amount) (\<lambda>amount.
                    bindR (scValI128ToBigInt appliedRate) (\<lambda>appliedRate.
                      Inr (Some \<lparr> so_txIdHex = to_hex txId, so_txHash = pe_txHash ev, so_ledger_seq = pe_ledger ev,
                        so_ledgerCloseUnix = closeUnix,
                        so_contractId = contract_text ev,
                        so_sourceAccount = sourceAccount, so_merchant = merchant, so_amountStroops = amount,
                        so_appliedRateStroops = appliedRate, so_memoHex = to_hex memo \<rparr>))))
                | _ \<Rightarrow> Inr None))
      | _ \<Rightarrow> Inr None)"

text \<open>The source account of the inner transaction, and \<open>None\<close> for anything that is not read or throws.\<close>

definition readTxSourceAccount :: "(byte list \<Rightarrow> ustring option) \<Rightarrow> call_error + tx_response \<Rightarrow> ustring option" where
  "readTxSourceAccount encodeKey response =
     (case response of
        Inr (ResSuccess ledger (Some env)) \<Rightarrow>
          (case env of
             EnvelopeFeeBump (KeyEd25519 k) \<Rightarrow> encodeKey k
           | EnvelopeV1 (KeyEd25519 k) \<Rightarrow> encodeKey k
           | _ \<Rightarrow> None)
      | _ \<Rightarrow> None)"

text \<open>The node: its answers to the scan, to the two probes of its range and to the lookup of a transaction.\<close>

record pool_node =
  pn_getEvents :: "pool_fetch \<Rightarrow> call_error + events_response"
  pn_getLatestLedger :: "call_error + int \<times> int"
  pn_rangeProbe :: "int \<Rightarrow> call_error + events_response"
  pn_getTransaction :: "ustring \<Rightarrow> call_error + tx_response"

definition classifyEventsFailure :: "pool_node \<Rightarrow> call_error \<Rightarrow> pool_fetch \<Rightarrow> adapter_error + pool_activity" where
  "classifyEventsFailure N e req =
     (let stall = RpcUnavailable (ce_message e) in
      if ce_code e \<noteq> Some (-32600) then Inr stall
      else case pn_getLatestLedger N of
        Inl _ \<Rightarrow> Inr stall
      | Inr (sequence, _) \<Rightarrow>
          (case pn_rangeProbe N (sequence - 1) of
             Inl _ \<Rightarrow> Inr stall
           | Inr probe \<Rightarrow>
               bindR (case req of FromLedger l \<Rightarrow> Inr l | FromCursor c \<Rightarrow> opt_or NotACursor (cursorLedger c)) (\<lambda>at.
                 if at < er_oldestLedger probe
                 then Inr (CursorBelowRetention at (er_oldestLedger probe) (er_latestLedger probe))
                 else Inr stall)))"

record scan_state =
  sc_outflows :: "outflow_event list"
  sc_settlements :: "settlement_observation list"
  sc_upgrades :: "pool_upgrade list"
  sc_sourceCache :: "(ustring, ustring) jsmap"

text \<open>One event of the loop. \<open>Inl (Inr h)\<close> stops the scan at a transaction whose envelope cannot be read;
  \<open>Inl (Inl e)\<close> is a throw.\<close>

definition event_symbol :: "pool_event \<Rightarrow> ustring option" where
  "event_symbol ev = (case pe_topic ev of ScvSymbol s # _ \<Rightarrow> Some s | _ \<Rightarrow> None)"

definition raised :: "adapter_error + 'a \<Rightarrow> (adapter_error + ustring) + 'a" where
  "raised m = (case m of Inl e \<Rightarrow> Inl (Inl e) | Inr x \<Rightarrow> Inr x)"

definition source_through_cache ::
    "(byte list \<Rightarrow> ustring option) \<Rightarrow> pool_node \<Rightarrow> ustring \<Rightarrow> scan_state \<Rightarrow> (adapter_error + ustring) + ustring \<times> scan_state" where
  "source_through_cache encodeKey N txHash s =
     (case map_of (sc_sourceCache s) txHash of
        Some source \<Rightarrow> Inr (source, s)
      | None \<Rightarrow>
          (case readTxSourceAccount encodeKey (pn_getTransaction N txHash) of
             None \<Rightarrow> Inl (Inr txHash)
           | Some read \<Rightarrow> Inr (read, s\<lparr> sc_sourceCache := AList.update txHash read (sc_sourceCache s) \<rparr>)))"

definition scan_event ::
    "(byte list \<Rightarrow> ustring option) \<Rightarrow> pool_node \<Rightarrow> ustring \<Rightarrow> ustring \<Rightarrow> pool_event \<Rightarrow> scan_state \<Rightarrow> (adapter_error + ustring) + scan_state" where
  "scan_event encodeKey N sac pool ev s =
     (if \<not> pe_inSuccessfulContractCall ev then Inr s
      else case event_symbol ev of
        None \<Rightarrow> Inr s
      | Some symbol \<Rightarrow>
          let closeUnix = pe_closedAtMs ev div 1000 in
          if contract_text ev = sac \<and> symbol = lit ''transfer'' then
            bindR (raised (toOutflowEvent ev pool closeUnix)) (\<lambda>found.
              Inr (case found of None \<Rightarrow> s | Some x \<Rightarrow> s\<lparr> sc_outflows := sc_outflows s @ [x] \<rparr>))
          else if contract_text ev \<noteq> pool then Inr s
          else if symbol = lit ''upgraded'' then
            Inr (s\<lparr> sc_upgrades := sc_upgrades s @
              [\<lparr> pu_txHash = pe_txHash ev, pu_ledger = pe_ledger ev, pu_ledgerCloseUnix = closeUnix \<rparr>] \<rparr>)
          else if symbol \<noteq> lit ''payment_made'' then Inr s
          else bindR (source_through_cache encodeKey N (pe_txHash ev) s) (\<lambda>(source, s).
            bindR (raised (toSettlementObservation ev source closeUnix)) (\<lambda>observed.
              Inr (case observed of None \<Rightarrow> s | Some x \<Rightarrow> s\<lparr> sc_settlements := sc_settlements s @ [x] \<rparr>))))"

fun scan_events ::
    "(byte list \<Rightarrow> ustring option) \<Rightarrow> pool_node \<Rightarrow> ustring \<Rightarrow> ustring \<Rightarrow> pool_event list \<Rightarrow> scan_state \<Rightarrow> (adapter_error + ustring) + scan_state" where
  "scan_events encodeKey N sac pool [] s = Inr s"
| "scan_events encodeKey N sac pool (ev # evs) s =
     bindR (scan_event encodeKey N sac pool ev s) (scan_events encodeKey N sac pool evs)"

definition fetchPoolActivity ::
    "(byte list \<Rightarrow> ustring option) \<Rightarrow> pool_node \<Rightarrow> ustring \<Rightarrow> ustring \<Rightarrow> pool_fetch \<Rightarrow> adapter_error + pool_activity" where
  "fetchPoolActivity encodeKey N sac pool req =
     (case pn_getEvents N req of
        Inl e \<Rightarrow> classifyEventsFailure N e req
      | Inr res \<Rightarrow>
          (case scan_events encodeKey N sac pool (er_events res)
                  \<lparr> sc_outflows = [], sc_settlements = [], sc_upgrades = [], sc_sourceCache = [] \<rparr> of
             Inl (Inl e) \<Rightarrow> Inl e
           | Inl (Inr txHash) \<Rightarrow> Inr (RpcUnavailable (lit ''cannot read the envelope of '' @ txHash))
           | Inr s \<Rightarrow> Inr (Page \<lparr> pp_outflows = sc_outflows s, pp_settlements = sc_settlements s, pp_upgrades = sc_upgrades s,
               pp_cursor = er_cursor res, pp_latestLedger = er_latestLedger res,
               pp_latestLedgerCloseUnix = er_latestLedgerCloseTime res, pp_oldestLedger = er_oldestLedger res \<rparr>)))"

section \<open>A contract integer is a 128-bit word\<close>

lemma sint_word_cat_64: "sint (word_cat hi lo :: 128 word) = push_bit 64 (sint hi) + uint lo" for hi lo :: "64 word"
proof -
  have "sint (word_cat hi lo :: 128 word) = concat_bit 64 (uint lo) (sint hi)"
    by (rule bit_eqI) (auto simp: bit_sint_iff bit_word_cat_iff bit_concat_bit_iff bit_uint_iff not_less not_le min_def
        dest: bit_imp_le_length)
  moreover have "take_bit 64 (uint lo) = uint lo" using uint_range_size [of lo] by (simp add: take_bit_int_eq_self word_size)
  ultimately show ?thesis by (simp add: concat_bit_eq)
qed

section \<open>What a page holds\<close>

text \<open>The specification of the scan: which outflow, announcement and upgrade one event is.\<close>

definition pool_transfer :: "ustring \<Rightarrow> ustring \<Rightarrow> pool_event \<Rightarrow> outflow_event option" where
  "pool_transfer sac pool ev =
     (if pe_inSuccessfulContractCall ev \<and> pe_contractId ev = Some sac then
        (case (pe_topic ev, pe_value ev) of
           (ScvSymbol s # ScvAddress sender # ScvAddress dest # _, ScvI128 hi lo) \<Rightarrow>
             if s = lit ''transfer'' \<and> sender = pool then
               Some \<lparr> oe_txHash = pe_txHash ev, oe_ledger = pe_ledger ev, oe_ledgerCloseUnix = pe_closedAtMs ev div 1000,
                 oe_to = dest, oe_amountStroops = sint (word_cat hi lo :: 128 word) \<rparr>
             else None
         | _ \<Rightarrow> None)
      else None)"

definition pool_says :: "ustring \<Rightarrow> string \<Rightarrow> pool_event \<Rightarrow> bool" where
  "pool_says pool name ev \<longleftrightarrow> pe_inSuccessfulContractCall ev \<and> pe_contractId ev = Some pool \<and> event_symbol ev = Some (lit name)"

definition announcement :: "(byte list \<Rightarrow> ustring option) \<Rightarrow> pool_node \<Rightarrow> ustring \<Rightarrow> pool_event \<Rightarrow> settlement_observation option" where
  "announcement encodeKey N pool ev =
     (if pool_says pool ''payment_made'' ev then
        (case readTxSourceAccount encodeKey (pn_getTransaction N (pe_txHash ev)) of
           None \<Rightarrow> None
         | Some source \<Rightarrow>
             (case toSettlementObservation ev source (pe_closedAtMs ev div 1000) of Inr found \<Rightarrow> found | Inl _ \<Rightarrow> None))
      else None)"

definition upgrade_of :: "ustring \<Rightarrow> pool_event \<Rightarrow> pool_upgrade option" where
  "upgrade_of pool ev =
     (if pool_says pool ''upgraded'' ev
      then Some \<lparr> pu_txHash = pe_txHash ev, pu_ledger = pe_ledger ev, pu_ledgerCloseUnix = pe_closedAtMs ev div 1000 \<rparr>
      else None)"

definition cache_sound :: "(byte list \<Rightarrow> ustring option) \<Rightarrow> pool_node \<Rightarrow> scan_state \<Rightarrow> bool" where
  "cache_sound encodeKey N s \<longleftrightarrow>
     (\<forall>h source. map_of (sc_sourceCache s) h = Some source \<longrightarrow> readTxSourceAccount encodeKey (pn_getTransaction N h) = Some source)"

lemma raised_Inr [simp]: "raised m = Inr x \<longleftrightarrow> m = Inr x"
  by (cases m) (simp_all add: raised_def)

lemma toOutflowEvent_is_spec:
  assumes "toOutflowEvent ev pool (pe_closedAtMs ev div 1000) = Inr found"
    and "pe_inSuccessfulContractCall ev" and "pe_contractId ev = Some sac" and "event_symbol ev = Some (lit ''transfer'')"
  shows "pool_transfer sac pool ev = found"
  using assms
  by (auto simp: toOutflowEvent_def pool_transfer_def event_symbol_def addressOf_def scValI128ToBigInt_def sint_word_cat_64
      bindR_Inr_iff split: list.splits scv.splits if_splits)

lemma contract_text_Some: "c \<noteq> lit ''undefined'' \<Longrightarrow> contract_text ev = c \<longleftrightarrow> pe_contractId ev = Some c"
  by (auto simp: contract_text_def split: option.splits)

lemma pool_transfer_not:
  assumes "\<not> (pe_inSuccessfulContractCall ev \<and> pe_contractId ev = Some sac \<and> event_symbol ev = Some (lit ''transfer''))"
  shows "pool_transfer sac pool ev = None"
  using assms by (auto simp: pool_transfer_def event_symbol_def split: list.splits scv.splits)

lemma source_through_cache_sound:
  assumes "source_through_cache encodeKey N h s = Inr (source, t)" and "cache_sound encodeKey N s"
  shows "readTxSourceAccount encodeKey (pn_getTransaction N h) = Some source \<and> cache_sound encodeKey N t
    \<and> sc_outflows t = sc_outflows s \<and> sc_settlements t = sc_settlements s \<and> sc_upgrades t = sc_upgrades s"
  using assms by (auto simp: source_through_cache_def cache_sound_def split: option.splits if_splits)

text \<open>One step of the scan appends what the specification finds in the event.\<close>

definition appends :: "'a list \<Rightarrow> 'a option \<Rightarrow> 'a list \<Rightarrow> bool" where
  "appends xs found ys \<longleftrightarrow> ys = xs @ (case found of None \<Rightarrow> [] | Some x \<Rightarrow> [x])"

lemma scan_event_is_spec:
  assumes step: "scan_event encodeKey N sac pool ev s = Inr t" and cache: "cache_sound encodeKey N s"
    and ids: "sac \<noteq> lit ''undefined''" "pool \<noteq> lit ''undefined''" and differ: "sac \<noteq> pool"
  shows "cache_sound encodeKey N t \<and> appends (sc_outflows s) (pool_transfer sac pool ev) (sc_outflows t)
    \<and> appends (sc_settlements s) (announcement encodeKey N pool ev) (sc_settlements t)
    \<and> appends (sc_upgrades s) (upgrade_of pool ev) (sc_upgrades t)"
proof -
  let ?live = "pe_inSuccessfulContractCall ev" and ?by = "\<lambda>c. pe_contractId ev = Some c"
    and ?says = "\<lambda>n. event_symbol ev = Some (lit n)"
  note names = contract_text_Some [OF ids(1)] contract_text_Some [OF ids(2)]
  consider (transfer) "?live" "?by sac" "?says ''transfer''" | (upgrade) "?live" "?by pool" "?says ''upgraded''"
    | (payment) "?live" "?by pool" "?says ''payment_made''"
    | (other) "\<not> (?live \<and> ?by sac \<and> ?says ''transfer'')" "\<not> (?live \<and> ?by pool \<and> ?says ''upgraded'')"
        "\<not> (?live \<and> ?by pool \<and> ?says ''payment_made'')"
    by blast
  then show ?thesis
  proof cases
    case transfer
    with step obtain found where f: "toOutflowEvent ev pool (pe_closedAtMs ev div 1000) = Inr found"
      and t: "t = (case found of None \<Rightarrow> s | Some x \<Rightarrow> s\<lparr> sc_outflows := sc_outflows s @ [x] \<rparr>)"
      by (auto simp: scan_event_def names bindR_Inr_iff Let_def)
    from toOutflowEvent_is_spec [OF f] transfer have "pool_transfer sac pool ev = found" by simp
    with t transfer cache differ show ?thesis
      by (auto simp: appends_def announcement_def upgrade_of_def pool_says_def cache_sound_def split: option.splits)
  next
    case upgrade
    with step cache differ show ?thesis
      by (auto simp: scan_event_def names Let_def appends_def announcement_def upgrade_of_def pool_says_def cache_sound_def
          pool_transfer_not)
  next
    case payment
    with step differ obtain source u observed where u: "source_through_cache encodeKey N (pe_txHash ev) s = Inr (source, u)"
      and o: "toSettlementObservation ev source (pe_closedAtMs ev div 1000) = Inr observed"
      and t: "t = (case observed of None \<Rightarrow> u | Some x \<Rightarrow> u\<lparr> sc_settlements := sc_settlements u @ [x] \<rparr>)"
      by (auto simp: scan_event_def names bindR_Inr_iff Let_def)
    from source_through_cache_sound [OF u cache] o t payment differ show ?thesis
      by (auto simp: appends_def announcement_def upgrade_of_def pool_says_def cache_sound_def pool_transfer_not split: option.splits)
  next
    case other
    with step have "t = s" by (auto simp: scan_event_def names Let_def split: option.splits if_splits)
    with other cache show ?thesis
      by (auto simp: appends_def announcement_def upgrade_of_def pool_says_def pool_transfer_not)
  qed
qed

lemma map_filter_Cons_appends:
  "appends xs (f e) ys \<Longrightarrow> ys @ List.map_filter f es = xs @ List.map_filter f (e # es)"
  by (simp add: appends_def map_filter_simps split: option.splits)

lemma scan_events_is_spec:
  assumes "scan_events encodeKey N sac pool evs s = Inr t" and "cache_sound encodeKey N s"
    and ids: "sac \<noteq> lit ''undefined''" "pool \<noteq> lit ''undefined''" "sac \<noteq> pool"
  shows "sc_outflows t = sc_outflows s @ List.map_filter (pool_transfer sac pool) evs
    \<and> sc_settlements t = sc_settlements s @ List.map_filter (announcement encodeKey N pool) evs
    \<and> sc_upgrades t = sc_upgrades s @ List.map_filter (upgrade_of pool) evs"
  using assms(1,2)
proof (induction evs arbitrary: s)
  case Nil
  then show ?case by (simp add: map_filter_simps)
next
  case (Cons e evs)
  then obtain u where u: "scan_event encodeKey N sac pool e s = Inr u" and r: "scan_events encodeKey N sac pool evs u = Inr t"
    by (auto simp: bindR_Inr_iff)
  note one = scan_event_is_spec [OF u Cons.prems(2) ids]
  from Cons.IH [OF r] one show ?case
    by (metis map_filter_Cons_appends)
qed

lemma fetched_page:
  assumes "fetchPoolActivity encodeKey N sac pool req = Inr (Page p)"
    and ids: "sac \<noteq> lit ''undefined''" "pool \<noteq> lit ''undefined''" "sac \<noteq> pool"
  shows "\<exists>res. pn_getEvents N req = Inr res
    \<and> p = \<lparr> pp_outflows = List.map_filter (pool_transfer sac pool) (er_events res),
          pp_settlements = List.map_filter (announcement encodeKey N pool) (er_events res),
          pp_upgrades = List.map_filter (upgrade_of pool) (er_events res), pp_cursor = er_cursor res,
          pp_latestLedger = er_latestLedger res, pp_latestLedgerCloseUnix = er_latestLedgerCloseTime res,
          pp_oldestLedger = er_oldestLedger res \<rparr>"
proof -
  from assms(1) obtain res t where res: "pn_getEvents N req = Inr res"
    and t: "scan_events encodeKey N sac pool (er_events res)
      \<lparr> sc_outflows = [], sc_settlements = [], sc_upgrades = [], sc_sourceCache = [] \<rparr> = Inr t"
    and p: "p = \<lparr> pp_outflows = sc_outflows t, pp_settlements = sc_settlements t, pp_upgrades = sc_upgrades t,
      pp_cursor = er_cursor res, pp_latestLedger = er_latestLedger res, pp_latestLedgerCloseUnix = er_latestLedgerCloseTime res,
      pp_oldestLedger = er_oldestLedger res \<rparr>"
    by (auto simp: fetchPoolActivity_def classifyEventsFailure_def Let_def bindR_Inr_iff split: sum.splits if_splits)
  have "cache_sound encodeKey N \<lparr> sc_outflows = [], sc_settlements = [], sc_upgrades = [], sc_sourceCache = [] \<rparr>"
    by (simp add: cache_sound_def)
  from scan_events_is_spec [OF t this ids] res p show ?thesis by simp
qed

lemma set_map_filter: "y \<in> set (List.map_filter f xs) \<longleftrightarrow> (\<exists>x \<in> set xs. f x = Some y)"
  by (induction xs) (auto simp: map_filter_simps split: option.splits)

text \<open>Where in the node's range a request stands.\<close>

definition position :: "pool_fetch \<Rightarrow> int option" where
  "position req = (case req of FromLedger l \<Rightarrow> Some l | FromCursor c \<Rightarrow> cursorLedger c)"

text \<open>A blind spot is claimed only when the node refused the position and itself says it keeps nothing that old.\<close>

lemma blind_spot_is_below_the_floor:
  assumes "fetchPoolActivity encodeKey N sac pool req = Inr (CursorBelowRetention at oldest latest)"
  shows "\<exists>e sequence closeTime probe. pn_getEvents N req = Inl e \<and> ce_code e = Some (-32600)
    \<and> pn_getLatestLedger N = Inr (sequence, closeTime) \<and> pn_rangeProbe N (sequence - 1) = Inr probe
    \<and> oldest = er_oldestLedger probe \<and> latest = er_latestLedger probe \<and> position req = Some at \<and> at < oldest"
  using assms
  by (auto simp: fetchPoolActivity_def classifyEventsFailure_def Let_def position_def opt_or_def bindR_Inr_iff
      split: sum.splits if_splits pool_fetch.splits option.splits)

text \<open>A cursor whose event index is anything at all stands at the ledger in its upper bits.\<close>

lemma lit_code_units: "c \<in> set (lit s) \<longleftrightarrow> (\<exists>x \<in> set s. c = of_nat (of_char x))"
  by (auto simp: lit_def)

lemma decimal_has_no_dash: "c \<in> set (lit (nat_dec n)) \<Longrightarrow> c \<notin> set (lit ''-'')"
proof
  assume "c \<in> set (lit (nat_dec n))" and "c \<in> set (lit ''-'')"
  then have "CHR ''-'' \<in> set (nat_dec n)" unfolding lit_code_units by (metis code_unit_inj empty_iff empty_set set_ConsD)
  with nat_dec_digits [of n] show False by (auto simp: list_all_iff is_digit_def)
qed

lemma cursorLedger_TOID:
  assumes "0 \<le> ledger" "0 \<le> rest" "rest < 2 ^ 32"
  shows "cursorLedger (lit (nat_dec (nat (ledger * 2 ^ 32 + rest))) @ lit ''-'' @ suffix) = Some ledger"
proof -
  let ?t = "nat_dec (nat (ledger * 2 ^ 32 + rest))"
  have "takeWhile (\<lambda>c. c \<notin> set (lit ''-'')) (lit ?t @ lit ''-'' @ suffix) = lit ?t"
    using decimal_has_no_dash [of _ "nat (ledger * 2 ^ 32 + rest)"]
    by (subst takeWhile_append2) (simp_all add: lit_def)
  moreover have "list_all (\<lambda>c. (of_char c :: nat) < 128) ?t"
    using nat_dec_digits by (rule list.pred_mono_strong) (simp add: is_digit_def)
  ultimately show ?thesis
    using assms nat_dec_digits
    by (simp add: cursorLedger_def ascii_of_lit drop_bit_eq_div)
qed

section \<open>Properties\<close>


definition demo_event :: "ustring \<Rightarrow> scv list \<Rightarrow> scv \<Rightarrow> pool_event" where
  "demo_event contract topic val = \<lparr> pe_inSuccessfulContractCall = True, pe_topic = topic, pe_value = val,
     pe_contractId = Some contract, pe_txHash = lit ''h'', pe_ledger = 7, pe_closedAtMs = 5999 \<rparr>"

definition demo_events :: "pool_event list" where
  "demo_events = [demo_event (lit ''SAC'') [ScvSymbol (lit ''transfer''), ScvAddress (lit ''POOL''), ScvAddress (lit ''G'')] (ScvI128 0 9),
     demo_event (lit ''SAC'') [ScvSymbol (lit ''transfer''), ScvAddress (lit ''G''), ScvAddress (lit ''POOL'')] (ScvI128 0 4),
     demo_event (lit ''POOL'') [ScvSymbol (lit ''payment_made''), ScvBytes [1]]
       (ScvMap (Some [(ScvSymbol (lit ''amount''), ScvI128 0 9), (ScvSymbol (lit ''applied_rate''), ScvI128 0 5),
         (ScvSymbol (lit ''merchant''), ScvAddress (lit ''G'')), (ScvSymbol (lit ''memo''), ScvBytes [2])]))]"

definition demo_node :: pool_node where
  "demo_node = \<lparr> pn_getEvents = (\<lambda>_. Inr \<lparr> er_events = demo_events, er_cursor = lit ''c'', er_latestLedger = 8,
       er_latestLedgerCloseTime = 6, er_oldestLedger = 1 \<rparr>),
     pn_getLatestLedger = Inl \<lparr> ce_code = None, ce_message = [] \<rparr>, pn_rangeProbe = (\<lambda>_. Inl \<lparr> ce_code = None, ce_message = [] \<rparr>),
     pn_getTransaction = (\<lambda>_. Inr (ResSuccess 7 (Some (EnvelopeV1 (KeyEd25519 [3]))))) \<rparr>"

lemma demo_page:
  "\<exists>p. fetchPoolActivity (\<lambda>_. Some (lit ''OP'')) demo_node (lit ''SAC'') (lit ''POOL'') (FromLedger 1) = Inr (Page p)
     \<and> length (pp_outflows p) = 1 \<and> length (pp_settlements p) = 1"
  by (simp add: fetchPoolActivity_def demo_node_def demo_events_def demo_event_def scan_event_def event_symbol_def contract_text_def
      toOutflowEvent_def addressOf_def scValI128ToBigInt_def toSettlementObservation_def source_through_cache_def
      readTxSourceAccount_def raised_def)


text \<open>A leaf of an event as the two contracts emit it: addresses and byte strings are not empty, amounts not negative.\<close>

fun sound_leaf :: "scv \<Rightarrow> bool" where
  "sound_leaf (ScvAddress a) \<longleftrightarrow> a \<noteq> []"
| "sound_leaf (ScvBytes b) \<longleftrightarrow> b \<noteq> []"
| "sound_leaf (ScvI128 hi lo) \<longleftrightarrow> 0 \<le> sint hi"
| "sound_leaf _ \<longleftrightarrow> True"

fun sound_value :: "scv \<Rightarrow> bool" where
  "sound_value (ScvMap (Some entries)) \<longleftrightarrow> list_all (\<lambda>(k, v). sound_leaf v) entries"
| "sound_value v \<longleftrightarrow> sound_leaf v"

definition sound_event :: "pool_event \<Rightarrow> bool" where
  "sound_event ev \<longleftrightarrow> pe_txHash ev \<noteq> [] \<and> is_safe_int (pe_ledger ev) \<and> is_safe_int (pe_closedAtMs ev div 1000)
     \<and> list_all sound_leaf (pe_topic ev) \<and> sound_value (pe_value ev)"

definition page_observations :: "pool_page \<Rightarrow> observation list" where
  "page_observations p = map ObsOut (pp_outflows p) @ map ObsSet (pp_settlements p) @ map ObsUpg (pp_upgrades p)"

lemma sound_i128: "scValI128ToBigInt v = Inr i \<Longrightarrow> sound_leaf v \<Longrightarrow> 0 \<le> i"
  by (cases v) (auto simp: scValI128ToBigInt_def push_bit_eq_mult)

lemma sound_address: "addressOf v = Inr a \<Longrightarrow> sound_leaf v \<Longrightarrow> a \<noteq> []"
  by (cases v) (simp_all add: addressOf_def)

lemma map_fields_sound:
  "map_fields es acc = Some found \<Longrightarrow> list_all (\<lambda>(k, v). sound_leaf v) es \<Longrightarrow>
   (\<And>k v. map_of acc k = Some v \<Longrightarrow> sound_leaf v) \<Longrightarrow> map_of found k = Some v \<Longrightarrow> sound_leaf v"
proof (induction es acc rule: map_fields.induct)
  case (2 k' v' rest acc)
  show ?case by (rule 2) (use 2 in \<open>auto split: if_splits\<close>)
qed auto

lemma to_hex_nonempty: "b \<noteq> [] \<Longrightarrow> to_hex b \<noteq> []"
  by (cases b) (simp_all add: to_hex_def)

lemma observation_sound:
  assumes "toSettlementObservation ev source closeUnix = Inr (Some x)" and "sound_event ev" and "source \<noteq> []"
    and "is_safe_int closeUnix" and "pe_contractId ev = Some pool" and "pool \<noteq> []"
  shows "storable_observation (ObsSet x)"
proof -
  from assms(1) obtain n txId ts entries found amount rate merchant memo a r m where
      e: "pe_topic ev = n # ScvBytes txId # ts" "pe_value ev = ScvMap entries"
        "map_fields (case entries of None \<Rightarrow> [] | Some es \<Rightarrow> es) [] = Some found"
        "map_of found (lit ''amount'') = Some amount" "map_of found (lit ''applied_rate'') = Some rate"
        "map_of found (lit ''merchant'') = Some merchant" "map_of found (lit ''memo'') = Some (ScvBytes memo)"
      and v: "addressOf merchant = Inr m" "scValI128ToBigInt amount = Inr a" "scValI128ToBigInt rate = Inr r"
      and x: "x = \<lparr> so_txIdHex = to_hex txId, so_txHash = pe_txHash ev, so_ledger_seq = pe_ledger ev,
        so_ledgerCloseUnix = closeUnix, so_contractId = contract_text ev, so_sourceAccount = source, so_merchant = m,
        so_amountStroops = a, so_appliedRateStroops = r, so_memoHex = to_hex memo \<rparr>"
    by (auto simp: toSettlementObservation_def bindR_Inr_iff split: list.splits scv.splits option.splits)
  have leaf: "sound_leaf v" if "map_of found k = Some v" for k v
    using map_fields_sound [OF e(3) _ _ that] assms(2) e(2) by (cases entries) (simp_all add: sound_event_def)
  from leaf [OF e(7)] assms(2) e(1) have "txId \<noteq> []" "memo \<noteq> []" by (simp_all add: sound_event_def)
  with assms v leaf [OF e(4)] leaf [OF e(5)] leaf [OF e(6)] show ?thesis
    by (simp add: x sound_event_def contract_text_def to_hex_nonempty sound_address sound_i128)
qed

lemma page_observations_sound:
  assumes "fetchPoolActivity encodeKey N sac pool req = Inr (Page p)"
    and ids: "sac \<noteq> lit ''undefined''" "pool \<noteq> lit ''undefined''" "sac \<noteq> pool" and "pool \<noteq> []"
    and sound: "\<And>res ev. pn_getEvents N req = Inr res \<Longrightarrow> ev \<in> set (er_events res) \<Longrightarrow> sound_event ev"
    and keys: "\<And>k t. encodeKey k = Some t \<Longrightarrow> t \<noteq> []"
    and obs: "obs \<in> set (page_observations p)"
  shows "storable_observation obs"
proof -
  from fetched_page [OF assms(1) ids] obtain res where res: "pn_getEvents N req = Inr res"
    and o: "pp_outflows p = List.map_filter (pool_transfer sac pool) (er_events res)"
    and s: "pp_settlements p = List.map_filter (announcement encodeKey N pool) (er_events res)"
    and u: "pp_upgrades p = List.map_filter (upgrade_of pool) (er_events res)" by auto
  note ok = sound [OF res]
  consider (out) x ev where "obs = ObsOut x" "ev \<in> set (er_events res)" "pool_transfer sac pool ev = Some x"
    | (settled) x ev where "obs = ObsSet x" "ev \<in> set (er_events res)" "announcement encodeKey N pool ev = Some x"
    | (upgrade) x ev where "obs = ObsUpg x" "ev \<in> set (er_events res)" "upgrade_of pool ev = Some x"
    using obs by (auto simp: page_observations_def o s u set_map_filter)
  then show ?thesis
  proof cases
    case out
    with ok [OF out(2)] show ?thesis
      by (auto simp: pool_transfer_def sound_event_def storable_outflow_def sint_word_cat_64 push_bit_eq_mult
          split: if_splits list.splits scv.splits)
  next
    case settled
    then obtain source where "readTxSourceAccount encodeKey (pn_getTransaction N (pe_txHash ev)) = Some source"
      and x: "toSettlementObservation ev source (pe_closedAtMs ev div 1000) = Inr (Some x)" and by_pool: "pe_contractId ev = Some pool"
      by (auto simp: announcement_def pool_says_def split: if_splits option.splits sum.splits)
    then have "source \<noteq> []"
      by (auto simp: readTxSourceAccount_def dest: keys split: sum.splits tx_response.splits option.splits tx_envelope.splits
          muxed_account.splits)
    from observation_sound [OF x ok [OF settled(2)] this _ by_pool \<open>pool \<noteq> []\<close>] ok [OF settled(2)] settled(1) show ?thesis
      by (simp add: sound_event_def)
  next
    case upgrade
    with ok [OF upgrade(2)] show ?thesis by (auto simp: upgrade_of_def sound_event_def split: if_splits)
  qed
qed

text \<open>C24. What the adapter takes from the chain, the durable log can read back. When the two contracts emit well-formed
  events (addresses and byte strings not empty, amounts not negative, ledger numbers safe integers), every outflow,
  settlement and upgrade of a page is a record that its log decodes to exactly that record on the next boot.\<close>

theorem fetched_observations_survive_the_log:
  assumes "fetchPoolActivity encodeKey N sac pool req = Inr (Page p)"
    and "sac \<noteq> lit ''undefined''" and "pool \<noteq> lit ''undefined''" and "sac \<noteq> pool" and "pool \<noteq> []"
    and "\<And>res ev. pn_getEvents N req = Inr res \<Longrightarrow> ev \<in> set (er_events res) \<Longrightarrow> sound_event ev"
    and "\<And>k t. encodeKey k = Some t \<Longrightarrow> t \<noteq> []"
    and "obs \<in> set (page_observations p)"
  shows "decodeObservation (Some (encodeObservation obs)) = Inr obs"
  by (rule observation_codec.decode_encode) (rule page_observations_sound [OF assms])

lemma fetched_observations_survive_the_log_witness:
  "\<exists>p. fetchPoolActivity (\<lambda>_. Some (lit ''OP'')) demo_node (lit ''SAC'') (lit ''POOL'') (FromLedger 1) = Inr (Page p)
     \<and> page_observations p \<noteq> []
     \<and> decodeObservation (Some (encodeObservation (hd (page_observations p)))) = Inr (hd (page_observations p))"
proof -
  obtain p where p: "fetchPoolActivity (\<lambda>_. Some (lit ''OP'')) demo_node (lit ''SAC'') (lit ''POOL'') (FromLedger 1) = Inr (Page p)"
    and n: "length (pp_outflows p) = 1" using demo_page by blast
  then have ne: "page_observations p \<noteq> []" by (auto simp: page_observations_def)
  have sound: "sound_event ev" if "pn_getEvents demo_node (FromLedger 1) = Inr res" "ev \<in> set (er_events res)" for res ev
    using that by (auto simp: demo_node_def demo_events_def demo_event_def sound_event_def is_safe_int_def)
  have "decodeObservation (Some (encodeObservation (hd (page_observations p)))) = Inr (hd (page_observations p))"
    by (rule fetched_observations_survive_the_log [OF p]) (use sound ne in \<open>auto split: if_splits\<close>)
  with p ne show ?thesis by blast
qed

text \<open>The scan of the diagnostics finds a code in the list it is given.\<close>

lemma firstContractErrorCode_in: "firstContractErrorCode vs = Some code \<Longrightarrow> ScvError (SceContract code) \<in> set vs"
  by (induction vs) (auto simp: scValContractErrorCode_def split: option.splits scv.splits sc_error.splits)

lemma firstContractErrorCodeFromContract_in:
  "firstContractErrorCodeFromContract es pool = Some code \<Longrightarrow>
   \<exists>e \<in> set es. ds_contractId e = Some pool \<and> ScvError (SceContract code) \<in> set (ds_vals e)"
  by (induction es) (auto dest: firstContractErrorCode_in split: if_splits option.splits)

text \<open>The diagnostics a failed transaction carries, at the top level or, when there are none, in its meta.\<close>

definition diagnostics_of :: "failed_tx \<Rightarrow> diagnostic_event list" where
  "diagnostics_of f =
     (case ft_diagnosticEventsXdr f of
        Some (ev # evs) \<Rightarrow> ev # evs
      | _ \<Rightarrow> (case ft_resultMetaXdr f of MetaV3 (Some evs) \<Rightarrow> evs | _ \<Rightarrow> []))"

lemma collectDiagnosticEvents_is_spec:
  "collectDiagnosticEvents encodeContract f = List.map_filter (read_diagnostic encodeContract) (diagnostics_of f)"
  by (auto simp: collectDiagnosticEvents_def push_events_def diagnostics_of_def Let_def map_filter_simps
      split: option.splits list.splits result_meta.splits)

text \<open>The error code that explains a reverted payment is the pool's own. If the port reports a code for an order, the
  journal holds the hash of its payment, the chain says that transaction failed, and one of its diagnostic events was
  emitted by the pool contract and carries that very contract error. A code of the token contract the pool calls, of the
  host, or of no contract is never reported, however the node orders the events.\<close>

lemma revert_code_is_the_pools_own:
  assumes "readRevertErrorCode encodeContract lookup wiring journal orderId = Some code"
  shows "\<exists>persisted f cid topics data. loadPersisted orderId journal = Some persisted
    \<and> lookup (ev_hashHex persisted) = Inr (ResFailed f)
    \<and> DiagEvent (Some cid) topics data \<in> set (diagnostics_of f) \<and> encodeContract cid = Some (pw_troyPool wiring)
    \<and> ScvError (SceContract code) \<in> set (topics @ [data])"
proof -
  from assms obtain persisted f where l: "loadPersisted orderId journal = Some persisted"
    and f: "lookup (ev_hashHex persisted) = Inr (ResFailed f)"
    and c: "firstContractErrorCodeFromContract (collectDiagnosticEvents encodeContract f) (pw_troyPool wiring) = Some code"
    by (auto simp: readRevertErrorCode_def readContractErrorCode_def split: option.splits sum.splits tx_response.splits)
  from firstContractErrorCodeFromContract_in [OF c] obtain e ev where e: "ds_contractId e = Some (pw_troyPool wiring)"
      "ScvError (SceContract code) \<in> set (ds_vals e)"
    and ev: "ev \<in> set (diagnostics_of f)" "read_diagnostic encodeContract ev = Some e"
    by (auto simp: collectDiagnosticEvents_is_spec set_map_filter)
  from ev(2) e obtain cid topics data where "ev = DiagEvent (Some cid) topics data" "encodeContract cid = Some (pw_troyPool wiring)"
      "ScvError (SceContract code) \<in> set (topics @ [data])"
    by (auto simp: read_diagnostic_def split: diagnostic_event.splits option.splits)
  with l f ev(1) show ?thesis by blast
qed

lemma revert_code_is_the_pools_own_witness:
  "\<exists>persisted f cid topics data. loadPersisted (lit ''o'') [(lit ''o'', \<lparr> ev_hashHex = lit ''h'', ev_signedXdr = lit ''x'' \<rparr>)] = Some persisted
    \<and> Inr (ResFailed \<lparr> ft_resultXdr = None,
        ft_diagnosticEventsXdr = Some [DiagEvent (Some [9]) [ScvError (SceContract 1)] ScvVoid, DiagEvent (Some [7]) [] (ScvError (SceContract 2))],
        ft_resultMetaXdr = MetaOther \<rparr>) = (Inr (ResFailed f) :: call_error + tx_response)
    \<and> DiagEvent (Some cid) topics data \<in> set (diagnostics_of f) \<and> (if cid = [7] then Some (lit ''POOL'') else Some (lit ''SAC'')) = Some (lit ''POOL'')
    \<and> ScvError (SceContract 2) \<in> set (topics @ [data])"
proof -
  let ?f = "\<lparr> ft_resultXdr = None,
      ft_diagnosticEventsXdr = Some [DiagEvent (Some [9]) [ScvError (SceContract 1)] ScvVoid, DiagEvent (Some [7]) [] (ScvError (SceContract 2))],
      ft_resultMetaXdr = MetaOther \<rparr>"
  have "readRevertErrorCode (\<lambda>cid. if cid = [7] then Some (lit ''POOL'') else Some (lit ''SAC'')) (\<lambda>_. Inr (ResFailed ?f))
      \<lparr> pw_sacContractId = lit ''SAC'', pw_troyPool = lit ''POOL'', pw_operatorPublic = lit ''OP'' \<rparr>
      [(lit ''o'', \<lparr> ev_hashHex = lit ''h'', ev_signedXdr = lit ''x'' \<rparr>)] (lit ''o'') = Some 2"
    by (simp add: readRevertErrorCode_def readContractErrorCode_def loadPersisted_def collectDiagnosticEvents_def push_events_def
        read_diagnostic_def map_filter_simps scValContractErrorCode_def)
  from revert_code_is_the_pools_own [OF this] show ?thesis by simp
qed

end
