(* ===== verification/Payment_Tx.thy ===== *)
theory Payment_Tx
  imports Rpc_Adapter Ground_Truth
begin

text \<open>
  How the payment transaction comes to be, \<^verbatim>\<open>packages/stellar-client/src\<close>: its construction (\<^verbatim>\<open>build.ts\<close>), the folding of a
  simulation into it in both modes (\<^verbatim>\<open>assemble.ts\<close>) and the key that signs it (\<^verbatim>\<open>signer.ts\<close>). What stellar-base does with a
  transaction is the record \<open>tx_sdk\<close>; \<open>'t\<close> is its transaction, \<open>'d\<close> its soroban data, and \<open>None\<close> is a throw.

  The lemmas show what every assembled payment authorises and, over an SDK that keeps what it is given, that the offline
  reconciler reads from the signed envelope exactly what the builder was given.
\<close>

section \<open>Transactions as the SDK hands them out\<close>

datatype host_call = HostCall ustring ustring "scv list" | HostOther

datatype signer_address = AccountKey "byte list" | NoAccount ustring

datatype entry_credentials = SourceAccountCredentials | AddressCredentialsOf signer_address scv | CredentialsOther

record invoke_op =
  io_source :: "ustring option"
  io_func :: host_call
  io_auth :: "entry_credentials list"

datatype tx_op = InvokeOp invoke_op | OpOther

record ('t, 'd) tx_sdk =
  tk_address :: "ustring \<Rightarrow> scv option"
  tk_i128 :: "int \<Rightarrow> scv option"
  tk_call :: "ustring \<Rightarrow> ustring \<Rightarrow> scv list \<Rightarrow> invoke_op option"
  tk_newTransaction :: "ustring \<Rightarrow> ustring \<Rightarrow> ustring \<Rightarrow> ustring \<Rightarrow> invoke_op \<Rightarrow> int \<times> int \<Rightarrow> 't option"
  tk_parseAuth :: "ustring \<Rightarrow> entry_credentials option"
  tk_parseSorobanData :: "ustring \<Rightarrow> 'd option"
  tk_resourceFee :: "'d \<Rightarrow> ustring"
  tk_operations :: "'t \<Rightarrow> tx_op list"
  tk_fee :: "'t \<Rightarrow> ustring"
  tk_rebuild :: "'t \<Rightarrow> ustring \<Rightarrow> 'd \<Rightarrow> invoke_op \<Rightarrow> 't option"
  tk_hash :: "'t \<Rightarrow> byte list"
  tk_encodeKey :: "byte list \<Rightarrow> ustring option"
  tk_copy :: "'t \<Rightarrow> ('t + unit) option"
  tk_signed :: "ustring \<Rightarrow> 't \<Rightarrow> ustring"

datatype tx_error =
    SdkThrew
  | BadTimebounds
  | AmountNotPositive
  | NonceBearingEntry
  | EntryCountMismatch
  | NotAddressEntry
  | NotOperatorEntry
  | UnsignedEntry
  | FeeMismatch
  | NotSingleInvoke
  | FeeBumpEnvelope

section \<open>Building, build.ts\<close>

record build_params =
  bp_operatorPublic :: ustring
  bp_sourcePublic :: "ustring option"
  bp_seq :: ustring
  bp_minTime :: "int option"
  bp_maxTime :: "int option"
  bp_fee :: ustring
  bp_passphrase :: ustring
  bp_troyPool :: ustring
  bp_txId32 :: "byte list"
  bp_amount :: int
  bp_appliedRate :: int
  bp_merchant :: ustring
  bp_memo32 :: "byte list"

text \<open>A time that is no integer is \<open>None\<close>; the bounds come back when they are good.\<close>

definition timebounds :: "int option \<Rightarrow> int option \<Rightarrow> tx_error + int \<times> int" where
  "timebounds minTime maxTime =
     (case (minTime, maxTime) of
        (Some lo, Some hi) \<Rightarrow> if lo < 0 \<or> hi \<le> 0 \<or> hi \<le> lo then Inl BadTimebounds else Inr (lo, hi)
      | _ \<Rightarrow> Inl BadTimebounds)"

definition buildPayTransaction :: "('t, 'd) tx_sdk \<Rightarrow> build_params \<Rightarrow> tx_error + 't" where
  "buildPayTransaction K p =
     bindR (timebounds (bp_minTime p) (bp_maxTime p)) (\<lambda>bounds.
     bindR (opt_or SdkThrew (tk_i128 K (bp_amount p))) (\<lambda>amount.
     bindR (opt_or SdkThrew (tk_i128 K (bp_appliedRate p))) (\<lambda>appliedRate.
     bindR (opt_or SdkThrew (tk_address K (bp_merchant p))) (\<lambda>merchant.
     bindR (opt_or SdkThrew (tk_call K (bp_troyPool p) (lit ''pay'')
         [ScvBytes (bp_txId32 p), amount, appliedRate, merchant, ScvBytes (bp_memo32 p)])) (\<lambda>oper.
       opt_or SdkThrew (tk_newTransaction K (case bp_sourcePublic p of None \<Rightarrow> bp_operatorPublic p | Some s \<Rightarrow> s)
         (bp_seq p) (bp_fee p) (bp_passphrase p) oper bounds))))))"

section \<open>Assembling, assemble.ts\<close>

definition parse_entries :: "('t, 'd) tx_sdk \<Rightarrow> ustring list \<Rightarrow> tx_error + entry_credentials list" where
  "parse_entries K b64s = opt_or SdkThrew (those (map (tk_parseAuth K) b64s))"

fun check_entries :: "(entry_credentials \<Rightarrow> tx_error option) \<Rightarrow> entry_credentials list \<Rightarrow> tx_error option" where
  "check_entries bad [] = None"
| "check_entries bad (e # es) = (case bad e of Some x \<Rightarrow> Some x | None \<Rightarrow> check_entries bad es)"

definition source_entry :: "entry_credentials \<Rightarrow> tx_error option" where
  "source_entry e = (case e of SourceAccountCredentials \<Rightarrow> None | _ \<Rightarrow> Some NonceBearingEntry)"

text \<open>\<open>xdrAddressToStrkey\<close>: what it gives for an address that is no account starts with an angle bracket.\<close>

definition xdrAddressToStrkey :: "('t, 'd) tx_sdk \<Rightarrow> signer_address \<Rightarrow> ustring option" where
  "xdrAddressToStrkey K a =
     (case a of
        NoAccount kind \<Rightarrow> Some (lit ''<contract:'' @ kind @ lit ''>'')
      | AccountKey k \<Rightarrow> tk_encodeKey K k)"

definition operator_entry :: "('t, 'd) tx_sdk \<Rightarrow> ustring \<Rightarrow> entry_credentials \<Rightarrow> tx_error option" where
  "operator_entry K operatorPublic e =
     (case e of
        AddressCredentialsOf a signature \<Rightarrow>
          (case xdrAddressToStrkey K a of
             None \<Rightarrow> Some SdkThrew
           | Some addr \<Rightarrow>
               if addr \<noteq> operatorPublic then Some NotOperatorEntry
               else if signature = ScvVoid then Some UnsignedEntry
               else None)
      | _ \<Rightarrow> Some NotAddressEntry)"

text \<open>The tail the two functions share: the fee check, the single operation, and the rebuilding with the entries.\<close>

definition rebuild_with ::
    "('t, 'd) tx_sdk \<Rightarrow> 't \<Rightarrow> sim_result \<Rightarrow> entry_credentials list \<Rightarrow> tx_error + 't" where
  "rebuild_with K unprepared sim entries =
     bindR (opt_or SdkThrew (tk_parseSorobanData K (si_sorobanDataXdr sim))) (\<lambda>sorobanData.
       if tk_resourceFee K sorobanData \<noteq> si_minResourceFee sim then Inl FeeMismatch
       else (case tk_operations K unprepared of
               InvokeOp oper # _ \<Rightarrow>
                 opt_or SdkThrew (tk_rebuild K unprepared (tk_fee K unprepared) sorobanData
                   \<lparr> io_source = io_source oper, io_func = io_func oper, io_auth = entries \<rparr>)
             | _ \<Rightarrow> Inl NotSingleInvoke))"

definition assembleFromSimulation :: "('t, 'd) tx_sdk \<Rightarrow> 't \<Rightarrow> sim_result \<Rightarrow> tx_error + 't" where
  "assembleFromSimulation K unprepared sim =
     bindR (parse_entries K (si_authXdr sim)) (\<lambda>entries.
       case check_entries source_entry entries of
         Some e \<Rightarrow> Inl e
       | None \<Rightarrow> rebuild_with K unprepared sim entries)"

definition assembleWithSignedAuth ::
    "('t, 'd) tx_sdk \<Rightarrow> 't \<Rightarrow> sim_result \<Rightarrow> ustring list \<Rightarrow> ustring \<Rightarrow> tx_error + 't" where
  "assembleWithSignedAuth K unprepared sim signedEntries operatorPublic =
     (if length signedEntries \<noteq> length (si_authXdr sim) then Inl EntryCountMismatch
      else bindR (parse_entries K signedEntries) (\<lambda>entries.
        case check_entries (operator_entry K operatorPublic) entries of
          Some e \<Rightarrow> Inl e
        | None \<Rightarrow> rebuild_with K unprepared sim entries))"

definition hashOf :: "('t, 'd) tx_sdk \<Rightarrow> 't \<Rightarrow> ustring" where
  "hashOf K tx = to_hex (tk_hash K tx)"

section \<open>Signing, signer.ts\<close>

text \<open>\<open>sign\<close>: the copy parsed back from the envelope is a transaction (\<open>Inl\<close>) or a fee bump.\<close>

definition sign :: "('t, 'd) tx_sdk \<Rightarrow> ustring \<Rightarrow> 't \<Rightarrow> tx_error + ustring" where
  "sign K secret submittable =
     bindR (opt_or SdkThrew (tk_copy K submittable)) (\<lambda>copy.
       case copy of
         Inl tx \<Rightarrow> Inr (tk_signed K secret tx)
       | Inr () \<Rightarrow> Inl FeeBumpEnvelope)"

section \<open>What an assembled payment authorises\<close>

lemma check_entries_None: "check_entries bad es = None \<longleftrightarrow> (\<forall>e \<in> set es. bad e = None)"
  by (induction es) (auto split: option.splits)

lemma opt_or_Inr [simp]: "opt_or e m = Inr x \<longleftrightarrow> m = Some x"
  by (cases m) (simp_all add: opt_or_def)

lemma rebuild_with_Inr:
  assumes "rebuild_with K unprepared sim entries = Inr t"
  obtains d oper ops where "tk_parseSorobanData K (si_sorobanDataXdr sim) = Some d" "tk_resourceFee K d = si_minResourceFee sim"
    "tk_operations K unprepared = InvokeOp oper # ops"
    "tk_rebuild K unprepared (tk_fee K unprepared) d \<lparr> io_source = io_source oper, io_func = io_func oper, io_auth = entries \<rparr> = Some t"
  using assms by (auto simp: rebuild_with_def bindR_Inr_iff split: if_splits list.splits tx_op.splits)

lemma source_entry_None: "source_entry e = None \<longleftrightarrow> e = SourceAccountCredentials"
  by (simp add: source_entry_def split: entry_credentials.splits)

lemma operator_entry_None:
  assumes "operator_entry K operatorPublic e = None"
    and "\<not> (\<exists>kind. operatorPublic = lit ''<contract:'' @ kind @ lit ''>'')"
  shows "\<exists>k signature. e = AddressCredentialsOf (AccountKey k) signature \<and> tk_encodeKey K k = Some operatorPublic
    \<and> signature \<noteq> ScvVoid"
  using assms by (auto simp: operator_entry_def xdrAddressToStrkey_def split: entry_credentials.splits signer_address.splits
      option.splits if_splits)

section \<open>An SDK that keeps what it is given\<close>

text \<open>\<open>scValToNative\<close> on the values a payment carries.\<close>

definition native_of :: "scv \<Rightarrow> native option" where
  "native_of v =
     (case v of
        ScvBytes b \<Rightarrow> Some \<lparr> nv_hex = Some (to_hex b), nv_text = None, nv_string = None \<rparr>
      | ScvAddress a \<Rightarrow> Some \<lparr> nv_hex = None, nv_text = Some a, nv_string = Some a \<rparr>
      | ScvI128 hi lo \<Rightarrow> Some \<lparr> nv_hex = None, nv_text = Some (lit (bigint_str (sint (word_cat hi lo :: 128 word)))), nv_string = None \<rparr>
      | _ \<Rightarrow> None)"

definition parsed_call :: "host_call \<Rightarrow> host_function" where
  "parsed_call f = (case f of HostCall c fn args \<Rightarrow> InvokeContract (Some c) fn (map native_of args) | HostOther \<Rightarrow> OtherHostFunction)"

text \<open>The SDK's documented behaviour, for the network's passphrase: an operation, a transaction and a rebuilt transaction hold what they
  were made of, an address and an integer encode to themselves, a copy is the same transaction, and the text of a signed
  transaction parses back to it. \<open>src\<close> is the source account of a transaction.\<close>

definition sdk_keeps :: "('t, 'd) tx_sdk \<Rightarrow> sdk \<Rightarrow> ('t \<Rightarrow> ustring) \<Rightarrow> ustring \<Rightarrow> bool" where
  "sdk_keeps K S src passphrase \<longleftrightarrow>
     (\<forall>a v. tk_address K a = Some v \<longrightarrow> v = ScvAddress a)
   \<and> (\<forall>i v. tk_i128 K i = Some v \<longrightarrow> scValI128ToBigInt v = Inr i)
   \<and> (\<forall>c fn args oper. tk_call K c fn args = Some oper \<longrightarrow> oper = \<lparr> io_source = None, io_func = HostCall c fn args, io_auth = [] \<rparr>)
   \<and> (\<forall>source seq fee oper bounds t. tk_newTransaction K source seq fee passphrase oper bounds = Some t \<longrightarrow>
        tk_operations K t = [InvokeOp oper] \<and> src t = source)
   \<and> (\<forall>t fee d oper t'. tk_rebuild K t fee d oper = Some t' \<longrightarrow> tk_operations K t' = [InvokeOp oper] \<and> src t' = src t)
   \<and> (\<forall>t t'. tk_copy K t = Some (Inl t') \<longrightarrow> tk_operations K t' = tk_operations K t \<and> src t' = src t \<and> tk_hash K t' = tk_hash K t)
   \<and> (\<forall>secret t oper. tk_operations K t = [InvokeOp oper] \<longrightarrow>
        (\<exists>ptx auth. sdk_fromXDR S (tk_signed K secret t) passphrase = Some (ParsedTransaction ptx) \<and> pt_source ptx = src t
           \<and> pt_hash ptx = tk_hash K t \<and> pt_operations ptx = [InvokeHostFunction (parsed_call (io_func oper)) auth]))"

lemma sdk_keepsD:
  assumes "sdk_keeps K S src passphrase"
  shows "tk_address K a = Some v \<Longrightarrow> v = ScvAddress a"
    and "tk_i128 K i = Some v \<Longrightarrow> scValI128ToBigInt v = Inr i"
    and "tk_call K c fn args = Some oper \<Longrightarrow> oper = \<lparr> io_source = None, io_func = HostCall c fn args, io_auth = [] \<rparr>"
    and "tk_newTransaction K source seq fee passphrase oper bounds = Some t \<Longrightarrow> tk_operations K t = [InvokeOp oper] \<and> src t = source"
    and "tk_rebuild K t fee d oper = Some t' \<Longrightarrow> tk_operations K t' = [InvokeOp oper] \<and> src t' = src t"
    and "tk_copy K t = Some (Inl t') \<Longrightarrow> tk_operations K t' = tk_operations K t \<and> src t' = src t \<and> tk_hash K t' = tk_hash K t"
    and "tk_operations K t = [InvokeOp oper] \<Longrightarrow>
      \<exists>ptx auth. sdk_fromXDR S (tk_signed K secret t) passphrase = Some (ParsedTransaction ptx) \<and> pt_source ptx = src t
        \<and> pt_hash ptx = tk_hash K t \<and> pt_operations ptx = [InvokeHostFunction (parsed_call (io_func oper)) auth]"
  using assms by (simp_all add: sdk_keeps_def del: split_paired_All)

lemma sign_Inr:
  assumes "sign K secret t = Inr xdr"
  obtains copy where "tk_copy K t = Some (Inl copy)" "xdr = tk_signed K secret copy"
proof -
  from assms obtain c where "tk_copy K t = Some c" "(case c of Inl tx \<Rightarrow> Inr (tk_signed K secret tx) | Inr () \<Rightarrow> Inl FeeBumpEnvelope) = Inr xdr"
    by (auto simp: sign_def bindR_Inr_iff)
  then show ?thesis using that by (cases c) (simp_all split: unit.splits)
qed

lemma buildPayTransaction_Inr:
  assumes "buildPayTransaction K p = Inr t"
  obtains amount rate merchant oper bounds where
    "tk_i128 K (bp_amount p) = Some amount" "tk_i128 K (bp_appliedRate p) = Some rate" "tk_address K (bp_merchant p) = Some merchant"
    "tk_call K (bp_troyPool p) (lit ''pay'') [ScvBytes (bp_txId32 p), amount, rate, merchant, ScvBytes (bp_memo32 p)] = Some oper"
    "tk_newTransaction K (case bp_sourcePublic p of None \<Rightarrow> bp_operatorPublic p | Some s \<Rightarrow> s) (bp_seq p) (bp_fee p)
       (bp_passphrase p) oper bounds = Some t"
  using assms by (auto simp: buildPayTransaction_def bindR_Inr_iff)

lemma decode_of_signed_call:
  assumes "sdk_fromXDR S xdr passphrase = Some (ParsedTransaction ptx)"
    and "pt_operations ptx = [InvokeHostFunction (parsed_call (HostCall c (lit ''pay'')
      [ScvBytes txId, ScvI128 ah al, ScvI128 rh rl, ScvAddress m, ScvBytes memo])) auth]"
  shows "decodeSignedPay S xdr passphrase = Some \<lparr> dp_tx = ptx, dp_recomputedHash = to_hex (pt_hash ptx),
    dp_projection = \<lparr> cs_function = lit ''pay'', cs_contract_id = c, cs_source_account = pt_source ptx, cs_tx_id_hex = to_hex txId,
      cs_amount_stroops = lit (bigint_str (sint (word_cat ah al :: 128 word))),
      cs_applied_rate_stroops = lit (bigint_str (sint (word_cat rh rl :: 128 word))), cs_merchant = m, cs_memo_hex = to_hex memo \<rparr> \<rparr>"
  using assms by (simp add: decodeSignedPay_def parsed_call_def project_pay_def native_of_def)

lemma i128_is: "scValI128ToBigInt v = Inr i \<Longrightarrow> \<exists>hi lo. v = ScvI128 hi lo \<and> sint (word_cat hi lo :: 128 word) = i"
  by (cases v) (auto simp: scValI128ToBigInt_def sint_word_cat_64)

text \<open>The transaction of either mode: in the operator's own mode from the simulation, in channel mode with the signed entries.\<close>

definition assembled :: "('t, 'd) tx_sdk \<Rightarrow> build_params \<Rightarrow> 't \<Rightarrow> sim_result \<Rightarrow> ustring list \<Rightarrow> tx_error + 't" where
  "assembled K p unprepared sim signedEntries =
     (if bp_sourcePublic p = None then assembleFromSimulation K unprepared sim
      else assembleWithSignedAuth K unprepared sim signedEntries (bp_operatorPublic p))"

lemma assembled_keeps_call:
  assumes "assembled K p u sim signedEntries = Inr t" and "sdk_keeps K S src passphrase" and "tk_operations K u = [InvokeOp oper]"
  shows "\<exists>auth. tk_operations K t = [InvokeOp \<lparr> io_source = io_source oper, io_func = io_func oper, io_auth = auth \<rparr>] \<and> src t = src u"
proof -
  from assms(1) obtain entries where "rebuild_with K u sim entries = Inr t"
    by (auto simp: assembled_def assembleFromSimulation_def assembleWithSignedAuth_def bindR_Inr_iff split: if_splits option.splits)
  with assms(2,3) show ?thesis by (auto elim!: rebuild_with_Inr dest!: sdk_keepsD(5) [OF assms(2)])
qed

lemma those_length: "those xs = Some ys \<Longrightarrow> length ys = length xs"
  by (induction xs arbitrary: ys) (auto split: option.splits)

section \<open>Properties\<close>

text \<open>C25. What is built is what the reconciler reads. A payment that was built, assembled in either mode and signed decodes, from
  its envelope alone, to the contract, source account, payment id, amount, rate, merchant and memo the builder was given,
  and its recomputed hash is the one the client journals before it sends. So an honest payment can never look tampered
  with or divergent because of how the two packages encode it.\<close>

theorem built_payment_decodes_to_its_inputs:
  assumes keeps: "sdk_keeps K S src (bp_passphrase p)"
    and built: "buildPayTransaction K p = Inr unprepared"
    and sim: "assembled K p unprepared sim signedEntries = Inr tx"
    and signed: "sign K secret tx = Inr signedXdr"
  shows "\<exists>d. decodeSignedPay S signedXdr (bp_passphrase p) = Some d \<and> dp_recomputedHash d = hashOf K tx
    \<and> dp_projection d = \<lparr> cs_function = lit ''pay'', cs_contract_id = bp_troyPool p,
        cs_source_account = (case bp_sourcePublic p of None \<Rightarrow> bp_operatorPublic p | Some s \<Rightarrow> s),
        cs_tx_id_hex = to_hex (bp_txId32 p), cs_amount_stroops = lit (bigint_str (bp_amount p)),
        cs_applied_rate_stroops = lit (bigint_str (bp_appliedRate p)), cs_merchant = bp_merchant p,
        cs_memo_hex = to_hex (bp_memo32 p) \<rparr>"
proof -
  let ?source = "case bp_sourcePublic p of None \<Rightarrow> bp_operatorPublic p | Some s \<Rightarrow> s"
  from buildPayTransaction_Inr [OF built] obtain amount rate merchant oper bounds where
      v: "tk_i128 K (bp_amount p) = Some amount" "tk_i128 K (bp_appliedRate p) = Some rate" "tk_address K (bp_merchant p) = Some merchant"
    and c: "tk_call K (bp_troyPool p) (lit ''pay'') [ScvBytes (bp_txId32 p), amount, rate, merchant, ScvBytes (bp_memo32 p)] = Some oper"
    and n: "tk_newTransaction K ?source (bp_seq p) (bp_fee p) (bp_passphrase p) oper bounds = Some unprepared" .
  note k = sdk_keepsD [OF keeps]
  note v = k(2) [OF v(1)] k(2) [OF v(2)] k(1) [OF v(3)] and oper = k(3) [OF c] and u = k(4) [OF n]
  from i128_is [OF v(1)] i128_is [OF v(2)] obtain ah al rh rl where w: "amount = ScvI128 ah al" "rate = ScvI128 rh rl"
      "sint (word_cat ah al :: 128 word) = bp_amount p" "sint (word_cat rh rl :: 128 word) = bp_appliedRate p" by blast
  from assembled_keeps_call [OF sim keeps] u obtain auth where t: "src tx = ?source"
      "tk_operations K tx = [InvokeOp \<lparr> io_source = io_source oper, io_func = io_func oper, io_auth = auth \<rparr>]"
    by auto
  from sign_Inr [OF signed] obtain copy where c: "tk_copy K tx = Some (Inl copy)" and x: "signedXdr = tk_signed K secret copy" .
  from k(6) [OF c] t have copy: "tk_operations K copy = [InvokeOp \<lparr> io_source = io_source oper, io_func = io_func oper, io_auth = auth \<rparr>]"
      "src copy = ?source" "tk_hash K copy = tk_hash K tx" by simp_all
  from k(7) [OF copy(1), of secret] obtain ptx auth' where "sdk_fromXDR S signedXdr (bp_passphrase p) = Some (ParsedTransaction ptx)"
      "pt_source ptx = ?source" "pt_hash ptx = tk_hash K tx" "pt_operations ptx = [InvokeHostFunction (parsed_call (io_func oper)) auth']"
    by (auto simp: x copy)
  with decode_of_signed_call [of S signedXdr "bp_passphrase p" ptx] w v(3) show ?thesis by (auto simp: oper hashOf_def)
qed

definition demo_call :: host_call where
  "demo_call = HostCall (lit ''POOL'') (lit ''pay'') [ScvBytes [1], ScvI128 0 5, ScvI128 0 7, ScvAddress (lit ''M''), ScvBytes [2]]"

definition demo_tx_sdk :: "(unit, unit) tx_sdk" where
  "demo_tx_sdk =
     (let only = (\<lambda>oper. if oper = \<lparr> io_source = None, io_func = demo_call, io_auth = [] \<rparr> then Some () else None) in
      \<lparr> tk_address = (\<lambda>a. Some (ScvAddress a)),
        tk_i128 = (\<lambda>i. if i = 5 then Some (ScvI128 0 5) else if i = 7 then Some (ScvI128 0 7) else None),
        tk_call = (\<lambda>c fn args. Some \<lparr> io_source = None, io_func = HostCall c fn args, io_auth = [] \<rparr>),
        tk_newTransaction = (\<lambda>source seq fee passphrase oper bounds. if source = lit ''OP'' then only oper else None),
        tk_parseAuth = (\<lambda>_. None), tk_parseSorobanData = (\<lambda>_. Some ()), tk_resourceFee = (\<lambda>_. lit ''9''),
        tk_operations = (\<lambda>_. [InvokeOp \<lparr> io_source = None, io_func = demo_call, io_auth = [] \<rparr>]), tk_fee = (\<lambda>_. lit ''100''),
        tk_rebuild = (\<lambda>t fee d. only), tk_hash = (\<lambda>_. [8]), tk_encodeKey = (\<lambda>_. None), tk_copy = (\<lambda>t. Some (Inl t)),
        tk_signed = (\<lambda>secret t. lit ''xdr'') \<rparr>)"

definition demo_parsing_sdk :: sdk where
  "demo_parsing_sdk = \<lparr> sdk_fromXDR = (\<lambda>x p. Some (ParsedTransaction \<lparr> pt_source = lit ''OP'', pt_networkPassphrase = p, pt_hash = [8],
       pt_signatures = [], pt_operations = [InvokeHostFunction (parsed_call demo_call) []] \<rparr>)),
     sdk_decodeKey = (\<lambda>_. None), sdk_verify = (\<lambda>_ _ _. None), sdk_authPayload = (\<lambda>_ _. None), sdk_isValidKey = (\<lambda>_. False),
     sdk_isValidContract = (\<lambda>_. False), sdk_address = (\<lambda>_. None), sdk_toLowerCase = (\<lambda>x. x) \<rparr>"

definition demo_params :: build_params where
  "demo_params = \<lparr> bp_operatorPublic = lit ''OP'', bp_sourcePublic = None, bp_seq = lit ''4'', bp_minTime = Some 0, bp_maxTime = Some 60,
     bp_fee = lit ''100'', bp_passphrase = lit ''net'', bp_troyPool = lit ''POOL'', bp_txId32 = [1], bp_amount = 5,
     bp_appliedRate = 7, bp_merchant = lit ''M'', bp_memo32 = [2] \<rparr>"

definition demo_sim :: sim_result where
  "demo_sim = \<lparr> si_sorobanDataXdr = lit ''d'', si_minResourceFee = lit ''9'', si_authXdr = [] \<rparr>"

lemmas demo_tx_defs = demo_tx_sdk_def demo_call_def demo_params_def demo_sim_def demo_parsing_sdk_def

lemma demo_sdk_keeps: "sdk_keeps demo_tx_sdk demo_parsing_sdk (\<lambda>_. lit ''OP'') (lit ''net'')"
  by (auto simp: sdk_keeps_def demo_tx_sdk_def demo_parsing_sdk_def Let_def scValI128ToBigInt_def split: if_splits)

lemma built_payment_decodes_to_its_inputs_witness:
  "\<exists>d. decodeSignedPay demo_parsing_sdk (lit ''xdr'') (lit ''net'') = Some d \<and> dp_recomputedHash d = to_hex [8]
     \<and> cs_amount_stroops (dp_projection d) = lit ''5'' \<and> cs_merchant (dp_projection d) = lit ''M''"
proof -
  have k: "sdk_keeps demo_tx_sdk demo_parsing_sdk (\<lambda>_. lit ''OP'') (bp_passphrase demo_params)"
    using demo_sdk_keeps by (simp add: demo_params_def)
  have b: "buildPayTransaction demo_tx_sdk demo_params = Inr ()"
    by (simp add: buildPayTransaction_def timebounds_def demo_tx_defs Let_def opt_or_def)
  have a: "assembled demo_tx_sdk demo_params () demo_sim [] = Inr ()"
    by (simp add: assembled_def assembleFromSimulation_def parse_entries_def rebuild_with_def demo_tx_defs Let_def opt_or_def)
  have g: "sign demo_tx_sdk (lit ''S'') () = Inr (lit ''xdr'')"
    by (simp add: sign_def demo_tx_defs Let_def opt_or_def)
  have five: "bigint_str 5 = ''5''"
  proof -
    have "char_of (of_char CHR ''5'' :: nat) = CHR ''5''" by (rule char_of_char)
    then show ?thesis by (simp add: bigint_str_def nat_dec.simps digit_def)
  qed
  show ?thesis
    using built_payment_decodes_to_its_inputs [OF k b a g] by (auto simp: demo_params_def hashOf_def demo_tx_sdk_def Let_def five)
qed

text \<open>A payment sent over a channel carries the operator's consent and nobody else's. If the assembly of a channel
  transaction returns, there is one signed entry per entry of the simulation, each is a signature of the operator's own
  account (never a source-account entry, which would authorise the channel, never another account's, never unsigned), the
  footprint's fee is the simulated one, and the call is the one that was built.\<close>

lemma channel_payment_carries_operator_consent:
  assumes "assembleWithSignedAuth K unprepared sim signedEntries operatorPublic = Inr tx"
    and "\<not> (\<exists>kind. operatorPublic = lit ''<contract:'' @ kind @ lit ''>'')"
  shows "\<exists>entries oper ops d. those (map (tk_parseAuth K) signedEntries) = Some entries \<and> length entries = length (si_authXdr sim)
    \<and> (\<forall>e \<in> set entries. \<exists>k signature. e = AddressCredentialsOf (AccountKey k) signature
         \<and> tk_encodeKey K k = Some operatorPublic \<and> signature \<noteq> ScvVoid)
    \<and> tk_operations K unprepared = InvokeOp oper # ops
    \<and> tk_parseSorobanData K (si_sorobanDataXdr sim) = Some d \<and> tk_resourceFee K d = si_minResourceFee sim
    \<and> tk_rebuild K unprepared (tk_fee K unprepared) d \<lparr> io_source = io_source oper, io_func = io_func oper, io_auth = entries \<rparr> = Some tx"
proof -
  from assms(1) obtain entries where len: "length signedEntries = length (si_authXdr sim)"
    and p: "those (map (tk_parseAuth K) signedEntries) = Some entries"
    and c: "check_entries (operator_entry K operatorPublic) entries = None" and r: "rebuild_with K unprepared sim entries = Inr tx"
    by (auto simp: assembleWithSignedAuth_def parse_entries_def bindR_Inr_iff split: if_splits option.splits)
  from p have "length entries = length signedEntries"
    by (metis length_map those_length)
  with len have n: "length entries = length (si_authXdr sim)" by simp
  from c operator_entry_None [OF _ assms(2)] have e: "\<forall>e \<in> set entries. \<exists>k signature. e = AddressCredentialsOf (AccountKey k) signature
         \<and> tk_encodeKey K k = Some operatorPublic \<and> signature \<noteq> ScvVoid"
    unfolding check_entries_None by blast
  from r show ?thesis by (rule rebuild_with_Inr) (use p n e in blast)
qed

lemma channel_payment_carries_operator_consent_witness:
  "\<exists>k signature. AddressCredentialsOf (AccountKey [4]) (ScvBytes [6]) = AddressCredentialsOf (AccountKey k) signature
     \<and> (if k = [4] then Some (lit ''OP'') else None) = Some (lit ''OP'') \<and> signature \<noteq> ScvVoid"
proof -
  let ?K = "demo_tx_sdk\<lparr> tk_parseAuth := (\<lambda>_. Some (AddressCredentialsOf (AccountKey [4]) (ScvBytes [6]))),
      tk_encodeKey := (\<lambda>k. if k = [4] then Some (lit ''OP'') else None),
      tk_rebuild := (\<lambda>t fee d oper. Some ()) \<rparr>"
  let ?sim = "demo_sim\<lparr> si_authXdr := [lit ''raw''] \<rparr>"
  have run: "assembleWithSignedAuth ?K () ?sim [lit ''signed''] (lit ''OP'') = Inr ()"
    by (simp add: assembleWithSignedAuth_def parse_entries_def operator_entry_def xdrAddressToStrkey_def rebuild_with_def
        demo_tx_defs Let_def opt_or_def)
  have plain: "\<not> (\<exists>kind. lit ''OP'' = lit ''<contract:'' @ kind @ lit ''>'')"
    by (auto dest: arg_cong [where f = length])
  from channel_payment_carries_operator_consent [OF run plain] show ?thesis by simp
qed

end
