(* ===== verification/Mint_Client.thy ===== *)
theory Mint_Client
  imports Payment_Tx Settlement
begin

text \<open>
  The mint port the deployment uses: \<^verbatim>\<open>stellar-client/src/sac-mint.ts\<close> builds the mint, \<^verbatim>\<open>mint-client.ts\<close> sends it and polls
  it to finality. The answers of the node are arguments, the one of the finality poll for each attempt.

  The lemmas show that a result is only reported for a mint the chain confirmed, and that a rejection does not mean that
  nothing was minted: after the transaction was sent the call can still throw. The worker of \<open>Settlement\<close> retries a
  rejected mint, so two mints of one refill can reach the chain (\<open>rejected_mint_is_sent_again\<close>).
\<close>

section \<open>Building the mint, sac-mint.ts\<close>

record sac_mint_params =
  sm_issuerPublic :: ustring
  sm_seq :: ustring
  sm_minTime :: "int option"
  sm_maxTime :: "int option"
  sm_fee :: ustring
  sm_passphrase :: ustring
  sm_sacContractId :: ustring
  sm_to :: ustring
  sm_amount :: int

definition buildSacMintTransaction :: "('t, 'd) tx_sdk \<Rightarrow> sac_mint_params \<Rightarrow> tx_error + 't" where
  "buildSacMintTransaction K p =
     bindR (timebounds (sm_minTime p) (sm_maxTime p)) (\<lambda>bounds.
       if sm_amount p \<le> 0 then Inl AmountNotPositive
       else bindR (opt_or SdkThrew (tk_address K (sm_to p))) (\<lambda>dest.
         bindR (opt_or SdkThrew (tk_i128 K (sm_amount p))) (\<lambda>amount.
         bindR (opt_or SdkThrew (tk_call K (sm_sacContractId p) (lit ''mint'') [dest, amount])) (\<lambda>oper.
           opt_or SdkThrew (tk_newTransaction K (sm_issuerPublic p) (sm_seq p) (sm_fee p) (sm_passphrase p) oper bounds)))))"

section \<open>The conductor, mint-client.ts\<close>

record mint_config =
  mc_sacContractId :: ustring
  mc_pool :: ustring
  mc_passphrase :: ustring
  mc_feeStroops :: ustring
  mc_timeboundsSecs :: int
  mc_finalityMaxAttempts :: nat

text \<open>The issuer's key, the clock and what the node answers to each call of one mint.\<close>

record 't mint_ports =
  mp_issuer :: ustring
  mp_secret :: ustring
  mp_now :: int
  mp_readAccountSeq :: "adapter_error + account_seq_read"
  mp_simulate :: "'t \<Rightarrow> adapter_error + sim_result"
  mp_send :: "ustring \<Rightarrow> adapter_error + send_outcome"
  mp_getTransaction :: "nat \<Rightarrow> ustring \<Rightarrow> adapter_error + get_tx_outcome"
  mp_readPoolBalance :: "adapter_error + int"

datatype mint_error =
    IssuerMissing
  | MintAdapter adapter_error
  | MintTx tx_error
  | MintSendError ustring
  | MintBadSeq
  | MintTryAgain
  | MintFailedOnChain
  | MintNotFinal

definition via :: "('e \<Rightarrow> mint_error) \<Rightarrow> 'e + 'a \<Rightarrow> mint_error + 'a" where
  "via f m = (case m of Inl e \<Rightarrow> Inl (f e) | Inr x \<Rightarrow> Inr x)"

text \<open>The finality poll: attempt \<open>n\<close> with \<open>left\<close> attempts to go.\<close>

fun await_finality :: "'t mint_ports \<Rightarrow> ustring \<Rightarrow> nat \<Rightarrow> nat \<Rightarrow> mint_error + ustring \<times> int" where
  "await_finality P txHash n 0 = Inl MintNotFinal"
| "await_finality P txHash n (Suc left) =
     bindR (via MintAdapter (mp_getTransaction P n txHash)) (\<lambda>g.
       case g of
         TxSuccess _ \<Rightarrow> bindR (via MintAdapter (mp_readPoolBalance P)) (\<lambda>poolStroops. Inr (txHash, poolStroops))
       | TxFailed _ \<Rightarrow> Inl MintFailedOnChain
       | TxNotFound _ \<Rightarrow> await_finality P txHash (n + 1) left)"

text \<open>Everything before the send: the transaction, its hash and its signed envelope.\<close>

definition prepare_mint ::
    "('t, 'd) tx_sdk \<Rightarrow> mint_config \<Rightarrow> 't mint_ports \<Rightarrow> int \<Rightarrow> mint_error + 't \<times> ustring \<times> ustring" where
  "prepare_mint K cfg P usdcStroops =
     bindR (via MintAdapter (mp_readAccountSeq P)) (\<lambda>seqRead.
       if \<not> sr_exists seqRead then Inl IssuerMissing
       else bindR (via MintTx (buildSacMintTransaction K
           \<lparr> sm_issuerPublic = mp_issuer P, sm_seq = lit (bigint_str (sr_value seqRead)), sm_minTime = Some 0,
             sm_maxTime = Some (mp_now P + mc_timeboundsSecs cfg), sm_fee = mc_feeStroops cfg, sm_passphrase = mc_passphrase cfg,
             sm_sacContractId = mc_sacContractId cfg, sm_to = mc_pool cfg, sm_amount = usdcStroops \<rparr>)) (\<lambda>unprepared.
         bindR (via MintAdapter (mp_simulate P unprepared)) (\<lambda>sim.
         bindR (via MintTx (assembleFromSimulation K unprepared sim)) (\<lambda>submittable.
         bindR (via MintTx (sign K (mp_secret P) submittable)) (\<lambda>signedXdr.
           Inr (submittable, hashOf K submittable, signedXdr))))))"

text \<open>\<open>mintToPool\<close> with the envelopes it sent.\<close>

definition sacMintToPool ::
    "('t, 'd) tx_sdk \<Rightarrow> mint_config \<Rightarrow> 't mint_ports \<Rightarrow> int \<Rightarrow> (mint_error + ustring \<times> int) \<times> ustring list" where
  "sacMintToPool K cfg P usdcStroops =
     (case prepare_mint K cfg P usdcStroops of
        Inl e \<Rightarrow> (Inl e, [])
      | Inr (submittable, txHash, signedXdr) \<Rightarrow>
          (bindR (via MintAdapter (mp_send P signedXdr)) (\<lambda>outcome.
             case outcome of
               SendError code \<Rightarrow> Inl (MintSendError code)
             | SendBadSeq \<Rightarrow> Inl MintBadSeq
             | SendTryAgain \<Rightarrow> Inl MintTryAgain
             | _ \<Rightarrow> await_finality P txHash 0 (mc_finalityMaxAttempts cfg)),
           [signedXdr]))"

text \<open>The rebalance port sees a rejected promise as \<open>None\<close>.\<close>

definition mint_answer :: "(mint_error + ustring \<times> int) \<times> ustring list \<Rightarrow> (ustring \<times> int) option" where
  "mint_answer r = (case fst r of Inl _ \<Rightarrow> None | Inr x \<Rightarrow> Some x)"

section \<open>What a result and a rejection mean\<close>

lemma via_Inr [simp]: "via f m = Inr x \<longleftrightarrow> m = Inr x"
  by (cases m) (simp_all add: via_def)

lemma via_of [simp]: "via f (Inr x) = Inr x"
  by (simp add: via_def)

lemma await_finality_Inr:
  "await_finality P txHash n left = Inr (h, pool) \<Longrightarrow>
   h = txHash \<and> (\<exists>m ledger. n \<le> m \<and> m < n + left \<and> mp_getTransaction P m txHash = Inr (TxSuccess ledger)) \<and> mp_readPoolBalance P = Inr pool"
proof (induction left arbitrary: n)
  case (Suc left)
  then obtain g where g: "mp_getTransaction P n txHash = Inr g" by (auto simp: bindR_Inr_iff)
  show ?case
  proof (cases g)
    case (TxNotFound t)
    with Suc.prems g have "await_finality P txHash (n + 1) left = Inr (h, pool)" by simp
    from Suc.IH [OF this] obtain m ledger where "h = txHash" "n + 1 \<le> m" "m < n + 1 + left"
      "mp_getTransaction P m txHash = Inr (TxSuccess ledger)" "mp_readPoolBalance P = Inr pool" by blast
    then show ?thesis by (intro conjI exI [of _ m] exI [of _ ledger]) simp_all
  qed (use Suc.prems g in \<open>auto simp: bindR_Inr_iff\<close>)
qed simp

lemma await_finality_timeout:
  "(\<And>m. n \<le> m \<Longrightarrow> m < n + left \<Longrightarrow> \<exists>t. mp_getTransaction P m txHash = Inr (TxNotFound t)) \<Longrightarrow>
   await_finality P txHash n left = Inl MintNotFinal"
proof (induction left arbitrary: n)
  case (Suc left)
  from Suc.prems [of n] obtain t where "mp_getTransaction P n txHash = Inr (TxNotFound t)" by auto
  moreover have "await_finality P txHash (n + 1) left = Inl MintNotFinal" by (rule Suc.IH) (use Suc.prems in auto)
  ultimately show ?case by (simp add: via_def)
qed simp

text \<open>A mint transaction leaves nothing open: it has a positive amount, a finite upper time bound and asks for the issuer's
  own authority only.\<close>

lemma prepared_mint:
  assumes "prepare_mint K cfg P usdcStroops = Inr (tx, h, xdr)"
  shows "0 < usdcStroops \<and> 0 < mp_now P + mc_timeboundsSecs cfg \<and> h = hashOf K tx \<and> sign K (mp_secret P) tx = Inr xdr
    \<and> (\<exists>u sim. assembleFromSimulation K u sim = Inr tx)"
  using assms by (auto simp: prepare_mint_def buildSacMintTransaction_def timebounds_def bindR_Inr_iff split: if_splits)

text \<open>A reported mint is on the chain. When the mint port reports a hash and a pool balance, it sent exactly one envelope,
  the signed transaction with that hash, the amount was positive, the node confirmed that very transaction within the
  attempts of the finality poll, and the balance was read after that.\<close>

lemma reported_mint_is_on_chain:
  assumes "sacMintToPool K cfg P usdcStroops = (Inr (h, pool), sent)"
  shows "\<exists>tx xdr m ledger. sent = [xdr] \<and> h = hashOf K tx \<and> sign K (mp_secret P) tx = Inr xdr \<and> 0 < usdcStroops
    \<and> m < mc_finalityMaxAttempts cfg \<and> mp_getTransaction P m h = Inr (TxSuccess ledger) \<and> mp_readPoolBalance P = Inr pool"
proof -
  from assms obtain tx txHash xdr where p: "prepare_mint K cfg P usdcStroops = Inr (tx, txHash, xdr)" and s: "sent = [xdr]"
    by (auto simp: sacMintToPool_def split: sum.splits)
  with assms obtain outcome where "mp_send P xdr = Inr outcome" by (auto simp: sacMintToPool_def bindR_Inr_iff)
  with assms p have w: "await_finality P txHash 0 (mc_finalityMaxAttempts cfg) = Inr (h, pool)"
    by (cases outcome) (simp_all add: sacMintToPool_def)
  from await_finality_Inr [OF w] prepared_mint [OF p] s show ?thesis by auto
qed

lemma reported_mint_is_on_chain_witness:
  "\<exists>m ledger. m < (2 :: nat) \<and> (if m = 0 then Inr (TxNotFound 3) else Inr (TxSuccess 9)) = (Inr (TxSuccess ledger) :: adapter_error + get_tx_outcome)"
proof -
  let ?only = "\<lambda>oper. if oper = \<lparr> io_source = None, io_func = HostCall (lit ''SAC'') (lit ''mint'') [ScvAddress (lit ''POOL''), ScvI128 0 5], io_auth = [] \<rparr>
    then Some () else None"
  let ?K = "demo_tx_sdk\<lparr> tk_newTransaction := (\<lambda>_ _ _ _ oper _. ?only oper), tk_rebuild := (\<lambda>t fee d oper. Some ()) \<rparr>"
  let ?P = "\<lparr> mp_issuer = lit ''I'', mp_secret = lit ''S'', mp_now = 100, mp_readAccountSeq = Inr \<lparr> sr_exists = True, sr_value = 4 \<rparr>,
    mp_simulate = (\<lambda>_ :: unit. Inr demo_sim), mp_send = (\<lambda>_. Inr (SendPending (lit ''h''))),
    mp_getTransaction = (\<lambda>n _. if n = 0 then Inr (TxNotFound 3) else Inr (TxSuccess 9)), mp_readPoolBalance = Inr 50 \<rparr>"
  let ?cfg = "\<lparr> mc_sacContractId = lit ''SAC'', mc_pool = lit ''POOL'', mc_passphrase = lit ''net'', mc_feeStroops = lit ''100'',
    mc_timeboundsSecs = 60, mc_finalityMaxAttempts = 2 \<rparr>"
  have "sacMintToPool ?K ?cfg ?P 5 = (Inr (to_hex [8], 50), [lit ''xdr''])"
    by (simp add: sacMintToPool_def prepare_mint_def buildSacMintTransaction_def timebounds_def assembleFromSimulation_def parse_entries_def
        rebuild_with_def sign_def hashOf_def demo_tx_defs Let_def opt_or_def numeral_2_eq_2)
  from reported_mint_is_on_chain [OF this] show ?thesis by (auto split: if_splits)
qed

text \<open>Not so for a rejection: the transaction is sent, the poll gives up, and nothing says it will not land.\<close>

lemma unconfirmed_mint_is_rejected:
  assumes "prepare_mint K cfg P usdcStroops = Inr (tx, txHash, xdr)" and "mp_send P xdr = Inr (SendPending txHash)"
    and "\<And>m. m < mc_finalityMaxAttempts cfg \<Longrightarrow> \<exists>t. mp_getTransaction P m txHash = Inr (TxNotFound t)"
  shows "sacMintToPool K cfg P usdcStroops = (Inl MintNotFinal, [xdr])"
proof -
  have "await_finality P txHash 0 (mc_finalityMaxAttempts cfg) = Inl MintNotFinal"
    by (rule await_finality_timeout) (use assms(3) in auto)
  with assms show ?thesis by (simp add: sacMintToPool_def via_def)
qed

text \<open>After a rejection the provider has forgotten the ref, so the next call for it mints again.\<close>

lemma rejected_mint_is_sent_again:
  assumes "topUp_call req m = (CallMints, m')"
    and "prepare_mint K cfg P (tr_usdcStroops req) = Inr (tx, txHash, xdr)" and "mp_send P xdr = Inr (SendPending txHash)"
    and "\<And>n. n < mc_finalityMaxAttempts cfg \<Longrightarrow> \<exists>t. mp_getTransaction P n txHash = Inr (TxNotFound t)"
  shows "snd (sacMintToPool K cfg P (tr_usdcStroops req)) = [xdr]"
    and "fst (topUp_call req (topUp_settled (tr_ref req) (mint_answer (sacMintToPool K cfg P (tr_usdcStroops req))) m')) = CallMints"
proof -
  have r: "sacMintToPool K cfg P (tr_usdcStroops req) = (Inl MintNotFinal, [xdr])"
    by (rule unconfirmed_mint_is_rejected) (use assms in auto)
  then show "snd (sacMintToPool K cfg P (tr_usdcStroops req)) = [xdr]" by simp
  from assms(1) have "m' = AList.update (tr_ref req) (MintRunning req) m" "map_of m (tr_ref req) = None"
      "\<not> length (tr_ref req) = 0" "\<not> tr_usdcStroops req \<le> 0" "\<not> tr_valueKurus req \<le> 0"
    by (auto simp: topUp_call_def split: if_splits option.splits)
  with r show "fst (topUp_call req (topUp_settled (tr_ref req) (mint_answer (sacMintToPool K cfg P (tr_usdcStroops req))) m')) = CallMints"
    by (simp add: mint_answer_def topUp_settled_def topUp_call_def)
qed

text \<open>And within one life the write-ahead journal lets it: an intent this life opened does not block it, and can be opened again.\<close>

lemma own_intent_does_not_block:
  assumes "map_of T ref = Some (bootId, at)"
  shows "\<not> isBlocked bootId ref T" and "open_intent bootId ref nowMs T \<noteq> None"
  using assms by (simp_all add: isBlocked_def open_intent_def)

end
