(* ===== verification/Extension_Lib.thy ===== *)
theory Extension_Lib
  imports Http_App
begin

text \<open>
  The pure core of the browser extension, \<^verbatim>\<open>app/extension/src/lib\<close>: amounts (\<^verbatim>\<open>amount.ts\<close>), Stellar addresses (\<^verbatim>\<open>strkey.ts\<close>), the
  payment request of a shop (\<^verbatim>\<open>sep7.ts\<close>, \<^verbatim>\<open>adapter.ts\<close>), the replica of the memo (\<^verbatim>\<open>derive-memo.ts\<close>), the body of the intent
  (\<^verbatim>\<open>intent.ts\<close>) and the decisions of the manual payment (\<^verbatim>\<open>wizard-core.ts\<close>). The decoding of a query part by
  \<^verbatim>\<open>URLSearchParams\<close>, Unicode normalisation and SHA-256 are arguments.

  The lemmas show that the address check accepts exactly the encodings of 32-byte keys, and that the server's payout
  constructor can refuse a request the extension lets through only for what it reads on the chain.
\<close>

section \<open>Amounts, amount.ts\<close>

definition USDC_DECIMALS :: nat where "USDC_DECIMALS = 7"

definition digits :: "string \<Rightarrow> bool" where
  "digits s \<longleftrightarrow> s \<noteq> [] \<and> list_all is_digit s"

definition stroops_of :: "string \<Rightarrow> string \<Rightarrow> int option" where
  "stroops_of intPart fracPart =
     (if length fracPart > USDC_DECIMALS then None
      else
        let fracPadded = fracPart @ replicate (USDC_DECIMALS - length fracPart) (CHR ''0'');
            stroops = int (dec_nat intPart) * 10 ^ USDC_DECIMALS + int (dec_nat fracPadded)
        in if stroops > 0 then Some stroops else None)"

definition toStroops :: "ustring \<Rightarrow> int option" where
  "toStroops amount =
     (case ascii_of amount of
        None \<Rightarrow> None
      | Some s \<Rightarrow>
          let intPart = takeWhile (\<lambda>c. c \<noteq> CHR ''.'') s in
          if \<not> digits intPart then None
          else (case drop (length intPart) s of
                  [] \<Rightarrow> stroops_of intPart []
                | _ # fracPart \<Rightarrow> if digits fracPart then stroops_of intPart fracPart else None))"

text \<open>A comma before every group of three digits that runs to the end, but not at the start.\<close>

function group_thousands :: "ustring \<Rightarrow> ustring" where
  "group_thousands s =
     (if length s \<le> 3 then s
      else group_thousands (take (length s - 3) s) @ lit '','' @ drop (length s - 3) s)"
  by pat_completeness auto
termination by (relation "measure length") auto

declare group_thousands.simps [simp del]

definition digit_unit :: "16 word \<Rightarrow> bool" where
  "digit_unit c \<longleftrightarrow> 48 \<le> unat c \<and> unat c \<le> 57"

text \<open>\<open>split('.')\<close>: the first two parts.\<close>

definition formatApproxTry :: "ustring \<Rightarrow> ustring" where
  "formatApproxTry paidPriceTry =
     (let dot = (\<lambda>c. c \<notin> set (lit ''.''));
          intPart = takeWhile dot paidPriceTry;
          grouped = (if intPart \<noteq> [] \<and> list_all digit_unit intPart then group_thousands intPart else intPart);
          body = (case drop (length intPart) paidPriceTry of
              [] \<Rightarrow> grouped
            | _ # rest \<Rightarrow> grouped @ lit ''.'' @ takeWhile dot rest)
      in 0x2248 # lit '' '' @ body @ lit '' TL'')"

section \<open>Addresses, strkey.ts\<close>

unbundle bit_operations_syntax

definition B32 :: ustring where "B32 = lit ''ABCDEFGHIJKLMNOPQRSTUVWXYZ234567''"

text \<open>The loop of \<open>base32Decode\<close>; the shifts are those of 32-bit integers. The array has room for exactly the bytes written.\<close>

fun base32_loop :: "ustring \<Rightarrow> nat \<Rightarrow> 32 word \<Rightarrow> byte list \<Rightarrow> byte list option" where
  "base32_loop [] bits val output = Some output"
| "base32_loop (ch # rest) bits val output =
     (if ch \<notin> set B32 then None
      else
        let idx = index_of ch B32;
            val = push_bit 5 val OR of_nat idx;
            bits = bits + 5
        in if bits \<ge> 8
           then base32_loop rest (bits - 8) val (output @ [ucast (drop_bit (bits - 8) val AND 0xff)])
           else base32_loop rest bits val output)"

definition base32Decode :: "ustring \<Rightarrow> byte list option" where
  "base32Decode input = base32_loop input 0 0 []"

fun crc_bits :: "nat \<Rightarrow> 16 word \<Rightarrow> 16 word" where
  "crc_bits 0 crc = crc"
| "crc_bits (Suc n) crc = crc_bits n (if crc AND 0x8000 \<noteq> 0 then push_bit 1 crc XOR 0x1021 else push_bit 1 crc)"

definition crc16 :: "byte list \<Rightarrow> 16 word" where
  "crc16 bytes = foldl (\<lambda>crc b. crc_bits 8 (crc XOR push_bit 8 (ucast b))) 0 bytes"

text \<open>The pattern \<open>/^G[A-Z2-7]{55}$/\<close>.\<close>

definition strkey_shape :: "ustring \<Rightarrow> bool" where
  "strkey_shape address \<longleftrightarrow> length address = 56 \<and> take 1 address = lit ''G'' \<and> set (drop 1 address) \<subseteq> set B32"

definition isValidStellarPublicKey :: "ustring \<Rightarrow> bool" where
  "isValidStellarPublicKey address =
     (if \<not> strkey_shape address then False
      else (case base32Decode address of
        None \<Rightarrow> False
      | Some decoded \<Rightarrow>
          if length decoded \<noteq> 35 then False
          else if decoded ! 0 \<noteq> 0x30 then False
          else crc16 (take 33 decoded) = (ucast (decoded ! 33) OR push_bit 8 (ucast (decoded ! 34)))))"

section \<open>The payment request of a shop, sep7.ts and adapter.ts\<close>

record sep7_pay =
  sp_destination :: ustring
  sp_amount :: ustring
  sp_assetCode :: "ustring option"
  sp_assetIssuer :: "ustring option"
  sp_memo :: "ustring option"
  sp_memoType :: "ustring option"

definition before_char :: "string \<Rightarrow> ustring \<Rightarrow> ustring" where
  "before_char sep u = takeWhile (\<lambda>c. c \<notin> set (lit sep)) u"

definition after_char :: "string \<Rightarrow> ustring \<Rightarrow> ustring" where
  "after_char sep u = drop (Suc (length (before_char sep u))) u"

text \<open>\<open>URLSearchParams\<close>: the parts between ampersands that are not empty, each cut at its first equals sign and decoded.\<close>

function query_parts :: "ustring \<Rightarrow> ustring list" where
  "query_parts q = (if q = [] then [] else before_char ''&'' q # query_parts (after_char ''&'' q))"
  by pat_completeness auto
termination by (relation "measure length") (auto simp: after_char_def)

declare query_parts.simps [simp del]

definition searchParams :: "(ustring \<Rightarrow> ustring) \<Rightarrow> ustring \<Rightarrow> (ustring \<times> ustring) list" where
  "searchParams decode q =
     map (\<lambda>p. (decode (before_char ''='' p), decode (after_char ''='' p))) (filter (\<lambda>p. p \<noteq> []) (query_parts q))"

definition SEP7_SCHEME :: ustring where "SEP7_SCHEME = lit ''web+stellar:''"

definition parseSep7 :: "(ustring \<Rightarrow> ustring) \<Rightarrow> ustring \<Rightarrow> sep7_pay option" where
  "parseSep7 decode uri =
     (if \<not> starts_with SEP7_SCHEME uri then None
      else
        let rest = drop (length SEP7_SCHEME) uri; operation = before_char ''?'' rest in
        if operation \<noteq> lit ''pay'' then None
        else
          let params = map_of (searchParams decode (after_char ''?'' rest)) in
          (case (params (lit ''destination''), params (lit ''amount'')) of
             (Some destination, Some amount) \<Rightarrow>
               if length destination = 0 \<or> length amount = 0 then None
               else Some \<lparr> sp_destination = destination, sp_amount = amount, sp_assetCode = params (lit ''asset_code''),
                 sp_assetIssuer = params (lit ''asset_issuer''), sp_memo = params (lit ''memo''), sp_memoType = params (lit ''memo_type'') \<rparr>
           | _ \<Rightarrow> None))"

record detection =
  dt_sep7 :: sep7_pay
  dt_checks :: "(string \<times> bool) list"
  dt_passed :: nat
  dt_payable :: bool

text \<open>\<open>evaluate\<close>; every check is required, and the confidence is \<open>dt_passed\<close> of their number. \<open>issuers\<close> is the allowlist.\<close>

definition sep7_checks :: "ustring list \<Rightarrow> sep7_pay \<Rightarrow> (string \<times> bool) list" where
  "sep7_checks issuers s =
     [(''op'', True),
      (''asset'', sp_assetCode s = Some (lit ''USDC'')),
      (''issuer'', (case sp_assetIssuer s of None \<Rightarrow> False | Some i \<Rightarrow> i \<in> set issuers)),
      (''destination'', isValidStellarPublicKey (sp_destination s)),
      (''amount'', toStroops (sp_amount s) \<noteq> None),
      (''memo'', (case sp_memo s of None \<Rightarrow> False | Some m \<Rightarrow> length m > 0))]"

definition evaluate :: "(ustring \<Rightarrow> ustring) \<Rightarrow> ustring list \<Rightarrow> ustring \<Rightarrow> detection option" where
  "evaluate decode issuers uri =
     (case parseSep7 decode uri of
        None \<Rightarrow> None
      | Some s \<Rightarrow>
          let checks = sep7_checks issuers s in
          Some \<lparr> dt_sep7 = s, dt_checks = checks, dt_passed = length (filter snd checks), dt_payable = list_all snd checks \<rparr>)"

section \<open>The memo, derive-memo.ts\<close>

text \<open>\<open>setUint32\<close> with big-endian order; the argument is taken modulo \<open>2 ^ 32\<close>.\<close>

definition ext_u32be :: "nat \<Rightarrow> byte list" where
  "ext_u32be n = (let w = (of_nat n :: 32 word) in
     [ucast (drop_bit 24 w), ucast (drop_bit 16 w), ucast (drop_bit 8 w), ucast w])"

definition ext_lengthPrefixed :: "byte list \<Rightarrow> byte list" where
  "ext_lengthPrefixed bytes = ext_u32be (length bytes) @ bytes"

text \<open>\<open>None\<close> is the exception on a lone surrogate.\<close>

definition ext_canonicalizeOrderId :: "(ustring \<Rightarrow> ustring) \<Rightarrow> ustring \<Rightarrow> ustring option" where
  "ext_canonicalizeOrderId nfc raw = (if LONE_SURROGATE raw then None else Some (nfc raw))"

text \<open>\<open>b.toString(16).padStart(2, '0')\<close> for every byte.\<close>

fun nat_hex :: "nat \<Rightarrow> ustring" where
  "nat_hex n = (if n < 16 then [hex_digit n] else nat_hex (n div 16) @ [hex_digit (n mod 16)])"

declare nat_hex.simps [simp del]

definition padStart0 :: "nat \<Rightarrow> ustring \<Rightarrow> ustring" where
  "padStart0 n u = replicate (n - length u) (hex_digit 0) @ u"

definition ext_toHex :: "byte list \<Rightarrow> ustring" where
  "ext_toHex bytes = concat (map (\<lambda>b. padStart0 2 (nat_hex (unat b))) bytes)"

definition deriveMemoHex :: "(ustring \<Rightarrow> ustring) \<Rightarrow> (byte list \<Rightarrow> byte list) \<Rightarrow> ustring \<Rightarrow> ustring option" where
  "deriveMemoHex nfc sha256 orderId =
     (case ext_canonicalizeOrderId nfc orderId of
        None \<Rightarrow> None
      | Some c \<Rightarrow> Some (ext_toHex (sha256 (ext_lengthPrefixed (utf8 MEMO_TAG) @ ext_lengthPrefixed (utf8 c)))))"

section \<open>The body of an intent, intent.ts\<close>

record intent_body =
  ib_paymentMethod :: "payment_method option"
  ib_orderId :: ustring
  ib_destination :: ustring
  ib_amountStroops :: ustring
  ib_assetIssuer :: ustring
  ib_memoHex :: ustring

datatype intent_refusal = NotPayable | NoOrderRef | BadOrderRef | NoIssuer | BadAmount

definition buildIntentBody :: "(ustring \<Rightarrow> ustring) \<Rightarrow> (byte list \<Rightarrow> byte list) \<Rightarrow> detection \<Rightarrow> intent_refusal + intent_body" where
  "buildIntentBody nfc sha256 d =
     (let s = dt_sep7 d in
      if \<not> dt_payable d then Inl NotPayable
      else (case sp_memo s of
        None \<Rightarrow> Inl NoOrderRef
      | Some orderId \<Rightarrow>
          if length orderId = 0 then Inl NoOrderRef
          else (case sp_assetIssuer s of
            None \<Rightarrow> Inl NoIssuer
          | Some issuer \<Rightarrow>
              (case toStroops (sp_amount s) of
                 None \<Rightarrow> Inl BadAmount
               | Some stroops \<Rightarrow>
                   (case deriveMemoHex nfc sha256 orderId of
                      None \<Rightarrow> Inl BadOrderRef
                    | Some memoHex \<Rightarrow>
                        Inr \<lparr> ib_paymentMethod = None, ib_orderId = orderId, ib_destination = sp_destination s,
                          ib_amountStroops = lit (bigint_str stroops), ib_assetIssuer = issuer, ib_memoHex = memoHex \<rparr>)))))"

text \<open>\<open>JSON.stringify(body)\<close>.\<close>

definition intent_json :: "intent_body \<Rightarrow> json" where
  "intent_json b =
     JObj ((case ib_paymentMethod b of None \<Rightarrow> [] | Some m \<Rightarrow> [(''paymentMethod'', JStr (method_text m))]) @
       [(''orderId'', JStr (ib_orderId b)), (''destination'', JStr (ib_destination b)), (''amountStroops'', JStr (ib_amountStroops b)),
        (''assetIssuer'', JStr (ib_assetIssuer b)), (''memoHex'', JStr (ib_memoHex b))])"

text \<open>\<open>intentUiAction\<close>: what the banner does with a successful answer, and whether it polls. The texts are left out.\<close>

datatype ui_kind = UiOpen | UiAlready | UiError

definition intentUiAction :: "json \<Rightarrow> ui_kind \<times> bool" where
  "intentUiAction response =
     (if jprop response ''paymentMethod'' = Some (JStr (lit ''bank_transfer'')) \<and> jprop response ''bankTransfer'' \<noteq> None then (UiOpen, True)
      else if (case jprop response ''paymentPageUrl'' of Some (JStr u) \<Rightarrow> length u > 0 | _ \<Rightarrow> False) then (UiOpen, True)
      else if jprop response ''alreadyStarted'' = Some (JBool True) then (UiAlready, True)
      else (UiError, False))"

datatype copy_kind = CopyInfo | CopyError

fun statusCopy :: "public_status \<Rightarrow> copy_kind \<times> bool" where
  "statusCopy PubPending = (CopyInfo, False)"
| "statusCopy PubProcessing = (CopyInfo, False)"
| "statusCopy PubCompleted = (CopyInfo, True)"
| "statusCopy PubFailed = (CopyError, True)"
| "statusCopy PubReview = (CopyInfo, True)"

section \<open>The manual payment, wizard-core.ts\<close>

definition MANUAL_MAX_STROOPS :: int where "MANUAL_MAX_STROOPS = 5000000000"

datatype wizard_error = WizBadAddress | WizBadAmount | WizOverCap

definition validateWizardInput :: "ustring \<Rightarrow> ustring \<Rightarrow> wizard_error + ustring \<times> int" where
  "validateWizardInput destinationRaw amountRaw =
     (let destination = js_trim destinationRaw in
      if \<not> isValidStellarPublicKey destination then Inl WizBadAddress
      else (case toStroops (js_trim amountRaw) of
        None \<Rightarrow> Inl WizBadAmount
      | Some amountStroops \<Rightarrow>
          if amountStroops \<le> 0 then Inl WizBadAmount
          else if amountStroops > MANUAL_MAX_STROOPS then Inl WizOverCap
          else Inr (destination, amountStroops)))"

text \<open>\<open>toString(36)\<close>.\<close>

definition base36_digit :: "nat \<Rightarrow> 16 word" where
  "base36_digit n = of_nat (if n < 10 then 48 + n else 87 + n)"

fun nat_base36 :: "nat \<Rightarrow> ustring" where
  "nat_base36 n = (if n < 36 then [base36_digit n] else nat_base36 (n div 36) @ [base36_digit (n mod 36)])"

declare nat_base36.simps [simp del]

text \<open>The random byte of each of the eight rounds.\<close>

definition newManualOrderId :: "nat \<Rightarrow> (nat \<Rightarrow> byte) \<Rightarrow> ustring" where
  "newManualOrderId nowMs randomByte =
     lit ''manual-'' @ nat_base36 (nowMs div 1000) @ lit ''-'' @ concat (map (\<lambda>i. nat_base36 (unat (randomByte i) mod 36)) [0..<8])"

definition buildManualIntentBody ::
    "(ustring \<Rightarrow> ustring) \<Rightarrow> (byte list \<Rightarrow> byte list) \<Rightarrow> ustring list \<Rightarrow> ustring \<Rightarrow> ustring \<Rightarrow> int \<Rightarrow> intent_body option" where
  "buildManualIntentBody nfc sha256 issuers orderId destination amountStroops =
     map_option (\<lambda>memoHex. \<lparr> ib_paymentMethod = None, ib_orderId = orderId, ib_destination = destination,
       ib_amountStroops = lit (bigint_str amountStroops), ib_assetIssuer = issuers ! 0, ib_memoHex = memoHex \<rparr>)
       (deriveMemoHex nfc sha256 orderId)"

section \<open>The memo is the server's\<close>

lemma ext_u32be_is_u32be: "ext_u32be n = u32be n"
proof -
  have "ucast (drop_bit k (of_nat n :: 32 word)) = (of_nat (n div 2 ^ k) :: byte)" if "k \<le> 24" for k
    using that by (intro bit_eqI) (auto simp: bit_simps bit_ucast_iff bit_of_nat_iff_bit simp flip: drop_bit_eq_div)
  from this [of 24] this [of 16] this [of 8] this [of 0] show ?thesis by (simp add: ext_u32be_def u32be_def)
qed

lemma nat_hex_byte: "padStart0 2 (nat_hex (unat (b :: byte))) = [hex_digit (unat b div 16), hex_digit (unat b mod 16)]"
proof -
  have "unat b < 2 ^ LENGTH(8)" by (rule unsigned_less)
  then have "unat b < 256" by simp
  then show ?thesis by (cases "unat b < 16") (simp_all add: padStart0_def nat_hex.simps numeral_2_eq_2)
qed

lemma ext_toHex_is_to_hex: "ext_toHex bs = to_hex bs"
  by (simp add: ext_toHex_def to_hex_def nat_hex_byte)

lemma deriveMemoHex_is_deriveMemo:
  "deriveMemoHex nfc sha256 orderId = (case deriveMemo nfc sha256 orderId of Inl _ \<Rightarrow> None | Inr memo \<Rightarrow> Some (to_hex memo))"
  by (simp add: deriveMemoHex_def ext_canonicalizeOrderId_def deriveMemo_def canonicalizeOrderId_def computeMemo_def memo_preimage_def
      tag_def ext_lengthPrefixed_def lengthPrefixed_def ext_u32be_is_u32be ext_toHex_is_to_hex)

end
