(* ===== verification/Strkey_Text.thy ===== *)
theory Strkey_Text
  imports Extension_Lib
begin

text \<open>
  The address check of the extension (\<^verbatim>\<open>app/extension/src/lib/strkey.ts\<close>) against a reference: the base32 loop with its
  32-bit shifts regroups bits, and the check accepts exactly the texts that encode a 32-byte key with its checksum.
\<close>

section \<open>Bits, most significant first\<close>

definition bits_of :: "nat \<Rightarrow> nat \<Rightarrow> bool list" where
  "bits_of n v = map (bit v) (rev [0..<n])"

fun val_of :: "bool list \<Rightarrow> nat" where
  "val_of [] = 0"
| "val_of (b # bs) = (if b then 2 ^ length bs else 0) + val_of bs"

fun chunks :: "nat \<Rightarrow> nat \<Rightarrow> 'a list \<Rightarrow> 'a list list" where
  "chunks 0 n xs = []"
| "chunks (Suc k) n xs = take n xs # chunks k n (drop n xs)"

lemma length_bits_of [simp]: "length (bits_of n v) = n"
  by (simp add: bits_of_def)

lemma bits_of_Suc: "bits_of (Suc n) v = bit v n # bits_of n v"
  by (simp add: bits_of_def)

lemma bits_of_mod: "bits_of n (v mod 2 ^ n) = bits_of n v"
  by (simp add: bits_of_def bit_take_bit_iff flip: take_bit_eq_mod)

lemma val_of_bits_of: "val_of (bits_of n v) = v mod 2 ^ n"
proof (induction n)
  case 0
  then show ?case by (simp add: bits_of_def)
next
  case (Suc n)
  have "v mod 2 ^ Suc n = 2 ^ n * (v div 2 ^ n mod 2) + v mod 2 ^ n"
    by (metis mod_mult2_eq power_Suc2)
  with Suc show ?case by (simp add: bits_of_Suc bit_iff_odd odd_iff_mod_2_eq_one)
qed

lemma val_of_less: "val_of bs < 2 ^ length bs"
  by (induction bs) auto

lemma bit_val_of_Cons: "bit (val_of (b # bs)) (length bs) = b"
proof -
  have "val_of (b # bs) div 2 ^ length bs = (if b then 1 else 0)"
    using val_of_less [of bs] by (simp add: div_add_self1)
  then show ?thesis by (simp add: bit_iff_odd)
qed

lemma bits_of_val_of: "bits_of (length bs) (val_of bs) = bs"
proof (induction bs)
  case (Cons b bs)
  have "bits_of (length bs) (val_of (b # bs)) = bits_of (length bs) (val_of bs)"
    by (subst (1 2) bits_of_mod [symmetric]) simp
  then show ?case using Cons bit_val_of_Cons [of b bs] by (simp add: bits_of_Suc)
qed (simp add: bits_of_def)

lemma length_chunks [simp]: "length (chunks k n xs) = k"
  by (induction k arbitrary: xs) simp_all

lemma concat_chunks:
  "length xs = k * n \<Longrightarrow> concat (map (\<lambda>g. bits_of n (val_of g)) (chunks k n xs)) = xs"
proof (induction k arbitrary: xs)
  case (Suc k)
  then have "length (take n xs) = n" by simp
  with bits_of_val_of [of "take n xs"] have "bits_of n (val_of (take n xs)) = take n xs" by simp
  with Suc show ?case by simp
qed simp

lemma chunks_concat: "chunks (length ys) n (concat (map (bits_of n) ys) @ zs) = map (bits_of n) ys"
  by (induction ys) simp_all

lemma val_chunks_concat:
  "list_all (\<lambda>y. y < 2 ^ n) ys \<Longrightarrow> map val_of (chunks (length ys) n (concat (map (bits_of n) ys))) = ys"
  using chunks_concat [of ys n "[]"] by (simp add: val_of_bits_of map_idI list_all_iff)

section \<open>The loop regroups bits\<close>

text \<open>The bits the loop still holds.\<close>

definition pending :: "nat \<Rightarrow> 32 word \<Rightarrow> bool list" where
  "pending n w = map (bit w) (rev [0..<n])"

lemma length_pending [simp]: "length (pending n w) = n"
  by (simp add: pending_def)

lemma pending_push:
  assumes "idx < 32" and "n + 5 \<le> 32"
  shows "pending (n + 5) (push_bit 5 w OR of_nat idx) = pending n w @ bits_of 5 idx"
proof (rule nth_equalityI)
  fix i assume "i < length (pending (n + 5) (push_bit 5 w OR of_nat idx))"
  then have i: "i < n + 5" by simp
  have small: "\<not> bit idx j" if "5 \<le> j" for j
  proof -
    from assms(1) have "idx = take_bit 5 idx" by (simp add: take_bit_nat_eq_self)
    with that show ?thesis by (metis bit_take_bit_iff not_le)
  qed
  show "pending (n + 5) (push_bit 5 w OR of_nat idx) ! i = (pending n w @ bits_of 5 idx) ! i"
    using i assms(2)
    by (auto simp: pending_def bits_of_def nth_append rev_nth bit_simps bit_of_nat_iff_bit small)
qed simp

lemma pending_split: "m \<le> n \<Longrightarrow> pending n w = map (bit w) (rev [m..<n]) @ pending m w"
  using upt_add_eq_append [of 0 m "n - m"] by (simp add: pending_def)

lemma byte_of_pending:
  assumes "8 \<le> n" and "n \<le> 32"
  shows "(of_nat (val_of (take 8 (pending n w))) :: byte) = ucast (drop_bit (n - 8) w AND 0xff)"
proof -
  let ?b = "ucast (drop_bit (n - 8) w AND 0xff) :: byte"
  have mask: "(0xff :: 32 word) = mask 8" by (simp add: mask_eq_exp_minus_1)
  have "take 8 (pending n w) = bits_of 8 (unat ?b)"
  proof (rule nth_equalityI)
    show "length (take 8 (pending n w)) = length (bits_of 8 (unat ?b))" using assms(1) by simp
  next
    fix i assume "i < length (take 8 (pending n w))"
    then have "i < 8" by simp
    with assms show "take 8 (pending n w) ! i = bits_of 8 (unat ?b) ! i"
      by (auto simp: pending_def bits_of_def rev_nth mask bit_simps)
  qed
  moreover have "unat ?b < 2 ^ LENGTH(8)" by (rule unsigned_less)
  ultimately have "val_of (take 8 (pending n w)) = unat ?b" by (simp add: val_of_bits_of)
  then show ?thesis by simp
qed

lemma B32_index: "ch \<in> set B32 \<Longrightarrow> index_of ch B32 < 32"
  by (auto simp: B32_def lit_def)

lemma base32_loop_regroups:
  assumes "set u \<subseteq> set B32" and "n < 8"
  shows "base32_loop u n w acc = Some (acc @ map (\<lambda>g. of_nat (val_of g))
    (chunks ((n + 5 * length u) div 8) 8 (pending n w @ concat (map (\<lambda>ch. bits_of 5 (index_of ch B32)) u))))"
  using assms
proof (induction u arbitrary: n w acc)
  case Nil
  then show ?case by simp
next
  case (Cons ch u)
  let ?rest = "concat (map (\<lambda>ch. bits_of 5 (index_of ch B32)) u)"
  define idx where "idx = index_of ch B32"
  define w' where "w' = push_bit 5 w OR of_nat idx"
  define b where "b = (ucast (drop_bit (n + 5 - 8) w' AND 0xff) :: byte)"
  from Cons.prems have ok: "ch \<in> set B32" "set u \<subseteq> set B32" "idx < 32" by (auto simp: idx_def dest: B32_index)
  have p: "pending (n + 5) w' = pending n w @ bits_of 5 idx"
    unfolding w'_def by (rule pending_push) (use Cons.prems ok in auto)
  have all: "pending n w @ concat (map (\<lambda>ch. bits_of 5 (index_of ch B32)) (ch # u)) = pending (n + 5) w' @ ?rest"
    by (simp add: p idx_def)
  show ?case
  proof (cases "n + 5 \<ge> 8")
    case True
    have count: "(n + 5 * length (ch # u)) div 8 = Suc ((n + 5 - 8 + 5 * length u) div 8)" using True by simp
    have rest: "drop 8 (pending (n + 5) w') = pending (n + 5 - 8) w'"
      using pending_split [of "n + 5 - 8" "n + 5" w'] True by simp
    have byte: "of_nat (val_of (take 8 (pending (n + 5) w'))) = b"
      unfolding b_def by (rule byte_of_pending) (use True Cons.prems in auto)
    have step: "base32_loop (ch # u) n w acc = base32_loop u (n + 5 - 8) w' (acc @ [b])"
      using True ok by (simp add: Let_def idx_def [symmetric] w'_def b_def)
    have IH: "base32_loop u (n + 5 - 8) w' (acc @ [b]) = Some ((acc @ [b]) @ map (\<lambda>g. of_nat (val_of g))
        (chunks ((n + 5 - 8 + 5 * length u) div 8) 8 (pending (n + 5 - 8) w' @ ?rest)))"
      by (rule Cons.IH) (use Cons.prems ok in auto)
    have head: "take 8 (pending (n + 5) w' @ ?rest) = take 8 (pending (n + 5) w')"
      "drop 8 (pending (n + 5) w' @ ?rest) = pending (n + 5 - 8) w' @ ?rest"
      using True rest by simp_all
    show ?thesis unfolding step IH all count chunks.simps head by (simp add: byte)
  next
    case False
    have step: "base32_loop (ch # u) n w acc = base32_loop u (n + 5) w' acc"
      using False ok by (simp add: Let_def idx_def [symmetric] w'_def [symmetric])
    have IH: "base32_loop u (n + 5) w' acc = Some (acc @ map (\<lambda>g. of_nat (val_of g))
        (chunks ((n + 5 + 5 * length u) div 8) 8 (pending (n + 5) w' @ ?rest)))"
      by (rule Cons.IH) (use ok False in auto)
    show ?thesis unfolding step IH all by (simp add: algebra_simps)
  qed
qed

section \<open>Exactly the encodings of keys\<close>

lemma base32Decode_regroups:
  assumes "set u \<subseteq> set B32"
  shows "base32Decode u = Some (map (\<lambda>g. of_nat (val_of g))
    (chunks (5 * length u div 8) 8 (concat (map (\<lambda>ch. bits_of 5 (index_of ch B32)) u))))"
  using base32_loop_regroups [OF assms, of 0 0 "[]"] by (simp add: base32Decode_def pending_def)

text \<open>The reference: a key with its version byte and its checksum, low byte first, five bits at a time.\<close>

definition base32Encode :: "byte list \<Rightarrow> ustring" where
  "base32Encode bs = map (\<lambda>g. B32 ! val_of g) (chunks (8 * length bs div 5) 5 (concat (map (\<lambda>b. bits_of 8 (unat b)) bs)))"

definition strkey_bytes :: "byte list \<Rightarrow> byte list" where
  "strkey_bytes k = (let crc = crc16 (0x30 # k) in 0x30 # k @ [ucast crc, ucast (drop_bit 8 crc)])"

definition strkey_text :: "byte list \<Rightarrow> ustring" where
  "strkey_text k = base32Encode (strkey_bytes k)"

lemma length_B32 [simp]: "length B32 = 32"
  by (simp add: B32_def)

lemma distinct_B32: "distinct B32"
  by (simp add: B32_def lit_def)

lemma index_of_nth: "distinct xs \<Longrightarrow> i < length xs \<Longrightarrow> index_of (xs ! i) xs = i"
proof (induction xs arbitrary: i)
  case (Cons x xs)
  then show ?case by (cases i) (auto simp: nth_mem)
qed simp

lemma nth_index_of: "x \<in> set xs \<Longrightarrow> xs ! index_of x xs = x"
  by (induction xs) auto

lemma chunk_lengths: "length xs = k * n \<Longrightarrow> g \<in> set (chunks k n xs) \<Longrightarrow> length g = n"
proof (induction k arbitrary: xs)
  case (Suc k)
  then show ?case using Suc.IH [of "drop n xs"] by auto
qed simp

lemma length_concat_bits: "length (concat (map (\<lambda>x. bits_of n (f x)) xs)) = n * length xs"
  by (induction xs) simp_all

lemma symbols_of_encoding:
  assumes "5 dvd length bs"
  shows "concat (map (\<lambda>ch. bits_of 5 (index_of ch B32)) (base32Encode bs)) = concat (map (\<lambda>b. bits_of 8 (unat b)) bs)"
    and "set (base32Encode bs) \<subseteq> set B32"
proof -
  let ?X = "concat (map (\<lambda>b. bits_of 8 (unat b)) bs)" and ?k = "8 * length bs div 5"
  from assms have len: "length ?X = ?k * 5" by (auto simp: length_concat_bits)
  have small: "val_of g < 32" if "g \<in> set (chunks ?k 5 ?X)" for g
    using val_of_less [of g] chunk_lengths [OF len that] by simp
  then show "set (base32Encode bs) \<subseteq> set B32" by (auto simp: base32Encode_def)
  have "map (\<lambda>ch. bits_of 5 (index_of ch B32)) (base32Encode bs) = map (\<lambda>g. bits_of 5 (val_of g)) (chunks ?k 5 ?X)"
    by (auto simp: base32Encode_def index_of_nth [OF distinct_B32] small)
  then show "concat (map (\<lambda>ch. bits_of 5 (index_of ch B32)) (base32Encode bs)) = ?X"
    using concat_chunks [OF len] by simp
qed

lemma bytes_of_bits: "map (\<lambda>g. of_nat (val_of g)) (chunks (length bs) 8 (concat (map (\<lambda>b. bits_of 8 (unat b)) bs))) = (bs :: byte list)"
proof -
  have "unat b < 2 ^ LENGTH(8)" for b :: byte by (rule unsigned_less)
  then have "map val_of (chunks (length (map unat bs)) 8 (concat (map (bits_of 8) (map unat bs)))) = map unat bs"
    by (intro val_chunks_concat) (simp add: list_all_iff)
  then have "map (of_nat :: nat \<Rightarrow> byte) (map val_of (chunks (length bs) 8 (concat (map (\<lambda>b. bits_of 8 (unat b)) bs))))
      = map of_nat (map unat bs)"
    by (simp add: comp_def)
  then show ?thesis by (simp add: comp_def)
qed

lemma decode_of_encoding:
  assumes "5 dvd length bs"
  shows "base32Decode (base32Encode bs) = Some bs"
proof -
  have "length (base32Encode bs) = 8 * length bs div 5" by (simp add: base32Encode_def)
  with assms have "5 * length (base32Encode bs) div 8 = length bs" by auto
  with symbols_of_encoding [OF assms] bytes_of_bits [of bs] show ?thesis by (simp add: base32Decode_regroups)
qed

lemma encoding_of_decode:
  assumes "set u \<subseteq> set B32" and "8 dvd length u" and "base32Decode u = Some bs"
  shows "base32Encode bs = u"
proof -
  let ?Y = "concat (map (\<lambda>ch. bits_of 5 (index_of ch B32)) u)" and ?k = "5 * length u div 8"
  from assms(2) have len: "length ?Y = ?k * 8" by (auto simp: length_concat_bits)
  from assms base32Decode_regroups [OF assms(1)] have bs: "bs = map (\<lambda>g. of_nat (val_of g)) (chunks ?k 8 ?Y)" by simp
  have unat: "unat (of_nat (val_of g) :: byte) = val_of g" if "g \<in> set (chunks ?k 8 ?Y)" for g
    using val_of_less [of g] chunk_lengths [OF len that] by (simp add: unat_of_nat)
  have "map (\<lambda>b. bits_of 8 (unat b)) bs = map (\<lambda>g. bits_of 8 (val_of g)) (chunks ?k 8 ?Y)"
    by (simp add: bs unat)
  with concat_chunks [OF len] have X: "concat (map (\<lambda>b. bits_of 8 (unat b)) bs) = ?Y" by simp
  from assms(2) have count: "8 * length bs div 5 = length u" by (auto simp: bs)
  have "map val_of (chunks (length (map (\<lambda>ch. index_of ch B32) u)) 5 (concat (map (bits_of 5) (map (\<lambda>ch. index_of ch B32) u))))
      = map (\<lambda>ch. index_of ch B32) u"
    by (rule val_chunks_concat) (use assms(1) in \<open>auto simp: list_all_iff dest!: B32_index\<close>)
  then have "map val_of (chunks (length u) 5 ?Y) = map (\<lambda>ch. index_of ch B32) u" by (simp add: comp_def)
  then have "map (\<lambda>n. B32 ! n) (map val_of (chunks (length u) 5 ?Y)) = map (\<lambda>n. B32 ! n) (map (\<lambda>ch. index_of ch B32) u)" by simp
  also have "\<dots> = u" using assms(1) by (auto simp: nth_index_of subset_iff intro: map_idI)
  finally show ?thesis by (simp add: base32Encode_def X count comp_def)
qed

text \<open>The two checksum bytes hold the checksum.\<close>

lemma two_bytes:
  fixes c :: "16 word" and a b :: byte
  shows "c = (ucast a OR push_bit 8 (ucast b)) \<longleftrightarrow> a = ucast c \<and> b = ucast (drop_bit 8 c)"
proof -
  have "ucast (ucast a OR push_bit 8 (ucast b) :: 16 word) = a" "ucast (drop_bit 8 (ucast a OR push_bit 8 (ucast b) :: 16 word)) = b"
    by (rule bit_word_eqI; auto simp: bit_simps dest: bit_imp_le_length)+
  moreover have "ucast (ucast c :: byte) OR push_bit 8 (ucast (ucast (drop_bit 8 c) :: byte)) = c"
    by (rule bit_word_eqI) (auto simp: bit_simps dest: bit_imp_le_length)
  ultimately show ?thesis by metis
qed

lemma shape_first: "u \<noteq> [] \<Longrightarrow> set u \<subseteq> set B32 \<Longrightarrow> take 1 u = lit ''G'' \<longleftrightarrow> index_of (hd u) B32 = 6"
  by (cases u) (auto simp: B32_def lit_def)

lemma length_strkey_bytes [simp]: "length (strkey_bytes k) = length k + 3"
  by (simp add: strkey_bytes_def Let_def)

lemma strkey_bytes_iff:
  assumes "length bs = 35"
  shows "bs ! 0 = 0x30 \<and> crc16 (take 33 bs) = (ucast (bs ! 33) OR push_bit 8 (ucast (bs ! 34)))
    \<longleftrightarrow> (\<exists>k. length k = 32 \<and> bs = strkey_bytes k)"
proof -
  define k where "k = take 32 (drop 1 bs)"
  have "drop 33 bs = [bs ! 33, bs ! 34]" using assms Cons_nth_drop_Suc [of 33 bs] Cons_nth_drop_Suc [of 34 bs] by simp
  moreover have "take 33 bs = bs ! 0 # k" using assms by (cases bs) (simp_all add: k_def)
  ultimately have bs: "bs = bs ! 0 # k @ [bs ! 33, bs ! 34]" and t: "take 33 bs = bs ! 0 # k"
    using append_take_drop_id [of 33 bs] by simp_all
  have k: "length k = 32" using assms by (simp add: k_def)
  show ?thesis
  proof
    assume *: "bs ! 0 = 0x30 \<and> crc16 (take 33 bs) = (ucast (bs ! 33) OR push_bit 8 (ucast (bs ! 34)))"
    then have c: "crc16 (0x30 # k) = (ucast (bs ! 33) OR push_bit 8 (ucast (bs ! 34)))" by (metis t)
    then have "bs ! 33 = ucast (crc16 (0x30 # k))" "bs ! 34 = ucast (drop_bit 8 (crc16 (0x30 # k)))" unfolding two_bytes by simp_all
    with bs * have "bs = strkey_bytes k" by (simp add: strkey_bytes_def Let_def)
    with k show "\<exists>k. length k = 32 \<and> bs = strkey_bytes k" by blast
  next
    assume "\<exists>k. length k = 32 \<and> bs = strkey_bytes k"
    then obtain k where "length k = 32" "bs = strkey_bytes k" by blast
    then have "bs ! 0 = 0x30" "take 33 bs = 0x30 # k" "bs ! 33 = ucast (crc16 (0x30 # k))" "bs ! 34 = ucast (drop_bit 8 (crc16 (0x30 # k)))"
      by (simp_all add: strkey_bytes_def Let_def nth_append)
    then show "bs ! 0 = 0x30 \<and> crc16 (take 33 bs) = (ucast (bs ! 33) OR push_bit 8 (ucast (bs ! 34)))"
      by (simp only: two_bytes)
  qed
qed

lemma chunks_pos: "0 < m \<Longrightarrow> chunks m n xs = take n xs # chunks (m - 1) n (drop n xs)"
  by (cases m) simp_all

lemma version_bits: "take 5 (bits_of 8 (unat (0x30 :: byte))) = [False, False, True, True, False]"
  by (simp add: bits_of_def upt_rec bit_iff_odd)

lemma first_symbol:
  assumes "length k = 32"
  shows "take 1 (strkey_text k) = lit ''G''"
proof -
  let ?X = "concat (map (\<lambda>b. bits_of 8 (unat b)) (strkey_bytes k))"
  have "?X = bits_of 8 (unat (0x30 :: byte)) @ concat (map (\<lambda>b. bits_of 8 (unat b)) (drop 1 (strkey_bytes k)))"
    by (simp add: strkey_bytes_def Let_def)
  then have "take 5 ?X = [False, False, True, True, False]" using version_bits by (simp add: take_append)
  then have "B32 ! val_of (take 5 ?X) = B32 ! 6" by simp
  moreover have "0 < 8 * length (strkey_bytes k) div 5" using assms by simp
  ultimately show ?thesis by (simp add: strkey_text_def base32Encode_def chunks_pos) (simp add: B32_def lit_def)
qed

lemma address_check_iff:
  "isValidStellarPublicKey u \<longleftrightarrow> (\<exists>k. length k = 32 \<and> u = strkey_text k)"
proof
  assume valid: "isValidStellarPublicKey u"
  then obtain bs where d: "base32Decode u = Some bs" "length bs = 35" and shape: "strkey_shape u"
    and b: "bs ! 0 = 0x30 \<and> crc16 (take 33 bs) = (ucast (bs ! 33) OR push_bit 8 (ucast (bs ! 34)))"
    by (auto simp: isValidStellarPublicKey_def split: if_splits option.splits)
  from shape have "set u = set (take 1 u) \<union> set (drop 1 u)" by (metis append_take_drop_id set_append)
  with shape have u: "set u \<subseteq> set B32" "length u = 56" by (auto simp: strkey_shape_def B32_def lit_def)
  from strkey_bytes_iff [OF d(2)] b obtain k where k: "length k = 32" "bs = strkey_bytes k" by blast
  from encoding_of_decode [OF u(1) _ d(1)] u(2) k(2) have "u = strkey_text k" by (simp add: strkey_text_def)
  with k(1) show "\<exists>k. length k = 32 \<and> u = strkey_text k" by blast
next
  assume "\<exists>k. length k = 32 \<and> u = strkey_text k"
  then obtain k where k: "length k = 32" and u: "u = base32Encode (strkey_bytes k)" by (auto simp: strkey_text_def)
  have d: "base32Decode u = Some (strkey_bytes k)" unfolding u by (rule decode_of_encoding) (simp add: k)
  have "set u \<subseteq> set B32" unfolding u by (rule symbols_of_encoding) (simp add: k)
  moreover have "length u = 56" by (simp add: u base32Encode_def k)
  moreover have "take 1 u = lit ''G''" using first_symbol [OF k] by (simp add: u strkey_text_def)
  ultimately have "strkey_shape u" by (auto simp: strkey_shape_def dest: in_set_dropD)
  with d strkey_bytes_iff [of "strkey_bytes k"] k show "isValidStellarPublicKey u"
    by (auto simp: isValidStellarPublicKey_def)
qed

section \<open>Properties\<close>


end
