(* ===== verification/Extension_Request.thy ===== *)
theory Extension_Request
  imports Strkey_Text Bridge_System
begin

text \<open>
  What the extension asks the server for, against what the server accepts: the body built from a shop's payment request
  (\<^verbatim>\<open>app/extension/src/lib/intent.ts\<close>) and from a manual payment (\<^verbatim>\<open>wizard-core.ts\<close>) on one side, the parsing and the payout
  constructor of \<^verbatim>\<open>backend/src/http/app.ts\<close> and \<^verbatim>\<open>core/src/payout-intent.ts\<close> on the other.
\<close>

section \<open>Texts the server reads back\<close>

lemma hex_val_hex_digit: "n < 16 \<Longrightarrow> hex_val (hex_digit n) = Some n"
  by (auto simp: hex_val_def hex_digit_def Let_def unat_of_nat)

lemma is_hex64_to_hex: "length b = 32 \<Longrightarrow> is_hex64 (to_hex b)"
proof -
  assume "length b = 32"
  moreover have "length (to_hex b) = 2 * length b" by (induction b) (simp_all add: to_hex_def)
  moreover have "list_all (\<lambda>c. hex_val c \<noteq> None) (to_hex b)"
  proof (induction b)
    case (Cons x b)
    have "unat x < 2 ^ LENGTH(8)" by (rule unsigned_less)
    then have "unat x div 16 < 16" "unat x mod 16 < 16" by auto
    with Cons show ?case by (simp add: to_hex_def hex_val_hex_digit)
  qed (simp add: to_hex_def)
  ultimately show ?thesis by (simp add: is_hex64_def)
qed

lemma decodeMemo_to_hex: "length b = 32 \<Longrightarrow> decodeMemo (MemoText (to_hex b)) = MdBytes b"
  using is_hex64_to_hex [of b] by (auto simp: decodeMemo_def is_hex64_def)

text \<open>A decimal text without white space, sign or radix prefix reads as its value.\<close>

lemma digit_unit_facts:
  assumes "is_digit c"
  shows "\<not> js_space (of_nat (of_char c))" and "hex_val (of_nat (of_char c)) = Some (digit_val c)" and "digit_val c < 10"
  using assms unat_code_unit [of c] by (auto simp: js_space_def Let_def hex_val_def digit_val_def is_digit_def)

lemma js_trim_digits: "list_all is_digit s \<Longrightarrow> js_trim (lit s) = lit s"
proof -
  assume s: "list_all is_digit s"
  have "dropWhile js_space (lit t) = lit t" if "list_all is_digit t" for t
    using that by (cases t) (auto simp: lit_def digit_unit_facts)
  from this [OF s] this [of "rev s"] s show ?thesis by (simp add: js_trim_def lit_def rev_map [symmetric])
qed

lemma radix_nat_digits: "s \<noteq> [] \<Longrightarrow> list_all is_digit s \<Longrightarrow> radix_nat 10 (lit s) = Some (dec_nat s)"
proof -
  assume ne: "s \<noteq> []" and s: "list_all is_digit s"
  have "foldl (\<lambda>acc c. case (acc, hex_val c) of (Some a, Some d) \<Rightarrow> if d < 10 then Some (a * 10 + d) else None | _ \<Rightarrow> None) (Some a) (lit t)
      = Some (foldl (\<lambda>a c. a * 10 + digit_val c) a t)" if "list_all is_digit t" for a t
    using that by (induction t arbitrary: a) (simp_all add: lit_def digit_unit_facts)
  from this [OF s, of 0] ne show ?thesis by (simp add: radix_nat_def dec_nat_def)
qed

lemma no_prefix:
  assumes "list_all is_digit s" and "\<not> list_all is_digit p"
  shows "\<not> starts_with (lit p) (lit s)"
proof
  assume "starts_with (lit p) (lit s)"
  then have "lit (take (length p) s) = lit p" by (simp add: starts_with_def lit_def take_map)
  then have "take (length p) s = p" by simp
  with assms show False by (metis list_all_append append_take_drop_id)
qed

lemma parseBigInt_digits: "s \<noteq> [] \<Longrightarrow> list_all is_digit s \<Longrightarrow> parseBigInt (lit s) = Some (int (dec_nat s))"
  using no_prefix [of s "''-''"] no_prefix [of s "''+''"] no_prefix [of s "''0x''"] no_prefix [of s "''0X''"] no_prefix [of s "''0o''"]
    no_prefix [of s "''0O''"] no_prefix [of s "''0b''"] no_prefix [of s "''0B''"]
  by (simp add: parseBigInt_def Let_def js_trim_digits radix_nat_digits is_digit_def)

lemma parseBigInt_bigint_str: "0 \<le> n \<Longrightarrow> parseBigInt (lit (bigint_str n)) = Some n"
  by (simp add: bigint_str_def parseBigInt_digits nat_dec_digits)

section \<open>What the server makes of the body\<close>

text \<open>The two sides agree on the deployment: the USDC issuer, the hash, the normalisation and the keys that are addresses.\<close>

definition same_deployment :: "(ustring \<Rightarrow> ustring) \<Rightarrow> (byte list \<Rightarrow> byte list) \<Rightarrow> ustring list \<Rightarrow> app_deps \<Rightarrow> bool" where
  "same_deployment nfc sha256 issuers A \<longleftrightarrow>
     de_nfc (ap_engine A) = nfc \<and> de_sha256 (ap_engine A) = sha256 \<and> issuers = [sc_usdcIssuer (ec_stellar (de_config (ap_engine A)))]
     \<and> ap_isEd25519 A = isValidStellarPublicKey"

text \<open>The request of a body, and what the payout constructor is called with.\<close>

definition request_of :: "intent_body \<Rightarrow> http_request \<Rightarrow> http_request" where
  "request_of body rq = rq\<lparr> hr_body := Some (intent_json body) \<rparr>"

definition built_by_server :: "app_deps \<Rightarrow> intent_fields \<Rightarrow> int \<Rightarrow> account_snapshot \<Rightarrow> derive_error + (build_error + validated_payout)" where
  "built_by_server A f amount snap =
     build (de_nfc (ap_engine A)) (de_sha256 (ap_engine A)) (ap_isEd25519 A) (ap_isContract A)
       \<lparr> rp_orderId = JsIs (nf_orderId f), rp_destination = JsIs (nf_destination f), rp_amount = JsIs amount,
         rp_assetIssuer = nf_assetIssuer f, rp_memo = MemoText (nf_memoHex f) \<rparr>
       \<lparr> bc_snapshot = snap, bc_allowedIssuers = [sc_usdcIssuer (ec_stellar (de_config (ap_engine A)))], bc_assetCode = None \<rparr>"

text \<open>A body that names a well-formed order, an address, an amount and the issuer, with the memo the replica derives.\<close>

definition sound_body :: "(ustring \<Rightarrow> ustring) \<Rightarrow> (byte list \<Rightarrow> byte list) \<Rightarrow> ustring list \<Rightarrow> int \<Rightarrow> intent_body \<Rightarrow> bool" where
  "sound_body nfc sha256 issuers stroops b \<longleftrightarrow>
     ib_orderId b \<noteq> [] \<and> deriveMemoHex nfc sha256 (ib_orderId b) = Some (ib_memoHex b) \<and> isValidStellarPublicKey (ib_destination b)
     \<and> 0 < stroops \<and> ib_amountStroops b = lit (bigint_str stroops) \<and> ib_assetIssuer b \<in> set issuers"

lemma stroops_of_pos: "stroops_of i f = Some n \<Longrightarrow> 0 < n"
  by (auto simp: stroops_of_def Let_def split: if_splits)

lemma toStroops_pos: "toStroops u = Some n \<Longrightarrow> 0 < n"
  by (auto simp: toStroops_def Let_def split: option.splits if_splits list.splits dest: stroops_of_pos)

lemma shop_body_sound:
  assumes d: "evaluate decode issuers uri = Some d" and b: "buildIntentBody nfc sha256 d = Inr body"
  shows "\<exists>stroops. sound_body nfc sha256 issuers stroops body \<and> ib_paymentMethod body = None"
proof -
  from d have checks: "dt_payable d \<longleftrightarrow> list_all snd (sep7_checks issuers (dt_sep7 d))"
    by (auto simp: evaluate_def Let_def split: option.splits)
  from b obtain orderId issuer stroops memoHex where p: "dt_payable d" and s: "sp_memo (dt_sep7 d) = Some orderId" "orderId \<noteq> []"
      "sp_assetIssuer (dt_sep7 d) = Some issuer" "toStroops (sp_amount (dt_sep7 d)) = Some stroops"
      "deriveMemoHex nfc sha256 orderId = Some memoHex"
    and body: "body = \<lparr> ib_paymentMethod = None, ib_orderId = orderId, ib_destination = sp_destination (dt_sep7 d),
      ib_amountStroops = lit (bigint_str stroops), ib_assetIssuer = issuer, ib_memoHex = memoHex \<rparr>"
    by (auto simp: buildIntentBody_def Let_def split: option.splits if_splits)
  from p checks s have "isValidStellarPublicKey (sp_destination (dt_sep7 d))" "issuer \<in> set issuers"
    by (simp_all add: sep7_checks_def)
  with s toStroops_pos [OF s(4)] show ?thesis by (intro exI [of _ stroops]) (simp add: body sound_body_def)
qed

lemma manual_body_sound:
  assumes "validateWizardInput destinationRaw amountRaw = Inr (destination, stroops)" and "orderId \<noteq> []" and "issuers \<noteq> []"
    and "buildManualIntentBody nfc sha256 issuers orderId destination stroops = Some body"
  shows "sound_body nfc sha256 issuers stroops body \<and> stroops \<le> MANUAL_MAX_STROOPS"
  using assms
  by (auto simp: validateWizardInput_def buildManualIntentBody_def sound_body_def Let_def split: option.splits if_splits)

lemma address_is_ascii: "isValidStellarPublicKey u \<Longrightarrow> \<not> NON_ASCII u"
proof -
  assume "isValidStellarPublicKey u"
  then have shape: "strkey_shape u" by (auto simp: isValidStellarPublicKey_def split: if_splits)
  then have "set u = set (take 1 u) \<union> set (drop 1 u)" by (metis append_take_drop_id set_append)
  with shape have "set u \<subseteq> set B32" by (auto simp: strkey_shape_def B32_def lit_def)
  moreover have "list_all (\<lambda>c. unat c < 128) B32" by (simp add: B32_def lit_def)
  ultimately have "\<forall>c \<in> set u. unat c < 128" by (auto simp: list_all_iff)
  then show ?thesis by (fastforce simp: NON_ASCII_def list_ex_iff)
qed

lemma server_parses_sound_body:
  assumes "sound_body nfc sha256 issuers stroops body" and "same_deployment nfc sha256 issuers A"
    and "parse_method (map_option (\<lambda>m. JStr (method_text m)) (ib_paymentMethod body)) = Some m" and "\<not> bank_missing A m"
  shows "intent_parse A (request_of body rq) = Inr \<lparr> nf_method = m, nf_orderId = nfc (ib_orderId body),
    nf_destination = ib_destination body, nf_amountStr = ib_amountStroops body, nf_assetIssuer = ib_assetIssuer body,
    nf_memoHex = ib_memoHex body, nf_ip = buyerIpOf (hr_ip rq) \<rparr>"
proof -
  have "tryCanonicalizeOrderId A (ib_orderId body) = Some (nfc (ib_orderId body))"
    using assms(1,2) by (auto simp: sound_body_def same_deployment_def deriveMemoHex_def ext_canonicalizeOrderId_def
        tryCanonicalizeOrderId_def canonicalizeOrderId_def split: if_splits)
  moreover have "jprop (intent_json body) ''paymentMethod'' = map_option (\<lambda>m. JStr (method_text m)) (ib_paymentMethod body)"
    by (simp add: intent_json_def split: option.splits)
  ultimately show ?thesis
    using assms by (simp add: intent_parse_def request_of_def intent_json_def optStr_def sound_body_def split: option.splits)
qed

lemma server_builds_sound_body:
  assumes body: "sound_body nfc sha256 issuers stroops body" and same: "same_deployment nfc sha256 issuers A"
    and f: "nf_orderId f = nfc (ib_orderId body)" "nf_destination f = ib_destination body" "nf_assetIssuer f = ib_assetIssuer body"
      "nf_memoHex f = ib_memoHex body"
    and nfc: "nfc_ok nfc" "nfc (ib_orderId body) \<noteq> []" and sha: "\<And>x. length (sha256 x) = 32 \<and> sha256 x \<noteq> replicate 32 0"
  shows "case built_by_server A f stroops snap of
      Inl _ \<Rightarrow> False
    | Inr (Inl e) \<Rightarrow> e \<in> {TrustlineMissing, DestinationMemoRequired} \<or> e = AmountNonPositive \<and> I128_MAX < stroops
    | Inr (Inr p) \<Rightarrow> vp_destination p = ib_destination body \<and> vp_amount p = stroops \<and> to_hex (vp_memo p) = ib_memoHex body"
proof -
  let ?con = "ap_isContract A" and ?u = "nfc (ib_orderId body)" and ?d = "ib_destination body"
  let ?raw = "\<lparr> rp_orderId = JsIs ?u, rp_destination = JsIs ?d, rp_amount = JsIs stroops, rp_assetIssuer = ib_assetIssuer body,
    rp_memo = MemoText (ib_memoHex body) \<rparr>"
  let ?ctx = "\<lparr> bc_snapshot = snap, bc_allowedIssuers = issuers, bc_assetCode = None \<rparr>"
  let ?memo = "sha256 (memo_preimage (utf8 ?u))"
  from body have wf: "\<not> LONE_SURROGATE (ib_orderId body)" and hex: "ib_memoHex body = to_hex ?memo"
    by (auto simp: sound_body_def deriveMemoHex_is_deriveMemo deriveMemo_def canonicalizeOrderId_def computeMemo_def split: if_splits)
  with nfc have u: "\<not> LONE_SURROGATE ?u" "nfc ?u = ?u" by (auto simp: nfc_ok_def)
  from body have key: "isValidStellarPublicKey ?d" and amount: "0 < stroops" and issuer: "ib_assetIssuer body \<in> set issuers"
    by (simp_all add: sound_body_def)
  then have ed: "classifyAddress isValidStellarPublicKey ?con ?d = Ed25519" by (simp add: classifyAddress_def)
  have bytes: "raw_bytes ?raw = ?memo" using sha hex by (simp add: raw_bytes_def decodeMemo_to_hex)
  have nonempty: "ib_memoHex body \<noteq> []" using is_hex64_to_hex [of ?memo] sha hex by (auto simp: is_hex64_def)
  have no_memo_rule: "find (violates nfc sha256 isValidStellarPublicKey ?con ?raw ?ctx) [MemoMissing, MemoWrongLength, MemoZero, MemoMismatch] = None"
    using bytes sha u nonempty by (simp add: str_or_empty_def)
  have call: "built_by_server A f stroops snap = build nfc sha256 isValidStellarPublicKey ?con ?raw ?ctx"
    using same f by (simp add: built_by_server_def same_deployment_def)
  have "build nfc sha256 isValidStellarPublicKey ?con ?raw ?ctx
      = build_payable nfc sha256 (nfc ?u) ?d Ed25519 ?memo ?raw ?ctx"
    using build_memo_spec [OF nfc(1), of ?raw ?u ?d isValidStellarPublicKey ?con sha256 ?ctx] no_memo_rule u nfc ed by simp
  with call have b: "built_by_server A f stroops snap = build_payable nfc sha256 (nfc ?u) ?d Ed25519 ?memo ?raw ?ctx" by simp
  have spec: "case find (violates nfc sha256 isValidStellarPublicKey ?con ?raw ?ctx)
            [AmountNonPositive, IssuerNotAllowlisted, TrustlineMissing, DestinationMemoRequired] of
       Some e \<Rightarrow> build_payable nfc sha256 (nfc ?u) ?d Ed25519 ?memo ?raw ?ctx = Inr (Inl e)
     | None \<Rightarrow> \<exists>a ids. rp_amount ?raw = JsIs a \<and> deriveIds nfc sha256 (nfc ?u) ?d a = Inr ids
         \<and> di_memo ids = sha256 (memo_preimage (utf8 (nfc ?u)))
         \<and> build_payable nfc sha256 (nfc ?u) ?d Ed25519 ?memo ?raw ?ctx
            = Inr (Inr \<lparr> vp_orderId = nfc ?u, vp_destination = ?d, vp_destinationType = Ed25519, vp_amount = a,
                vp_assetIssuer = rp_assetIssuer ?raw, vp_memo = ?memo, vp_ids = ids \<rparr>)"
    by (rule build_payable_spec [OF nfc(1) u(1) address_is_ascii [OF key]]) (simp_all add: key)
  show ?thesis
  proof (cases "find (violates nfc sha256 isValidStellarPublicKey ?con ?raw ?ctx)
      [AmountNonPositive, IssuerNotAllowlisted, TrustlineMissing, DestinationMemoRequired]")
    case None
    with spec b hex show ?thesis by auto
  next
    case (Some e)
    with spec b have r: "built_by_server A f stroops snap = Inr (Inl e)" by simp
    from Some amount issuer have "e \<in> {TrustlineMissing, DestinationMemoRequired} \<or> e = AmountNonPositive \<and> I128_MAX < stroops"
      by (auto split: if_splits)
    with r show ?thesis by simp
  qed
qed

section \<open>Properties\<close>


text \<open>A manual payment is refused for even less: its cap keeps the amount within range.\<close>

lemma manual_request_refused_only_by_chain:
  assumes v: "validateWizardInput destinationRaw amountRaw = Inr (destination, stroops)" and o: "orderId \<noteq> []" and i: "issuers \<noteq> []"
    and b: "buildManualIntentBody nfc sha256 issuers orderId destination stroops = Some body"
    and same: "same_deployment nfc sha256 issuers A" and offered: "\<not> bank_missing A Card"
    and nfc: "nfc_ok nfc" "nfc orderId \<noteq> []" and sha: "\<And>x. length (sha256 x) = 32 \<and> sha256 x \<noteq> replicate 32 0"
  shows "\<exists>f. intent_parse A (request_of body rq) = Inr f \<and> parseBigInt (nf_amountStr f) = Some stroops
    \<and> (\<forall>snap e. built_by_server A f stroops snap = Inr (Inl e) \<longrightarrow> e \<in> {TrustlineMissing, DestinationMemoRequired})"
proof -
  from manual_body_sound [OF v o i b] have s: "sound_body nfc sha256 issuers stroops body" and cap: "stroops \<le> MANUAL_MAX_STROOPS" by simp_all
  from b have id: "ib_orderId body = orderId" "ib_paymentMethod body = None" by (auto simp: buildManualIntentBody_def)
  let ?f = "\<lparr> nf_method = Card, nf_orderId = nfc (ib_orderId body), nf_destination = ib_destination body,
    nf_amountStr = ib_amountStroops body, nf_assetIssuer = ib_assetIssuer body, nf_memoHex = ib_memoHex body, nf_ip = buyerIpOf (hr_ip rq) \<rparr>"
  have parsed: "intent_parse A (request_of body rq) = Inr ?f"
    by (rule server_parses_sound_body [OF s same _ offered]) (simp add: id parse_method_def)
  have amount: "parseBigInt (nf_amountStr ?f) = Some stroops"
    using s by (simp add: sound_body_def parseBigInt_bigint_str)
  have "\<not> I128_MAX < stroops" using cap by (simp add: MANUAL_MAX_STROOPS_def I128_MAX_def)
  then have "e \<in> {TrustlineMissing, DestinationMemoRequired}" if "built_by_server A ?f stroops snap = Inr (Inl e)" for snap e
    using server_builds_sound_body [OF s same, of ?f snap] nfc sha that by (simp add: id)
  with parsed amount show ?thesis by blast
qed

definition demo_query :: "ustring \<Rightarrow> ustring" where
  "demo_query u = (if u = lit ''d'' then lit ''destination'' else if u = lit ''D'' then strkey_text (replicate 32 0)
     else if u = lit ''a'' then lit ''amount'' else if u = lit ''c'' then lit ''asset_code'' else if u = lit ''U'' then lit ''USDC''
     else if u = lit ''i'' then lit ''asset_issuer'' else if u = lit ''m'' then lit ''memo'' else u)"

definition demo_shop :: sep7_pay where
  "demo_shop = \<lparr> sp_destination = strkey_text (replicate 32 0), sp_amount = lit ''5'', sp_assetCode = Some (lit ''USDC''),
     sp_assetIssuer = Some [], sp_memo = Some (lit ''o1''), sp_memoType = None \<rparr>"

lemma demo_key_text: "strkey_text (replicate 32 0) \<noteq> []" "isValidStellarPublicKey (strkey_text (replicate 32 0))"
proof -
  have "length (strkey_text (replicate 32 0)) = 56" by (simp add: strkey_text_def base32Encode_def)
  then show "strkey_text (replicate 32 0) \<noteq> []" by force
  have "length (replicate 32 (0 :: byte)) = 32" by simp
  then show "isValidStellarPublicKey (strkey_text (replicate 32 0))" unfolding address_check_iff by blast
qed

lemma demo_parses: "parseSep7 demo_query (lit ''web+stellar:pay?d=D&a=5&c=U&i=&m=o1'') = Some demo_shop"
  by (simp add: parseSep7_def SEP7_SCHEME_def starts_with_def before_char_def after_char_def searchParams_def query_parts.simps demo_query_def
      demo_shop_def lit_def Let_def demo_key_text(1))

lemma demo_five: "toStroops (lit ''5'') = Some 50000000"
proof -
  have "ascii_of (lit ''5'') = Some ''5''" by (rule ascii_of_lit) simp
  then show ?thesis by (simp add: toStroops_def stroops_of_def USDC_DECIMALS_def digits_def is_digit_def dec_nat_def digit_val_def Let_def
      eval_nat_numeral)
qed


end
