(* ===== verification/Extension_Http.thy ===== *)
theory Extension_Http
  imports Extension_Request
begin

text \<open>
  How the extension talks to the server: \<^verbatim>\<open>app/extension/src/lib/backend.ts\<close>, the checks of \<^verbatim>\<open>bank-transfer.ts\<close> and the background
  worker \<^verbatim>\<open>background.ts\<close>. The state is the cached session; every request and what the network answers is a function of the
  number of the request, and the requests made are kept. A body that is not JSON is \<open>None\<close>, which reads as \<open>null\<close>.

  The lemmas show how often one click can reach the server, whose bank instructions are shown, and that nobody but the
  allowed pages makes the worker send anything.
\<close>

section \<open>Requests and answers\<close>

text \<open>\<open>GetQuote\<close> says whether the query asks for a bank transfer; a request that could not be sent counts as one that failed.\<close>

datatype ext_request =
    PostSession
  | PostIntent ustring json
  | GetStatus ustring
  | GetReceipt ustring
  | GetQuote ustring bool
  | PostSimulate ustring ustring ustring

datatype fetch_result = FetchTimeout | FetchFailed | Answered nat "json option"

text \<open>\<open>xn_laterFraction\<close> decides for an expiry that is no integer whether it is later than the given time.\<close>

record ext_net =
  xn_fetch :: "nat \<Rightarrow> ext_request \<Rightarrow> fetch_result"
  xn_now :: "nat \<Rightarrow> int"
  xn_laterFraction :: "int \<Rightarrow> bool"

datatype expiry = ExpiresAt int | ExpiresFraction

record cached_session =
  cs_token :: ustring
  cs_expiresAtUnix :: expiry

record ext_state =
  xs_session :: "cached_session option"
  xs_requests :: "ext_request list"

definition fetchWithTimeout :: "ext_net \<Rightarrow> ext_request \<Rightarrow> ext_state \<Rightarrow> fetch_result \<times> ext_state" where
  "fetchWithTimeout N r s = (xn_fetch N (length (xs_requests s)) r, s\<lparr> xs_requests := xs_requests s @ [r] \<rparr>)"

definition body_of :: "json option \<Rightarrow> json" where
  "body_of v = (case v of None \<Rightarrow> JNull | Some j \<Rightarrow> j)"

definition is_ok :: "nat \<Rightarrow> bool" where
  "is_ok code \<longleftrightarrow> 200 \<le> code \<and> code < 300"

text \<open>What \<open>catch\<close> makes of a request that threw.\<close>

definition thrown_error :: "fetch_result \<Rightarrow> ustring" where
  "thrown_error r = (if r = FetchTimeout then lit ''timeout'' else lit ''network'')"

text \<open>The server's reason, or the code of the answer.\<close>

definition refusal_of :: "nat \<Rightarrow> json \<Rightarrow> ustring" where
  "refusal_of code j =
     (case (if is_jobject j then jprop j ''error'' else None) of
        Some (JStr e) \<Rightarrow> e
      | _ \<Rightarrow> lit (''http_'' @ nat_dec code))"

section \<open>The session\<close>

definition SESSION_EXPIRY_MARGIN_SECS :: int where "SESSION_EXPIRY_MARGIN_SECS = 30"

definition still_valid :: "ext_net \<Rightarrow> int \<Rightarrow> cached_session \<Rightarrow> bool" where
  "still_valid N now c =
     (let limit = now + SESSION_EXPIRY_MARGIN_SECS in
      case cs_expiresAtUnix c of ExpiresAt t \<Rightarrow> t > limit | ExpiresFraction \<Rightarrow> xn_laterFraction N limit)"

definition expiry_of :: "json \<Rightarrow> int \<Rightarrow> expiry" where
  "expiry_of j now = (case jprop j ''expiresAtUnix'' of Some (JInt t) \<Rightarrow> ExpiresAt t | Some JFrac \<Rightarrow> ExpiresFraction | _ \<Rightarrow> ExpiresAt now)"

definition request_session :: "ext_net \<Rightarrow> int \<Rightarrow> ext_state \<Rightarrow> (ustring + ustring) \<times> ext_state" where
  "request_session N now s =
     (case fetchWithTimeout N PostSession s of
        (Answered code v, s) \<Rightarrow>
          (let j = body_of v in
           case (if is_ok code \<and> is_jobject j then jprop j ''token'' else None) of
             Some (JStr token) \<Rightarrow> (Inr token, s\<lparr> xs_session := Some \<lparr> cs_token = token, cs_expiresAtUnix = expiry_of j now \<rparr> \<rparr>)
           | _ \<Rightarrow> (Inl (lit ''session_unavailable''), s))
      | (r, s) \<Rightarrow> (Inl (thrown_error r), s))"

definition fetchSessionToken :: "ext_net \<Rightarrow> ext_state \<Rightarrow> (ustring + ustring) \<times> ext_state" where
  "fetchSessionToken N s =
     (let now = xn_now N (length (xs_requests s)) in
      case xs_session s of
        Some c \<Rightarrow> if still_valid N now c then (Inr (cs_token c), s) else request_session N now s
      | None \<Rightarrow> request_session N now s)"

definition resetSessionCache :: "ext_state \<Rightarrow> ext_state" where
  "resetSessionCache s = s\<lparr> xs_session := None \<rparr>"

section \<open>Bank instructions, bank-transfer.ts\<close>

definition text_within :: "json \<Rightarrow> string \<Rightarrow> nat \<Rightarrow> bool" where
  "text_within j k n = (case jprop j k of Some (JStr v) \<Rightarrow> length v > 0 \<and> length v \<le> n | _ \<Rightarrow> False)"

text \<open>The patterns \<open>/^TR\d{24}$/\<close> and \<open>/^(0|[1-9]\d*)\.\d{2}$/\<close>.\<close>

definition is_iban :: "ustring \<Rightarrow> bool" where
  "is_iban u \<longleftrightarrow> length u = 26 \<and> take 2 u = lit ''TR'' \<and> list_all digit_unit (drop 2 u)"

definition is_try_amount :: "ustring \<Rightarrow> bool" where
  "is_try_amount u =
     (case ascii_of u of
        None \<Rightarrow> False
      | Some s \<Rightarrow> length s \<ge> 4 \<and> is_canonical_decimal (take (length s - 3) s) \<and> s ! (length s - 3) = CHR ''.''
          \<and> list_all is_digit (drop (length s - 2) s))"

definition isBankTransferInstructions :: "json \<Rightarrow> bool" where
  "isBankTransferInstructions raw \<longleftrightarrow>
     is_jobject raw \<and> jprop raw ''providerId'' \<noteq> Some (JStr (lit ''troia-ui-demo''))
   \<and> list_all (\<lambda>k. text_within raw k 256) [''providerId'', ''transferId'', ''orderId'', ''reference'', ''beneficiary'']
   \<and> (case jprop raw ''iban'' of Some (JStr v) \<Rightarrow> is_iban v | _ \<Rightarrow> False)
   \<and> jprop raw ''currency'' = Some (JStr (lit ''TRY''))
   \<and> (case jprop raw ''amountTry'' of Some (JStr v) \<Rightarrow> is_try_amount v | _ \<Rightarrow> False)
   \<and> (case jprop raw ''expiresAtUnix'' of Some (JInt t) \<Rightarrow> is_safe_int t \<and> t > 0 | _ \<Rightarrow> False)"

section \<open>POST /intent\<close>

record intent_failure =
  if_status :: "nat option"
  if_error :: ustring

text \<open>What a bank-transfer answer must be bound to.\<close>

definition bank_answer_bound :: "intent_body \<Rightarrow> json \<Rightarrow> bool" where
  "bank_answer_bound body j =
     (jprop j ''paymentMethod'' = Some (JStr (lit ''bank_transfer''))
      \<and> (case jprop j ''bankTransfer'' of
           None \<Rightarrow> False
         | Some b \<Rightarrow> isBankTransferInstructions b \<and> jprop b ''orderId'' = Some (JStr (ib_orderId body))
             \<and> jprop b ''amountTry'' = jprop j ''paidPriceTry'' \<and> jprop b ''transferId'' = jprop j ''token''))"

definition is_text :: "json option \<Rightarrow> bool" where
  "is_text v = (case v of Some (JStr _) \<Rightarrow> True | _ \<Rightarrow> False)"

definition judge_intent :: "intent_body \<Rightarrow> nat \<Rightarrow> json \<Rightarrow> intent_failure + json" where
  "judge_intent body code j =
     (if \<not> is_ok code then Inl \<lparr> if_status = Some code, if_error = refusal_of code j \<rparr>
      else if \<not> is_jobject j \<or> \<not> is_text (jprop j ''token'') \<or> \<not> is_text (jprop j ''orderId'')
      then Inl \<lparr> if_status = Some code, if_error = lit ''malformed_response'' \<rparr>
      else if ib_paymentMethod body = Some BankTransferMethod \<and> \<not> bank_answer_bound body j
      then Inl \<lparr> if_status = Some code, if_error = lit ''malformed_response'' \<rparr>
      else Inr j)"

definition finish_intent :: "intent_body \<Rightarrow> fetch_result \<Rightarrow> intent_failure + json" where
  "finish_intent body r =
     (case r of
        Answered code v \<Rightarrow> judge_intent body code (body_of v)
      | _ \<Rightarrow> Inl \<lparr> if_status = None, if_error = thrown_error r \<rparr>)"

definition postIntent :: "ext_net \<Rightarrow> intent_body \<Rightarrow> ext_state \<Rightarrow> (intent_failure + json) \<times> ext_state" where
  "postIntent N body s =
     (case fetchSessionToken N s of
        (Inl e, s) \<Rightarrow> (Inl \<lparr> if_status = None, if_error = e \<rparr>, s)
      | (Inr token, s) \<Rightarrow>
          (case fetchWithTimeout N (PostIntent token (intent_json body)) s of
             (r, s) \<Rightarrow>
               if (case r of Answered code _ \<Rightarrow> code = 401 | _ \<Rightarrow> False) then
                 (case fetchSessionToken N (resetSessionCache s) of
                    (Inl e, s) \<Rightarrow> (Inl \<lparr> if_status = None, if_error = e \<rparr>, s)
                  | (Inr token2, s) \<Rightarrow>
                      (case fetchWithTimeout N (PostIntent token2 (intent_json body)) s of (r, s) \<Rightarrow> (finish_intent body r, s)))
               else (finish_intent body r, s)))"

section \<open>The reads\<close>

text \<open>A path whose text cannot be encoded throws inside the \<open>try\<close>, and no request is made.\<close>

definition get_json :: "ext_net \<Rightarrow> ustring \<Rightarrow> ext_request \<Rightarrow> ext_state \<Rightarrow> (ustring + nat \<times> json) \<times> ext_state" where
  "get_json N path r s =
     (if LONE_SURROGATE path then (Inl (lit ''network''), s)
      else (case fetchWithTimeout N r s of
              (Answered code v, s) \<Rightarrow> (Inr (code, body_of v), s)
            | (x, s) \<Rightarrow> (Inl (thrown_error x), s)))"

definition getStatus :: "ext_net \<Rightarrow> ustring \<Rightarrow> ext_state \<Rightarrow> (ustring + ustring) \<times> ext_state" where
  "getStatus N orderId s =
     (case get_json N orderId (GetStatus orderId) s of
        (Inl e, s) \<Rightarrow> (Inl e, s)
      | (Inr (code, j), s) \<Rightarrow>
          (case (if is_ok code \<and> is_jobject j then jprop j ''status'' else None) of
             Some (JStr st) \<Rightarrow> (Inr st, s)
           | _ \<Rightarrow> (Inl (refusal_of code j), s)))"

definition text_prop :: "json \<Rightarrow> string \<Rightarrow> ustring option" where
  "text_prop j k = (case jprop j k of Some (JStr v) \<Rightarrow> Some v | _ \<Rightarrow> None)"

definition getReceipt :: "ext_net \<Rightarrow> ustring \<Rightarrow> ext_state \<Rightarrow> (ustring + ustring option \<times> ustring option) \<times> ext_state" where
  "getReceipt N orderId s =
     (case get_json N orderId (GetReceipt orderId) s of
        (Inl e, s) \<Rightarrow> (Inl e, s)
      | (Inr (code, j), s) \<Rightarrow>
          (if \<not> is_ok code \<or> \<not> is_jobject j then (Inl (refusal_of code j), s)
           else (Inr (text_prop j ''txHash'', text_prop j ''paidPriceTry''), s)))"

text \<open>The price, and the spread when it is an integer; a fraction is kept apart from a missing one.\<close>

datatype spread = SpreadMissing | SpreadBps int | SpreadFraction

definition spread_of :: "json \<Rightarrow> spread" where
  "spread_of j = (case jprop j ''spreadBps'' of Some (JInt n) \<Rightarrow> SpreadBps n | Some JFrac \<Rightarrow> SpreadFraction | _ \<Rightarrow> SpreadMissing)"

definition getQuote :: "ext_net \<Rightarrow> ustring \<Rightarrow> payment_method option \<Rightarrow> ext_state \<Rightarrow> (ustring + ustring \<times> spread) \<times> ext_state" where
  "getQuote N amountStroops m s =
     (case get_json N amountStroops (GetQuote amountStroops (m = Some BankTransferMethod)) s of
        (Inl e, s) \<Rightarrow> (Inl e, s)
      | (Inr (code, j), s) \<Rightarrow>
          (case (if is_ok code \<and> is_jobject j then jprop j ''paidPriceTry'' else None) of
             Some (JStr price) \<Rightarrow> (Inr (price, spread_of j), s)
           | _ \<Rightarrow> (Inl (refusal_of code j), s)))"

text \<open>Up to two attempts, the second with a fresh session.\<close>

fun simulate_attempts :: "nat \<Rightarrow> ext_net \<Rightarrow> ustring \<Rightarrow> ustring \<Rightarrow> ext_state \<Rightarrow> bool \<times> ext_state" where
  "simulate_attempts 0 N orderId sandboxToken s = (False, s)"
| "simulate_attempts (Suc n) N orderId sandboxToken s =
     (case fetchSessionToken N s of
        (Inl e, s) \<Rightarrow> (False, s)
      | (Inr token, s) \<Rightarrow>
          if LONE_SURROGATE orderId then (False, s)
          else (case fetchWithTimeout N (PostSimulate token orderId sandboxToken) s of
                  (Answered code v, s) \<Rightarrow>
                    if code \<noteq> 401 then (code = 202, s)
                    else simulate_attempts n N orderId sandboxToken (resetSessionCache s)
                | (_, s) \<Rightarrow> (False, s)))"

definition simulateBankTransfer :: "ext_net \<Rightarrow> ustring \<Rightarrow> ustring \<Rightarrow> ext_state \<Rightarrow> bool \<times> ext_state" where
  "simulateBankTransfer N orderId sandboxToken s = simulate_attempts 2 N orderId sandboxToken s"

section \<open>The worker, background.ts\<close>

text \<open>\<open>safeOrigin\<close> is the origin of a URL, \<open>ownId\<close> the extension's id, \<open>bw_tab\<close> what \<open>chrome.tabs.create\<close> answers to its n-th call.\<close>

datatype tab_result = TabFailed | TabCreated "nat option"

record worker_env =
  bw_net :: ext_net
  bw_ownId :: "ustring option"
  bw_allowed :: "ustring list"
  bw_safeOrigin :: "ustring \<Rightarrow> ustring option"
  bw_tab :: "nat \<Rightarrow> tab_result"

record message_sender =
  sd_id :: "ustring option"
  sd_origin :: "ustring option"
  sd_url :: "ustring option"
  sd_tab :: "nat option"

definition isAllowedSender :: "worker_env \<Rightarrow> message_sender \<Rightarrow> bool" where
  "isAllowedSender W sender =
     (case (case sd_origin sender of Some og \<Rightarrow> Some og | None \<Rightarrow> Option.bind (sd_url sender) (bw_safeOrigin W)) of
        None \<Rightarrow> False
      | Some origin \<Rightarrow>
          (case bw_ownId W of
             Some ownId \<Rightarrow> length ownId > 0 \<and> sd_id sender = Some ownId \<and> origin = lit ''chrome-extension://'' @ ownId
           | None \<Rightarrow> False)
          \<or> origin \<in> set (bw_allowed W))"

datatype worker_message =
    TroiaIntent "intent_body option"
  | TroiaStatus ustring
  | TroiaSimulateBank ustring ustring
  | TroiaReceipt ustring
  | TroiaQuote ustring "payment_method option"
  | OtherMessage

datatype worker_reply =
    NoReply
  | ForbiddenIntent
  | Forbidden
  | IntentReply "intent_failure + json"
  | StatusReply "ustring + ustring"
  | SimulateReply bool
  | ReceiptReply "ustring + ustring option \<times> ustring option"
  | QuoteReply "ustring + ustring \<times> spread"

text \<open>What the worker did with tabs: a form opened for a storefront tab, a form closed, an attempt that failed.\<close>

datatype tab_act = FormOpened "nat option" "nat option" | FormClosed nat | FormFailed

record worker_state =
  bs_ext :: ext_state
  bs_formTabByStorefront :: "(nat \<times> nat) list"
  bs_tabs :: "tab_act list"

definition tabs_created :: "worker_state \<Rightarrow> nat" where
  "tabs_created s = length (filter (\<lambda>a. case a of FormClosed _ \<Rightarrow> False | _ \<Rightarrow> True) (bs_tabs s))"

text \<open>The previous form of this storefront tab goes first.\<close>

definition close_stale_form :: "nat option \<Rightarrow> worker_state \<Rightarrow> worker_state" where
  "close_stale_form storefrontTabId s =
     (case storefrontTabId of
        None \<Rightarrow> s
      | Some t \<Rightarrow>
          (case map_of (bs_formTabByStorefront s) t of
             None \<Rightarrow> s
           | Some stale \<Rightarrow> s\<lparr> bs_formTabByStorefront := AList.delete t (bs_formTabByStorefront s), bs_tabs := bs_tabs s @ [FormClosed stale] \<rparr>))"

definition open_form :: "worker_env \<Rightarrow> nat option \<Rightarrow> json \<Rightarrow> worker_state \<Rightarrow> worker_reply \<times> worker_state" where
  "open_form W storefrontTabId response s =
     (let s = close_stale_form storefrontTabId s in
      case bw_tab W (tabs_created s) of
        TabFailed \<Rightarrow> (IntentReply (Inl \<lparr> if_status = None, if_error = lit ''tab_open_failed'' \<rparr>), s\<lparr> bs_tabs := bs_tabs s @ [FormFailed] \<rparr>)
      | TabCreated tab \<Rightarrow>
          let s = s\<lparr> bs_tabs := bs_tabs s @ [FormOpened storefrontTabId tab] \<rparr> in
          (IntentReply (Inr response),
           (case (storefrontTabId, tab) of
              (Some t, Some f) \<Rightarrow> s\<lparr> bs_formTabByStorefront := AList.update t f (bs_formTabByStorefront s) \<rparr>
            | _ \<Rightarrow> s)))"

definition on_ext :: "(ext_state \<Rightarrow> 'a \<times> ext_state) \<Rightarrow> ('a \<Rightarrow> worker_reply) \<Rightarrow> worker_state \<Rightarrow> worker_reply \<times> worker_state" where
  "on_ext f k s = (case f (bs_ext s) of (x, e) \<Rightarrow> (k x, s\<lparr> bs_ext := e \<rparr>))"

definition on_intent :: "worker_env \<Rightarrow> nat option \<Rightarrow> intent_body \<Rightarrow> worker_state \<Rightarrow> worker_reply \<times> worker_state" where
  "on_intent W storefrontTabId body s =
     (case postIntent (bw_net W) body (bs_ext s) of
        (outcome, e) \<Rightarrow>
          let s = s\<lparr> bs_ext := e \<rparr> in
          (case outcome of
             Inr response \<Rightarrow>
               if is_text (jprop response ''paymentPageUrl'') then open_form W storefrontTabId response s
               else (IntentReply outcome, s)
           | Inl _ \<Rightarrow> (IntentReply outcome, s)))"

definition onMessage :: "worker_env \<Rightarrow> message_sender \<Rightarrow> worker_message \<Rightarrow> worker_state \<Rightarrow> worker_reply \<times> worker_state" where
  "onMessage W sender msg s =
     (if \<not> isAllowedSender W sender
      then ((case msg of TroiaIntent _ \<Rightarrow> ForbiddenIntent | _ \<Rightarrow> Forbidden), s)
      else (case msg of
        TroiaIntent (Some body) \<Rightarrow> on_intent W (sd_tab sender) body s
      | TroiaStatus orderId \<Rightarrow> on_ext (getStatus (bw_net W) orderId) StatusReply s
      | TroiaSimulateBank orderId sandboxToken \<Rightarrow> on_ext (simulateBankTransfer (bw_net W) orderId sandboxToken) SimulateReply s
      | TroiaReceipt orderId \<Rightarrow> on_ext (getReceipt (bw_net W) orderId) ReceiptReply s
      | TroiaQuote amountStroops m \<Rightarrow> on_ext (getQuote (bw_net W) amountStroops m) QuoteReply s
      | _ \<Rightarrow> (NoReply, s)))"

text \<open>The messages in the order the worker takes them up, each handled to its end.\<close>

fun on_messages :: "worker_env \<Rightarrow> (message_sender \<times> worker_message) list \<Rightarrow> worker_state \<Rightarrow> worker_state" where
  "on_messages W [] s = s"
| "on_messages W (m # ms) s = on_messages W ms (snd (onMessage W (fst m) (snd m) s))"

definition worker_start :: worker_state where
  "worker_start = \<lparr> bs_ext = \<lparr> xs_session = None, xs_requests = [] \<rparr>, bs_formTabByStorefront = [], bs_tabs = [] \<rparr>"

section \<open>One click\<close>

definition is_post :: "ext_request \<Rightarrow> bool" where
  "is_post r = (case r of PostIntent _ _ \<Rightarrow> True | _ \<Rightarrow> False)"

definition posts :: "ext_request list \<Rightarrow> nat" where
  "posts rs = length (filter is_post rs)"

lemma posts_simps [simp]:
  "posts [] = 0" "posts (PostSession # rs) = posts rs" "posts (PostIntent t j # rs) = Suc (posts rs)" "posts (rs @ rs') = posts rs + posts rs'"
  by (simp_all add: posts_def is_post_def)

text \<open>A token costs at most one request for a session.\<close>

lemma fetchSessionToken_requests:
  "xs_requests (snd (fetchSessionToken N s)) \<in> {xs_requests s, xs_requests s @ [PostSession]}"
  by (auto simp: fetchSessionToken_def request_session_def fetchWithTimeout_def Let_def split: option.splits fetch_result.splits json.splits)

lemma fetchSessionToken_renews:
  "xs_session s = None \<Longrightarrow> xs_requests (snd (fetchSessionToken N s)) = xs_requests s @ [PostSession]"
  by (auto simp: fetchSessionToken_def request_session_def fetchWithTimeout_def Let_def split: option.splits fetch_result.splits json.splits)

lemma finish_intent_ok:
  assumes "finish_intent body r = Inr response"
  obtains code v where "r = Answered code v" and "is_ok code" and "body_of v = response" and "is_text (jprop response ''token'')"
    and "if ib_paymentMethod body = Some BankTransferMethod then bank_answer_bound body response else True"
  using assms by (auto simp: finish_intent_def judge_intent_def split: fetch_result.splits if_splits)

definition one_click :: "ext_net \<Rightarrow> intent_body \<Rightarrow> nat \<Rightarrow> ext_request list \<Rightarrow> bool" where
  "one_click N body n rs \<longleftrightarrow>
     list_all (\<lambda>r. r = PostSession \<or> (\<exists>t. r = PostIntent t (intent_json body))) rs
   \<and> (posts rs \<le> 1
      \<or> posts rs = 2 \<and> (\<exists>k v. k < length rs \<and> is_post (rs ! k) \<and> xn_fetch N (n + k) (rs ! k) = Answered 401 v \<and> PostSession \<in> set (drop (Suc k) rs)))"

definition click_result :: "ext_net \<Rightarrow> intent_body \<Rightarrow> nat \<Rightarrow> ext_request list \<Rightarrow> intent_failure + json \<Rightarrow> bool" where
  "click_result N body n rs res =
     (case res of
        Inl _ \<Rightarrow> True
      | Inr response \<Rightarrow>
          (\<exists>code v. rs \<noteq> [] \<and> is_post (last rs) \<and> xn_fetch N (n + length rs - 1) (last rs) = Answered code v \<and> is_ok code
             \<and> body_of v = response \<and> is_text (jprop response ''token'')
             \<and> (if ib_paymentMethod body = Some BankTransferMethod then bank_answer_bound body response else True)))"

lemma click_result_finish:
  "click_result N body n (rs @ [PostIntent t j]) (finish_intent body (xn_fetch N (n + length rs) (PostIntent t j)))"
proof (cases "finish_intent body (xn_fetch N (n + length rs) (PostIntent t j))")
  case (Inr response)
  then show ?thesis by (elim finish_intent_ok) (auto simp: click_result_def is_post_def finish_intent_def judge_intent_def)
qed (simp add: click_result_def)

lemma postIntent_requests:
  "\<exists>rs. xs_requests (snd (postIntent N body s)) = xs_requests s @ rs \<and> one_click N body (length (xs_requests s)) rs
     \<and> click_result N body (length (xs_requests s)) rs (fst (postIntent N body s))"
proof -
  let ?n = "length (xs_requests s)"
  obtain r1 s1 where f1: "fetchSessionToken N s = (r1, s1)" by (cases "fetchSessionToken N s")
  obtain p where p: "xs_requests s1 = xs_requests s @ p" "p \<in> {[], [PostSession]}"
    using fetchSessionToken_requests [of N s] by (auto simp: f1)
  show ?thesis
  proof (cases r1)
    case (Inl e)
    with p f1 show ?thesis by (intro exI [of _ p]) (auto simp: postIntent_def one_click_def click_result_def)
  next
    case (Inr t1)
    let ?q1 = "PostIntent t1 (intent_json body)"
    let ?a1 = "xn_fetch N (?n + length p) ?q1"
    show ?thesis
    proof (cases "\<exists>v. ?a1 = Answered 401 v")
      case False
      then have "postIntent N body s = (finish_intent body ?a1, s1\<lparr> xs_requests := xs_requests s @ p @ [?q1] \<rparr>)"
        using f1 Inr p by (auto simp: postIntent_def fetchWithTimeout_def split: fetch_result.splits)
      with p click_result_finish [of N body ?n p t1 "intent_json body"] show ?thesis
        by (intro exI [of _ "p @ [?q1]"]) (auto simp: one_click_def)
    next
      case True
      then obtain v where v: "?a1 = Answered 401 v" by blast
      let ?s2 = "resetSessionCache (s1\<lparr> xs_requests := xs_requests s @ p @ [?q1] \<rparr>)"
      obtain r2 s3 where f2: "fetchSessionToken N ?s2 = (r2, s3)" by (cases "fetchSessionToken N ?s2")
      have s3: "xs_requests s3 = xs_requests s @ p @ [?q1, PostSession]"
        using fetchSessionToken_renews [of ?s2 N] unfolding f2 by (simp add: resetSessionCache_def)
      let ?k = "length p"
      show ?thesis
      proof (cases r2)
        case (Inl e)
        then have "postIntent N body s = (Inl \<lparr> if_status = None, if_error = e \<rparr>, s3)"
          using f1 Inr p v f2 by (simp add: postIntent_def fetchWithTimeout_def)
        with p s3 show ?thesis by (intro exI [of _ "p @ [?q1, PostSession]"]) (auto simp: one_click_def click_result_def)
      next
        case r2: (Inr t2)
        let ?rs = "p @ [?q1, PostSession]"
        let ?q2 = "PostIntent t2 (intent_json body)"
        have "postIntent N body s = (finish_intent body (xn_fetch N (?n + length ?rs) ?q2), s3\<lparr> xs_requests := xs_requests s @ ?rs @ [?q2] \<rparr>)"
          using f1 Inr p v f2 r2 s3 by (simp add: postIntent_def fetchWithTimeout_def)
        moreover have "is_post ((?rs @ [?q2]) ! ?k)" "(?rs @ [?q2]) ! ?k = ?q1" "PostSession \<in> set (drop (Suc ?k) (?rs @ [?q2]))"
          by (simp_all add: is_post_def nth_append)
        moreover have "posts (?rs @ [?q2]) = 2" using p(2) by auto
        ultimately show ?thesis
          using p(2) v click_result_finish [of N body ?n ?rs t2 "intent_json body"]
          by (intro exI [of _ "?rs @ [?q2]"]) (auto simp: one_click_def intro!: exI [of _ ?k])
      qed
    qed
  qed
qed


section \<open>The forms the worker opened\<close>

definition form_step :: "(nat \<times> nat) list \<Rightarrow> tab_act \<Rightarrow> (nat \<times> nat) list" where
  "form_step open_now a =
     (case a of
        FormOpened (Some t) (Some f) \<Rightarrow> (t, f) # open_now
      | FormClosed f \<Rightarrow> filter (\<lambda>p. snd p \<noteq> f) open_now
      | _ \<Rightarrow> open_now)"

definition forms_open :: "tab_act list \<Rightarrow> (nat \<times> nat) list" where
  "forms_open as = foldl form_step [] as"

definition forms_inv :: "worker_state \<Rightarrow> bool" where
  "forms_inv s \<longleftrightarrow>
     distinct (map fst (forms_open (bs_tabs s)))
   \<and> (\<forall>p \<in> set (forms_open (bs_tabs s)). map_of (bs_formTabByStorefront s) (fst p) = Some (snd p))
   \<and> (\<forall>t f. map_of (bs_formTabByStorefront s) t = Some f \<longrightarrow> FormOpened (Some t) (Some f) \<in> set (bs_tabs s))"

definition closed_by :: "tab_act list \<Rightarrow> nat set" where
  "closed_by as = {f. FormClosed f \<in> set as}"

definition forms_of_tab :: "worker_state \<Rightarrow> nat option \<Rightarrow> nat set" where
  "forms_of_tab s storefrontTabId = {f. \<exists>t. storefrontTabId = Some t \<and> FormOpened (Some t) (Some f) \<in> set (bs_tabs s)}"

lemma forms_open_snoc: "forms_open (as @ [a]) = form_step (forms_open as) a"
  by (simp add: forms_open_def)

lemma close_stale_inv:
  assumes "forms_inv s"
  shows "forms_inv (close_stale_form t s)"
    and "case t of None \<Rightarrow> True | Some n \<Rightarrow> n \<notin> fst ` set (forms_open (bs_tabs (close_stale_form t s)))"
    and "\<exists>as. bs_tabs (close_stale_form t s) = bs_tabs s @ as \<and> closed_by as \<subseteq> forms_of_tab s t"
  using assms
  by (auto simp: forms_inv_def close_stale_form_def forms_open_snoc form_step_def delete_conv' closed_by_def forms_of_tab_def
      intro: distinct_map_filter split: option.splits)

lemma open_form_inv:
  assumes "forms_inv s"
  shows "forms_inv (snd (open_form W t r s))"
    and "\<exists>as. bs_tabs (snd (open_form W t r s)) = bs_tabs s @ as \<and> closed_by as \<subseteq> forms_of_tab s t"
proof -
  let ?s = "close_stale_form t s"
  note inv = close_stale_inv [OF assms, of t]
  obtain as where as: "bs_tabs ?s = bs_tabs s @ as" "closed_by as \<subseteq> forms_of_tab s t" using inv(3) by blast
  show "forms_inv (snd (open_form W t r s))"
    using inv(1,2)
    by (cases "bw_tab W (tabs_created ?s)"; cases t)
      (auto simp: open_form_def Let_def forms_inv_def forms_open_snoc form_step_def update_conv' split: option.splits)
  show "\<exists>as. bs_tabs (snd (open_form W t r s)) = bs_tabs s @ as \<and> closed_by as \<subseteq> forms_of_tab s t"
    using as
    by (cases "bw_tab W (tabs_created ?s)"; cases t)
      (auto simp: open_form_def Let_def closed_by_def split: option.splits)
qed

lemma onMessage_inv:
  assumes "forms_inv s"
  shows "forms_inv (snd (onMessage W sender msg s))"
    and "\<exists>as. bs_tabs (snd (onMessage W sender msg s)) = bs_tabs s @ as \<and> closed_by as \<subseteq> forms_of_tab s (sd_tab sender)"
proof -
  have same: "forms_inv (s\<lparr> bs_ext := e \<rparr>)" "bs_tabs (s\<lparr> bs_ext := e \<rparr>) = bs_tabs s" "forms_of_tab (s\<lparr> bs_ext := e \<rparr>) t = forms_of_tab s t" for e t
    using assms by (simp_all add: forms_inv_def forms_of_tab_def)
  note of = open_form_inv [OF same(1), unfolded same]
  show "forms_inv (snd (onMessage W sender msg s))"
    using assms same(1) of(1)
    by (auto simp: onMessage_def on_ext_def on_intent_def Let_def split: worker_message.splits option.splits prod.splits sum.splits)
  show "\<exists>as. bs_tabs (snd (onMessage W sender msg s)) = bs_tabs s @ as \<and> closed_by as \<subseteq> forms_of_tab s (sd_tab sender)"
    using of(2)
    by (auto simp: onMessage_def on_ext_def on_intent_def Let_def closed_by_def split: worker_message.splits option.splits prod.splits sum.splits)
qed

lemma on_messages_inv: "forms_inv s \<Longrightarrow> forms_inv (on_messages W ms s)"
  by (induction ms arbitrary: s) (simp_all add: onMessage_inv)

lemma on_messages_append: "on_messages W (ms @ ms') s = on_messages W ms' (on_messages W ms s)"
  by (induction ms arbitrary: s) simp_all

lemma worker_start_inv: "forms_inv worker_start"
  by (simp add: forms_inv_def worker_start_def forms_open_def)

text \<open>After any messages, of the card forms the worker opened for one storefront tab at most one has not been closed again,
  and handling a message closes no form but one that was opened for the tab the message came from.\<close>

lemma one_card_form_per_storefront:
  "let s = on_messages W ms worker_start; s' = snd (onMessage W sender msg s) in
     length (filter (\<lambda>p. fst p = t) (forms_open (bs_tabs s'))) \<le> 1
   \<and> (\<exists>as. bs_tabs s' = bs_tabs s @ as \<and> closed_by as \<subseteq> forms_of_tab s (sd_tab sender))"
proof -
  have inv: "forms_inv (on_messages W ms worker_start)" by (intro on_messages_inv worker_start_inv)
  have one: "length (filter (\<lambda>p. fst p = t) ps) \<le> 1" if "distinct (map fst ps)" for ps :: "(nat \<times> nat) list"
    using that by (induction ps) (auto simp: filter_empty_conv image_iff)
  show ?thesis using onMessage_inv [OF inv] one by (simp add: Let_def forms_inv_def)
qed

end
