(* ===== verification/Extension_Content.thy ===== *)
theory Extension_Content
  imports Extension_Http
begin

text \<open>
  The content script in the shop's page, \<^verbatim>\<open>app/extension/src/content.ts\<close>, with the buttons of \<^verbatim>\<open>lib/banner.ts\<close>. Its module
  variables are a record, a banner and a poll are entries of lists that only grow (a callback keeps the banner and the poll
  it was created with), and every callback that waits for an answer is an entry of \<open>ct_pending\<close>. An \<open>page_event\<close> is a
  scan of the page, an action of the buyer, a timer, or the answer to a pending callback; they come in any order. The texts
  shown are left out, what was sent is kept in \<open>ct_out\<close>.

  \<^verbatim>\<open>Content_Lifecycle\<close> proves what this guarantees.
\<close>

section \<open>The banner, banner.ts\<close>

datatype bank_slot = SlotEmpty | SlotDemo | SlotBank json

record banner =
  bn_detection :: detection
  bn_disabled :: bool
  bn_retryMode :: bool
  bn_hidden :: bool
  bn_method :: payment_method
  bn_methodDisabled :: bool
  bn_status :: "copy_kind option"
  bn_bank :: bank_slot
  bn_approx :: "ustring option"

definition showBanner :: "detection \<Rightarrow> banner" where
  "showBanner d = \<lparr> bn_detection = d, bn_disabled = False, bn_retryMode = False, bn_hidden = False, bn_method = Card,
     bn_methodDisabled = False, bn_status = None, bn_bank = SlotEmpty, bn_approx = None \<rparr>"

definition setBusy :: "bool \<Rightarrow> banner \<Rightarrow> banner" where
  "setBusy busy b = b\<lparr> bn_retryMode := False, bn_disabled := busy, bn_methodDisabled := busy \<rparr>"

definition setStatus :: "copy_kind \<Rightarrow> banner \<Rightarrow> banner" where
  "setStatus k b = b\<lparr> bn_status := Some k \<rparr>"

definition setRetry :: "banner \<Rightarrow> banner" where
  "setRetry b = b\<lparr> bn_retryMode := True, bn_disabled := False \<rparr>"

definition hidePay :: "banner \<Rightarrow> banner" where
  "hidePay b = b\<lparr> bn_retryMode := False, bn_hidden := True \<rparr>"

definition setApproxTry :: "ustring option \<Rightarrow> banner \<Rightarrow> banner" where
  "setApproxTry text_try b = b\<lparr> bn_approx := (case text_try of Some t \<Rightarrow> if length t = 0 then None else Some t | None \<Rightarrow> None) \<rparr>"

definition showBankTransfer :: "bank_slot \<Rightarrow> banner \<Rightarrow> banner" where
  "showBankTransfer slot b = b\<lparr> bn_bank := slot \<rparr>"

section \<open>The state of the script\<close>

definition PENDING_MAX_POLLS :: nat where "PENDING_MAX_POLLS = 400"
definition CONFIRM_MAX_POLLS :: nat where "CONFIRM_MAX_POLLS = 80"

record content_env =
  cc_decode :: "ustring \<Rightarrow> ustring"
  cc_issuers :: "ustring list"
  cc_nfc :: "ustring \<Rightarrow> ustring"
  cc_sha256 :: "byte list \<Rightarrow> byte list"
  cc_demo :: bool

record poller =
  po_orderId :: ustring
  po_handle :: nat
  po_amount :: ustring
  po_method :: payment_method
  po_polls :: nat
  po_sawProcessing :: bool

text \<open>A callback that waits: the body being derived, and the answers of the worker.\<close>

datatype pending =
    BuildPending nat detection payment_method
  | IntentPending nat detection payment_method
  | StatusPending nat
  | ReceiptPending ustring ustring
  | QuotePending nat nat

datatype answer =
    NoAnswer
  | IntentAnswer "intent_failure + json"
  | StatusAnswer "ustring + ustring"
  | ReceiptAnswer "ustring + ustring option \<times> ustring option"
  | QuoteAnswer "ustring + ustring \<times> spread"

text \<open>What the script sent; the banner of an intent and the poll of a status request are named too.\<close>

datatype sent =
    SentIntent nat intent_body
  | SentStatus nat
  | SentReceipt ustring
  | SentQuote int payment_method
  | PostedPaid ustring ustring "ustring option" "ustring option"
  | PostedRetry ustring

record content_state =
  ct_currentUri :: "ustring option"
  ct_handle :: "nat option"
  ct_banners :: "banner list"
  ct_pollTimer :: "nat option"
  ct_pollers :: "poller list"
  ct_inFlight :: bool
  ct_lastPaymentMethod :: payment_method
  ct_pendingRetry :: bool
  ct_retryTimer :: bool
  ct_lastDetection :: "detection option"
  ct_lastQuote :: "ustring option"
  ct_quoteRequestId :: nat
  ct_pending :: "pending list"
  ct_out :: "sent list"

definition content_start :: content_state where
  "content_start = \<lparr> ct_currentUri = None, ct_handle = None, ct_banners = [], ct_pollTimer = None, ct_pollers = [], ct_inFlight = False,
     ct_lastPaymentMethod = Card, ct_pendingRetry = False, ct_retryTimer = False, ct_lastDetection = None, ct_lastQuote = None,
     ct_quoteRequestId = 0, ct_pending = [], ct_out = [] \<rparr>"

definition on_banner :: "nat \<Rightarrow> (banner \<Rightarrow> banner) \<Rightarrow> content_state \<Rightarrow> content_state" where
  "on_banner h f s = s\<lparr> ct_banners := (ct_banners s)[h := f (ct_banners s ! h)] \<rparr>"

text \<open>\<open>handle?.m()\<close>.\<close>

definition on_handle :: "(banner \<Rightarrow> banner) \<Rightarrow> content_state \<Rightarrow> content_state" where
  "on_handle f s = (case ct_handle s of None \<Rightarrow> s | Some h \<Rightarrow> on_banner h f s)"

text \<open>\<open>sendMessage\<close> with its callback, or a promise with its continuation.\<close>

definition await :: "pending \<Rightarrow> content_state \<Rightarrow> content_state" where
  "await p s = s\<lparr> ct_pending := ct_pending s @ [p] \<rparr>"

definition emit :: "sent \<Rightarrow> content_state \<Rightarrow> content_state" where
  "emit a s = s\<lparr> ct_out := ct_out s @ [a] \<rparr>"

definition clearPendingRetry :: "content_state \<Rightarrow> content_state" where
  "clearPendingRetry s = s\<lparr> ct_pendingRetry := False, ct_retryTimer := False \<rparr>"

definition stopPolling :: "content_state \<Rightarrow> content_state" where
  "stopPolling s = s\<lparr> ct_pollTimer := None \<rparr>"

definition clearBanner :: "content_state \<Rightarrow> content_state" where
  "clearBanner s = (stopPolling s)\<lparr> ct_inFlight := False, ct_handle := None \<rparr>"

section \<open>Polling\<close>

definition startPolling :: "ustring \<Rightarrow> nat \<Rightarrow> ustring \<Rightarrow> payment_method \<Rightarrow> content_state \<Rightarrow> content_state" where
  "startPolling orderId h amount m s =
     (stopPolling s)\<lparr> ct_pollers := ct_pollers s @ [\<lparr> po_orderId = orderId, po_handle = h, po_amount = amount, po_method = m,
        po_polls = 0, po_sawProcessing = False \<rparr>], ct_pollTimer := Some (length (ct_pollers s)) \<rparr>"

definition poll_cap :: "poller \<Rightarrow> nat" where
  "poll_cap po = (if po_sawProcessing po then CONFIRM_MAX_POLLS else PENDING_MAX_POLLS)"

definition poll_tick :: "content_state \<Rightarrow> content_state" where
  "poll_tick s =
     (case ct_pollTimer s of
        None \<Rightarrow> s
      | Some p \<Rightarrow>
          let po = ct_pollers s ! p in
          if ct_handle s \<noteq> Some (po_handle po) then stopPolling s
          else
            let s = s\<lparr> ct_pollers := (ct_pollers s)[p := po\<lparr> po_polls := Suc (po_polls po) \<rparr>] \<rparr> in
            if Suc (po_polls po) > poll_cap po
            then stopPolling (on_banner (po_handle po) (\<lambda>b. hidePay (setStatus (if po_sawProcessing po then CopyInfo else CopyError) b)) s)
            else await (StatusPending p) (emit (SentStatus p) s))"

definition status_of_text :: "ustring \<Rightarrow> public_status option" where
  "status_of_text u =
     (if u = lit ''pending'' then Some PubPending
      else if u = lit ''processing'' then Some PubProcessing
      else if u = lit ''completed'' then Some PubCompleted
      else if u = lit ''failed'' then Some PubFailed
      else if u = lit ''review'' then Some PubReview
      else None)"

text \<open>What a status does to the banner; \<open>saw\<close> is the poll's \<open>sawProcessing\<close> after this answer.\<close>

definition show_status :: "public_status \<Rightarrow> bool \<Rightarrow> banner \<Rightarrow> banner" where
  "show_status st saw b =
     (case st of
        PubFailed \<Rightarrow> if \<not> saw then setRetry (setStatus (fst (statusCopy st)) b) else hidePay (setStatus CopyError b)
      | PubReview \<Rightarrow> hidePay (setStatus CopyInfo b)
      | _ \<Rightarrow> (if snd (statusCopy st) then hidePay else (\<lambda>b. b)) (setStatus (fst (statusCopy st)) b))"

text \<open>An unknown status throws at \<open>copy.kind\<close>, after the test for \<^verbatim>\<open>processing\<close>.\<close>

definition on_status :: "nat \<Rightarrow> answer \<Rightarrow> content_state \<Rightarrow> content_state" where
  "on_status p a s =
     (case a of
        StatusAnswer (Inr t) \<Rightarrow>
          (case status_of_text t of
             None \<Rightarrow> s
           | Some st \<Rightarrow>
               let po = ct_pollers s ! p;
                   first = (st = PubProcessing \<and> \<not> po_sawProcessing po);
                   po = (if first then po\<lparr> po_sawProcessing := True, po_polls := 0 \<rparr> else po);
                   s = s\<lparr> ct_pollers := (ct_pollers s)[p := po] \<rparr>;
                   s = on_banner (po_handle po) (show_status st (po_sawProcessing po)) s;
                   s = (if st = PubCompleted
                        then await (ReceiptPending (po_orderId po) (po_amount po)) (emit (SentReceipt (po_orderId po)) s) else s);
                   terminal = snd (statusCopy st);
                   s = (if terminal \<and> po_method po = BankTransferMethod then on_banner (po_handle po) (showBankTransfer SlotEmpty) s else s)
               in if terminal then stopPolling s else s)
      | _ \<Rightarrow> s)"

definition on_receipt :: "ustring \<Rightarrow> ustring \<Rightarrow> answer \<Rightarrow> content_state \<Rightarrow> content_state" where
  "on_receipt orderId amount a s =
     (case a of
        ReceiptAnswer (Inr (txHash, paidPriceTry)) \<Rightarrow> emit (PostedPaid orderId amount txHash paidPriceTry) s
      | _ \<Rightarrow> emit (PostedPaid orderId amount None None) s)"

section \<open>Paying\<close>

text \<open>\<open>demoBank\<close> is set exactly when the demonstration build is on.\<close>

definition pay :: "content_env \<Rightarrow> detection \<Rightarrow> payment_method \<Rightarrow> content_state \<Rightarrow> content_state" where
  "pay C d m s =
     (case ct_handle s of
        None \<Rightarrow> s
      | Some h \<Rightarrow>
          if ct_inFlight s then s
          else if m = BankTransferMethod \<and> cc_demo C
          then on_banner h (\<lambda>b. setStatus CopyInfo (showBankTransfer SlotDemo b)) s
          else await (BuildPending h d m) (on_banner h (setBusy True) (s\<lparr> ct_inFlight := True, ct_lastPaymentMethod := m \<rparr>)))"

definition fail :: "nat \<Rightarrow> content_state \<Rightarrow> content_state" where
  "fail h s = on_banner h (\<lambda>b. setStatus CopyError (setBusy False b)) (s\<lparr> ct_inFlight := False \<rparr>)"

definition on_built :: "content_env \<Rightarrow> nat \<Rightarrow> detection \<Rightarrow> payment_method \<Rightarrow> content_state \<Rightarrow> content_state" where
  "on_built C h d m s =
     (case buildIntentBody (cc_nfc C) (cc_sha256 C) d of
        Inl _ \<Rightarrow> fail h s
      | Inr body \<Rightarrow> await (IntentPending h d m) (emit (SentIntent h (body\<lparr> ib_paymentMethod := Some m \<rparr>)) s))"

definition ui_copy :: "ui_kind \<Rightarrow> copy_kind" where
  "ui_copy k = (if k = UiError then CopyError else CopyInfo)"

definition on_intent_answer :: "nat \<Rightarrow> detection \<Rightarrow> payment_method \<Rightarrow> answer \<Rightarrow> content_state \<Rightarrow> content_state" where
  "on_intent_answer h d m a s =
     (case a of
        IntentAnswer (Inr response) \<Rightarrow>
          let action = intentUiAction response;
              s = (case jprop response ''bankTransfer'' of
                     None \<Rightarrow> s
                   | Some JNull \<Rightarrow> on_banner h (showBankTransfer SlotEmpty) s
                   | Some j \<Rightarrow> on_banner h (showBankTransfer (SlotBank j)) s);
              s = on_banner h (setStatus (ui_copy (fst action))) s
          in if snd action then startPolling (case text_prop response ''orderId'' of Some u \<Rightarrow> u | None \<Rightarrow> []) h (sp_amount (dt_sep7 d)) m s
             else on_banner h (setBusy False) (s\<lparr> ct_inFlight := False \<rparr>)
      | _ \<Rightarrow> fail h s)"

definition requestRetry :: "ustring \<Rightarrow> content_state \<Rightarrow> content_state" where
  "requestRetry orderId s =
     (case ct_handle s of
        None \<Rightarrow> s
      | Some h \<Rightarrow>
          if ct_pendingRetry s then s
          else emit (PostedRetry orderId)
                 (on_banner h (\<lambda>b. setStatus CopyInfo (setBusy True b)) (s\<lparr> ct_pendingRetry := True, ct_retryTimer := True \<rparr>)))"

definition retry_timeout :: "content_state \<Rightarrow> content_state" where
  "retry_timeout s =
     (if \<not> ct_retryTimer s then s
      else
        let s = s\<lparr> ct_retryTimer := False \<rparr> in
        if \<not> ct_pendingRetry s then s
        else on_handle (\<lambda>b. setRetry (setStatus CopyError b)) (s\<lparr> ct_pendingRetry := False \<rparr>))"

section \<open>The price preview\<close>

definition requestQuote :: "detection \<Rightarrow> nat \<Rightarrow> payment_method \<Rightarrow> content_state \<Rightarrow> content_state" where
  "requestQuote d h m s =
     (case toStroops (sp_amount (dt_sep7 d)) of
        None \<Rightarrow> s
      | Some stroops \<Rightarrow>
          let requestId = Suc (ct_quoteRequestId s) in
          await (QuotePending h requestId) (emit (SentQuote stroops m) (s\<lparr> ct_quoteRequestId := requestId \<rparr>)))"

definition on_quote :: "nat \<Rightarrow> nat \<Rightarrow> answer \<Rightarrow> content_state \<Rightarrow> content_state" where
  "on_quote h requestId a s =
     (if ct_handle s \<noteq> Some h \<or> requestId \<noteq> ct_quoteRequestId s then s
      else (case a of
        QuoteAnswer (Inr (paidPriceTry, _)) \<Rightarrow>
          let q = formatApproxTry paidPriceTry in on_banner h (setApproxTry (Some q)) (s\<lparr> ct_lastQuote := Some q \<rparr>)
      | _ \<Rightarrow> s))"

section \<open>Scanning the page\<close>

definition forget :: "content_state \<Rightarrow> content_state" where
  "forget s = clearBanner (clearPendingRetry (s\<lparr> ct_lastDetection := None, ct_lastQuote := None \<rparr>))"

definition offer :: "content_env \<Rightarrow> detection \<Rightarrow> content_state \<Rightarrow> content_state" where
  "offer C d s =
     (let s = clearBanner (s\<lparr> ct_lastDetection := Some d, ct_lastQuote := None \<rparr>);
          h = length (ct_banners s);
          s = requestQuote d h Card (s\<lparr> ct_banners := ct_banners s @ [showBanner d], ct_handle := Some h \<rparr>)
      in if ct_pendingRetry s then pay C d (ct_lastPaymentMethod s) (clearPendingRetry s) else s)"

definition scan :: "content_env \<Rightarrow> ustring option \<Rightarrow> content_state \<Rightarrow> content_state" where
  "scan C uri s =
     (if uri = ct_currentUri s then s
      else
        let s = s\<lparr> ct_currentUri := uri \<rparr> in
        (case Option.bind uri (evaluate (cc_decode C) (cc_issuers C)) of
           Some d \<Rightarrow> if dt_payable d then offer C d s else forget s
         | None \<Rightarrow> forget s))"

section \<open>The buyer\<close>

definition memo_or_empty :: "detection \<Rightarrow> ustring" where
  "memo_or_empty d = (case sp_memo (dt_sep7 d) of None \<Rightarrow> [] | Some m \<Rightarrow> m)"

definition click_pay :: "content_env \<Rightarrow> content_state \<Rightarrow> content_state" where
  "click_pay C s =
     (case ct_handle s of
        None \<Rightarrow> s
      | Some h \<Rightarrow>
          let b = ct_banners s ! h in
          if bn_hidden b \<or> bn_disabled b then s
          else if bn_retryMode b then requestRetry (memo_or_empty (bn_detection b)) s
          else pay C (bn_detection b) (bn_method b) s)"

definition choose_method :: "content_env \<Rightarrow> payment_method \<Rightarrow> content_state \<Rightarrow> content_state" where
  "choose_method C m s =
     (case ct_handle s of
        None \<Rightarrow> s
      | Some h \<Rightarrow>
          let b = ct_banners s ! h in
          if bn_hidden b \<or> bn_methodDisabled b \<or> bn_method b = m then s
          else
            let s = on_banner h (\<lambda>b. setApproxTry None (b\<lparr> bn_method := m \<rparr>)) (s\<lparr> ct_lastQuote := None \<rparr>) in
            if cc_demo C \<and> m = BankTransferMethod then on_banner h (\<lambda>b. setStatus CopyInfo (showBankTransfer SlotDemo b)) s
            else requestQuote (bn_detection b) h m (on_banner h (showBankTransfer SlotEmpty) s))"

definition click_close :: "content_state \<Rightarrow> content_state" where
  "click_close s =
     (case ct_handle s of
        None \<Rightarrow> s
      | Some _ \<Rightarrow> (clearPendingRetry ((stopPolling s)\<lparr> ct_inFlight := False \<rparr>))\<lparr> ct_handle := None \<rparr>)"

section \<open>Events\<close>

datatype page_event =
    Scan "ustring option"
  | ClickPay
  | ChooseMethod payment_method
  | ClickClose
  | PollTick
  | RetryTimeout
  | Answer nat answer

definition on_answer :: "content_env \<Rightarrow> pending \<Rightarrow> answer \<Rightarrow> content_state \<Rightarrow> content_state" where
  "on_answer C p a s =
     (case p of
        BuildPending h d m \<Rightarrow> on_built C h d m s
      | IntentPending h d m \<Rightarrow> on_intent_answer h d m a s
      | StatusPending k \<Rightarrow> on_status k a s
      | ReceiptPending orderId amount \<Rightarrow> on_receipt orderId amount a s
      | QuotePending h requestId \<Rightarrow> on_quote h requestId a s)"

definition content_step :: "content_env \<Rightarrow> page_event \<Rightarrow> content_state \<Rightarrow> content_state" where
  "content_step C e s =
     (case e of
        Scan uri \<Rightarrow> scan C uri s
      | ClickPay \<Rightarrow> click_pay C s
      | ChooseMethod m \<Rightarrow> choose_method C m s
      | ClickClose \<Rightarrow> click_close s
      | PollTick \<Rightarrow> poll_tick s
      | RetryTimeout \<Rightarrow> retry_timeout s
      | Answer i a \<Rightarrow>
          if i < length (ct_pending s)
          then on_answer C (ct_pending s ! i) a (s\<lparr> ct_pending := take i (ct_pending s) @ drop (Suc i) (ct_pending s) \<rparr>)
          else s)"

fun content_run :: "content_env \<Rightarrow> page_event list \<Rightarrow> content_state \<Rightarrow> content_state" where
  "content_run C [] s = s"
| "content_run C (e # es) s = content_run C es (content_step C e s)"

text \<open>The popup's question, answered from \<open>lastDetection\<close>: amount, asset code, destination, order and preview.\<close>

definition popup_state :: "content_state \<Rightarrow> (ustring \<times> ustring \<times> ustring \<times> ustring \<times> ustring option) option" where
  "popup_state s =
     (case ct_lastDetection s of
        None \<Rightarrow> None
      | Some d \<Rightarrow>
          if dt_payable d
          then Some (sp_amount (dt_sep7 d), (case sp_assetCode (dt_sep7 d) of Some c \<Rightarrow> c | None \<Rightarrow> lit ''USDC''),
                 sp_destination (dt_sep7 d), memo_or_empty d, ct_lastQuote s)
          else None)"

end
