(* ===== verification/Content_Lifecycle.thy ===== *)
theory Content_Lifecycle
  imports Extension_Content
begin

text \<open>
  What the content script (\<^verbatim>\<open>app/extension/src/content.ts\<close>) guarantees for any sequence of events: a banner has at most one
  payment under way and none after its order was accepted, a poll's requests are bounded, and the shop's page is told of a
  payment only after the server's \<^verbatim>\<open>completed\<close>. Two runs at the end show races between late answers.
\<close>

section \<open>One payment per banner\<close>

definition payment_of :: "pending \<Rightarrow> nat option" where
  "payment_of p = (case p of BuildPending h _ _ \<Rightarrow> Some h | IntentPending h _ _ \<Rightarrow> Some h | _ \<Rightarrow> None)"

definition under_way :: "nat \<Rightarrow> content_state \<Rightarrow> nat" where
  "under_way h s = length (filter (\<lambda>p. payment_of p = Some h) (ct_pending s))"

text \<open>The order of this banner was accepted, and a poll of it was started.\<close>

definition has_form :: "nat \<Rightarrow> content_state \<Rightarrow> bool" where
  "has_form h s \<longleftrightarrow> h \<in> po_handle ` set (ct_pollers s)"

definition payable_banner :: "banner \<Rightarrow> bool" where
  "payable_banner b \<longleftrightarrow> \<not> bn_hidden b \<and> \<not> bn_disabled b \<and> \<not> bn_retryMode b"

definition can_pay :: "nat \<Rightarrow> content_state \<Rightarrow> bool" where
  "can_pay h s \<longleftrightarrow> payable_banner (ct_banners s ! h)"

definition refs_ok :: "content_state \<Rightarrow> bool" where
  "refs_ok s \<longleftrightarrow>
     (\<forall>h. ct_handle s = Some h \<longrightarrow> h < length (ct_banners s))
   \<and> (\<forall>h. has_form h s \<longrightarrow> h < length (ct_banners s))
   \<and> (\<forall>k. ct_pollTimer s = Some k \<longrightarrow> k < length (ct_pollers s))
   \<and> (\<forall>k. StatusPending k \<in> set (ct_pending s) \<longrightarrow> k < length (ct_pollers s))
   \<and> (\<forall>p h. p \<in> set (ct_pending s) \<longrightarrow> payment_of p = Some h \<longrightarrow> h < length (ct_banners s))"

definition phase_ok :: "content_state \<Rightarrow> nat \<Rightarrow> bool" where
  "phase_ok s h \<longleftrightarrow>
     under_way h s \<le> 1
   \<and> (under_way h s = 1 \<longrightarrow> bn_disabled (ct_banners s ! h) \<and> \<not> has_form h s)
   \<and> (has_form h s \<longrightarrow> \<not> can_pay h s)
   \<and> (bn_retryMode (ct_banners s ! h) \<longrightarrow> has_form h s)"

definition content_inv :: "content_state \<Rightarrow> bool" where
  "content_inv s \<longleftrightarrow>
     refs_ok s \<and> (\<forall>h < length (ct_banners s). phase_ok s h)
   \<and> (ct_pendingRetry s \<longrightarrow> (\<exists>h. ct_handle s = Some h \<and> has_form h s))"

lemmas content_simps = on_banner_def on_handle_def await_def emit_def clearPendingRetry_def stopPolling_def clearBanner_def

definition same_flags :: "banner \<Rightarrow> banner \<Rightarrow> bool" where
  "same_flags b b' \<longleftrightarrow> bn_disabled b' = bn_disabled b \<and> bn_retryMode b' = bn_retryMode b \<and> bn_hidden b' = bn_hidden b"

text \<open>What the invariant reads of a state; the flags of a banner whose order has a form may change as long as it cannot pay.\<close>

lemma content_inv_cong:
  assumes "content_inv s" and "length (ct_banners s') = length (ct_banners s)"
    and "\<And>h. h < length (ct_banners s) \<Longrightarrow> same_flags (ct_banners s ! h) (ct_banners s' ! h) \<or> has_form h s \<and> \<not> can_pay h s'"
    and "map po_handle (ct_pollers s') = map po_handle (ct_pollers s)"
    and "filter (\<lambda>p. payment_of p \<noteq> None) (ct_pending s') = filter (\<lambda>p. payment_of p \<noteq> None) (ct_pending s)"
    and "\<And>k. StatusPending k \<in> set (ct_pending s') \<Longrightarrow> k < length (ct_pollers s)"
    and "\<And>k. ct_pollTimer s' = Some k \<Longrightarrow> k < length (ct_pollers s)"
    and "ct_handle s' = ct_handle s \<or> ct_handle s' = None"
    and "ct_pendingRetry s' \<Longrightarrow> \<exists>h. ct_handle s' = Some h \<and> has_form h s"
  shows "content_inv s'"
proof -
  have form: "has_form h s' = has_form h s" for h
    using arg_cong [OF assms(4), of set] by (simp add: has_form_def)
  have poll: "length (ct_pollers s') = length (ct_pollers s)" using arg_cong [OF assms(4), of length] by simp
  have fil: "filter (\<lambda>p. payment_of p = Some h) ps = filter (\<lambda>p. payment_of p = Some h) (filter (\<lambda>p. payment_of p \<noteq> None) ps)" for h and ps :: "pending list"
    by (auto intro!: filter_cong)
  have way: "under_way h s' = under_way h s" for h unfolding under_way_def fil [of h "ct_pending s'"] assms(5) fil [symmetric] ..
  have kept: "p \<in> set (ct_pending s)" if "p \<in> set (ct_pending s')" "payment_of p = Some h" for p h
    using that arg_cong [OF assms(5), of set] by auto
  have "refs_ok s" using assms(1) by (simp add: content_inv_def)
  then have refs: "refs_ok s'"
    using assms(6-8) unfolding refs_ok_def form poll assms(2) by (auto dest: kept)
  have "phase_ok s' h" if "h < length (ct_banners s)" for h
  proof -
    have ok: "phase_ok s h" using assms(1) that by (simp add: content_inv_def)
    from assms(3) [OF that] show ?thesis
    proof
      assume "same_flags (ct_banners s ! h) (ct_banners s' ! h)"
      with ok show ?thesis unfolding phase_ok_def can_pay_def payable_banner_def same_flags_def form way by simp
    next
      assume "has_form h s \<and> \<not> can_pay h s'"
      with ok show ?thesis unfolding phase_ok_def form way by auto
    qed
  qed
  with refs assms(2,9) form show ?thesis unfolding content_inv_def by simp
qed

lemma po_handle_kept [simp]:
  "k < length ps \<Longrightarrow> po_handle p = po_handle (ps ! k) \<Longrightarrow> map po_handle (ps[k := p]) = map po_handle ps"
  by (simp add: map_update list_update_same_conv)

lemma poller_has_form: "k < length (ct_pollers s) \<Longrightarrow> has_form (po_handle (ct_pollers s ! k)) s"
  by (simp add: has_form_def)

lemma has_form_kept [simp]:
  "has_form h (on_banner g f s) = has_form h s" "has_form h (await p s) = has_form h s" "has_form h (emit a s) = has_form h s"
  "has_form h (stopPolling s) = has_form h s" "has_form h (clearPendingRetry s) = has_form h s" "has_form h (clearBanner s) = has_form h s"
  by (simp_all add: has_form_def content_simps)

lemma content_kept [simp]:
  "length (ct_banners (on_banner g f s)) = length (ct_banners s)"
  "ct_pollers (on_banner g f s) = ct_pollers s" "ct_pollers (await p s) = ct_pollers s" "ct_pollers (emit a s) = ct_pollers s"
  "ct_pollers (stopPolling s) = ct_pollers s" "ct_handle (on_banner g f s) = ct_handle s" "ct_handle (await p s) = ct_handle s"
  "ct_handle (emit a s) = ct_handle s"
  by (simp_all add: content_simps)

lemmas content_parts = content_inv_def refs_ok_def

lemma nth_upd: "j < length xs \<Longrightarrow> xs[i := x] ! j = (if i = j then x else xs ! j)"
  by (cases "i < length xs") (auto simp: nth_list_update)

lemma on_banner_inv:
  "content_inv s \<Longrightarrow> same_flags (ct_banners s ! h) (f (ct_banners s ! h)) \<or> has_form h s \<and> \<not> payable_banner (f (ct_banners s ! h))
     \<Longrightarrow> content_inv (on_banner h f s)"
  by (rule content_inv_cong [of s]) (auto simp: on_banner_def nth_upd same_flags_def can_pay_def content_parts)

lemma await_inv:
  "content_inv s \<Longrightarrow> payment_of p = None \<Longrightarrow> (case p of StatusPending k \<Rightarrow> k < length (ct_pollers s) | _ \<Rightarrow> True) \<Longrightarrow> content_inv (await p s)"
  by (rule content_inv_cong [of s]) (auto simp: await_def same_flags_def content_parts)

lemma emit_inv: "content_inv s \<Longrightarrow> content_inv (emit a s)"
  by (rule content_inv_cong [of s]) (auto simp: emit_def same_flags_def content_parts)

lemma stopPolling_inv: "content_inv s \<Longrightarrow> content_inv (stopPolling s)"
  by (rule content_inv_cong [of s]) (auto simp: stopPolling_def same_flags_def content_parts)

lemma clearPendingRetry_inv: "content_inv s \<Longrightarrow> content_inv (clearPendingRetry s)"
  by (rule content_inv_cong [of s]) (auto simp: clearPendingRetry_def same_flags_def content_parts)

lemma set_poller_inv:
  "content_inv s \<Longrightarrow> k < length (ct_pollers s) \<Longrightarrow> po_handle p = po_handle (ct_pollers s ! k)
     \<Longrightarrow> content_inv (s\<lparr> ct_pollers := (ct_pollers s)[k := p] \<rparr>)"
  by (rule content_inv_cong [of s]) (auto simp: same_flags_def content_parts)

lemma set_other_inv:
  "content_inv s \<Longrightarrow> content_inv (s\<lparr> ct_lastQuote := q \<rparr>)" "content_inv s \<Longrightarrow> content_inv (s\<lparr> ct_quoteRequestId := n \<rparr>)"
  "content_inv s \<Longrightarrow> content_inv (s\<lparr> ct_currentUri := u \<rparr>)" "content_inv s \<Longrightarrow> content_inv (s\<lparr> ct_lastDetection := d \<rparr>)"
  "content_inv s \<Longrightarrow> content_inv (s\<lparr> ct_retryTimer := r \<rparr>)" "content_inv s \<Longrightarrow> content_inv (s\<lparr> ct_inFlight := r \<rparr>)"
  "content_inv s \<Longrightarrow> content_inv (s\<lparr> ct_pendingRetry := False \<rparr>)"
  by (rule content_inv_cong [of s]; auto simp: same_flags_def content_parts)+

lemma set_poller_has_form:
  "k < length (ct_pollers s) \<Longrightarrow> po_handle p = po_handle (ct_pollers s ! k) \<Longrightarrow> has_form h (s\<lparr> ct_pollers := (ct_pollers s)[k := p] \<rparr>) = has_form h s"
  by (simp add: has_form_def flip: set_map)

lemmas content_invs = on_banner_inv await_inv emit_inv stopPolling_inv clearPendingRetry_inv set_poller_inv set_other_inv

lemmas flag_simps = same_flags_def payable_banner_def hidePay_def setStatus_def setRetry_def showBankTransfer_def setApproxTry_def setBusy_def

lemma poll_tick_inv:
  assumes "content_inv s"
  shows "content_inv (poll_tick s)"
proof (cases "ct_pollTimer s")
  case None
  with assms show ?thesis by (simp add: poll_tick_def)
next
  case (Some k)
  with assms have k: "k < length (ct_pollers s)" by (simp add: content_parts)
  then show ?thesis
    using assms by (simp add: poll_tick_def Some Let_def content_invs poller_has_form set_poller_has_form flag_simps payment_of_def)
qed

lemma show_status_flags:
  "same_flags b (show_status st saw b) \<or> \<not> payable_banner (show_status st saw b)"
  by (cases st) (simp_all add: show_status_def flag_simps)

lemma on_status_inv:
  assumes "content_inv s" and "k < length (ct_pollers s)"
  shows "content_inv (on_status k a s)"
proof (cases "\<exists>t st. a = StatusAnswer (Inr t) \<and> status_of_text t = Some st")
  case True
  then obtain t st where t: "a = StatusAnswer (Inr t)" "status_of_text t = Some st" by blast
  show ?thesis
    using assms poller_has_form [OF assms(2)] show_status_flags
    by (simp add: t on_status_def Let_def content_invs set_poller_has_form showBankTransfer_def same_flags_def payment_of_def)
next
  case False
  then show ?thesis using assms by (auto simp: on_status_def split: answer.splits sum.splits option.splits)
qed

lemma under_way_kept [simp]:
  "under_way h (await p s) = under_way h s + (if payment_of p = Some h then 1 else 0)"
  "under_way h (on_banner g f s) = under_way h s" "under_way h (emit a s) = under_way h s"
  by (simp_all add: under_way_def content_simps)

text \<open>A change to one banner and to what is pending for it.\<close>

lemma content_inv_at:
  assumes inv: "content_inv s" and h: "h < length (ct_banners s)"
    and b: "ct_banners s' = (ct_banners s)[h := b]" and p: "ct_pollers s' = ct_pollers s" "ct_pollTimer s' = ct_pollTimer s"
    and pend: "\<And>q. q \<in> set (ct_pending s') \<Longrightarrow> q \<in> set (ct_pending s) \<or> payment_of q = Some h"
    and way: "\<And>g. g \<noteq> h \<Longrightarrow> under_way g s' = under_way g s"
    and here: "phase_ok s' h" and hd: "ct_handle s' = ct_handle s" "ct_pendingRetry s' = ct_pendingRetry s"
  shows "content_inv s'"
proof -
  have form: "has_form g s' = has_form g s" for g by (simp add: has_form_def p)
  have "refs_ok s" using inv by (simp add: content_inv_def)
  then have "refs_ok s'"
    using pend h unfolding refs_ok_def form p hd b by (fastforce simp: payment_of_def split: pending.splits)
  moreover have "phase_ok s' g" if "g < length (ct_banners s)" for g
  proof (cases "g = h")
    case False
    moreover have "phase_ok s g" using inv that by (simp add: content_inv_def)
    ultimately show ?thesis using way [OF False] that by (simp add: phase_ok_def form can_pay_def b nth_upd)
  qed (simp add: here)
  ultimately show ?thesis using inv form by (simp add: content_inv_def b hd)
qed

text \<open>A banner about to be paid, and one whose payment has just been answered.\<close>

definition free_at :: "nat \<Rightarrow> content_state \<Rightarrow> bool" where
  "free_at h s \<longleftrightarrow> h < length (ct_banners s) \<and> under_way h s = 0 \<and> \<not> has_form h s"

lemma pay_inv:
  assumes "content_inv s" and "\<And>h. ct_handle s = Some h \<Longrightarrow> free_at h s"
  shows "content_inv (pay C d m s)"
proof (cases "ct_handle s")
  case (Some h)
  with assms(2) have h: "h < length (ct_banners s)" "under_way h s = 0" "\<not> has_form h s" by (simp_all add: free_at_def)
  let ?s = "await (BuildPending h d m) (on_banner h (setBusy True) (s\<lparr> ct_inFlight := True, ct_lastPaymentMethod := m \<rparr>))"
  have "content_inv ?s"
    by (rule content_inv_at [OF assms(1) h(1), of _ "setBusy True (ct_banners s ! h)"])
      (use h in \<open>auto simp: phase_ok_def can_pay_def flag_simps nth_upd payment_of_def under_way_def has_form_def await_def on_banner_def\<close>)
  with Some assms(1) show ?thesis by (auto simp: pay_def content_invs flag_simps)
qed (use assms in \<open>simp add: pay_def\<close>)

lemma fail_inv:
  assumes "content_inv s" and "free_at h s"
  shows "content_inv (fail h s)"
  by (rule content_inv_at [OF assms(1), of h _ "setStatus CopyError (setBusy False (ct_banners s ! h))"])
    (use assms(2) in \<open>auto simp: free_at_def fail_def phase_ok_def can_pay_def flag_simps nth_upd under_way_def has_form_def on_banner_def\<close>)

lemma on_built_inv:
  assumes "content_inv s" and "free_at h s" and "bn_disabled (ct_banners s ! h)"
  shows "content_inv (on_built C h d m s)"
proof (cases "buildIntentBody (cc_nfc C) (cc_sha256 C) d")
  case (Inr body)
  have "\<not> bn_retryMode (ct_banners s ! h)" using assms(1,2) by (auto simp: content_inv_def phase_ok_def free_at_def)
  with assms(2,3) have "content_inv (await (IntentPending h d m) (emit a s))" for a
    by (intro content_inv_at [OF assms(1), of h _ "ct_banners s ! h"])
      (auto simp: free_at_def phase_ok_def can_pay_def flag_simps payment_of_def under_way_def has_form_def await_def emit_def)
  then show ?thesis by (simp add: on_built_def Inr)
qed (use assms in \<open>simp add: on_built_def fail_inv\<close>)

lemma startPolling_inv:
  assumes "content_inv s" and "free_at h s" and "\<not> payable_banner (ct_banners s ! h)"
  shows "content_inv (startPolling o' h a m s)"
proof -
  have form: "has_form g (startPolling o' h a m s) = (g = h \<or> has_form g s)" for g by (auto simp: has_form_def startPolling_def stopPolling_def)
  have way: "under_way g (startPolling o' h a m s) = under_way g s" for g by (simp add: under_way_def startPolling_def stopPolling_def)
  have kept: "ct_banners (startPolling o' h a m s) = ct_banners s" "ct_handle (startPolling o' h a m s) = ct_handle s"
    "ct_pending (startPolling o' h a m s) = ct_pending s" "ct_pendingRetry (startPolling o' h a m s) = ct_pendingRetry s"
    "length (ct_pollers (startPolling o' h a m s)) = Suc (length (ct_pollers s))"
    "ct_pollTimer (startPolling o' h a m s) = Some (length (ct_pollers s))"
    by (simp_all add: startPolling_def stopPolling_def)
  have "refs_ok s" and retry: "ct_pendingRetry s \<longrightarrow> (\<exists>h. ct_handle s = Some h \<and> has_form h s)"
    and phase: "\<And>g. g < length (ct_banners s) \<Longrightarrow> phase_ok s g" using assms(1) by (simp_all add: content_inv_def)
  from this(1) assms(2) have "refs_ok (startPolling o' h a m s)"
    unfolding refs_ok_def kept form by (auto simp: free_at_def intro: less_SucI)
  moreover have "phase_ok (startPolling o' h a m s) g" if "g < length (ct_banners s)" for g
    using phase [OF that] assms(2,3) unfolding phase_ok_def form way can_pay_def kept by (cases "g = h") (simp_all add: free_at_def)
  moreover have "ct_pendingRetry s \<longrightarrow> (\<exists>g. ct_handle s = Some g \<and> (g = h \<or> has_form g s))" using retry by blast
  ultimately show ?thesis unfolding content_inv_def kept form by simp
qed

lemma free_at_on_banner [simp]: "free_at h (on_banner g f s) = free_at h s"
  by (simp add: free_at_def)

lemma on_intent_answer_inv:
  assumes "content_inv s" and "free_at h s" and "bn_disabled (ct_banners s ! h)"
  shows "content_inv (on_intent_answer h d m a s)"
proof (cases "\<exists>response. a = IntentAnswer (Inr response)")
  case True
  then obtain response where a: "a = IntentAnswer (Inr response)" by blast
  define f where "f b = (let b = (case jprop response ''bankTransfer'' of None \<Rightarrow> b | Some JNull \<Rightarrow> showBankTransfer SlotEmpty b
      | Some j \<Rightarrow> showBankTransfer (SlotBank j) b) in setStatus (ui_copy (fst (intentUiAction response))) b)" for b
  have h: "h < length (ct_banners s)" using assms(2) by (simp add: free_at_def)
  have f: "same_flags b (f b)" for b by (simp add: f_def Let_def flag_simps split: option.split json.split)
  have s1: "content_inv (on_banner h f s)" by (rule on_banner_inv) (simp_all add: assms(1) f)
  have dis: "bn_disabled (ct_banners (on_banner h f s) ! h)" using f assms(3) h by (simp add: on_banner_def same_flags_def)
  have step: "on_banner h g (on_banner h g' s) = on_banner h (\<lambda>b. g (g' b)) s" for g g'
    using h by (simp add: on_banner_def)
  have shown: "on_banner h (setStatus (ui_copy (fst (intentUiAction response))))
      (case jprop response ''bankTransfer'' of None \<Rightarrow> s | Some JNull \<Rightarrow> on_banner h (showBankTransfer SlotEmpty) s
         | Some j \<Rightarrow> on_banner h (showBankTransfer (SlotBank j)) s) = on_banner h f s"
    unfolding f_def [abs_def] Let_def
    by (cases "jprop response ''bankTransfer''"; simp add: step split: json.split)
  have eq: "on_intent_answer h d m a s =
      (if snd (intentUiAction response)
       then startPolling (case text_prop response ''orderId'' of Some u \<Rightarrow> u | None \<Rightarrow> []) h (sp_amount (dt_sep7 d)) m (on_banner h f s)
       else on_banner h (setBusy False) ((on_banner h f s)\<lparr> ct_inFlight := False \<rparr>))"
    unfolding a on_intent_answer_def Let_def answer.case sum.case shown ..
  show ?thesis
  proof (cases "snd (intentUiAction response)")
    case True
    with s1 assms(2) dis show ?thesis by (simp add: eq startPolling_inv payable_banner_def)
  next
    case False
    have "content_inv (on_banner h (setBusy False) ((on_banner h f s)\<lparr> ct_inFlight := False \<rparr>))"
      by (rule content_inv_at [OF s1, of h _ "setBusy False (ct_banners (on_banner h f s) ! h)"])
        (use assms(2) in \<open>auto simp: free_at_def phase_ok_def can_pay_def flag_simps nth_upd under_way_def has_form_def on_banner_def\<close>)
    with False show ?thesis by (simp add: eq)
  qed
next
  case False
  then show ?thesis using assms by (auto simp: on_intent_answer_def fail_inv split: answer.splits sum.splits)
qed

lemma requestRetry_inv:
  assumes "content_inv s" and "\<And>h. ct_handle s = Some h \<Longrightarrow> has_form h s"
  shows "content_inv (requestRetry orderId s)"
proof (cases "ct_handle s")
  case (Some h)
  then have f: "has_form h s" by (rule assms(2))
  have "content_inv (s\<lparr> ct_pendingRetry := True, ct_retryTimer := True \<rparr>)"
    by (rule content_inv_cong [OF assms(1)]) (use assms(1) Some f in \<open>auto simp: same_flags_def content_parts\<close>)
  with Some f assms(1) show ?thesis by (simp add: requestRetry_def content_invs flag_simps has_form_def)
qed (use assms in \<open>simp add: requestRetry_def\<close>)

lemma retry_timeout_inv:
  assumes "content_inv s"
  shows "content_inv (retry_timeout s)"
proof (cases "ct_retryTimer s \<and> ct_pendingRetry s")
  case True
  with assms obtain h where h: "ct_handle s = Some h" "has_form h s" by (auto simp: content_inv_def)
  have "content_inv (s\<lparr> ct_retryTimer := False, ct_pendingRetry := False \<rparr>)" using assms by (intro content_invs)
  with h True show ?thesis by (simp add: retry_timeout_def on_handle_def Let_def content_invs flag_simps has_form_def)
qed (use assms in \<open>auto simp: retry_timeout_def Let_def content_invs\<close>)

lemma requestQuote_inv: "content_inv s \<Longrightarrow> content_inv (requestQuote d h m s)"
  by (simp add: requestQuote_def Let_def content_invs payment_of_def split: option.split)

lemma on_quote_inv: "content_inv s \<Longrightarrow> content_inv (on_quote h n a s)"
  by (simp add: on_quote_def Let_def content_invs flag_simps split: answer.split sum.split prod.split)

lemma on_receipt_inv: "content_inv s \<Longrightarrow> content_inv (on_receipt o' amount a s)"
  by (simp add: on_receipt_def content_invs split: answer.split sum.split prod.split)

lemma click_close_inv: "content_inv s \<Longrightarrow> content_inv (click_close s)"
  by (rule content_inv_cong [of s]) (auto simp: click_close_def content_simps same_flags_def content_parts split: option.splits)

lemma clearBanner_inv: "content_inv s \<Longrightarrow> \<not> ct_pendingRetry s \<Longrightarrow> content_inv (clearBanner s)"
  by (rule content_inv_cong [of s]) (auto simp: clearBanner_def content_simps same_flags_def content_parts split: option.splits)

lemma forget_inv: "content_inv s \<Longrightarrow> content_inv (forget s)"
  unfolding forget_def by (rule clearBanner_inv) (simp_all add: content_invs clearPendingRetry_def)

text \<open>A new banner, without a retry that still waits.\<close>

lemma new_banner_inv:
  assumes "content_inv s" and "\<not> ct_pendingRetry s"
  shows "content_inv (s\<lparr> ct_banners := ct_banners s @ [showBanner d], ct_handle := Some (length (ct_banners s)) \<rparr>)"
    and "free_at (length (ct_banners s)) (s\<lparr> ct_banners := ct_banners s @ [showBanner d], ct_handle := Some (length (ct_banners s)) \<rparr>)"
proof -
  let ?s = "s\<lparr> ct_banners := ct_banners s @ [showBanner d], ct_handle := Some (length (ct_banners s)) \<rparr>"
  have form: "has_form h ?s = has_form h s" and way: "under_way h ?s = under_way h s" for h by (simp_all add: has_form_def under_way_def)
  have refs: "refs_ok s" and phase: "\<And>g. g < length (ct_banners s) \<Longrightarrow> phase_ok s g" using assms(1) by (simp_all add: content_inv_def)
  from refs have out: "\<not> has_form (length (ct_banners s)) s" by (auto simp: refs_ok_def)
  have "p \<notin> set (ct_pending s) \<or> payment_of p \<noteq> Some (length (ct_banners s))" for p using refs by (auto simp: refs_ok_def)
  then have none: "under_way (length (ct_banners s)) s = 0" by (auto simp: under_way_def filter_empty_conv)
  from refs have "refs_ok ?s" unfolding refs_ok_def form by (auto intro: less_SucI)
  moreover have "phase_ok ?s g" if "g < Suc (length (ct_banners s))" for g
  proof (cases "g = length (ct_banners s)")
    case True
    then show ?thesis using out none unfolding phase_ok_def form way by (simp add: showBanner_def)
  next
    case False
    with that have g: "g < length (ct_banners s)" by simp
    with phase [OF g] show ?thesis unfolding phase_ok_def form way can_pay_def by (simp add: nth_append)
  qed
  ultimately show "content_inv ?s" using assms(2) by (simp add: content_inv_def)
  show "free_at (length (ct_banners s)) ?s" using out none by (simp add: free_at_def form way)
qed

lemma free_at_kept [simp]:
  "payment_of p \<noteq> Some h \<Longrightarrow> free_at h (await p s) = free_at h s" "free_at h (emit a s) = free_at h s"
  "free_at h (clearPendingRetry s) = free_at h s" "free_at h (s\<lparr> ct_quoteRequestId := n \<rparr>) = free_at h s"
  by (simp_all add: free_at_def under_way_def has_form_def content_simps)

lemma offer_inv:
  assumes "content_inv s"
  shows "content_inv (offer C d s)"
proof -
  define r where "r = ct_pendingRetry s"
  let ?h = "length (ct_banners s)"
  let ?s0 = "clearBanner (clearPendingRetry (s\<lparr> ct_lastDetection := Some d, ct_lastQuote := None \<rparr>))"
  have s0: "content_inv ?s0" by (rule clearBanner_inv) (use assms in \<open>simp_all add: content_invs clearPendingRetry_def\<close>)
  let ?s1 = "?s0\<lparr> ct_banners := ct_banners ?s0 @ [showBanner d], ct_handle := Some ?h \<rparr>"
  have s1: "content_inv ?s1" "free_at ?h ?s1"
    using new_banner_inv [OF s0, of d] by (simp_all add: content_simps)
  let ?s2 = "requestQuote d ?h Card ?s1"
  have s2: "content_inv ?s2" by (rule requestQuote_inv [OF s1(1)])
  have f2: "free_at ?h ?s2" "ct_handle ?s2 = Some ?h"
    using s1(2) by (simp_all add: requestQuote_def Let_def payment_of_def split: option.split)
  show ?thesis
  proof (cases "ct_pendingRetry s")
    case True
    have "offer C d s = pay C d (ct_lastPaymentMethod s) ?s2"
      using True by (cases s) (simp add: offer_def Let_def content_simps requestQuote_def split: option.split)
    moreover have "content_inv (pay C d (ct_lastPaymentMethod s) ?s2)" by (rule pay_inv [OF s2]) (use f2 in simp)
    ultimately show ?thesis by simp
  next
    case False
    then have "offer C d s = requestQuote d ?h Card (?s1\<lparr> ct_pendingRetry := ct_pendingRetry s, ct_retryTimer := ct_retryTimer s \<rparr>)"
      by (cases s) (simp add: offer_def Let_def content_simps requestQuote_def split: option.split)
    moreover have "content_inv (?s1\<lparr> ct_pendingRetry := ct_pendingRetry s, ct_retryTimer := ct_retryTimer s \<rparr>)"
      using s1(1) False by (simp add: set_other_inv)
    ultimately show ?thesis by (simp add: requestQuote_inv)
  qed
qed

lemma scan_inv: "content_inv s \<Longrightarrow> content_inv (scan C uri s)"
  by (simp add: scan_def Let_def set_other_inv offer_inv forget_inv split: option.split)

lemma click_pay_inv:
  assumes "content_inv s"
  shows "content_inv (click_pay C s)"
proof (cases "ct_handle s")
  case (Some h)
  let ?b = "ct_banners s ! h"
  have h: "h < length (ct_banners s)" "phase_ok s h" using assms Some by (simp_all add: content_parts)
  have retry: "content_inv (requestRetry (memo_or_empty (bn_detection ?b)) s)" if "bn_retryMode ?b"
    by (rule requestRetry_inv [OF assms]) (use that h Some in \<open>auto simp: phase_ok_def\<close>)
  have pays: "content_inv (pay C (bn_detection ?b) (bn_method ?b) s)" if "payable_banner ?b"
    by (rule pay_inv [OF assms]) (use that h Some in \<open>auto simp: phase_ok_def free_at_def can_pay_def payable_banner_def\<close>)
  show ?thesis using assms retry pays by (simp add: click_pay_def Some Let_def payable_banner_def)
qed (use assms in \<open>simp add: click_pay_def\<close>)

lemma choose_method_inv: "content_inv s \<Longrightarrow> content_inv (choose_method C m s)"
  by (simp add: choose_method_def Let_def content_invs requestQuote_inv flag_simps split: option.split)

lemma taken_pending:
  assumes "content_inv s" and "i < length (ct_pending s)"
  defines "s' \<equiv> s\<lparr> ct_pending := take i (ct_pending s) @ drop (Suc i) (ct_pending s) \<rparr>"
  shows "content_inv s'"
    and "payment_of (ct_pending s ! i) = Some h \<Longrightarrow> free_at h s' \<and> bn_disabled (ct_banners s' ! h)"
proof -
  let ?p = "ct_pending s ! i"
  have split: "ct_pending s = take i (ct_pending s) @ ?p # drop (Suc i) (ct_pending s)" using assms(2) by (rule id_take_nth_drop)
  have way: "under_way g s = under_way g s' + (if payment_of ?p = Some g then 1 else 0)" for g
    unfolding under_way_def by (subst split) (simp add: s'_def)
  have form: "has_form g s' = has_form g s" for g by (simp add: has_form_def s'_def)
  have kept: "ct_banners s' = ct_banners s" "ct_handle s' = ct_handle s" "ct_pollers s' = ct_pollers s" "ct_pollTimer s' = ct_pollTimer s"
    "ct_pendingRetry s' = ct_pendingRetry s" by (simp_all add: s'_def)
  have sub: "set (ct_pending s') \<subseteq> set (ct_pending s)" by (auto simp: s'_def dest: in_set_takeD in_set_dropD)
  have refs: "refs_ok s" and phase: "\<And>g. g < length (ct_banners s) \<Longrightarrow> phase_ok s g" using assms(1) by (simp_all add: content_inv_def)
  have "refs_ok s'" using refs sub unfolding refs_ok_def form kept by blast
  moreover have "phase_ok s' g" if "g < length (ct_banners s)" for g
    using phase [OF that] way [of g] unfolding phase_ok_def form kept can_pay_def by auto
  ultimately show "content_inv s'" using assms(1) form by (simp add: content_inv_def kept)
  show "free_at h s' \<and> bn_disabled (ct_banners s' ! h)" if "payment_of ?p = Some h"
  proof -
    have h: "h < length (ct_banners s)" using refs assms(2) that unfolding refs_ok_def by (meson nth_mem)
    show ?thesis using phase [OF h] way [of h] that h by (auto simp: phase_ok_def free_at_def form kept)
  qed
qed

lemma content_step_inv:
  assumes "content_inv s"
  shows "content_inv (content_step C e s)"
proof (cases "\<exists>i a. e = Answer i a \<and> i < length (ct_pending s)")
  case True
  then obtain i a where e: "e = Answer i a" "i < length (ct_pending s)" by blast
  let ?s = "s\<lparr> ct_pending := take i (ct_pending s) @ drop (Suc i) (ct_pending s) \<rparr>"
  note t = taken_pending [OF assms e(2)]
  have "content_inv (on_answer C (ct_pending s ! i) a ?s)"
  proof (cases "ct_pending s ! i")
    case (StatusPending k)
    have "StatusPending k \<in> set (ct_pending s)" using nth_mem [OF e(2)] StatusPending by simp
    then have "k < length (ct_pollers ?s)" using assms by (simp add: content_parts)
    then show ?thesis using t(1) by (simp add: on_answer_def StatusPending on_status_inv)
  qed (use t in \<open>simp_all add: on_answer_def payment_of_def on_built_inv on_intent_answer_inv on_receipt_inv on_quote_inv\<close>)
  then show ?thesis by (simp add: content_step_def e)
qed (use assms in \<open>auto simp: content_step_def scan_inv click_pay_inv choose_method_inv click_close_inv poll_tick_inv retry_timeout_inv
    split: page_event.split\<close>)

lemma content_run_inv: "content_inv s \<Longrightarrow> content_inv (content_run C es s)"
  by (induction es arbitrary: s) (simp_all add: content_step_inv)

lemma content_start_inv: "content_inv content_start"
  by (simp add: content_inv_def refs_ok_def content_start_def has_form_def)

section \<open>What is sent\<close>

text \<open>Previews and retries are told apart from the rest, and so are the callbacks that lead to them.\<close>

definition loud :: "sent \<Rightarrow> bool" where
  "loud a = (case a of SentQuote _ _ \<Rightarrow> False | PostedRetry _ \<Rightarrow> False | _ \<Rightarrow> True)"

definition loud_pending :: "pending \<Rightarrow> bool" where
  "loud_pending p = (case p of BuildPending _ _ _ \<Rightarrow> False | QuotePending _ _ \<Rightarrow> False | _ \<Rightarrow> True)"

definition quiet :: "content_state \<Rightarrow> content_state \<Rightarrow> bool" where
  "quiet s s' \<longleftrightarrow> filter loud (ct_out s') = filter loud (ct_out s)
     \<and> filter loud_pending (ct_pending s') = filter loud_pending (ct_pending s) \<and> ct_pollers s' = ct_pollers s"

lemma quiet_parts:
  "quiet s (on_banner h f s) = True" "quiet s (stopPolling s) = True" "quiet s (clearPendingRetry s) = True" "quiet s (clearBanner s) = True"
  by (simp_all add: quiet_def content_simps)

lemma quiet_ops:
  "quiet s (pay C d m s)" "quiet s (fail h s)" "quiet s (requestRetry o' s)" "quiet s (retry_timeout s)" "quiet s (requestQuote d h m s)"
  "quiet s (on_quote h n a s)" "quiet s (forget s)" "quiet s (click_close s)"
  by (auto simp: quiet_def pay_def fail_def requestRetry_def retry_timeout_def requestQuote_def on_quote_def forget_def click_close_def
      content_simps Let_def loud_def loud_pending_def split: option.split answer.split sum.split prod.split)

lemma quiet_trans: "quiet s s' \<Longrightarrow> quiet s' s'' \<Longrightarrow> quiet s s''"
  by (simp add: quiet_def)

lemma quiet_offer: "quiet s (offer C d s)"
  by (auto simp: offer_def requestQuote_def pay_def quiet_def content_simps Let_def loud_def loud_pending_def split: option.split)

lemma quiet_buyer: "quiet s (scan C uri s)" "quiet s (click_pay C s)" "quiet s (choose_method C m s)"
proof -
  have "quiet s (s\<lparr> ct_currentUri := uri \<rparr>)" by (simp add: quiet_def)
  then show "quiet s (scan C uri s)"
    using quiet_trans quiet_offer quiet_ops(7) by (auto simp: scan_def Let_def quiet_def split: option.split)
  show "quiet s (click_pay C s)" using quiet_ops(1,3) by (auto simp: click_pay_def Let_def quiet_def split: option.split)
  show "quiet s (choose_method C m s)"
    by (auto simp: choose_method_def requestQuote_def quiet_def content_simps Let_def loud_def loud_pending_def split: option.split)
qed

definition intents :: "nat \<Rightarrow> content_state \<Rightarrow> nat" where
  "intents h s = length (filter (\<lambda>a. case a of SentIntent g _ \<Rightarrow> g = h | _ \<Rightarrow> False) (ct_out s))"

definition asks :: "nat \<Rightarrow> content_state \<Rightarrow> nat" where
  "asks k s = length (filter (\<lambda>a. a = SentStatus k) (ct_out s))"

definition receipts :: "content_state \<Rightarrow> (ustring \<times> ustring) set" where
  "receipts s = {(o', a). ReceiptPending o' a \<in> set (ct_pending s)}"

definition paid :: "content_state \<Rightarrow> (ustring \<times> ustring) set" where
  "paid s = {(o', a). \<exists>t p. PostedPaid o' a t p \<in> set (ct_out s)}"

lemma filter_loud: "(\<And>a. P a \<Longrightarrow> loud a) \<Longrightarrow> filter P xs = filter P (filter loud xs)"
  by (auto intro: filter_cong)

lemma filter_set_iff: "P x \<Longrightarrow> x \<in> set xs \<longleftrightarrow> x \<in> set (filter P xs)"
  by simp

lemma quiet_keeps:
  assumes "quiet s s'"
  shows "intents h s' = intents h s" and "asks k s' = asks k s" and "receipts s' = receipts s" and "paid s' = paid s"
    and "has_form h s' = has_form h s" and "ct_pollers s' = ct_pollers s"
proof -
  note q = assms [unfolded quiet_def]
  have "filter (\<lambda>a. case a of SentIntent g _ \<Rightarrow> g = h | _ \<Rightarrow> False) xs = filter (\<lambda>a. case a of SentIntent g _ \<Rightarrow> g = h | _ \<Rightarrow> False) (filter loud xs)" for xs
    by (rule filter_loud) (simp add: loud_def split: sent.splits)
  with q show "intents h s' = intents h s" unfolding intents_def by metis
  have "filter (\<lambda>a. a = SentStatus k) xs = filter (\<lambda>a. a = SentStatus k) (filter loud xs)" for xs
    by (rule filter_loud) (simp add: loud_def)
  with q show "asks k s' = asks k s" unfolding asks_def by metis
  have "x \<in> set (ct_pending s') \<longleftrightarrow> x \<in> set (ct_pending s)" if "loud_pending x" for x
    using q that by (metis (no_types) filter_set_iff)
  then show "receipts s' = receipts s" by (simp add: receipts_def loud_pending_def)
  have "x \<in> set (ct_out s') \<longleftrightarrow> x \<in> set (ct_out s)" if "loud x" for x
    using q that by (metis (no_types) filter_set_iff)
  then show "paid s' = paid s" by (simp add: paid_def loud_def)
  show "has_form h s' = has_form h s" "ct_pollers s' = ct_pollers s" using q by (simp_all add: has_form_def)
qed

text \<open>What the loud operations send.\<close>

lemma poll_tick_sends:
  "intents h (poll_tick s) = intents h s" "receipts (poll_tick s) = receipts s" "paid (poll_tick s) = paid s"
  by (auto simp: poll_tick_def content_simps Let_def intents_def receipts_def paid_def split: option.splits)

lemma on_status_sends:
  "intents h (on_status k a s) = intents h s" "asks j (on_status k a s) = asks j s" "paid (on_status k a s) = paid s"
  by (auto simp: on_status_def content_simps Let_def intents_def asks_def paid_def split: answer.splits sum.splits option.splits)

lemma on_status_receipts:
  "receipts (on_status k a s) \<subseteq> receipts s \<union>
     (if a = StatusAnswer (Inr (lit ''completed'')) then {(po_orderId (ct_pollers s ! k), po_amount (ct_pollers s ! k))} else {})"
  by (auto simp: on_status_def status_of_text_def content_simps Let_def receipts_def split: answer.splits sum.splits option.splits if_splits)

lemma on_receipt_sends:
  "intents h (on_receipt o' a r s) = intents h s" "asks j (on_receipt o' a r s) = asks j s" "receipts (on_receipt o' a r s) = receipts s"
  "paid (on_receipt o' a r s) = insert (o', a) (paid s)" "ct_pollers (on_receipt o' a r s) = ct_pollers s"
  by (auto simp: on_receipt_def emit_def intents_def asks_def receipts_def paid_def split: answer.splits sum.splits prod.splits)

lemma on_built_sends:
  "intents h (on_built C g d m s) \<le> intents h s + (if g = h then 1 else 0)" "asks j (on_built C g d m s) = asks j s"
  "receipts (on_built C g d m s) = receipts s" "paid (on_built C g d m s) = paid s" "ct_pollers (on_built C g d m s) = ct_pollers s"
  using quiet_keeps [of s "fail g s"] quiet_ops(2) [of s]
  by (auto simp: on_built_def await_def emit_def intents_def asks_def receipts_def paid_def split: sum.splits)

lemma on_intent_answer_sends:
  "intents h (on_intent_answer g d m a s) = intents h s" "asks j (on_intent_answer g d m a s) = asks j s"
  "receipts (on_intent_answer g d m a s) = receipts s" "paid (on_intent_answer g d m a s) = paid s"
  by (simp_all add: on_intent_answer_def fail_def startPolling_def on_banner_def stopPolling_def Let_def intents_def asks_def receipts_def paid_def
      split: answer.split sum.split option.split json.split)

definition take_pending :: "nat \<Rightarrow> content_state \<Rightarrow> content_state" where
  "take_pending i s = s\<lparr> ct_pending := take i (ct_pending s) @ drop (Suc i) (ct_pending s) \<rparr>"

lemma take_pending_keeps:
  "intents h (take_pending i s) = intents h s" "asks k (take_pending i s) = asks k s" "paid (take_pending i s) = paid s"
  "receipts (take_pending i s) \<subseteq> receipts s" "ct_pollers (take_pending i s) = ct_pollers s" "has_form h (take_pending i s) = has_form h s"
  by (auto simp: take_pending_def intents_def asks_def paid_def receipts_def has_form_def dest: in_set_takeD in_set_dropD)

text \<open>A step is quiet, or it is a tick of the poll, or it answers a callback.\<close>

lemma content_step_cases:
  obtains (Quiet) "quiet s (content_step C e s)"
  | (Tick) "content_step C e s = poll_tick s"
  | (Answered) i a where "e = Answer i a" and "i < length (ct_pending s)"
      and "content_step C e s = on_answer C (ct_pending s ! i) a (take_pending i s)"
proof (cases e)
  case (Answer i a)
  then show ?thesis
    using that(1,3) by (cases "i < length (ct_pending s)") (auto simp: content_step_def take_pending_def quiet_def)
qed (use that(1,2) quiet_buyer quiet_ops in \<open>auto simp: content_step_def\<close>)

lemma pollers_of_status: "map po_handle (ct_pollers (on_status k a s)) = map po_handle (ct_pollers s)"
  by (cases "k < length (ct_pollers s)")
    (auto simp: on_status_def content_simps Let_def list_update_beyond split: answer.splits sum.splits option.splits)

lemma pollers_of_tick: "map po_handle (ct_pollers (poll_tick s)) = map po_handle (ct_pollers s)"
  by (cases "\<exists>k. ct_pollTimer s = Some k \<and> k < length (ct_pollers s)")
    (auto simp: poll_tick_def content_simps Let_def list_update_beyond split: option.splits)

lemma has_form_map: "has_form h s \<longleftrightarrow> h \<in> set (map po_handle (ct_pollers s))"
  by (simp add: has_form_def)

lemma pollers_of_intent_answer: "\<exists>ps. ct_pollers (on_intent_answer g d m a s) = ct_pollers s @ ps \<and> set ps \<subseteq> {p. po_polls p = 0 \<and> \<not> po_sawProcessing p}"
  by (simp add: on_intent_answer_def fail_def startPolling_def on_banner_def stopPolling_def Let_def
      split: answer.split sum.split option.split json.split)

lemma pollers_of_answer:
  "map po_handle (ct_pollers s) = map po_handle (ct_pollers (on_answer C p a s))
     \<or> (\<exists>g d m. p = IntentPending g d m)"
  using pollers_of_status on_built_sends(5) quiet_keeps(6) [OF quiet_ops(6)]
  by (cases p) (auto simp: on_answer_def on_receipt_def emit_def split: answer.splits sum.splits prod.splits)

lemma content_step_form:
  assumes "has_form h s"
  shows "has_form h (content_step C e s)"
proof (cases rule: content_step_cases [of s C e])
  case Quiet
  with assms show ?thesis using quiet_keeps(5) by simp
next
  case Tick
  with assms show ?thesis by (simp only: has_form_map pollers_of_tick)
next
  case (Answered i a)
  have t: "has_form h (take_pending i s)" using assms by (simp add: take_pending_keeps)
  show ?thesis
  proof (cases "\<exists>g d m. ct_pending s ! i = IntentPending g d m")
    case True
    then obtain g d m where p: "ct_pending s ! i = IntentPending g d m" by blast
    obtain ps where "ct_pollers (on_intent_answer g d m a (take_pending i s)) = ct_pollers (take_pending i s) @ ps"
      using pollers_of_intent_answer by blast
    with t show ?thesis by (auto simp: Answered(3) on_answer_def p has_form_def)
  next
    case False
    with pollers_of_answer [of "take_pending i s" C "ct_pending s ! i" a] t show ?thesis
      unfolding Answered(3) has_form_map by metis
  qed
qed

lemma content_step_intents:
  assumes "content_inv s" and "has_form h s"
  shows "intents h (content_step C e s) = intents h s"
proof (cases rule: content_step_cases [of s C e])
  case Quiet
  then show ?thesis by (rule quiet_keeps)
next
  case Tick
  then show ?thesis by (simp add: poll_tick_sends)
next
  case (Answered i a)
  show ?thesis
  proof (cases "ct_pending s ! i")
    case (BuildPending g d m)
    then have "free_at g (take_pending i s)"
      using taken_pending(2) [OF assms(1) Answered(2)] by (simp add: payment_of_def take_pending_def)
    with assms(2) have "g \<noteq> h" by (auto simp: free_at_def take_pending_keeps)
    then have "intents h (on_built C g d m (take_pending i s)) \<le> intents h s"
      using on_built_sends(1) [of h C g d m "take_pending i s"] by (simp add: take_pending_keeps)
    moreover have "intents h (take_pending i s) \<le> intents h (on_built C g d m (take_pending i s))"
      using quiet_keeps(1) [OF quiet_ops(2)]
      by (auto simp: on_built_def await_def emit_def intents_def split: sum.split)
    ultimately show ?thesis by (simp add: Answered(3) on_answer_def BuildPending take_pending_keeps)
  qed (simp_all add: Answered(3) on_answer_def take_pending_keeps on_intent_answer_sends on_status_sends on_receipt_sends
      quiet_keeps(1) [OF quiet_ops(6)])
qed

lemma content_run_intents:
  "content_inv s \<Longrightarrow> has_form h s \<Longrightarrow> intents h (content_run C es s) = intents h s"
  by (induction es arbitrary: s) (simp_all add: content_step_inv content_step_form content_step_intents)


section \<open>How often an order is asked for\<close>

definition poll_budget :: "poller \<Rightarrow> nat" where
  "poll_budget po = min (po_polls po) (poll_cap po) + (if po_sawProcessing po then PENDING_MAX_POLLS else 0)"

definition allowed :: "nat \<Rightarrow> content_state \<Rightarrow> nat" where
  "allowed k s = (if k < length (ct_pollers s) then poll_budget (ct_pollers s ! k) else 0)"

definition asks_ok :: "content_state \<Rightarrow> bool" where
  "asks_ok s \<longleftrightarrow> (\<forall>k. asks k s \<le> allowed k s)"

lemma asks_ok_cong:
  assumes "asks_ok s" and "\<And>k. asks k s' = asks k s" and "ct_pollers s' = ct_pollers s"
  shows "asks_ok s'"
proof -
  have "allowed k s' = allowed k s" for k by (simp add: allowed_def assms(3))
  with assms(1,2) show ?thesis by (simp add: asks_ok_def)
qed

lemma asks_tick:
  assumes "asks_ok s" and "ct_pollTimer s = Some k" and "k < length (ct_pollers s)"
  shows "asks_ok (poll_tick s)"
proof -
  let ?po = "ct_pollers s ! k"
  have k: "asks k s \<le> poll_budget ?po" using spec [OF assms(1) [unfolded asks_ok_def], of k] assms(3) by (simp add: allowed_def)
  consider (Gone) "ct_handle s \<noteq> Some (po_handle ?po)" | (Stop) "ct_handle s = Some (po_handle ?po)" "Suc (po_polls ?po) > poll_cap ?po"
    | (Ask) "ct_handle s = Some (po_handle ?po)" "Suc (po_polls ?po) \<le> poll_cap ?po" by linarith
  then show ?thesis
  proof cases
    case Gone
    then show ?thesis using assms(2) by (intro asks_ok_cong [OF assms(1)]) (simp_all add: poll_tick_def stopPolling_def asks_def)
  next
    case Stop
    then have "poll_budget (?po\<lparr> po_polls := Suc (po_polls ?po) \<rparr>) \<ge> poll_budget ?po" by (simp add: poll_budget_def poll_cap_def)
    moreover have "asks j (poll_tick s) = asks j s" for j
      using Stop assms(2) by (simp add: poll_tick_def content_simps Let_def asks_def)
    moreover have "allowed j (poll_tick s) = (if j = k then poll_budget (?po\<lparr> po_polls := Suc (po_polls ?po) \<rparr>) else allowed j s)" for j
      using Stop assms(2,3) by (simp add: poll_tick_def content_simps Let_def allowed_def)
    ultimately show ?thesis using assms(1) k unfolding asks_ok_def by (auto intro: le_trans)
  next
    case Ask
    then have "poll_budget (?po\<lparr> po_polls := Suc (po_polls ?po) \<rparr>) = Suc (poll_budget ?po)" by (simp add: poll_budget_def poll_cap_def)
    moreover have "asks j (poll_tick s) = asks j s + (if j = k then 1 else 0)" for j
      using Ask assms(2) by (simp add: poll_tick_def content_simps Let_def asks_def)
    moreover have "allowed j (poll_tick s) = (if j = k then poll_budget (?po\<lparr> po_polls := Suc (po_polls ?po) \<rparr>) else allowed j s)" for j
      using Ask assms(2,3) by (simp add: poll_tick_def content_simps Let_def allowed_def)
    ultimately show ?thesis using assms(1) k unfolding asks_ok_def by simp
  qed
qed

lemma asks_status:
  assumes "asks_ok s"
  shows "asks_ok (on_status k a s)"
proof -
  have "poll_budget (po\<lparr> po_sawProcessing := True, po_polls := 0 \<rparr>) \<ge> poll_budget po" if "\<not> po_sawProcessing po" for po
    using that by (simp add: poll_budget_def poll_cap_def)
  then have "allowed j s \<le> allowed j (on_status k a s)" for j
    by (auto simp: allowed_def on_status_def content_simps Let_def nth_upd split: answer.split sum.split option.split)
  with assms show ?thesis unfolding asks_ok_def on_status_sends by (meson le_trans)
qed

lemma asks_intent_answer:
  assumes "asks_ok s"
  shows "asks_ok (on_intent_answer g d m a s)"
proof -
  obtain ps where "ct_pollers (on_intent_answer g d m a s) = ct_pollers s @ ps" using pollers_of_intent_answer by blast
  then have "allowed j s \<le> allowed j (on_intent_answer g d m a s)" for j by (simp add: allowed_def nth_append)
  with assms show ?thesis unfolding asks_ok_def on_intent_answer_sends by (meson le_trans)
qed

lemma content_step_asks:
  assumes "content_inv s" and "asks_ok s"
  shows "asks_ok (content_step C e s)"
proof (cases rule: content_step_cases [of s C e])
  case Quiet
  then show ?thesis using asks_ok_cong [OF assms(2)] quiet_keeps(2,6) by blast
next
  case Tick
  show ?thesis
  proof (cases "ct_pollTimer s")
    case (Some k)
    with assms(1) have "k < length (ct_pollers s)" by (simp add: content_parts)
    with Tick Some assms(2) show ?thesis by (simp add: asks_tick)
  qed (use Tick assms(2) in \<open>simp add: poll_tick_def\<close>)
next
  case (Answered i a)
  have t: "asks_ok (take_pending i s)" by (rule asks_ok_cong [OF assms(2)]) (simp_all add: take_pending_keeps)
  show ?thesis
  proof (cases "ct_pending s ! i")
    case (BuildPending g d m)
    with t show ?thesis
      by (simp add: Answered(3) on_answer_def) (rule asks_ok_cong [OF t]; simp add: on_built_sends)
  next
    case (ReceiptPending o' am)
    with t show ?thesis
      by (simp add: Answered(3) on_answer_def)
        (rule asks_ok_cong [OF t]; simp add: on_receipt_sends)
  next
    case (QuotePending g n)
    with t show ?thesis
      using asks_ok_cong [OF t] quiet_keeps(2,6) [OF quiet_ops(6)] by (simp add: Answered(3) on_answer_def)
  qed (use t in \<open>simp_all add: Answered(3) on_answer_def asks_status asks_intent_answer\<close>)
qed

text \<open>However long a page is open and whatever the server answers, a poll asks for the status of its order at most 480 times:
  400 while the card payment is awaited and 80 after it was received.\<close>

lemma poll_asks_are_bounded:
  "asks k (content_run C es content_start) \<le> PENDING_MAX_POLLS + CONFIRM_MAX_POLLS"
proof -
  have "content_inv (content_run C es s) \<and> asks_ok (content_run C es s)" if "content_inv s" "asks_ok s" for s
    using that by (induction es arbitrary: s) (simp_all add: content_step_inv content_step_asks)
  moreover have "asks_ok content_start" by (simp add: asks_ok_def asks_def content_start_def)
  ultimately have ok: "asks_ok (content_run C es content_start)" using content_start_inv by blast
  have "poll_budget po \<le> PENDING_MAX_POLLS + CONFIRM_MAX_POLLS" for po
    using min.cobounded2 [of "po_polls po" PENDING_MAX_POLLS] by (auto simp: poll_budget_def poll_cap_def intro: trans_le_add1)
  then have "allowed k (content_run C es content_start) \<le> PENDING_MAX_POLLS + CONFIRM_MAX_POLLS" by (simp add: allowed_def)
  with ok show ?thesis unfolding asks_ok_def by (blast intro: le_trans)
qed

section \<open>When the shop is told\<close>

text \<open>While the events ran, the worker answered a status request of a poll of this order and amount with \<^verbatim>\<open>completed\<close>.\<close>

definition completed_answer :: "content_env \<Rightarrow> page_event list \<Rightarrow> ustring \<Rightarrow> ustring \<Rightarrow> bool" where
  "completed_answer C es orderId amount \<longleftrightarrow>
     (\<exists>es1 es2 i k. es = es1 @ Answer i (StatusAnswer (Inr (lit ''completed''))) # es2
        \<and> (let s = content_run C es1 content_start in
            i < length (ct_pending s) \<and> ct_pending s ! i = StatusPending k
          \<and> po_orderId (ct_pollers s ! k) = orderId \<and> po_amount (ct_pollers s ! k) = amount))"

lemma content_run_snoc: "content_run C (es @ [e]) s = content_step C e (content_run C es s)"
  by (induction es arbitrary: s) simp_all

lemma content_step_paid: "paid (content_step C e s) \<subseteq> paid s \<union> receipts s"
proof (cases rule: content_step_cases [of s C e])
  case Quiet
  then show ?thesis using quiet_keeps(4) by simp
next
  case Tick
  then show ?thesis by (simp add: poll_tick_sends)
next
  case (Answered i a)
  have t: "paid (take_pending i s) = paid s" by (rule take_pending_keeps)
  show ?thesis
  proof (cases "ct_pending s ! i")
    case (ReceiptPending o' am)
    then have "(o', am) \<in> receipts s" using nth_mem [OF Answered(2)] by (simp add: receipts_def)
    then show ?thesis by (simp add: Answered(3) on_answer_def ReceiptPending on_receipt_sends t)
  qed (simp_all add: Answered(3) on_answer_def t on_built_sends on_intent_answer_sends on_status_sends quiet_keeps(4) [OF quiet_ops(6)])
qed

lemma content_step_receipts:
  "receipts (content_step C e s) \<subseteq> receipts s \<union>
     {(po_orderId (ct_pollers s ! k), po_amount (ct_pollers s ! k)) | k. \<exists>i. e = Answer i (StatusAnswer (Inr (lit ''completed'')))
        \<and> i < length (ct_pending s) \<and> ct_pending s ! i = StatusPending k}"
proof (cases rule: content_step_cases [of s C e])
  case Quiet
  then show ?thesis using quiet_keeps(3) by simp
next
  case Tick
  then show ?thesis by (simp add: poll_tick_sends)
next
  case (Answered i a)
  note t = take_pending_keeps(4) [of i s]
  show ?thesis
  proof (cases "ct_pending s ! i")
    case (StatusPending k)
    have "receipts (content_step C e s) \<subseteq> receipts s \<union>
        (if a = StatusAnswer (Inr (lit ''completed'')) then {(po_orderId (ct_pollers s ! k), po_amount (ct_pollers s ! k))} else {})"
      using on_status_receipts [of k a "take_pending i s"] t by (auto simp: Answered(3) on_answer_def StatusPending take_pending_keeps(5))
    with Answered(1,2) StatusPending show ?thesis by (auto split: if_splits)
  qed (use t in \<open>auto simp: Answered(3) on_answer_def on_built_sends on_intent_answer_sends on_receipt_sends quiet_keeps(3) [OF quiet_ops(6)]\<close>)
qed

lemma completed_answer_snoc: "completed_answer C es o' a \<Longrightarrow> completed_answer C (es @ [e]) o' a"
  unfolding completed_answer_def by (metis append.assoc append_Cons)

lemma told_after_completed:
  "(o', a) \<in> receipts (content_run C es content_start) \<union> paid (content_run C es content_start) \<Longrightarrow> completed_answer C es o' a"
proof (induction es rule: rev_induct)
  case Nil
  then show ?case by (simp add: content_start_def receipts_def paid_def)
next
  case (snoc e es)
  let ?s = "content_run C es content_start"
  consider "(o', a) \<in> receipts ?s \<union> paid ?s"
    | i k where "e = Answer i (StatusAnswer (Inr (lit ''completed'')))" "i < length (ct_pending ?s)" "ct_pending ?s ! i = StatusPending k"
        "o' = po_orderId (ct_pollers ?s ! k)" "a = po_amount (ct_pollers ?s ! k)"
    using snoc.prems content_step_paid [of C e ?s] content_step_receipts [of C e ?s] unfolding content_run_snoc by auto
  then show ?case
  proof cases
    case 1
    then show ?thesis by (rule completed_answer_snoc [OF snoc.IH])
  next
    case 2
    then show ?thesis unfolding completed_answer_def Let_def by blast
  qed
qed

text \<open>C36. The shop's page is told that an order is paid only after the server answered a status request for this very order
  with \<^verbatim>\<open>completed\<close>, and with the amount of the payment request the order was started from.\<close>

theorem shop_told_only_when_completed:
  assumes "PostedPaid orderId amount txHash paidPriceTry \<in> set (ct_out (content_run C es content_start))"
  shows "completed_answer C es orderId amount"
  using assms by (intro told_after_completed) (auto simp: paid_def)

section \<open>Runs\<close>

definition demo_content :: content_env where
  "demo_content = \<lparr> cc_decode = demo_query, cc_issuers = [[]], cc_nfc = (\<lambda>u. u), cc_sha256 = (\<lambda>_. replicate 32 1), cc_demo = False \<rparr>"

definition demo_uri :: "string \<Rightarrow> ustring" where
  "demo_uri m = lit (''web+stellar:pay?d=D&a=5&c=U&i=&m='' @ m)"

definition demo_found :: "string \<Rightarrow> detection" where
  "demo_found m = (let s = demo_shop\<lparr> sp_memo := Some (lit m) \<rparr> in
     \<lparr> dt_sep7 = s, dt_checks = sep7_checks [[]] s, dt_passed = length (filter snd (sep7_checks [[]] s)), dt_payable = True \<rparr>)"

definition demo_body :: "string \<Rightarrow> intent_body" where
  "demo_body m = \<lparr> ib_paymentMethod = Some Card, ib_orderId = lit m, ib_destination = strkey_text (replicate 32 0),
     ib_amountStroops = lit (bigint_str 50000000), ib_assetIssuer = [], ib_memoHex = ext_toHex (replicate 32 1) \<rparr>"

lemma demo_evaluates:
  "evaluate demo_query [[]] (demo_uri ''o1'') = Some (demo_found ''o1'')" "evaluate demo_query [[]] (demo_uri ''o2'') = Some (demo_found ''o2'')"
  "demo_uri ''o1'' \<noteq> demo_uri ''o2''"
proof -
  have "parseSep7 demo_query (demo_uri ''o1'') = Some (demo_shop\<lparr> sp_memo := Some (lit ''o1'') \<rparr>)"
    "parseSep7 demo_query (demo_uri ''o2'') = Some (demo_shop\<lparr> sp_memo := Some (lit ''o2'') \<rparr>)"
    by (simp_all add: demo_uri_def parseSep7_def SEP7_SCHEME_def starts_with_def before_char_def after_char_def searchParams_def query_parts.simps
        demo_query_def demo_shop_def lit_def Let_def demo_key_text(1))
  moreover have "list_all snd (sep7_checks [[]] (demo_shop\<lparr> sp_memo := Some (lit m) \<rparr>))" if "m \<noteq> []" for m
  proof -
    have "lit m \<noteq> []" using that by (simp add: lit_def)
    then show ?thesis by (simp add: sep7_checks_def demo_shop_def demo_key_text(2) demo_five)
  qed
  ultimately show "evaluate demo_query [[]] (demo_uri ''o1'') = Some (demo_found ''o1'')"
    "evaluate demo_query [[]] (demo_uri ''o2'') = Some (demo_found ''o2'')"
    by (simp_all add: evaluate_def demo_found_def Let_def)
  show "demo_uri ''o1'' \<noteq> demo_uri ''o2''" by (simp add: demo_uri_def lit_def)
qed

lemma page_builds:
  assumes "m \<in> {''o1'', ''o2''}"
  shows "\<exists>b. buildIntentBody (\<lambda>u. u) (\<lambda>_. replicate 32 1) (demo_found m) = Inr b \<and> b\<lparr> ib_paymentMethod := Some Card \<rparr> = demo_body m"
proof -
  have "\<not> LONE_SURROGATE (lit m)" "lit m \<noteq> []" using assms by (auto simp: LONE_SURROGATE_def lit_def is_high_def is_low_def)
  then show ?thesis
    by (simp add: buildIntentBody_def demo_found_def demo_shop_def demo_five deriveMemoHex_def ext_canonicalizeOrderId_def demo_body_def Let_def)
qed

definition demo_response :: "string \<Rightarrow> json" where
  "demo_response m = JObj [(''orderId'', JStr (lit m)), (''token'', JStr (lit ''t'')), (''paymentPageUrl'', JStr (lit ''u''))]"

lemma demo_ui: "intentUiAction (demo_response m) = (UiOpen, True)"
  by (simp add: intentUiAction_def demo_response_def lit_def)

text \<open>The buyer pays order \<open>o1\<close>: its form opens and the poll starts.\<close>

definition demo_paying :: "page_event list" where
  "demo_paying = [Scan (Some (demo_uri ''o1'')), ClickPay, Answer 1 NoAnswer, Answer 1 (IntentAnswer (Inr (demo_response ''o1'')))]"

lemma demo_pays:
  "content_run demo_content demo_paying content_start =
     content_start\<lparr> ct_currentUri := Some (demo_uri ''o1''), ct_handle := Some 0,
       ct_banners := [(showBanner (demo_found ''o1''))\<lparr> bn_disabled := True, bn_methodDisabled := True, bn_status := Some CopyInfo \<rparr>],
       ct_pollTimer := Some 0,
       ct_pollers := [\<lparr> po_orderId = lit ''o1'', po_handle = 0, po_amount = lit ''5'', po_method = Card, po_polls = 0, po_sawProcessing = False \<rparr>],
       ct_inFlight := True, ct_lastDetection := Some (demo_found ''o1''), ct_quoteRequestId := 1, ct_pending := [QuotePending 0 1],
       ct_out := [SentQuote 50000000 Card, SentIntent 0 (demo_body ''o1'')] \<rparr>"
proof -
  obtain b where b: "buildIntentBody (\<lambda>u. u) (\<lambda>_. replicate 32 1) (demo_found ''o1'') = Inr b" "b\<lparr> ib_paymentMethod := Some Card \<rparr> = demo_body ''o1''"
    using page_builds [of "''o1''"] by auto
  have d: "dt_payable (demo_found ''o1'')" "sp_amount (dt_sep7 (demo_found ''o1'')) = lit ''5''" by (simp_all add: demo_found_def demo_shop_def Let_def)
  have o1: "text_prop (demo_response ''o1'') ''orderId'' = Some (lit ''o1'')" "jprop (demo_response ''o1'') ''bankTransfer'' = None"
    by (simp_all add: text_prop_def demo_response_def)
  show ?thesis
    by (simp add: demo_paying_def content_step_def scan_def offer_def click_pay_def pay_def on_answer_def on_built_def on_intent_answer_def
        requestQuote_def startPolling_def content_simps flag_simps content_start_def showBanner_def demo_content_def
        demo_evaluates b d o1 demo_five demo_ui ui_copy_def Let_def)
qed


text \<open>Two ticks ask before the first answer; both answers say \<^verbatim>\<open>completed\<close>, and the shop is told twice.\<close>

definition demo_completed :: "page_event list" where
  "demo_completed = [PollTick, PollTick, Answer 1 (StatusAnswer (Inr (lit ''completed''))), Answer 1 (StatusAnswer (Inr (lit ''completed''))),
     Answer 1 NoAnswer, Answer 1 NoAnswer]"

lemma status_of_completed: "status_of_text (lit ''completed'') = Some PubCompleted"
  by (simp add: status_of_text_def lit_def)

lemma completed_twice_tells_twice:
  "ct_out (content_run demo_content demo_completed (content_run demo_content demo_paying content_start)) =
     [SentQuote 50000000 Card, SentIntent 0 (demo_body ''o1''), SentStatus 0, SentStatus 0, SentReceipt (lit ''o1''), SentReceipt (lit ''o1''),
      PostedPaid (lit ''o1'') (lit ''5'') None None, PostedPaid (lit ''o1'') (lit ''5'') None None]"
  unfolding demo_pays
  by (simp add: demo_completed_def content_step_def poll_tick_def on_answer_def on_status_def on_receipt_def status_of_completed content_simps
      flag_simps show_status_def content_start_def showBanner_def poll_cap_def PENDING_MAX_POLLS_def Let_def)

lemma content_run_append: "content_run C (es @ es') s = content_run C es' (content_run C es s)"
  by (induction es arbitrary: s) simp_all

lemma shop_told_only_when_completed_witness:
  "completed_answer demo_content (demo_paying @ demo_completed) (lit ''o1'') (lit ''5'')"
  by (rule shop_told_only_when_completed [of _ _ None None])
    (simp only: content_run_append completed_twice_tells_twice, simp)

text \<open>The shop replaces order \<open>o1\<close> by \<open>o2\<close> while the worker has not answered for \<open>o1\<close>; the buyer pays \<open>o2\<close>,
  whose answer comes first. The late answer for \<open>o1\<close> starts its own poll, which ends the poll of \<open>o2\<close> and then itself:
  the banner of the order being paid is busy, its status was never asked for, and only price previews are still pending.\<close>

definition demo_late :: "page_event list" where
  "demo_late = [Scan (Some (demo_uri ''o1'')), ClickPay, Answer 1 NoAnswer, Scan (Some (demo_uri ''o2'')), ClickPay, Answer 3 NoAnswer,
     Answer 3 (IntentAnswer (Inr (demo_response ''o2''))), Answer 1 (IntentAnswer (Inr (demo_response ''o1''))), PollTick]"

lemma late_answer_ends_new_polling:
  "\<exists>s. s = content_run demo_content demo_late content_start \<and> ct_handle s = Some 1 \<and> po_handle (ct_pollers s ! 0) = 1
     \<and> bn_disabled (ct_banners s ! 1) \<and> ct_pollTimer s = None \<and> asks 0 s = 0
     \<and> list_all (\<lambda>p. case p of QuotePending _ _ \<Rightarrow> True | _ \<Rightarrow> False) (ct_pending s)"
proof -
  obtain b where b: "buildIntentBody (\<lambda>u. u) (\<lambda>_. replicate 32 1) (demo_found ''o1'') = Inr b" using page_builds [of "''o1''"] by auto
  obtain c where c: "buildIntentBody (\<lambda>u. u) (\<lambda>_. replicate 32 1) (demo_found ''o2'') = Inr c" using page_builds [of "''o2''"] by auto
  have d: "dt_payable (demo_found m)" "sp_amount (dt_sep7 (demo_found m)) = lit ''5''" for m by (simp_all add: demo_found_def demo_shop_def Let_def)
  have no_bank: "jprop (demo_response m) ''bankTransfer'' = None" for m by (simp add: demo_response_def)
  show ?thesis
    by (simp add: demo_late_def content_step_def scan_def offer_def click_pay_def pay_def on_answer_def on_built_def on_intent_answer_def
        requestQuote_def startPolling_def poll_tick_def content_simps flag_simps content_start_def showBanner_def demo_content_def
        demo_evaluates b c d no_bank demo_five demo_ui ui_copy_def asks_def demo_evaluates(3) [symmetric] Let_def)
qed

end
