(* ===== verification/Anchor_Provider.thy ===== *)
theory Anchor_Provider
  imports Http_App Order_Codecs
begin

text \<open>
  The bank-transfer provider of the sandbox, \<^verbatim>\<open>packages/composition/src/tr-mock-anchor-provider.ts\<close>: its two tables, its session with
  the anchor and its operations. A request goes out under the number of requests before it, and the environment answers by
  that number; the process may die at any request. What was written to the tables survives, the session does not. Calls for
  one order are joined while one is running, and the rows of different orders do not meet, so a call is taken to its end. The
  SDK's challenge parser and signer, \<open>Date.parse\<close>, the clock and the random token are arguments. A request always carries the
  least amount of USDC, as the only caller sends it.

  The lemmas show that an order opens one bank deposit for all retries and restarts, that its instructions never change, and
  that a credit on the chain counts for one order only.
\<close>

section \<open>Requests and answers\<close>

text \<open>The order of a deposit request is named too.\<close>

datatype anchor_request =
    AuthChallenge
  | AuthToken ustring
  | Health
  | HorizonAccount
  | Price ustring
  | FirmQuote ustring
  | Deposit ustring ustring ustring
  | Transfers
  | Transfer ustring
  | SimulateTransfer ustring ustring
  | HorizonTx ustring
  | HorizonOps ustring

text \<open>The process dies, the request throws (network, size, text that is no JSON), a status that is not a success, or a body.\<close>

datatype anchor_answer = AnswerDies | AnswerThrows | AnswerStatus nat | AnswerBody json

datatype anchor_error = AnchorDied | AnchorThrew | AnchorStatus nat

record anchor_env =
  ae_account :: ustring
  ae_answer :: "nat \<Rightarrow> anchor_request \<Rightarrow> anchor_answer"
  ae_challenge :: "ustring \<Rightarrow> ustring option"
  ae_sign :: "ustring \<Rightarrow> ustring"
  ae_date :: "json option \<Rightarrow> int option"
  ae_now :: "nat \<Rightarrow> int"
  ae_random :: "nat \<Rightarrow> ustring"

text \<open>A row of \<open>anchor_transfers\<close>; \<open>anchor_receipts\<close> maps a hash to an order, and both columns are unique.\<close>

record anchor_row =
  ar_request :: json
  ar_quote :: "json option"
  ar_dispatched :: bool
  ar_instructions :: "json option"
  ar_proof :: "json option"

record anchor_state =
  an_rows :: "(ustring \<times> anchor_row) list"
  an_receipts :: "(ustring \<times> ustring) list"
  an_token :: ustring
  an_requests :: "anchor_request list"

type_synonym 'a anchor = "anchor_state \<Rightarrow> (anchor_error + 'a) \<times> anchor_state"

definition retA :: "'a \<Rightarrow> 'a anchor" where "retA x s = (Inr x, s)"
definition failA :: "'a anchor" where "failA s = (Inl AnchorThrew, s)"

definition bindA :: "'a anchor \<Rightarrow> ('a \<Rightarrow> 'b anchor) \<Rightarrow> 'b anchor" where
  "bindA m f s = (case m s of (Inl e, s') \<Rightarrow> (Inl e, s') | (Inr x, s') \<Rightarrow> f x s')"

text \<open>A value, or an exception.\<close>

definition someA :: "'a option \<Rightarrow> 'a anchor" where
  "someA v = (case v of Some x \<Rightarrow> retA x | None \<Rightarrow> failA)"

definition checkA :: "bool \<Rightarrow> unit anchor" where
  "checkA b = (if b then retA () else failA)"

definition nowA :: "anchor_env \<Rightarrow> int anchor" where
  "nowA E s = (Inr (ae_now E (length (an_requests s))), s)"

definition is_plain_object :: "json \<Rightarrow> bool" where
  "is_plain_object v = (case v of JObj _ \<Rightarrow> True | _ \<Rightarrow> False)"

definition object :: "json option \<Rightarrow> json option" where
  "object v = (case v of Some j \<Rightarrow> if is_plain_object j then Some j else None | None \<Rightarrow> None)"

definition raw :: "anchor_env \<Rightarrow> anchor_request \<Rightarrow> json anchor" where
  "raw E r s =
     (let s' = s\<lparr> an_requests := an_requests s @ [r] \<rparr> in
      case ae_answer E (length (an_requests s)) r of
        AnswerDies \<Rightarrow> (Inl AnchorDied, s')
      | AnswerThrows \<Rightarrow> (Inl AnchorThrew, s')
      | AnswerStatus c \<Rightarrow> (Inl (AnchorStatus c), s')
      | AnswerBody j \<Rightarrow> someA (object (Some j)) s')"

section \<open>Amounts\<close>

text \<open>A decimal text with at most the given number of fraction digits, in units of its last place.\<close>

definition units :: "json option \<Rightarrow> nat \<Rightarrow> int option" where
  "units v decimals =
     (case v of
        Some (JStr u) \<Rightarrow>
          Option.bind (ascii_of u) (\<lambda>s.
            let whole = takeWhile (\<lambda>c. c \<noteq> CHR ''.'') s; rest = drop (length whole) s; fraction = drop 1 rest in
            if whole = [] \<or> \<not> list_all is_digit whole then None
            else if rest \<noteq> [] \<and> (fraction = [] \<or> \<not> list_all is_digit fraction \<or> length fraction > decimals) then None
            else Some (int (dec_nat whole) * 10 ^ decimals + int (dec_nat (fraction @ replicate (decimals - length fraction) CHR ''0''))))
      | _ \<Rightarrow> None)"

definition decimal :: "int \<Rightarrow> nat \<Rightarrow> ustring" where
  "decimal amount places =
     (let scale = 10 ^ places; frac = bigint_str (amount mod scale) in
      lit (bigint_str (amount div scale) @ ''.'' @ replicate (places - length frac) CHR ''0'' @ frac))"

section \<open>Constants, packages/config/src/index.ts\<close>

definition ANCHOR_ISSUER :: ustring where "ANCHOR_ISSUER = lit ''GBBD47IF6LWK7P7MDEVSCWR7DPUWV3NY3DTQEVFL4NAT4AQH3ZLLFLA5''"
definition ANCHOR_TREASURY :: ustring where "ANCHOR_TREASURY = lit ''GCLCZEQZ2THTEDAOFI66LACNPLY4OBKN7VKLEZFMBIHYKYQOW2W7T3Z6''"
definition ANCHOR_BENEFICIARY :: ustring where
  "ANCHOR_BENEFICIARY = lit ''TR Mock Anchor Teknoloji A.'' @ [0x15E] @ lit ''. (TEST)''"
definition anchor_asset :: ustring where "anchor_asset = lit ''stellar:USDC:'' @ ANCHOR_ISSUER"
definition PROVIDER :: ustring where "PROVIDER = lit ''tr-mock-anchor''"
definition TRY_ASSET :: ustring where "TRY_ASSET = lit ''iso4217:TRY''"

section \<open>The session with the anchor\<close>

definition text_of :: "json option \<Rightarrow> ustring option" where
  "text_of v = (case v of Some (JStr u) \<Rightarrow> Some u | _ \<Rightarrow> None)"

definition authenticate :: "anchor_env \<Rightarrow> unit anchor" where
  "authenticate E =
     bindA (raw E AuthChallenge) (\<lambda>ch.
     bindA (checkA (jprop ch ''network_passphrase'' = Some (JStr TESTNET_PASSPHRASE))) (\<lambda>_.
     bindA (someA (text_of (jprop ch ''transaction''))) (\<lambda>xdr.
     bindA (someA (ae_challenge E xdr)) (\<lambda>client.
     bindA (checkA (client = ae_account E)) (\<lambda>_.
     bindA (raw E (AuthToken (ae_sign E xdr))) (\<lambda>result.
     bindA (someA (text_of (jprop result ''token''))) (\<lambda>token.
     bindA (checkA (token \<noteq> [])) (\<lambda>_ s. (Inr (), s\<lparr> an_token := token \<rparr>)))))))))"

definition request :: "anchor_env \<Rightarrow> anchor_request \<Rightarrow> json anchor" where
  "request E r s =
     bindA (if an_token s = [] then authenticate E else retA ())
       (\<lambda>_ s. case raw E r s of
          (Inl e, s') \<Rightarrow> if e = AnchorStatus 401 then bindA (authenticate E) (\<lambda>_. raw E r) s' else (Inl e, s')
        | (Inr j, s') \<Rightarrow> (Inr j, s')) s"

text \<open>\<open>list.some\<close> with a test that may throw.\<close>

fun someM :: "('a \<Rightarrow> bool option) \<Rightarrow> 'a list \<Rightarrow> bool option" where
  "someM f [] = Some False"
| "someM f (x # xs) = (case f x of None \<Rightarrow> None | Some True \<Rightarrow> Some True | Some False \<Rightarrow> someM f xs)"

definition is_trustline :: "json \<Rightarrow> bool option" where
  "is_trustline b =
     map_option (\<lambda>row. jprop row ''asset_code'' = Some (JStr (lit ''USDC'')) \<and> jprop row ''asset_issuer'' = Some (JStr ANCHOR_ISSUER)
       \<and> jprop row ''is_authorized'' = Some (JBool True)) (object (Some b))"

definition list_of :: "json option \<Rightarrow> json list option" where
  "list_of v = (case v of Some (JArr xs) \<Rightarrow> Some xs | _ \<Rightarrow> None)"

definition checkReady :: "anchor_env \<Rightarrow> unit anchor" where
  "checkReady E =
     bindA (raw E Health) (\<lambda>health.
     bindA (someA (object (jprop health ''asset''))) (\<lambda>a.
     bindA (checkA (jprop health ''environment'' = Some (JStr (lit ''sandbox''))
        \<and> jprop health ''network_passphrase'' = Some (JStr TESTNET_PASSPHRASE)
        \<and> jprop a ''issuer'' = Some (JStr ANCHOR_ISSUER) \<and> jprop a ''code'' = Some (JStr (lit ''USDC'')))) (\<lambda>_.
     bindA (raw E HorizonAccount) (\<lambda>account.
     bindA (someA (list_of (jprop account ''balances''))) (\<lambda>balances.
     bindA (someA (someM is_trustline balances)) (\<lambda>found.
     bindA (checkA found) (\<lambda>_. authenticate E)))))))"

section \<open>Quoting\<close>

definition anchor_quote :: "anchor_env \<Rightarrow> int \<Rightarrow> app_quote anchor" where
  "anchor_quote E amount =
     bindA (checkA (amount > 0)) (\<lambda>_.
     bindA (request E (Price (decimal amount 7))) (\<lambda>q.
     bindA (someA (units (jprop q ''sell_amount'') 7)) (\<lambda>sell.
     bindA (someA (units (jprop q ''buy_amount'') 7)) (\<lambda>buy.
       let kurus = (sell + 99999) div 100000; rate = (kurus * 1000000000000 + amount - 1) div amount in
       bindA (checkA (buy = amount \<and> kurus > 0 \<and> kurus \<le> 10000000)) (\<lambda>_.
         retA \<lparr> aq_userTryKurus = kurus, aq_paidPriceTry = decimal kurus 2, aq_appliedRateStroops = rate, aq_oracleMidE7 = rate,
                aq_spreadBps = 0, aq_spreadRevenueKurus = 0, aq_pspCostKurus = 0 \<rparr>)))))"

section \<open>Opening a transfer\<close>

text \<open>\<open>JSON.stringify\<close> of the request; that of the instructions is \<open>instructions_json\<close>.\<close>

definition request_json :: "bank_request \<Rightarrow> json" where
  "request_json q = JObj [(''orderId'', JStr (bq_orderId q)), (''idempotencyKey'', JStr (bq_idempotencyKey q)),
     (''reference'', JStr (bq_reference q)), (''amountTry'', JStr (bq_amountTry q)), (''currency'', JStr (lit ''TRY'')),
     (''expiresAtUnix'', JInt (bq_expiresAtUnix q)), (''minimumUsdcStroops'', JStr (bq_minimumUsdcStroops q))]"

text \<open>\<open>SELECT\<close>, \<open>INSERT OR IGNORE\<close> and \<open>UPDATE\<close> on a row.\<close>

definition row_of :: "ustring \<Rightarrow> anchor_row option anchor" where
  "row_of orderId s = (Inr (map_of (an_rows s) orderId), s)"

definition insert_row :: "bank_request \<Rightarrow> unit anchor" where
  "insert_row q s =
     (Inr (), if map_of (an_rows s) (bq_orderId q) = None
              then s\<lparr> an_rows := AList.update (bq_orderId q)
                       \<lparr> ar_request = request_json q, ar_quote = None, ar_dispatched = False, ar_instructions = None, ar_proof = None \<rparr> (an_rows s) \<rparr>
              else s)"

definition update_row :: "ustring \<Rightarrow> (anchor_row \<Rightarrow> anchor_row) \<Rightarrow> unit anchor" where
  "update_row orderId f s =
     (Inr (), case map_of (an_rows s) orderId of
        None \<Rightarrow> s
      | Some r \<Rightarrow> s\<lparr> an_rows := AList.update orderId (f r) (an_rows s) \<rparr>)"

definition quote_ok :: "anchor_env \<Rightarrow> bank_request \<Rightarrow> json \<Rightarrow> bool" where
  "quote_ok E q j \<longleftrightarrow>
     text_of (jprop j ''id'') \<noteq> None \<and> jprop j ''sell_asset'' = Some (JStr TRY_ASSET) \<and> jprop j ''buy_asset'' = Some (JStr anchor_asset)
   \<and> (case (units (jprop j ''sell_amount'') 2, units (Some (JStr (bq_amountTry q))) 2) of (Some a, Some b) \<Rightarrow> a = b | _ \<Rightarrow> False)
   \<and> (case (units (jprop j ''buy_amount'') 7, parseBigInt (bq_minimumUsdcStroops q)) of (Some a, Some m) \<Rightarrow> a > 0 \<and> a \<ge> m | _ \<Rightarrow> False)
   \<and> (case ae_date E (jprop j ''expires_at'') of Some t \<Rightarrow> t \<ge> bq_expiresAtUnix q | None \<Rightarrow> False)"

text \<open>The firm quote of the order: the stored one, or a new one that is checked and stored.\<close>

definition firm_quote :: "anchor_env \<Rightarrow> bank_request \<Rightarrow> anchor_row \<Rightarrow> json anchor" where
  "firm_quote E q row =
     bindA (case ar_quote row of
         Some j \<Rightarrow> retA (Some row)
       | None \<Rightarrow>
           bindA (request E (FirmQuote (bq_amountTry q))) (\<lambda>j.
           bindA (checkA (quote_ok E q j)) (\<lambda>_.
           bindA (update_row (bq_orderId q) (\<lambda>r. r\<lparr> ar_quote := (case ar_quote r of None \<Rightarrow> Some j | k \<Rightarrow> k) \<rparr>)) (\<lambda>_.
           row_of (bq_orderId q)))))
       (\<lambda>r. someA (object (Option.bind r ar_quote)))"

definition same_quote :: "json \<Rightarrow> json \<Rightarrow> bool option" where
  "same_quote quote t = map_option (\<lambda>t. jprop t ''quote_id'' = jprop quote ''id'') (object (Some t))"

text \<open>\<open>filter\<close> with a test that may throw.\<close>

fun filterM :: "('a \<Rightarrow> bool option) \<Rightarrow> 'a list \<Rightarrow> 'a list option" where
  "filterM f [] = Some []"
| "filterM f (x # xs) =
     (case f x of None \<Rightarrow> None | Some b \<Rightarrow> map_option (\<lambda>ys. if b then x # ys else ys) (filterM f xs))"

text \<open>Whether the row was claimed by this call; then the deposit is opened, else it is looked up by its quote.\<close>

definition claim_row :: "ustring \<Rightarrow> bool anchor" where
  "claim_row orderId s =
     (case map_of (an_rows s) orderId of
        Some r \<Rightarrow> if ar_dispatched r then (Inr False, s)
                  else (Inr True, s\<lparr> an_rows := AList.update orderId (r\<lparr> ar_dispatched := True \<rparr>) (an_rows s) \<rparr>)
      | None \<Rightarrow> (Inr False, s))"

definition recover_transfer :: "anchor_env \<Rightarrow> json \<Rightarrow> json anchor" where
  "recover_transfer E quote =
     bindA (request E Transfers) (\<lambda>history.
     bindA (someA (filterM (same_quote quote) (case list_of (jprop history ''transactions'') of Some xs \<Rightarrow> xs | None \<Rightarrow> []))) (\<lambda>matches.
     case matches of [t] \<Rightarrow> someA (object (Some t)) | _ \<Rightarrow> failA))"

definition open_transfer :: "anchor_env \<Rightarrow> bank_request \<Rightarrow> json \<Rightarrow> json anchor" where
  "open_transfer E q quote =
     bindA (claim_row (bq_orderId q)) (\<lambda>claimed.
       if \<not> claimed then recover_transfer E quote
       else request E (Deposit (bq_orderId q) (json_text (jprop quote ''id'')) (bq_amountTry q)))"

definition transfer_details :: "anchor_env \<Rightarrow> bank_request \<Rightarrow> json \<Rightarrow> nat \<Rightarrow> bank_instructions option" where
  "transfer_details E q dep n =
     Option.bind (object (jprop dep ''instructions'')) (\<lambda>f.
     Option.bind (object (jprop f ''external_transfer_memo'')) (\<lambda>memo.
     Option.bind (object (jprop f ''bank_account_number'')) (\<lambda>account.
       let field = (\<lambda>k v. case v of None \<Rightarrow> [] | Some j \<Rightarrow> [(k, j)]) in
       parseBankInstructions (JObj
         ([(''providerId'', JStr PROVIDER)] @ field ''transferId'' (jprop dep ''id'') @ [(''orderId'', JStr (bq_orderId q))]
          @ field ''reference'' (jprop memo ''value'') @ field ''iban'' (jprop account ''value'')
          @ [(''beneficiary'', JStr ANCHOR_BENEFICIARY), (''amountTry'', JStr (bq_amountTry q)), (''currency'', JStr (lit ''TRY'')),
             (''expiresAtUnix'', JInt (bq_expiresAtUnix q)), (''sandboxToken'', JStr (ae_random E n))])))))"

definition stored_instructions :: "anchor_row option \<Rightarrow> bank_instructions anchor" where
  "stored_instructions row = someA (Option.bind (Option.bind row ar_instructions) parseBankInstructions)"

text \<open>A row without instructions: quote, open, store, and read back.\<close>

definition open_and_store :: "anchor_env \<Rightarrow> bank_request \<Rightarrow> anchor_row \<Rightarrow> bank_instructions anchor" where
  "open_and_store E q row =
     bindA (firm_quote E q row) (\<lambda>quote.
     bindA (open_transfer E q quote) (\<lambda>dep.
     bindA (\<lambda>s. someA (transfer_details E q dep (length (an_requests s))) s) (\<lambda>details.
     bindA (update_row (bq_orderId q)
         (\<lambda>r. r\<lparr> ar_instructions := (case ar_instructions r of None \<Rightarrow> Some (instructions_json details) | k \<Rightarrow> k) \<rparr>)) (\<lambda>_.
     bindA (row_of (bq_orderId q)) stored_instructions))))"

definition createOnce :: "anchor_env \<Rightarrow> bank_request \<Rightarrow> bank_instructions anchor" where
  "createOnce E q =
     bindA (nowA E) (\<lambda>now.
     bindA (checkA (bq_expiresAtUnix q > now)) (\<lambda>_.
     bindA (insert_row q) (\<lambda>_.
     bindA (row_of (bq_orderId q)) (\<lambda>row_opt.
     bindA (someA row_opt) (\<lambda>row.
     bindA (checkA (ar_request row = request_json q)) (\<lambda>_.
     if ar_instructions row \<noteq> None then stored_instructions (Some row) else open_and_store E q row))))))"

section \<open>Simulating and observing a transfer\<close>

definition bound_row :: "bank_instructions \<Rightarrow> anchor_row anchor" where
  "bound_row d =
     bindA (row_of (bi_orderId d)) (\<lambda>row_opt.
     bindA (someA row_opt) (\<lambda>row.
     bindA (checkA (ar_instructions row = Some (instructions_json d))) (\<lambda>_. retA row)))"

definition anchor_simulate :: "anchor_env \<Rightarrow> bank_instructions \<Rightarrow> unit anchor" where
  "anchor_simulate E d =
     bindA (bound_row d) (\<lambda>_.
     bindA (nowA E) (\<lambda>now.
     bindA (checkA (bi_expiresAtUnix d > now)) (\<lambda>_.
     bindA (request E (Transfer (bi_transferId d))) (\<lambda>r.
     bindA (someA (object (jprop r ''transaction''))) (\<lambda>tx.
     if jprop tx ''status'' \<noteq> Some (JStr (lit ''pending_user_transfer_start'')) then retA ()
     else bindA (request E (SimulateTransfer (bi_transferId d) (bi_amountTry d))) (\<lambda>_. retA ()))))))"

definition transfer_observation :: "bank_instructions \<Rightarrow> transfer_status \<Rightarrow> int option \<Rightarrow> bank_observation" where
  "transfer_observation d status at = \<lparr> bo_providerId = PROVIDER, bo_transferId = bi_transferId d, bo_orderId = bi_orderId d,
     bo_reference = bi_reference d, bo_amountTry = bi_amountTry d, bo_currency = lit ''TRY'', bo_status = status, bo_receivedAtUnix = at \<rparr>"

text \<open>\<open>String(v)\<close> is the given text, for the texts of a pending status: an array of one value reads as that value.\<close>

fun reads_as :: "ustring \<Rightarrow> json \<Rightarrow> bool" where
  "reads_as u (JStr v) = (v = u)"
| "reads_as u (JArr [v]) = reads_as u v"
| "reads_as u _ = False"

definition is_pending :: "json option \<Rightarrow> bool" where
  "is_pending v =
     (case v of None \<Rightarrow> False
      | Some j \<Rightarrow> list_ex (\<lambda>k. reads_as (lit k) j) [''pending_user_transfer_start'', ''pending_anchor'', ''pending_trust''])"

text \<open>The anchor's record of this transfer; \<open>None\<close> is an exception of \<open>units\<close>, in the order of the tests.\<close>

definition same_transfer :: "anchor_env \<Rightarrow> bank_instructions \<Rightarrow> json \<Rightarrow> json \<Rightarrow> bool" where
  "same_transfer E d q t \<longleftrightarrow>
     jprop t ''id'' = Some (JStr (bi_transferId d)) \<and> jprop t ''kind'' = Some (JStr (lit ''deposit'')) \<and> jprop t ''quote_id'' = jprop q ''id''
   \<and> jprop t ''to'' = Some (JStr (ae_account E)) \<and> jprop t ''external_transaction_id'' = Some (JStr (bi_reference d))"

definition equal_units :: "json option \<Rightarrow> json option \<Rightarrow> nat \<Rightarrow> bool option" where
  "equal_units a b n = (case (units a n, units b n) of (Some x, Some y) \<Rightarrow> Some (x = y) | _ \<Rightarrow> None)"

definition completed_transfer :: "bank_instructions \<Rightarrow> json \<Rightarrow> json \<Rightarrow> bool option" where
  "completed_transfer d q t =
     (if jprop t ''status'' \<noteq> Some (JStr (lit ''completed'')) \<or> jprop t ''amount_in_asset'' \<noteq> Some (JStr TRY_ASSET)
         \<or> jprop t ''amount_out_asset'' \<noteq> Some (JStr anchor_asset) then Some False
      else (case equal_units (jprop t ''amount_in'') (Some (JStr (bi_amountTry d))) 2 of
        None \<Rightarrow> None
      | Some False \<Rightarrow> Some False
      | Some True \<Rightarrow>
          (case equal_units (jprop t ''amount_out'') (jprop q ''buy_amount'') 7 of
             None \<Rightarrow> None
           | Some False \<Rightarrow> Some False
           | Some True \<Rightarrow> Some (jprop t ''refunded'' \<noteq> Some (JBool True)
               \<and> (case text_of (jprop t ''stellar_transaction_id'') of Some h \<Rightarrow> is_lower_hex64 h | None \<Rightarrow> False)))))"

definition is_credit :: "anchor_env \<Rightarrow> json \<Rightarrow> json \<Rightarrow> bool option" where
  "is_credit E t v =
     (case object (Some v) of
        None \<Rightarrow> None
      | Some p \<Rightarrow>
          if jprop p ''type'' = Some (JStr (lit ''payment'')) \<and> jprop p ''transaction_successful'' = Some (JBool True)
             \<and> jprop p ''from'' = Some (JStr ANCHOR_TREASURY) \<and> jprop p ''to'' = Some (JStr (ae_account E))
             \<and> jprop p ''asset_code'' = Some (JStr (lit ''USDC'')) \<and> jprop p ''asset_issuer'' = Some (JStr ANCHOR_ISSUER)
          then equal_units (jprop p ''amount'') (jprop t ''amount_out'') 7 else Some False)"

text \<open>\<open>INSERT OR IGNORE\<close> under both unique columns, and the order found under the hash.\<close>

definition book_receipt :: "ustring \<Rightarrow> ustring \<Rightarrow> ustring option anchor" where
  "book_receipt hash orderId s =
     (let rs = (if hash \<in> fst ` set (an_receipts s) \<or> orderId \<in> snd ` set (an_receipts s) then an_receipts s
                else an_receipts s @ [(hash, orderId)])
      in (Inr (map_of rs hash), s\<lparr> an_receipts := rs \<rparr>))"

definition on_chain :: "anchor_env \<Rightarrow> bank_instructions \<Rightarrow> json \<Rightarrow> ustring \<Rightarrow> bank_observation anchor" where
  "on_chain E d t hash =
     bindA (raw E (HorizonTx hash)) (\<lambda>chain.
     bindA (raw E (HorizonOps hash)) (\<lambda>ops.
     bindA (someA (object (jprop ops ''_embedded''))) (\<lambda>embedded.
     let at = ae_date E (jprop chain ''created_at'') in
     bindA (someA (case list_of (jprop embedded ''records'') of None \<Rightarrow> Some False | Some ps \<Rightarrow> someM (is_credit E t) ps)) (\<lambda>exact.
     bindA (nowA E) (\<lambda>now.
     case at of
       Some at \<Rightarrow>
         if jprop chain ''successful'' \<noteq> Some (JBool True) \<or> jprop chain ''hash'' \<noteq> Some (JStr hash) \<or> \<not> exact
            \<or> \<not> is_safe_int at \<or> at > bi_expiresAtUnix d \<or> at > now
         then retA (transfer_observation d TsReview None)
         else
           bindA (book_receipt hash (bi_orderId d)) (\<lambda>owner.
           if owner \<noteq> Some (bi_orderId d) then retA (transfer_observation d TsReview None)
           else
             bindA (update_row (bi_orderId d)
                 (\<lambda>r. r\<lparr> ar_proof := Some (JObj [(''anchorTransaction'', t), (''stellarHash'', JStr hash)]) \<rparr>)) (\<lambda>_.
             retA (transfer_observation d TsReceived (Some at))))
     | None \<Rightarrow> retA (transfer_observation d TsReview None))))))"

definition anchor_retrieve :: "anchor_env \<Rightarrow> bank_instructions \<Rightarrow> bank_observation anchor" where
  "anchor_retrieve E d =
     bindA (bound_row d) (\<lambda>row.
     bindA (someA (object (ar_quote row))) (\<lambda>q.
     bindA (request E (Transfer (bi_transferId d))) (\<lambda>r.
     bindA (someA (object (jprop r ''transaction''))) (\<lambda>t.
     if \<not> same_transfer E d q t then retA (transfer_observation d TsReview None)
     else if is_pending (jprop t ''status'') then retA (transfer_observation d TsPending None)
     else
       bindA (someA (completed_transfer d q t)) (\<lambda>finished.
       if \<not> finished then retA (transfer_observation d TsReview None)
       else on_chain E d t (json_text (jprop t ''stellar_transaction_id'')))))))"

text \<open>A refund is never confirmed: \<open>False\<close> is \<open>pending\<close>.\<close>

definition anchor_refund :: "bank_instructions \<Rightarrow> bool" where "anchor_refund d = False"

section \<open>Histories\<close>

datatype anchor_call =
    Create bank_request
  | Simulate bank_instructions
  | Retrieve bank_instructions
  | QuoteFor int
  | Reboot

definition anchor_step :: "anchor_env \<Rightarrow> anchor_call \<Rightarrow> anchor_state \<Rightarrow> anchor_state" where
  "anchor_step E c s =
     (case c of
        Create q \<Rightarrow> snd (createOnce E q s)
      | Simulate d \<Rightarrow> snd (anchor_simulate E d s)
      | Retrieve d \<Rightarrow> snd (anchor_retrieve E d s)
      | QuoteFor amount \<Rightarrow> snd (anchor_quote E amount s)
      | Reboot \<Rightarrow> s\<lparr> an_token := [] \<rparr>)"

fun anchor_run :: "anchor_env \<Rightarrow> anchor_call list \<Rightarrow> anchor_state \<Rightarrow> anchor_state" where
  "anchor_run E [] s = s"
| "anchor_run E (c # cs) s = anchor_run E cs (anchor_step E c s)"

definition anchor_start :: anchor_state where
  "anchor_start = \<lparr> an_rows = [], an_receipts = [], an_token = [], an_requests = [] \<rparr>"

section \<open>What only grows\<close>

definition row_grows :: "anchor_row \<Rightarrow> anchor_row \<Rightarrow> bool" where
  "row_grows r r' \<longleftrightarrow>
     ar_request r' = ar_request r \<and> (ar_dispatched r \<longrightarrow> ar_dispatched r') \<and> (ar_quote r \<noteq> None \<longrightarrow> ar_quote r' = ar_quote r)
   \<and> (ar_instructions r \<noteq> None \<longrightarrow> ar_instructions r' = ar_instructions r)"

text \<open>No hash and no order has two receipts.\<close>

definition receipts_ok :: "(ustring \<times> ustring) list \<Rightarrow> bool" where
  "receipts_ok rs \<longleftrightarrow> distinct (map fst rs) \<and> distinct (map snd rs)"

definition extends :: "anchor_state \<Rightarrow> anchor_state \<Rightarrow> bool" where
  "extends s s' \<longleftrightarrow>
     (\<forall>k r. map_of (an_rows s) k = Some r \<longrightarrow> (\<exists>r'. map_of (an_rows s') k = Some r' \<and> row_grows r r'))
   \<and> (\<forall>h k. map_of (an_receipts s) h = Some k \<longrightarrow> map_of (an_receipts s') h = Some k)
   \<and> (receipts_ok (an_receipts s) \<longrightarrow> receipts_ok (an_receipts s'))"

definition grows :: "'a anchor \<Rightarrow> bool" where
  "grows m \<longleftrightarrow> (\<forall>s. extends s (snd (m s)))"

lemma row_grows_refl [simp]: "row_grows r r"
  by (simp add: row_grows_def)

lemma row_grows_trans: "row_grows r r' \<Longrightarrow> row_grows r' r'' \<Longrightarrow> row_grows r r''"
  by (auto simp: row_grows_def)

lemma extends_refl [simp]: "extends s s"
  by (auto simp: extends_def)

lemma extends_trans: "extends s s' \<Longrightarrow> extends s' s'' \<Longrightarrow> extends s s''"
  unfolding extends_def by (meson row_grows_trans)

lemma bindA_snd: "snd (bindA m f s) = (case fst (m s) of Inl _ \<Rightarrow> snd (m s) | Inr x \<Rightarrow> snd (f x (snd (m s))))"
  by (cases "m s") (auto simp: bindA_def split: sum.split)

lemma grows_bindA: "grows m \<Longrightarrow> (\<And>x. grows (f x)) \<Longrightarrow> grows (bindA m f)"
  by (auto simp: grows_def bindA_snd split: sum.split intro: extends_trans)

lemma grows_pure: "grows (retA x)" "grows failA" "grows (someA v)" "grows (checkA b)" "grows (nowA E)" "grows (row_of k)"
  by (auto simp: grows_def retA_def failA_def someA_def checkA_def nowA_def row_of_def split: option.split)

lemma grows_raw: "grows (raw E r)"
  by (auto simp: grows_def raw_def someA_def retA_def failA_def Let_def extends_def split: anchor_answer.split option.split)

lemma grows_token: "grows (\<lambda>s. (Inr (), s\<lparr> an_token := t \<rparr>))"
  by (auto simp: grows_def extends_def)

lemma grows_authenticate: "grows (authenticate E)"
  unfolding authenticate_def by (intro grows_bindA grows_pure grows_raw grows_token)

lemma grows_request: "grows (request E r)"
proof -
  have again: "grows (\<lambda>s. case raw E r s of
      (Inl e, s') \<Rightarrow> if e = AnchorStatus 401 then bindA (authenticate E) (\<lambda>_. raw E r) s' else (Inl e, s')
    | (Inr j, s') \<Rightarrow> (Inr j, s'))"
    using grows_raw [of E r] grows_bindA [OF grows_authenticate, of "\<lambda>_. raw E r", OF grows_raw]
    unfolding grows_def by (auto split: prod.split sum.split) (metis extends_trans snd_conv)+
  have "grows (if t then authenticate E else retA ())" for t by (simp add: grows_authenticate grows_pure)
  from grows_bindA [OF this again] show ?thesis unfolding request_def [abs_def] grows_def by simp
qed

lemma grows_update: "(\<And>r. row_grows r (f r)) \<Longrightarrow> grows (update_row k f)"
  by (auto simp: grows_def update_row_def extends_def update_conv' split: option.split)

lemma grows_insert: "grows (insert_row q)"
  by (auto simp: grows_def insert_row_def extends_def update_conv')

lemma grows_claim: "grows (claim_row k)"
  by (auto simp: grows_def claim_row_def extends_def update_conv' row_grows_def split: option.split)

lemma map_of_snoc_new: "h \<notin> fst ` set xs \<Longrightarrow> map_of (xs @ [(h, k)]) = (map_of xs)(h \<mapsto> k)"
  by (induction xs) (auto simp: fun_upd_twist)

lemma grows_receipt: "grows (book_receipt h k)"
  by (auto simp: grows_def book_receipt_def extends_def receipts_ok_def Let_def map_of_snoc_new dest: map_of_SomeD)

lemma grows_if: "grows a \<Longrightarrow> grows b \<Longrightarrow> grows (if c then a else b)"
  by simp

lemma grows_here: "(\<And>n. grows (m n)) \<Longrightarrow> grows (\<lambda>s. m (f s) s)"
  by (simp add: grows_def)

lemmas grows_basic = grows_bindA grows_pure grows_raw grows_request grows_if grows_insert grows_claim grows_receipt

lemma grows_quote: "grows (firm_quote E q row)"
proof -
  have "grows (case ar_quote row of Some j \<Rightarrow> retA (Some row)
       | None \<Rightarrow>
           bindA (request E (FirmQuote (bq_amountTry q))) (\<lambda>j.
           bindA (checkA (quote_ok E q j)) (\<lambda>_.
           bindA (update_row (bq_orderId q) (\<lambda>r. r\<lparr> ar_quote := (case ar_quote r of None \<Rightarrow> Some j | k \<Rightarrow> k) \<rparr>)) (\<lambda>_.
           row_of (bq_orderId q)))))"
    by (cases "ar_quote row") (auto intro!: grows_basic grows_update simp: row_grows_def split: option.split)
  then show ?thesis unfolding firm_quote_def by (intro grows_bindA grows_pure)
qed

lemma grows_open: "grows (open_transfer E q quote)"
  unfolding open_transfer_def recover_transfer_def
  by (intro grows_basic) (auto intro: grows_pure split: list.split)

lemma grows_store: "grows (open_and_store E q row)"
proof -
  have upd: "grows (update_row (bq_orderId q)
      (\<lambda>r. r\<lparr> ar_instructions := (case ar_instructions r of None \<Rightarrow> Some (instructions_json d) | k \<Rightarrow> k) \<rparr>))" for d
    by (rule grows_update) (auto simp: row_grows_def split: option.split)
  have here: "grows (\<lambda>s. someA (transfer_details E q dep (length (an_requests s))) s)" for dep
    by (rule grows_here) (rule grows_pure)
  show ?thesis
    unfolding open_and_store_def stored_instructions_def by (intro grows_basic grows_quote grows_open upd here)
qed

lemma grows_create: "grows (createOnce E q)"
  unfolding createOnce_def stored_instructions_def by (intro grows_basic grows_store)

lemma grows_on_chain: "grows (on_chain E d t h)"
  unfolding on_chain_def Let_def
  by (auto intro!: grows_basic grows_update simp: row_grows_def split: option.split)

lemma grows_retrieve: "grows (anchor_retrieve E d)"
  unfolding anchor_retrieve_def bound_row_def by (intro grows_basic grows_on_chain)

lemma grows_simulate: "grows (anchor_simulate E d)"
  unfolding anchor_simulate_def bound_row_def by (intro grows_basic)

lemma grows_quoting: "grows (anchor_quote E amount)"
  unfolding anchor_quote_def Let_def by (intro grows_basic)

lemma anchor_step_extends: "extends s (anchor_step E c s)"
  using grows_create grows_simulate grows_retrieve grows_quoting
  by (cases c) (auto simp: anchor_step_def grows_def extends_def)

lemma anchor_run_extends: "extends s (anchor_run E cs s)"
  by (induction cs arbitrary: s) (auto intro: extends_trans anchor_step_extends)

section \<open>One deposit\<close>

definition is_deposit :: "ustring \<Rightarrow> anchor_request \<Rightarrow> bool" where
  "is_deposit orderId r = (case r of Deposit k _ _ \<Rightarrow> k = orderId | _ \<Rightarrow> False)"

text \<open>The deposit requests for an order that the anchor did not turn away with 401.\<close>

definition opened :: "anchor_env \<Rightarrow> ustring \<Rightarrow> anchor_state \<Rightarrow> nat" where
  "opened E orderId s =
     length (filter (\<lambda>i. is_deposit orderId (an_requests s ! i) \<and> ae_answer E i (an_requests s ! i) \<noteq> AnswerStatus 401) [0..<length (an_requests s)])"

definition dispatched :: "ustring \<Rightarrow> anchor_state \<Rightarrow> bool" where
  "dispatched orderId s = (case map_of (an_rows s) orderId of Some r \<Rightarrow> ar_dispatched r | None \<Rightarrow> False)"

definition calm :: "anchor_env \<Rightarrow> 'a anchor \<Rightarrow> bool" where
  "calm E m \<longleftrightarrow> (\<forall>s k. opened E k (snd (m s)) = opened E k s \<and> dispatched k (snd (m s)) = dispatched k s)"

definition deposits_ok :: "anchor_env \<Rightarrow> anchor_state \<Rightarrow> bool" where
  "deposits_ok E s \<longleftrightarrow> (\<forall>k. opened E k s \<le> (if dispatched k s then 1 else 0))"

definition safe :: "anchor_env \<Rightarrow> 'a anchor \<Rightarrow> bool" where
  "safe E m \<longleftrightarrow> (\<forall>s. deposits_ok E s \<longrightarrow> deposits_ok E (snd (m s)))"

lemma calm_safe: "calm E m \<Longrightarrow> safe E m"
  by (simp add: calm_def safe_def deposits_ok_def)

lemma safe_bindA: "safe E m \<Longrightarrow> (\<And>x. safe E (f x)) \<Longrightarrow> safe E (bindA m f)"
  by (auto simp: safe_def bindA_snd split: sum.split)

lemma calm_bindA: "calm E m \<Longrightarrow> (\<And>x. calm E (f x)) \<Longrightarrow> calm E (bindA m f)"
  by (auto simp: calm_def bindA_snd split: sum.split)

lemma opened_cong: "an_requests s' = an_requests s \<Longrightarrow> opened E k s' = opened E k s"
  by (simp add: opened_def)

lemma opened_snoc:
  "an_requests s' = an_requests s @ [r] \<Longrightarrow>
     opened E k s' = opened E k s + (if is_deposit k r \<and> ae_answer E (length (an_requests s)) r \<noteq> AnswerStatus 401 then 1 else 0)"
  by (auto simp: opened_def nth_append intro!: arg_cong [where f = length] filter_cong)

lemma calm_pure: "calm E (retA x)" "calm E failA" "calm E (someA v)" "calm E (checkA b)" "calm E (nowA E)" "calm E (row_of k)"
  by (auto simp: calm_def retA_def failA_def someA_def checkA_def nowA_def row_of_def split: option.split)

lemma raw_state: "an_requests (snd (raw E r s)) = an_requests s @ [r]" "an_rows (snd (raw E r s)) = an_rows s"
  "fst (raw E r s) = Inl (AnchorStatus 401) \<longleftrightarrow> ae_answer E (length (an_requests s)) r = AnswerStatus 401"
  by (auto simp: raw_def someA_def retA_def failA_def Let_def split: anchor_answer.splits option.splits)

lemma calm_raw: "(\<And>k. \<not> is_deposit k r) \<Longrightarrow> calm E (raw E r)"
  by (simp add: calm_def opened_snoc [OF raw_state(1)] dispatched_def raw_state(2))

lemma calm_authenticate: "calm E (authenticate E)"
proof -
  have "calm E (\<lambda>s. (Inr (), s\<lparr> an_token := t \<rparr>))" for t by (simp add: calm_def opened_def dispatched_def)
  then show ?thesis unfolding authenticate_def by (intro calm_bindA calm_pure calm_raw) (simp_all add: is_deposit_def)
qed

text \<open>A request, with what it adds when it is a deposit.\<close>

lemma request_opens:
  "opened E k (snd (request E r s)) \<le> opened E k s + (if is_deposit k r then 1 else 0)" "dispatched k (snd (request E r s)) = dispatched k s"
proof -
  have auth: "opened E k (snd (authenticate E s)) = opened E k s" "dispatched k (snd (authenticate E s)) = dispatched k s" for s
    using calm_authenticate by (simp_all add: calm_def)
  have one: "opened E k (snd (raw E r s)) \<le> opened E k s + (if is_deposit k r then 1 else 0)" "dispatched k (snd (raw E r s)) = dispatched k s" for s
    by (simp_all add: opened_snoc [OF raw_state(1)] dispatched_def raw_state(2))
  have turned: "opened E k (snd (raw E r s)) = opened E k s" if "fst (raw E r s) = Inl (AnchorStatus 401)" for s
    using that by (simp add: opened_snoc [OF raw_state(1)] raw_state(3))
  define send where "send s = (case raw E r s of
      (Inl e, s') \<Rightarrow> if e = AnchorStatus 401 then bindA (authenticate E) (\<lambda>_. raw E r) s' else (Inl e, s')
    | (Inr j, s') \<Rightarrow> (Inr j, s'))" for s
  have again: "opened E k (snd (bindA (authenticate E) (\<lambda>_. raw E r) s)) \<le> opened E k s + (if is_deposit k r then 1 else 0)
      \<and> dispatched k (snd (bindA (authenticate E) (\<lambda>_. raw E r) s)) = dispatched k s" for s
    using auth [of s] one [of "snd (authenticate E s)"] by (auto simp: bindA_snd split: sum.split)
  have send: "opened E k (snd (send s)) \<le> opened E k s + (if is_deposit k r then 1 else 0) \<and> dispatched k (snd (send s)) = dispatched k s" for s
  proof (cases "fst (raw E r s) = Inl (AnchorStatus 401)")
    case True
    then have "send s = bindA (authenticate E) (\<lambda>_. raw E r) (snd (raw E r s))" by (cases "raw E r s") (simp add: send_def)
    with again [of "snd (raw E r s)"] turned [OF True] one(2) [of s] show ?thesis by simp
  next
    case False
    then have "snd (send s) = snd (raw E r s)" by (cases "raw E r s") (auto simp: send_def split: sum.split)
    with one [of s] show ?thesis by simp
  qed
  have eq: "request E r s = bindA (if an_token s = [] then authenticate E else retA ()) (\<lambda>_. send) s"
    unfolding request_def send_def [abs_def] ..
  have first: "opened E k (snd ((if t then authenticate E else retA ()) s)) = opened E k s"
    "dispatched k (snd ((if t then authenticate E else retA ()) s)) = dispatched k s" for t
    using auth by (simp_all add: retA_def)
  obtain x s1 where x: "(if an_token s = [] then authenticate E else retA ()) s = (x, s1)" by fastforce
  from first [of "an_token s = []"] have s1: "opened E k s1 = opened E k s" "dispatched k s1 = dispatched k s" by (simp_all add: x)
  show "opened E k (snd (request E r s)) \<le> opened E k s + (if is_deposit k r then 1 else 0)"
    "dispatched k (snd (request E r s)) = dispatched k s"
    using send [of s1] s1 by (cases x; simp add: eq bindA_def x)+
qed

lemma calm_request: "(\<And>k. \<not> is_deposit k r) \<Longrightarrow> calm E (request E r)"
proof -
  assume r: "\<And>k. \<not> is_deposit k r"
  have "opened E k (snd (request E r s)) \<ge> opened E k s" for k s
  proof -
    have raw: "opened E k (snd (raw E r s)) = opened E k s" for s using calm_raw [OF r] by (simp add: calm_def)
    have auth: "opened E k (snd (authenticate E s)) = opened E k s" for s using calm_authenticate by (simp add: calm_def)
    have "opened E k (snd (bindA (authenticate E) (\<lambda>_. raw E r) s)) = opened E k s" for s
      using raw auth by (auto simp: bindA_snd split: sum.split)
    then show ?thesis
      using raw auth by (auto simp: request_def bindA_snd retA_def split: sum.split prod.split) (metis raw snd_conv le_refl)+
  qed
  with request_opens [where E = E and r = r] r show ?thesis by (simp add: calm_def order_antisym)
qed

lemma calm_update: "(\<And>r. ar_dispatched (f r) = ar_dispatched r) \<Longrightarrow> calm E (update_row k f)"
  by (auto simp: calm_def update_row_def dispatched_def opened_def update_conv' split: option.split)

lemma calm_insert: "calm E (insert_row q)"
  by (auto simp: calm_def insert_row_def dispatched_def opened_def update_conv' split: option.split)

lemma calm_receipt: "calm E (book_receipt h k)"
  by (simp add: calm_def book_receipt_def dispatched_def opened_def Let_def)

lemma calm_if: "calm E a \<Longrightarrow> calm E b \<Longrightarrow> calm E (if c then a else b)"
  by simp

lemma calm_here: "(\<And>n. calm E (m n)) \<Longrightarrow> calm E (\<lambda>s. m (f s) s)"
  by (simp add: calm_def)

lemma no_deposit [simp]: "\<not> is_deposit k (Price a)" "\<not> is_deposit k (FirmQuote a)" "\<not> is_deposit k Transfers" "\<not> is_deposit k (Transfer t)"
  "\<not> is_deposit k (SimulateTransfer t a)" "\<not> is_deposit k (HorizonTx h)" "\<not> is_deposit k (HorizonOps h)"
  by (simp_all add: is_deposit_def)

lemmas calm_basic = calm_bindA calm_pure calm_raw calm_request calm_if calm_insert calm_receipt

lemma calm_quote: "calm E (firm_quote E q row)"
proof -
  have "calm E (case ar_quote row of Some j \<Rightarrow> retA (Some row)
       | None \<Rightarrow>
           bindA (request E (FirmQuote (bq_amountTry q))) (\<lambda>j.
           bindA (checkA (quote_ok E q j)) (\<lambda>_.
           bindA (update_row (bq_orderId q) (\<lambda>r. r\<lparr> ar_quote := (case ar_quote r of None \<Rightarrow> Some j | k \<Rightarrow> k) \<rparr>)) (\<lambda>_.
           row_of (bq_orderId q)))))"
    by (cases "ar_quote row") (auto intro!: calm_basic calm_update)
  then show ?thesis unfolding firm_quote_def by (intro calm_bindA calm_pure)
qed

lemma safe_open: "safe E (open_transfer E q quote)"
  unfolding safe_def
proof (intro allI impI)
  fix s assume ok: "deposits_ok E s"
  let ?k = "bq_orderId q"
  have recover: "calm E (recover_transfer E quote)"
    unfolding recover_transfer_def by (intro calm_basic) (auto intro: calm_pure split: list.split)
  consider (Skip) "claim_row ?k s = (Inr False, s)"
    | (Claim) s' where "claim_row ?k s = (Inr True, s')" "\<not> dispatched ?k s" "dispatched ?k s'" "an_requests s' = an_requests s"
        "\<And>j. j \<noteq> ?k \<Longrightarrow> dispatched j s' = dispatched j s"
  proof (cases "dispatched ?k s \<or> map_of (an_rows s) ?k = None")
    case True
    then show thesis by (intro Skip) (auto simp: claim_row_def dispatched_def split: option.splits)
  next
    case False
    then obtain r where r: "map_of (an_rows s) ?k = Some r" "\<not> ar_dispatched r" by (auto simp: dispatched_def)
    then show thesis
      by (intro Claim [of "s\<lparr> an_rows := AList.update ?k (r\<lparr> ar_dispatched := True \<rparr>) (an_rows s) \<rparr>"])
        (simp_all add: claim_row_def dispatched_def update_conv')
  qed
  then show "deposits_ok E (snd (open_transfer E q quote s))"
  proof cases
    case Skip
    with ok calm_safe [OF recover] show ?thesis by (simp add: open_transfer_def bindA_def safe_def)
  next
    case Claim
    let ?r = "Deposit ?k (json_text (jprop quote ''id'')) (bq_amountTry q)"
    have s': "opened E j s' = opened E j s" for j by (rule opened_cong) (rule Claim(4))
    have "opened E j (snd (request E ?r s')) \<le> (if dispatched j (snd (request E ?r s')) then 1 else 0)" for j
    proof (cases "j = ?k")
      case True
      have "opened E ?k s = 0" using ok Claim(2) by (auto simp: deposits_ok_def dest: spec [of _ ?k])
      with True request_opens [where E = E and k = j and r = ?r and s = s'] Claim(3) show ?thesis by (simp add: s' is_deposit_def)
    next
      case False
      then have "\<not> is_deposit j ?r" by (simp add: is_deposit_def)
      with request_opens [where E = E and k = j and r = ?r and s = s'] Claim(5) [OF False] spec [OF ok [unfolded deposits_ok_def], of j]
      show ?thesis by (auto simp: s' split: if_splits)
    qed
    then show ?thesis using Claim(1) by (simp add: open_transfer_def bindA_def deposits_ok_def)
  qed
qed

lemma safe_if: "safe E a \<Longrightarrow> safe E b \<Longrightarrow> safe E (if c then a else b)"
  by simp

lemma safe_create: "safe E (createOnce E q)"
proof -
  have upd: "calm E (update_row (bq_orderId q)
      (\<lambda>r. r\<lparr> ar_instructions := (case ar_instructions r of None \<Rightarrow> Some (instructions_json d) | k \<Rightarrow> k) \<rparr>))" for d
    by (rule calm_update) simp
  have here: "calm E (\<lambda>s. someA (transfer_details E q dep (length (an_requests s))) s)" for dep
    by (rule calm_here) (rule calm_pure)
  have stored: "calm E (stored_instructions row)" for row unfolding stored_instructions_def by (rule calm_pure)
  show ?thesis
    unfolding createOnce_def open_and_store_def
    by (intro safe_bindA safe_if safe_open calm_safe [OF calm_quote] calm_safe [OF upd] calm_safe [OF here] calm_safe [OF stored] calm_safe [OF calm_insert]
        calm_pure [THEN calm_safe])
qed

lemma safe_observers: "safe E (anchor_retrieve E d)" "safe E (anchor_simulate E d)" "safe E (anchor_quote E amount)"
proof -
  have "calm E (on_chain E d t h)" for t h
    unfolding on_chain_def Let_def by (auto intro!: calm_basic calm_update split: option.split)
  then show "safe E (anchor_retrieve E d)"
    unfolding anchor_retrieve_def bound_row_def by (intro calm_safe calm_basic) simp_all
  show "safe E (anchor_simulate E d)"
    unfolding anchor_simulate_def bound_row_def by (intro calm_safe calm_basic) simp_all
  show "safe E (anchor_quote E amount)"
    unfolding anchor_quote_def Let_def by (intro calm_safe calm_basic) simp_all
qed

lemma anchor_step_deposits: "deposits_ok E s \<Longrightarrow> deposits_ok E (anchor_step E c s)"
  using safe_create [of E] safe_observers [of E]
  by (cases c) (auto simp: anchor_step_def safe_def deposits_ok_def opened_def dispatched_def)

lemma anchor_run_deposits: "deposits_ok E s \<Longrightarrow> deposits_ok E (anchor_run E cs s)"
  by (induction cs arbitrary: s) (simp_all add: anchor_step_deposits)

lemma anchor_start_deposits: "deposits_ok E anchor_start"
  by (simp add: deposits_ok_def opened_def anchor_start_def)

text \<open>C18. Whatever the anchor answers, however often an order's transfer is created again, and wherever the process dies, at most
  one deposit request of the order is sent that the anchor does not turn away as unauthenticated, and none before the row
  says that it was dispatched.\<close>

theorem one_bank_deposit_per_order:
  "let s = anchor_run E cs anchor_start in opened E orderId s \<le> (if dispatched orderId s then 1 else 0)"
  using anchor_run_deposits [OF anchor_start_deposits] by (simp add: deposits_ok_def Let_def)

section \<open>The same transfer on every retry\<close>

lemma bindA_Inr:
  assumes "bindA m f s = (Inr y, s2)"
  obtains x s1 where "m s = (Inr x, s1)" and "f x s1 = (Inr y, s2)"
  using assms by (auto simp: bindA_def split: prod.splits sum.splits)

lemma pure_Inr:
  "someA v s = (Inr x, s') \<longleftrightarrow> v = Some x \<and> s' = s" "checkA b s = (Inr u, s') \<longleftrightarrow> b \<and> s' = s" "retA y s = (Inr x, s') \<longleftrightarrow> x = y \<and> s' = s"
  "row_of k s = (Inr r, s') \<longleftrightarrow> r = map_of (an_rows s) k \<and> s' = s" "failA s \<noteq> (Inr x, s')"
  "nowA E s = (Inr t, s') \<longleftrightarrow> t = ae_now E (length (an_requests s)) \<and> s' = s"
  by (auto simp: someA_def checkA_def retA_def failA_def row_of_def nowA_def split: option.splits)

lemma update_row_Inr: "update_row k f s = (Inr u, s') \<Longrightarrow> map_of (an_rows s') k = map_option f (map_of (an_rows s) k)"
  by (auto simp: update_row_def update_conv' split: option.splits)

lemma extends_row: "extends s s' \<Longrightarrow> map_of (an_rows s) k = Some r \<Longrightarrow> \<exists>r'. map_of (an_rows s') k = Some r' \<and> row_grows r r'"
  by (simp add: extends_def)

lemma stored_Inr:
  "stored_instructions row s = (Inr i, s') \<Longrightarrow> s' = s \<and> (\<exists>r j. row = Some r \<and> ar_instructions r = Some j \<and> parseBankInstructions j = Some i)"
  by (auto simp: stored_instructions_def pure_Inr split: Option.bind_splits)

lemma store_reads_back:
  assumes "open_and_store E q row s = (Inr i, s')"
  shows "\<exists>r j. map_of (an_rows s') (bq_orderId q) = Some r \<and> ar_instructions r = Some j \<and> parseBankInstructions j = Some i"
proof -
  from assms obtain x s1 where "row_of (bq_orderId q) s1 = (Inr x, s1)" "stored_instructions x s1 = (Inr i, s')"
    unfolding open_and_store_def by (elim bindA_Inr) (auto simp: row_of_def)
  then show ?thesis by (auto simp: row_of_def dest: stored_Inr)
qed

lemma create_stores:
  assumes "createOnce E q s = (Inr i, s')"
  shows "\<exists>r j. map_of (an_rows s') (bq_orderId q) = Some r \<and> ar_request r = request_json q \<and> ar_instructions r = Some j
    \<and> parseBankInstructions j = Some i"
proof -
  let ?k = "bq_orderId q"
  obtain s1 row where row: "map_of (an_rows s1) ?k = Some row" "ar_request row = request_json q"
    and rest: "(if ar_instructions row \<noteq> None then stored_instructions (Some row) else open_and_store E q row) s1 = (Inr i, s')"
    using assms unfolding createOnce_def by (elim bindA_Inr) (auto simp: pure_Inr)
  show ?thesis
  proof (cases "ar_instructions row")
    case (Some j)
    with rest have "stored_instructions (Some row) s1 = (Inr i, s')" by simp
    with row show ?thesis by (auto dest: stored_Inr)
  next
    case None
    with rest have o': "open_and_store E q row s1 = (Inr i, s')" by simp
    have "extends s1 s'" using grows_store [of E q row] o' unfolding grows_def by (metis snd_conv)
    from extends_row [OF this row(1)] store_reads_back [OF o'] row(2) show ?thesis by (auto simp: row_grows_def)
  qed
qed

text \<open>The provider keeps the promise its port demands: once creating an order's transfer returned instructions, every later call
  for the order, after any calls, deaths and restarts, either fails or returns exactly these, and it only succeeds for the same
  request.\<close>

lemma create_returns_the_same_transfer:
  assumes "createOnce E q s = (Inr i, s1)" and "createOnce E q' (anchor_run E cs s1) = (Inr i', s2)" and "bq_orderId q' = bq_orderId q"
  shows "i' = i \<and> request_json q' = request_json q"
proof -
  from create_stores [OF assms(1)] obtain r j where r: "map_of (an_rows s1) (bq_orderId q) = Some r" "ar_request r = request_json q"
      "ar_instructions r = Some j" "parseBankInstructions j = Some i" by blast
  from create_stores [OF assms(2)] obtain r' j' where r': "map_of (an_rows s2) (bq_orderId q) = Some r'" "ar_request r' = request_json q'"
      "ar_instructions r' = Some j'" "parseBankInstructions j' = Some i'" unfolding assms(3) by blast
  have "extends (anchor_run E cs s1) s2" using grows_create [of E q'] assms(2) unfolding grows_def by (metis snd_conv)
  with anchor_run_extends have "extends s1 s2" by (rule extends_trans)
  from extends_row [OF this r(1)] r r' show ?thesis by (auto simp: row_grows_def)
qed

section \<open>One credit, one order\<close>

text \<open>The last three requests of a state asked for the transfer, a transaction and its operations. The transfer is the order's own and
  completed over the amount of its firm quote in that transaction, which succeeded at the given time, and among its operations is a
  payment of that amount from the anchor's treasury to the collection account.\<close>

definition paid_in :: "anchor_env \<Rightarrow> json \<Rightarrow> ustring \<Rightarrow> int \<Rightarrow> nat \<Rightarrow> bool" where
  "paid_in E t hash at n \<longleftrightarrow>
     (\<exists>chain ops ps p. ae_answer E n (HorizonTx hash) = AnswerBody chain \<and> jprop chain ''successful'' = Some (JBool True)
        \<and> jprop chain ''hash'' = Some (JStr hash) \<and> ae_date E (jprop chain ''created_at'') = Some at
        \<and> ae_answer E (Suc n) (HorizonOps hash) = AnswerBody ops
        \<and> list_of (Option.bind (jprop ops ''_embedded'') (\<lambda>e. jprop e ''records'')) = Some ps
        \<and> p \<in> set ps \<and> is_credit E t p = Some True)"

definition credited :: "anchor_env \<Rightarrow> bank_instructions \<Rightarrow> ustring \<Rightarrow> int \<Rightarrow> anchor_state \<Rightarrow> bool" where
  "credited E d hash at s \<longleftrightarrow>
     (\<exists>xs j t row q. an_requests s = xs @ [Transfer (bi_transferId d), HorizonTx hash, HorizonOps hash]
        \<and> ae_answer E (length xs) (Transfer (bi_transferId d)) = AnswerBody j \<and> jprop j ''transaction'' = Some t
        \<and> map_of (an_rows s) (bi_orderId d) = Some row \<and> ar_quote row = Some q
        \<and> same_transfer E d q t \<and> completed_transfer d q t = Some True \<and> jprop t ''stellar_transaction_id'' = Some (JStr hash)
        \<and> paid_in E t hash at (Suc (length xs)))"

lemma someM_True: "someM f xs = Some True \<Longrightarrow> \<exists>x \<in> set xs. f x = Some True"
  by (induction xs) (auto split: option.splits bool.splits)

lemma raw_Inr: "raw E r s = (Inr j, s') \<Longrightarrow> ae_answer E (length (an_requests s)) r = AnswerBody j \<and> s' = s\<lparr> an_requests := an_requests s @ [r] \<rparr>"
  by (auto simp: raw_def object_def pure_Inr Let_def split: anchor_answer.splits if_splits)

lemma object_Some: "object v = Some j \<longleftrightarrow> v = Some j \<and> is_plain_object j"
  by (auto simp: object_def split: option.splits)

lemma on_chain_received:
  assumes "on_chain E d t hash s = (Inr ob, s')" and "bo_status ob = TsReceived"
  shows "\<exists>at. ob = transfer_observation d TsReceived (Some at) \<and> paid_in E t hash at (length (an_requests s))
    \<and> an_requests s' = an_requests s @ [HorizonTx hash, HorizonOps hash] \<and> at \<le> bi_expiresAtUnix d \<and> is_safe_int at
    \<and> at \<le> ae_now E (length (an_requests s')) \<and> map_of (an_receipts s') hash = Some (bi_orderId d)"
proof -
  from assms(1) obtain chain ops e exact s1 s2 where
      c: "raw E (HorizonTx hash) s = (Inr chain, s1)" and o': "raw E (HorizonOps hash) s1 = (Inr ops, s2)"
    and e: "object (jprop ops ''_embedded'') = Some e"
    and x: "(case list_of (jprop e ''records'') of None \<Rightarrow> Some False | Some ps \<Rightarrow> someM (is_credit E t) ps) = Some exact"
    and rest: "(case ae_date E (jprop chain ''created_at'') of
       Some at \<Rightarrow>
         if jprop chain ''successful'' \<noteq> Some (JBool True) \<or> jprop chain ''hash'' \<noteq> Some (JStr hash) \<or> \<not> exact
            \<or> \<not> is_safe_int at \<or> at > bi_expiresAtUnix d \<or> at > ae_now E (length (an_requests s2))
         then retA (transfer_observation d TsReview None)
         else
           bindA (book_receipt hash (bi_orderId d)) (\<lambda>owner.
           if owner \<noteq> Some (bi_orderId d) then retA (transfer_observation d TsReview None)
           else
             bindA (update_row (bi_orderId d)
                 (\<lambda>r. r\<lparr> ar_proof := Some (JObj [(''anchorTransaction'', t), (''stellarHash'', JStr hash)]) \<rparr>)) (\<lambda>_.
             retA (transfer_observation d TsReceived (Some at))))
     | None \<Rightarrow> retA (transfer_observation d TsReview None)) s2 = (Inr ob, s')"
    unfolding on_chain_def Let_def by (elim bindA_Inr) (auto simp: pure_Inr)
  note c = raw_Inr [OF c] and o' = raw_Inr [OF o']
  obtain at where at: "ae_date E (jprop chain ''created_at'') = Some at"
    using rest assms(2) by (cases "ae_date E (jprop chain ''created_at'')") (auto simp: pure_Inr transfer_observation_def)
  have ok: "jprop chain ''successful'' = Some (JBool True)" "jprop chain ''hash'' = Some (JStr hash)" exact "is_safe_int at"
      "at \<le> bi_expiresAtUnix d" "at \<le> ae_now E (length (an_requests s2))"
    using rest assms(2) unfolding at option.case by (auto simp: pure_Inr transfer_observation_def split: if_splits)
  with rest at have "bindA (book_receipt hash (bi_orderId d)) (\<lambda>owner.
           if owner \<noteq> Some (bi_orderId d) then retA (transfer_observation d TsReview None)
           else
             bindA (update_row (bi_orderId d)
                 (\<lambda>r. r\<lparr> ar_proof := Some (JObj [(''anchorTransaction'', t), (''stellarHash'', JStr hash)]) \<rparr>)) (\<lambda>_.
             retA (transfer_observation d TsReceived (Some at)))) s2 = (Inr ob, s')" by simp
  then obtain owner s3 where b: "book_receipt hash (bi_orderId d) s2 = (Inr owner, s3)"
    and rest2: "(if owner \<noteq> Some (bi_orderId d) then retA (transfer_observation d TsReview None)
           else
             bindA (update_row (bi_orderId d)
                 (\<lambda>r. r\<lparr> ar_proof := Some (JObj [(''anchorTransaction'', t), (''stellarHash'', JStr hash)]) \<rparr>)) (\<lambda>_.
             retA (transfer_observation d TsReceived (Some at)))) s3 = (Inr ob, s')" by (elim bindA_Inr)
  have o3: "owner = Some (bi_orderId d)" using rest2 assms(2) by (auto simp: pure_Inr transfer_observation_def split: if_splits)
  have ob: "ob = transfer_observation d TsReceived (Some at)" and s3: "an_receipts s' = an_receipts s3" "an_requests s' = an_requests s3"
    using rest2 o3 by (auto simp: bindA_def update_row_def retA_def split: option.splits)
  have owner: "map_of (an_receipts s') hash = Some (bi_orderId d)" "an_requests s' = an_requests s2"
    using b o3 s3 by (auto simp: book_receipt_def Let_def)
  from x ok(3) obtain ps p where p: "list_of (jprop e ''records'') = Some ps" "p \<in> set ps" "is_credit E t p = Some True"
    by (auto split: option.splits dest!: someM_True)
  have "paid_in E t hash at (length (an_requests s))"
    unfolding paid_in_def
    by (rule exI [of _ chain], rule exI [of _ ops], rule exI [of _ ps], rule exI [of _ p]) (use c o' ok at e p in \<open>simp add: object_Some\<close>)
  with ob ok owner c o' show ?thesis by auto
qed

lemma request_Inr:
  assumes "request E r s = (Inr j, s')"
  shows "\<exists>xs. an_requests s' = xs @ [r] \<and> ae_answer E (length xs) r = AnswerBody j"
proof -
  have raw: "\<exists>xs. an_requests s' = xs @ [r] \<and> ae_answer E (length xs) r = AnswerBody j" if "raw E r s = (Inr j, s')" for s
    using raw_Inr [OF that] by simp
  from assms obtain s0 where "raw E r s0 = (Inr j, s') \<or> bindA (authenticate E) (\<lambda>_. raw E r) s0 = (Inr j, s')"
    unfolding request_def by (elim bindA_Inr) (auto split: prod.splits sum.splits if_splits)
  then show ?thesis by (auto elim!: bindA_Inr intro: raw)
qed

lemma retrieve_received:
  assumes "anchor_retrieve E d s = (Inr ob, s')" and "bo_status ob = TsReceived"
  shows "\<exists>hash at. ob = transfer_observation d TsReceived (Some at) \<and> credited E d hash at s' \<and> at \<le> bi_expiresAtUnix d
    \<and> map_of (an_receipts s') hash = Some (bi_orderId d)"
proof -
  from assms obtain row q j t s0 s1 where row: "map_of (an_rows s) (bi_orderId d) = Some row" "ar_quote row = Some q"
    and j: "request E (Transfer (bi_transferId d)) s = (Inr j, s1)" and t: "jprop j ''transaction'' = Some t"
    and tests: "same_transfer E d q t" "completed_transfer d q t = Some True"
    and chain: "on_chain E d t (json_text (jprop t ''stellar_transaction_id'')) s1 = (Inr ob, s')"
    unfolding anchor_retrieve_def bound_row_def
    by (elim bindA_Inr) (auto simp: pure_Inr object_Some transfer_observation_def split: if_splits elim!: bindA_Inr)
  from tests(2) obtain h where h: "jprop t ''stellar_transaction_id'' = Some (JStr h)"
    by (auto simp: completed_transfer_def text_of_def split: if_splits option.splits bool.splits json.splits)
  from on_chain_received [OF chain assms(2)] h obtain at where at: "ob = transfer_observation d TsReceived (Some at)"
    "paid_in E t h at (length (an_requests s1))" "an_requests s' = an_requests s1 @ [HorizonTx h, HorizonOps h]" "at \<le> bi_expiresAtUnix d"
    "map_of (an_receipts s') h = Some (bi_orderId d)" by (auto simp: json_text_def)
  from request_Inr [OF j] obtain xs where xs: "an_requests s1 = xs @ [Transfer (bi_transferId d)]"
    "ae_answer E (length xs) (Transfer (bi_transferId d)) = AnswerBody j" by blast
  have "extends s s'" using grows_retrieve [of E d] assms(1) unfolding grows_def by (metis snd_conv)
  from extends_row [OF this row(1)] row(2) obtain row' where "map_of (an_rows s') (bi_orderId d) = Some row'" "ar_quote row' = Some q"
    by (auto simp: row_grows_def)
  with xs t tests h at have "credited E d h at s'" unfolding credited_def by (intro exI [of _ xs] exI [of _ j] exI [of _ t]) simp
  with at show ?thesis by blast
qed

lemma receipt_unique: "receipts_ok rs \<Longrightarrow> map_of rs h = Some k \<Longrightarrow> map_of rs h' = Some k \<Longrightarrow> h' = h"
  using eq_key_imp_eq_value [of "map prod.swap rs" k h h'] by (force simp: receipts_ok_def o_def dest!: map_of_SomeD)


section \<open>A run\<close>

definition demo_hash :: ustring where "demo_hash = replicate 64 97"

definition demo_iban_text :: ustring where "demo_iban_text = lit ''TR330006100519786457841326''"

definition demo_firm :: json where
  "demo_firm = JObj [(''id'', JStr (lit ''q'')), (''sell_asset'', JStr TRY_ASSET), (''buy_asset'', JStr anchor_asset),
     (''sell_amount'', JStr (lit ''4.50'')), (''buy_amount'', JStr (lit ''0.1'')), (''expires_at'', JStr (lit ''later''))]"

definition demo_deposit :: json where
  "demo_deposit = JObj [(''id'', JStr (lit ''d'')), (''instructions'', JObj [(''external_transfer_memo'', JObj [(''value'', JStr (lit ''ref''))]),
     (''bank_account_number'', JObj [(''value'', JStr demo_iban_text)])])]"

definition demo_transaction :: json where
  "demo_transaction = JObj [(''id'', JStr (lit ''d'')), (''kind'', JStr (lit ''deposit'')), (''quote_id'', JStr (lit ''q'')), (''to'', JStr (lit ''GA'')),
     (''external_transaction_id'', JStr (lit ''ref'')), (''status'', JStr (lit ''completed'')), (''amount_in_asset'', JStr TRY_ASSET),
     (''amount_out_asset'', JStr anchor_asset), (''amount_in'', JStr (lit ''4.50'')), (''amount_out'', JStr (lit ''0.1'')),
     (''stellar_transaction_id'', JStr demo_hash)]"

definition demo_credit :: json where
  "demo_credit = JObj [(''type'', JStr (lit ''payment'')), (''transaction_successful'', JBool True), (''from'', JStr ANCHOR_TREASURY), (''to'', JStr (lit ''GA'')),
     (''asset_code'', JStr (lit ''USDC'')), (''asset_issuer'', JStr ANCHOR_ISSUER), (''amount'', JStr (lit ''0.1''))]"

definition demo_answer :: "anchor_request \<Rightarrow> anchor_answer" where
  "demo_answer r =
     (case r of
        AuthChallenge \<Rightarrow> AnswerBody (JObj [(''network_passphrase'', JStr TESTNET_PASSPHRASE), (''transaction'', JStr (lit ''x''))])
      | AuthToken _ \<Rightarrow> AnswerBody (JObj [(''token'', JStr (lit ''t''))])
      | FirmQuote _ \<Rightarrow> AnswerBody demo_firm
      | Deposit _ _ _ \<Rightarrow> AnswerBody demo_deposit
      | Transfer _ \<Rightarrow> AnswerBody (JObj [(''transaction'', demo_transaction)])
      | HorizonTx _ \<Rightarrow> AnswerBody (JObj [(''successful'', JBool True), (''hash'', JStr demo_hash), (''created_at'', JNull)])
      | HorizonOps _ \<Rightarrow> AnswerBody (JObj [(''_embedded'', JObj [(''records'', JArr [demo_credit])])])
      | _ \<Rightarrow> AnswerThrows)"

definition demo_anchor :: anchor_env where
  "demo_anchor = \<lparr> ae_account = lit ''GA'', ae_answer = (\<lambda>_. demo_answer), ae_challenge = (\<lambda>_. Some (lit ''GA'')), ae_sign = (\<lambda>u. u),
     ae_date = (\<lambda>v. if v = Some JNull then Some 800 else Some 1000), ae_now = (\<lambda>_. 850), ae_random = (\<lambda>_. demo_hash) \<rparr>"

definition demo_bank_order :: bank_request where
  "demo_bank_order = \<lparr> bq_minimumUsdcStroops = [], bq_reference = lit ''r'', bq_orderId = lit ''o1'', bq_idempotencyKey = lit ''k'',
     bq_amountTry = lit ''4.50'', bq_expiresAtUnix = 900 \<rparr>"

definition demo_details :: bank_instructions where
  "demo_details = \<lparr> bi_providerId = PROVIDER, bi_transferId = lit ''d'', bi_orderId = lit ''o1'', bi_reference = lit ''ref'', bi_iban = demo_iban_text,
     bi_beneficiary = ANCHOR_BENEFICIARY, bi_amountTry = lit ''4.50'', bi_expiresAtUnix = 900, bi_sandboxToken = Some demo_hash \<rparr>"

lemma demo_units: "units (Some (JStr (lit ''4.50''))) 2 = Some 450" "units (Some (JStr (lit ''0.1''))) 7 = Some 1000000"
proof -
  have "ascii_of (lit ''4.50'') = Some ''4.50''" "ascii_of (lit ''0.1'') = Some ''0.1''" by (rule ascii_of_lit, simp)+
  moreover have "replicate (6::nat) CHR ''0'' = ''000000''" by code_simp
  ultimately show "units (Some (JStr (lit ''4.50''))) 2 = Some 450" "units (Some (JStr (lit ''0.1''))) 7 = Some 1000000"
    by (simp_all add: units_def is_digit_def dec_nat_def digit_val_def Let_def)
qed

lemma demo_parsed:
  "parseBankInstructions (instructions_json demo_details) = Some demo_details"
  "transfer_details demo_anchor demo_bank_order demo_deposit n = Some demo_details"
proof -
  have iban: "validTurkishIban (Some (JStr demo_iban_text))" unfolding demo_iban_text_def by (rule demo_iban)
  have hex: "is_lower_hex64 demo_hash" by (simp add: is_lower_hex64_def demo_hash_def list_all_iff)
  note defs = parseBankInstructions_def bank_text_def iban demo_price positive_time_def is_safe_int_def json_text_def sandbox_token_def
    demo_details_def PROVIDER_def ANCHOR_BENEFICIARY_def hex
  show "parseBankInstructions (instructions_json demo_details) = Some demo_details"
    by (simp add: instructions_json_def opt_field_def defs)
  show "transfer_details demo_anchor demo_bank_order demo_deposit n = Some demo_details"
    by (simp add: transfer_details_def object_def is_plain_object_def demo_deposit_def demo_bank_order_def demo_anchor_def Let_def defs)
qed

lemma demo_quoted: "quote_ok demo_anchor demo_bank_order demo_firm"
  by (simp add: quote_ok_def demo_firm_def demo_bank_order_def demo_anchor_def demo_units text_of_def parseBigInt_def js_trim_def)

lemma demo_env:
  "ae_answer demo_anchor n = demo_answer" "ae_now demo_anchor n = 850" "ae_challenge demo_anchor x = Some (lit ''GA'')"
  "ae_account demo_anchor = lit ''GA''" "ae_sign demo_anchor x = x"
  by (simp_all add: demo_anchor_def)

lemma demo_request:
  assumes "an_token s = lit ''t''" and "demo_answer r = AnswerBody j" and "is_plain_object j"
  shows "request demo_anchor r s = (Inr j, s\<lparr> an_requests := an_requests s @ [r] \<rparr>)"
  using assms by (simp add: request_def bindA_def retA_def raw_def someA_def object_def demo_env Let_def)

lemma demo_signs_in:
  assumes "an_token s = []" and "demo_answer r = AnswerBody j" and "is_plain_object j"
  shows "request demo_anchor r s =
    (Inr j, s\<lparr> an_token := lit ''t'', an_requests := an_requests s @ [AuthChallenge, AuthToken (lit ''x''), r] \<rparr>)"
proof -
  let ?c = "JObj [(''network_passphrase'', JStr TESTNET_PASSPHRASE), (''transaction'', JStr (lit ''x''))]"
  let ?t = "JObj [(''token'', JStr (lit ''t''))]"
  have raw: "raw demo_anchor AuthChallenge s = (Inr ?c, s\<lparr> an_requests := an_requests s @ [AuthChallenge] \<rparr>)"
    "raw demo_anchor (AuthToken (lit ''x'')) s = (Inr ?t, s\<lparr> an_requests := an_requests s @ [AuthToken (lit ''x'')] \<rparr>)" for s
    by (simp_all add: raw_def someA_def retA_def object_def is_plain_object_def demo_env demo_answer_def)
  have "authenticate demo_anchor s = (Inr (), s\<lparr> an_token := lit ''t'', an_requests := an_requests s @ [AuthChallenge, AuthToken (lit ''x'')] \<rparr>)"
    by (simp add: authenticate_def bindA_def raw checkA_def someA_def retA_def text_of_def demo_env)
  then show ?thesis
    using assms by (simp add: request_def bindA_def raw_def someA_def retA_def object_def demo_env Let_def)
qed

definition demo_anchor_row :: anchor_row where
  "demo_anchor_row = \<lparr> ar_request = request_json demo_bank_order, ar_quote = Some demo_firm, ar_dispatched = True,
     ar_instructions = Some (instructions_json demo_details), ar_proof = None \<rparr>"

definition demo_stored :: anchor_state where
  "demo_stored = \<lparr> an_rows = [(lit ''o1'', demo_anchor_row)], an_receipts = [], an_token = lit ''t'',
     an_requests = [AuthChallenge, AuthToken (lit ''x''), FirmQuote (lit ''4.50''), Deposit (lit ''o1'') (lit ''q'') (lit ''4.50'')] \<rparr>"

lemma demo_plain: "is_plain_object demo_firm" "is_plain_object demo_deposit" "is_plain_object demo_transaction"
  by (simp_all add: is_plain_object_def demo_firm_def demo_deposit_def demo_transaction_def)

lemma demo_order_fields: "bq_orderId demo_bank_order = lit ''o1''" "bq_amountTry demo_bank_order = lit ''4.50''" "bq_expiresAtUnix demo_bank_order = 900"
  by (simp_all add: demo_bank_order_def)

lemma demo_firm_quote:
  assumes "an_token s = []" and "an_rows s = [(lit ''o1'', r)]" and "ar_quote r = None"
  shows "firm_quote demo_anchor demo_bank_order r s = (Inr demo_firm,
    s\<lparr> an_token := lit ''t'', an_requests := an_requests s @ [AuthChallenge, AuthToken (lit ''x''), FirmQuote (lit ''4.50'')],
       an_rows := [(lit ''o1'', r\<lparr> ar_quote := Some demo_firm \<rparr>)] \<rparr>)"
proof -
  have "demo_answer (FirmQuote (lit ''4.50'')) = AnswerBody demo_firm" by (simp add: demo_answer_def)
  note asked = demo_signs_in [OF assms(1) this demo_plain(1)]
  show ?thesis
    using assms(2,3) by (simp add: firm_quote_def demo_order_fields bindA_def asked checkA_def demo_quoted retA_def update_row_def row_of_def someA_def object_def demo_plain demo_order_fields)
qed

lemma demo_open:
  assumes "an_token s = lit ''t''" and "an_rows s = [(lit ''o1'', r)]" and "\<not> ar_dispatched r"
  shows "open_transfer demo_anchor demo_bank_order demo_firm s = (Inr demo_deposit,
    s\<lparr> an_requests := an_requests s @ [Deposit (lit ''o1'') (lit ''q'') (lit ''4.50'')], an_rows := [(lit ''o1'', r\<lparr> ar_dispatched := True \<rparr>)] \<rparr>)"
proof -
  have claimed: "claim_row (lit ''o1'') s = (Inr True, s\<lparr> an_rows := [(lit ''o1'', r\<lparr> ar_dispatched := True \<rparr>)] \<rparr>)"
    using assms by (simp add: claim_row_def)
  have quote: "json_text (jprop demo_firm ''id'') = lit ''q''" by (simp add: demo_firm_def json_text_def)
  have "demo_answer (Deposit (lit ''o1'') (lit ''q'') (lit ''4.50'')) = AnswerBody demo_deposit" by (simp add: demo_answer_def)
  then show ?thesis
    using assms(1) by (simp add: open_transfer_def bindA_def claimed quote demo_order_fields demo_request demo_plain)
qed

lemma demo_created: "createOnce demo_anchor demo_bank_order anchor_start = (Inr demo_details, demo_stored)"
proof -
  define r where "r = \<lparr> ar_request = request_json demo_bank_order, ar_quote = None, ar_dispatched = False, ar_instructions = None, ar_proof = None \<rparr>"
  define s where "s = anchor_start\<lparr> an_rows := [(lit ''o1'', r)] \<rparr>"
  have start: "an_token s = []" "an_rows s = [(lit ''o1'', r)]" "ar_quote r = None" by (simp_all add: s_def r_def anchor_start_def)
  have "createOnce demo_anchor demo_bank_order anchor_start = open_and_store demo_anchor demo_bank_order r s"
    by (simp add: createOnce_def bindA_def nowA_def checkA_def retA_def insert_row_def row_of_def someA_def demo_env demo_order_fields
        s_def r_def anchor_start_def)
  also have "\<dots> = (Inr demo_details, s\<lparr> an_token := lit ''t'',
      an_requests := [AuthChallenge, AuthToken (lit ''x''), FirmQuote (lit ''4.50''), Deposit (lit ''o1'') (lit ''q'') (lit ''4.50'')],
      an_rows := [(lit ''o1'', r\<lparr> ar_quote := Some demo_firm, ar_dispatched := True, ar_instructions := Some (instructions_json demo_details) \<rparr>)] \<rparr>)"
  proof -
    have "\<not> ar_dispatched (r\<lparr> ar_quote := Some demo_firm \<rparr>)" "ar_instructions r = None" "an_requests s = []"
      by (simp_all add: r_def s_def anchor_start_def)
    then show ?thesis
      by (simp add: open_and_store_def bindA_def demo_firm_quote [OF start] demo_open [where r = "r\<lparr> ar_quote := Some demo_firm \<rparr>"] someA_def
          retA_def demo_parsed update_row_def row_of_def stored_instructions_def demo_order_fields)
  qed
  also have "\<dots> = (Inr demo_details, demo_stored)"
    by (simp add: s_def r_def anchor_start_def demo_stored_def demo_anchor_row_def)
  finally show ?thesis .
qed

lemma demo_created_again: "createOnce demo_anchor demo_bank_order demo_stored = (Inr demo_details, demo_stored)"
  by (simp add: createOnce_def bindA_def nowA_def checkA_def retA_def insert_row_def row_of_def someA_def demo_env demo_order_fields
      stored_instructions_def demo_stored_def demo_anchor_row_def demo_parsed)

lemma created_twice:
  "createOnce demo_anchor demo_bank_order anchor_start = (Inr demo_details, demo_stored)
   \<and> createOnce demo_anchor demo_bank_order (anchor_run demo_anchor [Reboot, Create demo_bank_order] demo_stored)
       = (Inr demo_details, demo_stored\<lparr> an_token := [] \<rparr>)
   \<and> demo_details = demo_details \<and> request_json demo_bank_order = request_json demo_bank_order"
proof -
  have again: "createOnce demo_anchor demo_bank_order (demo_stored\<lparr> an_token := [] \<rparr>) = (Inr demo_details, demo_stored\<lparr> an_token := [] \<rparr>)"
    by (simp add: createOnce_def bindA_def nowA_def checkA_def retA_def insert_row_def row_of_def someA_def demo_env demo_order_fields
        stored_instructions_def demo_stored_def demo_anchor_row_def demo_parsed)
  have run: "createOnce demo_anchor demo_bank_order (anchor_run demo_anchor [Reboot, Create demo_bank_order] demo_stored)
      = (Inr demo_details, demo_stored\<lparr> an_token := [] \<rparr>)"
    by (simp add: anchor_step_def again)
  from create_returns_the_same_transfer [OF demo_created run] demo_created run show ?thesis by simp
qed

lemma demo_checked:
  "same_transfer demo_anchor demo_details demo_firm demo_transaction" "\<not> is_pending (jprop demo_transaction ''status'')"
  "completed_transfer demo_details demo_firm demo_transaction = Some True" "is_credit demo_anchor demo_transaction demo_credit = Some True"
  "json_text (jprop demo_transaction ''stellar_transaction_id'') = demo_hash"
proof -
  have hex: "is_lower_hex64 demo_hash" by (simp add: is_lower_hex64_def demo_hash_def list_all_iff)
  show "same_transfer demo_anchor demo_details demo_firm demo_transaction"
    by (simp add: same_transfer_def demo_transaction_def demo_firm_def demo_details_def demo_env)
  show "\<not> is_pending (jprop demo_transaction ''status'')"
    by (simp add: is_pending_def demo_transaction_def lit_def)
  show "completed_transfer demo_details demo_firm demo_transaction = Some True"
    by (simp add: completed_transfer_def demo_transaction_def demo_firm_def demo_details_def equal_units_def demo_units text_of_def hex)
  show "is_credit demo_anchor demo_transaction demo_credit = Some True"
    by (simp add: is_credit_def object_def is_plain_object_def demo_credit_def demo_transaction_def demo_env equal_units_def demo_units)
  show "json_text (jprop demo_transaction ''stellar_transaction_id'') = demo_hash"
    by (simp add: demo_transaction_def json_text_def)
qed

definition demo_observed :: "(ustring \<times> ustring) list \<Rightarrow> anchor_row \<Rightarrow> anchor_state \<Rightarrow> anchor_state" where
  "demo_observed rs r s = s\<lparr> an_requests := an_requests s @ [Transfer (lit ''d''), HorizonTx demo_hash, HorizonOps demo_hash], an_receipts := rs,
     an_rows := [(lit ''o1'', r\<lparr> ar_proof := Some (JObj [(''anchorTransaction'', demo_transaction), (''stellarHash'', JStr demo_hash)]) \<rparr>)] \<rparr>"

lemma demo_on_chain:
  assumes "an_rows s = [(lit ''o1'', r)]" and "an_receipts s = [] \<or> an_receipts s = [(demo_hash, lit ''o1'')]"
  shows "on_chain demo_anchor demo_details demo_transaction demo_hash s = (Inr (transfer_observation demo_details TsReceived (Some 800)),
    s\<lparr> an_requests := an_requests s @ [HorizonTx demo_hash, HorizonOps demo_hash], an_receipts := [(demo_hash, lit ''o1'')],
       an_rows := [(lit ''o1'', r\<lparr> ar_proof := Some (JObj [(''anchorTransaction'', demo_transaction), (''stellarHash'', JStr demo_hash)]) \<rparr>)] \<rparr>)"
proof -
  let ?tx = "JObj [(''successful'', JBool True), (''hash'', JStr demo_hash), (''created_at'', JNull)]"
  let ?ops = "JObj [(''_embedded'', JObj [(''records'', JArr [demo_credit])])]"
  have raw: "raw demo_anchor (HorizonTx demo_hash) s = (Inr ?tx, s\<lparr> an_requests := an_requests s @ [HorizonTx demo_hash] \<rparr>)"
    "raw demo_anchor (HorizonOps demo_hash) s = (Inr ?ops, s\<lparr> an_requests := an_requests s @ [HorizonOps demo_hash] \<rparr>)" for s
    by (simp_all add: raw_def someA_def retA_def object_def is_plain_object_def demo_env demo_answer_def)
  have details: "bi_orderId demo_details = lit ''o1''" "bi_expiresAtUnix demo_details = 900" by (simp_all add: demo_details_def)
  have at: "ae_date demo_anchor (Some JNull) = Some 800" "is_safe_int 800" by (simp_all add: demo_anchor_def is_safe_int_def)
  from assms show ?thesis
    by (auto simp: on_chain_def bindA_def raw someA_def retA_def object_def is_plain_object_def list_of_def demo_checked nowA_def demo_env at details
        book_receipt_def update_row_def)
qed

lemma demo_retrieved:
  assumes "an_token s = lit ''t''" and "an_rows s = [(lit ''o1'', r)]" and "ar_quote r = Some demo_firm"
    and "ar_instructions r = Some (instructions_json demo_details)" and "an_receipts s = [] \<or> an_receipts s = [(demo_hash, lit ''o1'')]"
  shows "anchor_retrieve demo_anchor demo_details s =
    (Inr (transfer_observation demo_details TsReceived (Some 800)), demo_observed [(demo_hash, lit ''o1'')] r s)"
proof -
  have details: "bi_orderId demo_details = lit ''o1''" "bi_transferId demo_details = lit ''d''" by (simp_all add: demo_details_def)
  have "demo_answer (Transfer (lit ''d'')) = AnswerBody (JObj [(''transaction'', demo_transaction)])" by (simp add: demo_answer_def)
  note asked = demo_request [OF assms(1) this]
  show ?thesis
    using assms(2-5) by (simp add: anchor_retrieve_def bound_row_def bindA_def row_of_def someA_def retA_def checkA_def details object_def demo_plain
        asked is_plain_object_def [of "JObj _"] demo_checked demo_on_chain [of _ r] demo_observed_def)
qed


end
