(* ===== verification/Spec2Isabelle.thy ===== *)
theory Spec2Isabelle
  imports Channel_Pool Append_Log Oracle Bridge_System Settlement Alarms Reconcile Durable_Store Mint_Client Content_Lifecycle Anchor_Provider
begin

text \<open>
  Verification of Troia, a settlement bridge in TypeScript: a customer pays Turkish lira by card or bank transfer, and the
  merchant receives USDC from the operator's pool contract on Stellar. Paths below are relative to \<^verbatim>\<open>src/\<close>.

  \<^bold>\<open>The program and its parts\<close>

  The browser extension (\<^verbatim>\<open>app/extension\<close>) finds a payment request in a shop's page and posts an intent to the server. The
  HTTP layer (\<^verbatim>\<open>packages/backend/src/http\<close>) checks session and request, prices the order, builds a validated payout, registers the
  order and starts it in the settlement engine (\<^verbatim>\<open>backend/src/engine\<close>). The engine folds the pure order machine of
  \<^verbatim>\<open>packages/core\<close> over the effects it asks for: reserve pool funds, charge the card (\<^verbatim>\<open>packages/psp\<close>), allocate a sequence
  number, submit and observe the payment (\<^verbatim>\<open>packages/stellar-client\<close>), reverse the charge. Webhooks and a poll worker feed the
  machine later events. Around it, workers refill the pool and keep the books (\<^verbatim>\<open>backend/src/settlement\<close>, \<^verbatim>\<open>packages/ledger\<close>),
  watch every outflow of the pool, and compare each order with the chain; an offline program (\<^verbatim>\<open>packages/reconciler\<close>) produces
  signed reports. The stores under \<^verbatim>\<open>packages/composition\<close> make all of it survive a death of the process.

  \<^bold>\<open>Which theory models what\<close>

  Core (\<^verbatim>\<open>packages/core/src\<close>).

  \<^item> \<open>Troia_Prelude\<close>: strings of 16-bit units, JSON values, decimal texts, shared lemmas and collections.
  \<^item> \<open>State_Machine\<close> (\<^verbatim>\<open>state-machine.ts\<close>): states, events, effects and the reducer \<open>step\<close>. A payment is submitted only after the
    reservation and the charge; a charge is voided only when a payment is ruled out.
  \<^item> \<open>Derive_Ids\<close>, \<open>Payout_Intent\<close> (\<^verbatim>\<open>derive-ids.ts\<close>, \<^verbatim>\<open>strkey.ts\<close>, \<^verbatim>\<open>payout-intent.ts\<close>): injective preimages of the memo, the replay id
    and the keys; the payout constructor reports the first violated rule.
  \<^item> \<open>Sequence_Allocator\<close>, \<open>Channel_Pool\<close> (\<^verbatim>\<open>sequence-allocator.ts\<close>, \<^verbatim>\<open>channel-pool.ts\<close>): no sequence number is held by two orders
    or handed out again. The shared contract is the locale \<open>seq_provider\<close>, interpreted for both.

  The order's way (\<^verbatim>\<open>packages/backend/src\<close>, \<^verbatim>\<open>psp\<close>, \<^verbatim>\<open>pricing\<close>, \<^verbatim>\<open>oracle\<close>).

  \<^item> \<open>Pricing\<close>, \<open>Oracle\<close>: spread, gross-up, risk buffer, price text; the aggregation of rate sources; the server-side pricer.
  \<^item> \<open>Psp\<close>, \<open>Bank_Transfer\<close>: when a provider's answer counts as a captured sale, the webhook signature, the bank-transfer
    checkout.
  \<^item> \<open>Reservation\<close>, \<open>Evidence\<close>, \<open>Order_Store\<close> (\<^verbatim>\<open>store/\<close>): the solvency ledger with its await points, the settlement evidence and the
    in-memory store. \<open>solvent\<close> is the locale of a ledger that never over-commits.
  \<^item> \<open>Engine\<close>, \<open>Engine_Runs\<close> (\<^verbatim>\<open>engine/\<close>): the effect plan, the handlers of every effect and the loop; a run returns within its fuel,
    submits only payments of the order's own facts, and starts nothing twice.
  \<^item> \<open>Sessions\<close>, \<open>Http_App\<close>, \<open>Poll_Worker\<close> (\<^verbatim>\<open>http/\<close>, \<^verbatim>\<open>worker/poll-worker.ts\<close>): tokens and budgets, the handlers, one tick of the worker.
  \<^item> \<open>Payout_Once\<close>, \<open>Bridge_System\<close>: histories of the whole bridge, in which sections of different requests interleave; every
    order is paid out at most once and with the facts it is registered with.

  The chain (\<^verbatim>\<open>packages/stellar-client/src\<close>).

  \<^item> \<open>Stellar_Client\<close> (\<^verbatim>\<open>outcomes.ts\<close>, \<^verbatim>\<open>deadness.ts\<close>, \<^verbatim>\<open>client.ts\<close>): normalised outcomes and the verdict that a transaction is dead.
  \<^item> \<open>Rpc_Adapter\<close> (\<^verbatim>\<open>rpc-adapter.ts\<close>, \<^verbatim>\<open>soroban-reads.ts\<close>, \<^verbatim>\<open>composition/src/stellar-port.ts\<close>): what becomes of a node's answers.
  \<^item> \<open>Payment_Tx\<close> (\<^verbatim>\<open>build.ts\<close>, \<^verbatim>\<open>assemble.ts\<close>, \<^verbatim>\<open>signer.ts\<close>), \<open>Mint_Client\<close> (\<^verbatim>\<open>sac-mint.ts\<close>, \<^verbatim>\<open>mint-client.ts\<close>): the transactions sent.

  \<^item> \<open>Anchor_Provider\<close> (\<^verbatim>\<open>composition/src/tr-mock-anchor-provider.ts\<close>): the bank-transfer provider of the sandbox with its tables. An
    order opens one deposit, its instructions never change, and a credit on the chain counts for one order.

  Books, watchers and durability.

  \<^item> \<open>Ledger\<close>: double entry and its journal; it declares the locale \<open>codec\<close> that every record format interprets.
  \<^item> \<open>Settlement\<close> (\<^verbatim>\<open>settlement/\<close>): refill intents, the worker and its crashes. \<open>worker_invariant\<close> lifts what one tick keeps to every
    life of the process.
  \<^item> \<open>Alarms\<close>, \<open>Chain_Records\<close>, \<open>Pool_Watch\<close>, \<open>Reconcile\<close>, \<open>Ground_Truth\<close>: the monitors (locale \<open>episode_latch\<close>), the record formats, the
    watcher of the pool's outflows, the running and the offline reconciler (locales \<open>replayed_log\<close>, \<open>comparator\<close>).
  \<^item> \<open>Append_Log\<close>, \<open>Order_Codecs\<close>, \<open>Durable_Store\<close> (\<^verbatim>\<open>composition/src\<close>): the crash-safe file at byte level, the formats of the order
    database, the SQLite store. \<open>call_simulation\<close> is the refinement of the in-memory store, and boots after a crash are characterised.

  The extension (\<^verbatim>\<open>app/extension/src\<close>).

  \<^item> \<open>Extension_Lib\<close>, \<open>Strkey_Text\<close>, \<open>Extension_Request\<close> (\<^verbatim>\<open>lib/\<close>): amounts, addresses, the payment request, the intent body; what the
    server can still refuse.
  \<^item> \<open>Extension_Http\<close> (\<^verbatim>\<open>lib/backend.ts\<close>, \<^verbatim>\<open>background.ts\<close>): the requests of one click and the worker.
  \<^item> \<open>Extension_Content\<close>, \<open>Content_Lifecycle\<close> (\<^verbatim>\<open>content.ts\<close>, \<^verbatim>\<open>lib/banner.ts\<close>): the script in the page under any order of events.

  \<^bold>\<open>How code becomes definitions\<close>

  Classes are records of their fields and methods functions from state to result and state; an exception is \<open>Inl\<close> or \<open>None\<close>;
  a \<open>Map\<close> is an association list in insertion order; bigints are \<open>int\<close>; hashes and keys are lists of bytes at width 8. What the
  environment answers is a function of the number of the call, so a theorem holds for every behaviour of the ports. JSON
  text is abstracted to its value. A durable append has a fate (written, lost, written although the process died), and an
  effect outside the process may be followed by its death.

  \<^bold>\<open>Bounds and fuel\<close>

  The engine's loop takes \<open>run_fuel\<close> steps: twice one more than the revert budget, one more than the reversal budget, and 7.
  \<open>run_reaches_quiescence\<close> shows that no run needs more. The finality poll of a mint, the attempts of a simulated bank transfer (2)
  and the polls of an order's status (400 and 80) are the code's own bounds. Machine width matters in the time-to-live arithmetic,
  the 128-bit amounts, the base32 accumulator (32 bits, wrapping) and the checksum (16 bits); these are words.

  \<^bold>\<open>What the theorems rest on\<close>

  \<^item> The code under an order's lock runs without another section of the same order in between; sections of different requests
    interleave freely. Calls of one JavaScript process are atomic between two \<open>await\<close>s.
  \<^item> The engine runs over the in-memory store with a single operator account; \<open>durable_store_refines_memory_store\<close> transfers
    what the calls answer to the durable one, and \<open>restart_finds_unsettled_holds\<close> says what a crash leaves.
  \<^item> Parameters stand for code outside the repository: Unicode normalisation, SHA-256 and HMAC, StrKey and XDR of the Stellar SDK, Ed25519,
    URL decoding, the double arithmetic of the oracle, the RPC node, the provider and the database file. Hypotheses on them state
    documented behaviour, such as that normalisation is idempotent and an account's sequence number only grows.
  \<^item> The refill theorems take the contract of the mint port, that a call which throws minted nothing, from its documentation.
    \<open>unconfirmed_mint_is_rejected\<close> shows that the deployed client breaks it.
  \<^item> The worker of the extension takes each message to its end before the next; the content script is modelled with all
    interleavings of its callbacks.

  \<^bold>\<open>What the runs show\<close>

  Most theorems confirm what the code means to do. Where a run contradicts a comment, a test or the intention, a lemma states
  it: besides the mint, \<open>late_answer_ends_new_polling\<close> and \<open>completed_twice_tells_twice\<close> for the content script, and lemmas in \<open>Pool_Watch\<close>,
  \<open>Settlement\<close> and others next to the operation they are about.

  \<^bold>\<open>Not modelled\<close>

  The composition root, timers, environment variables, logging and the lock of the data directory (I/O and wiring); the
  assembly of provider requests and the generic HTTP client of a bank, whose answers are judged in \<open>Psp\<close> and \<open>Bank_Transfer\<close>; the
  React shops, the wizard's, popup's and anchor page's rendering; the texts shown to users; the pool contract in Rust, of
  which the theories use that a transfer happens at most once per payment id, and its error codes; scripts and tests.
\<close>

end
